(* ===== verification/Prelude.thy ===== *)
theory Prelude
  imports Main "HOL-Library.Word" "HOL-Library.Monad_Syntax"
begin

section \<open>Prelude: C values, arrays and loops\<close>

text \<open>
  Vocabulary shared by the component theories. A C function is a function on an explicit
  state whose result is an \<^typ>\<open>'a option\<close>: \<^const>\<open>None\<close> stands for undefined behaviour
  (an access outside an array, a null pointer passed to a string function, a division by
  zero), so that a theorem \<open>f s = Some r\<close> also says that the call is memory safe. Error
  codes that the code returns are ordinary values inside the result.

  Machine integers that the code compares, truncates or wraps are words
  (\<open>u8\<close>, \<open>u16\<close>, \<open>u32\<close>); array indices and loop counters are natural numbers. A pointer
  or an \<open>OMX_HANDLETYPE\<close> is a 32-bit word and \<open>NULL\<close> is 0, as on the 32-bit target.

  The theory holds: bounded array access (\<open>rd\<close>, \<open>wr\<close>), the search loop \<open>scan\<close> and the
  shift-down loop \<open>shift_down\<close> that the managers use on their tables, their closed forms
  on the used prefix of the array, and two interfaces: \<open>table_registry\<close> for a table with
  a used prefix and \<open>guarded_machine\<close> for a state machine with an invariant.
\<close>

named_theorems c_simps \<open>unfolding rules for the bounded array operations\<close>

type_synonym u8 = "8 word"
type_synonym u16 = "16 word"
type_synonym u32 = "32 word"

type_synonym handle = "32 word"

abbreviation NULL :: handle where
  "NULL \<equiv> 0"

subsection \<open>Bounded array access\<close>

definition rd :: "'a list \<Rightarrow> nat \<Rightarrow> 'a option" where
  "rd a i = (if i < length a then Some (a ! i) else None)"

definition wr :: "'a list \<Rightarrow> nat \<Rightarrow> 'a \<Rightarrow> 'a list option" where
  "wr a i v = (if i < length a then Some (a[i := v]) else None)"

lemma rd_in [simp]: "i < length a \<Longrightarrow> rd a i = Some (a ! i)"
  by (simp add: rd_def)

lemma wr_in [simp]: "i < length a \<Longrightarrow> wr a i v = Some (a[i := v])"
  by (simp add: wr_def)

lemma rd_Some_iff: "rd a i = Some x \<longleftrightarrow> i < length a \<and> x = a ! i"
  by (auto simp: rd_def)

lemma wr_Some_iff: "wr a i v = Some b \<longleftrightarrow> i < length a \<and> b = a[i := v]"
  by (auto simp: wr_def)

lemma rd_None_iff: "rd a i = None \<longleftrightarrow> length a \<le> i"
  by (auto simp: rd_def)

lemma wr_None_iff: "wr a i v = None \<longleftrightarrow> length a \<le> i"
  by (auto simp: wr_def)

declare rd_Some_iff [c_simps] wr_Some_iff [c_simps] rd_None_iff [c_simps] wr_None_iff [c_simps]

subsection \<open>The first-match loop\<close>

text \<open>
  \<open>for (i = 0; i < n; i++) if (P(a[i])) { match = i; break; }\<close>: the result is the index of
  the first match, or \<^const>\<open>None\<close> where the code leaves \<open>match\<close> at -1. The outer option is
  the fault of reading past the end of the array.
\<close>

primrec scan_from :: "('a \<Rightarrow> bool) \<Rightarrow> 'a list \<Rightarrow> nat \<Rightarrow> nat \<Rightarrow> nat option option" where
  "scan_from P a i 0 = Some None"
| "scan_from P a i (Suc k) =
     do { x \<leftarrow> rd a i; if P x then Some (Some i) else scan_from P a (Suc i) k }"

definition scan :: "('a \<Rightarrow> bool) \<Rightarrow> 'a list \<Rightarrow> nat \<Rightarrow> nat option option" where
  "scan P a n = scan_from P a 0 n"

fun first_index :: "('a \<Rightarrow> bool) \<Rightarrow> 'a list \<Rightarrow> nat option" where
  "first_index P [] = None"
| "first_index P (x # xs) = (if P x then Some 0 else map_option Suc (first_index P xs))"

lemma first_index_None: "first_index P xs = None \<longleftrightarrow> (\<forall>x \<in> set xs. \<not> P x)"
  by (induction xs) auto

lemma first_index_Some:
  "first_index P xs = Some i \<Longrightarrow> i < length xs \<and> P (xs ! i) \<and> (\<forall>j < i. \<not> P (xs ! j))"
proof (induction xs arbitrary: i)
  case Nil
  then show ?case by simp
next
  case (Cons x xs)
  show ?case
  proof (cases "P x")
    case True
    with Cons.prems show ?thesis by simp
  next
    case False
    with Cons.prems obtain j where j: "first_index P xs = Some j" "i = Suc j" by auto
    from Cons.IH [OF j(1)] j(2) False show ?thesis
      by (auto simp: less_Suc_eq_0_disj)
  qed
qed

lemma first_index_append:
  "first_index P (xs @ ys) = (case first_index P xs of Some i \<Rightarrow> Some i
     | None \<Rightarrow> map_option (\<lambda>j. length xs + j) (first_index P ys))"
proof (induction xs)
  case Nil
  then show ?case by (cases "first_index P ys") simp_all
next
  case (Cons x xs)
  then show ?case by (cases "first_index P ys") (auto split: option.splits)
qed

lemma first_index_cong:
  "(\<And>x. x \<in> set xs \<Longrightarrow> P x = Q x) \<Longrightarrow> first_index P xs = first_index Q xs"
  by (induction xs) auto

lemma first_index_map: "first_index P (map f xs) = first_index (P \<circ> f) xs"
  by (induction xs) auto

lemma scan_from_closed:
  "i + k \<le> length a \<Longrightarrow>
   scan_from P a i k = Some (map_option (\<lambda>j. i + j) (first_index P (take k (drop i a))))"
proof (induction k arbitrary: i)
  case 0
  then show ?case by simp
next
  case (Suc k)
  then have i: "i < length a" by simp
  then have d: "drop i a = a ! i # drop (Suc i) a" by (rule Cons_nth_drop_Suc [symmetric])
  from Suc.prems have "Suc i + k \<le> length a" by simp
  from Suc.IH [OF this] i d show ?case
    by (auto simp: option.map_comp comp_def)
qed

lemma scan_closed: "n \<le> length a \<Longrightarrow> scan P a n = Some (first_index P (take n a))"
  by (simp add: scan_def scan_from_closed option.map_ident)

lemma find_SomeD: "find P xs = Some x \<Longrightarrow> P x \<and> x \<in> set xs"
  by (auto simp: find_Some_iff)

subsection \<open>The shift-down loop\<close>

text \<open>
  \<open>for (i = m; i < n - 1; i++) a[i] = a[i+1]\<close>, with \<open>k = n - 1 - m\<close> iterations left.
\<close>

primrec shift_down :: "'a list \<Rightarrow> nat \<Rightarrow> nat \<Rightarrow> 'a list option" where
  "shift_down a i 0 = Some a"
| "shift_down a i (Suc k) =
     do { x \<leftarrow> rd a (Suc i); a' \<leftarrow> wr a i x; shift_down a' (Suc i) k }"

definition remove_at :: "nat \<Rightarrow> 'a list \<Rightarrow> 'a list" where
  "remove_at m xs = take m xs @ drop (Suc m) xs"

lemma remove_at_0 [simp]: "remove_at 0 xs = tl xs"
  by (simp add: remove_at_def drop_Suc)

lemma remove_at_Suc [simp]: "remove_at (Suc m) (x # xs) = x # remove_at m xs"
  by (simp add: remove_at_def)

lemma length_remove_at [simp]: "m < length xs \<Longrightarrow> length (remove_at m xs) = length xs - 1"
  by (simp add: remove_at_def)

lemma set_remove_at: "set (remove_at m xs) \<subseteq> set xs"
  by (auto simp: remove_at_def dest: in_set_takeD in_set_dropD)

lemma map_remove_at: "map f (remove_at m xs) = remove_at m (map f xs)"
  by (simp add: remove_at_def take_map drop_map)

lemma distinct_remove_at: "distinct xs \<Longrightarrow> distinct (remove_at m xs)"
proof -
  assume d: "distinct xs"
  have "set (take m xs) \<inter> set (drop (Suc m) xs) \<subseteq> set (take m xs) \<inter> set (drop m xs)"
    by (auto dest: set_drop_subset_set_drop [THEN subsetD, of m "Suc m", rotated])
  with d show ?thesis
    by (auto simp: remove_at_def set_take_disj_set_drop_if_distinct)
qed

lemma remove_at_first_index:
  "first_index P xs = Some m \<Longrightarrow> xs = take m xs @ xs ! m # drop (Suc m) xs"
  by (auto dest!: first_index_Some simp: id_take_nth_drop [symmetric])

lemma shift_down_closed:
  "i + k < length a \<Longrightarrow>
   shift_down a i k = Some (take i a @ take k (drop (Suc i) a) @ drop (i + k) a)"
proof (induction k arbitrary: i a)
  case 0
  then show ?case by simp
next
  case (Suc k)
  let ?a = "a[i := a ! Suc i]"
  from Suc.prems have l: "Suc i + k < length ?a" by simp
  have t: "take (Suc i) ?a = take i a @ [a ! Suc i]"
    using Suc.prems by (simp add: take_Suc_conv_app_nth)
  have d: "drop (Suc (Suc i)) ?a = drop (Suc (Suc i)) a" by simp
  have d': "drop (Suc i + k) ?a = drop (Suc i + k) a" by simp
  have c: "take (Suc k) (drop (Suc i) a) = a ! Suc i # take k (drop (Suc (Suc i)) a)"
    using Suc.prems by (simp add: Cons_nth_drop_Suc [symmetric])
  from Suc.IH [OF l] Suc.prems show ?case
    by (simp only: t d d' c) simp
qed

lemma length_shift_down: "shift_down a i k = Some b \<Longrightarrow> length b = length a"
  by (induction k arbitrary: a i) (auto simp: c_simps bind_eq_Some_conv)

lemma shift_down_prefix:
  assumes "m < n" and "n \<le> length a"
  shows "\<exists>b. shift_down a m (n - 1 - m) = Some b \<and> length b = length a
    \<and> take (n - 1) b = remove_at m (take n a)"
proof -
  let ?b = "take m a @ take (n - 1 - m) (drop (Suc m) a) @ drop (m + (n - 1 - m)) a"
  from assms have "shift_down a m (n - 1 - m) = Some ?b"
    by (intro shift_down_closed) simp
  moreover from assms have "take (n - 1) ?b = remove_at m (take n a)"
    by (cases n) (simp_all add: remove_at_def drop_take)
  moreover from assms have "length ?b = length a" by simp
  ultimately show ?thesis by blast
qed


lemma set_take_shift_down:
  "shift_down a i k = Some b \<Longrightarrow> i + k < n \<Longrightarrow> set (take n b) \<subseteq> set (take n a)"
proof (induction k arbitrary: a i)
  case 0
  then show ?case by simp
next
  case (Suc k)
  then have l: "Suc i < length a" and s: "shift_down (a[i := a ! Suc i]) (Suc i) k = Some b"
    by (auto simp: c_simps bind_eq_Some_conv)
  from Suc.IH [OF s] Suc.prems have "set (take n b) \<subseteq> set (take n (a[i := a ! Suc i]))" by simp
  also have "\<dots> \<subseteq> insert (a ! Suc i) (set (take n a))"
    by (simp only: take_update_swap) (rule set_update_subset_insert)
  also have "\<dots> = set (take n a)"
    using l Suc.prems(2) by (intro insert_absorb) (auto simp: in_set_conv_nth intro!: exI [of _ "Suc i"])
  finally show ?case .
qed

subsection \<open>Interfaces\<close>

text \<open>
  A table with a used prefix, as the managers keep their clients: \<open>keys\<close> reads the keys of
  the used entries in order, \<open>info\<close> the data stored under a key, \<open>cap\<close> is the size of the
  array. Adding appends while there is room; deleting removes the first entry of the key and
  closes the gap.
\<close>

locale table_registry =
  fixes keys :: "'s \<Rightarrow> 'k list"
    and info :: "'s \<Rightarrow> 'k \<Rightarrow> 'd option"
    and wf :: "'s \<Rightarrow> bool"
    and add :: "'s \<Rightarrow> 'k \<Rightarrow> 's option"
    and del :: "'s \<Rightarrow> 'k \<Rightarrow> 's option"
    and cap :: nat
  assumes add_fresh: "wf s \<Longrightarrow> k \<notin> set (keys s) \<Longrightarrow> length (keys s) < cap \<Longrightarrow>
      \<exists>s'. add s k = Some s' \<and> wf s' \<and> keys s' = keys s @ [k]
        \<and> (\<forall>k'. k' \<noteq> k \<longrightarrow> info s' k' = info s k')"
    and del_key: "wf s \<Longrightarrow>
      \<exists>s'. del s k = Some s' \<and> wf s' \<and> keys s' = remove1 k (keys s)
        \<and> (\<forall>k'. k' \<noteq> k \<longrightarrow> info s' k' = info s k')"
    and bounded: "wf s \<Longrightarrow> length (keys s) \<le> cap"
begin

lemma add_del:
  assumes "wf s" and "k \<notin> set (keys s)" and "length (keys s) < cap"
  shows "\<exists>s1 s2. add s k = Some s1 \<and> del s1 k = Some s2 \<and> wf s2 \<and> keys s2 = keys s
    \<and> (\<forall>k'. k' \<noteq> k \<longrightarrow> info s2 k' = info s k')"
proof -
  from add_fresh [OF assms] obtain s1 where
    s1: "add s k = Some s1" "wf s1" "keys s1 = keys s @ [k]"
      "\<forall>k'. k' \<noteq> k \<longrightarrow> info s1 k' = info s k'" by blast
  from del_key [OF s1(2), of k] obtain s2 where
    s2: "del s1 k = Some s2" "wf s2" "keys s2 = remove1 k (keys s1)"
      "\<forall>k'. k' \<noteq> k \<longrightarrow> info s2 k' = info s1 k'" by blast
  from s1 s2 assms(2) show ?thesis by (simp add: remove1_append)
qed

lemma del_distinct:
  assumes "wf s" and "distinct (keys s)"
  shows "\<exists>s'. del s k = Some s' \<and> wf s' \<and> distinct (keys s') \<and> set (keys s') = set (keys s) - {k}"
  using del_key [OF assms(1), of k] assms(2) by (auto simp: set_remove1_eq)

end

text \<open>A table whose insertion leaves a key alone that is there already.\<close>

locale set_registry = table_registry +
  assumes add_again: "wf s \<Longrightarrow> k \<in> set (keys s) \<Longrightarrow> add s k = Some s"
begin

lemma add_distinct:
  assumes "wf s" and "distinct (keys s)" and "length (keys s) < cap"
  shows "\<exists>s'. add s k = Some s' \<and> wf s' \<and> distinct (keys s') \<and> set (keys s') = insert k (set (keys s))"
proof (cases "k \<in> set (keys s)")
  case True
  with add_again [OF assms(1) True] assms show ?thesis by (auto simp: insert_absorb)
next
  case False
  from add_fresh [OF assms(1) False assms(3)] False assms(2) show ?thesis by auto
qed

lemma add_member:
  assumes "wf s" and "length (keys s) < cap"
  shows "\<exists>s'. add s k = Some s' \<and> k \<in> set (keys s')"
  using add_again [OF assms(1), of k] add_fresh [OF assms(1) _ assms(2), of k]
  by (cases "k \<in> set (keys s)") auto

end

text \<open>
  A machine that handles commands and emits outputs. \<open>ok\<close> is what the machine needs of its
  environment (room in the tables, for instance); \<open>exec\<close> runs a sequence of commands.
\<close>

inductive exec :: "('s \<Rightarrow> 'c \<Rightarrow> ('s \<times> 'o list) option) \<Rightarrow> ('s \<Rightarrow> 'c \<Rightarrow> bool)
    \<Rightarrow> 's \<Rightarrow> 'c list \<Rightarrow> 's \<Rightarrow> 'o list \<Rightarrow> bool"
  for step ok where
  exec_nil: "exec step ok s [] s []"
| exec_cons: "ok s c \<Longrightarrow> step s c = Some (s1, out1) \<Longrightarrow> exec step ok s1 cs s2 out2 \<Longrightarrow>
    exec step ok s (c # cs) s2 (out1 @ out2)"

inductive_cases exec_ConsE: "exec step ok s (c # cs) s2 outs"

locale guarded_machine =
  fixes step :: "'s \<Rightarrow> 'c \<Rightarrow> ('s \<times> 'o list) option"
    and inv :: "'s \<Rightarrow> bool"
    and ok :: "'s \<Rightarrow> 'c \<Rightarrow> bool"
  assumes step_inv: "inv s \<Longrightarrow> ok s c \<Longrightarrow> \<exists>s' out. step s c = Some (s', out) \<and> inv s'"
begin

lemma exec_inv: "exec step ok s cs s' outs \<Longrightarrow> inv s \<Longrightarrow> inv s'"
  by (induction rule: exec.induct) (use step_inv in fastforce)+

lemma exec_progress:
  assumes "exec step ok s cs s' outs" and "inv s" and "ok s' c"
  shows "\<exists>s'' out. exec step ok s (cs @ [c]) s'' (outs @ out)"
  using assms
proof (induction rule: exec.induct)
  case (exec_nil s)
  with step_inv obtain s'' out where "step s c = Some (s'', out)" by blast
  with exec_nil have "exec step ok s [c] s'' (out @ [])"
    by (blast intro: exec.intros)
  then show ?case by auto
next
  case (exec_cons s c' s1 out1 cs s2 out2)
  from step_inv [OF exec_cons.prems(1) exec_cons.hyps(1)] exec_cons.hyps(2)
  have "inv s1" by auto
  with exec_cons.IH exec_cons.prems obtain s'' out
    where "exec step ok s1 (cs @ [c]) s'' (out2 @ out)" by blast
  with exec_cons.hyps have "exec step ok s (c' # (cs @ [c])) s'' (out1 @ (out2 @ out))"
    by (intro exec.exec_cons)
  then show ?case by auto
qed

end

end
