(* ===== verification/C_Strings.thy ===== *)
theory C_Strings
  imports Prelude "HOL-Library.Signed_Division"
begin

section \<open>C strings: number printing and tokenising\<close>

text \<open>
  The string routines of the managers: \<open>RM_itoa\<close>/\<open>RM_reverse\<close> of the resource manager
  (\<open>RMProxy_itoa\<close>/\<open>RMProxy_reverse\<close> of the proxy are the same code), \<open>ram_itoa\<close> of the
  activity monitor, and the parts of the C library the policy table parser uses
  (\<open>fgets\<close>, \<open>strtok\<close>, \<open>atoi\<close>). A C string is a list of characters without its terminating
  zero. The lemmas show that the printers give the decimal representation and that \<open>atoi\<close>
  reads it back.
\<close>

subsection \<open>Decimal digits\<close>

definition digit :: "nat \<Rightarrow> char" where
  "digit d = char_of (48 + d)"

fun dec_rev :: "nat \<Rightarrow> string" where
  "dec_rev n = (if n < 10 then [digit n] else digit (n mod 10) # dec_rev (n div 10))"

declare dec_rev.simps [simp del]

definition dec :: "nat \<Rightarrow> string" where
  "dec n = rev (dec_rev n)"

definition is_digit :: "char \<Rightarrow> bool" where
  "is_digit c \<longleftrightarrow> 48 \<le> (of_char c :: nat) \<and> (of_char c :: nat) \<le> 57"

definition digit_val :: "char \<Rightarrow> int" where
  "digit_val c = of_char c - 48"

lemma of_char_digit [simp]: "d < 10 \<Longrightarrow> (of_char (digit d) :: nat) = 48 + d"
  by (simp add: digit_def)

lemma of_char_digit_int [simp]: "d < 10 \<Longrightarrow> (of_char (digit d) :: int) = 48 + int d"
  using of_char_digit [of d]
  by (metis of_char_of of_nat_add of_nat_numeral of_nat_of_char)

lemma is_digit_digit [simp]: "d < 10 \<Longrightarrow> is_digit (digit d)"
  by (simp add: is_digit_def)

lemma digit_val_digit [simp]: "d < 10 \<Longrightarrow> digit_val (digit d) = int d"
  by (simp add: digit_val_def)

lemma dec_rev_digits: "c \<in> set (dec_rev n) \<Longrightarrow> is_digit c"
proof (induction n rule: dec_rev.induct)
  case (1 n)
  then show ?case
    by (cases "n < 10") (auto simp: dec_rev.simps [of n])
qed

lemma dec_digits: "c \<in> set (dec n) \<Longrightarrow> is_digit c"
  by (simp add: dec_def dec_rev_digits)

lemma dec_not_Nil [simp]: "dec n \<noteq> []"
  by (simp add: dec_def dec_rev.simps [of n])

subsection \<open>RM_reverse: in-place reversal with two indices\<close>

text \<open>
  \<open>for (i = 0, j = strlen(s)-1; i<j; i++, j--) { c = s[i]; s[i] = s[j]; s[j] = c; }\<close>.
  The indices are C integers, so \<open>j\<close> is -1 on the empty string.
\<close>

function RM_reverse_loop :: "char list \<Rightarrow> int \<Rightarrow> int \<Rightarrow> char list option" where
  "RM_reverse_loop s i j =
     (if i < j then
        do { ci \<leftarrow> rd s (nat i); cj \<leftarrow> rd s (nat j);
             s1 \<leftarrow> wr s (nat i) cj; s2 \<leftarrow> wr s1 (nat j) ci;
             RM_reverse_loop s2 (i + 1) (j - 1) }
      else Some s)"
  by pat_completeness auto
termination
  by (relation "measure (\<lambda>(s, i, j). nat (j - i))") auto

declare RM_reverse_loop.simps [simp del]

definition RM_reverse :: "char list \<Rightarrow> char list option" where
  "RM_reverse s = RM_reverse_loop s 0 (int (length s) - 1)"

lemma RM_reverse_loop_inv:
  assumes "length s = length t" and "i + j = int (length t) - 1" and "0 \<le> i" and "i \<le> j + 1"
    and "\<And>k. k < length t \<Longrightarrow>
      s ! k = (if int k < i \<or> j < int k then rev t ! k else t ! k)"
  shows "RM_reverse_loop s i j = Some (rev t)"
  using assms
proof (induction s i j rule: RM_reverse_loop.induct)
  case (1 s i j)
  show ?case
  proof (cases "i < j")
    case False
    have "s ! k = rev t ! k" if "k < length t" for k
    proof (cases "int k < i \<or> j < int k")
      case True
      with "1.prems"(5) [OF that] show ?thesis by simp
    next
      case F: False
      with False have k: "int k = i" "int k = j" by linarith+
      with "1.prems"(2) have "length t = Suc (2 * k)" by linarith
      then have "rev t ! k = t ! k" by (simp add: rev_nth)
      with "1.prems"(5) [OF that] F show ?thesis by simp
    qed
    with "1.prems"(1) have "s = rev t" by (simp add: list_eq_iff_nth_eq)
    with False show ?thesis by (simp add: RM_reverse_loop.simps [of "rev t" i j])
  next
    case True
    with "1.prems"(3) obtain p q where ij: "i = int p" "j = int q"
      by (metis order_le_less_trans nonneg_int_cases order_less_imp_le)
    let ?s = "s[p := s ! q, q := s ! p]"
    from True "1.prems"(1,2) ij have b: "p < length s" "q < length s" "p < q"
      and t: "length t = Suc (p + q)" by linarith+
    have r: "rd s (nat i) = Some (s ! p)" "rd s (nat j) = Some (s ! q)"
      "wr s (nat i) (s ! q) = Some (s[p := s ! q])"
      "wr (s[p := s ! q]) (nat j) (s ! p) = Some ?s"
      using b(1,2) ij by simp_all
    have un: "RM_reverse_loop s i j = RM_reverse_loop ?s (i + 1) (j - 1)"
      by (simp only: RM_reverse_loop.simps [of s i j] True if_True r Option.bind_lunit)
    have "RM_reverse_loop ?s (i + 1) (j - 1) = Some (rev t)"
    proof (rule "1.IH" [OF True r])
      show "length ?s = length t" "i + 1 + (j - 1) = int (length t) - 1" "0 \<le> i + 1" "i + 1 \<le> j - 1 + 1"
        using "1.prems" True by simp_all
    next
      fix k assume k: "k < length t"
      from "1.prems"(5) [of p] "1.prems"(5) [of q] b "1.prems"(1) ij
      have "s ! p = t ! p" "s ! q = t ! q" by auto
      with "1.prems"(1) "1.prems"(5) [OF k] b k t ij
      show "?s ! k = (if int k < i + 1 \<or> j - 1 < int k then rev t ! k else t ! k)"
        by (auto simp: nth_list_update rev_nth)
    qed
    with un show ?thesis by simp
  qed
qed

lemma RM_reverse_rev: "RM_reverse s = Some (rev s)"
  unfolding RM_reverse_def by (rule RM_reverse_loop_inv) auto

subsection \<open>RM_itoa\<close>

definition RM_itoa :: "int \<Rightarrow> string option" where
  "RM_itoa n =
     (if n = - (2 ^ 31) then None
      else let m = (if n < 0 then - n else n); s = dec_rev (nat m);
               s' = (if n < 0 then s @ [CHR ''-''] else s)
           in RM_reverse s')"

lemma RM_itoa_nat: "RM_itoa (int n) = Some (dec n)"
  by (simp add: RM_itoa_def RM_reverse_rev dec_def)

subsection \<open>ram_itoa\<close>

text \<open>
  The digits are written from the end of the static 50-byte buffer; \<open>i\<close> is the index of the
  last byte written. \<open>a % 10\<close> and \<open>a / 10\<close> truncate towards zero.
\<close>

primrec ram_itoa_loop :: "nat \<Rightarrow> int \<Rightarrow> string \<Rightarrow> string" where
  "ram_itoa_loop 0 a str = str"
| "ram_itoa_loop (Suc i) a str =
     (let str' = char_of (48 + a smod 10) # str; a' = a sdiv 10
      in if a' \<noteq> 0 \<and> i > 0 then ram_itoa_loop i a' str' else str')"

definition ram_itoa :: "int \<Rightarrow> string" where
  "ram_itoa a = ram_itoa_loop 49 a []"

lemma ram_itoa_loop_dec:
  "n < 10 ^ i \<Longrightarrow> 0 < i \<Longrightarrow> ram_itoa_loop i (int n) str = rev (dec_rev n) @ str"
proof (induction i arbitrary: n str)
  case 0
  then show ?case by simp
next
  case (Suc i)
  have c: "char_of (48 + int n smod 10) = digit (n mod 10)"
  proof -
    have "int n smod 10 = int (n mod 10)"
      by (cases "n = 0")
        (simp_all add: signed_modulo_int_def signed_divide_int_def zmod_int minus_div_mult_eq_mod)
    moreover have "char_of (48 + int (n mod 10)) = char_of (48 + n mod 10)"
      using char_of_nat [of "48 + n mod 10"] by (simp only: of_nat_add of_nat_numeral)
    ultimately show ?thesis by (simp add: digit_def)
  qed
  have d: "int n sdiv 10 = int (n div 10)"
    by (cases "n = 0") (simp_all add: signed_divide_int_def zdiv_int)
  show ?case
  proof (cases "n < 10")
    case True
    then show ?thesis by (simp add: c d dec_rev.simps [of n])
  next
    case False
    then have i: "0 < i" using Suc.prems by (cases i) auto
    have "n div 10 < 10 ^ i" using Suc.prems by (simp add: less_mult_imp_div_less mult.commute)
    with Suc.IH [of "n div 10"] i False show ?thesis
      by (simp add: c d dec_rev.simps [of n] Let_def div_greater_zero_iff)
  qed
qed

lemma ram_itoa_nat: "n < 10 ^ 49 \<Longrightarrow> ram_itoa (int n) = dec n"
  by (simp add: ram_itoa_def ram_itoa_loop_dec dec_def)


subsection \<open>fgets, strtok and atoi\<close>

abbreviation newline :: char where
  "newline \<equiv> CHR 0x0A"

text \<open>\<open>fgets\<close> with a buffer of \<open>n\<close> bytes reads up to \<open>n - 1\<close> bytes, a newline included.\<close>

fun fgets_chars :: "nat \<Rightarrow> string \<Rightarrow> string \<times> string" where
  "fgets_chars 0 s = ([], s)"
| "fgets_chars (Suc k) [] = ([], [])"
| "fgets_chars (Suc k) (c # s) =
     (if c = newline then ([c], s) else (let (l, r) = fgets_chars k s in (c # l, r)))"

definition fgets :: "nat \<Rightarrow> string \<Rightarrow> (string \<times> string) option" where
  "fgets n s = (if s = [] then None else Some (fgets_chars (n - 1) s))"

text \<open>
  \<open>strtok\<close> as a function from the unread text to the next token and the text after the
  delimiter that ended it.
\<close>

definition strtok :: "string \<Rightarrow> string \<Rightarrow> (string \<times> string) option" where
  "strtok delims s =
     (case dropWhile (\<lambda>c. c \<in> set delims) s of
        [] \<Rightarrow> None
      | t \<Rightarrow> Some (takeWhile (\<lambda>c. c \<notin> set delims) t, tl (dropWhile (\<lambda>c. c \<notin> set delims) t)))"

definition is_space :: "char \<Rightarrow> bool" where
  "is_space c \<longleftrightarrow> c = CHR '' '' \<or> (9 \<le> (of_char c :: nat) \<and> (of_char c :: nat) \<le> 13)"

definition digits_val :: "string \<Rightarrow> int" where
  "digits_val s = foldl (\<lambda>a c. 10 * a + digit_val c) 0 s"

definition atoi :: "string \<Rightarrow> int" where
  "atoi s =
     (let t = dropWhile is_space s;
          (neg, u) = (case t of
              [] \<Rightarrow> (False, t)
            | c # r \<Rightarrow> if c = CHR ''-'' then (True, r) else if c = CHR ''+'' then (False, r) else (False, t));
          v = digits_val (takeWhile is_digit u)
      in if neg then max (- (2 ^ 31)) (- v) else min (2 ^ 31 - 1) v)"

lemma fgets_chars_consumes: "k > 0 \<Longrightarrow> s \<noteq> [] \<Longrightarrow> length (snd (fgets_chars k s)) < length s"
proof -
  have le: "length (snd (fgets_chars k s)) \<le> length s" for k s
    by (induction k s rule: fgets_chars.induct) (auto split: prod.splits)
  assume "k > 0" and "s \<noteq> []"
  then obtain k' c s' where "k = Suc k'" "s = c # s'" by (cases k; cases s) auto
  with le [of k' s'] show ?thesis by (auto split: prod.splits)
qed

lemma fgets_consumes: "fgets n s = Some (l, r) \<Longrightarrow> 2 \<le> n \<Longrightarrow> length r < length s"
  using fgets_chars_consumes [of "n - 1" s] by (auto simp: fgets_def split: if_splits)

lemma fgets_line:
  "newline \<notin> set l \<Longrightarrow> length l + 1 < n \<Longrightarrow>
   fgets n (l @ newline # r) = Some (l @ [newline], r)"
proof -
  have "newline \<notin> set l \<Longrightarrow> length l < k \<Longrightarrow>
    fgets_chars k (l @ newline # r) = (l @ [newline], r)" for k
  proof (induction l arbitrary: k)
    case Nil
    then show ?case by (cases k) auto
  next
    case (Cons c l)
    then show ?case by (cases k) auto
  qed
  then show "newline \<notin> set l \<Longrightarrow> length l + 1 < n \<Longrightarrow> ?thesis"
    by (simp add: fgets_def)
qed

lemma strtok_consumes: "strtok d s = Some (t, r) \<Longrightarrow> length r < length s"
proof -
  assume a: "strtok d s = Some (t, r)"
  let ?u = "dropWhile (\<lambda>c. c \<in> set d) s"
  from a have u: "?u \<noteq> []" unfolding strtok_def by (cases ?u) simp_all
  with a have r: "r = tl (dropWhile (\<lambda>c. c \<notin> set d) ?u)"
    unfolding strtok_def by (cases ?u) simp_all
  have "length (dropWhile (\<lambda>c. c \<notin> set d) ?u) \<le> length ?u" by (rule length_dropWhile_le)
  moreover have "length ?u \<le> length s" by (rule length_dropWhile_le)
  moreover have "0 < length ?u" using u by simp
  ultimately show ?thesis unfolding r length_tl by linarith
qed

lemma strtok_word:
  assumes "w \<noteq> []" and "\<forall>c \<in> set w. c \<notin> set d" and "x \<in> set d"
  shows "strtok d (w @ x # r) = Some (w, r)"
proof -
  obtain c w' where w: "w = c # w'" using assms(1) by (cases w) auto
  with assms have "dropWhile (\<lambda>c. c \<in> set d) (w @ x # r) = w @ x # r" by simp
  moreover have "takeWhile (\<lambda>c. c \<notin> set d) (w @ x # r) = w"
    "dropWhile (\<lambda>c. c \<notin> set d) (w @ x # r) = x # r"
    using assms(2,3) by (simp_all add: takeWhile_append2 dropWhile_append2)
  ultimately show ?thesis by (simp add: strtok_def w)
qed

lemma strtok_empty [simp]: "strtok d [] = None"
  by (simp add: strtok_def)

lemma digits_val_snoc: "digits_val (s @ [c]) = 10 * digits_val s + digit_val c"
  by (simp add: digits_val_def)

lemma digits_val_dec: "digits_val (dec n) = int n"
proof (induction n rule: dec_rev.induct)
  case (1 n)
  show ?case
  proof (cases "n < 10")
    case True
    then show ?thesis by (simp add: dec_def dec_rev.simps [of n] digits_val_def)
  next
    case False
    then have "dec n = dec (n div 10) @ [digit (n mod 10)]"
      by (simp add: dec_def dec_rev.simps [of n])
    with "1.IH" [OF False] show ?thesis
      by (simp only: digits_val_snoc) (simp add: zmod_int zdiv_int)
  qed
qed

lemma is_digit_not_special:
  "is_digit c \<Longrightarrow> \<not> is_space c \<and> c \<noteq> CHR ''-'' \<and> c \<noteq> CHR ''+'' \<and> c \<noteq> CHR '','' \<and> c \<noteq> newline \<and> c \<noteq> CHR '' ''"
  by (auto simp: is_digit_def is_space_def)

lemma atoi_dec: "n < 2 ^ 31 \<Longrightarrow> atoi (dec n) = int n"
proof -
  assume n: "n < 2 ^ 31"
  obtain c r where c: "dec n = c # r" by (cases "dec n") simp_all
  then have d: "is_digit c" using dec_digits [of c n] by simp
  have t: "takeWhile is_digit (dec n) = dec n"
    using dec_digits [of _ n] by (simp add: takeWhile_eq_all_conv)
  from d have s: "dropWhile is_space (dec n) = dec n" and
    m: "c \<noteq> CHR ''-''" "c \<noteq> CHR ''+''" using c is_digit_not_special by auto
  have v: "digits_val (takeWhile is_digit (c # r)) = int n"
    using t digits_val_dec [of n] c by simp
  have "atoi (c # r) = min (2 ^ 31 - 1) (int n)"
    unfolding atoi_def using s m by (simp only: c) (simp del: takeWhile.simps add: v)
  with n c show ?thesis by (simp add: min_def)
qed

lemma dec_inj: "dec m = dec n \<longleftrightarrow> m = n"
  by (metis digits_val_dec of_nat_eq_iff)

end
