(* ===== verification/Policy_Manager.thy ===== *)
theory Policy_Manager
  imports C_Strings
begin

section \<open>The policy manager\<close>

text \<open>
  Model of \<open>omx/system/src/openmax_il/omx_policy_manager/src/PolicyManager.c\<close>: the daemon
  that decides which OMX components may run together. A policy table lists combinations of
  component types with priorities; a request is granted when the active combination, or
  another combination that supports every running component, has the requested type.

  The globals of the C file are the fields of \<open>pm_state\<close>; the arrays keep their C sizes
  (100 clients, 111 combinations of 50 components) and an access outside them is
  \<^const>\<open>None\<close>. A handler returns the new state and the messages it writes to the resource
  manager, in order.
\<close>

subsection \<open>Data\<close>

record pm_comp =
  pmHandle :: handle
  pmPid :: u32

record pm_prio =
  ppComponent :: u32
  ppPriority :: u8

record pm_comb =
  numComponentsInCombination :: u8
  bCombinationIsActive :: bool
  combComponents :: "pm_prio list"

record pm_state =
  registeredComponents :: nat
  pendingComponents :: nat
  pComponentList :: "pm_comp list"
  pPendingComponentList :: "pm_comp list"
  activeComponentList :: "pm_prio list"
  policyCombinationTable :: "pm_comb list"
  activePolicyCombination :: u8
  numCombinations :: u8

datatype PM_COMMANDTYPE = PM_Init | PM_RequestPolicy | PM_WaitForPolicy | PM_FreePolicy
  | PM_CancelWaitForPolicy | PM_FreeResources | PM_StateSet | PM_OpenPipe | PM_Exit | PM_ExitTI

record pm_command =
  pcComponent :: handle
  pcPid :: u32
  pcCmd :: PM_COMMANDTYPE
  pcParam1 :: u32

datatype PM_RESPONSETYPE = PM_GRANTPOLICY | PM_DENYPOLICY | PM_PREEMPTED

record pm_response =
  prComponent :: handle
  prPid :: u32
  prCmd :: PM_RESPONSETYPE

abbreviation "MAX_CLIENTS \<equiv> (100 :: nat)"
abbreviation "OMX_POLICY_MAX_COMBINATION_LENGTH \<equiv> (50 :: nat)"
abbreviation "OMX_POLICY_MAX_COMBINATIONS \<equiv> (111 :: nat)"
abbreviation "PM_MAXSTRINGLENGTH \<equiv> (2000 :: nat)"

definition pm_comp0 :: pm_comp where
  "pm_comp0 = \<lparr>pmHandle = NULL, pmPid = 0\<rparr>"

definition pm_prio0 :: pm_prio where
  "pm_prio0 = \<lparr>ppComponent = 0, ppPriority = 0\<rparr>"

definition pm_comb0 :: pm_comb where
  "pm_comb0 = \<lparr>numComponentsInCombination = 0, bCombinationIsActive = False,
     combComponents = replicate OMX_POLICY_MAX_COMBINATION_LENGTH pm_prio0\<rparr>"

text \<open>The statically initialised globals.\<close>

definition pm_init :: pm_state where
  "pm_init = \<lparr>registeredComponents = 0, pendingComponents = 0,
     pComponentList = replicate MAX_CLIENTS pm_comp0,
     pPendingComponentList = replicate MAX_CLIENTS pm_comp0,
     activeComponentList = replicate MAX_CLIENTS pm_prio0,
     policyCombinationTable = replicate OMX_POLICY_MAX_COMBINATIONS pm_comb0,
     activePolicyCombination = 0, numCombinations = 0\<rparr>"

subsection \<open>Queries on the policy table\<close>

definition is_comp :: "u32 \<Rightarrow> pm_prio \<Rightarrow> bool" where
  "is_comp component p \<longleftrightarrow> ppComponent p = component"

definition scan_comb :: "pm_comb \<Rightarrow> u32 \<Rightarrow> nat option option" where
  "scan_comb cb component =
     scan (is_comp component) (combComponents cb) (unat (numComponentsInCombination cb))"

definition GetPriority :: "pm_state \<Rightarrow> u32 \<Rightarrow> nat \<Rightarrow> int option" where
  "GetPriority s component combination =
     do { cb \<leftarrow> rd (policyCombinationTable s) combination;
          m \<leftarrow> scan_comb cb component;
          case m of None \<Rightarrow> Some (- 1)
          | Some i \<Rightarrow> do { p \<leftarrow> rd (combComponents cb) i; Some (uint (ppPriority p)) } }"

text \<open>The result is \<open>Some p\<close> where the C function returns true and stores the priority \<open>p\<close>.\<close>

definition CheckActiveCombination :: "pm_state \<Rightarrow> u32 \<Rightarrow> int option option" where
  "CheckActiveCombination s componentRequestingPolicy =
     do { cb \<leftarrow> rd (policyCombinationTable s) (unat (activePolicyCombination s));
          m \<leftarrow> scan_comb cb componentRequestingPolicy;
          case m of None \<Rightarrow> Some None
          | Some i \<Rightarrow> do { p \<leftarrow> rd (combComponents cb) i; Some (Some (uint (ppPriority p))) } }"

primrec check_all_from :: "pm_state \<Rightarrow> u32 \<Rightarrow> nat \<Rightarrow> nat \<Rightarrow> (nat \<times> int) option \<Rightarrow> (nat \<times> int) option option" where
  "check_all_from s component i 0 acc = Some acc"
| "check_all_from s component i (Suc k) acc =
     do { cb \<leftarrow> rd (policyCombinationTable s) i;
          m \<leftarrow> scan_comb cb component;
          acc' \<leftarrow> (case m of None \<Rightarrow> Some acc
                  | Some j \<Rightarrow> do { p \<leftarrow> rd (combComponents cb) j; Some (Some (i, uint (ppPriority p))) });
          check_all_from s component (Suc i) k acc' }"

text \<open>Combination and priority that the C function stores, or \<open>None\<close> for false. The inner
  \<open>break\<close> does not leave the outer loop, so a later combination overwrites an earlier one.\<close>

definition CheckAllCombinations :: "pm_state \<Rightarrow> u32 \<Rightarrow> (nat \<times> int) option option" where
  "CheckAllCombinations s componentRequestingPolicy =
     check_all_from s componentRequestingPolicy 0 (unat (numCombinations s)) None"

definition IsComponentSupported :: "pm_state \<Rightarrow> u32 \<Rightarrow> nat \<Rightarrow> bool option" where
  "IsComponentSupported s component combination =
     do { cb \<leftarrow> rd (policyCombinationTable s) combination;
          m \<leftarrow> scan_comb cb component;
          Some (m \<noteq> None) }"

text \<open>
  \<open>returnValue.combinationList[returnValue.numCombinations++] = i\<close>: the list is an array of
  111 bytes, kept here as its used prefix.
\<close>

definition push_combination :: "u8 list \<Rightarrow> nat \<Rightarrow> u8 list option" where
  "push_combination l i =
     (if length l < OMX_POLICY_MAX_COMBINATIONS then Some (l @ [of_nat i]) else None)"

primrec supporting_inner :: "pm_comb \<Rightarrow> u32 \<Rightarrow> nat \<Rightarrow> nat \<Rightarrow> nat \<Rightarrow> u8 list \<Rightarrow> u8 list option" where
  "supporting_inner cb component i j 0 l = Some l"
| "supporting_inner cb component i j (Suc k) l =
     do { p \<leftarrow> rd (combComponents cb) j;
          l' \<leftarrow> (if is_comp component p then push_combination l i else Some l);
          supporting_inner cb component i (Suc j) k l' }"

primrec supporting_from :: "pm_state \<Rightarrow> u32 \<Rightarrow> nat \<Rightarrow> nat \<Rightarrow> u8 list \<Rightarrow> u8 list option" where
  "supporting_from s component i 0 l = Some l"
| "supporting_from s component i (Suc k) l =
     do { cb \<leftarrow> rd (policyCombinationTable s) i;
          l' \<leftarrow> supporting_inner cb component i 0 (unat (numComponentsInCombination cb)) l;
          supporting_from s component (Suc i) k l' }"

definition GetSupportingCombinations :: "pm_state \<Rightarrow> u32 \<Rightarrow> u8 list option" where
  "GetSupportingCombinations s componentRequestingPolicy =
     supporting_from s componentRequestingPolicy 0 (unat (numCombinations s)) []"

text \<open>The inner loop of \<open>CanAllComponentsCoexist\<close>; \<open>rv\<close> is \<open>returnValue\<close> on entry.\<close>

primrec coexist_inner :: "pm_state \<Rightarrow> nat \<Rightarrow> nat \<Rightarrow> nat \<Rightarrow> bool \<Rightarrow> bool option" where
  "coexist_inner s combination j 0 rv = Some rv"
| "coexist_inner s combination j (Suc k) rv =
     do { a \<leftarrow> rd (activeComponentList s) j;
          rv' \<leftarrow> IsComponentSupported s (ppComponent a) combination;
          if rv' then coexist_inner s combination (Suc j) k rv' else Some False }"

primrec coexist_from :: "pm_state \<Rightarrow> u8 list \<Rightarrow> bool \<Rightarrow> nat option option" where
  "coexist_from s [] rv = Some None"
| "coexist_from s (c # cs) rv =
     do { rv' \<leftarrow> coexist_inner s (unat c) 0 (registeredComponents s) rv;
          if rv' then Some (Some (unat c)) else coexist_from s cs rv' }"

definition CanAllComponentsCoexist :: "pm_state \<Rightarrow> u32 \<Rightarrow> nat option option" where
  "CanAllComponentsCoexist s componentRequestingPolicy =
     do { cl \<leftarrow> GetSupportingCombinations s componentRequestingPolicy;
          coexist_from s cl False }"

subsection \<open>Messages and the client lists\<close>

definition PreemptComponent :: "handle \<Rightarrow> u32 \<Rightarrow> pm_response" where
  "PreemptComponent hComponent aPid =
     \<lparr>prComponent = hComponent, prPid = aPid, prCmd = PM_PREEMPTED\<rparr>"

definition DenyPolicy :: "handle \<Rightarrow> u32 \<Rightarrow> pm_response" where
  "DenyPolicy hComponent aPid =
     \<lparr>prComponent = hComponent, prPid = aPid, prCmd = PM_DENYPOLICY\<rparr>"

definition is_client :: "handle \<Rightarrow> u32 \<Rightarrow> pm_comp \<Rightarrow> bool" where
  "is_client h pid c \<longleftrightarrow> pmHandle c = h \<and> pmPid c = pid"

definition GrantPolicy :: "pm_state \<Rightarrow> handle \<Rightarrow> u8 \<Rightarrow> u8 \<Rightarrow> u32 \<Rightarrow> (pm_state \<times> pm_response list) option" where
  "GrantPolicy s hComponent aComponentIndex aPriority aPid =
     (let out = [\<lparr>prComponent = hComponent, prPid = aPid, prCmd = PM_GRANTPOLICY\<rparr>];
          n = registeredComponents s
      in do { m \<leftarrow> scan (is_client hComponent aPid) (pComponentList s) n;
              case m of Some i \<Rightarrow> Some (s, out)
              | None \<Rightarrow>
                  do { act \<leftarrow> wr (activeComponentList s) n
                         \<lparr>ppComponent = ucast aComponentIndex, ppPriority = aPriority\<rparr>;
                       cl \<leftarrow> wr (pComponentList s) n \<lparr>pmHandle = hComponent, pmPid = aPid\<rparr>;
                       Some (s\<lparr>activeComponentList := act, pComponentList := cl,
                               registeredComponents := Suc n\<rparr>, out) } })"

definition remove_active :: "pm_state \<Rightarrow> u32 \<Rightarrow> pm_state option" where
  "remove_active s cComponentIndex =
     (let n = registeredComponents s
      in do { m \<leftarrow> scan (is_comp cComponentIndex) (activeComponentList s) n;
              case m of None \<Rightarrow> Some s
              | Some i \<Rightarrow> do { act \<leftarrow> shift_down (activeComponentList s) i (n - 1 - i);
                              Some (s\<lparr>activeComponentList := act\<rparr>) } })"

definition remove_client :: "pm_state \<Rightarrow> handle \<Rightarrow> u32 \<Rightarrow> pm_state option" where
  "remove_client s hComponent aPid =
     (let n = registeredComponents s
      in do { m \<leftarrow> scan (is_client hComponent aPid) (pComponentList s) n;
              case m of None \<Rightarrow> Some s
              | Some i \<Rightarrow> do { cl \<leftarrow> shift_down (pComponentList s) i (n - 1 - i);
                              Some (s\<lparr>pComponentList := cl, registeredComponents := n - 1\<rparr>) } })"

definition RemoveComponentFromList :: "pm_state \<Rightarrow> handle \<Rightarrow> u32 \<Rightarrow> u32 \<Rightarrow> pm_state option" where
  "RemoveComponentFromList s hComponent aPid cComponentIndex =
     do { s1 \<leftarrow> remove_active s cComponentIndex; remove_client s1 hComponent aPid }"

subsection \<open>Handlers\<close>

text \<open>
  \<open>HandleRequestPolicy\<close> in its four stages; a stage returns \<open>Inr\<close> with the result where the C
  function returns, and \<open>Inl\<close> with the state where it goes on. \<open>cmd.param1\<close> is the
  requested component type; it and the priority are truncated to \<open>OMX_U8\<close> when they are
  passed to \<open>GrantPolicy\<close>.
\<close>

type_synonym pm_result = "(pm_state \<times> pm_response list) option"

definition grant_request :: "pm_state \<Rightarrow> pm_command \<Rightarrow> int \<Rightarrow> pm_result" where
  "grant_request s cmd priority =
     GrantPolicy s (pcComponent cmd) (ucast (pcParam1 cmd)) (word_of_int priority) (pcPid cmd)"

definition request_first :: "pm_state \<Rightarrow> pm_command \<Rightarrow> (pm_state + pm_state \<times> pm_response list) option" where
  "request_first s cmd =
     (if registeredComponents s = 0 then
        do { cl \<leftarrow> GetSupportingCombinations s (pcParam1 cmd);
             case cl of
               [] \<Rightarrow> Some (Inr (s, [DenyPolicy (pcComponent cmd) (pcPid cmd)]))
             | c # cs \<Rightarrow>
                 (let s1 = s\<lparr>activePolicyCombination := c\<rparr>
                  in do { priority \<leftarrow> GetPriority s1 (pcParam1 cmd) (unat c);
                          if priority \<noteq> - 1 then map_option Inr (grant_request s1 cmd priority)
                          else Some (Inl s1) }) }
      else Some (Inl s))"

definition request_active :: "pm_state \<Rightarrow> pm_command \<Rightarrow> (pm_state + pm_state \<times> pm_response list) option" where
  "request_active s cmd =
     do { rv \<leftarrow> CheckActiveCombination s (pcParam1 cmd);
          case rv of None \<Rightarrow> Some (Inl s)
          | Some priority \<Rightarrow> map_option Inr (grant_request s cmd priority) }"

definition switch_combination :: "nat \<Rightarrow> pm_state \<times> pm_response list \<Rightarrow> pm_state \<times> pm_response list" where
  "switch_combination combination r = ((fst r)\<lparr>activePolicyCombination := of_nat combination\<rparr>, snd r)"

definition request_coexist :: "pm_state \<Rightarrow> pm_command \<Rightarrow> (pm_state + pm_state \<times> pm_response list) option" where
  "request_coexist s cmd =
     do { rv \<leftarrow> CanAllComponentsCoexist s (pcParam1 cmd);
          case rv of None \<Rightarrow> Some (Inl s)
          | Some combination \<Rightarrow>
              do { priority \<leftarrow> GetPriority s (pcParam1 cmd) combination;
                   if priority \<noteq> - 1 then
                     map_option (\<lambda>r. Inr (switch_combination combination r)) (grant_request s cmd priority)
                   else Some (Inl s) } }"

primrec preempt_from :: "pm_state \<Rightarrow> nat \<Rightarrow> nat \<Rightarrow> pm_response list option" where
  "preempt_from s i 0 = Some []"
| "preempt_from s i (Suc k) =
     do { c \<leftarrow> rd (pComponentList s) i;
          rest \<leftarrow> preempt_from s (Suc i) k;
          Some (PreemptComponent (pmHandle c) (pmPid c) # rest) }"

definition request_preempt :: "pm_state \<Rightarrow> pm_command \<Rightarrow> pm_result" where
  "request_preempt s cmd =
     (let deny = DenyPolicy (pcComponent cmd) (pcPid cmd)
      in do { rv \<leftarrow> CheckAllCombinations s (pcParam1 cmd);
              case rv of None \<Rightarrow> Some (s, [deny])
              | Some (combination, _) \<Rightarrow>
                  if combination < unat (activePolicyCombination s) then
                    do { pre \<leftarrow> preempt_from s 0 (registeredComponents s);
                         priority \<leftarrow> GetPriority s (pcParam1 cmd) combination;
                         if priority \<noteq> - 1 then
                           map_option (\<lambda>r. switch_combination combination (fst r, pre @ snd r))
                             (grant_request s cmd priority)
                         else Some (s, pre @ [deny]) }
                  else Some (s, [deny]) })"

definition HandleRequestPolicy :: "pm_state \<Rightarrow> pm_command \<Rightarrow> pm_result" where
  "HandleRequestPolicy s cmd =
     do { r1 \<leftarrow> request_first s cmd;
          case r1 of Inr res \<Rightarrow> Some res
          | Inl s1 \<Rightarrow>
            do { r2 \<leftarrow> request_active s1 cmd;
                 case r2 of Inr res \<Rightarrow> Some res
                 | Inl s2 \<Rightarrow>
                   do { r3 \<leftarrow> request_coexist s2 cmd;
                        case r3 of Inr res \<Rightarrow> Some res
                        | Inl s3 \<Rightarrow> request_preempt s3 cmd } } }"

definition HandleWaitForPolicy :: "pm_state \<Rightarrow> pm_command \<Rightarrow> pm_state option" where
  "HandleWaitForPolicy s cmd =
     do { pl \<leftarrow> wr (pPendingComponentList s) (pendingComponents s)
            \<lparr>pmHandle = pcComponent cmd, pmPid = pcPid cmd\<rparr>;
          Some (s\<lparr>pPendingComponentList := pl, pendingComponents := Suc (pendingComponents s)\<rparr>) }"

definition HandleCancelWaitForPolicy :: "pm_state \<Rightarrow> pm_command \<Rightarrow> pm_state option" where
  "HandleCancelWaitForPolicy s cmd =
     (let n = pendingComponents s
      in do { m \<leftarrow> scan (is_client (pcComponent cmd) (pcPid cmd)) (pPendingComponentList s) n;
              case m of None \<Rightarrow> Some s
              | Some i \<Rightarrow> do { pl \<leftarrow> shift_down (pPendingComponentList s) i (n - 1 - i);
                              Some (s\<lparr>pPendingComponentList := pl, pendingComponents := n - 1\<rparr>) } })"

definition HandleFreePolicy :: "pm_state \<Rightarrow> pm_command \<Rightarrow> pm_state option" where
  "HandleFreePolicy s cmd =
     RemoveComponentFromList s (pcComponent cmd) (pcPid cmd) (pcParam1 cmd)"

primrec lowest_from :: "pm_state \<Rightarrow> handle \<Rightarrow> nat \<Rightarrow> nat \<Rightarrow> int \<Rightarrow> nat option \<Rightarrow> nat option option" where
  "lowest_from s h i 0 low idx = Some idx"
| "lowest_from s h i (Suc k) low idx =
     do { c \<leftarrow> rd (pComponentList s) i;
          if pmHandle c \<noteq> h then
            do { a \<leftarrow> rd (activeComponentList s) i;
                 if uint (ppPriority a) \<le> low
                 then lowest_from s h (Suc i) k (uint (ppPriority a)) (Some i)
                 else lowest_from s h (Suc i) k low idx }
          else lowest_from s h (Suc i) k low idx }"

definition HandleFreeResources :: "pm_state \<Rightarrow> pm_command \<Rightarrow> pm_result" where
  "HandleFreeResources s cmd =
     do { low \<leftarrow> GetPriority s (pcParam1 cmd) (unat (activePolicyCombination s));
          v \<leftarrow> lowest_from s (pcComponent cmd) 0 (registeredComponents s) low None;
          case v of None \<Rightarrow> Some (s, [DenyPolicy (pcComponent cmd) (pcPid cmd)])
          | Some i \<Rightarrow>
              do { c \<leftarrow> rd (pComponentList s) i;
                   r \<leftarrow> grant_request s cmd low;
                   Some (fst r, PreemptComponent (pmHandle c) (pmPid c) # snd r) } }"

subsection \<open>The command loop\<close>

definition pm_step :: "pm_state \<Rightarrow> pm_command \<Rightarrow> pm_result" where
  "pm_step s cmd =
     (case pcCmd cmd of
        PM_RequestPolicy \<Rightarrow> HandleRequestPolicy s cmd
      | PM_WaitForPolicy \<Rightarrow> map_option (\<lambda>s'. (s', [])) (HandleWaitForPolicy s cmd)
      | PM_FreePolicy \<Rightarrow> map_option (\<lambda>s'. (s', [])) (HandleFreePolicy s cmd)
      | PM_CancelWaitForPolicy \<Rightarrow> Some (s, [])
      | PM_FreeResources \<Rightarrow> HandleFreeResources s cmd
      | PM_StateSet \<Rightarrow> Some (s, [])
      | PM_OpenPipe \<Rightarrow> Some (s, [])
      | PM_Exit \<Rightarrow> Some (s, [])
      | PM_Init \<Rightarrow> Some (s, [])
      | PM_ExitTI \<Rightarrow> Some (s, []))"

text \<open>
  The \<open>while (!Exitflag)\<close> loop over the commands read from the pipe. \<open>None\<close> in the input is a
  \<open>read\<close> that returned nothing: the pipe is reopened and the loop goes on.
\<close>

fun pm_main_loop :: "pm_state \<Rightarrow> pm_command option list \<Rightarrow> pm_result" where
  "pm_main_loop s [] = Some (s, [])"
| "pm_main_loop s (None # cs) = pm_main_loop s cs"
| "pm_main_loop s (Some cmd # cs) =
     do { r \<leftarrow> pm_step s cmd;
          if pcCmd cmd = PM_ExitTI then Some r
          else do { r' \<leftarrow> pm_main_loop (fst r) cs; Some (fst r', snd r @ snd r') } }"


subsection \<open>Well-formedness\<close>

definition comb_used :: "pm_comb \<Rightarrow> pm_prio list" where
  "comb_used cb = take (unat (numComponentsInCombination cb)) (combComponents cb)"

definition comb_types :: "pm_comb \<Rightarrow> u32 list" where
  "comb_types cb = map ppComponent (comb_used cb)"

definition comb_wf :: "pm_comb \<Rightarrow> bool" where
  "comb_wf cb \<longleftrightarrow> unat (numComponentsInCombination cb) \<le> length (combComponents cb)"

text \<open>The combinations that list a component type, once per occurrence, in table order.\<close>

definition supporting :: "pm_state \<Rightarrow> u32 \<Rightarrow> nat list" where
  "supporting s component =
     concat (map (\<lambda>i. replicate (count_list (comb_types (policyCombinationTable s ! i)) component) i)
       [0..<unat (numCombinations s)])"

definition pm_wf :: "pm_state \<Rightarrow> bool" where
  "pm_wf s \<longleftrightarrow>
     length (pComponentList s) = MAX_CLIENTS \<and> length (pPendingComponentList s) = MAX_CLIENTS \<and>
     length (activeComponentList s) = MAX_CLIENTS \<and>
     length (policyCombinationTable s) = OMX_POLICY_MAX_COMBINATIONS \<and>
     (\<forall>cb \<in> set (policyCombinationTable s). comb_wf cb) \<and>
     registeredComponents s \<le> MAX_CLIENTS \<and> pendingComponents s \<le> MAX_CLIENTS \<and>
     unat (numCombinations s) \<le> OMX_POLICY_MAX_COMBINATIONS \<and>
     unat (activePolicyCombination s) < OMX_POLICY_MAX_COMBINATIONS \<and>
     (\<forall>component. length (supporting s component) \<le> OMX_POLICY_MAX_COMBINATIONS)"

definition pm_clients :: "pm_state \<Rightarrow> (handle \<times> u32) list" where
  "pm_clients s = map (\<lambda>c. (pmHandle c, pmPid c)) (take (registeredComponents s) (pComponentList s))"

definition pm_actives :: "pm_state \<Rightarrow> pm_prio list" where
  "pm_actives s = take (registeredComponents s) (activeComponentList s)"

subsection \<open>Closed forms of the table queries\<close>

lemma supporting_table_cong:
  "policyCombinationTable s' = policyCombinationTable s \<Longrightarrow> numCombinations s' = numCombinations s \<Longrightarrow>
   supporting s' = supporting s"
  by (simp add: supporting_def fun_eq_iff)

lemma scan_comb_closed:
  "comb_wf cb \<Longrightarrow> scan_comb cb component = Some (first_index (is_comp component) (comb_used cb))"
  by (simp add: scan_comb_def comb_wf_def comb_used_def scan_closed)

lemma first_index_is_comp_None:
  "first_index (is_comp component) (comb_used cb) = None \<longleftrightarrow> component \<notin> set (comb_types cb)"
  by (auto simp: first_index_None is_comp_def comb_types_def)

definition comb_priority :: "pm_comb \<Rightarrow> u32 \<Rightarrow> int" where
  "comb_priority cb component =
     (case first_index (is_comp component) (comb_used cb) of None \<Rightarrow> - 1
      | Some i \<Rightarrow> uint (ppPriority (comb_used cb ! i)))"

lemma comb_priority_absent:
  "comb_priority cb component = - 1 \<longleftrightarrow> component \<notin> set (comb_types cb)"
proof -
  have "uint (ppPriority x) \<noteq> - 1" for x
    using uint_ge_0 [of "ppPriority x"] by linarith
  then show ?thesis
    by (auto simp: comb_priority_def first_index_is_comp_None [symmetric] split: option.splits)
qed

lemma rd_comb_used:
  "comb_wf cb \<Longrightarrow> first_index P (comb_used cb) = Some i \<Longrightarrow>
   rd (combComponents cb) i = Some (comb_used cb ! i)"
  by (auto simp: comb_used_def comb_wf_def dest!: first_index_Some)

lemma pm_wf_comb: "pm_wf s \<Longrightarrow> i < OMX_POLICY_MAX_COMBINATIONS \<Longrightarrow>
   rd (policyCombinationTable s) i = Some (policyCombinationTable s ! i) \<and> comb_wf (policyCombinationTable s ! i)"
  by (auto simp: pm_wf_def)

lemma GetPriority_closed:
  assumes "pm_wf s" and "i < OMX_POLICY_MAX_COMBINATIONS"
  shows "GetPriority s component i = Some (comb_priority (policyCombinationTable s ! i) component)"
  using pm_wf_comb [OF assms]
  by (auto simp: GetPriority_def scan_comb_closed comb_priority_def rd_comb_used split: option.splits)

lemma CheckActiveCombination_closed:
  assumes "pm_wf s"
  shows "CheckActiveCombination s component =
    (let cb = policyCombinationTable s ! unat (activePolicyCombination s)
     in if component \<in> set (comb_types cb) then Some (Some (comb_priority cb component)) else Some None)"
proof -
  have a: "unat (activePolicyCombination s) < OMX_POLICY_MAX_COMBINATIONS"
    using assms by (simp add: pm_wf_def)
  let ?cb = "policyCombinationTable s ! unat (activePolicyCombination s)"
  show ?thesis
  proof (cases "first_index (is_comp component) (comb_used ?cb)")
    case None
    then have "component \<notin> set (comb_types ?cb)"
      by (simp add: first_index_is_comp_None [symmetric])
    with None pm_wf_comb [OF assms a] show ?thesis
      by (simp add: CheckActiveCombination_def scan_comb_closed Let_def)
  next
    case (Some i)
    then have "component \<in> set (comb_types ?cb)"
      using first_index_is_comp_None [of component ?cb] by auto
    with Some pm_wf_comb [OF assms a] show ?thesis
      by (simp add: CheckActiveCombination_def scan_comb_closed Let_def comb_priority_def rd_comb_used)
  qed
qed

lemma IsComponentSupported_closed:
  assumes "pm_wf s" and "i < OMX_POLICY_MAX_COMBINATIONS"
  shows "IsComponentSupported s component i =
    Some (component \<in> set (comb_types (policyCombinationTable s ! i)))"
  using pm_wf_comb [OF assms]
  by (simp add: IsComponentSupported_def scan_comb_closed first_index_is_comp_None del: not_None_eq)

text \<open>The last combination of the table that supports the type.\<close>

definition last_supporting :: "pm_state \<Rightarrow> u32 \<Rightarrow> nat option" where
  "last_supporting s component =
     (let l = filter (\<lambda>i. component \<in> set (comb_types (policyCombinationTable s ! i)))
                [0..<unat (numCombinations s)]
      in if l = [] then None else Some (last l))"

lemma check_all_from_closed:
  assumes "pm_wf s"
  shows "i + k \<le> OMX_POLICY_MAX_COMBINATIONS \<Longrightarrow>
    check_all_from s component i k acc =
     (let l = filter (\<lambda>i. component \<in> set (comb_types (policyCombinationTable s ! i))) [i..<i + k]
      in Some (if l = [] then acc
               else Some (last l, comb_priority (policyCombinationTable s ! last l) component)))"
proof (induction k arbitrary: i acc)
  case 0
  then show ?case by simp
next
  case (Suc k)
  let ?cb = "policyCombinationTable s ! i"
  from Suc.prems have i: "i < OMX_POLICY_MAX_COMBINATIONS" and k: "Suc i + k \<le> OMX_POLICY_MAX_COMBINATIONS"
    by simp_all
  note w = pm_wf_comb [OF assms i]
  have u: "[i..<Suc (i + k)] = i # [Suc i..<Suc (i + k)]" by (rule upt_conv_Cons) simp
  show ?case
  proof (cases "first_index (is_comp component) (comb_used ?cb)")
    case None
    then have "component \<notin> set (comb_types ?cb)" by (simp add: first_index_is_comp_None)
    with None w Suc.IH [OF k] show ?thesis
      by (simp add: scan_comb_closed u del: upt_Suc)
  next
    case (Some j)
    then have m: "component \<in> set (comb_types ?cb)"
      using first_index_is_comp_None [of component ?cb] by auto
    with Some w Suc.IH [OF k, of "Some (i, uint (ppPriority (comb_used ?cb ! j)))"] show ?thesis
      by (simp add: scan_comb_closed rd_comb_used u comb_priority_def Let_def del: upt_Suc)
  qed
qed

lemma CheckAllCombinations_closed:
  assumes "pm_wf s"
  shows "CheckAllCombinations s component =
    Some (map_option (\<lambda>c. (c, comb_priority (policyCombinationTable s ! c) component))
      (last_supporting s component))"
proof -
  have "unat (numCombinations s) \<le> OMX_POLICY_MAX_COMBINATIONS" using assms by (simp add: pm_wf_def)
  then show ?thesis
    by (simp add: CheckAllCombinations_def check_all_from_closed [OF assms] last_supporting_def Let_def)
qed

lemma supporting_inner_closed:
  "j + k \<le> length (combComponents cb) \<Longrightarrow>
   length l + count_list (map ppComponent (take k (drop j (combComponents cb)))) component \<le> OMX_POLICY_MAX_COMBINATIONS \<Longrightarrow>
   supporting_inner cb component i j k l =
     Some (l @ replicate (count_list (map ppComponent (take k (drop j (combComponents cb)))) component) (of_nat i))"
proof (induction k arbitrary: j l)
  case 0
  then show ?case by simp
next
  case (Suc k)
  then have j: "j < length (combComponents cb)" by simp
  then have d: "drop j (combComponents cb) = combComponents cb ! j # drop (Suc j) (combComponents cb)"
    by (rule Cons_nth_drop_Suc [symmetric])
  show ?case
  proof (cases "is_comp component (combComponents cb ! j)")
    case True
    let ?l = "l @ [of_nat i]"
    have c: "count_list (map ppComponent (take (Suc k) (drop j (combComponents cb)))) component
      = Suc (count_list (map ppComponent (take k (drop (Suc j) (combComponents cb)))) component)"
      using True by (simp add: d is_comp_def)
    have p: "push_combination l i = Some ?l"
      using Suc.prems(2) by (simp add: c push_combination_def)
    have "supporting_inner cb component i (Suc j) k ?l =
      Some (?l @ replicate (count_list (map ppComponent (take k (drop (Suc j) (combComponents cb)))) component) (of_nat i))"
      using Suc.prems c by (intro Suc.IH) simp_all
    with True j p c show ?thesis by simp
  next
    case False
    then have "count_list (map ppComponent (take (Suc k) (drop j (combComponents cb)))) component
      = count_list (map ppComponent (take k (drop (Suc j) (combComponents cb)))) component"
      by (simp add: d is_comp_def)
    with False j Suc.prems Suc.IH [of "Suc j" l] show ?thesis by simp
  qed
qed

lemma supporting_from_closed:
  assumes "pm_wf s"
  shows "i + k \<le> OMX_POLICY_MAX_COMBINATIONS \<Longrightarrow>
    length l + length (concat (map (\<lambda>i. replicate (count_list (comb_types (policyCombinationTable s ! i)) component) i) [i..<i + k]))
      \<le> OMX_POLICY_MAX_COMBINATIONS \<Longrightarrow>
    supporting_from s component i k l =
     Some (l @ map of_nat (concat (map (\<lambda>i. replicate (count_list (comb_types (policyCombinationTable s ! i)) component) i) [i..<i + k])))"
proof (induction k arbitrary: i l)
  case 0
  then show ?case by simp
next
  case (Suc k)
  let ?cb = "policyCombinationTable s ! i" and ?n = "\<lambda>i. count_list (comb_types (policyCombinationTable s ! i)) component"
  let ?l = "l @ replicate (?n i) (of_nat i)"
  from Suc.prems have i: "i < OMX_POLICY_MAX_COMBINATIONS" and k: "Suc i + k \<le> OMX_POLICY_MAX_COMBINATIONS"
    by simp_all
  note w = pm_wf_comb [OF assms i]
  have u: "[i..<i + Suc k] = i # [Suc i..<Suc i + k]" by (simp add: upt_conv_Cons)
  have t: "map ppComponent (take (unat (numComponentsInCombination ?cb)) (combComponents ?cb)) = comb_types ?cb"
    by (simp add: comb_types_def comb_used_def)
  have 1: "supporting_inner ?cb component i 0 (unat (numComponentsInCombination ?cb)) l = Some ?l"
    using w Suc.prems(2) unfolding u
    by (subst supporting_inner_closed) (simp_all add: t comb_wf_def del: upt_Suc)
  have 2: "supporting_from s component (Suc i) k ?l =
    Some (?l @ map of_nat (concat (map (\<lambda>i. replicate (?n i) i) [Suc i..<Suc i + k])))"
    using Suc.prems k unfolding u by (intro Suc.IH) (simp_all del: upt_Suc)
  from 1 2 w show ?case unfolding u by (simp del: upt_Suc)
qed

lemma GetSupportingCombinations_closed:
  assumes "pm_wf s"
  shows "GetSupportingCombinations s component = Some (map of_nat (supporting s component))"
proof -
  have "0 + unat (numCombinations s) \<le> OMX_POLICY_MAX_COMBINATIONS"
    and "length ([] :: u8 list) + length (supporting s component) \<le> OMX_POLICY_MAX_COMBINATIONS"
    using assms by (simp_all add: pm_wf_def)
  from supporting_from_closed [OF assms this(1), of "[]" component] this(2) show ?thesis
    by (simp add: GetSupportingCombinations_def supporting_def)
qed

lemma supporting_member:
  "c \<in> set (supporting s component) \<longleftrightarrow>
     c < unat (numCombinations s) \<and> component \<in> set (comb_types (policyCombinationTable s ! c))"
  by (auto simp: supporting_def set_replicate_conv_if count_list_0_iff split: if_splits)

lemma unat_of_nat_comb: "c < OMX_POLICY_MAX_COMBINATIONS \<Longrightarrow> unat (of_nat c :: u8) = c"
  by (simp add: unat_of_nat)


subsection \<open>The client lists\<close>

lemma first_index_client:
  "first_index (is_client h pid) (take (registeredComponents s) (pComponentList s))
     = first_index (\<lambda>x. x = (h, pid)) (pm_clients s)"
  unfolding pm_clients_def first_index_map
  by (rule first_index_cong) (simp add: is_client_def)

lemma remove_at_first: "first_index (\<lambda>x. x = k) xs = Some i \<Longrightarrow> remove_at i xs = remove1 k xs"
  by (induction xs arbitrary: i) (auto split: if_splits)

lemma first_absent: "first_index (\<lambda>x. x = k) xs = None \<longleftrightarrow> k \<notin> set xs"
  by (auto simp: first_index_None)

lemma first_present: "first_index (\<lambda>x. x = k) xs = Some i \<Longrightarrow> k \<in> set xs"
  by (metis first_absent option.distinct(1))

lemma pm_wf_lengths [simp]:
  assumes "pm_wf s"
  shows "length (pComponentList s) = MAX_CLIENTS" "length (activeComponentList s) = MAX_CLIENTS"
    "length (pPendingComponentList s) = MAX_CLIENTS"
    "registeredComponents s \<le> MAX_CLIENTS" "pendingComponents s \<le> MAX_CLIENTS"
    "length (pm_clients s) = registeredComponents s" "length (pm_actives s) = registeredComponents s"
  using assms by (simp_all add: pm_wf_def pm_clients_def pm_actives_def)

lemma pm_wf_update:
  assumes "pm_wf s" and "length act = MAX_CLIENTS" and "length cl = MAX_CLIENTS" and "n \<le> MAX_CLIENTS"
  shows "pm_wf (s\<lparr>activeComponentList := act, pComponentList := cl, registeredComponents := n\<rparr>)"
  using assms by (simp add: pm_wf_def supporting_def del: pm_wf_lengths)

lemma pm_wf_clients:
  "pm_wf s \<Longrightarrow> length cl = MAX_CLIENTS \<Longrightarrow> n \<le> MAX_CLIENTS \<Longrightarrow>
   pm_wf (s\<lparr>pComponentList := cl, registeredComponents := n\<rparr>)"
  by (simp add: pm_wf_def supporting_def del: pm_wf_lengths)

lemma pm_wf_pending:
  "pm_wf s \<Longrightarrow> length pl = MAX_CLIENTS \<Longrightarrow> n \<le> MAX_CLIENTS \<Longrightarrow>
   pm_wf (s\<lparr>pPendingComponentList := pl, pendingComponents := n\<rparr>)"
  by (simp add: pm_wf_def supporting_def del: pm_wf_lengths)

lemma pm_wf_actives:
  "pm_wf s \<Longrightarrow> length act = MAX_CLIENTS \<Longrightarrow> pm_wf (s\<lparr>activeComponentList := act\<rparr>)"
  by (simp add: pm_wf_def supporting_def del: pm_wf_lengths)

lemma pm_wf_active_combination:
  "pm_wf s \<Longrightarrow> unat c < OMX_POLICY_MAX_COMBINATIONS \<Longrightarrow> pm_wf (s\<lparr>activePolicyCombination := c\<rparr>)"
  by (simp add: pm_wf_def supporting_def del: pm_wf_lengths)

lemma scan_clients:
  "pm_wf s \<Longrightarrow> scan (is_client h pid) (pComponentList s) (registeredComponents s)
     = Some (first_index (\<lambda>x. x = (h, pid)) (pm_clients s))"
  by (simp add: scan_closed first_index_client)

definition grant_msg :: "handle \<Rightarrow> u32 \<Rightarrow> pm_response" where
  "grant_msg h pid = \<lparr>prComponent = h, prPid = pid, prCmd = PM_GRANTPOLICY\<rparr>"

lemma GrantPolicy_known:
  assumes "pm_wf s" and "(h, pid) \<in> set (pm_clients s)"
  shows "GrantPolicy s h idx prio pid = Some (s, [grant_msg h pid])"
proof -
  from assms(2) obtain i where "first_index (\<lambda>x. x = (h, pid)) (pm_clients s) = Some i"
    by (cases "first_index (\<lambda>x. x = (h, pid)) (pm_clients s)") (auto simp: first_absent)
  with assms(1) show ?thesis by (simp add: GrantPolicy_def scan_clients grant_msg_def)
qed

lemma GrantPolicy_new:
  assumes "pm_wf s" and "(h, pid) \<notin> set (pm_clients s)" and "registeredComponents s < MAX_CLIENTS"
  shows "\<exists>s'. GrantPolicy s h idx prio pid = Some (s', [grant_msg h pid]) \<and> pm_wf s'
    \<and> pm_clients s' = pm_clients s @ [(h, pid)]
    \<and> pm_actives s' = pm_actives s @ [\<lparr>ppComponent = ucast idx, ppPriority = prio\<rparr>]
    \<and> policyCombinationTable s' = policyCombinationTable s \<and> numCombinations s' = numCombinations s
    \<and> activePolicyCombination s' = activePolicyCombination s"
proof -
  let ?n = "registeredComponents s"
  let ?act = "(activeComponentList s)[?n := \<lparr>ppComponent = ucast idx, ppPriority = prio\<rparr>]"
  let ?cl = "(pComponentList s)[?n := \<lparr>pmHandle = h, pmPid = pid\<rparr>]"
  let ?s = "s\<lparr>activeComponentList := ?act, pComponentList := ?cl, registeredComponents := Suc ?n\<rparr>"
  have "first_index (\<lambda>x. x = (h, pid)) (pm_clients s) = None"
    using assms(2) by (simp add: first_absent)
  with assms have "GrantPolicy s h idx prio pid = Some (?s, [grant_msg h pid])"
    by (simp add: GrantPolicy_def scan_clients grant_msg_def Let_def)
  moreover have "pm_wf ?s" using assms by (intro pm_wf_update) simp_all
  moreover have "pm_clients ?s = pm_clients s @ [(h, pid)]"
    "pm_actives ?s = pm_actives s @ [\<lparr>ppComponent = ucast idx, ppPriority = prio\<rparr>]"
    using assms by (simp_all add: pm_clients_def pm_actives_def take_Suc_conv_app_nth)
  ultimately show ?thesis by (intro exI [of _ ?s]) simp
qed

lemma remove_active_closed:
  assumes "pm_wf s"
  shows "\<exists>act. remove_active s t = Some (s\<lparr>activeComponentList := act\<rparr>) \<and> length act = MAX_CLIENTS
    \<and> (case first_index (is_comp t) (pm_actives s) of
         None \<Rightarrow> act = activeComponentList s
       | Some i \<Rightarrow> take (registeredComponents s - 1) act = remove_at i (pm_actives s))"
proof -
  let ?n = "registeredComponents s"
  have sc: "scan (is_comp t) (activeComponentList s) ?n = Some (first_index (is_comp t) (pm_actives s))"
    using assms by (simp add: scan_closed pm_actives_def)
  show ?thesis
  proof (cases "first_index (is_comp t) (pm_actives s)")
    case None
    with sc assms show ?thesis
      by (intro exI [of _ "activeComponentList s"]) (simp add: remove_active_def)
  next
    case (Some i)
    then have "i < ?n" using assms by (auto dest: first_index_Some)
    with shift_down_prefix [of i ?n "activeComponentList s"] assms obtain b where
      "shift_down (activeComponentList s) i (?n - 1 - i) = Some b" "length b = MAX_CLIENTS"
      "take (?n - 1) b = remove_at i (take ?n (activeComponentList s))" by auto
    with Some sc show ?thesis
      by (intro exI [of _ b]) (simp add: remove_active_def Let_def pm_actives_def)
  qed
qed

lemma remove_client_closed:
  assumes "pm_wf s"
  shows "\<exists>s'. remove_client s h pid = Some s' \<and> pm_wf s' \<and> pm_clients s' = remove1 (h, pid) (pm_clients s)
    \<and> activeComponentList s' = activeComponentList s
    \<and> registeredComponents s' = registeredComponents s - (if (h, pid) \<in> set (pm_clients s) then 1 else 0)
    \<and> policyCombinationTable s' = policyCombinationTable s \<and> numCombinations s' = numCombinations s
    \<and> activePolicyCombination s' = activePolicyCombination s"
proof (cases "first_index (\<lambda>x. x = (h, pid)) (pm_clients s)")
  case None
  then have "(h, pid) \<notin> set (pm_clients s)" by (simp add: first_absent)
  with None assms show ?thesis
    by (intro exI [of _ s]) (simp add: remove_client_def scan_clients remove1_idem)
next
  case (Some i)
  let ?n = "registeredComponents s"
  from Some have m: "(h, pid) \<in> set (pm_clients s)" by (rule first_present)
  from Some have i: "i < ?n" using assms by (auto dest: first_index_Some)
  with shift_down_prefix [of i ?n "pComponentList s"] assms obtain b where
    b: "shift_down (pComponentList s) i (?n - 1 - i) = Some b" "length b = MAX_CLIENTS"
      "take (?n - 1) b = remove_at i (take ?n (pComponentList s))" by auto
  let ?s = "s\<lparr>pComponentList := b, registeredComponents := ?n - 1\<rparr>"
  have "remove_client s h pid = Some ?s"
    using Some b assms by (simp add: remove_client_def scan_clients Let_def)
  moreover have "pm_wf ?s"
    using assms b by (intro pm_wf_clients) (simp_all add: diff_le_self [THEN le_trans])
  moreover have "pm_clients ?s = remove1 (h, pid) (pm_clients s)"
    using b(3) remove_at_first [OF Some] by (simp add: pm_clients_def map_remove_at)
  ultimately show ?thesis using m by (intro exI [of _ ?s]) simp
qed

lemma RemoveComponentFromList_clients:
  assumes "pm_wf s"
  shows "\<exists>s'. RemoveComponentFromList s h pid t = Some s' \<and> pm_wf s'
    \<and> pm_clients s' = remove1 (h, pid) (pm_clients s)
    \<and> policyCombinationTable s' = policyCombinationTable s \<and> numCombinations s' = numCombinations s
    \<and> activePolicyCombination s' = activePolicyCombination s"
proof -
  from remove_active_closed [OF assms, of t] obtain act where
    a: "remove_active s t = Some (s\<lparr>activeComponentList := act\<rparr>)" "length act = MAX_CLIENTS" by blast
  let ?s = "s\<lparr>activeComponentList := act\<rparr>"
  have "pm_wf ?s" using assms a(2) by (intro pm_wf_actives) simp_all
  from remove_client_closed [OF this, of h pid] a(1) show ?thesis
    by (auto simp: RemoveComponentFromList_def pm_clients_def)
qed

text \<open>
  The two lists stay in step when the type given is the one the client was registered with
  and no earlier client has the same type.
\<close>

lemma RemoveComponentFromList_aligned:
  assumes "pm_wf s" and "first_index (\<lambda>x. x = (h, pid)) (pm_clients s) = Some i"
    and "first_index (is_comp t) (pm_actives s) = Some i"
  shows "\<exists>s'. RemoveComponentFromList s h pid t = Some s' \<and> pm_wf s'
    \<and> pm_clients s' = remove_at i (pm_clients s) \<and> pm_actives s' = remove_at i (pm_actives s)"
proof -
  from remove_active_closed [OF assms(1), of t] assms(3) obtain act where
    a: "remove_active s t = Some (s\<lparr>activeComponentList := act\<rparr>)" "length act = MAX_CLIENTS"
      "take (registeredComponents s - 1) act = remove_at i (pm_actives s)" by auto
  let ?s = "s\<lparr>activeComponentList := act\<rparr>"
  have w: "pm_wf ?s" using assms a(2) by (intro pm_wf_actives) simp_all
  have c: "pm_clients ?s = pm_clients s" by (simp add: pm_clients_def)
  have m: "(h, pid) \<in> set (pm_clients s)" using assms(2) by (rule first_present)
  from remove_client_closed [OF w, of h pid] obtain s' where
    s': "remove_client ?s h pid = Some s'" "pm_wf s'" "pm_clients s' = remove1 (h, pid) (pm_clients s)"
      "activeComponentList s' = act" "registeredComponents s' = registeredComponents s - 1"
    using c m by auto
  have "pm_actives s' = remove_at i (pm_actives s)"
    using a(3) s' by (simp add: pm_actives_def)
  with s' a(1) remove_at_first [OF assms(2)] show ?thesis
    by (simp add: RemoveComponentFromList_def)
qed

text \<open>The client list is a table registry: granting adds a client, freeing removes it.\<close>

definition pm_info :: "pm_state \<Rightarrow> handle \<times> u32 \<Rightarrow> unit option" where
  "pm_info s k = (if k \<in> set (pm_clients s) then Some () else None)"

interpretation pm_reg: set_registry pm_clients pm_info pm_wf
    "\<lambda>s k. map_option fst (GrantPolicy s (fst k) idx prio (snd k))"
    "\<lambda>s k. RemoveComponentFromList s (fst k) (snd k) t" MAX_CLIENTS
  for idx prio t
proof unfold_locales
  fix s k assume a: "pm_wf s" "k \<notin> set (pm_clients s)" "length (pm_clients s) < MAX_CLIENTS"
  then show "\<exists>s'. map_option fst (GrantPolicy s (fst k) idx prio (snd k)) = Some s' \<and> pm_wf s' \<and>
      pm_clients s' = pm_clients s @ [k] \<and> (\<forall>k'. k' \<noteq> k \<longrightarrow> pm_info s' k' = pm_info s k')"
    using GrantPolicy_new [of s "fst k" "snd k" idx prio] by (auto simp: pm_info_def)
next
  fix s k assume "pm_wf s"
  then show "\<exists>s'. RemoveComponentFromList s (fst k) (snd k) t = Some s' \<and> pm_wf s' \<and>
      pm_clients s' = remove1 k (pm_clients s) \<and> (\<forall>k'. k' \<noteq> k \<longrightarrow> pm_info s' k' = pm_info s k')"
    using RemoveComponentFromList_clients [of s "fst k" "snd k" t]
    by (fastforce simp: pm_info_def simp del: split_paired_All)
next
  fix s assume "pm_wf s"
  then show "length (pm_clients s) \<le> MAX_CLIENTS" by simp
next
  fix s k assume "pm_wf s" "k \<in> set (pm_clients s)"
  then show "map_option fst (GrantPolicy s (fst k) idx prio (snd k)) = Some s"
    using GrantPolicy_known [of s "fst k" "snd k"] by simp
qed

subsection \<open>The decision on a request\<close>

text \<open>
  What the policy manager decides, over the table and the lists as values: use a
  combination beside the running components, use it after preempting all of them, or refuse.
\<close>

datatype decision = Use nat | Preempt_for nat | Refuse

definition fits :: "pm_state \<Rightarrow> nat \<Rightarrow> bool" where
  "fits s c \<longleftrightarrow> set (map ppComponent (pm_actives s)) \<subseteq> set (comb_types (policyCombinationTable s ! c))"

definition pm_decide :: "pm_state \<Rightarrow> u32 \<Rightarrow> decision" where
  "pm_decide s t =
     (let act = unat (activePolicyCombination s); sup = supporting s t
      in if pm_clients s = [] then (case sup of [] \<Rightarrow> Refuse | c # _ \<Rightarrow> Use c)
         else if t \<in> set (comb_types (policyCombinationTable s ! act)) then Use act
         else case find (fits s) sup of Some c \<Rightarrow> Use c
         | None \<Rightarrow> (case last_supporting s t of
                     Some c \<Rightarrow> if c < act then Preempt_for c else Refuse
                   | None \<Rightarrow> Refuse))"

definition preempt_all :: "pm_state \<Rightarrow> pm_response list" where
  "preempt_all s = map (\<lambda>(h, pid). PreemptComponent h pid) (pm_clients s)"

definition decision_output :: "pm_state \<Rightarrow> pm_command \<Rightarrow> pm_response list" where
  "decision_output s cmd =
     (case pm_decide s (pcParam1 cmd) of
        Use c \<Rightarrow> [grant_msg (pcComponent cmd) (pcPid cmd)]
      | Preempt_for c \<Rightarrow> preempt_all s @ [grant_msg (pcComponent cmd) (pcPid cmd)]
      | Refuse \<Rightarrow> [DenyPolicy (pcComponent cmd) (pcPid cmd)])"

lemma coexist_inner_closed:
  assumes "pm_wf s" and "c < OMX_POLICY_MAX_COMBINATIONS"
  shows "j + k \<le> registeredComponents s \<Longrightarrow> coexist_inner s c j k rv =
    Some (if k = 0 then rv else set (map ppComponent (take k (drop j (pm_actives s))))
            \<subseteq> set (comb_types (policyCombinationTable s ! c)))"
proof (induction k arbitrary: j rv)
  case 0
  then show ?case by simp
next
  case (Suc k)
  then have j: "j < registeredComponents s" by simp
  with assms(1) have l: "j < length (activeComponentList s)" "j < length (pm_actives s)"
    by (simp_all add: less_le_trans [OF j])
  have d: "drop j (pm_actives s) = activeComponentList s ! j # drop (Suc j) (pm_actives s)"
    using Cons_nth_drop_Suc [OF l(2)] j by (simp add: pm_actives_def)
  show ?case
  proof (cases k)
    case 0
    with l d IsComponentSupported_closed [OF assms] show ?thesis by simp
  next
    case (Suc k')
    with Suc.IH [of "Suc j"] Suc.prems l d IsComponentSupported_closed [OF assms] show ?thesis by simp
  qed
qed

lemma coexist_from_closed:
  assumes "pm_wf s" and "pm_clients s \<noteq> []"
  shows "(\<forall>c \<in> set cs. c < OMX_POLICY_MAX_COMBINATIONS) \<Longrightarrow>
    coexist_from s (map of_nat cs) rv = Some (find (fits s) cs)"
proof (induction cs arbitrary: rv)
  case Nil
  then show ?case by simp
next
  case (Cons c cs)
  then have c: "c < OMX_POLICY_MAX_COMBINATIONS" by simp
  have r: "registeredComponents s \<noteq> 0"
    using assms pm_wf_lengths(6) [OF assms(1)] by (metis length_0_conv)
  have "coexist_inner s c 0 (registeredComponents s) rv = Some (fits s c)"
    using coexist_inner_closed [OF assms(1) c, of 0 "registeredComponents s" rv] r assms(1)
    by (simp add: fits_def)
  with Cons show ?case by (simp add: unat_of_nat_comb [OF c])
qed

lemma supporting_bound: "pm_wf s \<Longrightarrow> \<forall>c \<in> set (supporting s t). c < OMX_POLICY_MAX_COMBINATIONS"
  by (auto simp: supporting_member pm_wf_def simp del: pm_wf_lengths)

lemma CanAllComponentsCoexist_closed:
  assumes "pm_wf s" and "pm_clients s \<noteq> []"
  shows "CanAllComponentsCoexist s t = Some (find (fits s) (supporting s t))"
  using assms supporting_bound [OF assms(1)]
  by (simp add: CanAllComponentsCoexist_def GetSupportingCombinations_closed coexist_from_closed)

lemma preempt_from_closed:
  "i + k \<le> length (pComponentList s) \<Longrightarrow> preempt_from s i k =
    Some (map (\<lambda>c. PreemptComponent (pmHandle c) (pmPid c)) (take k (drop i (pComponentList s))))"
  by (induction k arbitrary: i) (simp_all add: Cons_nth_drop_Suc [symmetric])

lemma preempt_from_all:
  "pm_wf s \<Longrightarrow> preempt_from s 0 (registeredComponents s) = Some (preempt_all s)"
  by (simp add: preempt_from_closed preempt_all_def pm_clients_def)

definition with_client :: "handle \<times> u32 \<Rightarrow> (handle \<times> u32) list \<Rightarrow> (handle \<times> u32) list" where
  "with_client k ks = (if k \<in> set ks then ks else ks @ [k])"

definition granted_entry :: "pm_command \<Rightarrow> int \<Rightarrow> pm_prio" where
  "granted_entry cmd priority = \<lparr>ppComponent = ucast (ucast (pcParam1 cmd) :: u8), ppPriority = word_of_int priority\<rparr>"

definition same_table :: "pm_state \<Rightarrow> pm_state \<Rightarrow> bool" where
  "same_table s s' \<longleftrightarrow> policyCombinationTable s' = policyCombinationTable s \<and> numCombinations s' = numCombinations s"

lemma grant_request_spec:
  assumes "pm_wf s" and "registeredComponents s < MAX_CLIENTS"
  shows "\<exists>s'. grant_request s cmd p = Some (s', [grant_msg (pcComponent cmd) (pcPid cmd)]) \<and> pm_wf s'
    \<and> pm_clients s' = with_client (pcComponent cmd, pcPid cmd) (pm_clients s)
    \<and> pm_actives s' = (if (pcComponent cmd, pcPid cmd) \<in> set (pm_clients s) then pm_actives s
        else pm_actives s @ [granted_entry cmd p])
    \<and> same_table s s' \<and> activePolicyCombination s' = activePolicyCombination s"
proof (cases "(pcComponent cmd, pcPid cmd) \<in> set (pm_clients s)")
  case True
  with GrantPolicy_known [OF assms(1) True] assms show ?thesis
    by (simp add: grant_request_def with_client_def same_table_def)
next
  case False
  from GrantPolicy_new [OF assms(1) False assms(2), of "ucast (pcParam1 cmd)" "word_of_int p"] False
  show ?thesis
    by (auto simp: grant_request_def with_client_def same_table_def granted_entry_def)
qed

text \<open>What a state is after a decision; \<open>p\<close> is the priority the component is granted with.\<close>

definition granted_state :: "pm_state \<Rightarrow> pm_command \<Rightarrow> nat \<Rightarrow> pm_state \<Rightarrow> bool" where
  "granted_state s cmd c s' \<longleftrightarrow>
     pm_clients s' = with_client (pcComponent cmd, pcPid cmd) (pm_clients s)
     \<and> pm_actives s' = (if (pcComponent cmd, pcPid cmd) \<in> set (pm_clients s) then pm_actives s
         else pm_actives s @ [granted_entry cmd (comb_priority (policyCombinationTable s ! c) (pcParam1 cmd))])
     \<and> same_table s s' \<and> unat (activePolicyCombination s') = c"

definition decided :: "pm_state \<Rightarrow> pm_command \<Rightarrow> decision \<Rightarrow> pm_state \<Rightarrow> bool" where
  "decided s cmd d s' \<longleftrightarrow>
     (case d of
        Refuse \<Rightarrow> s' = s
      | Use c \<Rightarrow> granted_state s cmd c s'
      | Preempt_for c \<Rightarrow> granted_state s cmd c s')"

lemma last_supporting_Some:
  "last_supporting s t = Some c \<Longrightarrow> c \<in> set (supporting s t)"
proof -
  let ?l = "filter (\<lambda>i. t \<in> set (comb_types (policyCombinationTable s ! i))) [0..<unat (numCombinations s)]"
  assume "last_supporting s t = Some c"
  then have "?l \<noteq> []" "c = last ?l"
    by (simp_all only: last_supporting_def Let_def split: if_splits) simp_all
  then have "c \<in> set ?l" using last_in_set by blast
  then show ?thesis by (simp add: supporting_member)
qed

lemma supported_priority:
  "pm_wf s \<Longrightarrow> c \<in> set (supporting s t) \<Longrightarrow>
   c < OMX_POLICY_MAX_COMBINATIONS \<and> GetPriority s t c = Some (comb_priority (policyCombinationTable s ! c) t)
   \<and> comb_priority (policyCombinationTable s ! c) t \<noteq> - 1"
  using supporting_bound [of s t] by (simp add: GetPriority_closed comb_priority_absent supporting_member)

lemma grant_switch:
  assumes "pm_wf s" and "registeredComponents s < MAX_CLIENTS" and "c < OMX_POLICY_MAX_COMBINATIONS"
  shows "\<exists>s1 s'. grant_request s cmd (comb_priority (policyCombinationTable s ! c) (pcParam1 cmd))
        = Some (s1, [grant_msg (pcComponent cmd) (pcPid cmd)])
      \<and> switch_combination c (s1, out) = (s', out) \<and> pm_wf s' \<and> granted_state s cmd c s'"
proof -
  from grant_request_spec [OF assms(1,2), of cmd "comb_priority (policyCombinationTable s ! c) (pcParam1 cmd)"]
  obtain s1 where s1: "grant_request s cmd (comb_priority (policyCombinationTable s ! c) (pcParam1 cmd))
        = Some (s1, [grant_msg (pcComponent cmd) (pcPid cmd)])" "pm_wf s1"
    "pm_clients s1 = with_client (pcComponent cmd, pcPid cmd) (pm_clients s)"
    "pm_actives s1 = (if (pcComponent cmd, pcPid cmd) \<in> set (pm_clients s) then pm_actives s
        else pm_actives s @ [granted_entry cmd (comb_priority (policyCombinationTable s ! c) (pcParam1 cmd))])"
    "same_table s s1" by blast
  let ?s = "s1\<lparr>activePolicyCombination := of_nat c\<rparr>"
  have "pm_wf ?s"
    using s1(2) assms(3) by (intro pm_wf_active_combination) (simp_all add: unat_of_nat_comb)
  moreover have "granted_state s cmd c ?s"
    using s1(3-5) assms(3)
    by (auto simp: granted_state_def pm_clients_def pm_actives_def same_table_def unat_of_nat_comb)
  ultimately show ?thesis using s1(1) by (auto simp: switch_combination_def)
qed

lemma request_preempt_spec:
  assumes "pm_wf s" and "registeredComponents s < MAX_CLIENTS"
    and "pm_decide s (pcParam1 cmd) = (case last_supporting s (pcParam1 cmd) of
        Some c \<Rightarrow> if c < unat (activePolicyCombination s) then Preempt_for c else Refuse | None \<Rightarrow> Refuse)"
  shows "\<exists>s'. request_preempt s cmd = Some (s', decision_output s cmd) \<and> pm_wf s'
    \<and> decided s cmd (pm_decide s (pcParam1 cmd)) s'"
proof (cases "last_supporting s (pcParam1 cmd)")
  case None
  with assms show ?thesis
    by (simp add: request_preempt_def CheckAllCombinations_closed decision_output_def decided_def)
next
  case (Some c)
  note c = supported_priority [OF assms(1) last_supporting_Some [OF Some]]
  show ?thesis
  proof (cases "c < unat (activePolicyCombination s)")
    case True
    with c Some assms preempt_from_all [OF assms(1)]
      grant_switch [OF assms(1,2), of c cmd "preempt_all s @ [grant_msg (pcComponent cmd) (pcPid cmd)]"]
    show ?thesis
      by (auto simp: request_preempt_def CheckAllCombinations_closed decision_output_def decided_def)
  next
    case False
    with Some assms show ?thesis
      by (simp add: request_preempt_def CheckAllCombinations_closed decision_output_def decided_def)
  qed
qed

lemma request_running_spec:
  assumes "pm_wf s" and "registeredComponents s < MAX_CLIENTS" and "pm_clients s \<noteq> []"
  shows "\<exists>s'. HandleRequestPolicy s cmd = Some (s', decision_output s cmd) \<and> pm_wf s'
    \<and> decided s cmd (pm_decide s (pcParam1 cmd)) s'"
proof -
  let ?t = "pcParam1 cmd" and ?act = "unat (activePolicyCombination s)"
  let ?cb = "policyCombinationTable s ! ?act"
  have r: "registeredComponents s \<noteq> 0" using assms by (auto simp: pm_clients_def)
  have a: "?act < OMX_POLICY_MAX_COMBINATIONS"
    using assms(1) by (simp add: pm_wf_def del: pm_wf_lengths)
  note e = HandleRequestPolicy_def request_first_def request_active_def request_coexist_def
    CheckActiveCombination_closed [OF assms(1)] CanAllComponentsCoexist_closed [OF assms(1,3)]
    decision_output_def decided_def Let_def
  consider (active) "?t \<in> set (comb_types ?cb)"
    | (coexist) c where "?t \<notin> set (comb_types ?cb)" "find (fits s) (supporting s ?t) = Some c"
    | (preempt) "?t \<notin> set (comb_types ?cb)" "find (fits s) (supporting s ?t) = None"
    by fastforce
  then show ?thesis
  proof cases
    case active
    then have "pm_decide s ?t = Use ?act" using assms(3) by (simp add: pm_decide_def)
    with active r grant_request_spec [OF assms(1,2), of cmd "comb_priority ?cb ?t"] show ?thesis
      by (auto simp: e granted_state_def)
  next
    case coexist
    then have d: "pm_decide s ?t = Use c" using assms(3) by (simp add: pm_decide_def)
    from coexist(2) have "c \<in> set (supporting s ?t)" by (auto simp: find_Some_iff)
    note c = supported_priority [OF assms(1) this]
    from d coexist r c grant_switch [OF assms(1,2), of c cmd "[grant_msg (pcComponent cmd) (pcPid cmd)]"]
    show ?thesis by (auto simp: e)
  next
    case preempt
    then have "pm_decide s ?t = (case last_supporting s ?t of
        Some c \<Rightarrow> if c < ?act then Preempt_for c else Refuse | None \<Rightarrow> Refuse)"
      using assms(3) by (simp add: pm_decide_def)
    from request_preempt_spec [OF assms(1,2) this] preempt r show ?thesis
      by (auto simp: HandleRequestPolicy_def request_first_def request_active_def request_coexist_def
          CheckActiveCombination_closed [OF assms(1)] CanAllComponentsCoexist_closed [OF assms(1,3)] Let_def)
  qed
qed

lemma request_idle_spec:
  assumes "pm_wf s" and "pm_clients s = []"
  shows "\<exists>s'. HandleRequestPolicy s cmd = Some (s', decision_output s cmd) \<and> pm_wf s'
    \<and> decided s cmd (pm_decide s (pcParam1 cmd)) s'"
proof -
  let ?t = "pcParam1 cmd"
  have r: "registeredComponents s = 0" using assms pm_wf_lengths(6) [OF assms(1)] by simp
  show ?thesis
  proof (cases "supporting s ?t")
    case Nil
    with r assms show ?thesis
      by (simp add: HandleRequestPolicy_def request_first_def GetSupportingCombinations_closed
          decision_output_def decided_def pm_decide_def)
  next
    case (Cons c cs)
    then have "c \<in> set (supporting s ?t)" by simp
    note c = supported_priority [OF assms(1) this]
    let ?s = "s\<lparr>activePolicyCombination := of_nat c\<rparr>"
    have w: "pm_wf ?s"
      using assms(1) c by (intro pm_wf_active_combination) (simp_all add: unat_of_nat_comb)
    have n: "registeredComponents ?s < MAX_CLIENTS" using r by simp
    have g: "GetPriority ?s ?t c = Some (comb_priority (policyCombinationTable s ! c) ?t)"
      using GetPriority_closed [OF w, of c] c by simp
    have d: "pm_decide s ?t = Use c" using Cons assms(2) by (simp add: pm_decide_def)
    from grant_request_spec [OF w n, of cmd "comb_priority (policyCombinationTable s ! c) ?t"] Cons r c g d
      assms
    show ?thesis
      by (auto simp: HandleRequestPolicy_def request_first_def GetSupportingCombinations_closed
          decision_output_def decided_def granted_state_def same_table_def unat_of_nat_comb
          pm_clients_def pm_actives_def Let_def)
  qed
qed

lemma request_spec:
  assumes "pm_wf s" and "registeredComponents s < MAX_CLIENTS"
  shows "\<exists>s'. HandleRequestPolicy s cmd = Some (s', decision_output s cmd) \<and> pm_wf s'
    \<and> decided s cmd (pm_decide s (pcParam1 cmd)) s'"
  using request_running_spec [OF assms] request_idle_spec [OF assms(1)] by (cases "pm_clients s = []") simp_all

subsection \<open>Freeing resources\<close>

text \<open>Client \<open>j\<close> can be preempted for component \<open>h\<close>; its priority.\<close>

definition other_client :: "pm_state \<Rightarrow> handle \<Rightarrow> nat \<Rightarrow> bool" where
  "other_client s h j \<longleftrightarrow> fst (pm_clients s ! j) \<noteq> h"

definition client_prio :: "pm_state \<Rightarrow> nat \<Rightarrow> int" where
  "client_prio s j = uint (ppPriority (pm_actives s ! j))"

lemma client_nth:
  assumes "pm_wf s" and "j < registeredComponents s"
  shows "\<exists>c. rd (pComponentList s) j = Some c \<and> pm_clients s ! j = (pmHandle c, pmPid c)"
    "rd (activeComponentList s) j = Some (pm_actives s ! j)"
proof -
  have "j < MAX_CLIENTS" using assms(2) pm_wf_lengths(4) [OF assms(1)] by (rule less_le_trans)
  with assms show "\<exists>c. rd (pComponentList s) j = Some c \<and> pm_clients s ! j = (pmHandle c, pmPid c)"
    "rd (activeComponentList s) j = Some (pm_actives s ! j)"
    by (simp_all add: pm_clients_def pm_actives_def)
qed

lemma lowest_from_spec:
  assumes "pm_wf s"
  shows "i + k \<le> registeredComponents s \<Longrightarrow> \<exists>v. lowest_from s h i k low idx = Some v \<and>
    (v = idx \<and> (\<forall>j. i \<le> j \<and> j < i + k \<and> other_client s h j \<longrightarrow> low < client_prio s j)
     \<or> (\<exists>j. v = Some j \<and> i \<le> j \<and> j < i + k \<and> other_client s h j \<and> client_prio s j \<le> low
          \<and> (\<forall>j'. i \<le> j' \<and> j' < i + k \<and> other_client s h j' \<longrightarrow> client_prio s j \<le> client_prio s j')))"
proof (induction k arbitrary: i low idx)
  case 0
  then show ?case by simp
next
  case (Suc k)
  then have i: "i < registeredComponents s" and k: "Suc i + k \<le> registeredComponents s" by simp_all
  from client_nth [OF assms i] obtain c where
    c: "rd (pComponentList s) i = Some c" "pm_clients s ! i = (pmHandle c, pmPid c)"
      "rd (activeComponentList s) i = Some (pm_actives s ! i)" by blast
  have r: "i \<le> j \<and> j < i + Suc k \<longleftrightarrow> j = i \<or> Suc i \<le> j \<and> j < Suc i + k" for j by auto
  show ?case
  proof (cases "other_client s h i \<and> client_prio s i \<le> low")
    case True
    with c have e: "lowest_from s h i (Suc k) low idx = lowest_from s h (Suc i) k (client_prio s i) (Some i)"
      by (simp add: other_client_def client_prio_def)
    from Suc.IH [OF k, of "client_prio s i" "Some i"] obtain v where
      v: "lowest_from s h (Suc i) k (client_prio s i) (Some i) = Some v"
        "v = Some i \<and> (\<forall>j. Suc i \<le> j \<and> j < Suc i + k \<and> other_client s h j \<longrightarrow> client_prio s i < client_prio s j)
         \<or> (\<exists>j. v = Some j \<and> Suc i \<le> j \<and> j < Suc i + k \<and> other_client s h j \<and> client_prio s j \<le> client_prio s i
          \<and> (\<forall>j'. Suc i \<le> j' \<and> j' < Suc i + k \<and> other_client s h j' \<longrightarrow> client_prio s j \<le> client_prio s j'))"
      by blast
    from v(2) True show ?thesis unfolding e v(1) conj_assoc [symmetric] r
      by (fastforce simp: less_imp_le)
  next
    case False
    with c have e: "lowest_from s h i (Suc k) low idx = lowest_from s h (Suc i) k low idx"
      by (auto simp: other_client_def client_prio_def)
    from Suc.IH [OF k, of low idx] False show ?thesis unfolding e conj_assoc [symmetric] r
      by (fastforce simp: not_le)
  qed
qed

definition victim_ok :: "pm_state \<Rightarrow> handle \<Rightarrow> int \<Rightarrow> nat \<Rightarrow> bool" where
  "victim_ok s h low j \<longleftrightarrow> j < registeredComponents s \<and> other_client s h j \<and> client_prio s j \<le> low
     \<and> (\<forall>j' < registeredComponents s. other_client s h j' \<longrightarrow> client_prio s j \<le> client_prio s j')"

lemma lowest_victim:
  assumes "pm_wf s"
  shows "(\<exists>j. lowest_from s h 0 (registeredComponents s) low None = Some (Some j) \<and> victim_ok s h low j)
    \<or> lowest_from s h 0 (registeredComponents s) low None = Some None
      \<and> (\<forall>j < registeredComponents s. other_client s h j \<longrightarrow> low < client_prio s j)"
  using lowest_from_spec [OF assms, of 0 "registeredComponents s" h low None]
  by (auto simp: victim_ok_def)

definition active_prio :: "pm_state \<Rightarrow> u32 \<Rightarrow> int" where
  "active_prio s t = comb_priority (policyCombinationTable s ! unat (activePolicyCombination s)) t"

lemma active_prio_closed:
  "pm_wf s \<Longrightarrow> GetPriority s t (unat (activePolicyCombination s)) = Some (active_prio s t)"
  unfolding active_prio_def by (rule GetPriority_closed) (simp_all add: pm_wf_def del: pm_wf_lengths)

lemma free_resources_spec:
  assumes "pm_wf s" and "registeredComponents s < MAX_CLIENTS"
  shows "(\<exists>j s'. victim_ok s (pcComponent cmd) (active_prio s (pcParam1 cmd)) j
        \<and> HandleFreeResources s cmd = Some (s',
            [PreemptComponent (fst (pm_clients s ! j)) (snd (pm_clients s ! j)), grant_msg (pcComponent cmd) (pcPid cmd)])
        \<and> pm_wf s' \<and> granted_state s cmd (unat (activePolicyCombination s)) s')
    \<or> (\<forall>j < registeredComponents s. other_client s (pcComponent cmd) j \<longrightarrow>
          active_prio s (pcParam1 cmd) < client_prio s j)
      \<and> HandleFreeResources s cmd = Some (s, [DenyPolicy (pcComponent cmd) (pcPid cmd)])"
proof -
  let ?h = "pcComponent cmd" and ?low = "active_prio s (pcParam1 cmd)"
  note e = HandleFreeResources_def active_prio_closed [OF assms(1)]
  from lowest_victim [OF assms(1), of ?h ?low] show ?thesis
  proof (elim disjE exE conjE)
    fix j assume l: "lowest_from s ?h 0 (registeredComponents s) ?low None = Some (Some j)"
      and v: "victim_ok s ?h ?low j"
    then have "j < registeredComponents s" by (simp add: victim_ok_def)
    from client_nth(1) [OF assms(1) this] obtain c where
      c: "rd (pComponentList s) j = Some c" "pm_clients s ! j = (pmHandle c, pmPid c)" by blast
    from grant_request_spec [OF assms, of cmd ?low] obtain s' where
      g: "grant_request s cmd ?low = Some (s', [grant_msg ?h (pcPid cmd)])" "pm_wf s'"
        "granted_state s cmd (unat (activePolicyCombination s)) s'"
      by (auto simp: granted_state_def active_prio_def)
    from v g l c show ?thesis by (auto simp: e)
  next
    assume "lowest_from s ?h 0 (registeredComponents s) ?low None = Some None"
      and "\<forall>j < registeredComponents s. other_client s ?h j \<longrightarrow> ?low < client_prio s j"
    then show ?thesis by (simp add: e)
  qed
qed

subsection \<open>The command loop is safe and answers every request\<close>

text \<open>Room in the client table before a request, in the pending table before a wait.\<close>

definition pm_ok :: "pm_state \<Rightarrow> pm_command \<Rightarrow> bool" where
  "pm_ok s cmd \<longleftrightarrow>
     (pcCmd cmd \<in> {PM_RequestPolicy, PM_FreeResources} \<longrightarrow> registeredComponents s < MAX_CLIENTS) \<and>
     (pcCmd cmd = PM_WaitForPolicy \<longrightarrow> pendingComponents s < MAX_CLIENTS)"

definition is_answer :: "pm_response \<Rightarrow> bool" where
  "is_answer r \<longleftrightarrow> prCmd r \<noteq> PM_PREEMPTED"

definition answers :: "pm_response list \<Rightarrow> (handle \<times> u32) list" where
  "answers rs = map (\<lambda>r. (prComponent r, prPid r)) (filter is_answer rs)"

definition asks :: "pm_command \<Rightarrow> bool" where
  "asks cmd \<longleftrightarrow> pcCmd cmd = PM_RequestPolicy \<or> pcCmd cmd = PM_FreeResources"

lemma is_answer_simps [simp]:
  "is_answer (grant_msg h pid)" "is_answer (DenyPolicy h pid)" "\<not> is_answer (PreemptComponent h pid)"
  by (simp_all add: is_answer_def grant_msg_def DenyPolicy_def PreemptComponent_def)

lemma answers_simps [simp]:
  "answers [] = []" "answers (r # rs) = (if is_answer r then [(prComponent r, prPid r)] else []) @ answers rs"
  "answers (rs @ rs') = answers rs @ answers rs'"
  by (simp_all add: answers_def)

lemma msg_addressee [simp]:
  "prComponent (grant_msg h pid) = h" "prPid (grant_msg h pid) = pid"
  "prComponent (DenyPolicy h pid) = h" "prPid (DenyPolicy h pid) = pid"
  by (simp_all add: grant_msg_def DenyPolicy_def)

lemma answers_preempt_all [simp]: "answers (preempt_all s) = []"
  by (auto simp: answers_def preempt_all_def filter_empty_conv)

lemma answers_decision_output [simp]: "answers (decision_output s cmd) = [(pcComponent cmd, pcPid cmd)]"
  by (simp add: decision_output_def split: decision.splits)

lemma with_client_length: "length (with_client k ks) \<le> Suc (length ks)"
  by (simp add: with_client_def)

lemma HandleWaitForPolicy_spec:
  assumes "pm_wf s" and "pendingComponents s < MAX_CLIENTS"
  shows "\<exists>s'. HandleWaitForPolicy s cmd = Some s' \<and> pm_wf s' \<and> pm_clients s' = pm_clients s
    \<and> pm_actives s' = pm_actives s \<and> same_table s s' \<and> activePolicyCombination s' = activePolicyCombination s"
proof -
  let ?s = "s\<lparr>pPendingComponentList := (pPendingComponentList s)[pendingComponents s :=
      \<lparr>pmHandle = pcComponent cmd, pmPid = pcPid cmd\<rparr>], pendingComponents := Suc (pendingComponents s)\<rparr>"
  have "pm_wf ?s" using assms by (intro pm_wf_pending) simp_all
  with assms show ?thesis
    by (auto simp: HandleWaitForPolicy_def pm_clients_def pm_actives_def same_table_def)
qed

lemma pm_step_spec:
  assumes "pm_wf s" and "pm_ok s cmd"
  shows "\<exists>s' out. pm_step s cmd = Some (s', out) \<and> pm_wf s'
    \<and> answers out = (if asks cmd then [(pcComponent cmd, pcPid cmd)] else [])"
proof (cases "pcCmd cmd")
  case PM_RequestPolicy
  with assms have "registeredComponents s < MAX_CLIENTS" by (simp add: pm_ok_def)
  from request_spec [OF assms(1) this, of cmd] PM_RequestPolicy show ?thesis
    by (auto simp: pm_step_def asks_def)
next
  case PM_WaitForPolicy
  with assms have "pendingComponents s < MAX_CLIENTS" by (simp add: pm_ok_def)
  from HandleWaitForPolicy_spec [OF assms(1) this, of cmd] PM_WaitForPolicy show ?thesis
    by (auto simp: pm_step_def asks_def)
next
  case PM_FreePolicy
  with RemoveComponentFromList_clients [OF assms(1), of "pcComponent cmd" "pcPid cmd" "pcParam1 cmd"] show ?thesis
    by (auto simp: pm_step_def HandleFreePolicy_def asks_def)
next
  case PM_FreeResources
  with assms have "registeredComponents s < MAX_CLIENTS" by (simp add: pm_ok_def)
  from free_resources_spec [OF assms(1) this, of cmd] PM_FreeResources assms(1) show ?thesis
    by (auto simp: pm_step_def asks_def)
qed (use assms in \<open>simp_all add: pm_step_def asks_def\<close>)

interpretation pm_machine: guarded_machine pm_step pm_wf pm_ok
  by unfold_locales (use pm_step_spec in blast)

lemma exec_answers:
  "exec pm_step pm_ok s cs s' outs \<Longrightarrow> pm_wf s \<Longrightarrow>
   answers outs = map (\<lambda>c. (pcComponent c, pcPid c)) (filter asks cs)"
proof (induction rule: exec.induct)
  case (exec_nil s)
  then show ?case by simp
next
  case (exec_cons s c s1 out1 cs s2 out2)
  from pm_step_spec [OF exec_cons.prems exec_cons.hyps(1)] exec_cons show ?case by auto
qed

subsection \<open>Room in the tables over a run\<close>

definition waits :: "pm_command \<Rightarrow> bool" where
  "waits cmd \<longleftrightarrow> pcCmd cmd = PM_WaitForPolicy"

lemma GrantPolicy_pending:
  "GrantPolicy s h i p pid = Some r \<Longrightarrow> pendingComponents (fst r) = pendingComponents s"
  by (auto simp: GrantPolicy_def Let_def bind_eq_Some_conv split: option.splits)

definition outcome_pending :: "pm_state + pm_state \<times> pm_response list \<Rightarrow> nat" where
  "outcome_pending r = (case r of Inl s \<Rightarrow> pendingComponents s | Inr res \<Rightarrow> pendingComponents (fst res))"

lemma request_stages_pending:
  "request_first s cmd = Some r \<Longrightarrow> outcome_pending r = pendingComponents s"
  "request_active s cmd = Some r \<Longrightarrow> outcome_pending r = pendingComponents s"
  "request_coexist s cmd = Some r \<Longrightarrow> outcome_pending r = pendingComponents s"
  "request_preempt s cmd = Some r' \<Longrightarrow> pendingComponents (fst r') = pendingComponents s"
  by (auto simp: request_first_def request_active_def request_coexist_def request_preempt_def
      outcome_pending_def switch_combination_def grant_request_def Let_def
      dest!: GrantPolicy_pending split: option.splits list.splits if_splits Option.bind_splits)

lemma request_pending:
  assumes "HandleRequestPolicy s cmd = Some r"
  shows "pendingComponents (fst r) = pendingComponents s"
proof -
  from assms obtain r1 where r1: "request_first s cmd = Some r1"
    by (auto simp: HandleRequestPolicy_def bind_eq_Some_conv)
  note p1 = request_stages_pending(1) [OF r1]
  show ?thesis
  proof (cases r1)
    case (Inr res)
    with assms r1 p1 show ?thesis by (cases res) (simp add: HandleRequestPolicy_def outcome_pending_def)
  next
    case (Inl s1)
    with assms r1 obtain r2 where r2: "request_active s1 cmd = Some r2"
      by (auto simp: HandleRequestPolicy_def bind_eq_Some_conv)
    note p2 = request_stages_pending(2) [OF r2]
    show ?thesis
    proof (cases r2)
      case (Inr res)
      with assms r1 r2 Inl p1 p2 show ?thesis
        by (cases res) (simp add: HandleRequestPolicy_def outcome_pending_def)
    next
      case (Inl s2)
      with assms r1 r2 \<open>r1 = Inl s1\<close> obtain r3 where r3: "request_coexist s2 cmd = Some r3"
        by (auto simp: HandleRequestPolicy_def bind_eq_Some_conv)
      with assms r1 r2 Inl \<open>r1 = Inl s1\<close> p1 p2 request_stages_pending(3) [OF r3] show ?thesis
        by (auto simp: HandleRequestPolicy_def outcome_pending_def dest: request_stages_pending(4)
            split: sum.splits)
    qed
  qed
qed

lemma remove_pending:
  "RemoveComponentFromList s h pid t = Some s' \<Longrightarrow> pendingComponents s' = pendingComponents s"
  by (auto simp: RemoveComponentFromList_def remove_active_def remove_client_def Let_def bind_eq_Some_conv
      split: option.splits)

lemma free_resources_pending:
  "HandleFreeResources s cmd = Some r \<Longrightarrow> pendingComponents (fst r) = pendingComponents s"
  by (auto simp: HandleFreeResources_def grant_request_def bind_eq_Some_conv
      dest!: GrantPolicy_pending split: option.splits)

lemma pm_step_pending:
  "pm_step s cmd = Some (s', out) \<Longrightarrow> pendingComponents s' = pendingComponents s + (if waits cmd then 1 else 0)"
  by (cases "pcCmd cmd")
    (auto simp: pm_step_def waits_def HandleWaitForPolicy_def HandleFreePolicy_def bind_eq_Some_conv
      dest: request_pending remove_pending free_resources_pending)

lemma registered_clients: "pm_wf s \<Longrightarrow> registeredComponents s = length (pm_clients s)"
  by simp

lemma decided_clients:
  "decided s cmd d s' \<Longrightarrow> length (pm_clients s') \<le> Suc (length (pm_clients s))"
  using with_client_length by (auto simp: decided_def granted_state_def split: decision.splits)

lemma pm_step_registered:
  assumes "pm_wf s" and "pm_ok s cmd" and "pm_step s cmd = Some (s', out)"
  shows "registeredComponents s' \<le> registeredComponents s + (if asks cmd then 1 else 0)"
proof -
  have w: "pm_wf s'" using pm_step_spec [OF assms(1,2)] assms(3) by auto
  have "length (pm_clients s') \<le> length (pm_clients s) + (if asks cmd then 1 else 0)"
  proof (cases "pcCmd cmd")
    case PM_RequestPolicy
    with assms have "registeredComponents s < MAX_CLIENTS" by (simp add: pm_ok_def)
    from request_spec [OF assms(1) this, of cmd] PM_RequestPolicy assms(3) show ?thesis
      by (auto simp: pm_step_def asks_def dest: decided_clients)
  next
    case PM_WaitForPolicy
    with assms have "pendingComponents s < MAX_CLIENTS" by (simp add: pm_ok_def)
    from HandleWaitForPolicy_spec [OF assms(1) this, of cmd] PM_WaitForPolicy assms(3) show ?thesis
      by (auto simp: pm_step_def)
  next
    case PM_FreePolicy
    with RemoveComponentFromList_clients [OF assms(1), of "pcComponent cmd" "pcPid cmd" "pcParam1 cmd"] assms(3)
    show ?thesis by (auto simp: pm_step_def HandleFreePolicy_def length_remove1 simp del: pm_wf_lengths)
  next
    case PM_FreeResources
    with assms have "registeredComponents s < MAX_CLIENTS" by (simp add: pm_ok_def)
    from free_resources_spec [OF assms(1) this, of cmd] PM_FreeResources assms(3) show ?thesis
      by (auto simp: pm_step_def asks_def granted_state_def with_client_def simp del: pm_wf_lengths)
  qed (use assms(3) in \<open>simp_all add: pm_step_def\<close>)
  with registered_clients [OF w] registered_clients [OF assms(1)] show ?thesis by simp
qed

text \<open>The commands that the loop handles: what was read, up to and with the exit command.\<close>

fun until_exit :: "pm_command option list \<Rightarrow> pm_command list" where
  "until_exit [] = []"
| "until_exit (None # cs) = until_exit cs"
| "until_exit (Some cmd # cs) = cmd # (if pcCmd cmd = PM_ExitTI then [] else until_exit cs)"

lemma main_loop_run:
  assumes "pm_wf s" and "registeredComponents s + length (filter asks (until_exit cs)) \<le> MAX_CLIENTS"
    and "pendingComponents s + length (filter waits (until_exit cs)) \<le> MAX_CLIENTS"
  shows "\<exists>s' out. pm_main_loop s cs = Some (s', out) \<and> exec pm_step pm_ok s (until_exit cs) s' out"
  using assms
proof (induction s cs rule: pm_main_loop.induct)
  case (1 s)
  then show ?case by (auto intro: exec.intros)
next
  case (2 s cs)
  then show ?case by simp
next
  case (3 s cmd cs)
  let ?r = "length (filter asks (until_exit cs))" and ?w = "length (filter waits (until_exit cs))"
  have ok: "pm_ok s cmd" using 3(3,4) by (auto simp: pm_ok_def asks_def waits_def split: if_splits)
  from pm_step_spec [OF 3(2) ok] obtain s1 out1 where
    s1: "pm_step s cmd = Some (s1, out1)" "pm_wf s1" by blast
  show ?case
  proof (cases "pcCmd cmd = PM_ExitTI")
    case True
    have "exec pm_step pm_ok s [cmd] s1 (out1 @ [])"
      using ok s1(1) exec_nil by (rule exec_cons)
    with s1 True show ?thesis by simp
  next
    case False
    have r: "registeredComponents s1 + ?r \<le> MAX_CLIENTS"
      using pm_step_registered [OF 3(2) ok s1(1)] 3(3) False by (auto split: if_splits)
    have w: "pendingComponents s1 + ?w \<le> MAX_CLIENTS"
      using pm_step_pending [OF s1(1)] 3(4) False by (auto split: if_splits)
    from 3(1) [of "(s1, out1)"] s1 r w False obtain s2 out2 where
      "pm_main_loop s1 cs = Some (s2, out2)" "exec pm_step pm_ok s1 (until_exit cs) s2 out2" by auto
    with s1 False exec_cons [where step = pm_step and ok = pm_ok, OF ok s1(1)] show ?thesis by auto
  qed
qed

subsection \<open>Coherence of the active combination\<close>

text \<open>
  The table lists types that fit the \<open>OMX_U8\<close> parameter of \<open>GrantPolicy\<close>, and the active
  combination supports every component of the active list.
\<close>

definition pm_coherent :: "pm_state \<Rightarrow> bool" where
  "pm_coherent s \<longleftrightarrow> (\<forall>cb \<in> set (policyCombinationTable s). \<forall>t \<in> set (comb_types cb). unat t < 256)
     \<and> fits s (unat (activePolicyCombination s))"

lemma ucast_u8_small: "unat t < 256 \<Longrightarrow> ucast (ucast (t :: u32) :: u8) = t"
  by (simp add: word_unat_eq_iff unsigned_ucast_eq take_bit_eq_mod unat_mod)

lemma granted_coherent:
  assumes "pm_coherent s" and "granted_state s cmd c s'" and "fits s c"
    and "pcParam1 cmd \<in> set (comb_types (policyCombinationTable s ! c))"
    and "c < length (policyCombinationTable s)"
  shows "pm_coherent s'"
proof -
  have "policyCombinationTable s ! c \<in> set (policyCombinationTable s)"
    using assms(5) by simp
  then have "unat (pcParam1 cmd) < 256" using assms(1,4) by (auto simp: pm_coherent_def)
  then have "ppComponent (granted_entry cmd p) = pcParam1 cmd" for p
    by (simp add: granted_entry_def ucast_u8_small)
  with assms show ?thesis
    by (auto simp: pm_coherent_def granted_state_def same_table_def fits_def split: if_splits)
qed

lemma set_take_le: "m \<le> n \<Longrightarrow> set (take m xs) \<subseteq> set (take n xs)"
  by (rule set_take_subset_set_take)

lemma remove_actives_subset:
  assumes "pm_wf s" and "RemoveComponentFromList s h pid t = Some s'"
  shows "set (pm_actives s') \<subseteq> set (pm_actives s)"
proof -
  let ?n = "registeredComponents s"
  from assms(2) obtain s1 where s1: "remove_active s t = Some s1" "remove_client s1 h pid = Some s'"
    by (auto simp: RemoveComponentFromList_def bind_eq_Some_conv)
  have sc: "scan (is_comp t) (activeComponentList s) ?n = Some (first_index (is_comp t) (pm_actives s))"
    using assms by (simp add: scan_closed pm_actives_def)
  have 1: "set (take ?n (activeComponentList s1)) \<subseteq> set (pm_actives s)" "registeredComponents s1 = ?n"
  proof -
    show "registeredComponents s1 = ?n"
      using s1(1) by (auto simp: remove_active_def Let_def bind_eq_Some_conv split: option.splits)
    show "set (take ?n (activeComponentList s1)) \<subseteq> set (pm_actives s)"
    proof (cases "first_index (is_comp t) (pm_actives s)")
      case None
      with s1(1) sc show ?thesis by (simp add: remove_active_def pm_actives_def)
    next
      case (Some i)
      then have "i < ?n" using assms(1) by (auto dest: first_index_Some)
      with s1(1) sc Some set_take_shift_down [of "activeComponentList s" i "?n - 1 - i" _ ?n] show ?thesis
        by (auto simp: remove_active_def Let_def bind_eq_Some_conv pm_actives_def)
    qed
  qed
  have "registeredComponents s' \<le> ?n" "activeComponentList s' = activeComponentList s1"
    using s1(2) 1(2) by (auto simp: remove_client_def Let_def bind_eq_Some_conv split: option.splits)
  with 1(1) set_take_le [of "registeredComponents s'" ?n "activeComponentList s1"] show ?thesis
    by (simp add: pm_actives_def)
qed

lemma fits_idle: "pm_actives s = [] \<Longrightarrow> fits s c"
  by (simp add: fits_def)

lemma request_coherent:
  assumes "pm_wf s" and "pm_coherent s" and "decided s cmd (pm_decide s (pcParam1 cmd)) s'"
    and "\<forall>r \<in> set (decision_output s cmd). is_answer r"
  shows "pm_coherent s'"
proof (cases "pm_decide s (pcParam1 cmd)")
  case Refuse
  with assms show ?thesis by (simp add: decided_def)
next
  case (Preempt_for c)
  then have "pm_clients s \<noteq> []"
    by (auto simp: pm_decide_def Let_def split: list.splits)
  then have "\<exists>r \<in> set (decision_output s cmd). \<not> is_answer r"
    using Preempt_for by (cases "pm_clients s") (auto simp: decision_output_def preempt_all_def split: prod.splits)
  with assms(4) show ?thesis by blast
next
  case (Use c)
  then have g: "granted_state s cmd c s'" using assms(3) by (simp add: decided_def)
  have e: "pm_clients s = [] \<longleftrightarrow> pm_actives s = []"
    using pm_wf_lengths(6,7) [OF assms(1)] by (metis length_0_conv)
  have a: "unat (activePolicyCombination s) < OMX_POLICY_MAX_COMBINATIONS"
    using assms(1) by (simp add: pm_wf_def del: pm_wf_lengths)
  have m: "c' \<in> set (supporting s (pcParam1 cmd)) \<Longrightarrow> c' < OMX_POLICY_MAX_COMBINATIONS
      \<and> pcParam1 cmd \<in> set (comb_types (policyCombinationTable s ! c'))" for c'
    using supporting_bound [OF assms(1), of "pcParam1 cmd"] by (simp add: supporting_member)
  from Use have "fits s c \<and> c < OMX_POLICY_MAX_COMBINATIONS
      \<and> pcParam1 cmd \<in> set (comb_types (policyCombinationTable s ! c))"
    using assms(2) e a m
    by (auto simp: pm_decide_def Let_def pm_coherent_def fits_idle dest!: find_SomeD
        split: if_splits list.splits option.splits)
  with granted_coherent [OF assms(2) g] assms(1) show ?thesis
    by (simp add: pm_wf_def del: pm_wf_lengths)
qed

lemma free_resources_coherent:
  assumes "pm_wf s" and "registeredComponents s < MAX_CLIENTS" and "pm_coherent s"
    and "HandleFreeResources s cmd = Some (s', out)"
  shows "pm_coherent s'"
  using free_resources_spec [OF assms(1,2), of cmd]
proof (elim disjE exE conjE)
  fix j s1 assume v: "victim_ok s (pcComponent cmd) (active_prio s (pcParam1 cmd)) j"
    and h: "HandleFreeResources s cmd = Some (s1,
      [PreemptComponent (fst (pm_clients s ! j)) (snd (pm_clients s ! j)), grant_msg (pcComponent cmd) (pcPid cmd)])"
    and g: "granted_state s cmd (unat (activePolicyCombination s)) s1"
  have "0 \<le> client_prio s j" by (simp add: client_prio_def)
  with v have "active_prio s (pcParam1 cmd) \<noteq> - 1" by (auto simp: victim_ok_def)
  then have "pcParam1 cmd \<in> set (comb_types (policyCombinationTable s ! unat (activePolicyCombination s)))"
    by (simp add: active_prio_def comb_priority_absent)
  moreover have "fits s (unat (activePolicyCombination s))" using assms(3) by (simp add: pm_coherent_def)
  moreover have "unat (activePolicyCombination s) < length (policyCombinationTable s)"
    using assms(1) by (simp add: pm_wf_def del: pm_wf_lengths)
  ultimately show ?thesis using granted_coherent [OF assms(3) g] h assms(4) by simp
next
  assume "HandleFreeResources s cmd = Some (s, [DenyPolicy (pcComponent cmd) (pcPid cmd)])"
  with assms(3,4) show ?thesis by simp
qed

lemma pm_step_coherent:
  assumes "pm_wf s" and "pm_ok s cmd" and "pm_coherent s" and "pm_step s cmd = Some (s', out)"
    and "pcCmd cmd = PM_RequestPolicy \<longrightarrow> (\<forall>r \<in> set out. is_answer r)"
  shows "pm_coherent s'"
proof (cases "pcCmd cmd")
  case PM_RequestPolicy
  with assms have "registeredComponents s < MAX_CLIENTS" by (simp add: pm_ok_def)
  from request_spec [OF assms(1) this, of cmd] PM_RequestPolicy assms show ?thesis
    by (auto simp: pm_step_def intro: request_coherent)
next
  case PM_WaitForPolicy
  with assms have "pendingComponents s < MAX_CLIENTS" by (simp add: pm_ok_def)
  from HandleWaitForPolicy_spec [OF assms(1) this, of cmd] PM_WaitForPolicy assms(3,4) show ?thesis
    by (auto simp: pm_step_def pm_coherent_def fits_def same_table_def)
next
  case PM_FreePolicy
  with assms(4) have r: "RemoveComponentFromList s (pcComponent cmd) (pcPid cmd) (pcParam1 cmd) = Some s'"
    by (auto simp: pm_step_def HandleFreePolicy_def)
  have "policyCombinationTable s' = policyCombinationTable s \<and> activePolicyCombination s' = activePolicyCombination s"
    using RemoveComponentFromList_clients [OF assms(1), of "pcComponent cmd" "pcPid cmd" "pcParam1 cmd"] r by auto
  with remove_actives_subset [OF assms(1) r] assms(3) show ?thesis
    by (fastforce simp: pm_coherent_def fits_def)
next
  case PM_FreeResources
  with assms have "registeredComponents s < MAX_CLIENTS" by (simp add: pm_ok_def)
  with PM_FreeResources assms show ?thesis
    by (auto simp: pm_step_def intro: free_resources_coherent)
qed (use assms in \<open>simp_all add: pm_step_def\<close>)

text \<open>
  A policy state from rows of (type, priority) pairs: what the table parser builds, with no
  client registered.
\<close>

definition comb_of_row :: "(u32 \<times> u8) list \<Rightarrow> pm_comb" where
  "comb_of_row ps = \<lparr>numComponentsInCombination = of_nat (length ps), bCombinationIsActive = False,
     combComponents = map (\<lambda>(t, p). \<lparr>ppComponent = t, ppPriority = p\<rparr>) ps
       @ replicate (OMX_POLICY_MAX_COMBINATION_LENGTH - length ps) pm_prio0\<rparr>"

definition policy_state :: "(u32 \<times> u8) list list \<Rightarrow> pm_state" where
  "policy_state rows = pm_init\<lparr>policyCombinationTable := map comb_of_row rows
       @ replicate (OMX_POLICY_MAX_COMBINATIONS - length rows) pm_comb0,
     numCombinations := of_nat (length rows)\<rparr>"

definition rows_ok :: "(u32 \<times> u8) list list \<Rightarrow> bool" where
  "rows_ok rows \<longleftrightarrow> length rows \<le> OMX_POLICY_MAX_COMBINATIONS
     \<and> (\<forall>ps \<in> set rows. length ps \<le> OMX_POLICY_MAX_COMBINATION_LENGTH \<and> distinct (map fst ps))"

lemma comb_of_row_types:
  "length ps \<le> OMX_POLICY_MAX_COMBINATION_LENGTH \<Longrightarrow>
   comb_wf (comb_of_row ps) \<and> comb_types (comb_of_row ps) = map fst ps"
  by (simp add: comb_wf_def comb_types_def comb_used_def comb_of_row_def unat_of_nat case_prod_beta)

lemma count_list_distinct: "distinct xs \<Longrightarrow> count_list xs x \<le> Suc 0"
  by (induction xs) (auto simp: count_list_0_iff)

lemma length_concat_le: "(\<forall>xs \<in> set xss. length xs \<le> 1) \<Longrightarrow> length (concat xss) \<le> length xss"
  by (induction xss) auto

lemma policy_state_wf:
  assumes "rows_ok rows"
  shows "pm_wf (policy_state rows)"
proof -
  have n: "length rows \<le> OMX_POLICY_MAX_COMBINATIONS" using assms by (simp add: rows_ok_def)
  then have u: "unat (of_nat (length rows) :: u8) = length rows" by (simp add: unat_of_nat)
  have num: "unat (numCombinations (policy_state rows)) = length rows" by (simp add: policy_state_def u)
  have c0: "comb_wf pm_comb0" by (simp add: comb_wf_def pm_comb0_def)
  have "length (supporting (policy_state rows) t) \<le> OMX_POLICY_MAX_COMBINATIONS" for t
  proof -
    have "count_list (comb_types (policyCombinationTable (policy_state rows) ! i)) t \<le> 1"
      if "i < length rows" for i
    proof -
      have "rows ! i \<in> set rows" using that by simp
      then have "length (rows ! i) \<le> OMX_POLICY_MAX_COMBINATION_LENGTH" "distinct (map fst (rows ! i))"
        using assms by (auto simp: rows_ok_def)
      with that comb_of_row_types [of "rows ! i"] show ?thesis
        by (simp add: policy_state_def nth_append count_list_distinct)
    qed
    then have "length (supporting (policy_state rows) t)
        \<le> length (map (\<lambda>i. replicate (count_list (comb_types (policyCombinationTable (policy_state rows) ! i)) t) i)
            [0..<length rows])"
      unfolding supporting_def num by (intro length_concat_le) auto
    with n show ?thesis by simp
  qed
  with n u c0 assms show ?thesis
    by (auto simp: pm_wf_def policy_state_def pm_init_def rows_ok_def comb_of_row_types simp del: pm_wf_lengths)
qed

lemma policy_state_idle: "pm_clients (policy_state rows) = []" "pm_actives (policy_state rows) = []"
  by (simp_all add: pm_clients_def pm_actives_def policy_state_def pm_init_def)

subsection \<open>Properties\<close>

text \<open>
  A table for the examples: the first row for a type 7 alone, the second for types 1 and 2
  together, the third for types 3 and 7.
\<close>

definition demo_rows :: "(u32 \<times> u8) list list" where
  "demo_rows = [[(7, 4)], [(1, 3), (2, 5)], [(3, 1), (7, 1)]]"

abbreviation "demo \<equiv> policy_state demo_rows"

definition mk_cmd :: "PM_COMMANDTYPE \<Rightarrow> handle \<Rightarrow> u32 \<Rightarrow> u32 \<Rightarrow> pm_command" where
  "mk_cmd c h pid t = \<lparr>pcComponent = h, pcPid = pid, pcCmd = c, pcParam1 = t\<rparr>"

lemma demo_wf: "pm_wf demo" "registeredComponents demo = 0" "pendingComponents demo = 0"
  by (rule policy_state_wf, simp add: demo_rows_def rows_ok_def)
    (simp_all add: policy_state_def pm_init_def)

text \<open>The example with a type 1 and a type 2 component running.\<close>

definition demo_running :: pm_state where
  "demo_running =
     (case pm_main_loop demo [Some (mk_cmd PM_RequestPolicy 16 1 1), Some (mk_cmd PM_RequestPolicy 32 1 2)]
      of Some (s, _) \<Rightarrow> s | None \<Rightarrow> demo)"

lemma demo_running_wf: "pm_wf demo_running" "registeredComponents demo_running = 2"
proof -
  let ?cs = "[Some (mk_cmd PM_RequestPolicy 16 1 1), Some (mk_cmd PM_RequestPolicy 32 1 2)]"
  from main_loop_run [of demo ?cs] obtain s' out where
    "pm_main_loop demo ?cs = Some (s', out)" "exec pm_step pm_ok demo (until_exit ?cs) s' out"
    using demo_wf by (auto simp: mk_cmd_def asks_def waits_def)
  with pm_machine.exec_inv demo_wf(1) show "pm_wf demo_running" by (auto simp: demo_running_def)
  show "registeredComponents demo_running = 2" by code_simp
qed

text \<open>
  C1: a policy request is memory safe, changes the state as \<open>pm_decide\<close> says and answers with
  its decision: the type is granted in the active combination if that supports it, else in
  the first combination of the table that supports it together with every active component,
  else after preempting every registered component if the last supporting combination of the
  table ranks above the active one, else it is denied; with no client registered the first
  supporting combination is used.
\<close>

theorem HandleRequestPolicy_decides:
  assumes "pm_wf s" and "registeredComponents s < MAX_CLIENTS"
  shows "\<exists>s'. HandleRequestPolicy s cmd = Some (s', decision_output s cmd) \<and> pm_wf s'
    \<and> decided s cmd (pm_decide s (pcParam1 cmd)) s'"
  by (rule request_spec [OF assms])

theorem HandleRequestPolicy_decides_witness:
  "\<exists>s'. HandleRequestPolicy demo (mk_cmd PM_RequestPolicy 16 1 2)
      = Some (s', decision_output demo (mk_cmd PM_RequestPolicy 16 1 2)) \<and> pm_wf s'
    \<and> decided demo (mk_cmd PM_RequestPolicy 16 1 2) (pm_decide demo (pcParam1 (mk_cmd PM_RequestPolicy 16 1 2))) s'"
  by (rule HandleRequestPolicy_decides) (simp_all add: demo_wf)

text \<open>
  from any well-formed state with room for the requests and waits that are read, the
  command loop runs without a fault until the exit command, keeps the state well-formed, and
  answers every request and every resource release with exactly one grant or denial,
  addressed to the requester, in the order of the requests.
\<close>

theorem pm_main_loop_answers:
  assumes "pm_wf s" and "registeredComponents s + length (filter asks (until_exit cs)) \<le> MAX_CLIENTS"
    and "pendingComponents s + length (filter waits (until_exit cs)) \<le> MAX_CLIENTS"
  shows "\<exists>s' out. pm_main_loop s cs = Some (s', out) \<and> pm_wf s'
    \<and> answers out = map (\<lambda>c. (pcComponent c, pcPid c)) (filter asks (until_exit cs))"
proof -
  from main_loop_run [OF assms] obtain s' out where
    r: "pm_main_loop s cs = Some (s', out)" "exec pm_step pm_ok s (until_exit cs) s' out" by blast
  from r pm_machine.exec_inv [OF r(2) assms(1)] exec_answers [OF r(2) assms(1)] show ?thesis by blast
qed

theorem pm_main_loop_answers_witness:
  "\<exists>s' out. pm_main_loop demo [Some (mk_cmd PM_RequestPolicy 16 1 2), None, Some (mk_cmd PM_FreeResources 16 1 2)]
      = Some (s', out) \<and> pm_wf s' \<and> answers out = [(16, 1), (16, 1)]"
  using pm_main_loop_answers [of demo "[Some (mk_cmd PM_RequestPolicy 16 1 2), None, Some (mk_cmd PM_FreeResources 16 1 2)]"]
  by (simp add: demo_wf mk_cmd_def asks_def waits_def)

text \<open>
  C2: as long as no request preempts, every command keeps the active combination coherent:
  it supports every component of the active list.
\<close>

theorem pm_coherent_preserved:
  assumes "pm_wf s" and "pm_ok s cmd" and "pm_coherent s" and "pm_step s cmd = Some (s', out)"
    and "pcCmd cmd = PM_RequestPolicy \<longrightarrow> (\<forall>r \<in> set out. is_answer r)"
  shows "pm_coherent s' \<and> pm_wf s'"
  using pm_step_coherent [OF assms] pm_machine.step_inv [OF assms(1,2)] assms(4) by auto

theorem pm_coherent_preserved_witness:
  "\<exists>s' out. pm_step demo_running (mk_cmd PM_RequestPolicy 48 1 1) = Some (s', out) \<and> pm_coherent s' \<and> pm_wf s'"
proof -
  let ?c = "mk_cmd PM_RequestPolicy 48 1 1"
  have ok: "pm_ok demo_running ?c"
    using demo_running_wf(2) by (simp add: pm_ok_def mk_cmd_def)
  from pm_step_spec [OF demo_running_wf(1) ok] obtain s' out where
    st: "pm_step demo_running ?c = Some (s', out)" by blast
  have "map_option snd (pm_step demo_running ?c) = Some [grant_msg 48 1]" by code_simp
  with st have "\<forall>r \<in> set out. is_answer r" by simp
  moreover have "pm_coherent demo_running" by code_simp
  ultimately show ?thesis
    using pm_coherent_preserved [OF demo_running_wf(1) ok _ st] st by blast
qed

text \<open>
  C3: \<open>HandleFreeResources\<close> preempts a registered component with another handle whose priority
  is at most the requester's priority in the active combination and minimal among the other
  components, and grants the requester again; it denies, and changes nothing, exactly when
  every other component has a higher priority.
\<close>

theorem HandleFreeResources_victim:
  assumes "pm_wf s" and "registeredComponents s < MAX_CLIENTS"
  shows "(\<exists>j s'. victim_ok s (pcComponent cmd) (active_prio s (pcParam1 cmd)) j
        \<and> HandleFreeResources s cmd = Some (s',
            [PreemptComponent (fst (pm_clients s ! j)) (snd (pm_clients s ! j)), grant_msg (pcComponent cmd) (pcPid cmd)])
        \<and> pm_wf s' \<and> granted_state s cmd (unat (activePolicyCombination s)) s')
    \<or> (\<forall>j < registeredComponents s. other_client s (pcComponent cmd) j \<longrightarrow>
          active_prio s (pcParam1 cmd) < client_prio s j)
      \<and> HandleFreeResources s cmd = Some (s, [DenyPolicy (pcComponent cmd) (pcPid cmd)])"
  by (rule free_resources_spec [OF assms])

theorem HandleFreeResources_victim_witness:
  "\<exists>j s'. victim_ok demo_running 32 (active_prio demo_running 2) j \<and> pm_wf s'
     \<and> HandleFreeResources demo_running (mk_cmd PM_FreeResources 32 1 2)
       = Some (s', [PreemptComponent (fst (pm_clients demo_running ! j)) (snd (pm_clients demo_running ! j)), grant_msg 32 1])"
proof -
  have "other_client demo_running 32 0 \<and> client_prio demo_running 0 \<le> active_prio demo_running 2" by code_simp
  with HandleFreeResources_victim [of demo_running "mk_cmd PM_FreeResources 32 1 2"] demo_running_wf show ?thesis
    by (force simp: mk_cmd_def)
qed

text \<open>
  C4: a new client that is granted and then freed leaves the client list as it was, and the
  list has no duplicates if it had none.
\<close>

theorem GrantPolicy_then_RemoveComponentFromList:
  assumes "pm_wf s" and "(h, pid) \<notin> set (pm_clients s)" and "registeredComponents s < MAX_CLIENTS"
  shows "\<exists>s1 s2. GrantPolicy s h idx prio pid = Some (s1, [grant_msg h pid])
    \<and> pm_clients s1 = pm_clients s @ [(h, pid)]
    \<and> RemoveComponentFromList s1 h pid t = Some s2 \<and> pm_wf s2 \<and> pm_clients s2 = pm_clients s"
proof -
  from GrantPolicy_new [OF assms, of idx prio] obtain s1 where
    s1: "GrantPolicy s h idx prio pid = Some (s1, [grant_msg h pid])" "pm_clients s1 = pm_clients s @ [(h, pid)]"
    by blast
  from pm_reg.add_del [of s "(h, pid)" idx prio t] assms s1 show ?thesis by auto
qed

theorem GrantPolicy_then_RemoveComponentFromList_witness:
  "\<exists>s1 s2. GrantPolicy demo_running 48 1 3 1 = Some (s1, [grant_msg 48 1])
    \<and> pm_clients s1 = pm_clients demo_running @ [(48, 1)]
    \<and> RemoveComponentFromList s1 48 1 1 = Some s2 \<and> pm_wf s2 \<and> pm_clients s2 = pm_clients demo_running"
proof -
  have "(48, 1) \<notin> set (pm_clients demo_running)" by code_simp
  then show ?thesis
    using GrantPolicy_then_RemoveComponentFromList [of demo_running 48 1 1 3 1] demo_running_wf by simp
qed

text \<open>
  The pending list with its two handlers is a table registry too. \<open>HandleCancelWaitForPolicy\<close>
  is the correct inverse of \<open>HandleWaitForPolicy\<close>, but the command loop never calls it.
\<close>

definition pm_waiting :: "pm_state \<Rightarrow> (handle \<times> u32) list" where
  "pm_waiting s = map (\<lambda>c. (pmHandle c, pmPid c)) (take (pendingComponents s) (pPendingComponentList s))"

definition pm_waiting_info :: "pm_state \<Rightarrow> handle \<times> u32 \<Rightarrow> unit option" where
  "pm_waiting_info s k = (if k \<in> set (pm_waiting s) then Some () else None)"

lemma first_index_waiting:
  "pm_wf s \<Longrightarrow> scan (is_client h pid) (pPendingComponentList s) (pendingComponents s)
     = Some (first_index (\<lambda>x. x = (h, pid)) (pm_waiting s))"
  unfolding pm_waiting_def first_index_map
  by (subst scan_closed, simp) (auto intro: first_index_cong simp: is_client_def)

lemma wait_adds:
  assumes "pm_wf s" and "pendingComponents s < MAX_CLIENTS"
  shows "\<exists>s'. HandleWaitForPolicy s cmd = Some s' \<and> pm_wf s'
    \<and> pm_waiting s' = pm_waiting s @ [(pcComponent cmd, pcPid cmd)]"
proof -
  let ?s = "s\<lparr>pPendingComponentList := (pPendingComponentList s)[pendingComponents s :=
      \<lparr>pmHandle = pcComponent cmd, pmPid = pcPid cmd\<rparr>], pendingComponents := Suc (pendingComponents s)\<rparr>"
  have "pm_wf ?s" using assms by (intro pm_wf_pending) simp_all
  with assms show ?thesis
    by (auto simp: HandleWaitForPolicy_def pm_waiting_def take_Suc_conv_app_nth)
qed

lemma cancel_removes:
  assumes "pm_wf s"
  shows "\<exists>s'. HandleCancelWaitForPolicy s cmd = Some s' \<and> pm_wf s'
    \<and> pm_waiting s' = remove1 (pcComponent cmd, pcPid cmd) (pm_waiting s)"
proof (cases "first_index (\<lambda>x. x = (pcComponent cmd, pcPid cmd)) (pm_waiting s)")
  case None
  then have "(pcComponent cmd, pcPid cmd) \<notin> set (pm_waiting s)" by (simp add: first_absent)
  with None assms show ?thesis
    by (simp add: HandleCancelWaitForPolicy_def first_index_waiting remove1_idem)
next
  case (Some i)
  let ?n = "pendingComponents s"
  from Some have "i < ?n" using assms by (auto dest!: first_index_Some simp: pm_waiting_def)
  with shift_down_prefix [of i ?n "pPendingComponentList s"] assms obtain b where
    b: "shift_down (pPendingComponentList s) i (?n - 1 - i) = Some b" "length b = MAX_CLIENTS"
      "take (?n - 1) b = remove_at i (take ?n (pPendingComponentList s))" by auto
  let ?s = "s\<lparr>pPendingComponentList := b, pendingComponents := ?n - 1\<rparr>"
  have "pm_wf ?s"
    using assms b by (intro pm_wf_pending) (simp_all add: diff_le_self [THEN le_trans])
  moreover have "pm_waiting ?s = remove1 (pcComponent cmd, pcPid cmd) (pm_waiting s)"
    using b(3) remove_at_first [OF Some] by (simp add: pm_waiting_def map_remove_at)
  ultimately show ?thesis
    using Some b assms by (simp add: HandleCancelWaitForPolicy_def first_index_waiting Let_def)
qed

lemma length_waiting: "pm_wf s \<Longrightarrow> length (pm_waiting s) = pendingComponents s"
  by (simp add: pm_waiting_def)

interpretation pm_pend: table_registry pm_waiting pm_waiting_info pm_wf
    "\<lambda>s k. HandleWaitForPolicy s (mk_cmd PM_WaitForPolicy (fst k) (snd k) t)"
    "\<lambda>s k. HandleCancelWaitForPolicy s (mk_cmd PM_CancelWaitForPolicy (fst k) (snd k) t)" MAX_CLIENTS
  for t
proof unfold_locales
  fix s k assume "pm_wf s" "k \<notin> set (pm_waiting s)" "length (pm_waiting s) < MAX_CLIENTS"
  then show "\<exists>s'. HandleWaitForPolicy s (mk_cmd PM_WaitForPolicy (fst k) (snd k) t) = Some s' \<and> pm_wf s' \<and>
      pm_waiting s' = pm_waiting s @ [k] \<and> (\<forall>k'. k' \<noteq> k \<longrightarrow> pm_waiting_info s' k' = pm_waiting_info s k')"
    using wait_adds [of s "mk_cmd PM_WaitForPolicy (fst k) (snd k) t"]
      pm_wf_lengths(3,5) [of s]
    by (auto simp: pm_waiting_info_def length_waiting mk_cmd_def)
next
  fix s k assume "pm_wf s"
  then show "\<exists>s'. HandleCancelWaitForPolicy s (mk_cmd PM_CancelWaitForPolicy (fst k) (snd k) t) = Some s' \<and> pm_wf s' \<and>
      pm_waiting s' = remove1 k (pm_waiting s) \<and> (\<forall>k'. k' \<noteq> k \<longrightarrow> pm_waiting_info s' k' = pm_waiting_info s k')"
    using cancel_removes [of s "mk_cmd PM_CancelWaitForPolicy (fst k) (snd k) t"]
    by (fastforce simp: pm_waiting_info_def mk_cmd_def simp del: split_paired_All)
next
  fix s assume "pm_wf s"
  then show "length (pm_waiting s) \<le> MAX_CLIENTS" by (simp add: pm_waiting_def)
qed

subsection \<open>Where the code falls short of its intent\<close>

text \<open>
  a client that waits and cancels leaves its entry in the pending list, because the loop
  ignores \<open>PM_CancelWaitForPolicy\<close>: after enough wait/cancel pairs the next wait writes past
  the end of \<open>pPendingComponentList\<close>.
\<close>

theorem wait_cancel_overflows:
  assumes "pm_wf s" and "MAX_CLIENTS < pendingComponents s + n"
  shows "pm_main_loop s (concat (replicate n
     [Some (mk_cmd PM_WaitForPolicy h pid t), Some (mk_cmd PM_CancelWaitForPolicy h pid t)])) = None"
  using assms
proof (induction n arbitrary: s)
  case 0
  then show ?case using pm_wf_lengths(5) [OF 0(1)] by linarith
next
  case (Suc n)
  let ?w = "mk_cmd PM_WaitForPolicy h pid t"
  show ?case
  proof (cases "pendingComponents s < MAX_CLIENTS")
    case False
    then have "HandleWaitForPolicy s ?w = None"
      using Suc.prems by (simp add: HandleWaitForPolicy_def wr_def)
    then show ?thesis by (simp add: pm_step_def mk_cmd_def)
  next
    case True
    from wait_adds [OF Suc.prems(1) True, of ?w] obtain s' where
      s': "HandleWaitForPolicy s ?w = Some s'" "pm_wf s'" by blast
    then have st: "pm_step s ?w = Some (s', [])" by (simp add: pm_step_def mk_cmd_def)
    have "pendingComponents s' = Suc (pendingComponents s)"
      using pm_step_pending [OF st] by (simp add: waits_def mk_cmd_def)
    with Suc.IH [OF s'(2)] Suc.prems(2) st show ?thesis
      by (simp add: pm_step_def mk_cmd_def)
  qed
qed

theorem wait_cancel_overflows_witness:
  "pm_main_loop demo (concat (replicate 101
     [Some (mk_cmd PM_WaitForPolicy 16 1 2), Some (mk_cmd PM_CancelWaitForPolicy 16 1 2)])) = None"
  by (rule wait_cancel_overflows) (simp_all add: demo_wf)

text \<open>
  freeing a component removes the first active entry of its type, not its own: after
  clients of types 1, 2 and 1 the release of the third leaves the clients 16 and 32 (of types 1
  and 2) with the active entries 2 and 1, so that each is recorded under the other's type and
  priority.
\<close>

theorem RemoveComponentFromList_misaligns:
  "map_option (\<lambda>(s, out). (pm_clients s, map ppComponent (pm_actives s)))
     (pm_main_loop demo [Some (mk_cmd PM_RequestPolicy 16 1 1), Some (mk_cmd PM_RequestPolicy 32 1 2),
        Some (mk_cmd PM_RequestPolicy 48 1 1), Some (mk_cmd PM_FreePolicy 48 1 1)])
   = Some ([(16, 1), (32, 1)], [2, 1])"
  by code_simp

text \<open>
  \<open>CheckAllCombinations\<close> reports the last combination that supports a type, so a request is
  denied although a combination ranked above the active one supports it: with types 1 and 2
  running in the second row a type 7 is refused with the third row in the table, and granted
  by preemption without it.
\<close>

theorem CheckAllCombinations_hides_higher_ranked:
  "map_option snd (pm_step demo_running (mk_cmd PM_RequestPolicy 48 1 7)) = Some [DenyPolicy 48 1]
   \<and> map_option snd (pm_step (demo_running\<lparr>numCombinations := 2\<rparr>) (mk_cmd PM_RequestPolicy 48 1 7))
     = Some [PreemptComponent 16 1, PreemptComponent 32 1, grant_msg 48 1]"
  by code_simp

end
