(* ===== verification/Policy_Table.thy ===== *)
theory Policy_Table
  imports Policy_Manager
begin

section \<open>The policy table file\<close>

text \<open>
  Model of \<open>PopulatePolicyTable\<close> and \<open>PolicyStringToIndex\<close> in \<open>PolicyManager.c\<close> and of the
  start of \<open>main\<close>: the table file is read line by line with \<open>fgets\<close>, split with \<open>strtok\<close> and
  stored in \<open>policyCombinationTable\<close>. The file is its contents as a string, or
  \<^const>\<open>None\<close> when the environment variable is not set or the file cannot be opened.
  The theorems show that a printed table is read back exactly, that whatever file is read the
  table stays within its bounds, and which files stop the policy manager.
\<close>

subsection \<open>Component names\<close>

text \<open>
  \<open>PM_ComponentTable\<close> is declared with \<open>PM_NUM_COMPONENTS = 47\<close> entries and initialised with 46
  names, so its last entry is a null pointer.
\<close>

definition PM_ComponentNames :: "string list" where
  "PM_ComponentNames =
    [''OMX_MP3_Decoder_COMPONENT'',
     ''OMX_AAC_Decoder_COMPONENT'',
     ''OMX_AAC_Encoder_COMPONENT'',
     ''OMX_ARMAAC_Encoder_COMPONENT'',
     ''OMX_ARMAAC_Decoder_COMPONENT'',
     ''OMX_PCM_Decoder_COMPONENT'',
     ''OMX_PCM_Encoder_COMPONENT'',
     ''OMX_NBAMR_Decoder_COMPONENT'',
     ''OMX_NBAMR_Encoder_COMPONENT'',
     ''OMX_WBAMR_Decoder_COMPONENT'',
     ''OMX_WBAMR_Encoder_COMPONENT'',
     ''OMX_WMA_Decoder_COMPONENT'',
     ''OMX_G711_Decoder_COMPONENT'',
     ''OMX_G711_Encoder_COMPONENT'',
     ''OMX_G722_Decoder_COMPONENT'',
     ''OMX_G722_Encoder_COMPONENT'',
     ''OMX_G723_Decoder_COMPONENT'',
     ''OMX_G723_Encoder_COMPONENT'',
     ''OMX_G726_Decoder_COMPONENT'',
     ''OMX_G726_Encoder_COMPONENT'',
     ''OMX_G729_Decoder_COMPONENT'',
     ''OMX_G729_Encoder_COMPONENT'',
     ''OMX_GSMFR_Decoder_COMPONENT'',
     ''OMX_GSMHR_Decoder_COMPONENT'',
     ''OMX_GSMFR_Encoder_COMPONENT'',
     ''OMX_GSMHR_Encoder_COMPONENT'',
     ''OMX_ILBC_Decoder_COMPONENT'',
     ''OMX_ILBC_Encoder_COMPONENT'',
     ''OMX_IMAADPCM_Decoder_COMPONENT'',
     ''OMX_IMAADPCM_Encoder_COMPONENT'',
     ''OMX_RAGECKO_Decoder_COMPONENT'',
     ''OMX_MPEG4_Decode_COMPONENT'',
     ''OMX_MPEG4_Encode_COMPONENT'',
     ''OMX_H263_Decode_COMPONENT'',
     ''OMX_H263_Encode_COMPONENT'',
     ''OMX_H264_Decode_COMPONENT'',
     ''OMX_H264_Encode_COMPONENT'',
     ''OMX_WMV_Decode_COMPONENT'',
     ''OMX_MPEG2_Decode_COMPONENT'',
     ''OMX_720P_Decode_COMPONENT'',
     ''OMX_720P_Encode_COMPONENT'',
     ''OMX_JPEG_Decoder_COMPONENT'',
     ''OMX_JPEG_Encoder_COMPONENT'',
     ''OMX_VPP_COMPONENT'',
     ''OMX_CAMERA_COMPONENT'',
     ''OMX_DISPLAY_COMPONENT'']"

definition PM_ComponentTable :: "string option list" where
  "PM_ComponentTable = map Some PM_ComponentNames @ [None]"

abbreviation "PM_NUM_COMPONENTS \<equiv> (47 :: nat)"

text \<open>\<open>strcmp\<close> with the null entry is undefined; the final \<open>return -1\<close> is behind it.\<close>

primrec name_index_from :: "string \<Rightarrow> nat \<Rightarrow> nat \<Rightarrow> u32 option" where
  "name_index_from s i 0 = Some (- 1)"
| "name_index_from s i (Suc k) =
     do { e \<leftarrow> rd PM_ComponentTable i;
          name \<leftarrow> e;
          if s = name then Some (of_nat i) else name_index_from s (Suc i) k }"

definition PolicyStringToIndex :: "string \<Rightarrow> u32 option" where
  "PolicyStringToIndex aString = name_index_from aString 0 PM_NUM_COMPONENTS"

subsection \<open>The parser\<close>

definition set_component :: "nat \<Rightarrow> u32 \<Rightarrow> pm_comb \<Rightarrow> pm_comb option" where
  "set_component j t cb =
     do { p \<leftarrow> rd (combComponents cb) j;
          ps \<leftarrow> wr (combComponents cb) j (p\<lparr>ppComponent := t\<rparr>);
          Some (cb\<lparr>combComponents := ps\<rparr>) }"

definition set_priority :: "nat \<Rightarrow> u8 \<Rightarrow> pm_comb \<Rightarrow> pm_comb option" where
  "set_priority j v cb =
     do { p \<leftarrow> rd (combComponents cb) j;
          ps \<leftarrow> wr (combComponents cb) j (p\<lparr>ppPriority := v\<rparr>);
          Some (cb\<lparr>combComponents := ps\<rparr>) }"

text \<open>
  What a line comes to: it is stored, with the new \<open>policyIndex\<close> and \<open>index\<close>; it has more
  records than fit (\<open>ret = -1\<close>); or a token is missing, and the function leaves with
  \<open>ret\<close> still 0.
\<close>

datatype row_result = Row_done nat nat pm_comb | Row_wide pm_comb | Row_stop pm_comb

abbreviation "seps \<equiv> [CHR '' '', CHR '','', newline]"

function row_rest :: "string \<Rightarrow> nat \<Rightarrow> nat \<Rightarrow> pm_comb \<Rightarrow> row_result option" where
  "row_rest line policyIndex index cb =
     (if OMX_POLICY_MAX_COMBINATION_LENGTH \<le> policyIndex then Some (Row_wide cb)
      else case strtok seps line of
        None \<Rightarrow> Some (Row_done policyIndex index cb)
      | Some (tok, rest) \<Rightarrow>
          if index mod 2 = 0 then
            do { t \<leftarrow> PolicyStringToIndex tok;
                 cb' \<leftarrow> set_component policyIndex t cb;
                 row_rest rest policyIndex (Suc index) cb' }
          else
            do { cb' \<leftarrow> set_priority policyIndex (word_of_int (atoi tok)) cb;
                 row_rest rest (Suc policyIndex) (Suc index) cb' })"
  by pat_completeness auto
termination
  by (relation "measure (\<lambda>(line, _). length line)") (auto dest: strtok_consumes)

declare row_rest.simps [simp del]

definition populate_line :: "string \<Rightarrow> nat \<Rightarrow> pm_comb \<Rightarrow> row_result option" where
  "populate_line line index cb =
     (case strtok '','' line of
        None \<Rightarrow> Some (Row_stop cb)
      | Some (tok, rest) \<Rightarrow>
          do { t \<leftarrow> PolicyStringToIndex tok;
               cb1 \<leftarrow> set_component 0 t cb;
               case strtok seps rest of
                 None \<Rightarrow> Some (Row_stop cb1)
               | Some (tok, rest) \<Rightarrow>
                   do { cb2 \<leftarrow> set_priority 0 (word_of_int (atoi tok)) cb1;
                        row_rest rest 1 index cb2 } })"

text \<open>The string that \<open>fgets\<close> leaves in the buffer ends at its first null byte.\<close>

definition cstring :: "string \<Rightarrow> string" where
  "cstring s = takeWhile (\<lambda>c. c \<noteq> CHR 0x00) s"

text \<open>
  The line loop; the result is \<open>ret\<close>, the table, and the number of combinations to store
  where the function reaches the assignment of \<open>numCombinations\<close>.
\<close>

function populate_lines :: "string \<Rightarrow> nat \<Rightarrow> nat \<Rightarrow> pm_comb list \<Rightarrow> (int \<times> pm_comb list \<times> nat option) option" where
  "populate_lines file combinationIndex index table =
     (case fgets PM_MAXSTRINGLENGTH file of
        None \<Rightarrow> Some (if combinationIndex = 0 then (- 1, table, None) else (0, table, Some combinationIndex))
      | Some (line, file') \<Rightarrow>
          if OMX_POLICY_MAX_COMBINATIONS \<le> combinationIndex then Some (- 1, table, None)
          else
            do { cb \<leftarrow> rd table combinationIndex;
                 r \<leftarrow> populate_line (cstring line) index cb;
                 case r of
                   Row_stop cb' \<Rightarrow>
                     do { table' \<leftarrow> wr table combinationIndex cb'; Some (0, table', None) }
                 | Row_wide cb' \<Rightarrow>
                     do { table' \<leftarrow> wr table combinationIndex cb'; Some (- 1, table', None) }
                 | Row_done policyIndex index' cb' \<Rightarrow>
                     do { table' \<leftarrow> wr table combinationIndex
                            (cb'\<lparr>numComponentsInCombination := of_nat policyIndex\<rparr>);
                          populate_lines file' (Suc combinationIndex) index' table' } })"
  by pat_completeness auto
termination
  by (relation "measure (\<lambda>(file, _). length file)") (auto dest: fgets_consumes)

declare populate_lines.simps [simp del]

definition PopulatePolicyTable :: "string option \<Rightarrow> pm_state \<Rightarrow> (int \<times> pm_state) option" where
  "PopulatePolicyTable tablefile s =
     (case tablefile of
        None \<Rightarrow> Some (- 1, s)
      | Some file \<Rightarrow>
          do { (ret, table, n) \<leftarrow> populate_lines file 0 0 (replicate OMX_POLICY_MAX_COMBINATIONS pm_comb0);
               let s1 = s\<lparr>policyCombinationTable := table\<rparr>
               in Some (ret, case n of None \<Rightarrow> s1 | Some k \<Rightarrow> s1\<lparr>numCombinations := of_nat k\<rparr>) })"

text \<open>\<open>main\<close>: \<open>Inl\<close> is the exit code when the table cannot be read.\<close>

definition pm_main :: "string option \<Rightarrow> pm_command option list \<Rightarrow> (int + pm_state \<times> pm_response list) option" where
  "pm_main tablefile cmds =
     do { (ret, s) \<leftarrow> PopulatePolicyTable tablefile pm_init;
          if ret \<noteq> 0 then Some (Inl (- 1)) else map_option Inr (pm_main_loop s cmds) }"

subsection \<open>Names\<close>

lemma names_length: "length PM_ComponentNames = 46"
  by (simp add: PM_ComponentNames_def)

lemma name_index_from_absent:
  "s \<notin> set PM_ComponentNames \<Longrightarrow> i + k = PM_NUM_COMPONENTS \<Longrightarrow> 0 < k \<Longrightarrow> name_index_from s i k = None"
proof (induction k arbitrary: i)
  case 0
  then show ?case by simp
next
  case (Suc k)
  show ?case
  proof (cases "i < 46")
    case True
    then have "rd PM_ComponentTable i = Some (Some (PM_ComponentNames ! i))"
      by (simp add: PM_ComponentTable_def names_length rd_def nth_append)
    moreover have "s \<noteq> PM_ComponentNames ! i"
      using Suc.prems(1) True names_length by (metis nth_mem)
    ultimately show ?thesis using Suc.IH [of "Suc i"] Suc.prems True by simp
  next
    case False
    then have "i = 46" using Suc.prems by simp
    then have "rd PM_ComponentTable i = Some None"
      by (simp add: PM_ComponentTable_def names_length rd_def nth_append)
    then show ?thesis by simp
  qed
qed

lemma names_distinct: "distinct PM_ComponentNames"
  by (simp add: PM_ComponentNames_def)

lemma name_index_from_name:
  "j < 46 \<Longrightarrow> i \<le> j \<Longrightarrow> j < i + k \<Longrightarrow> name_index_from (PM_ComponentNames ! j) i k = Some (of_nat j)"
proof (induction k arbitrary: i)
  case 0
  then show ?case by simp
next
  case (Suc k)
  then have "rd PM_ComponentTable i = Some (Some (PM_ComponentNames ! i))"
    by (simp add: PM_ComponentTable_def names_length rd_def nth_append)
  moreover have "PM_ComponentNames ! j = PM_ComponentNames ! i \<longleftrightarrow> j = i"
    using Suc.prems names_distinct by (simp add: nth_eq_iff_index_eq names_length)
  ultimately show ?case using Suc.IH [of "Suc i"] Suc.prems by auto
qed

lemma PolicyStringToIndex_name:
  "i < 46 \<Longrightarrow> PolicyStringToIndex (PM_ComponentNames ! i) = Some (of_nat i)"
  by (simp only: PolicyStringToIndex_def name_index_from_name)

lemma PolicyStringToIndex_range:
  assumes "PolicyStringToIndex s = Some t"
  shows "unat t < 46"
proof -
  have "s \<in> set PM_ComponentNames"
    using assms name_index_from_absent [of s 0 PM_NUM_COMPONENTS] by (force simp: PolicyStringToIndex_def)
  then obtain i where "i < 46" "s = PM_ComponentNames ! i"
    using names_length by (metis in_set_conv_nth)
  with PolicyStringToIndex_name [of i] assms show ?thesis by (auto simp: unat_of_nat)
qed

subsection \<open>Any file keeps the table within its bounds\<close>

definition comb_ok :: "pm_comb \<Rightarrow> bool" where
  "comb_ok cb \<longleftrightarrow> length (combComponents cb) = OMX_POLICY_MAX_COMBINATION_LENGTH
     \<and> (\<forall>p \<in> set (combComponents cb). unat (ppComponent p) < 46)"

definition row_ok :: "row_result \<Rightarrow> bool" where
  "row_ok r \<longleftrightarrow> (case r of
       Row_done policyIndex _ cb \<Rightarrow> comb_ok cb \<and> policyIndex < OMX_POLICY_MAX_COMBINATION_LENGTH
     | Row_wide cb \<Rightarrow> comb_ok cb | Row_stop cb \<Rightarrow> comb_ok cb)"

lemma set_component_ok:
  "comb_ok cb \<Longrightarrow> unat t < 46 \<Longrightarrow> set_component j t cb = Some cb' \<Longrightarrow> comb_ok cb'"
  by (auto simp: set_component_def comb_ok_def bind_eq_Some_conv c_simps dest!: set_update_subset_insert [THEN subsetD])

lemma set_priority_ok:
  "comb_ok cb \<Longrightarrow> set_priority j v cb = Some cb' \<Longrightarrow> comb_ok cb'"
  by (auto simp: set_priority_def comb_ok_def bind_eq_Some_conv c_simps dest!: set_update_subset_insert [THEN subsetD])

lemma row_ok_simps [simp]:
  "row_ok (Row_done policyIndex index cb) \<longleftrightarrow> comb_ok cb \<and> policyIndex < OMX_POLICY_MAX_COMBINATION_LENGTH"
  "row_ok (Row_wide cb) \<longleftrightarrow> comb_ok cb" "row_ok (Row_stop cb) \<longleftrightarrow> comb_ok cb"
  by (simp_all add: row_ok_def)

lemma row_rest_ok: "row_rest line pi index cb = Some r \<Longrightarrow> comb_ok cb \<Longrightarrow> row_ok r"
proof (induction line pi index cb rule: row_rest.induct)
  case (1 line pi index cb)
  note e = "1.prems"(1) [unfolded row_rest.simps [of line]]
  show ?case
  proof (cases "OMX_POLICY_MAX_COMBINATION_LENGTH \<le> pi \<or> strtok seps line = None")
    case True
    with e "1.prems"(2) show ?thesis by (auto split: if_splits)
  next
    case False
    then obtain tok rest where t: "strtok seps line = Some (tok, rest)"
      and n: "\<not> OMX_POLICY_MAX_COMBINATION_LENGTH \<le> pi" by auto
    show ?thesis
    proof (cases "index mod 2 = 0")
      case True
      with e t n obtain x cb' where x: "PolicyStringToIndex tok = Some x" "set_component pi x cb = Some cb'"
        "row_rest rest pi (Suc index) cb' = Some r" by (auto simp: bind_eq_Some_conv)
      with "1.IH"(1) [OF n t refl True x(1)] "1.prems"(2) show ?thesis
        using PolicyStringToIndex_range set_component_ok by blast
    next
      case False
      with e t n obtain cb' where x: "set_priority pi (word_of_int (atoi tok)) cb = Some cb'"
        "row_rest rest (Suc pi) (Suc index) cb' = Some r" by (auto simp: bind_eq_Some_conv)
      with "1.IH"(2) [OF n t refl False] "1.prems"(2) show ?thesis
        using set_priority_ok by blast
    qed
  qed
qed

lemma populate_line_ok:
  assumes "populate_line line index cb = Some r" and "comb_ok cb"
  shows "row_ok r"
proof (cases "strtok '','' line")
  case None
  with assms show ?thesis by (auto simp: populate_line_def)
next
  case (Some x)
  then obtain tok rest where t: "strtok '','' line = Some (tok, rest)" by (cases x) simp
  with assms obtain t1 cb1 where c: "PolicyStringToIndex tok = Some t1" "set_component 0 t1 cb = Some cb1"
    by (auto simp: populate_line_def bind_eq_Some_conv)
  then have "comb_ok cb1" using assms(2) PolicyStringToIndex_range set_component_ok by blast
  with assms t c set_priority_ok row_rest_ok show ?thesis
    by (cases "strtok seps rest") (auto simp: populate_line_def bind_eq_Some_conv)
qed

text \<open>Storing components leaves the count of the combination alone.\<close>

definition row_num :: "row_result \<Rightarrow> u8" where
  "row_num r = (case r of Row_done _ _ cb \<Rightarrow> numComponentsInCombination cb
     | Row_wide cb \<Rightarrow> numComponentsInCombination cb | Row_stop cb \<Rightarrow> numComponentsInCombination cb)"

lemma set_num:
  "set_component j t cb = Some cb' \<Longrightarrow> numComponentsInCombination cb' = numComponentsInCombination cb"
  "set_priority j v cb = Some cb' \<Longrightarrow> numComponentsInCombination cb' = numComponentsInCombination cb"
  by (auto simp: set_component_def set_priority_def bind_eq_Some_conv)

lemma row_rest_num: "row_rest line pi index cb = Some r \<Longrightarrow> row_num r = numComponentsInCombination cb"
proof (induction line pi index cb rule: row_rest.induct)
  case (1 line pi index cb)
  note e = "1.prems"(1) [unfolded row_rest.simps [of line]]
  show ?case
  proof (cases "OMX_POLICY_MAX_COMBINATION_LENGTH \<le> pi \<or> strtok seps line = None")
    case True
    with e show ?thesis by (auto simp: row_num_def split: if_splits)
  next
    case False
    then obtain tok rest where t: "strtok seps line = Some (tok, rest)"
      and n: "\<not> OMX_POLICY_MAX_COMBINATION_LENGTH \<le> pi" by auto
    with e "1.IH"(1) [OF n t refl] "1.IH"(2) [OF n t refl] show ?thesis
      by (auto simp: bind_eq_Some_conv set_num split: if_splits)
  qed
qed

lemma populate_line_num:
  "populate_line line index cb = Some r \<Longrightarrow> row_num r = numComponentsInCombination cb"
  by (cases "strtok '','' line"; cases "strtok seps (snd (the (strtok '','' line)))")
    (auto simp: populate_line_def bind_eq_Some_conv row_num_def [where r = "Row_stop _"] set_num dest!: row_rest_num)

definition table_ok :: "pm_comb list \<Rightarrow> bool" where
  "table_ok table \<longleftrightarrow> length table = OMX_POLICY_MAX_COMBINATIONS
     \<and> (\<forall>cb \<in> set table. comb_ok cb \<and> unat (numComponentsInCombination cb) < OMX_POLICY_MAX_COMBINATION_LENGTH)"

lemma table_ok_wr:
  "table_ok table \<Longrightarrow> wr table i cb = Some table' \<Longrightarrow> comb_ok cb \<Longrightarrow>
   unat (numComponentsInCombination cb) < OMX_POLICY_MAX_COMBINATION_LENGTH \<Longrightarrow> table_ok table'"
  by (auto simp: table_ok_def c_simps dest!: set_update_subset_insert [THEN subsetD])

lemma populate_lines_ok:
  "populate_lines inp ci index tb = Some (ret, tb', n) \<Longrightarrow> table_ok tb \<Longrightarrow> ci \<le> OMX_POLICY_MAX_COMBINATIONS \<Longrightarrow>
   table_ok tb' \<and> (\<forall>k. n = Some k \<longrightarrow> ret = 0 \<and> 0 < k \<and> k \<le> OMX_POLICY_MAX_COMBINATIONS)"
proof (induction inp ci index tb rule: populate_lines.induct)
  case (1 inp ci index tb)
  note e = "1.prems"(1) [unfolded populate_lines.simps [of inp]]
  show ?case
  proof (cases "fgets PM_MAXSTRINGLENGTH inp")
    case None
    with e "1.prems" show ?thesis by (auto split: if_splits)
  next
    case (Some x)
    then obtain line inp' where f: "fgets PM_MAXSTRINGLENGTH inp = Some (line, inp')" by (cases x) simp
    show ?thesis
    proof (cases "OMX_POLICY_MAX_COMBINATIONS \<le> ci")
      case True
      with e f "1.prems" show ?thesis by auto
    next
      case False
      with e f obtain cb r where c: "rd tb ci = Some cb" "populate_line (cstring line) index cb = Some r"
        by (auto simp: bind_eq_Some_conv)
      have cb: "comb_ok cb" "unat (numComponentsInCombination cb) < OMX_POLICY_MAX_COMBINATION_LENGTH"
        using c(1) "1.prems"(2) by (auto simp: table_ok_def c_simps)
      note r = populate_line_ok [OF c(2) cb(1)]
      show ?thesis
      proof (cases r)
        case (Row_done pi index' cb')
        let ?cb = "cb'\<lparr>numComponentsInCombination := of_nat pi\<rparr>"
        from Row_done e f c False obtain table1 where t: "wr tb ci ?cb = Some table1"
          "populate_lines inp' (Suc ci) index' table1 = Some (ret, tb', n)"
          by (auto simp: bind_eq_Some_conv)
        have "table_ok table1"
          using table_ok_wr [OF "1.prems"(2) t(1)] r Row_done by (simp add: comb_ok_def unat_of_nat)
        with "1.IH" [OF f refl False c Row_done t(1) t(2)] False show ?thesis by simp
      next
        case (Row_wide cb')
        with e f c False r cb "1.prems"(2) populate_line_num [OF c(2)] show ?thesis
          by (auto simp: bind_eq_Some_conv row_num_def intro: table_ok_wr)
      next
        case (Row_stop cb')
        with e f c False r cb "1.prems"(2) populate_line_num [OF c(2)] show ?thesis
          by (auto simp: bind_eq_Some_conv row_num_def intro: table_ok_wr)
      qed
    qed
  qed
qed

lemma table_ok_init: "table_ok (replicate OMX_POLICY_MAX_COMBINATIONS pm_comb0)"
  by (simp add: table_ok_def comb_ok_def pm_comb0_def pm_prio0_def)

lemma table_ok_combs:
  assumes "table_ok tb" and "cb \<in> set tb"
  shows "comb_wf cb" "\<forall>t \<in> set (comb_types cb). unat t < 256"
proof -
  have "unat (ppComponent p) < 256" if "p \<in> set (combComponents cb)" for p
    using that assms by (fastforce simp: table_ok_def comb_ok_def)
  then show "\<forall>t \<in> set (comb_types cb). unat t < 256"
    by (auto simp: comb_types_def comb_used_def dest: in_set_takeD)
  show "comb_wf cb" using assms by (auto simp: table_ok_def comb_ok_def comb_wf_def)
qed

subsection \<open>Printing a table\<close>

text \<open>A printed row: \<open>name,priority,name,priority,...\<close> and a newline.\<close>

fun join_line :: "string list \<Rightarrow> string" where
  "join_line [] = []"
| "join_line [w] = w @ [newline]"
| "join_line (w # ws) = w @ CHR '','' # join_line ws"

definition row_tokens :: "(nat \<times> nat) list \<Rightarrow> string list" where
  "row_tokens ps = concat (map (\<lambda>(i, p). [PM_ComponentNames ! i, dec p]) ps)"

definition print_row :: "(nat \<times> nat) list \<Rightarrow> string" where
  "print_row ps = join_line (row_tokens ps)"

definition print_table :: "(nat \<times> nat) list list \<Rightarrow> string" where
  "print_table rows = concat (map print_row rows)"

definition row_words :: "(nat \<times> nat) list \<Rightarrow> (u32 \<times> u8) list" where
  "row_words ps = map (\<lambda>(i, p). (of_nat i, of_nat p)) ps"

definition row_text_ok :: "(nat \<times> nat) list \<Rightarrow> bool" where
  "row_text_ok ps \<longleftrightarrow> ps \<noteq> [] \<and> (\<forall>(i, p) \<in> set ps. i < 46 \<and> p < 256)
     \<and> length (print_row ps) < PM_MAXSTRINGLENGTH"

definition printable_row :: "(nat \<times> nat) list \<Rightarrow> bool" where
  "printable_row ps \<longleftrightarrow> row_text_ok ps \<and> length ps < OMX_POLICY_MAX_COMBINATION_LENGTH"

definition is_word :: "string \<Rightarrow> bool" where
  "is_word w \<longleftrightarrow> w \<noteq> [] \<and> (\<forall>c \<in> set w. c \<notin> set seps \<and> c \<noteq> CHR 0x00)"

lemma names_words: "\<forall>w \<in> set PM_ComponentNames. is_word w"
  by (simp add: PM_ComponentNames_def is_word_def)

lemma name_word: "i < 46 \<Longrightarrow> is_word (PM_ComponentNames ! i)"
  using names_words names_length by simp

lemma dec_word: "is_word (dec n)"
proof -
  have "\<not> is_digit (CHR 0x00)" by (simp add: is_digit_def)
  then have "c \<noteq> CHR 0x00" if "c \<in> set (dec n)" for c using dec_digits [OF that] by metis
  then show ?thesis using dec_digits [of _ n] is_digit_not_special by (auto simp: is_word_def)
qed

lemma strtok_join:
  assumes "is_word w"
  shows "strtok seps (join_line (w # ws)) = Some (w, join_line ws)"
proof -
  have d: "w \<noteq> []" "\<forall>c \<in> set w. c \<notin> set seps" using assms by (auto simp: is_word_def)
  show ?thesis
    using strtok_word [OF d, of newline "[]"] strtok_word [OF d, of "CHR '',''" "join_line ws"]
    by (cases ws) simp_all
qed

lemma strtok_join_first:
  assumes "is_word w"
  shows "strtok '','' (join_line (w # v # ws)) = Some (w, join_line (v # ws))"
  using strtok_word [of w "'',''" "CHR '',''" "join_line (v # ws)"] assms by (simp add: is_word_def)

definition entry :: "nat \<times> nat \<Rightarrow> pm_prio" where
  "entry ip = \<lparr>ppComponent = of_nat (fst ip), ppPriority = of_nat (snd ip)\<rparr>"

lemma store_entry:
  assumes "length (combComponents cb) = OMX_POLICY_MAX_COMBINATION_LENGTH" and "j < OMX_POLICY_MAX_COMBINATION_LENGTH"
  shows "do { cb1 \<leftarrow> set_component j (of_nat i) cb; set_priority j (of_nat p) cb1 }
    = Some (cb\<lparr>combComponents := (combComponents cb)[j := entry (i, p)]\<rparr>)"
  using assms by (cases "combComponents cb ! j") (simp add: set_component_def set_priority_def entry_def)

definition fill :: "nat \<Rightarrow> (nat \<times> nat) list \<Rightarrow> pm_comb \<Rightarrow> pm_comb" where
  "fill j ps cb = cb\<lparr>combComponents :=
     take j (combComponents cb) @ map entry ps @ drop (j + length ps) (combComponents cb)\<rparr>"

lemma fill_Cons:
  "j < length (combComponents cb) \<Longrightarrow>
   fill (Suc j) ps (cb\<lparr>combComponents := (combComponents cb)[j := entry x]\<rparr>) = fill j (x # ps) cb"
  by (simp add: fill_def take_Suc_conv_app_nth)

lemma priority_word: "p < 256 \<Longrightarrow> word_of_int (atoi (dec p)) = (of_nat p :: u8)"
  by (simp add: atoi_dec)

lemma row_rest_print:
  "length (combComponents cb) = OMX_POLICY_MAX_COMBINATION_LENGTH \<Longrightarrow>
   j + length ps < OMX_POLICY_MAX_COMBINATION_LENGTH \<Longrightarrow> even index \<Longrightarrow>
   \<forall>(i, p) \<in> set ps. i < 46 \<and> p < 256 \<Longrightarrow>
   row_rest (join_line (row_tokens ps)) j index cb = Some (Row_done (j + length ps) (index + 2 * length ps) (fill j ps cb))"
proof (induction ps arbitrary: j index cb)
  case Nil
  then show ?case by (simp add: row_rest.simps row_tokens_def fill_def)
next
  case (Cons x ps)
  obtain i p where x: "x = (i, p)" by (cases x)
  with Cons.prems have ip: "i < 46" "p < 256" by auto
  obtain cb1 where cb1: "set_component j (of_nat i) cb = Some cb1"
    "set_priority j (of_nat p) cb1 = Some (cb\<lparr>combComponents := (combComponents cb)[j := entry (i, p)]\<rparr>)"
    using store_entry [of cb j i p] Cons.prems by (auto simp: bind_eq_Some_conv)
  let ?cb = "cb\<lparr>combComponents := (combComponents cb)[j := entry (i, p)]\<rparr>"
  have t: "row_tokens (x # ps) = PM_ComponentNames ! i # dec p # row_tokens ps"
    by (simp add: row_tokens_def x)
  have "row_rest (join_line (row_tokens (x # ps))) j index cb
      = row_rest (join_line (dec p # row_tokens ps)) j (Suc index) cb1"
    unfolding t using Cons.prems ip cb1
    by (subst row_rest.simps) (simp add: strtok_join name_word PolicyStringToIndex_name even_iff_mod_2_eq_zero
      del: join_line.simps)
  also have "\<dots> = row_rest (join_line (row_tokens ps)) (Suc j) (Suc (Suc index)) ?cb"
    using Cons.prems ip cb1
    by (subst row_rest.simps) (simp add: strtok_join dec_word priority_word mod_Suc even_iff_mod_2_eq_zero
      del: join_line.simps)
  also have "\<dots> = Some (Row_done (Suc j + length ps) (Suc (Suc index) + 2 * length ps) (fill (Suc j) ps ?cb))"
    using Cons.prems by (intro Cons.IH) auto
  finally show ?case using Cons.prems by (simp add: fill_Cons x)
qed

lemma print_row_Cons:
  "print_row ((i, p) # ps) = join_line (PM_ComponentNames ! i # dec p # row_tokens ps)"
  by (simp add: print_row_def row_tokens_def)

lemma populate_line_print:
  assumes "printable_row ps" and "length (combComponents cb) = OMX_POLICY_MAX_COMBINATION_LENGTH" and "even index"
  shows "populate_line (print_row ps) index cb =
    Some (Row_done (length ps) (index + 2 * (length ps - 1)) (fill 0 ps cb))"
proof -
  obtain i p qs where ps: "ps = (i, p) # qs" using assms(1) by (cases ps) (auto simp: printable_row_def row_text_ok_def)
  have ip: "i < 46" "p < 256" and qs: "\<forall>(i, p) \<in> set qs. i < 46 \<and> p < 256"
    "1 + length qs < OMX_POLICY_MAX_COMBINATION_LENGTH"
    using assms(1) by (auto simp: printable_row_def row_text_ok_def ps)
  obtain cb1 where cb1: "set_component 0 (of_nat i) cb = Some cb1"
    "set_priority 0 (of_nat p) cb1 = Some (cb\<lparr>combComponents := (combComponents cb)[0 := entry (i, p)]\<rparr>)"
    using store_entry [of cb 0 i p] assms(2) by (auto simp: bind_eq_Some_conv)
  let ?cb = "cb\<lparr>combComponents := (combComponents cb)[0 := entry (i, p)]\<rparr>"
  have "populate_line (print_row ps) index cb = row_rest (join_line (row_tokens qs)) 1 index ?cb"
    unfolding ps print_row_Cons populate_line_def using ip cb1
    by (simp add: strtok_join_first strtok_join name_word dec_word PolicyStringToIndex_name priority_word
        del: join_line.simps)
  also have "\<dots> = Some (Row_done (1 + length qs) (index + 2 * length qs) (fill 1 qs ?cb))"
    using assms qs by (intro row_rest_print) simp_all
  finally show ?thesis using assms(2) fill_Cons [of 0 cb qs "(i, p)"] by (simp add: ps)
qed

lemma join_line_words:
  assumes "\<forall>w \<in> set ws. is_word w" and "ws \<noteq> []"
  shows "\<exists>l. join_line ws = l @ [newline] \<and> newline \<notin> set l \<and> CHR 0x00 \<notin> set l"
  using assms
proof (induction ws rule: join_line.induct)
  case 1
  then show ?case by simp
next
  case (2 w)
  then show ?case by (auto simp: is_word_def)
next
  case (3 w v ws)
  then obtain l where "join_line (v # ws) = l @ [newline]" "newline \<notin> set l" "CHR 0x00 \<notin> set l" by auto
  with 3 show ?case by (intro exI [of _ "w @ CHR '','' # l"]) (auto simp: is_word_def)
qed

lemma print_row_line:
  assumes "row_text_ok ps"
  shows "\<exists>l. print_row ps = l @ [newline] \<and> newline \<notin> set l \<and> CHR 0x00 \<notin> set l"
proof -
  have "\<forall>w \<in> set (row_tokens ps). is_word w"
    using assms name_word dec_word by (fastforce simp: row_tokens_def row_text_ok_def)
  moreover have "row_tokens ps \<noteq> []" using assms by (cases ps) (auto simp: row_tokens_def row_text_ok_def)
  ultimately show ?thesis unfolding print_row_def by (rule join_line_words)
qed

lemma fgets_print_row:
  assumes "row_text_ok ps"
  shows "fgets PM_MAXSTRINGLENGTH (print_row ps @ r) = Some (print_row ps, r)" "cstring (print_row ps) = print_row ps"
proof -
  obtain l where l: "print_row ps = l @ [newline]" "newline \<notin> set l" "CHR 0x00 \<notin> set l"
    using print_row_line [OF assms] by blast
  have "length l + 1 < PM_MAXSTRINGLENGTH" using assms l(1) by (simp add: row_text_ok_def)
  with l fgets_line [OF l(2), of PM_MAXSTRINGLENGTH r] show "fgets PM_MAXSTRINGLENGTH (print_row ps @ r) = Some (print_row ps, r)"
    by simp
  have "takeWhile (\<lambda>c. c \<noteq> CHR 0x00) (l @ [newline]) = l @ [newline]"
    using l(3) by (subst takeWhile_eq_all_conv) auto
  then show "cstring (print_row ps) = print_row ps" by (simp add: cstring_def l(1))
qed

lemma fill_comb_of_row:
  assumes "length ps < OMX_POLICY_MAX_COMBINATION_LENGTH"
  shows "(fill 0 ps pm_comb0)\<lparr>numComponentsInCombination := of_nat (length ps)\<rparr> = comb_of_row (row_words ps)"
  using assms by (simp add: fill_def pm_comb0_def comb_of_row_def row_words_def entry_def case_prod_beta comp_def)

lemma populate_lines_print:
  "\<forall>ps \<in> set rows. printable_row ps \<Longrightarrow> length acc + length rows \<le> OMX_POLICY_MAX_COMBINATIONS \<Longrightarrow>
   0 < length acc + length rows \<Longrightarrow> even index \<Longrightarrow>
   populate_lines (print_table rows) (length acc) index
      (acc @ replicate (OMX_POLICY_MAX_COMBINATIONS - length acc) pm_comb0)
    = Some (0, acc @ map (comb_of_row \<circ> row_words) rows
        @ replicate (OMX_POLICY_MAX_COMBINATIONS - length acc - length rows) pm_comb0, Some (length acc + length rows))"
proof (induction rows arbitrary: acc index)
  case Nil
  then show ?case by (simp add: populate_lines.simps print_table_def fgets_def)
next
  case (Cons ps rows)
  let ?n = "length acc" and ?cb = "comb_of_row (row_words ps)"
  let ?tb = "acc @ replicate (OMX_POLICY_MAX_COMBINATIONS - ?n) pm_comb0"
  let ?i = "index + 2 * (length ps - 1)"
  from Cons.prems have p: "printable_row ps" "row_text_ok ps" and n: "?n < OMX_POLICY_MAX_COMBINATIONS"
    by (simp_all add: printable_row_def)
  have r: "replicate (OMX_POLICY_MAX_COMBINATIONS - ?n) pm_comb0
      = pm_comb0 # replicate (OMX_POLICY_MAX_COMBINATIONS - Suc ?n) pm_comb0"
    using n by (metis Suc_diff_Suc replicate_Suc)
  have row: "populate_line (print_row ps) index pm_comb0 = Some (Row_done (length ps) ?i (fill 0 ps pm_comb0))"
    using p Cons.prems(4) by (intro populate_line_print) (simp_all add: pm_comb0_def)
  have st: "(fill 0 ps pm_comb0)\<lparr>numComponentsInCombination := of_nat (length ps)\<rparr> = ?cb"
    using p by (intro fill_comb_of_row) (simp add: printable_row_def row_text_ok_def)
  have "populate_lines (print_table (ps # rows)) ?n index ?tb
      = populate_lines (print_table rows) (Suc ?n) ?i ((acc @ [?cb]) @ replicate (OMX_POLICY_MAX_COMBINATIONS - Suc ?n) pm_comb0)"
    using n row st fgets_print_row [OF p(2)]
    by (subst populate_lines.simps) (simp add: print_table_def r)
  also have "\<dots> = Some (0, (acc @ [?cb]) @ map (comb_of_row \<circ> row_words) rows
        @ replicate (OMX_POLICY_MAX_COMBINATIONS - Suc ?n - length rows) pm_comb0, Some (Suc ?n + length rows))"
    using Cons.IH [of "acc @ [?cb]" ?i] Cons.prems by simp
  finally show ?case by simp
qed

lemma PopulatePolicyTable_rows:
  assumes "\<forall>ps \<in> set rows. printable_row ps" and "rows \<noteq> []" and "length rows \<le> OMX_POLICY_MAX_COMBINATIONS"
  shows "PopulatePolicyTable (Some (print_table rows)) pm_init = Some (0, policy_state (map row_words rows))"
  using populate_lines_print [OF assms(1), of "[]" 0] assms(2,3)
  by (simp add: PopulatePolicyTable_def policy_state_def)

lemma row_rest_wide:
  "length (combComponents cb) = OMX_POLICY_MAX_COMBINATION_LENGTH \<Longrightarrow>
   j \<le> OMX_POLICY_MAX_COMBINATION_LENGTH \<Longrightarrow> OMX_POLICY_MAX_COMBINATION_LENGTH \<le> j + length ps \<Longrightarrow> even index \<Longrightarrow>
   \<forall>(i, p) \<in> set ps. i < 46 \<and> p < 256 \<Longrightarrow>
   \<exists>cb'. row_rest (join_line (row_tokens ps)) j index cb = Some (Row_wide cb')"
proof (induction ps arbitrary: j index cb)
  case Nil
  then show ?case by (simp add: row_rest.simps)
next
  case (Cons x ps)
  obtain i p where x: "x = (i, p)" by (cases x)
  with Cons.prems have ip: "i < 46" "p < 256" by auto
  have t: "row_tokens (x # ps) = PM_ComponentNames ! i # dec p # row_tokens ps"
    by (simp add: row_tokens_def x)
  show ?case
  proof (cases "j < OMX_POLICY_MAX_COMBINATION_LENGTH")
    case False
    then show ?thesis by (simp add: row_rest.simps)
  next
    case True
    obtain cb1 where cb1: "set_component j (of_nat i) cb = Some cb1"
      "set_priority j (of_nat p) cb1 = Some (cb\<lparr>combComponents := (combComponents cb)[j := entry (i, p)]\<rparr>)"
      using store_entry [of cb j i p] Cons.prems True by (auto simp: bind_eq_Some_conv)
    let ?cb = "cb\<lparr>combComponents := (combComponents cb)[j := entry (i, p)]\<rparr>"
    have "row_rest (join_line (row_tokens (x # ps))) j index cb
        = row_rest (join_line (dec p # row_tokens ps)) j (Suc index) cb1"
      unfolding t using Cons.prems ip cb1 True
      by (subst row_rest.simps) (simp add: strtok_join name_word PolicyStringToIndex_name even_iff_mod_2_eq_zero
          del: join_line.simps)
    also have "\<dots> = row_rest (join_line (row_tokens ps)) (Suc j) (Suc (Suc index)) ?cb"
      using Cons.prems ip cb1 True
      by (subst row_rest.simps) (simp add: strtok_join dec_word priority_word mod_Suc even_iff_mod_2_eq_zero
          del: join_line.simps)
    finally show ?thesis using Cons.IH [of ?cb "Suc j" "Suc (Suc index)"] Cons.prems True by auto
  qed
qed

lemma fgets_chars_prefix:
  "newline \<notin> set w \<Longrightarrow> length w \<le> k \<Longrightarrow> \<exists>l r'. fgets_chars k (w @ r) = (w @ l, r')"
proof (induction w arbitrary: k)
  case Nil
  then show ?case by (cases "fgets_chars k r") simp
next
  case (Cons c w)
  then obtain k' where k: "k = Suc k'" by (cases k) auto
  from Cons.IH [of k'] Cons.prems k obtain l r' where "fgets_chars k' (w @ r) = (w @ l, r')" by auto
  with Cons.prems k show ?case by auto
qed

subsection \<open>Properties\<close>

text \<open>
  C6: a table of at most 111 rows, each with fewer than 50 known components, priorities below
  256 and a line shorter than the buffer, is read back exactly as it was printed.
\<close>

theorem PopulatePolicyTable_reads_back:
  assumes "\<forall>ps \<in> set rows. printable_row ps" and "rows \<noteq> []" and "length rows \<le> OMX_POLICY_MAX_COMBINATIONS"
  shows "PopulatePolicyTable (Some (print_table rows)) pm_init = Some (0, policy_state (map row_words rows))"
  by (rule PopulatePolicyTable_rows [OF assms])

text \<open>The example table in the file format.\<close>

definition demo_table :: "(nat \<times> nat) list list" where
  "demo_table = [[(7, 4)], [(1, 3), (2, 5)], [(3, 1), (7, 1)]]"

lemma demo_table_printable: "\<forall>ps \<in> set demo_table. printable_row ps"
proof -
  have "list_all printable_row demo_table" by code_simp
  then show ?thesis by (simp add: list_all_iff)
qed

lemma demo_table_rows: "map row_words demo_table = demo_rows"
  by (simp add: demo_table_def demo_rows_def row_words_def)

theorem PopulatePolicyTable_reads_back_witness:
  "PopulatePolicyTable (Some (print_table demo_table)) pm_init = Some (0, demo)"
proof -
  have "demo_table \<noteq> []" "length demo_table \<le> OMX_POLICY_MAX_COMBINATIONS" by (simp_all add: demo_table_def)
  from PopulatePolicyTable_reads_back [OF demo_table_printable this] show ?thesis by (simp only: demo_table_rows)
qed



text \<open>
  C5: the policy manager started on a printed table with no type repeated in a row serves every
  command sequence that fits its tables: it does not fault and answers each request once, in
  order.
\<close>

theorem pm_main_serves:
  assumes "\<forall>ps \<in> set rows. printable_row ps \<and> distinct (map fst ps)"
    and "rows \<noteq> []" and "length rows \<le> OMX_POLICY_MAX_COMBINATIONS"
    and "length (filter asks (until_exit cs)) \<le> MAX_CLIENTS" and "length (filter waits (until_exit cs)) \<le> MAX_CLIENTS"
  shows "\<exists>s' out. pm_main (Some (print_table rows)) cs = Some (Inr (s', out)) \<and> pm_wf s'
    \<and> answers out = map (\<lambda>c. (pcComponent c, pcPid c)) (filter asks (until_exit cs))"
proof -
  let ?s = "policy_state (map row_words rows)"
  have "distinct (map fst (row_words ps))" if "printable_row ps" "distinct (map fst ps)" for ps
  proof -
    have "map fst (row_words ps) = map (of_nat :: nat \<Rightarrow> u32) (map fst ps)"
      by (simp add: row_words_def case_prod_beta comp_def)
    moreover have "inj_on (of_nat :: nat \<Rightarrow> u32) {..<46}"
      by (auto intro!: inj_onI dest!: arg_cong [where f = unat] simp: unat_of_nat)
    moreover have "set (map fst ps) \<subseteq> {..<46}"
      using that(1) by (force simp: printable_row_def row_text_ok_def)
    ultimately show ?thesis using that(2) by (metis distinct_map inj_on_subset)
  qed
  then have "rows_ok (map row_words rows)"
    using assms(1,3) by (auto simp: rows_ok_def printable_row_def row_text_ok_def row_words_def)
  then have w: "pm_wf ?s" by (rule policy_state_wf)
  have z: "registeredComponents ?s = 0" "pendingComponents ?s = 0"
    by (simp_all add: policy_state_def pm_init_def)
  have "\<exists>s' out. pm_main_loop ?s cs = Some (s', out) \<and> exec pm_step pm_ok ?s (until_exit cs) s' out"
    by (rule main_loop_run [OF w]) (use assms(4,5) z in simp_all)
  then obtain s' out where r: "pm_main_loop ?s cs = Some (s', out)" "exec pm_step pm_ok ?s (until_exit cs) s' out" by blast
  with PopulatePolicyTable_rows [of rows] assms(1-3) pm_machine.exec_inv [OF r(2) w] exec_answers [OF r(2) w]
  show ?thesis by (simp add: pm_main_def)
qed

theorem pm_main_serves_witness:
  "\<exists>s' out. pm_main (Some (print_table demo_table)) [Some (mk_cmd PM_RequestPolicy 16 1 2), Some (mk_cmd PM_ExitTI 16 1 2)]
      = Some (Inr (s', out)) \<and> pm_wf s' \<and> answers out = [(16, 1)]"
proof -
  have "\<forall>ps \<in> set demo_table. printable_row ps \<and> distinct (map fst ps)"
    using demo_table_printable by (simp add: demo_table_def)
  from pm_main_serves [OF this, of "[Some (mk_cmd PM_RequestPolicy 16 1 2), Some (mk_cmd PM_ExitTI 16 1 2)]"]
  show ?thesis by (simp add: demo_table_def mk_cmd_def asks_def waits_def)
qed

text \<open>
  a name that is not one of the 46 known ones makes \<open>PolicyStringToIndex\<close> pass the null
  entry of \<open>PM_ComponentTable\<close> to \<open>strcmp\<close>: a file whose first name is unknown crashes the
  policy manager at its start, instead of the -1 that the function is written to return.
\<close>

theorem PopulatePolicyTable_unknown_name:
  assumes "is_word w" and "w \<notin> set PM_ComponentNames" and "length w + 1 < PM_MAXSTRINGLENGTH"
  shows "PopulatePolicyTable (Some (w @ CHR '','' # r)) s = None"
proof -
  have n: "newline \<notin> set (w @ [CHR '',''])" using assms(1) by (auto simp: is_word_def)
  have "length (w @ [CHR '','']) \<le> PM_MAXSTRINGLENGTH - 1" using assms(3) by simp
  from fgets_chars_prefix [OF n this, of r] obtain l r' where
    f: "fgets PM_MAXSTRINGLENGTH (w @ CHR '','' # r) = Some (w @ CHR '','' # l, r')" by (auto simp: fgets_def)
  have c: "cstring (w @ CHR '','' # l) = w @ CHR '','' # cstring l"
    using assms(1) by (simp add: cstring_def is_word_def takeWhile_append2)
  have t: "strtok '','' (w @ CHR '','' # cstring l) = Some (w, cstring l)"
    using assms(1) by (intro strtok_word) (auto simp: is_word_def)
  have "PolicyStringToIndex w = None"
    using name_index_from_absent [OF assms(2), of 0 PM_NUM_COMPONENTS] by (simp add: PolicyStringToIndex_def)
  with f c t have "populate_lines (w @ CHR '','' # r) 0 0 (replicate OMX_POLICY_MAX_COMBINATIONS pm_comb0) = None"
    by (subst populate_lines.simps) (simp add: populate_line_def)
  then show ?thesis by (simp add: PopulatePolicyTable_def)
qed

theorem PopulatePolicyTable_unknown_name_witness:
  "PopulatePolicyTable (Some (''OMX_VORBIS_Decoder_COMPONENT'' @ CHR '','' # ''5'')) pm_init = None"
  by (rule PopulatePolicyTable_unknown_name) (simp_all add: is_word_def PM_ComponentNames_def)

text \<open>
  a row with all 50 components that fit the array is refused as too wide, because the
  width is checked before the end of the line is looked for.
\<close>

theorem PopulatePolicyTable_refuses_full_row:
  assumes "row_text_ok ps" and "length ps = OMX_POLICY_MAX_COMBINATION_LENGTH"
  shows "\<exists>s'. PopulatePolicyTable (Some (print_row ps)) s = Some (- 1, s')"
proof -
  obtain i p qs where ps: "ps = (i, p) # qs" using assms(2) by (cases ps) auto
  have ip: "i < 46" "p < 256" and qs: "\<forall>(i, p) \<in> set qs. i < 46 \<and> p < 256" "length qs = 49"
    using assms by (auto simp: row_text_ok_def ps)
  obtain cb1 where cb1: "set_component 0 (of_nat i) pm_comb0 = Some cb1"
    "set_priority 0 (of_nat p) cb1 = Some (pm_comb0\<lparr>combComponents := (combComponents pm_comb0)[0 := entry (i, p)]\<rparr>)"
    using store_entry [of pm_comb0 0 i p] by (auto simp: bind_eq_Some_conv pm_comb0_def)
  let ?cb = "pm_comb0\<lparr>combComponents := (combComponents pm_comb0)[0 := entry (i, p)]\<rparr>"
  have "populate_line (print_row ps) 0 pm_comb0 = row_rest (join_line (row_tokens qs)) 1 0 ?cb"
    unfolding ps print_row_Cons populate_line_def using ip cb1
    by (simp add: strtok_join_first strtok_join name_word dec_word PolicyStringToIndex_name priority_word
        del: join_line.simps)
  moreover have "\<exists>cb'. row_rest (join_line (row_tokens qs)) 1 0 ?cb = Some (Row_wide cb')"
    using qs by (intro row_rest_wide) (simp_all add: pm_comb0_def)
  ultimately obtain cb' where "populate_line (print_row ps) 0 pm_comb0 = Some (Row_wide cb')" by auto
  with fgets_print_row(1) [OF assms(1), of "[]"] fgets_print_row(2) [OF assms(1)]
  have "\<exists>tb. populate_lines (print_row ps) 0 0 (replicate OMX_POLICY_MAX_COMBINATIONS pm_comb0) = Some (- 1, tb, None)"
    by (subst populate_lines.simps) simp
  then show ?thesis by (auto simp: PopulatePolicyTable_def)
qed

theorem PopulatePolicyTable_refuses_full_row_witness:
  "\<exists>s'. PopulatePolicyTable (Some (print_row (replicate 50 (43, 5)))) pm_init = Some (- 1, s')"
proof -
  have "row_text_ok (replicate 50 (43, 5))" by code_simp
  then show ?thesis by (rule PopulatePolicyTable_refuses_full_row) simp
qed

text \<open>
  a first record without its priority makes the parser leave with success and no
  combination, so the policy manager starts and denies every request.
\<close>

theorem PopulatePolicyTable_missing_priority:
  assumes "i < 46"
  shows "\<exists>s'. PopulatePolicyTable (Some (PM_ComponentNames ! i @ CHR '','' # newline # r)) pm_init = Some (0, s')
    \<and> numCombinations s' = 0 \<and> (\<forall>t. pm_decide s' t = Refuse)"
proof -
  let ?w = "PM_ComponentNames ! i"
  have len: "\<forall>w \<in> set PM_ComponentNames. length w < 100" by (simp add: PM_ComponentNames_def)
  have w: "is_word ?w" using assms by (rule name_word)
  have l: "length ?w < 100" using assms len names_length by simp
  have f: "fgets PM_MAXSTRINGLENGTH (?w @ CHR '','' # newline # r) = Some (?w @ [CHR '','', newline], r)"
    using fgets_line [of "?w @ [CHR '','']" PM_MAXSTRINGLENGTH r] w l by (auto simp: is_word_def)
  have c: "cstring (?w @ [CHR '','', newline]) = ?w @ [CHR '','', newline]"
    unfolding cstring_def using w by (subst takeWhile_eq_all_conv) (auto simp: is_word_def)
  have t: "strtok '','' (?w @ [CHR '','', newline]) = Some (?w, [newline])"
    using w by (intro strtok_word) (auto simp: is_word_def)
  have t2: "strtok seps [newline] = None" by (simp add: strtok_def)
  obtain cb1 where cb1: "set_component 0 (of_nat i) pm_comb0 = Some cb1"
    by (simp add: set_component_def pm_comb0_def)
  have "populate_lines (?w @ CHR '','' # newline # r) 0 0 (replicate OMX_POLICY_MAX_COMBINATIONS pm_comb0)
      = Some (0, (replicate OMX_POLICY_MAX_COMBINATIONS pm_comb0)[0 := cb1], None)"
    using f c t t2 cb1 PolicyStringToIndex_name [OF assms]
    by (subst populate_lines.simps) (simp add: populate_line_def)
  then show ?thesis
    by (auto simp: PopulatePolicyTable_def pm_init_def pm_decide_def pm_clients_def supporting_def)
qed

theorem PopulatePolicyTable_missing_priority_witness:
  "\<exists>s'. PopulatePolicyTable (Some (PM_ComponentNames ! 0 @ CHR '','' # newline # [])) pm_init = Some (0, s')
    \<and> numCombinations s' = 0 \<and> (\<forall>t. pm_decide s' t = Refuse)"
  by (rule PopulatePolicyTable_missing_priority) simp

end
