(* ===== verification/OMX_Core.thy ===== *)
theory OMX_Core
  imports Prelude "HOL-Library.Multiset"
begin

section \<open>The OMX core\<close>

text \<open>
  Model of \<open>omx/system/src/openmax_il/omx_core/src/OMX_Core.c\<close>: the component table that
  \<open>TIOMX_Init\<close> builds, the creation and release of component instances, and the queries on
  names and roles.

  The tail of \<open>ComponentTable\<close> (\<open>pHandle[4]\<close>, \<open>refCount\<close>, \<open>maxinstances\<close>) is one list of six
  32-bit words, because the code indexes \<open>pHandle\<close> past its end: on the 32-bit target
  \<open>pHandle[4]\<close> is \<open>refCount\<close> and \<open>pHandle[5]\<close> is \<open>maxinstances\<close>. An access further out is a
  fault. A null pointer given to \<open>strcmp\<close>, a call through a null handle and a \<open>free\<close> of a
  pointer that is not allocated are faults too.

  Component libraries are outside the sources: what \<open>dlopen\<close>, \<open>dlsym\<close>, \<open>malloc\<close> and the
  functions of a component return is given by a record \<open>core_env\<close>.
\<close>

subsection \<open>Data\<close>

datatype OMX_ERRORTYPE
  = OMX_ErrorNone | OMX_ErrorInsufficientResources | OMX_ErrorUndefined
  | OMX_ErrorInvalidComponentName | OMX_ErrorComponentNotFound | OMX_ErrorInvalidComponent
  | OMX_ErrorBadParameter | OMX_ErrorNotImplemented | OMX_ErrorUnderflow | OMX_ErrorOverflow
  | OMX_ErrorHardware | OMX_ErrorInvalidState | OMX_ErrorStreamCorrupt
  | OMX_ErrorPortsNotCompatible | OMX_ErrorResourcesLost | OMX_ErrorNoMore
  | OMX_ErrorVersionMismatch | OMX_ErrorNotReady | OMX_ErrorTimeout | OMX_ErrorSameState
  | OMX_ErrorResourcesPreempted | OMX_ErrorPortUnresponsiveDuringAllocation
  | OMX_ErrorPortUnresponsiveDuringDeallocation | OMX_ErrorPortUnresponsiveDuringStop
  | OMX_ErrorIncorrectStateTransition | OMX_ErrorIncorrectStateOperation
  | OMX_ErrorUnsupportedSetting | OMX_ErrorUnsupportedIndex | OMX_ErrorBadPortIndex
  | OMX_ErrorPortUnpopulated | OMX_ErrorComponentSuspended
  | OMX_ErrorDynamicResourcesUnavailable | OMX_ErrorMbErrorsInFrame
  | OMX_ErrorFormatNotDetected | OMX_ErrorContentPipeOpenFailed
  | OMX_ErrorContentPipeCreationFailed | OMX_ErrorSeperateTablesUsed
  | OMX_ErrorTunnelingUnsupported | OMX_ErrorKhronosExtensions | OMX_ErrorVendorStartUnused
  | OMX_ErrorMax

abbreviation "MAXCOMP \<equiv> (50 :: nat)"
abbreviation "MAXNAMESIZE \<equiv> (130 :: nat)"
abbreviation "MAX_ROLES \<equiv> (20 :: nat)"
abbreviation "MAX_TABLE_SIZE \<equiv> (30 :: nat)"
abbreviation "MAX_CONCURRENT_INSTANCES \<equiv> (4 :: u32)"
abbreviation "MAX_720P_CONCURRENT_INSTANCES \<equiv> (1 :: u32)"

record comp_entry =
  ceName :: "string option"
  nRoles :: u16
  pRoleArray :: "string option list"
  slots :: "u32 list"

record core_state =
  pModules :: "handle list"
  pComponents :: "handle list"
  core_count :: int
  tableCount :: nat
  componentTable :: "comp_entry list"
  live :: "handle list"

abbreviation "REFCOUNT \<equiv> (4 :: nat)"
abbreviation "MAXINST \<equiv> (5 :: nat)"

definition refCount :: "comp_entry \<Rightarrow> int" where
  "refCount e = sint (slots e ! REFCOUNT)"

definition maxinstances :: "comp_entry \<Rightarrow> u32" where
  "maxinstances e = slots e ! MAXINST"

definition comp_entry0 :: comp_entry where
  "comp_entry0 = \<lparr>ceName = None, nRoles = 0, pRoleArray = replicate MAX_ROLES None, slots = replicate 6 0\<rparr>"

definition core_init :: core_state where
  "core_init = \<lparr>pModules = replicate MAXCOMP NULL, pComponents = replicate MAXCOMP NULL, core_count = 0,
     tableCount = 0, componentTable = replicate MAX_TABLE_SIZE comp_entry0, live = []\<rparr>"

text \<open>The rows of \<open>tComponentName\<close>: name, role or null, instance limit.\<close>

type_synonym comp_row = "string \<times> string option \<times> u32"

definition tComponentName :: "bool \<Rightarrow> comp_row list" where
  "tComponentName target_omap4 =
    [(''OMX.TI.JPEG.decoder'', Some ''image_decoder.jpeg'', MAX_CONCURRENT_INSTANCES),
     (''OMX.TI.JPEG.encoder'', Some ''image_encoder.jpeg'', MAX_CONCURRENT_INSTANCES),
     (''OMX.TI.Video.Decoder'', Some ''video_decoder.h263'', MAX_CONCURRENT_INSTANCES),
     (''OMX.TI.Video.Decoder'', Some ''video_decoder.avc'', MAX_CONCURRENT_INSTANCES),
     (''OMX.TI.Video.Decoder'', Some ''video_decoder.mpeg2'', MAX_CONCURRENT_INSTANCES),
     (''OMX.TI.Video.Decoder'', Some ''video_decoder.mpeg4'', MAX_CONCURRENT_INSTANCES),
     (''OMX.TI.720P.Decoder'', Some ''video_decoder.mpeg4'', MAX_720P_CONCURRENT_INSTANCES),
     (''OMX.TI.720P.Decoder'', Some ''video_decoder.avc'', MAX_720P_CONCURRENT_INSTANCES),
     (''OMX.TI.Video.Decoder'', Some ''video_decoder.wmv'', MAX_CONCURRENT_INSTANCES),
     (''OMX.TI.Video.encoder'', Some ''video_encoder.mpeg4'', MAX_CONCURRENT_INSTANCES),
     (''OMX.TI.720P.Encoder'', Some ''video_encoder.mpeg4'', MAX_720P_CONCURRENT_INSTANCES),
     (''OMX.TI.Video.encoder'', Some ''video_encoder.h263'', MAX_CONCURRENT_INSTANCES),
     (''OMX.TI.Video.encoder'', Some ''video_encoder.avc'', MAX_CONCURRENT_INSTANCES),
     (''OMX.TI.720P.Encoder'', Some ''video_encoder.avc'', MAX_720P_CONCURRENT_INSTANCES),
     (''OMX.TI.VPP'', Some ''iv_renderer.yuv.overlay'', MAX_CONCURRENT_INSTANCES),
     (''OMX.TI.Camera'', Some ''camera.yuv'', MAX_CONCURRENT_INSTANCES),
     (''OMX.TI.G729.encode'', None, MAX_CONCURRENT_INSTANCES),
     (''OMX.TI.G729.decode'', None, MAX_CONCURRENT_INSTANCES),
     (''OMX.TI.G722.encode'', None, MAX_CONCURRENT_INSTANCES),
     (''OMX.TI.G722.decode'', None, MAX_CONCURRENT_INSTANCES),
     (''OMX.TI.G711.encode'', None, MAX_CONCURRENT_INSTANCES),
     (''OMX.TI.G711.decode'', None, MAX_CONCURRENT_INSTANCES),
     (''OMX.TI.G726.encode'', None, MAX_CONCURRENT_INSTANCES),
     (''OMX.TI.G726.decode'', None, MAX_CONCURRENT_INSTANCES),
     (''OMX.TI.ILBC.decode'', None, MAX_CONCURRENT_INSTANCES),
     (''OMX.TI.ILBC.encode'', None, MAX_CONCURRENT_INSTANCES),
     (''OMX.TI.AMR.encode'', Some ''audio_encoder.amrnb'', MAX_CONCURRENT_INSTANCES),
     (''OMX.TI.AMR.decode'', Some ''audio_decoder.amrnb'', MAX_CONCURRENT_INSTANCES),
     (''OMX.TI.WBAMR.encode'', Some ''audio_encoder.amrwb'', MAX_CONCURRENT_INSTANCES),
     (''OMX.TI.WBAMR.decode'', Some ''audio_decoder.amrwb'', MAX_CONCURRENT_INSTANCES),
     (''OMX.TI.MP3.decode'', Some ''audio_decoder.mp3'', MAX_CONCURRENT_INSTANCES),
     (''OMX.ITTIAM.MP3.decode'', Some ''audio_decoder.mp3'', MAX_CONCURRENT_INSTANCES),
     (''OMX.TI.AAC.encode'', Some ''audio_encoder.aac'', MAX_CONCURRENT_INSTANCES),
     (''OMX.TI.AAC.decode'', Some ''audio_decoder.aac'', MAX_CONCURRENT_INSTANCES),
     (''OMX.ITTIAM.AAC.decode'', Some ''audio_decoder.aac'', MAX_CONCURRENT_INSTANCES),
     (''OMX.ITTIAM.AAC.encode'', Some ''audio_encoder.aac'', MAX_CONCURRENT_INSTANCES),
     (''OMX.TI.WMA.decode'', Some ''audio_decoder.wma'', MAX_CONCURRENT_INSTANCES)]
    @ (if target_omap4 then [] else
    [(''OMX.ITTIAM.WMA.decode'', Some ''audio_decoder.wma'', MAX_CONCURRENT_INSTANCES),
     (''OMX.ITTIAM.WMAPRO.decode'', Some ''audio_decoder.wma'', MAX_CONCURRENT_INSTANCES)])"

record core_env =
  env_lock :: bool
  env_unlock :: bool
  env_dlopen :: "string \<Rightarrow> handle"
  env_dlsym :: "handle \<Rightarrow> bool"
  env_malloc :: handle
  env_init :: "handle \<Rightarrow> OMX_ERRORTYPE"
  env_setcb :: "handle \<Rightarrow> OMX_ERRORTYPE"
  env_deinit :: "handle \<Rightarrow> OMX_ERRORTYPE"

subsection \<open>Building the component table\<close>

text \<open>The search of a name among the first \<open>n\<close> entries; a null name is a fault.\<close>

primrec find_name_from :: "comp_entry list \<Rightarrow> string \<Rightarrow> nat \<Rightarrow> nat \<Rightarrow> nat option option" where
  "find_name_from tb s i 0 = Some None"
| "find_name_from tb s i (Suc k) =
     do { e \<leftarrow> rd tb i; name \<leftarrow> ceName e;
          if name = s then Some (Some i) else find_name_from tb s (Suc i) k }"

definition add_role :: "comp_entry \<Rightarrow> string \<Rightarrow> comp_entry option" where
  "add_role e role =
     do { rs \<leftarrow> wr (pRoleArray e) (unat (nRoles e)) (Some role);
          sl \<leftarrow> wr (slots e) (unat (nRoles e)) NULL;
          Some (e\<lparr>pRoleArray := rs, slots := sl, nRoles := nRoles e + 1\<rparr>) }"

definition new_entry :: "comp_entry \<Rightarrow> comp_row \<Rightarrow> comp_entry option" where
  "new_entry e row =
     (case row of (name, role, inst) \<Rightarrow>
       do { e1 \<leftarrow> (case role of None \<Rightarrow> Some e
                   | Some r \<Rightarrow> do { rs \<leftarrow> wr (pRoleArray e) 0 (Some r);
                                   Some (e\<lparr>pRoleArray := rs, nRoles := 1\<rparr>) });
            sl \<leftarrow> wr (slots e1) REFCOUNT 0;
            sl \<leftarrow> wr sl MAXINST inst;
            Some (e1\<lparr>ceName := Some name, slots := sl\<rparr>) })"

definition build_row :: "comp_entry list \<times> nat \<Rightarrow> comp_row \<Rightarrow> (comp_entry list \<times> nat) option" where
  "build_row st row =
     (let (tb, numFiles) = st; (name, role, inst) = row
      in if numFiles < MAX_TABLE_SIZE then
           do { m \<leftarrow> find_name_from tb name 0 numFiles;
                case m of
                  Some j \<Rightarrow>
                    (case role of None \<Rightarrow> Some (tb, numFiles)
                     | Some r \<Rightarrow> do { e \<leftarrow> rd tb j; e' \<leftarrow> add_role e r; tb' \<leftarrow> wr tb j e'; Some (tb', numFiles) })
                | None \<Rightarrow>
                    do { e \<leftarrow> rd tb numFiles; e' \<leftarrow> new_entry e row; tb' \<leftarrow> wr tb numFiles e';
                         Some (tb', Suc numFiles) } }
         else Some (tb, numFiles))"

primrec build_rows :: "comp_entry list \<times> nat \<Rightarrow> comp_row list \<Rightarrow> (comp_entry list \<times> nat) option" where
  "build_rows st [] = Some st"
| "build_rows st (row # rows) = do { st' \<leftarrow> build_row st row; build_rows st' rows }"

definition TIOMX_BuildComponentTable :: "comp_row list \<Rightarrow> core_state \<Rightarrow> core_state option" where
  "TIOMX_BuildComponentTable rows s =
     do { (tb, numFiles) \<leftarrow> build_rows (componentTable s, 0) rows;
          Some (s\<lparr>componentTable := tb, tableCount := numFiles\<rparr>) }"

definition TIOMX_Init :: "comp_row list \<Rightarrow> core_env \<Rightarrow> core_state \<Rightarrow> (OMX_ERRORTYPE \<times> core_state) option" where
  "TIOMX_Init rows env s =
     (if \<not> env_lock env then Some (OMX_ErrorUndefined, s)
      else
        let s1 = s\<lparr>core_count := core_count s + 1\<rparr>
        in do { s2 \<leftarrow> (if core_count s1 = 1 then TIOMX_BuildComponentTable rows s1 else Some s1);
                Some (if env_unlock env then OMX_ErrorNone else OMX_ErrorUndefined, s2) })"

definition TIOMX_Deinit :: "core_env \<Rightarrow> core_state \<Rightarrow> OMX_ERRORTYPE \<times> core_state" where
  "TIOMX_Deinit env s =
     (if \<not> env_lock env then (OMX_ErrorUndefined, s)
      else (if env_unlock env then OMX_ErrorNone else OMX_ErrorUndefined,
            if core_count s \<noteq> 0 then s\<lparr>core_count := core_count s - 1\<rparr> else s))"

subsection \<open>Creating an instance\<close>

text \<open>
  The attempt to load the component found at \<open>refIndex\<close> into slot \<open>i\<close>, with \<open>h\<close> the value of
  \<open>*pHandle\<close>. It ends at \<open>UNLOCK_MUTEX\<close>, at \<open>CLEAN_UP\<close>, or goes on with the next table
  entry, when \<open>OMX_ComponentInit\<close> failed with an error other than insufficient resources.
\<close>

datatype get_step = Get_unlock OMX_ERRORTYPE core_state handle
  | Get_cleanup OMX_ERRORTYPE core_state handle | Get_next core_state handle

definition load_component :: "core_env \<Rightarrow> core_state \<Rightarrow> nat \<Rightarrow> nat \<Rightarrow> string \<Rightarrow> handle \<Rightarrow> get_step option" where
  "load_component env s i refIndex name h =
     (let m = env_dlopen env (''lib'' @ name @ ''.so'')
      in do { pm \<leftarrow> wr (pModules s) i m;
              let s1 = s\<lparr>pModules := pm\<rparr> in
              if m = NULL then Some (Get_unlock OMX_ErrorComponentNotFound s1 h)
              else if \<not> env_dlsym env m then Some (Get_cleanup OMX_ErrorInvalidComponent s1 h)
              else
                let h1 = env_malloc env in
                if h1 = NULL then Some (Get_cleanup OMX_ErrorInsufficientResources s1 h1)
                else
                  do { pc \<leftarrow> wr (pComponents s1) i h1;
                       let s2 = s1\<lparr>pComponents := pc, live := h1 # live s1\<rparr>;
                           err = env_init env h1
                       in if err = OMX_ErrorNone then
                            (if env_setcb env h1 \<noteq> OMX_ErrorNone then Some (Get_cleanup (env_setcb env h1) s2 h1)
                             else do { e \<leftarrow> rd (componentTable s2) refIndex;
                                       sl \<leftarrow> wr (slots e) (nat (refCount e)) h1;
                                       c \<leftarrow> rd sl REFCOUNT;
                                       sl \<leftarrow> wr sl REFCOUNT (c + 1);
                                       tb \<leftarrow> wr (componentTable s2) refIndex (e\<lparr>slots := sl\<rparr>);
                                       Some (Get_unlock OMX_ErrorNone (s2\<lparr>componentTable := tb\<rparr>) h1) })
                          else if err = OMX_ErrorInsufficientResources then Some (Get_cleanup err s2 h1)
                          else Some (Get_next s2 h1) } })"

text \<open>
  The loop over the table. Comparing \<open>refCount\<close> (an \<open>int\<close>) with \<open>maxinstances\<close> (an \<open>OMX_U32\<close>) is
  an unsigned comparison of the two words.
\<close>

primrec get_loop :: "core_env \<Rightarrow> nat \<Rightarrow> string \<Rightarrow> core_state \<Rightarrow> handle \<Rightarrow> nat \<Rightarrow> nat \<Rightarrow> get_step option" where
  "get_loop env i name s h refIndex 0 = Some (Get_cleanup OMX_ErrorComponentNotFound s h)"
| "get_loop env i name s h refIndex (Suc k) =
     do { e \<leftarrow> rd (componentTable s) refIndex;
          n \<leftarrow> ceName e;
          if n = name then
            do { c \<leftarrow> rd (slots e) REFCOUNT;
                 mx \<leftarrow> rd (slots e) MAXINST;
                 if mx \<le> c then Some (Get_unlock OMX_ErrorInsufficientResources s h)
                 else do { r \<leftarrow> load_component env s i refIndex name h;
                           case r of Get_next s' h' \<Rightarrow> get_loop env i name s' h' (Suc refIndex) k
                           | _ \<Rightarrow> Some r } }
          else get_loop env i name s h (Suc refIndex) k }"

definition free_block :: "core_state \<Rightarrow> handle \<Rightarrow> core_state option" where
  "free_block s h = (if h \<in> set (live s) then Some (s\<lparr>live := remove1 h (live s)\<rparr>) else None)"

definition get_cleanup :: "core_state \<Rightarrow> nat \<Rightarrow> handle \<Rightarrow> (core_state \<times> handle) option" where
  "get_cleanup s i h =
     do { s1 \<leftarrow> (if h \<noteq> NULL then free_block s h else Some s);
          pc \<leftarrow> wr (pComponents s1) i NULL;
          pm \<leftarrow> wr (pModules s1) i NULL;
          Some (s1\<lparr>pComponents := pc, pModules := pm\<rparr>, NULL) }"

text \<open>
  \<open>pHandle\<close> is \<^const>\<open>None\<close> for a null pointer and otherwise the value it points to; the result
  has the error, the state and the new value of \<open>*pHandle\<close>.
\<close>

definition TIOMX_GetHandle ::
  "core_env \<Rightarrow> core_state \<Rightarrow> handle option \<Rightarrow> string option \<Rightarrow> bool
     \<Rightarrow> (OMX_ERRORTYPE \<times> core_state \<times> handle option) option" where
  "TIOMX_GetHandle env s pHandle cComponentName callbacks =
     (let unlock = (\<lambda>err s h. Some (if env_unlock env then err else OMX_ErrorUndefined, s, h))
      in if \<not> env_lock env then Some (OMX_ErrorUndefined, s, pHandle)
         else case (cComponentName, pHandle, callbacks) of
           (Some name, Some h, True) \<Rightarrow>
             if MAXNAMESIZE \<le> length name then unlock OMX_ErrorInvalidComponentName s pHandle
             else
               do { m \<leftarrow> scan (\<lambda>x. x = NULL) (pModules s) MAXCOMP;
                    case m of None \<Rightarrow> unlock OMX_ErrorInsufficientResources s pHandle
                    | Some i \<Rightarrow>
                        do { r \<leftarrow> get_loop env i name s h 0 MAX_TABLE_SIZE;
                             case r of
                               Get_unlock err s' h' \<Rightarrow> unlock err s' (Some h')
                             | Get_cleanup err s' h' \<Rightarrow>
                                 do { (s'', h'') \<leftarrow> get_cleanup s' i h'; unlock err s'' (Some h'') }
                             | Get_next s' h' \<Rightarrow> None } }
         | _ \<Rightarrow> unlock OMX_ErrorBadParameter s pHandle)"

subsection \<open>Releasing an instance\<close>

text \<open>
  The inner loop \<open>for (shiftIndex = handleIndex; shiftIndex < refCount; shiftIndex++)\<close>, which
  reads \<open>refCount\<close> again in every iteration. The fuel is the number of words of the entry:
  an iteration beyond them would be a fault.
\<close>

primrec shift_handles :: "u32 list \<Rightarrow> nat \<Rightarrow> nat \<Rightarrow> u32 list option" where
  "shift_handles sl j 0 = None"
| "shift_handles sl j (Suc fuel) =
     do { c \<leftarrow> rd sl REFCOUNT;
          if int j < sint c then
            do { x \<leftarrow> rd sl j;
                 if x \<noteq> NULL then
                   do { y \<leftarrow> rd sl (Suc j);
                        sl1 \<leftarrow> wr sl j y;
                        sl2 \<leftarrow> wr sl1 (Suc j) NULL;
                        shift_handles sl2 (Suc j) fuel }
                 else shift_handles sl (Suc j) fuel }
          else Some sl }"

definition drop_count :: "u32 list \<Rightarrow> u32 list option" where
  "drop_count sl = do { c \<leftarrow> rd sl REFCOUNT; wr sl REFCOUNT (c - 1) }"

definition release_slot :: "u32 list \<Rightarrow> nat \<Rightarrow> u32 list option" where
  "release_slot sl j =
     do { c \<leftarrow> rd sl REFCOUNT;
          if 1 < sint c then
            (if int j < sint c - 1 then do { sl1 \<leftarrow> shift_handles sl j 7; drop_count sl1 }
             else do { sl1 \<leftarrow> wr sl j NULL; drop_count sl1 })
          else do { sl1 \<leftarrow> drop_count sl; wr sl1 j NULL } }"

text \<open>
  The search for the handle among the first \<open>refCount\<close> slots of the entries: entry and slot.
\<close>

primrec find_slot :: "u32 list \<Rightarrow> handle \<Rightarrow> nat \<Rightarrow> nat \<Rightarrow> nat option option" where
  "find_slot sl h j 0 = Some None"
| "find_slot sl h j (Suc k) =
     do { x \<leftarrow> rd sl j; if x = h then Some (Some j) else find_slot sl h (Suc j) k }"

primrec find_handle :: "comp_entry list \<Rightarrow> handle \<Rightarrow> nat \<Rightarrow> nat \<Rightarrow> (nat \<times> nat) option option" where
  "find_handle tb h refIndex 0 = Some None"
| "find_handle tb h refIndex (Suc k) =
     do { e \<leftarrow> rd tb refIndex;
          m \<leftarrow> find_slot (slots e) h 0 (nat (refCount e));
          case m of Some j \<Rightarrow> Some (Some (refIndex, j))
          | None \<Rightarrow> find_handle tb h (Suc refIndex) k }"

definition TIOMX_FreeHandle :: "core_env \<Rightarrow> core_state \<Rightarrow> handle \<Rightarrow> (OMX_ERRORTYPE \<times> core_state) option" where
  "TIOMX_FreeHandle env s hComponent =
     (let unlock = (\<lambda>err s. Some (if env_unlock env then err else OMX_ErrorUndefined, s))
      in if \<not> env_lock env then Some (OMX_ErrorUndefined, s)
         else
           do { m \<leftarrow> scan (\<lambda>x. x = hComponent) (pComponents s) MAXCOMP;
                case m of None \<Rightarrow> unlock OMX_ErrorBadParameter s
                | Some i \<Rightarrow>
                    if hComponent \<notin> set (live s) then None
                    else if env_deinit env hComponent \<noteq> OMX_ErrorNone then unlock (env_deinit env hComponent) s
                    else
                      do { f \<leftarrow> find_handle (componentTable s) hComponent 0 MAX_TABLE_SIZE;
                           case f of None \<Rightarrow> unlock OMX_ErrorComponentNotFound s
                           | Some (refIndex, j) \<Rightarrow>
                               do { e \<leftarrow> rd (componentTable s) refIndex;
                                    sl \<leftarrow> release_slot (slots e) j;
                                    tb \<leftarrow> wr (componentTable s) refIndex (e\<lparr>slots := sl\<rparr>);
                                    pm \<leftarrow> wr (pModules s) i NULL;
                                    c \<leftarrow> rd (pComponents s) i;
                                    s1 \<leftarrow> (if c \<noteq> NULL then free_block s c else Some s);
                                    pc \<leftarrow> wr (pComponents s) i NULL;
                                    unlock OMX_ErrorNone
                                      (s1\<lparr>componentTable := tb, pModules := pm, pComponents := pc\<rparr>) } } })"

subsection \<open>Tunnels\<close>

text \<open>
  A tunnel request to a component: handle, port, peer, peer port, and the \<open>OMX_TUNNELSETUPTYPE\<close>
  it gets (flags and supplier), or \<^const>\<open>None\<close> for a null pointer. The component may change the
  setup, which starts with no flags and \<open>OMX_BufferSupplyUnspecified\<close> (0). \<open>TIOMX_SetupTunnel\<close> returns the error and the requests it made.
\<close>

type_synonym tunnel_setup = "u32 \<times> u32"
type_synonym tunnel_call = "handle \<times> u32 \<times> handle \<times> u32 \<times> tunnel_setup option"
type_synonym tunnel_env = "tunnel_call \<Rightarrow> OMX_ERRORTYPE \<times> tunnel_setup"

definition TIOMX_SetupTunnel ::
  "tunnel_env \<Rightarrow> handle \<Rightarrow> u32 \<Rightarrow> handle \<Rightarrow> u32 \<Rightarrow> OMX_ERRORTYPE \<times> tunnel_call list" where
  "TIOMX_SetupTunnel req hOutput nPortOutput hInput nPortInput =
     (if hOutput = NULL \<and> hInput = NULL then (OMX_ErrorBadParameter, [])
      else
        let setup0 = (0, 0);
            (eError, setup1, calls1) =
              (if hOutput \<noteq> NULL then
                 let c = (hOutput, nPortOutput, hInput, nPortInput, Some setup0); (e, st) = req c in (e, st, [c])
               else (OMX_ErrorNotImplemented, setup0, []))
        in if eError = OMX_ErrorNone \<and> hInput \<noteq> NULL then
             let c = (hInput, nPortInput, hOutput, nPortOutput, Some setup1); (e, st) = req c
             in if e \<noteq> OMX_ErrorNone \<and> hOutput \<noteq> NULL
                then (e, calls1 @ [c, (hOutput, nPortOutput, NULL, 0, None)])
                else (e, calls1 @ [c])
           else (eError, calls1))"

subsection \<open>Names and roles\<close>

definition TIOMX_ComponentNameEnum :: "core_state \<Rightarrow> u32 \<Rightarrow> (OMX_ERRORTYPE \<times> string option) option" where
  "TIOMX_ComponentNameEnum s nIndex =
     (if tableCount s \<le> unat nIndex then Some (OMX_ErrorNoMore, None)
      else do { e \<leftarrow> rd (componentTable s) (unat nIndex); name \<leftarrow> ceName e; Some (OMX_ErrorNone, Some name) })"

text \<open>\<open>for (j = 0; j < nRoles; j++) strcpy(roles[j], pRoleArray[j])\<close>\<close>

primrec copy_roles :: "string option list \<Rightarrow> string list \<Rightarrow> nat \<Rightarrow> nat \<Rightarrow> string list option" where
  "copy_roles rs out j 0 = Some out"
| "copy_roles rs out j (Suc k) =
     do { r \<leftarrow> rd rs j; role \<leftarrow> r; out' \<leftarrow> wr out j role; copy_roles rs out' (Suc j) k }"

text \<open>
  \<open>pNumRoles\<close> and \<open>roles\<close> are \<^const>\<open>None\<close> for null pointers; the result has the error and what
  they hold afterwards.
\<close>

definition TIOMX_GetRolesOfComponent ::
  "core_state \<Rightarrow> string option \<Rightarrow> u32 option \<Rightarrow> string list option
     \<Rightarrow> (OMX_ERRORTYPE \<times> u32 option \<times> string list option) option" where
  "TIOMX_GetRolesOfComponent s cComponentName pNumRoles roles =
     (case (cComponentName, pNumRoles) of
        (Some name, Some num) \<Rightarrow>
          do { m \<leftarrow> find_name_from (componentTable s) name 0 (tableCount s);
               case m of None \<Rightarrow> Some (OMX_ErrorComponentNotFound, pNumRoles, roles)
               | Some i \<Rightarrow>
                   do { e \<leftarrow> rd (componentTable s) i;
                        case roles of None \<Rightarrow> Some (OMX_ErrorNone, Some (ucast (nRoles e)), None)
                        | Some out \<Rightarrow>
                            if unat (nRoles e) \<le> unat num then
                              do { out' \<leftarrow> copy_roles (pRoleArray e) out 0 (unat (nRoles e));
                                   Some (OMX_ErrorNone, Some (ucast (nRoles e)), Some out') }
                            else Some (OMX_ErrorBadParameter, pNumRoles, roles) } }
      | _ \<Rightarrow> Some (OMX_ErrorBadParameter, pNumRoles, roles))"

text \<open>The names of the entries with the role, once per occurrence, in table order.\<close>

primrec role_hits :: "string option list \<Rightarrow> string \<Rightarrow> nat \<Rightarrow> nat \<Rightarrow> nat option" where
  "role_hits rs role j 0 = Some 0"
| "role_hits rs role j (Suc k) =
     do { r \<leftarrow> rd rs j; x \<leftarrow> r; n \<leftarrow> role_hits rs role (Suc j) k; Some (if x = role then Suc n else n) }"

primrec comps_of_role :: "comp_entry list \<Rightarrow> string \<Rightarrow> nat \<Rightarrow> nat \<Rightarrow> string list option" where
  "comps_of_role tb role i 0 = Some []"
| "comps_of_role tb role i (Suc k) =
     do { e \<leftarrow> rd tb i;
          n \<leftarrow> role_hits (pRoleArray e) role 0 (unat (nRoles e));
          name \<leftarrow> (if n = 0 then Some [] else ceName e);
          rest \<leftarrow> comps_of_role tb role (Suc i) k;
          Some (replicate n name @ rest) }"

primrec store_names :: "string list \<Rightarrow> string list \<Rightarrow> nat \<Rightarrow> string list option" where
  "store_names [] out k = Some out"
| "store_names (x # xs) out k = do { out' \<leftarrow> wr out k x; store_names xs out' (Suc k) }"

definition TIOMX_GetComponentsOfRole ::
  "core_state \<Rightarrow> string option \<Rightarrow> u32 option \<Rightarrow> string list option
     \<Rightarrow> (OMX_ERRORTYPE \<times> u32 option \<times> string list option) option" where
  "TIOMX_GetComponentsOfRole s role pNumComps compNames =
     (case (role, pNumComps) of
        (Some r, Some num) \<Rightarrow>
          if tableCount s = 0 then Some (OMX_ErrorUndefined, pNumComps, compNames)
          else
            do { cs \<leftarrow> comps_of_role (componentTable s) r 0 (tableCount s);
                 let compOfRoleCount = length cs;
                     eError = (if compOfRoleCount = 0 then OMX_ErrorComponentNotFound else OMX_ErrorNone)
                 in case compNames of None \<Rightarrow> Some (eError, Some (of_nat compOfRoleCount), None)
                    | Some out \<Rightarrow>
                        if unat num < compOfRoleCount then Some (OMX_ErrorBadParameter, pNumComps, compNames)
                        else do { out' \<leftarrow> store_names cs out 0;
                                  Some (eError, if compOfRoleCount = 0 then pNumComps else Some (of_nat compOfRoleCount),
                                        Some out') } }
      | _ \<Rightarrow> Some (OMX_ErrorBadParameter, pNumComps, compNames))"

subsection \<open>The table as a list of components\<close>

text \<open>
  What the table should hold: one entry per name in the order of first occurrence, with the
  roles of all its rows, as long as the table is not full.
\<close>

type_synonym comp_abs = "string \<times> string list \<times> u32"

definition role_list :: "string option \<Rightarrow> string list" where
  "role_list r = (case r of None \<Rightarrow> [] | Some x \<Rightarrow> [x])"

definition spec_row :: "comp_abs list \<Rightarrow> comp_row \<Rightarrow> comp_abs list" where
  "spec_row acc row =
     (case row of (name, role, inst) \<Rightarrow>
       if length acc < MAX_TABLE_SIZE then
         case first_index (\<lambda>x. fst x = name) acc of
           Some j \<Rightarrow> acc[j := (fst (acc ! j), fst (snd (acc ! j)) @ role_list role, snd (snd (acc ! j)))]
         | None \<Rightarrow> acc @ [(name, role_list role, inst)]
       else acc)"

definition spec_rows :: "comp_abs list \<Rightarrow> comp_row list \<Rightarrow> comp_abs list" where
  "spec_rows acc rows = foldl spec_row acc rows"

definition entry_of :: "comp_abs \<Rightarrow> comp_entry" where
  "entry_of x = \<lparr>ceName = Some (fst x), nRoles = of_nat (length (fst (snd x))),
     pRoleArray = map Some (fst (snd x)) @ replicate (MAX_ROLES - length (fst (snd x))) None,
     slots = [0, 0, 0, 0, 0, snd (snd x)]\<rparr>"

definition table_of :: "comp_abs list \<Rightarrow> comp_entry list" where
  "table_of acc = map entry_of acc @ replicate (MAX_TABLE_SIZE - length acc) comp_entry0"

text \<open>No component has more than five roles: the fifth already clears \<open>refCount\<close> through \<open>pHandle[4]\<close>.\<close>

definition few_roles :: "comp_abs list \<Rightarrow> bool" where
  "few_roles acc \<longleftrightarrow> (\<forall>x \<in> set acc. length (fst (snd x)) \<le> 5)"

lemma find_name_from_closed:
  "i + k \<le> length tb \<Longrightarrow> \<forall>e \<in> set (take k (drop i tb)). ceName e \<noteq> None \<Longrightarrow>
   find_name_from tb s i k = Some (map_option (\<lambda>j. i + j) (first_index (\<lambda>e. ceName e = Some s) (take k (drop i tb))))"
proof (induction k arbitrary: i)
  case 0
  then show ?case by simp
next
  case (Suc k)
  then have i: "i < length tb" by simp
  then have d: "drop i tb = tb ! i # drop (Suc i) tb" by (rule Cons_nth_drop_Suc [symmetric])
  with Suc.prems obtain n where n: "ceName (tb ! i) = Some n" by auto
  from Suc.IH [of "Suc i"] Suc.prems i d n show ?case
    by (auto simp: option.map_comp comp_def)
qed

lemma find_name_table:
  assumes "length acc \<le> MAX_TABLE_SIZE"
  shows "find_name_from (table_of acc) s 0 (length acc) = Some (first_index (\<lambda>x. fst x = s) acc)"
proof -
  have t: "take (length acc) (table_of acc) = map entry_of acc" by (simp add: table_of_def)
  have "find_name_from (table_of acc) s 0 (length acc)
      = Some (map_option (\<lambda>j. 0 + j) (first_index (\<lambda>e. ceName e = Some s) (take (length acc) (drop 0 (table_of acc)))))"
    using assms t by (intro find_name_from_closed) (simp_all add: table_of_def entry_of_def)
  also have "\<dots> = Some (first_index (\<lambda>x. fst x = s) acc)"
    by (simp add: t first_index_map comp_def entry_of_def option.map_ident)
  finally show ?thesis .
qed

lemma new_entry_of: "new_entry comp_entry0 (n, r, mx) = Some (entry_of (n, role_list r, mx))"
  by (cases r) (simp_all add: new_entry_def comp_entry0_def entry_of_def role_list_def numeral_eq_Suc)

lemma add_role_of:
  assumes "length (fst (snd x)) < 5"
  shows "add_role (entry_of x) r = Some (entry_of (fst x, fst (snd x) @ [r], snd (snd x)))"
proof -
  let ?n = "length (fst (snd x))"
  have u: "unat (of_nat ?n :: u16) = ?n" using assms by (simp add: unat_of_nat)
  have "[0, 0, 0, 0, 0, mx][?n := 0] = [0, 0, 0, 0, 0, mx]" for mx :: u32
    using assms by (auto simp: less_Suc_eq numeral_eq_Suc)
  moreover have "replicate (MAX_ROLES - ?n) (None :: string option) = None # replicate (MAX_ROLES - Suc ?n) None"
    using assms by (simp add: replicate_Suc [symmetric] Suc_diff_Suc del: replicate_Suc)
  ultimately show ?thesis
    using assms u by (simp add: add_role_def entry_of_def list_update_append)
qed

lemma spec_row_mono:
  assumes "i < length acc"
  shows "i < length (spec_row acc row) \<and> length (fst (snd (acc ! i))) \<le> length (fst (snd (spec_row acc row ! i)))"
proof -
  obtain n r mx where row: "row = (n, r, mx)" by (cases row)
  have "length (fst (snd (acc ! i))) \<le> length (fst (snd (acc[j := (fst (acc ! j), fst (snd (acc ! j)) @ role_list r, snd (snd (acc ! j)))] ! i)))" for j
    using assms by (cases "i = j") simp_all
  with assms show ?thesis by (simp add: spec_row_def row nth_append split: option.splits)
qed

lemma few_roles_before:
  assumes "few_roles (spec_row acc row)"
  shows "few_roles acc"
  unfolding few_roles_def
proof
  fix x assume "x \<in> set acc"
  then obtain i where i: "i < length acc" "x = acc ! i" by (auto simp: in_set_conv_nth)
  note m = spec_row_mono [OF i(1), of row]
  then have "spec_row acc row ! i \<in> set (spec_row acc row)" by simp
  with assms have "length (fst (snd (spec_row acc row ! i))) \<le> 5" unfolding few_roles_def by blast
  with m i(2) show "length (fst (snd x)) \<le> 5" by simp
qed

lemma spec_row_length: "length acc \<le> MAX_TABLE_SIZE \<Longrightarrow> length (spec_row acc row) \<le> MAX_TABLE_SIZE"
  by (auto simp: spec_row_def split: prod.splits option.splits)

lemma few_roles_after: "few_roles (spec_rows acc rows) \<Longrightarrow> few_roles acc"
  by (induction rows arbitrary: acc) (auto simp: spec_rows_def dest: few_roles_before)

lemma table_of_nth: "j < length acc \<Longrightarrow> table_of acc ! j = entry_of (acc ! j)"
  by (simp add: table_of_def nth_append)

lemma table_of_update: "j < length acc \<Longrightarrow> (table_of acc)[j := entry_of x] = table_of (acc[j := x])"
  by (simp add: table_of_def list_update_append map_update)

lemma table_of_length: "length acc \<le> MAX_TABLE_SIZE \<Longrightarrow> length (table_of acc) = MAX_TABLE_SIZE"
  by (simp add: table_of_def)

lemma table_of_snoc:
  assumes "length acc < MAX_TABLE_SIZE"
  shows "(table_of acc)[length acc := entry_of x] = table_of (acc @ [x])" "table_of acc ! length acc = comp_entry0"
proof -
  have "replicate (MAX_TABLE_SIZE - length acc) comp_entry0 = comp_entry0 # replicate (MAX_TABLE_SIZE - Suc (length acc)) comp_entry0"
    using assms by (simp add: replicate_Suc [symmetric] Suc_diff_Suc del: replicate_Suc)
  then show "(table_of acc)[length acc := entry_of x] = table_of (acc @ [x])"
    "table_of acc ! length acc = comp_entry0"
    by (simp_all add: table_of_def list_update_append nth_append)
qed

lemma build_row_refines:
  assumes "length acc \<le> MAX_TABLE_SIZE" and "few_roles (spec_row acc row)"
  shows "build_row (table_of acc, length acc) row = Some (table_of (spec_row acc row), length (spec_row acc row))"
proof -
  obtain n r mx where row: "row = (n, r, mx)" by (cases row)
  show ?thesis
  proof (cases "length acc < MAX_TABLE_SIZE")
    case False
    then show ?thesis by (simp add: build_row_def spec_row_def row)
  next
    case True
    note l = table_of_length [OF assms(1)]
    show ?thesis
    proof (cases "first_index (\<lambda>x. fst x = n) acc")
      case None
      with True assms(1) l new_entry_of [of n r mx] table_of_snoc [OF True] show ?thesis
        by (simp add: build_row_def spec_row_def row find_name_table)
    next
      case (Some j)
      then have j: "j < length acc" by (auto dest: first_index_Some)
      let ?x = "(fst (acc ! j), fst (snd (acc ! j)) @ role_list r, snd (snd (acc ! j)))"
      have sp: "spec_row acc row = acc[j := ?x]" using True Some by (simp add: spec_row_def row)
      show ?thesis
      proof (cases r)
        case None
        then have "acc[j := ?x] = acc" using j by (simp add: role_list_def)
        with None sp True Some assms(1) show ?thesis
          by (simp add: build_row_def row find_name_table)
      next
        case (Some role)
        have "?x \<in> set (spec_row acc row)" using sp j by (simp add: set_update_memI)
        then have "length (fst (snd (acc ! j))) < 5"
          using assms(2) Some by (auto simp: few_roles_def role_list_def)
        note a = add_role_of [OF this, of role]
        from j assms(1) have "j < MAX_TABLE_SIZE" by simp
        with a j l Some sp True \<open>first_index _ acc = Some j\<close> assms(1) show ?thesis
          by (simp add: build_row_def row find_name_table table_of_nth table_of_update role_list_def)
      qed
    qed
  qed
qed

lemma build_rows_refines:
  "length acc \<le> MAX_TABLE_SIZE \<Longrightarrow> few_roles (spec_rows acc rows) \<Longrightarrow>
   build_rows (table_of acc, length acc) rows = Some (table_of (spec_rows acc rows), length (spec_rows acc rows))"
proof (induction rows arbitrary: acc)
  case Nil
  then show ?case by (simp add: spec_rows_def)
next
  case (Cons row rows)
  have s: "spec_rows acc (row # rows) = spec_rows (spec_row acc row) rows" by (simp add: spec_rows_def)
  with Cons.prems have f: "few_roles (spec_row acc row)" using few_roles_after by metis
  from build_row_refines [OF Cons.prems(1) f] Cons.IH [of "spec_row acc row"] Cons.prems s spec_row_length
  show ?case by simp
qed

lemma spec_rows_length: "length acc \<le> MAX_TABLE_SIZE \<Longrightarrow> length (spec_rows acc rows) \<le> MAX_TABLE_SIZE"
  by (induction rows arbitrary: acc) (auto simp: spec_rows_def spec_row_length)

lemma Init_refines:
  assumes "few_roles (spec_rows [] rows)" and "env_lock env" and "env_unlock env"
  shows "TIOMX_Init rows env core_init = Some (OMX_ErrorNone,
    core_init\<lparr>core_count := 1, componentTable := table_of (spec_rows [] rows), tableCount := length (spec_rows [] rows)\<rparr>)"
  using build_rows_refines [of "[]" rows] assms
  by (simp add: TIOMX_Init_def TIOMX_BuildComponentTable_def core_init_def table_of_def)

subsection \<open>Instances\<close>

text \<open>
  The six words of an entry that holds the instances \<open>hs\<close>, and the invariant of the core:
  every live instance is in one table entry and one component slot, in the order of creation,
  and no entry holds more instances than its limit.
\<close>

definition mk_slots :: "handle list \<Rightarrow> u32 \<Rightarrow> u32 list" where
  "mk_slots hs mx = hs @ replicate (4 - length hs) NULL @ [of_nat (length hs), mx]"

definition handles :: "comp_entry \<Rightarrow> handle list" where
  "handles e = take (unat (slots e ! REFCOUNT)) (slots e)"

definition entry_ok :: "comp_entry \<Rightarrow> bool" where
  "entry_ok e \<longleftrightarrow> slots e = mk_slots (handles e) (maxinstances e) \<and> length (handles e) \<le> unat (maxinstances e)
     \<and> unat (maxinstances e) \<le> 4 \<and> NULL \<notin> set (handles e) \<and> ceName e \<noteq> None"

definition held :: "comp_entry list \<Rightarrow> handle list" where
  "held tb = concat (map handles tb)"

definition core_wf :: "core_state \<Rightarrow> bool" where
  "core_wf s \<longleftrightarrow> length (pModules s) = MAXCOMP \<and> length (pComponents s) = MAXCOMP
     \<and> length (componentTable s) = MAX_TABLE_SIZE
     \<and> (\<forall>e \<in> set (componentTable s). entry_ok e)
     \<and> distinct (map ceName (componentTable s))
     \<and> (\<forall>i < MAXCOMP. pModules s ! i = NULL \<longleftrightarrow> pComponents s ! i = NULL)
     \<and> mset (held (componentTable s)) = mset (live s)
     \<and> mset (filter (\<lambda>h. h \<noteq> NULL) (pComponents s)) = mset (live s)
     \<and> distinct (live s) \<and> NULL \<notin> set (live s)"

lemma mk_slots_nth:
  assumes "length hs \<le> 4"
  shows "length (mk_slots hs mx) = 6" "mk_slots hs mx ! 4 = of_nat (length hs)" "mk_slots hs mx ! 5 = mx"
proof -
  let ?p = "hs @ replicate (4 - length hs) NULL"
  have p: "length ?p = 4" using assms by simp
  have e: "mk_slots hs mx = ?p @ [of_nat (length hs), mx]" by (simp add: mk_slots_def)
  show "length (mk_slots hs mx) = 6" using p by (simp add: e)
  show "mk_slots hs mx ! 4 = of_nat (length hs)" "mk_slots hs mx ! 5 = mx"
    unfolding e nth_append p by simp_all
qed

lemma mk_slots_add:
  assumes "length hs < 4"
  shows "((mk_slots hs mx)[length hs := h])[REFCOUNT := of_nat (length hs) + 1] = mk_slots (hs @ [h]) mx"
proof -
  have r: "replicate (4 - length hs) NULL = NULL # replicate (3 - length hs) NULL"
    using assms by (simp add: replicate_Suc [symmetric] Suc_diff_le del: replicate_Suc)
  have "(mk_slots hs mx)[length hs := h] = hs @ h # replicate (3 - length hs) NULL @ [of_nat (length hs), mx]"
    by (simp add: mk_slots_def r)
  moreover have "length (hs @ h # replicate (3 - length hs) NULL) = 4" using assms by simp
  ultimately have "((mk_slots hs mx)[length hs := h])[REFCOUNT := of_nat (length hs) + 1]
      = hs @ h # replicate (3 - length hs) NULL @ [of_nat (length hs) + 1, mx]"
    using list_update_length [of "hs @ h # replicate (3 - length hs) NULL" "of_nat (length hs)" "[mx]"] by simp
  then show ?thesis using assms by (simp add: mk_slots_def add.commute)
qed

lemma handles_mk: "length hs \<le> 4 \<Longrightarrow> handles (e\<lparr>slots := mk_slots hs mx\<rparr>) = hs"
  by (simp add: handles_def mk_slots_nth unat_of_nat) (simp add: mk_slots_def)

lemma entry_ok_mk:
  "length hs \<le> unat mx \<Longrightarrow> unat mx \<le> 4 \<Longrightarrow> NULL \<notin> set hs \<Longrightarrow> ceName e \<noteq> None \<Longrightarrow> entry_ok (e\<lparr>slots := mk_slots hs mx\<rparr>)"
  using handles_mk [of hs mx e] mk_slots_nth(3) [of hs mx] by (simp add: entry_ok_def maxinstances_def)

lemma sint_of_nat_small: "n \<le> 4 \<Longrightarrow> sint (of_nat n :: u32) = int n"
proof -
  assume "n \<le> 4"
  then have "n \<in> {0, 1, 2, 3, 4}" by auto
  then show ?thesis by auto
qed

lemma entry_ok_facts:
  assumes "entry_ok e"
  shows "length (slots e) = 6" "slots e ! REFCOUNT = of_nat (length (handles e))" "slots e ! MAXINST = maxinstances e"
    "refCount e = int (length (handles e))" "length (handles e) \<le> 4"
    "maxinstances e \<le> slots e ! REFCOUNT \<longleftrightarrow> length (handles e) = unat (maxinstances e)"
proof -
  have l: "length (handles e) \<le> 4" and s: "slots e = mk_slots (handles e) (maxinstances e)"
    and m: "length (handles e) \<le> unat (maxinstances e)"
    using assms by (simp_all add: entry_ok_def)
  show "length (handles e) \<le> 4" by (rule l)
  show "length (slots e) = 6" "slots e ! REFCOUNT = of_nat (length (handles e))"
    using mk_slots_nth [OF l] s by metis+
  then show "refCount e = int (length (handles e))"
    using l by (simp add: refCount_def sint_of_nat_small)
  show "slots e ! MAXINST = maxinstances e" by (simp add: maxinstances_def)
  have "unat (of_nat (length (handles e)) :: u32) = length (handles e)" using l by (simp add: unat_of_nat)
  then show "maxinstances e \<le> slots e ! REFCOUNT \<longleftrightarrow> length (handles e) = unat (maxinstances e)"
    using m \<open>slots e ! REFCOUNT = _\<close> by (auto simp: word_le_nat_alt)
qed

subsection \<open>The instances of the table\<close>

lemma held_update:
  assumes "r < length tb" and "tb ! r = e"
  shows "mset (held (tb[r := e'])) + mset (handles e) = mset (held tb) + mset (handles e')"
proof -
  have "tb = take r tb @ e # drop (Suc r) tb" using id_take_nth_drop [OF assms(1)] assms(2) by simp
  moreover have "tb[r := e'] = take r tb @ e' # drop (Suc r) tb" using assms(1) by (rule upd_conv_take_nth_drop)
  ultimately have "held tb = held (take r tb) @ handles e @ held (drop (Suc r) tb)"
    "held (tb[r := e']) = held (take r tb) @ handles e' @ held (drop (Suc r) tb)"
    by (metis concat.simps(2) concat_append held_def list.simps(9) map_append)+
  then show ?thesis by simp
qed

lemma filter_update_mset:
  assumes "i < length xs" and "\<not> P (xs ! i)" and "P y"
  shows "mset (filter P (xs[i := y])) = add_mset y (mset (filter P xs))"
proof -
  have "xs = take i xs @ xs ! i # drop (Suc i) xs" using assms(1) by (rule id_take_nth_drop)
  then have "filter P xs = filter P (take i xs) @ filter P (drop (Suc i) xs)"
    using assms(2) by (metis (no_types, lifting) filter.simps(2) filter_append)
  then show ?thesis using assms by (simp add: upd_conv_take_nth_drop)
qed

lemma core_wf_entry: "core_wf s \<Longrightarrow> r < MAX_TABLE_SIZE \<Longrightarrow> entry_ok (componentTable s ! r)"
  by (simp add: core_wf_def)

lemma core_wf_free_slot:
  assumes "core_wf s" and "first_index (\<lambda>x. x = NULL) (pModules s) = Some i"
  shows "i < MAXCOMP" "pModules s ! i = NULL" "pComponents s ! i = NULL"
  using assms first_index_Some [OF assms(2)] by (auto simp: core_wf_def)

text \<open>The state after a successful creation in component slot \<open>i\<close> and entry \<open>r\<close>.\<close>

definition created :: "core_env \<Rightarrow> core_state \<Rightarrow> nat \<Rightarrow> nat \<Rightarrow> string \<Rightarrow> core_state" where
  "created env s i r name =
     (let e = componentTable s ! r
      in s\<lparr>pModules := (pModules s)[i := env_dlopen env (''lib'' @ name @ ''.so'')],
           pComponents := (pComponents s)[i := env_malloc env], live := env_malloc env # live s,
           componentTable := (componentTable s)[r := e\<lparr>slots := mk_slots (handles e @ [env_malloc env]) (maxinstances e)\<rparr>]\<rparr>)"

text \<open>What the environment must do for a creation to succeed; \<open>malloc\<close> returns a block that is not in use.\<close>

definition loads :: "core_env \<Rightarrow> string \<Rightarrow> bool" where
  "loads env name \<longleftrightarrow>
     (let m = env_dlopen env (''lib'' @ name @ ''.so''); h = env_malloc env
      in m \<noteq> NULL \<and> env_dlsym env m \<and> h \<noteq> NULL \<and> env_init env h = OMX_ErrorNone \<and> env_setcb env h = OMX_ErrorNone)"

definition fresh :: "core_env \<Rightarrow> core_state \<Rightarrow> bool" where
  "fresh env s \<longleftrightarrow> env_malloc env \<notin> set (live s)"

lemma created_wf:
  assumes w: "core_wf s" and i: "i < MAXCOMP" "pModules s ! i = NULL" "pComponents s ! i = NULL"
    and r: "r < MAX_TABLE_SIZE" and n: "length (handles (componentTable s ! r)) < unat (maxinstances (componentTable s ! r))"
    and l: "loads env name" and f: "fresh env s"
  shows "core_wf (created env s i r name)"
    "handles (componentTable (created env s i r name) ! r) = handles (componentTable s ! r) @ [env_malloc env]"
proof -
  let ?e = "componentTable s ! r" and ?h = "env_malloc env"
  let ?e' = "?e\<lparr>slots := mk_slots (handles ?e @ [?h]) (maxinstances ?e)\<rparr>"
  have ok: "entry_ok ?e" using w r by (rule core_wf_entry)
  have h: "?h \<noteq> NULL" "env_dlopen env (''lib'' @ name @ ''.so'') \<noteq> NULL" using l by (auto simp: loads_def Let_def)
  have m: "unat (maxinstances ?e) \<le> 4" using ok by (simp add: entry_ok_def)
  have ok': "entry_ok ?e'"
    using ok n h m by (intro entry_ok_mk) (auto simp: entry_ok_def)
  have hs: "handles ?e' = handles ?e @ [?h]" using n m by (intro handles_mk) simp
  have tb: "r < length (componentTable s)" using w r by (simp add: core_wf_def)
  have "mset (held ((componentTable s)[r := ?e'])) = add_mset ?h (mset (live s))"
    using held_update [OF tb refl, of ?e'] w by (simp add: hs core_wf_def)
  moreover have "mset (filter (\<lambda>h. h \<noteq> NULL) ((pComponents s)[i := ?h])) = add_mset ?h (mset (live s))"
    using w i h by (subst filter_update_mset) (simp_all add: core_wf_def)
  moreover have "map ceName ((componentTable s)[r := ?e']) = map ceName (componentTable s)"
    using tb by (simp add: map_update list_update_same_conv)
  moreover have "\<forall>e \<in> set ((componentTable s)[r := ?e']). entry_ok e"
    using w ok' by (auto simp: core_wf_def dest!: set_update_subset_insert [THEN subsetD])
  ultimately show "core_wf (created env s i r name)"
    using w i h f by (auto simp: core_wf_def created_def Let_def fresh_def nth_list_update)
  show "handles (componentTable (created env s i r name) ! r) = handles ?e @ [?h]"
    using tb hs by (simp add: created_def Let_def)
qed

definition named_table :: "core_state \<Rightarrow> bool" where
  "named_table s \<longleftrightarrow> length (componentTable s) = MAX_TABLE_SIZE \<and> (\<forall>e \<in> set (componentTable s). ceName e \<noteq> None)"

lemma core_wf_named: "core_wf s \<Longrightarrow> named_table s"
  by (auto simp: core_wf_def named_table_def entry_ok_def)

lemma get_loop_miss:
  assumes "named_table s"
  shows "refIndex + k \<le> MAX_TABLE_SIZE \<Longrightarrow>
    (\<forall>q. refIndex \<le> q \<and> q < refIndex + k \<longrightarrow> ceName (componentTable s ! q) \<noteq> Some name) \<Longrightarrow>
    get_loop env i name s h refIndex k = Some (Get_cleanup OMX_ErrorComponentNotFound s h)"
proof (induction k arbitrary: refIndex)
  case 0
  then show ?case by simp
next
  case (Suc k)
  then have l: "refIndex < length (componentTable s)" using assms by (simp add: named_table_def)
  then obtain n where "ceName (componentTable s ! refIndex) = Some n"
    using assms nth_mem [OF l] by (fastforce simp: named_table_def)
  with Suc.prems(2) [rule_format, of refIndex] have "rd (componentTable s) refIndex = Some (componentTable s ! refIndex)"
    "ceName (componentTable s ! refIndex) = Some n" "n \<noteq> name" using l by auto
  with Suc.IH [of "Suc refIndex"] Suc.prems show ?case by simp
qed

lemma get_loop_hit:
  assumes "named_table s" and "r < MAX_TABLE_SIZE" and "ceName (componentTable s ! r) = Some name"
    and "\<forall>q < r. ceName (componentTable s ! q) \<noteq> Some name"
  shows "refIndex \<le> r \<Longrightarrow> r < refIndex + k \<Longrightarrow> refIndex + k \<le> MAX_TABLE_SIZE \<Longrightarrow>
    get_loop env i name s h refIndex k = get_loop env i name s h r (refIndex + k - r)"
proof (induction k arbitrary: refIndex)
  case 0
  then show ?case by simp
next
  case (Suc k)
  show ?case
  proof (cases "refIndex = r")
    case True
    then show ?thesis by simp
  next
    case False
    then have l: "refIndex < length (componentTable s)" "refIndex < r"
      using Suc.prems assms(1,2) by (simp_all add: named_table_def)
    then obtain n where "ceName (componentTable s ! refIndex) = Some n"
      using assms(1) nth_mem [OF l(1)] by (fastforce simp: named_table_def)
    with assms(4) l have "rd (componentTable s) refIndex = Some (componentTable s ! refIndex)"
      "ceName (componentTable s ! refIndex) = Some n" "n \<noteq> name" by auto
    with Suc.IH [of "Suc refIndex"] Suc.prems l show ?thesis by simp
  qed
qed

lemma restore_slot: "xs ! i = (NULL :: handle) \<Longrightarrow> xs[i := NULL] = xs"
  by (metis list_update_id)

lemma restore_after: "xs ! i = (NULL :: handle) \<Longrightarrow> (xs[i := y])[i := NULL] = xs"
  by (simp add: restore_slot)

lemma load_component_ok:
  assumes w: "core_wf s" and i: "i < MAXCOMP" and r: "r < MAX_TABLE_SIZE"
    and n: "length (handles (componentTable s ! r)) < unat (maxinstances (componentTable s ! r))"
    and l: "loads env name"
  shows "load_component env s i r name h = Some (Get_unlock OMX_ErrorNone (created env s i r name) (env_malloc env))"
proof -
  let ?e = "componentTable s ! r" and ?h = "env_malloc env"
  have ok: "entry_ok ?e" using w r by (rule core_wf_entry)
  note f = entry_ok_facts [OF ok]
  have lens: "length (pModules s) = MAXCOMP" "length (pComponents s) = MAXCOMP" "length (componentTable s) = MAX_TABLE_SIZE"
    using w by (simp_all add: core_wf_def)
  have n4: "length (handles ?e) < 4" using n ok by (auto simp: entry_ok_def)
  have sl: "((slots ?e)[length (handles ?e) := ?h])[REFCOUNT := of_nat (length (handles ?e)) + 1]
      = mk_slots (handles ?e @ [?h]) (maxinstances ?e)"
    using mk_slots_add [OF n4] ok by (simp add: entry_ok_def)
  have c: "(slots ?e)[length (handles ?e) := ?h] ! REFCOUNT = of_nat (length (handles ?e))"
    using f n4 by simp
  show ?thesis
    using l i r lens f(1,4) n4 c sl
    by (simp add: load_component_def loads_def Let_def created_def)
qed

lemma load_component_fails:
  assumes w: "core_wf s" and i: "i < MAXCOMP" "pModules s ! i = NULL" "pComponents s ! i = NULL"
    and l: "\<not> loads env name" and f: "fresh env s"
  shows "(\<exists>err. load_component env s i r name NULL = Some (Get_unlock err s NULL) \<and> err \<noteq> OMX_ErrorNone)
    \<or> (\<exists>err s' h'. load_component env s i r name NULL = Some (Get_cleanup err s' h') \<and> err \<noteq> OMX_ErrorNone
        \<and> get_cleanup s' i h' = Some (s, NULL))
    \<or> (\<exists>s' h'. load_component env s i r name NULL = Some (Get_next s' h') \<and> componentTable s' = componentTable s
        \<and> get_cleanup s' i h' = Some (s, NULL))"
proof -
  let ?m = "env_dlopen env (''lib'' @ name @ ''.so'')" and ?h = "env_malloc env"
  have lens: "length (pModules s) = MAXCOMP" "length (pComponents s) = MAXCOMP" using w by (simp_all add: core_wf_def)
  note u = restore_slot [OF i(2)] restore_slot [OF i(3)] restore_after [OF i(2)] restore_after [OF i(3)]
  consider "?m = NULL" | "?m \<noteq> NULL" "\<not> env_dlsym env ?m" | "?m \<noteq> NULL" "env_dlsym env ?m" "?h = NULL"
    | "?m \<noteq> NULL" "env_dlsym env ?m" "?h \<noteq> NULL" "env_init env ?h = OMX_ErrorNone" "env_setcb env ?h \<noteq> OMX_ErrorNone"
    | "?m \<noteq> NULL" "env_dlsym env ?m" "?h \<noteq> NULL" "env_init env ?h \<noteq> OMX_ErrorNone"
    using l by (auto simp: loads_def Let_def)
  then show ?thesis
    by cases (use i lens u in \<open>auto simp: load_component_def get_cleanup_def free_block_def Let_def\<close>)
qed

definition comp_index :: "core_state \<Rightarrow> string \<Rightarrow> nat option" where
  "comp_index s name = first_index (\<lambda>e. ceName e = Some name) (componentTable s)"

definition free_slot :: "core_state \<Rightarrow> nat option" where
  "free_slot s = first_index (\<lambda>x. x = NULL) (pModules s)"

lemma comp_index_Some:
  assumes "core_wf s" and "comp_index s name = Some r"
  shows "r < MAX_TABLE_SIZE" "ceName (componentTable s ! r) = Some name"
    "\<forall>q < MAX_TABLE_SIZE. q \<noteq> r \<longrightarrow> ceName (componentTable s ! q) \<noteq> Some name"
proof -
  have l: "length (componentTable s) = MAX_TABLE_SIZE" "distinct (map ceName (componentTable s))"
    using assms(1) by (simp_all add: core_wf_def)
  from first_index_Some [OF assms(2) [unfolded comp_index_def]] l(1)
  show r: "r < MAX_TABLE_SIZE" and n: "ceName (componentTable s ! r) = Some name" by simp_all
  show "\<forall>q < MAX_TABLE_SIZE. q \<noteq> r \<longrightarrow> ceName (componentTable s ! q) \<noteq> Some name"
  proof (intro allI impI)
    fix q assume q: "q < MAX_TABLE_SIZE" "q \<noteq> r"
    have "map ceName (componentTable s) ! q \<noteq> map ceName (componentTable s) ! r"
      using l q r by (subst nth_eq_iff_index_eq) simp_all
    then show "ceName (componentTable s ! q) \<noteq> Some name" using n l(1) q r by simp
  qed
qed

lemma get_loop_spec:
  assumes w: "core_wf s" and i: "free_slot s = Some i" and r: "comp_index s name = Some r" and f: "fresh env s"
  shows "(if length (handles (componentTable s ! r)) < unat (maxinstances (componentTable s ! r)) \<and> loads env name
      then get_loop env i name s NULL 0 MAX_TABLE_SIZE
        = Some (Get_unlock OMX_ErrorNone (created env s i r name) (env_malloc env))
      else (\<exists>err. get_loop env i name s NULL 0 MAX_TABLE_SIZE = Some (Get_unlock err s NULL) \<and> err \<noteq> OMX_ErrorNone)
        \<or> (\<exists>err s' h'. get_loop env i name s NULL 0 MAX_TABLE_SIZE = Some (Get_cleanup err s' h') \<and> err \<noteq> OMX_ErrorNone
            \<and> get_cleanup s' i h' = Some (s, NULL)))"
proof -
  let ?e = "componentTable s ! r"
  note c = comp_index_Some [OF w r] and sl = core_wf_free_slot [OF w i [unfolded free_slot_def]]
  have "get_loop env i name s NULL 0 MAX_TABLE_SIZE = get_loop env i name s NULL r (0 + MAX_TABLE_SIZE - r)"
    using c by (intro get_loop_hit core_wf_named w) auto
  moreover obtain k where k: "0 + MAX_TABLE_SIZE - r = Suc k" "Suc r + k = MAX_TABLE_SIZE"
    using c(1) that [of "MAX_TABLE_SIZE - Suc r"] by simp
  ultimately have g: "get_loop env i name s NULL 0 MAX_TABLE_SIZE = get_loop env i name s NULL r (Suc k)"
    by (simp only:)
  have ok: "entry_ok ?e" using w c(1) by (rule core_wf_entry)
  note ef = entry_ok_facts [OF ok]
  have rd: "rd (componentTable s) r = Some ?e" using w c(1) by (simp add: core_wf_def)
  have full: "length (handles ?e) < unat (maxinstances ?e) \<longleftrightarrow> \<not> maxinstances ?e \<le> slots ?e ! REFCOUNT"
    using ok ef(6) by (auto simp: entry_ok_def)
  show ?thesis
  proof (cases "length (handles ?e) < unat (maxinstances ?e)")
    case False
    with g c(2) ef(1-3) rd full show ?thesis by simp
  next
    case True
    have h: "get_loop env i name s NULL 0 MAX_TABLE_SIZE = do { x \<leftarrow> load_component env s i r name NULL;
        case x of Get_next s' h' \<Rightarrow> get_loop env i name s' h' (Suc r) k | _ \<Rightarrow> Some x }"
      using g c(2) ef(1-3) rd full True by simp
    show ?thesis
    proof (cases "loads env name")
      case l: True
      with h True load_component_ok [OF w sl(1) c(1) True l] show ?thesis by simp
    next
      case l: False
      have "get_loop env i name s' h' (Suc r) k = Some (Get_cleanup OMX_ErrorComponentNotFound s' h')"
        if "componentTable s' = componentTable s" for s' h'
        using that core_wf_named [OF w] c(1,3) k(2) by (intro get_loop_miss) (auto simp: named_table_def)
      with h l load_component_fails [OF w sl l f, of r] show ?thesis by auto
    qed
  qed
qed

lemma free_slot_scan: "core_wf s \<Longrightarrow> scan (\<lambda>x. x = NULL) (pModules s) MAXCOMP = Some (free_slot s)"
  by (simp add: scan_closed free_slot_def core_wf_def)

lemma GetHandle_spec:
  assumes w: "core_wf s" and e: "env_lock env" "env_unlock env" and n: "length name < MAXNAMESIZE"
    and i: "free_slot s = Some i" and r: "comp_index s name = Some r" and f: "fresh env s"
  shows "if length (handles (componentTable s ! r)) < unat (maxinstances (componentTable s ! r)) \<and> loads env name
     then TIOMX_GetHandle env s (Some NULL) (Some name) True
       = Some (OMX_ErrorNone, created env s i r name, Some (env_malloc env))
     else \<exists>err. TIOMX_GetHandle env s (Some NULL) (Some name) True = Some (err, s, Some NULL) \<and> err \<noteq> OMX_ErrorNone"
  using get_loop_spec [OF w i r f] e n i free_slot_scan [OF w]
  by (auto simp: TIOMX_GetHandle_def Let_def split: if_splits)

subsection \<open>Releasing\<close>

lemma find_slot_closed:
  "j + k \<le> length sl \<Longrightarrow> find_slot sl h j k = Some (map_option (\<lambda>i. j + i) (first_index (\<lambda>x. x = h) (take k (drop j sl))))"
proof (induction k arbitrary: j)
  case 0
  then show ?case by simp
next
  case (Suc k)
  then have "j < length sl" by simp
  then have "drop j sl = sl ! j # drop (Suc j) sl" by (rule Cons_nth_drop_Suc [symmetric])
  with Suc.IH [of "Suc j"] Suc.prems show ?case by (auto simp: option.map_comp comp_def)
qed

lemma find_slot_handles:
  assumes "entry_ok e"
  shows "find_slot (slots e) h 0 (nat (refCount e)) = Some (first_index (\<lambda>x. x = h) (handles e))"
proof -
  note f = entry_ok_facts [OF assms]
  have u: "unat (of_nat (length (handles e)) :: u32) = length (handles e)" using f(5) by (simp add: unat_of_nat)
  have "take (length (handles e)) (slots e) = handles e" using f(2) u by (metis handles_def)
  with find_slot_closed [of 0 "length (handles e)" "slots e" h] f show ?thesis
    by (simp add: option.map_ident)
qed

lemma find_handle_spec:
  assumes "\<forall>e \<in> set tb. entry_ok e"
  shows "i + k = length tb \<Longrightarrow> h \<in> set (held (drop i tb)) \<Longrightarrow>
    \<exists>r j. find_handle tb h i k = Some (Some (r, j)) \<and> r < length tb \<and> first_index (\<lambda>x. x = h) (handles (tb ! r)) = Some j"
proof (induction k arbitrary: i)
  case 0
  then show ?case by (simp add: held_def)
next
  case (Suc k)
  then have i: "i < length tb" by simp
  then have d: "drop i tb = tb ! i # drop (Suc i) tb" by (rule Cons_nth_drop_Suc [symmetric])
  have ok: "entry_ok (tb ! i)" using assms i by simp
  show ?case
  proof (cases "first_index (\<lambda>x. x = h) (handles (tb ! i))")
    case (Some j)
    with i find_slot_handles [OF ok] show ?thesis by auto
  next
    case None
    then have "h \<notin> set (handles (tb ! i))" by (auto simp: first_index_None)
    with Suc.prems d have "h \<in> set (held (drop (Suc i) tb))" by (simp add: held_def)
    with Suc.IH [of "Suc i"] Suc.prems(1) i None find_slot_handles [OF ok] show ?thesis by simp
  qed
qed

text \<open>The release of slot \<open>j\<close> is right for the last two instances, and for any of up to two.\<close>

lemma list_upto_4:
  assumes "length xs \<le> 4"
  obtains "xs = []" | a where "xs = [a]" | a b where "xs = [a, b]"
    | a b c where "xs = [a, b, c]" | a b c d where "xs = [a, b, c, d]"
proof -
  have "length xs = 0 \<or> length xs = 1 \<or> length xs = 2 \<or> length xs = 3 \<or> length xs = 4" using assms by presburger
  with that show thesis
    by (elim disjE) (auto simp: length_Suc_conv numeral_eq_Suc)
qed

lemma release_slot_good:
  assumes "length hs \<le> 4" and "NULL \<notin> set hs" and "j < length hs" and "length hs \<le> j + 2"
  shows "release_slot (mk_slots hs mx) j = Some (mk_slots (remove_at j hs) mx)"
  using assms(1)
proof (cases rule: list_upto_4)
  case 1
  with assms show ?thesis by simp
next
  case (2 a)
  with assms show ?thesis
    by (simp add: release_slot_def drop_count_def mk_slots_def eval_nat_numeral rd_def wr_def)
next
  case (3 a b)
  with assms have "j = 0 \<or> j = 1" by auto
  with 3 assms show ?thesis
    by (elim disjE) (simp_all add: release_slot_def drop_count_def mk_slots_def eval_nat_numeral rd_def wr_def)
next
  case (4 a b c)
  with assms have "j = 1 \<or> j = 2" by auto
  with 4 assms show ?thesis
    by (elim disjE) (simp_all add: release_slot_def drop_count_def mk_slots_def eval_nat_numeral rd_def wr_def)
next
  case (5 a b c d)
  with assms have "j = 2 \<or> j = 3" by auto
  with 5 assms show ?thesis
    by (elim disjE) (simp_all add: release_slot_def drop_count_def mk_slots_def eval_nat_numeral rd_def wr_def)
qed

text \<open>The other cases lose instances or leave the entry with a count of -1.\<close>

lemma release_slot_loses:
  assumes "a \<noteq> NULL" and "b \<noteq> NULL" and "c \<noteq> NULL"
  shows "release_slot (mk_slots [a, b, c] mx) 0 = Some [b, NULL, NULL, NULL, 2, mx]"
  using assms by (simp add: release_slot_def drop_count_def mk_slots_def eval_nat_numeral rd_def wr_def)

lemma release_slot_corrupts:
  assumes "a \<noteq> NULL" and "b \<noteq> NULL" and "c \<noteq> NULL" and "d \<noteq> NULL"
  shows "release_slot (mk_slots [a, b, c, d] mx) 1 = Some [a, c, NULL, 4, - 1, mx]"
  using assms by (simp add: release_slot_def drop_count_def mk_slots_def eval_nat_numeral rd_def wr_def)

lemma mset_remove_at: "j < length xs \<Longrightarrow> mset (remove_at j xs) = mset xs - {# xs ! j #}"
  by (induction xs arbitrary: j) (auto simp: less_Suc_eq_0_disj add_mset_commute nth_Cons')

lemma filter_clear_mset:
  assumes "i < length xs" and "xs ! i = h" and "h \<noteq> NULL"
  shows "mset (filter (\<lambda>h. h \<noteq> NULL) (xs[i := NULL])) = mset (filter (\<lambda>h. h \<noteq> NULL) xs) - {# h #}"
proof -
  have "mset (filter (\<lambda>h. h \<noteq> NULL) ((xs[i := NULL])[i := h])) = add_mset h (mset (filter (\<lambda>h. h \<noteq> NULL) (xs[i := NULL])))"
    using assms by (intro filter_update_mset) simp_all
  moreover have "(xs[i := NULL])[i := h] = xs" using assms by (metis list_update_id list_update_overwrite)
  ultimately show ?thesis by simp
qed

definition released :: "core_state \<Rightarrow> handle \<Rightarrow> nat \<Rightarrow> nat \<Rightarrow> nat \<Rightarrow> core_state" where
  "released s h i r j =
     (let e = componentTable s ! r
      in s\<lparr>live := remove1 h (live s),
           componentTable := (componentTable s)[r := e\<lparr>slots := mk_slots (remove_at j (handles e)) (maxinstances e)\<rparr>],
           pModules := (pModules s)[i := NULL], pComponents := (pComponents s)[i := NULL]\<rparr>)"

lemma released_wf:
  assumes w: "core_wf s" and r: "r < MAX_TABLE_SIZE" and j: "j < length (handles (componentTable s ! r))"
    and h: "handles (componentTable s ! r) ! j = h" and i: "i < MAXCOMP" "pComponents s ! i = h"
  shows "core_wf (released s h i r j)"
    "handles (componentTable (released s h i r j) ! r) = remove_at j (handles (componentTable s ! r))"
proof -
  let ?e = "componentTable s ! r"
  let ?hs = "remove_at j (handles ?e)"
  let ?e' = "?e\<lparr>slots := mk_slots ?hs (maxinstances ?e)\<rparr>"
  have ok: "entry_ok ?e" using w r by (rule core_wf_entry)
  have tb: "r < length (componentTable s)" using w r by (simp add: core_wf_def)
  have l: "length ?hs < length (handles ?e)" using j by simp
  have n0: "h \<noteq> NULL" using ok j h nth_mem [OF j] by (auto simp: entry_ok_def)
  have ok': "entry_ok ?e'"
    using ok l set_remove_at [of j "handles ?e"] by (intro entry_ok_mk) (auto simp: entry_ok_def)
  have hs: "handles ?e' = ?hs" using l entry_ok_facts(5) [OF ok] by (intro handles_mk) simp
  have inh: "h \<in># mset (handles ?e)" using j h by auto
  have "mset (held ((componentTable s)[r := ?e'])) + mset (handles ?e) = mset (live s) + (mset (handles ?e) - {# h #})"
    using held_update [OF tb refl, of ?e'] w j h by (simp add: hs core_wf_def mset_remove_at)
  moreover have hl: "h \<in># mset (live s)"
  proof -
    have "handles ?e ! j \<in> set (held (componentTable s))" using tb j by (auto simp: held_def intro!: bexI [of _ ?e])
    then show ?thesis using w h by (metis core_wf_def set_mset_mset)
  qed
  ultimately have "mset (held ((componentTable s)[r := ?e'])) = mset (live s) - {# h #}"
    using inh by (metis add_left_cancel add.commute diff_union_single_conv insert_DiffM2 subset_mset.diff_add_assoc2 mset_subset_eq_single)
  then have m1: "mset (held ((componentTable s)[r := ?e'])) = mset (remove1 h (live s))" by simp
  have m2: "mset (filter (\<lambda>h. h \<noteq> NULL) ((pComponents s)[i := NULL])) = mset (remove1 h (live s))"
    using w i n0 by (subst filter_clear_mset) (simp_all add: core_wf_def)
  have "map ceName ((componentTable s)[r := ?e']) = map ceName (componentTable s)"
    using tb by (simp add: map_update list_update_same_conv)
  moreover have "\<forall>e \<in> set ((componentTable s)[r := ?e']). entry_ok e"
    using w ok' by (auto simp: core_wf_def dest!: set_update_subset_insert [THEN subsetD])
  ultimately show "core_wf (released s h i r j)"
    using w i m1 m2 by (auto simp: core_wf_def released_def Let_def nth_list_update dest: notin_set_remove1)
  show "handles (componentTable (released s h i r j) ! r) = ?hs"
    using tb hs by (simp add: released_def Let_def)
qed

lemma core_wf_sets:
  assumes "core_wf s"
  shows "set (held (componentTable s)) = set (live s)" "set (pComponents s) - {NULL} = set (live s)"
proof -
  have "mset (held (componentTable s)) = mset (live s)"
    "mset (filter (\<lambda>h. h \<noteq> NULL) (pComponents s)) = mset (live s)"
    using assms by (simp_all add: core_wf_def)
  from this [THEN arg_cong [where f = set_mset]]
  show "set (held (componentTable s)) = set (live s)" "set (pComponents s) - {NULL} = set (live s)" by auto
qed

text \<open>A release whose entry is left with the words \<open>sl\<close>.\<close>

definition released_with :: "core_state \<Rightarrow> handle \<Rightarrow> nat \<Rightarrow> nat \<Rightarrow> u32 list \<Rightarrow> core_state" where
  "released_with s h i r sl =
     s\<lparr>live := remove1 h (live s),
       componentTable := (componentTable s)[r := (componentTable s ! r)\<lparr>slots := sl\<rparr>],
       pModules := (pModules s)[i := NULL], pComponents := (pComponents s)[i := NULL]\<rparr>"

lemma FreeHandle_found:
  assumes w: "core_wf s" and e: "env_lock env" "env_unlock env" and h: "h \<in> set (live s)"
    and d: "env_deinit env h = OMX_ErrorNone"
  shows "\<exists>i r j. first_index (\<lambda>x. x = h) (pComponents s) = Some i \<and> i < MAXCOMP \<and> pComponents s ! i = h
    \<and> r < MAX_TABLE_SIZE \<and> first_index (\<lambda>x. x = h) (handles (componentTable s ! r)) = Some j
    \<and> TIOMX_FreeHandle env s h = map_option (\<lambda>sl. (OMX_ErrorNone, released_with s h i r sl))
        (release_slot (slots (componentTable s ! r)) j)"
proof -
  have lens: "length (pModules s) = MAXCOMP" "length (pComponents s) = MAXCOMP" "length (componentTable s) = MAX_TABLE_SIZE"
    using w by (simp_all add: core_wf_def)
  have hh: "h \<in> set (held (componentTable s))" and hp: "h \<in> set (pComponents s)"
    using h core_wf_sets [OF w] by auto
  have n0: "h \<noteq> NULL" using w h by (auto simp: core_wf_def)
  from hp obtain i where i: "first_index (\<lambda>x. x = h) (pComponents s) = Some i"
    using first_index_None [of "\<lambda>x. x = h" "pComponents s"] by (cases "first_index (\<lambda>x. x = h) (pComponents s)") auto
  then have ib: "i < MAXCOMP" "pComponents s ! i = h" using first_index_Some [OF i] lens by auto
  have "0 + MAX_TABLE_SIZE = length (componentTable s)" using lens by simp
  from find_handle_spec [OF _ this, of h] w hh obtain r j where
    f: "find_handle (componentTable s) h 0 MAX_TABLE_SIZE = Some (Some (r, j))" "r < length (componentTable s)"
      "first_index (\<lambda>x. x = h) (handles (componentTable s ! r)) = Some j"
    by (auto simp: core_wf_def)
  from e d h n0 i ib f lens have "TIOMX_FreeHandle env s h = map_option (\<lambda>sl. (OMX_ErrorNone, released_with s h i r sl))
        (release_slot (slots (componentTable s ! r)) j)"
    by (cases "release_slot (slots (componentTable s ! r)) j")
      (simp_all add: TIOMX_FreeHandle_def scan_closed free_block_def released_with_def Let_def)
  with i ib f lens show ?thesis by auto
qed

lemma FreeHandle_spec:
  assumes w: "core_wf s" and e: "env_lock env" "env_unlock env" and h: "h \<in> set (live s)"
    and d: "env_deinit env h = OMX_ErrorNone"
  shows "\<exists>i r j. i < MAXCOMP \<and> pComponents s ! i = h \<and> r < MAX_TABLE_SIZE
    \<and> first_index (\<lambda>x. x = h) (handles (componentTable s ! r)) = Some j
    \<and> (length (handles (componentTable s ! r)) \<le> j + 2 \<longrightarrow>
        TIOMX_FreeHandle env s h = Some (OMX_ErrorNone, released s h i r j))"
proof -
  from FreeHandle_found [OF assms] obtain i r j where
    f: "i < MAXCOMP" "pComponents s ! i = h" "r < MAX_TABLE_SIZE"
      "first_index (\<lambda>x. x = h) (handles (componentTable s ! r)) = Some j"
      "TIOMX_FreeHandle env s h = map_option (\<lambda>sl. (OMX_ErrorNone, released_with s h i r sl))
        (release_slot (slots (componentTable s ! r)) j)" by blast
  let ?e = "componentTable s ! r"
  have ok: "entry_ok ?e" using w f(3) by (rule core_wf_entry)
  have j: "j < length (handles ?e)" using first_index_Some [OF f(4)] by simp
  have "release_slot (slots ?e) j = Some (mk_slots (remove_at j (handles ?e)) (maxinstances ?e))" if "length (handles ?e) \<le> j + 2"
    using release_slot_good [of "handles ?e" j "maxinstances ?e"] entry_ok_facts(5) [OF ok] ok j that
    by (simp add: entry_ok_def)
  with f show ?thesis
    by (intro exI [of _ i] exI [of _ r] exI [of _ j]) (simp add: released_def released_with_def Let_def)
qed

lemma concat_disjoint:
  "distinct (concat xss) \<Longrightarrow> q < r \<Longrightarrow> r < length xss \<Longrightarrow> set (xss ! q) \<inter> set (xss ! r) = {}"
proof (induction xss arbitrary: q r)
  case Nil
  then show ?case by simp
next
  case (Cons xs xss)
  then obtain r' where r': "r = Suc r'" "r' < length xss" by (cases r) auto
  then have "set (xss ! r') \<subseteq> set (concat xss)" by fastforce
  with Cons r' show ?case by (cases q) auto
qed

lemma held_once:
  assumes "distinct (held tb)" and "q < length tb" and "r < length tb" and "q \<noteq> r"
  shows "set (handles (tb ! q)) \<inter> set (handles (tb ! r)) = {}"
  using concat_disjoint [of "map handles tb" q r] concat_disjoint [of "map handles tb" r q] assms
  by (auto simp: held_def nat_neq_iff)

text \<open>An instance that has been lost from the table cannot be released.\<close>

lemma find_handle_absent:
  "i + k \<le> length tb \<Longrightarrow> (\<forall>q < length tb. find_slot (slots (tb ! q)) h 0 (nat (refCount (tb ! q))) = Some None) \<Longrightarrow>
   find_handle tb h i k = Some None"
  by (induction k arbitrary: i) auto

lemma FreeHandle_lost:
  assumes w: "core_wf s" and e: "env_lock env" "env_unlock env"
    and d: "env_deinit env a = OMX_ErrorNone" "env_deinit env c = OMX_ErrorNone"
    and r: "r < MAX_TABLE_SIZE" and hs: "handles (componentTable s ! r) = [a, b, c]"
  shows "\<exists>s1. TIOMX_FreeHandle env s a = Some (OMX_ErrorNone, s1)
    \<and> TIOMX_FreeHandle env s1 c = Some (OMX_ErrorComponentNotFound, s1) \<and> c \<in> set (live s1)"
proof -
  let ?e = "componentTable s ! r"
  have lens: "length (pModules s) = MAXCOMP" "length (pComponents s) = MAXCOMP" "length (componentTable s) = MAX_TABLE_SIZE"
    using w by (simp_all add: core_wf_def)
  have ok: "entry_ok ?e" using w r by (rule core_wf_entry)
  have n0: "a \<noteq> NULL" "b \<noteq> NULL" "c \<noteq> NULL" using ok hs by (auto simp: entry_ok_def)
  have "mset (held (componentTable s)) = mset (live s)" "distinct (live s)" using w by (simp_all add: core_wf_def)
  then have dh: "distinct (held (componentTable s))" by (metis mset_eq_imp_distinct_iff)
  have occ: "q = r" if "q < MAX_TABLE_SIZE" "h \<in> set (handles (componentTable s ! q))" "h \<in> set [a, b, c]" for q h
    using held_once [OF dh, of q r] that lens r hs by auto
  have "?e \<in> set (componentTable s)" using r lens by simp
  then have "set (handles ?e) \<subseteq> set (held (componentTable s))" unfolding held_def by fastforce
  then have hl: "a \<in> set (live s)" "c \<in> set (live s)" using hs core_wf_sets [OF w] by auto
  have ac: "a \<noteq> b" "a \<noteq> c" "b \<noteq> c"
    using dh \<open>?e \<in> set (componentTable s)\<close> hs by (auto simp: held_def distinct_concat_iff)
  from FreeHandle_found [OF w e hl(1) d(1)] obtain i r' j where
    f: "first_index (\<lambda>x. x = a) (pComponents s) = Some i" "i < MAXCOMP" "r' < MAX_TABLE_SIZE"
      "first_index (\<lambda>x. x = a) (handles (componentTable s ! r')) = Some j"
      "TIOMX_FreeHandle env s a = map_option (\<lambda>sl. (OMX_ErrorNone, released_with s a i r' sl))
        (release_slot (slots (componentTable s ! r')) j)" by blast
  have "a \<in> set (handles (componentTable s ! r'))" using first_index_Some [OF f(4)] by auto
  then have r': "r' = r" using occ f(3) by simp
  then have j: "j = 0" using f(4) hs by simp
  let ?sl = "[b, NULL, NULL, NULL, 2, maxinstances ?e]"
  let ?s = "released_with s a i r ?sl"
  have s1: "TIOMX_FreeHandle env s a = Some (OMX_ErrorNone, ?s)"
    using f(5) r' j release_slot_loses [OF n0, of "maxinstances ?e"] ok hs by (simp add: entry_ok_def)
  have "c \<in> set (live ?s)" using hl ac by (simp add: released_with_def)
  moreover have "TIOMX_FreeHandle env ?s c = Some (OMX_ErrorComponentNotFound, ?s)"
  proof -
    have pi: "pComponents s ! i = a" using first_index_Some [OF f(1)] by simp
    have "c \<in> set (pComponents s)" using hl core_wf_sets [OF w] by auto
    then obtain k where k: "k < MAXCOMP" "pComponents s ! k = c" using lens by (auto simp: in_set_conv_nth)
    then have "(pComponents s)[i := NULL] ! k = c" using pi ac by (cases "k = i") auto
    then have "c \<in> set ((pComponents s)[i := NULL])" using k lens by (metis length_list_update nth_mem)
    then obtain m where m: "first_index (\<lambda>x. x = c) ((pComponents s)[i := NULL]) = Some m"
      using first_index_None [of "\<lambda>x. x = c"] by (cases "first_index (\<lambda>x. x = c) ((pComponents s)[i := NULL])") auto
    have "find_handle (componentTable ?s) c 0 MAX_TABLE_SIZE = Some None"
    proof (rule find_handle_absent)
      show "0 + MAX_TABLE_SIZE \<le> length (componentTable ?s)" using lens by (simp add: released_with_def)
      show "\<forall>q < length (componentTable ?s). find_slot (slots (componentTable ?s ! q)) c 0 (nat (refCount (componentTable ?s ! q))) = Some None"
      proof (intro allI impI)
        fix q assume "q < length (componentTable ?s)"
        then have q: "q < MAX_TABLE_SIZE" using lens by (simp add: released_with_def)
        show "find_slot (slots (componentTable ?s ! q)) c 0 (nat (refCount (componentTable ?s ! q))) = Some None"
        proof (cases "q = r")
          case True
          then show ?thesis using q lens ac n0
            by (simp add: released_with_def refCount_def rd_def eval_nat_numeral)
        next
          case False
          then have "c \<notin> set (handles (componentTable s ! q))" using occ [OF q, of c] by auto
          then have "first_index (\<lambda>x. x = c) (handles (componentTable s ! q)) = None" by (auto simp: first_index_None)
          with find_slot_handles [OF core_wf_entry [OF w q], of c] False q lens show ?thesis
            by (simp add: released_with_def)
        qed
      qed
    qed
    with m e d lens \<open>c \<in> set (live ?s)\<close> show ?thesis
      by (simp add: TIOMX_FreeHandle_def scan_closed released_with_def Let_def)
  qed
  ultimately show ?thesis using s1 by blast
qed

text \<open>Creating and releasing again gives back the state.\<close>

lemma mk_slots_handles: "entry_ok e \<Longrightarrow> e\<lparr>slots := mk_slots (handles e) (maxinstances e)\<rparr> = e"
  by (cases e) (simp add: entry_ok_def)

lemma create_release:
  assumes w: "core_wf s" and i: "i < MAXCOMP" "pModules s ! i = NULL" "pComponents s ! i = NULL"
    and r: "r < MAX_TABLE_SIZE" and n: "length (handles (componentTable s ! r)) < unat (maxinstances (componentTable s ! r))"
    and l: "loads env name" and f: "fresh env s"
    and e: "env_lock env'" "env_unlock env'" "env_deinit env' (env_malloc env) = OMX_ErrorNone"
  shows "TIOMX_FreeHandle env' (created env s i r name) (env_malloc env) = Some (OMX_ErrorNone, s)"
proof -
  let ?h = "env_malloc env" and ?s = "created env s i r name" and ?e = "componentTable s ! r"
  note w1 = created_wf [OF w i r n l f]
  have lens: "length (pModules s) = MAXCOMP" "length (pComponents s) = MAXCOMP" "length (componentTable s) = MAX_TABLE_SIZE"
    using w by (simp_all add: core_wf_def)
  have ok: "entry_ok ?e" using w r by (rule core_wf_entry)
  have h0: "?h \<noteq> NULL" "?h \<notin> set (live s)" using l f by (auto simp: loads_def fresh_def Let_def)
  have hl: "?h \<in> set (live ?s)" by (simp add: created_def Let_def)
  from FreeHandle_spec [OF w1(1) e(1,2) hl e(3)] obtain i' r' j' where
    x: "i' < MAXCOMP" "pComponents ?s ! i' = ?h" "r' < MAX_TABLE_SIZE"
      "first_index (\<lambda>x. x = ?h) (handles (componentTable ?s ! r')) = Some j'"
      "length (handles (componentTable ?s ! r')) \<le> j' + 2 \<longrightarrow>
        TIOMX_FreeHandle env' ?s ?h = Some (OMX_ErrorNone, released ?s ?h i' r' j')" by blast
  have i': "i' = i"
  proof (rule ccontr)
    assume "i' \<noteq> i"
    then have "pComponents s ! i' = ?h" using x(2) by (simp add: created_def Let_def)
    then have "?h \<in> set (pComponents s) - {NULL}" using h0 x(1) lens nth_mem by (metis DiffI singletonD)
    with core_wf_sets(2) [OF w] h0 show False by simp
  qed
  have r': "r' = r"
  proof (rule ccontr)
    assume "r' \<noteq> r"
    then have "componentTable ?s ! r' = componentTable s ! r'" by (simp add: created_def Let_def)
    moreover have "?h \<in> set (handles (componentTable ?s ! r'))" using first_index_Some [OF x(4)] nth_mem by metis
    ultimately have "?h \<in> set (handles (componentTable s ! r'))" by simp
    moreover have "componentTable s ! r' \<in> set (componentTable s)" using x(3) lens by simp
    ultimately have "?h \<in> set (held (componentTable s))" by (auto simp: held_def)
    with core_wf_sets(1) [OF w] h0 show False by simp
  qed
  have "?e \<in> set (componentTable s)" using r lens by simp
  then have "set (handles ?e) \<subseteq> set (live s)" using core_wf_sets(1) [OF w] by (auto simp: held_def)
  then have "first_index (\<lambda>x. x = ?h) (handles ?e) = None" using h0 by (auto simp: first_index_None)
  then have j': "j' = length (handles ?e)" using x(4) w1(2) r' by (simp add: first_index_append)
  have "remove_at (length (handles ?e)) (handles ?e @ [?h]) = handles ?e" by (simp add: remove_at_def)
  then have hs: "remove_at j' (handles (componentTable ?s ! r)) = handles ?e" using w1(2) j' by simp
  have mx: "maxinstances (componentTable ?s ! r) = maxinstances ?e"
    using lens r n ok by (simp add: created_def Let_def maxinstances_def mk_slots_nth(3) entry_ok_def)
  have "(componentTable ?s ! r)\<lparr>slots := mk_slots (handles ?e) (maxinstances ?e)\<rparr> = ?e"
    using mk_slots_handles [OF ok] lens r by (simp only: created_def Let_def) simp
  then have tb: "(componentTable ?s)[r := (componentTable ?s ! r)\<lparr>slots := mk_slots (remove_at j' (handles (componentTable ?s ! r)))
      (maxinstances (componentTable ?s ! r))\<rparr>] = componentTable s"
    unfolding hs mx by (simp add: created_def Let_def)
  have "released ?s ?h i r j' = s"
    by (rule core_state.equality)
      (use tb restore_after [OF i(2)] restore_after [OF i(3)] in \<open>simp_all add: released_def Let_def\<close>,
       simp_all add: created_def Let_def)
  with x(5) i' r' j' w1(2) show ?thesis by simp
qed

subsection \<open>Queries\<close>

text \<open>The names and roles in the state are those of \<open>acc\<close>; instances do not matter.\<close>

definition role_view :: "core_state \<Rightarrow> comp_abs list \<Rightarrow> bool" where
  "role_view s acc \<longleftrightarrow> tableCount s = length acc \<and> length acc \<le> MAX_TABLE_SIZE \<and> few_roles acc
     \<and> length (componentTable s) = MAX_TABLE_SIZE
     \<and> (\<forall>i < length acc. (componentTable s ! i)\<lparr>slots := []\<rparr> = (entry_of (acc ! i))\<lparr>slots := []\<rparr>)"

lemma role_view_entry:
  assumes "role_view s acc" and "i < length acc"
  shows "ceName (componentTable s ! i) = Some (fst (acc ! i))"
    "nRoles (componentTable s ! i) = of_nat (length (fst (snd (acc ! i))))"
    "unat (nRoles (componentTable s ! i)) = length (fst (snd (acc ! i)))"
    "pRoleArray (componentTable s ! i) = map Some (fst (snd (acc ! i))) @ replicate (MAX_ROLES - length (fst (snd (acc ! i)))) None"
    "length (fst (snd (acc ! i))) \<le> 5"
proof -
  have e: "(componentTable s ! i)\<lparr>slots := []\<rparr> = (entry_of (acc ! i))\<lparr>slots := []\<rparr>" using assms by (simp add: role_view_def)
  then show "ceName (componentTable s ! i) = Some (fst (acc ! i))"
    and n: "nRoles (componentTable s ! i) = of_nat (length (fst (snd (acc ! i))))"
    and "pRoleArray (componentTable s ! i) = map Some (fst (snd (acc ! i))) @ replicate (MAX_ROLES - length (fst (snd (acc ! i)))) None"
    by (cases "componentTable s ! i"; simp add: entry_of_def)+
  have "acc ! i \<in> set acc" using assms(2) by simp
  then show l: "length (fst (snd (acc ! i))) \<le> 5"
    using assms(1) by (auto simp: role_view_def few_roles_def)
  show "unat (nRoles (componentTable s ! i)) = length (fst (snd (acc ! i)))"
    using n l by (simp add: unat_of_nat)
qed

lemma role_view_find:
  assumes "role_view s acc"
  shows "find_name_from (componentTable s) name 0 (tableCount s) = Some (first_index (\<lambda>x. fst x = name) acc)"
proof -
  have l: "tableCount s = length acc" "length acc \<le> length (componentTable s)" using assms by (simp_all add: role_view_def)
  have t: "map ceName (take (length acc) (componentTable s)) = map (Some \<circ> fst) acc"
    using role_view_entry(1) [OF assms] l by (intro nth_equalityI) simp_all
  have "\<forall>e \<in> set (take (length acc) (componentTable s)). ceName e \<noteq> None"
  proof
    fix e assume "e \<in> set (take (length acc) (componentTable s))"
    then have "ceName e \<in> set (map (Some \<circ> fst) acc)" unfolding t [symmetric] by auto
    then show "ceName e \<noteq> None" by auto
  qed
  moreover have "first_index (\<lambda>e. ceName e = Some name) (take (length acc) (componentTable s))
      = first_index (\<lambda>n. n = Some name) (map ceName (take (length acc) (componentTable s)))"
    by (simp add: first_index_map comp_def)
  ultimately show ?thesis
    using l find_name_from_closed [of 0 "length acc" "componentTable s" name]
    by (simp add: t first_index_map comp_def option.map_ident)
qed

lemma copy_roles_closed:
  "j + length rs \<le> length out \<Longrightarrow> copy_roles (pre @ map Some rs @ suf) out (length pre) (length rs)
    = Some (take (length pre) out @ rs @ drop (length pre + length rs) out)" if "j = length pre"
  using that
proof (induction rs arbitrary: pre out j)
  case Nil
  then show ?case by simp
next
  case (Cons r rs)
  let ?out = "out[length pre := r]"
  have "copy_roles ((pre @ [Some r]) @ map Some rs @ suf) ?out (length (pre @ [Some r])) (length rs)
    = Some (take (length (pre @ [Some r])) ?out @ rs @ drop (length (pre @ [Some r]) + length rs) ?out)"
    using Cons.prems by (intro Cons.IH [where j = "Suc j"]) simp_all
  with Cons.prems show ?case by (simp add: nth_append take_Suc_conv_app_nth)
qed

lemma ucast_small_u16: "n \<le> 5 \<Longrightarrow> ucast (of_nat n :: u16) = (of_nat n :: u32)"
proof -
  assume "n \<le> 5"
  then have "n \<in> {0, 1, 2, 3, 4, 5}" by auto
  then show ?thesis by auto
qed

lemma GetRoles_spec:
  assumes "role_view s acc" and "first_index (\<lambda>x. fst x = name) acc = Some i"
  shows "TIOMX_GetRolesOfComponent s (Some name) (Some num) None
      = Some (OMX_ErrorNone, Some (of_nat (length (fst (snd (acc ! i))))), None)"
    "length (fst (snd (acc ! i))) \<le> unat num \<Longrightarrow> length (fst (snd (acc ! i))) \<le> length out \<Longrightarrow>
     TIOMX_GetRolesOfComponent s (Some name) (Some num) (Some out)
      = Some (OMX_ErrorNone, Some (of_nat (length (fst (snd (acc ! i))))),
          Some (fst (snd (acc ! i)) @ drop (length (fst (snd (acc ! i)))) out))"
proof -
  have i: "i < length acc" using first_index_Some [OF assms(2)] by simp
  note v = role_view_entry [OF assms(1) i]
  have r: "rd (componentTable s) i = Some (componentTable s ! i)"
    using assms(1) i by (simp add: role_view_def)
  note u = ucast_small_u16 [OF v(5)]
  show "TIOMX_GetRolesOfComponent s (Some name) (Some num) None
      = Some (OMX_ErrorNone, Some (of_nat (length (fst (snd (acc ! i))))), None)"
    using role_view_find [OF assms(1)] assms(2) r v(2) u by (simp add: TIOMX_GetRolesOfComponent_def)
  assume "length (fst (snd (acc ! i))) \<le> unat num" and o: "length (fst (snd (acc ! i))) \<le> length out"
  with role_view_find [OF assms(1)] assms(2) r v u copy_roles_closed [of 0 "[]" "fst (snd (acc ! i))" out]
  show "TIOMX_GetRolesOfComponent s (Some name) (Some num) (Some out)
      = Some (OMX_ErrorNone, Some (of_nat (length (fst (snd (acc ! i))))),
          Some (fst (snd (acc ! i)) @ drop (length (fst (snd (acc ! i)))) out))"
    by (simp add: TIOMX_GetRolesOfComponent_def)
qed

definition comps_with :: "comp_abs list \<Rightarrow> string \<Rightarrow> string list" where
  "comps_with acc role = concat (map (\<lambda>x. replicate (count_list (fst (snd x)) role) (fst x)) acc)"

lemma role_hits_closed:
  "j + k = length rs \<Longrightarrow> role_hits (map Some rs @ suf) role j k = Some (count_list (drop j rs) role)"
proof (induction k arbitrary: j)
  case 0
  then show ?case by simp
next
  case (Suc k)
  then have "j < length rs" by simp
  then have "drop j rs = rs ! j # drop (Suc j) rs" by (rule Cons_nth_drop_Suc [symmetric])
  with Suc.IH [of "Suc j"] Suc.prems \<open>j < length rs\<close> show ?case by (simp add: nth_append)
qed

lemma comps_of_role_closed:
  assumes "role_view s acc"
  shows "i + k = length acc \<Longrightarrow> comps_of_role (componentTable s) role i k = Some (comps_with (drop i acc) role)"
proof (induction k arbitrary: i)
  case 0
  then show ?case by (simp add: comps_with_def)
next
  case (Suc k)
  then have i: "i < length acc" by simp
  then have d: "drop i acc = acc ! i # drop (Suc i) acc" by (rule Cons_nth_drop_Suc [symmetric])
  note v = role_view_entry [OF assms i]
  have "role_hits (pRoleArray (componentTable s ! i)) role 0 (unat (nRoles (componentTable s ! i)))
      = Some (count_list (fst (snd (acc ! i))) role)"
    using role_hits_closed [of 0 "length (fst (snd (acc ! i)))" "fst (snd (acc ! i))"] v by simp
  moreover have "rd (componentTable s) i = Some (componentTable s ! i)" using assms i by (simp add: role_view_def)
  ultimately show ?case using Suc.IH [of "Suc i"] Suc.prems v(1)
    by (cases "count_list (fst (snd (acc ! i))) role = 0") (simp_all add: d comps_with_def)
qed

lemma store_names_closed:
  "k + length xs \<le> length out \<Longrightarrow> store_names xs out k = Some (take k out @ xs @ drop (k + length xs) out)"
  by (induction xs arbitrary: out k) (simp_all add: take_Suc_conv_app_nth)

lemma role_view_slots:
  "role_view s acc \<Longrightarrow> r < MAX_TABLE_SIZE \<Longrightarrow>
   componentTable s' = (componentTable s)[r := (componentTable s ! r)\<lparr>slots := sl\<rparr>] \<Longrightarrow> tableCount s' = tableCount s \<Longrightarrow>
   role_view s' acc"
  by (auto simp: role_view_def nth_list_update)

lemma spec_row_names: "distinct (map fst acc) \<Longrightarrow> distinct (map fst (spec_row acc row))"
proof -
  assume d: "distinct (map fst acc)"
  obtain n r mx where row: "row = (n, r, mx)" by (cases row)
  show ?thesis
  proof (cases "first_index (\<lambda>x. fst x = n) acc")
    case None
    then have "n \<notin> fst ` set acc" by (auto simp: first_index_None)
    with None d show ?thesis by (simp add: spec_row_def row)
  next
    case (Some j)
    then have "j < length acc" by (auto dest: first_index_Some)
    then have "map fst (acc[j := (fst (acc ! j), fst (snd (acc ! j)) @ role_list r, snd (snd (acc ! j)))]) = map fst acc"
      by (simp add: map_update list_update_same_conv)
    with Some d show ?thesis by (simp add: spec_row_def row)
  qed
qed

lemma spec_rows_names: "distinct (map fst acc) \<Longrightarrow> distinct (map fst (spec_rows acc rows))"
  by (induction rows arbitrary: acc) (simp_all add: spec_rows_def spec_row_names)

definition small_limits :: "comp_abs list \<Rightarrow> bool" where
  "small_limits acc \<longleftrightarrow> (\<forall>x \<in> set acc. unat (snd (snd x)) \<le> 4)"

lemma entry_of_ok:
  assumes "unat (snd (snd x)) \<le> 4"
  shows "entry_ok (entry_of x)" "handles (entry_of x) = []"
proof -
  have s: "slots (entry_of x) = mk_slots [] (snd (snd x))" by (simp add: entry_of_def mk_slots_def eval_nat_numeral)
  then show h: "handles (entry_of x) = []" by (simp add: handles_def mk_slots_nth)
  have "maxinstances (entry_of x) = snd (snd x)" by (simp add: maxinstances_def s mk_slots_nth)
  with s h assms show "entry_ok (entry_of x)" by (simp add: entry_ok_def) (simp add: entry_of_def)
qed

lemma init_state_wf:
  assumes "length acc = MAX_TABLE_SIZE" and "distinct (map fst acc)" and "small_limits acc"
  shows "core_wf (core_init\<lparr>core_count := 1, componentTable := table_of acc, tableCount := length acc\<rparr>)"
proof -
  have t: "table_of acc = map entry_of acc" using assms(1) by (simp add: table_of_def)
  have ok: "\<forall>x \<in> set acc. entry_ok (entry_of x) \<and> handles (entry_of x) = []"
    using assms(3) entry_of_ok by (simp add: small_limits_def)
  then have "held (map entry_of acc) = []" by (simp add: held_def)
  moreover have "map ceName (map entry_of acc) = map Some (map fst acc)" by (simp add: entry_of_def)
  then have "distinct (map ceName (map entry_of acc))" using assms(2) by (simp only: distinct_map) simp
  ultimately show ?thesis using ok assms(1) by (simp add: core_wf_def t core_init_def)
qed

lemma init_state_view:
  assumes "few_roles acc" and "length acc \<le> MAX_TABLE_SIZE"
  shows "role_view (core_init\<lparr>core_count := 1, componentTable := table_of acc, tableCount := length acc\<rparr>) acc"
  using assms by (simp add: role_view_def table_of_length table_of_nth)

subsection \<open>Properties\<close>

text \<open>An environment in which every call succeeds, with \<open>m\<close> the block that \<open>malloc\<close> returns.\<close>

definition good_env :: "handle \<Rightarrow> core_env" where
  "good_env m = \<lparr>env_lock = True, env_unlock = True, env_dlopen = (\<lambda>_. 77), env_dlsym = (\<lambda>_. True),
     env_malloc = m, env_init = (\<lambda>_. OMX_ErrorNone), env_setcb = (\<lambda>_. OMX_ErrorNone), env_deinit = (\<lambda>_. OMX_ErrorNone)\<rparr>"

lemma good_env_simps [simp]:
  "env_lock (good_env m)" "env_unlock (good_env m)" "env_malloc (good_env m) = m"
  "env_deinit (good_env m) h = OMX_ErrorNone" "m \<noteq> NULL \<Longrightarrow> loads (good_env m) name"
  by (simp_all add: good_env_def loads_def)

definition omap3_components :: "comp_abs list" where
  "omap3_components = spec_rows [] (tComponentName False)"

definition omap3_state :: core_state where
  "omap3_state = core_init\<lparr>core_count := 1, componentTable := table_of omap3_components, tableCount := length omap3_components\<rparr>"

lemma omap3_components_facts:
  "few_roles omap3_components" "length omap3_components = MAX_TABLE_SIZE" "small_limits omap3_components"
  "first_index (\<lambda>x. fst x = ''OMX.TI.JPEG.decoder'') omap3_components = Some 0"
  by code_simp+

lemma omap3_wf: "core_wf omap3_state"
  unfolding omap3_state_def
  by (rule init_state_wf) (use omap3_components_facts in \<open>simp_all add: omap3_components_def spec_rows_names\<close>)

lemma omap3_view: "role_view omap3_state omap3_components"
  unfolding omap3_state_def by (rule init_state_view) (use omap3_components_facts in simp_all)

lemma omap3_first:
  "comp_index omap3_state ''OMX.TI.JPEG.decoder'' = Some 0" "free_slot omap3_state = Some 0" "live omap3_state = []"
  "handles (componentTable omap3_state ! 0) = []" "maxinstances (componentTable omap3_state ! 0) = 4"
  by code_simp+

text \<open>
  C8: the first \<open>TIOMX_Init\<close> builds the table of the abstract specification: one entry per
  component name in the order of first occurrence, with the roles of all its rows in order
  and its instance limit, up to 30 entries, provided that no component has more than five
  roles. If all 30 entries are used and no limit is above four, the core starts in a
  well-formed state.
\<close>

theorem TIOMX_Init_builds_table:
  assumes "few_roles (spec_rows [] rows)" and "env_lock env" and "env_unlock env"
  shows "\<exists>s. TIOMX_Init rows env core_init = Some (OMX_ErrorNone, s) \<and> role_view s (spec_rows [] rows)
    \<and> (length (spec_rows [] rows) = MAX_TABLE_SIZE \<and> small_limits (spec_rows [] rows) \<longrightarrow> core_wf s)"
  using Init_refines [OF assms] init_state_view [OF assms(1)] init_state_wf [of "spec_rows [] rows"]
    spec_rows_length [of "[]" rows] spec_rows_names [of "[]" rows]
  by simp

theorem TIOMX_Init_builds_table_witness:
  "\<exists>s. TIOMX_Init (tComponentName False) (good_env 16) core_init = Some (OMX_ErrorNone, s)
    \<and> role_view s omap3_components \<and> core_wf s"
  using TIOMX_Init_builds_table [of "tComponentName False" "good_env 16"] omap3_components_facts
  by (simp add: omap3_components_def)

text \<open>
  C9: in a well-formed state, creating an instance of a known component is a transaction. If
  the component has not reached its limit and loads, the new handle is appended to the
  instances of its entry and stored in the first free slot, and the state stays well-formed;
  otherwise an error is returned, the state is as before and \<open>*pHandle\<close> is null.
\<close>

theorem TIOMX_GetHandle_transaction:
  assumes "core_wf s" and "env_lock env" and "env_unlock env" and "length name < MAXNAMESIZE"
    and "free_slot s = Some i" and "comp_index s name = Some r" and "fresh env s"
  shows "if length (handles (componentTable s ! r)) < unat (maxinstances (componentTable s ! r)) \<and> loads env name
     then \<exists>s'. TIOMX_GetHandle env s (Some NULL) (Some name) True = Some (OMX_ErrorNone, s', Some (env_malloc env))
       \<and> core_wf s' \<and> pComponents s' ! i = env_malloc env
       \<and> handles (componentTable s' ! r) = handles (componentTable s ! r) @ [env_malloc env]
     else \<exists>err. TIOMX_GetHandle env s (Some NULL) (Some name) True = Some (err, s, Some NULL) \<and> err \<noteq> OMX_ErrorNone"
proof -
  note sl = core_wf_free_slot [OF assms(1) assms(5) [unfolded free_slot_def]]
  have "pComponents (created env s i r name) ! i = env_malloc env"
    using sl(1) assms(1) by (simp add: created_def Let_def core_wf_def)
  with GetHandle_spec [OF assms] created_wf [OF assms(1) sl comp_index_Some(1) [OF assms(1,6)], of env name] assms(7)
  show ?thesis by auto
qed

theorem TIOMX_GetHandle_transaction_witness:
  "\<exists>s'. TIOMX_GetHandle (good_env 16) omap3_state (Some NULL) (Some ''OMX.TI.JPEG.decoder'') True
     = Some (OMX_ErrorNone, s', Some 16) \<and> core_wf s' \<and> pComponents s' ! 0 = 16 \<and> handles (componentTable s' ! 0) = [16]"
  using TIOMX_GetHandle_transaction [OF omap3_wf _ _ _ omap3_first(2,1), of "good_env 16"] omap3_first
  by (simp add: fresh_def)

text \<open>
  C10: an instance that was created can be released, and the release gives back exactly the
  state before the creation.
\<close>

theorem TIOMX_GetHandle_FreeHandle:
  assumes "core_wf s" and "env_lock env" and "env_unlock env" and "length name < MAXNAMESIZE"
    and "free_slot s = Some i" and "comp_index s name = Some r" and "fresh env s"
    and "length (handles (componentTable s ! r)) < unat (maxinstances (componentTable s ! r))" and "loads env name"
    and "env_deinit env (env_malloc env) = OMX_ErrorNone"
  shows "\<exists>s'. TIOMX_GetHandle env s (Some NULL) (Some name) True = Some (OMX_ErrorNone, s', Some (env_malloc env))
    \<and> TIOMX_FreeHandle env s' (env_malloc env) = Some (OMX_ErrorNone, s)"
  using GetHandle_spec [OF assms(1-7)] assms(8,9)
    create_release [OF assms(1) core_wf_free_slot [OF assms(1) assms(5) [unfolded free_slot_def]]
      comp_index_Some(1) [OF assms(1,6)] assms(8,9,7,2,3,10)]
  by simp

theorem TIOMX_GetHandle_FreeHandle_witness:
  "\<exists>s'. TIOMX_GetHandle (good_env 16) omap3_state (Some NULL) (Some ''OMX.TI.JPEG.decoder'') True
     = Some (OMX_ErrorNone, s', Some 16) \<and> TIOMX_FreeHandle (good_env 16) s' 16 = Some (OMX_ErrorNone, omap3_state)"
  using TIOMX_GetHandle_FreeHandle [OF omap3_wf _ _ _ omap3_first(2,1), of "good_env 16"] omap3_first
  by (simp add: fresh_def)

text \<open>Three decoder instances: the handles 16, 17 and 18.\<close>

definition three_decoders :: core_state where
  "three_decoders = created (good_env 18) (created (good_env 17) (created (good_env 16) omap3_state 0 0 ''OMX.TI.JPEG.decoder'')
     1 0 ''OMX.TI.JPEG.decoder'') 2 0 ''OMX.TI.JPEG.decoder''"

lemma three_decoders_wf:
  "core_wf three_decoders" "handles (componentTable three_decoders ! 0) = [16, 17, 18]"
proof -
  let ?n = "''OMX.TI.JPEG.decoder''"
  let ?s1 = "created (good_env 16) omap3_state 0 0 ?n"
  let ?s2 = "created (good_env 17) ?s1 1 0 ?n"
  have mods: "pModules omap3_state = replicate 50 NULL" "pComponents omap3_state = replicate 50 NULL"
    "length (componentTable omap3_state) = 30"
    using omap3_wf by (simp_all add: omap3_state_def core_init_def core_wf_def)
  have 1: "core_wf ?s1" "handles (componentTable ?s1 ! 0) = [16]" "maxinstances (componentTable ?s1 ! 0) = 4"
    using created_wf [OF omap3_wf, of 0 0 "good_env 16" ?n] omap3_first mods
    by (simp_all add: fresh_def) (simp add: created_def Let_def maxinstances_def mk_slots_nth)
  have 2: "core_wf ?s2" "handles (componentTable ?s2 ! 0) = [16, 17]" "maxinstances (componentTable ?s2 ! 0) = 4"
    using created_wf [OF 1(1), of 1 0 "good_env 17" ?n] 1 mods omap3_first(3)
    by (simp_all add: fresh_def created_def Let_def) (simp add: maxinstances_def mk_slots_nth)
  show "core_wf three_decoders" "handles (componentTable three_decoders ! 0) = [16, 17, 18]"
    using created_wf [OF 2(1), of 2 0 "good_env 18" ?n] 2 mods omap3_first(3)
    by (simp_all add: three_decoders_def fresh_def created_def Let_def)
qed

text \<open>
  C11: a release that succeeds in \<open>ComponentDeInit\<close> finds the instance in its slot and its
  table entry; when the instance is one of the last two of its entry, the call succeeds,
  removes exactly this instance and keeps the state well-formed.
\<close>

theorem TIOMX_FreeHandle_releases:
  assumes "core_wf s" and "env_lock env" and "env_unlock env" and "h \<in> set (live s)" and "env_deinit env h = OMX_ErrorNone"
  shows "\<exists>r j. r < MAX_TABLE_SIZE \<and> first_index (\<lambda>x. x = h) (handles (componentTable s ! r)) = Some j
    \<and> (length (handles (componentTable s ! r)) \<le> j + 2 \<longrightarrow>
        (\<exists>s'. TIOMX_FreeHandle env s h = Some (OMX_ErrorNone, s') \<and> core_wf s'
          \<and> handles (componentTable s' ! r) = remove_at j (handles (componentTable s ! r)) \<and> live s' = remove1 h (live s)))"
proof -
  from FreeHandle_spec [OF assms] obtain i r j where
    f: "i < MAXCOMP" "pComponents s ! i = h" "r < MAX_TABLE_SIZE"
      "first_index (\<lambda>x. x = h) (handles (componentTable s ! r)) = Some j"
      "length (handles (componentTable s ! r)) \<le> j + 2 \<longrightarrow>
        TIOMX_FreeHandle env s h = Some (OMX_ErrorNone, released s h i r j)" by blast
  from first_index_Some [OF f(4)] have j: "j < length (handles (componentTable s ! r))"
    "handles (componentTable s ! r) ! j = h" by simp_all
  have "live (released s h i r j) = remove1 h (live s)" by (simp add: released_def Let_def)
  with f released_wf [OF assms(1) f(3) j f(1,2)] show ?thesis by auto
qed

theorem TIOMX_FreeHandle_releases_witness:
  "\<exists>r j. r < MAX_TABLE_SIZE \<and> first_index (\<lambda>x. x = 18) (handles (componentTable three_decoders ! r)) = Some j
    \<and> (length (handles (componentTable three_decoders ! r)) \<le> j + 2 \<longrightarrow>
        (\<exists>s'. TIOMX_FreeHandle (good_env 1) three_decoders 18 = Some (OMX_ErrorNone, s') \<and> core_wf s'
          \<and> handles (componentTable s' ! r) = remove_at j (handles (componentTable three_decoders ! r))
          \<and> live s' = remove1 18 (live three_decoders)))"
  using TIOMX_FreeHandle_releases [OF three_decoders_wf(1), of "good_env 1" 18]
  by (simp add: three_decoders_def created_def Let_def)

text \<open>
  with three instances of a component, releasing the first loses the third: its slot is
  cleared by the shift loop, so its own release runs \<open>ComponentDeInit\<close> and then fails with
  \<open>OMX_ErrorComponentNotFound\<close>, and it stays allocated for ever.
\<close>

theorem TIOMX_FreeHandle_loses_instance:
  assumes "core_wf s" and "env_lock env" and "env_unlock env"
    and "env_deinit env a = OMX_ErrorNone" and "env_deinit env c = OMX_ErrorNone"
    and "r < MAX_TABLE_SIZE" and "handles (componentTable s ! r) = [a, b, c]"
  shows "\<exists>s1. TIOMX_FreeHandle env s a = Some (OMX_ErrorNone, s1)
    \<and> TIOMX_FreeHandle env s1 c = Some (OMX_ErrorComponentNotFound, s1) \<and> c \<in> set (live s1)"
  by (rule FreeHandle_lost [OF assms])

theorem TIOMX_FreeHandle_loses_instance_witness:
  "\<exists>s1. TIOMX_FreeHandle (good_env 1) three_decoders 16 = Some (OMX_ErrorNone, s1)
    \<and> TIOMX_FreeHandle (good_env 1) s1 18 = Some (OMX_ErrorComponentNotFound, s1) \<and> 18 \<in> set (live s1)"
  by (rule TIOMX_FreeHandle_loses_instance [where b = 17 and r = 0]) (simp_all add: three_decoders_wf)

text \<open>
  with four instances, releasing the second moves the reference count into the last slot
  and leaves the count at -1; as an unsigned number it is above every limit, so the component
  cannot be created any more.
\<close>

theorem release_slot_corrupts_count:
  assumes "a \<noteq> NULL" and "b \<noteq> NULL" and "c \<noteq> NULL" and "d \<noteq> NULL"
  shows "\<exists>sl. release_slot (mk_slots [a, b, c, d] mx) 1 = Some sl \<and> sint (sl ! REFCOUNT) = - 1 \<and> mx \<le> sl ! REFCOUNT
    \<and> sl ! 3 = 4"
  using release_slot_corrupts [OF assms, of mx] by (simp add: eval_nat_numeral)

theorem release_slot_corrupts_count_witness:
  "\<exists>sl. release_slot (mk_slots [16, 17, 18, 19] 4) 1 = Some sl \<and> sint (sl ! REFCOUNT) = - 1 \<and> 4 \<le> sl ! REFCOUNT
    \<and> sl ! 3 = 4"
  by (rule release_slot_corrupts_count) simp_all

text \<open>
  the two-call protocol of the role queries. With null buffers they return the numbers of
  roles and of components; with enough room they fill the buffers with the roles of the
  component, and with the names of the components that have the role, in table order.
\<close>

theorem role_queries_correct:
  assumes "role_view s acc" and "first_index (\<lambda>x. fst x = name) acc = Some i" and "role \<in> set (fst (snd (acc ! i)))"
    and "length (fst (snd (acc ! i))) \<le> unat num" and "length (fst (snd (acc ! i))) \<le> length out"
    and "length (comps_with acc role) \<le> unat num'" and "length (comps_with acc role) \<le> length out'"
  shows "TIOMX_GetRolesOfComponent s (Some name) (Some num) None
      = Some (OMX_ErrorNone, Some (of_nat (length (fst (snd (acc ! i))))), None)
    \<and> TIOMX_GetRolesOfComponent s (Some name) (Some num) (Some out)
      = Some (OMX_ErrorNone, Some (of_nat (length (fst (snd (acc ! i))))),
          Some (fst (snd (acc ! i)) @ drop (length (fst (snd (acc ! i)))) out))
    \<and> TIOMX_GetComponentsOfRole s (Some role) (Some num') None
      = Some (OMX_ErrorNone, Some (of_nat (length (comps_with acc role))), None)
    \<and> TIOMX_GetComponentsOfRole s (Some role) (Some num') (Some out')
      = Some (OMX_ErrorNone, Some (of_nat (length (comps_with acc role))),
          Some (comps_with acc role @ drop (length (comps_with acc role)) out'))
    \<and> name \<in> set (comps_with acc role)"
proof -
  have i: "i < length acc" "fst (acc ! i) = name" using first_index_Some [OF assms(2)] by simp_all
  have t: "tableCount s = length acc" using assms(1) by (simp add: role_view_def)
  have "acc ! i \<in> set acc" using i by simp
  then have m: "name \<in> set (comps_with acc role)"
    using i assms(3) by (force simp: comps_with_def set_replicate_conv_if count_list_0_iff)
  then have ne: "comps_with acc role \<noteq> []" by auto
  have "comps_of_role (componentTable s) role 0 (tableCount s) = Some (comps_with acc role)"
    using comps_of_role_closed [OF assms(1), of 0 "length acc"] t by simp
  with GetRoles_spec [OF assms(1,2)] assms(4-7) m ne t i store_names_closed [of 0 "comps_with acc role" out']
  show ?thesis by (auto simp: TIOMX_GetComponentsOfRole_def Let_def)
qed

theorem role_queries_correct_witness:
  "TIOMX_GetComponentsOfRole omap3_state (Some ''image_decoder.jpeg'') (Some 1) (Some [[]])
     = Some (OMX_ErrorNone, Some 1, Some [''OMX.TI.JPEG.decoder''])"
proof -
  have f: "fst (snd (omap3_components ! 0)) = [''image_decoder.jpeg'']"
    "comps_with omap3_components ''image_decoder.jpeg'' = [''OMX.TI.JPEG.decoder'']"
    by code_simp+
  show ?thesis
    using role_queries_correct [OF omap3_view omap3_components_facts(4), of "''image_decoder.jpeg''" 1 "[[]]" 1 "[[]]"] f
    by simp
qed

lemma get_loop_partial:
  assumes "componentTable s = table_of acc" and "name \<notin> fst ` set acc"
  shows "refIndex + k = MAX_TABLE_SIZE \<Longrightarrow> refIndex \<le> length acc \<Longrightarrow> length acc < MAX_TABLE_SIZE \<Longrightarrow>
    get_loop env i name s h refIndex k = None"
proof (induction k arbitrary: refIndex)
  case 0
  then show ?case by simp
next
  case (Suc k)
  have l: "length (componentTable s) = MAX_TABLE_SIZE" using assms(1) Suc.prems table_of_length by simp
  show ?case
  proof (cases "refIndex = length acc")
    case True
    with assms(1) Suc.prems l table_of_snoc(2) [of acc] show ?thesis by (simp add: comp_entry0_def)
  next
    case False
    then have i: "refIndex < length acc" using Suc.prems by simp
    then have "fst (acc ! refIndex) \<noteq> name" using assms(2) by (metis image_eqI nth_mem)
    with Suc.IH [of "Suc refIndex"] Suc.prems i l assms(1) show ?thesis
      by (simp add: table_of_nth) (simp add: entry_of_def)
  qed
qed

definition omap4_components :: "comp_abs list" where
  "omap4_components = spec_rows [] (tComponentName True)"

text \<open>
  when the table is not full, as on OMAP4, asking for a component that is not in it runs
  into the first unused entry and passes its null name to \<open>strcmp\<close>: the call faults instead of
  returning \<open>OMX_ErrorComponentNotFound\<close>.
\<close>

theorem TIOMX_GetHandle_unknown_faults:
  assumes "componentTable s = table_of acc" and "length acc < MAX_TABLE_SIZE" and "name \<notin> fst ` set acc"
    and "length (pModules s) = MAXCOMP" and "NULL \<in> set (pModules s)" and "length name < MAXNAMESIZE" and "env_lock env"
  shows "TIOMX_GetHandle env s (Some h) (Some name) True = None"
proof -
  obtain i where "first_index (\<lambda>x. x = NULL) (pModules s) = Some i"
    using assms(5) first_index_None [of "\<lambda>x. x = NULL" "pModules s"]
    by (cases "first_index (\<lambda>x. x = NULL) (pModules s)") auto
  with get_loop_partial [OF assms(1,3), of 0 MAX_TABLE_SIZE] assms(2,4,6,7) show ?thesis
    by (simp add: TIOMX_GetHandle_def scan_closed Let_def)
qed

theorem TIOMX_GetHandle_unknown_faults_witness:
  "TIOMX_GetHandle (good_env 16) (core_init\<lparr>componentTable := table_of omap4_components, tableCount := 29\<rparr>)
     (Some NULL) (Some ''OMX.TI.VP8.decode'') True = None"
proof -
  have "length omap4_components = 29" by code_simp
  moreover have "\<not> list_ex (\<lambda>x. fst x = ''OMX.TI.VP8.decode'') omap4_components" by code_simp
  then have "''OMX.TI.VP8.decode'' \<notin> fst ` set omap4_components" by (auto simp: list_ex_iff)
  ultimately show ?thesis
    by (intro TIOMX_GetHandle_unknown_faults [where acc = omap4_components]) (simp_all add: core_init_def)
qed

text \<open>
  on OMAP3 the 39 rows name 31 components for a table of 30: the last one,
  \<open>OMX.ITTIAM.WMAPRO.decode\<close>, is silently dropped and can never be created.
\<close>

theorem TIOMX_Init_drops_component:
  "(''OMX.ITTIAM.WMAPRO.decode'', Some ''audio_decoder.wma'', 4) \<in> set (tComponentName False)
   \<and> TIOMX_GetHandle (good_env m) omap3_state (Some NULL) (Some ''OMX.ITTIAM.WMAPRO.decode'') True
     = Some (OMX_ErrorComponentNotFound, omap3_state, Some NULL)"
proof -
  let ?n = "''OMX.ITTIAM.WMAPRO.decode''"
  have "\<not> list_ex (\<lambda>e. ceName e = Some ?n) (componentTable omap3_state)" by code_simp
  then have no: "ceName e \<noteq> Some ?n" if "e \<in> set (componentTable omap3_state)" for e
    using that by (auto simp: list_ex_iff)
  have l: "length (componentTable omap3_state) = MAX_TABLE_SIZE" using omap3_wf by (simp add: core_wf_def)
  have "get_loop (good_env m) 0 ?n omap3_state NULL 0 MAX_TABLE_SIZE
      = Some (Get_cleanup OMX_ErrorComponentNotFound omap3_state NULL)"
    using no l by (intro get_loop_miss core_wf_named omap3_wf) simp_all
  moreover have "get_cleanup omap3_state 0 NULL = Some (omap3_state, NULL)"
    by (simp add: get_cleanup_def omap3_state_def core_init_def restore_slot)
  ultimately show ?thesis
    using omap3_first(2) free_slot_scan [OF omap3_wf]
    by (simp add: TIOMX_GetHandle_def Let_def) (simp add: tComponentName_def)
qed

text \<open>
  the tunnel set-up asks the output component first, passes the set-up that it returns to
  the input component, and cancels the request of the output component when the input
  component refuses; the error is that of the component that refused.
\<close>

theorem TIOMX_SetupTunnel_calls:
  assumes "hOutput \<noteq> NULL" and "hInput \<noteq> NULL"
    and "req (hOutput, nOut, hInput, nIn, Some (0, 0)) = (e1, st1)" and "req (hInput, nIn, hOutput, nOut, Some st1) = (e2, st2)"
  shows "TIOMX_SetupTunnel req hOutput nOut hInput nIn =
    (if e1 \<noteq> OMX_ErrorNone then (e1, [(hOutput, nOut, hInput, nIn, Some (0, 0))])
     else (e2, [(hOutput, nOut, hInput, nIn, Some (0, 0)), (hInput, nIn, hOutput, nOut, Some st1)]
       @ (if e2 = OMX_ErrorNone then [] else [(hOutput, nOut, NULL, 0, None)])))"
  using assms by (simp add: TIOMX_SetupTunnel_def Let_def)

theorem TIOMX_SetupTunnel_calls_witness:
  "TIOMX_SetupTunnel (\<lambda>(h, _). if h = 16 then (OMX_ErrorNone, (0, 2)) else (OMX_ErrorPortsNotCompatible, (0, 0))) 16 1 17 0
   = (OMX_ErrorPortsNotCompatible, [(16, 1, 17, 0, Some (0, 0)), (17, 0, 16, 1, Some (0, 2)), (16, 1, NULL, 0, None)])"
  by (subst TIOMX_SetupTunnel_calls) auto

end
