(* ===== verification/Activity_Monitor.thy ===== *)
theory Activity_Monitor
  imports C_Strings
begin

section \<open>The resource activity monitor\<close>

text \<open>
  Model of \<open>resource_manager/resource_activity_monitor/src/Resource_Activity_Monitor.c\<close>: the
  operating point (OPP) for a requested DSP load, the boost, and the minimum CPU frequency.
  The values read from sysfs are a record \<open>ram_env\<close> (a missing file is \<^const>\<open>None\<close>; a file
  without a number reads as 0); what is written is the list of shell commands given to
  \<open>system\<close>. The flag \<open>dvfs\<close> is the build option \<open>DVFS_ENABLED\<close>.
\<close>

subsection \<open>Data\<close>

datatype OMAP_CPU = OMAP3420_CPU | OMAP3430_CPU | OMAP3440_CPU | OMAP3630_CPU | OMAP_NOT_SUPPORTED

datatype BOOST_LEVEL = MAX_BOOST | NOMINAL_BOOST

text \<open>The enumeration value that is returned as an operating point for an unknown CPU.\<close>

abbreviation (input) "NOT_SUPPORTED_VALUE \<equiv> (4 :: nat)"

abbreviation (input) "OPERATING_POINT_1 \<equiv> (0 :: nat)"
abbreviation (input) "OPERATING_POINT_2 \<equiv> (1 :: nat)"
abbreviation (input) "OPERATING_POINT_3 \<equiv> (2 :: nat)"
abbreviation (input) "OPERATING_POINT_4 \<equiv> (3 :: nat)"
abbreviation (input) "OPERATING_POINT_5 \<equiv> (4 :: nat)"
abbreviation (input) "OPERATING_POINT_6 \<equiv> (5 :: nat)"

abbreviation (input) "C_STATE_2 \<equiv> (1 :: int)"
abbreviation (input) "C_STATE_6 \<equiv> (5 :: int)"
abbreviation (input) "C_STATE_9 \<equiv> (8 :: int)"

definition vdd1_dsp_mhz_3420 :: "int list" where "vdd1_dsp_mhz_3420 = [90, 180, 360, 360, 360]"
definition vdd1_mpu_mhz_3420 :: "int list" where "vdd1_mpu_mhz_3420 = [125, 250, 500, 550, 600]"
definition vdd1_dsp_mhz_3430 :: "int list" where "vdd1_dsp_mhz_3430 = [90, 180, 360, 430, 430]"
definition vdd1_mpu_mhz_3430 :: "int list" where "vdd1_mpu_mhz_3430 = [125, 250, 500, 550, 600]"
definition vdd1_dsp_mhz_3440 :: "int list" where "vdd1_dsp_mhz_3440 = [90, 180, 360, 430, 430, 520]"
definition vdd1_mpu_mhz_3440 :: "int list" where "vdd1_mpu_mhz_3440 = [125, 250, 500, 550, 600, 720]"

text \<open>Both 3630 tables are declared with five elements and have four initialisers.\<close>

definition vdd1_dsp_mhz_3630 :: "int list" where "vdd1_dsp_mhz_3630 = [260, 520, 660, 800, 0]"
definition vdd1_mpu_mhz_3630 :: "int list" where "vdd1_mpu_mhz_3630 = [300, 600, 800, 1000, 0]"

lemmas mhz_tables = vdd1_dsp_mhz_3420_def vdd1_mpu_mhz_3420_def vdd1_dsp_mhz_3430_def vdd1_mpu_mhz_3430_def
  vdd1_dsp_mhz_3440_def vdd1_mpu_mhz_3440_def vdd1_dsp_mhz_3630_def vdd1_mpu_mhz_3630_def

record ram_env =
  sys_max_dsp_frequency :: "int option"
  sys_cpuinfo_cur_freq :: "int option"
  sys_dsp_opp :: "int option"
  sys_scaling_min_freq :: "int option"

record ram_state =
  currentMHzConstraint :: int
  bBoostOn :: bool

definition ram_init :: ram_state where
  "ram_init = \<lparr>currentMHzConstraint = 0, bBoostOn = False\<rparr>"

subsection \<open>The CPU and its frequencies\<close>

definition get_dsp_max_freq :: "ram_env \<Rightarrow> int" where
  "get_dsp_max_freq env = (case sys_max_dsp_frequency env of None \<Rightarrow> 0 | Some f \<Rightarrow> f sdiv 1000000)"

definition get_omap_version :: "ram_env \<Rightarrow> OMAP_CPU" where
  "get_omap_version env =
     (let dsp_max_freq = get_dsp_max_freq env
      in if dsp_max_freq = vdd1_dsp_mhz_3420 ! OPERATING_POINT_5 then OMAP3420_CPU
         else if dsp_max_freq = vdd1_dsp_mhz_3430 ! OPERATING_POINT_5 then OMAP3430_CPU
         else if dsp_max_freq = vdd1_dsp_mhz_3440 ! OPERATING_POINT_6 then OMAP3440_CPU
         else if dsp_max_freq = vdd1_dsp_mhz_3630 ! OPERATING_POINT_4 then OMAP3630_CPU
         else OMAP_NOT_SUPPORTED)"

text \<open>The \<open>if\<close> cascade that maps the MPU frequency to the DSP frequency of the same operating point.\<close>

primrec mpu_to_dsp :: "int \<Rightarrow> int list \<Rightarrow> int list \<Rightarrow> nat \<Rightarrow> nat \<Rightarrow> int" where
  "mpu_to_dsp cur mpu dsp i 0 = 0"
| "mpu_to_dsp cur mpu dsp i (Suc k) = (if cur = mpu ! i then dsp ! i else mpu_to_dsp cur mpu dsp (Suc i) k)"

text \<open>Without DVFS the local \<open>cpu_variant\<close> keeps its initial value 0, which is \<open>OMAP3420_CPU\<close>.\<close>

definition get_curr_cpu_mhz :: "bool \<Rightarrow> ram_env \<Rightarrow> int \<Rightarrow> int" where
  "get_curr_cpu_mhz dvfs env omapVersion =
     (if dvfs then
        case sys_cpuinfo_cur_freq env of None \<Rightarrow> - 1
        | Some f \<Rightarrow>
            (let cur_freq = f sdiv 1000
             in case get_omap_version env of
                  OMAP3420_CPU \<Rightarrow> mpu_to_dsp cur_freq vdd1_mpu_mhz_3420 vdd1_dsp_mhz_3420 0 5
                | OMAP3430_CPU \<Rightarrow> mpu_to_dsp cur_freq vdd1_mpu_mhz_3430 vdd1_dsp_mhz_3430 0 5
                | OMAP3440_CPU \<Rightarrow> mpu_to_dsp cur_freq vdd1_mpu_mhz_3440 vdd1_dsp_mhz_3440 0 6
                | OMAP3630_CPU \<Rightarrow> mpu_to_dsp cur_freq vdd1_mpu_mhz_3630 vdd1_dsp_mhz_3630 0 4
                | OMAP_NOT_SUPPORTED \<Rightarrow> 0)
      else
        (let cpu_variant = OMAP3420_CPU
         in case cpu_variant of
              OMAP3420_CPU \<Rightarrow> vdd1_dsp_mhz_3420 ! OPERATING_POINT_4
            | OMAP3430_CPU \<Rightarrow> vdd1_dsp_mhz_3430 ! OPERATING_POINT_4
            | OMAP3440_CPU \<Rightarrow> vdd1_dsp_mhz_3440 ! OPERATING_POINT_4
            | OMAP3630_CPU \<Rightarrow> vdd1_dsp_mhz_3630 ! OPERATING_POINT_3
            | OMAP_NOT_SUPPORTED \<Rightarrow> 0))"

definition dsp_mhz_to_vdd1_opp :: "ram_env \<Rightarrow> int \<Rightarrow> nat" where
  "dsp_mhz_to_vdd1_opp env MHz =
     (case get_omap_version env of
        OMAP3420_CPU \<Rightarrow>
          (if MHz \<le> vdd1_dsp_mhz_3420 ! OPERATING_POINT_2 then OPERATING_POINT_2
           else if MHz \<le> vdd1_dsp_mhz_3420 ! OPERATING_POINT_3 then OPERATING_POINT_3
           else if MHz \<le> vdd1_dsp_mhz_3420 ! OPERATING_POINT_4 then OPERATING_POINT_4
           else OPERATING_POINT_5)
      | OMAP3440_CPU \<Rightarrow>
          (if MHz \<le> vdd1_dsp_mhz_3440 ! OPERATING_POINT_2 then OPERATING_POINT_2
           else if MHz \<le> vdd1_dsp_mhz_3440 ! OPERATING_POINT_3 then OPERATING_POINT_3
           else if MHz \<le> vdd1_dsp_mhz_3440 ! OPERATING_POINT_4 then OPERATING_POINT_4
           else if MHz \<le> vdd1_dsp_mhz_3440 ! OPERATING_POINT_5 then OPERATING_POINT_5
           else OPERATING_POINT_6)
      | OMAP3430_CPU \<Rightarrow>
          (if MHz \<le> vdd1_dsp_mhz_3430 ! OPERATING_POINT_2 then OPERATING_POINT_2
           else if MHz \<le> vdd1_dsp_mhz_3430 ! OPERATING_POINT_3 then OPERATING_POINT_3
           else if MHz \<le> vdd1_dsp_mhz_3430 ! OPERATING_POINT_4 then OPERATING_POINT_4
           else OPERATING_POINT_5)
      | OMAP3630_CPU \<Rightarrow>
          (if MHz \<le> vdd1_dsp_mhz_3630 ! OPERATING_POINT_1 then OPERATING_POINT_1
           else if MHz \<le> vdd1_dsp_mhz_3630 ! OPERATING_POINT_2 then OPERATING_POINT_2
           else if MHz \<le> vdd1_dsp_mhz_3630 ! OPERATING_POINT_3 then OPERATING_POINT_3
           else OPERATING_POINT_4)
      | OMAP_NOT_SUPPORTED \<Rightarrow> NOT_SUPPORTED_VALUE)"

definition dsp_mhz_to_min_scaling_freq :: "ram_env \<Rightarrow> int \<Rightarrow> int" where
  "dsp_mhz_to_min_scaling_freq env MHz =
     (case get_omap_version env of
        OMAP3420_CPU \<Rightarrow>
          (if MHz \<le> vdd1_dsp_mhz_3420 ! OPERATING_POINT_2 then vdd1_dsp_mhz_3420 ! OPERATING_POINT_2
           else if MHz \<le> vdd1_dsp_mhz_3420 ! OPERATING_POINT_3 then vdd1_dsp_mhz_3420 ! OPERATING_POINT_3
           else if MHz \<le> vdd1_dsp_mhz_3420 ! OPERATING_POINT_4 then vdd1_dsp_mhz_3420 ! OPERATING_POINT_4
           else vdd1_dsp_mhz_3420 ! OPERATING_POINT_5)
      | OMAP3440_CPU \<Rightarrow>
          (if MHz \<le> vdd1_dsp_mhz_3440 ! OPERATING_POINT_2 then vdd1_dsp_mhz_3440 ! OPERATING_POINT_2
           else if MHz \<le> vdd1_dsp_mhz_3440 ! OPERATING_POINT_3 then vdd1_dsp_mhz_3440 ! OPERATING_POINT_3
           else if MHz \<le> vdd1_dsp_mhz_3440 ! OPERATING_POINT_4 then vdd1_dsp_mhz_3440 ! OPERATING_POINT_4
           else if MHz \<le> vdd1_dsp_mhz_3440 ! OPERATING_POINT_5 then vdd1_dsp_mhz_3440 ! OPERATING_POINT_5
           else vdd1_dsp_mhz_3440 ! OPERATING_POINT_6)
      | OMAP3430_CPU \<Rightarrow>
          (if MHz \<le> vdd1_dsp_mhz_3430 ! OPERATING_POINT_2 then vdd1_dsp_mhz_3430 ! OPERATING_POINT_2
           else if MHz \<le> vdd1_dsp_mhz_3430 ! OPERATING_POINT_3 then vdd1_dsp_mhz_3430 ! OPERATING_POINT_3
           else if MHz \<le> vdd1_dsp_mhz_3430 ! OPERATING_POINT_4 then vdd1_dsp_mhz_3430 ! OPERATING_POINT_4
           else vdd1_dsp_mhz_3430 ! OPERATING_POINT_5)
      | OMAP3630_CPU \<Rightarrow>
          (if MHz \<le> vdd1_dsp_mhz_3630 ! OPERATING_POINT_1 then vdd1_dsp_mhz_3630 ! OPERATING_POINT_1
           else if MHz \<le> vdd1_dsp_mhz_3630 ! OPERATING_POINT_2 then vdd1_dsp_mhz_3630 ! OPERATING_POINT_2
           else if MHz \<le> vdd1_dsp_mhz_3630 ! OPERATING_POINT_3 then vdd1_dsp_mhz_3630 ! OPERATING_POINT_3
           else vdd1_dsp_mhz_3630 ! OPERATING_POINT_4)
      | OMAP_NOT_SUPPORTED \<Rightarrow> 0)"

definition rm_get_vdd1_constraint :: "ram_env \<Rightarrow> int" where
  "rm_get_vdd1_constraint env = (case sys_dsp_opp env of None \<Rightarrow> 0 | Some v \<Rightarrow> v)"

definition rm_get_min_scaling_freq :: "ram_env \<Rightarrow> int" where
  "rm_get_min_scaling_freq env = (case sys_scaling_min_freq env of None \<Rightarrow> - 1 | Some v \<Rightarrow> v)"

subsection \<open>Constraints and boost\<close>

definition echo_command :: "int \<Rightarrow> string \<Rightarrow> string" where
  "echo_command v path = ''echo '' @ ram_itoa v @ '' > '' @ path"

definition idle_c_state :: "ram_env \<Rightarrow> int" where
  "idle_c_state env = (if get_omap_version env = OMAP3630_CPU then C_STATE_9 else C_STATE_6)"

definition rm_set_vdd1_constraint :: "bool \<Rightarrow> ram_env \<Rightarrow> ram_state \<Rightarrow> int \<Rightarrow> int \<times> ram_state \<times> string list" where
  "rm_set_vdd1_constraint dvfs env s MHz =
     (if \<not> dvfs then (int OPERATING_POINT_1, s, [])
      else
        let s' = s\<lparr>currentMHzConstraint := MHz\<rparr>;
            (opp, c_state) = (if MHz = 0 then (OPERATING_POINT_1, idle_c_state env)
                              else (dsp_mhz_to_vdd1_opp env MHz, C_STATE_2));
            vdd1_opp = int opp + 1
        in if \<not> bBoostOn s' \<or> (bBoostOn s' \<and> rm_get_vdd1_constraint env < vdd1_opp)
           then (vdd1_opp, s', [echo_command vdd1_opp ''/sys/power/dsp_opp'',
                                echo_command c_state ''/sys/devices/system/cpu/cpu0/cpuidle/max_state''])
           else (vdd1_opp, s', []))"

definition boost_mhz :: "OMAP_CPU \<Rightarrow> nat \<Rightarrow> int" where
  "boost_mhz cpu k =
     (case cpu of
        OMAP3420_CPU \<Rightarrow> vdd1_dsp_mhz_3420 ! (length vdd1_dsp_mhz_3420 - k)
      | OMAP3440_CPU \<Rightarrow> vdd1_dsp_mhz_3440 ! (length vdd1_dsp_mhz_3440 - k)
      | OMAP3630_CPU \<Rightarrow> vdd1_dsp_mhz_3630 ! (length vdd1_dsp_mhz_3630 - k)
      | OMAP3430_CPU \<Rightarrow> vdd1_dsp_mhz_3430 ! (length vdd1_dsp_mhz_3430 - k)
      | OMAP_NOT_SUPPORTED \<Rightarrow> 0)"

definition rm_request_boost :: "bool \<Rightarrow> ram_env \<Rightarrow> ram_state \<Rightarrow> BOOST_LEVEL \<Rightarrow> ram_state \<times> string list" where
  "rm_request_boost dvfs env s level =
     (let boostConstraintMHz = (case level of MAX_BOOST \<Rightarrow> boost_mhz (get_omap_version env) 1
                                | NOMINAL_BOOST \<Rightarrow> boost_mhz (get_omap_version env) 2);
          (_, s', cmds) = rm_set_vdd1_constraint dvfs env s boostConstraintMHz
      in (s'\<lparr>bBoostOn := True\<rparr>, cmds))"

definition rm_release_boost :: "bool \<Rightarrow> ram_env \<Rightarrow> ram_state \<Rightarrow> ram_state \<times> string list" where
  "rm_release_boost dvfs env s =
     (let s1 = s\<lparr>bBoostOn := False\<rparr>;
          (_, s', cmds) = rm_set_vdd1_constraint dvfs env s1 (currentMHzConstraint s1)
      in (s', cmds))"

definition rm_set_min_scaling_freq :: "bool \<Rightarrow> ram_env \<Rightarrow> int \<Rightarrow> int \<times> string list" where
  "rm_set_min_scaling_freq dvfs env MHz =
     (if \<not> dvfs then (0, [])
      else if rm_get_min_scaling_freq env < 0 then (- 1, [])
      else
        let c_state = (if MHz = 0 then idle_c_state env else C_STATE_2);
            freq = dsp_mhz_to_min_scaling_freq env MHz
        in (freq, [echo_command freq ''/sys/devices/system/cpu/cpu0/cpufreq/scaling_min_freq'',
                   echo_command c_state ''/sys/devices/system/cpu/cpu0/cpuidle/max_state'']))"

subsection \<open>Lemmas\<close>

text \<open>The DSP table of a CPU, its lowest usable operating point and its highest one.\<close>

definition dsp_table :: "OMAP_CPU \<Rightarrow> int list" where
  "dsp_table cpu = (case cpu of OMAP3420_CPU \<Rightarrow> vdd1_dsp_mhz_3420 | OMAP3430_CPU \<Rightarrow> vdd1_dsp_mhz_3430
     | OMAP3440_CPU \<Rightarrow> vdd1_dsp_mhz_3440 | OMAP3630_CPU \<Rightarrow> vdd1_dsp_mhz_3630 | OMAP_NOT_SUPPORTED \<Rightarrow> [])"

definition low_opp :: "OMAP_CPU \<Rightarrow> nat" where
  "low_opp cpu = (if cpu = OMAP3630_CPU then OPERATING_POINT_1 else OPERATING_POINT_2)"

definition top_opp :: "OMAP_CPU \<Rightarrow> nat" where
  "top_opp cpu = (case cpu of OMAP3440_CPU \<Rightarrow> OPERATING_POINT_6 | OMAP3630_CPU \<Rightarrow> OPERATING_POINT_4 | _ \<Rightarrow> OPERATING_POINT_5)"

lemmas opp_simps = dsp_table_def low_opp_def top_opp_def mhz_tables less_Suc_eq eval_nat_numeral

lemma ram_itoa_small: "0 \<le> v \<Longrightarrow> v < 1000 \<Longrightarrow> ram_itoa v = dec (nat v)"
  using ram_itoa_nat [of "nat v"] by simp

lemma opp_range: "dsp_mhz_to_vdd1_opp env MHz \<le> 5"
  by (cases "get_omap_version env") (simp_all add: dsp_mhz_to_vdd1_opp_def)

lemma scaling_is_table:
  "get_omap_version env \<noteq> OMAP_NOT_SUPPORTED \<Longrightarrow>
   dsp_mhz_to_min_scaling_freq env MHz = dsp_table (get_omap_version env) ! dsp_mhz_to_vdd1_opp env MHz"
  by (cases "get_omap_version env") (simp_all add: dsp_mhz_to_min_scaling_freq_def dsp_mhz_to_vdd1_opp_def dsp_table_def)

lemma opp_least:
  assumes "get_omap_version env = cpu" and "cpu \<noteq> OMAP_NOT_SUPPORTED"
  shows "low_opp cpu \<le> dsp_mhz_to_vdd1_opp env MHz \<and> dsp_mhz_to_vdd1_opp env MHz \<le> top_opp cpu
    \<and> (MHz \<le> dsp_table cpu ! top_opp cpu \<longrightarrow> MHz \<le> dsp_table cpu ! dsp_mhz_to_vdd1_opp env MHz)
    \<and> (\<forall>k. low_opp cpu \<le> k \<and> k < dsp_mhz_to_vdd1_opp env MHz \<longrightarrow> dsp_table cpu ! k < MHz)"
proof (cases cpu)
  case OMAP3420_CPU
  with assms show ?thesis by (auto simp: dsp_mhz_to_vdd1_opp_def opp_simps)
next
  case OMAP3430_CPU
  with assms show ?thesis by (auto simp: dsp_mhz_to_vdd1_opp_def opp_simps)
next
  case OMAP3440_CPU
  with assms show ?thesis by (auto simp: dsp_mhz_to_vdd1_opp_def opp_simps)
next
  case OMAP3630_CPU
  with assms show ?thesis by (auto simp: dsp_mhz_to_vdd1_opp_def opp_simps)
qed (use assms in simp)

subsection \<open>Properties\<close>

definition omap3630_env :: ram_env where
  "omap3630_env = \<lparr>sys_max_dsp_frequency = Some 800000000, sys_cpuinfo_cur_freq = Some 600000,
     sys_dsp_opp = Some 2, sys_scaling_min_freq = Some 300000\<rparr>"

definition omap3440_env :: ram_env where
  "omap3440_env = \<lparr>sys_max_dsp_frequency = Some 520000000, sys_cpuinfo_cur_freq = Some 600000,
     sys_dsp_opp = Some 2, sys_scaling_min_freq = Some 125000\<rparr>"

lemma env_versions [simp]:
  "get_omap_version omap3630_env = OMAP3630_CPU" "get_omap_version omap3440_env = OMAP3440_CPU"
  by code_simp+

text \<open>
  C12: on a supported CPU the operating point is between the lowest that multimedia may use and
  the highest of the CPU, it is fast enough for the load whenever the CPU is, and every usable
  lower point is too slow; the minimum scaling frequency is the table entry of that point.
\<close>

theorem dsp_mhz_to_vdd1_opp_least:
  assumes "get_omap_version env = cpu" and "cpu \<noteq> OMAP_NOT_SUPPORTED"
  shows "low_opp cpu \<le> dsp_mhz_to_vdd1_opp env MHz \<and> dsp_mhz_to_vdd1_opp env MHz \<le> top_opp cpu
    \<and> (MHz \<le> dsp_table cpu ! top_opp cpu \<longrightarrow> MHz \<le> dsp_table cpu ! dsp_mhz_to_vdd1_opp env MHz)
    \<and> (\<forall>k. low_opp cpu \<le> k \<and> k < dsp_mhz_to_vdd1_opp env MHz \<longrightarrow> dsp_table cpu ! k < MHz)
    \<and> dsp_mhz_to_min_scaling_freq env MHz = dsp_table cpu ! dsp_mhz_to_vdd1_opp env MHz"
  using opp_least [OF assms] scaling_is_table [of env] assms by simp

theorem dsp_mhz_to_vdd1_opp_least_witness:
  "400 \<le> dsp_table OMAP3440_CPU ! dsp_mhz_to_vdd1_opp omap3440_env 400
   \<and> dsp_mhz_to_min_scaling_freq omap3440_env 400 = dsp_table OMAP3440_CPU ! dsp_mhz_to_vdd1_opp omap3440_env 400"
  using dsp_mhz_to_vdd1_opp_least [of omap3440_env OMAP3440_CPU 400]
  by (simp add: dsp_table_def top_opp_def mhz_tables)

text \<open>
  C13: while a boost is on, a constraint is only written when it raises the operating point
  above the one in force, and what is written is the decimal number of the returned point,
  between 1 and 6, followed by the C-state.
\<close>

theorem rm_set_vdd1_constraint_writes:
  assumes "rm_set_vdd1_constraint dvfs env s MHz = (opp, s', cmds)" and "cmds \<noteq> []"
  shows "(bBoostOn s \<longrightarrow> rm_get_vdd1_constraint env < opp) \<and> 1 \<le> opp \<and> opp \<le> 6 \<and> currentMHzConstraint s' = MHz
    \<and> (\<exists>c. cmds = [''echo '' @ dec (nat opp) @ '' > /sys/power/dsp_opp'', echo_command c ''/sys/devices/system/cpu/cpu0/cpuidle/max_state''])"
proof -
  let ?opp = "if MHz = 0 then OPERATING_POINT_1 else dsp_mhz_to_vdd1_opp env MHz"
  let ?c = "if MHz = 0 then idle_c_state env else C_STATE_2"
  have r: "int ?opp + 1 \<le> 6" using opp_range [of env MHz] by simp
  have d: dvfs using assms by (cases dvfs) (auto simp: rm_set_vdd1_constraint_def)
  with assms have o: "opp = int ?opp + 1" "s' = s\<lparr>currentMHzConstraint := MHz\<rparr>"
    "bBoostOn s \<longrightarrow> rm_get_vdd1_constraint env < opp"
    "cmds = [echo_command opp ''/sys/power/dsp_opp'', echo_command ?c ''/sys/devices/system/cpu/cpu0/cpuidle/max_state'']"
    by (auto simp: rm_set_vdd1_constraint_def Let_def split: if_splits)
  moreover have "ram_itoa opp = dec (nat opp)" using r o(1) by (intro ram_itoa_small) simp_all
  ultimately show ?thesis using r by (auto simp: echo_command_def)
qed

theorem rm_set_vdd1_constraint_writes_witness:
  "1 \<le> fst (rm_set_vdd1_constraint True omap3440_env ram_init 200) \<and> fst (rm_set_vdd1_constraint True omap3440_env ram_init 200) \<le> 6"
  using rm_set_vdd1_constraint_writes [of True omap3440_env ram_init 200]
  by (cases "rm_set_vdd1_constraint True omap3440_env ram_init 200")
    (simp add: rm_set_vdd1_constraint_def ram_init_def Let_def split: if_splits)

text \<open>
  on OMAP3630 the maximum boost takes the fifth entry of a table with four frequencies,
  which is 0 MHz: it writes exactly the commands of the idle case, the lowest operating point
  and the deepest C-state.
\<close>

theorem rm_request_boost_3630_idles:
  assumes "get_omap_version env = OMAP3630_CPU"
  shows "snd (rm_request_boost dvfs env s MAX_BOOST) = snd (snd (rm_set_vdd1_constraint dvfs env s 0))
    \<and> (dvfs \<and> \<not> bBoostOn s \<longrightarrow> snd (rm_request_boost dvfs env s MAX_BOOST)
        = [''echo 1 > /sys/power/dsp_opp'', ''echo 8 > /sys/devices/system/cpu/cpu0/cpuidle/max_state''])"
proof -
  have z: "boost_mhz (get_omap_version env) 1 = 0" using assms by (simp add: boost_mhz_def mhz_tables)
  have "ram_itoa 1 = ''1''" "ram_itoa 8 = ''8''" by code_simp+
  with z assms show ?thesis
    by (simp add: rm_request_boost_def rm_set_vdd1_constraint_def idle_c_state_def echo_command_def Let_def split: prod.split)
qed

theorem rm_request_boost_3630_idles_witness:
  "snd (rm_request_boost True omap3630_env ram_init MAX_BOOST)
     = [''echo 1 > /sys/power/dsp_opp'', ''echo 8 > /sys/devices/system/cpu/cpu0/cpuidle/max_state'']"
  using rm_request_boost_3630_idles [of omap3630_env True ram_init] by (auto simp: ram_init_def)

text \<open>
  releasing a boost does not restore the constraint that was in force before it: the boost
  request itself has overwritten \<open>currentMHzConstraint\<close>, so the release sets the boost
  frequency again, whatever the load was.
\<close>

theorem rm_release_boost_keeps_boost:
  "let (s1, _) = rm_request_boost True env s level; (s2, cmds) = rm_release_boost True env' s1;
       boost = boost_mhz (get_omap_version env) (case level of MAX_BOOST \<Rightarrow> 1 | NOMINAL_BOOST \<Rightarrow> 2)
   in currentMHzConstraint s2 = boost \<and> \<not> bBoostOn s2
      \<and> cmds = snd (snd (rm_set_vdd1_constraint True env' ram_init boost))"
  by (simp add: rm_request_boost_def rm_release_boost_def rm_set_vdd1_constraint_def ram_init_def Let_def
      split: prod.split BOOST_LEVEL.split)

text \<open>
  without DVFS the CPU variant is never read, so the frequency that the resource manager
  takes for the capacity of the DSP is 360 MHz on every CPU, also on those whose nominal
  frequency is 430 or 660 MHz.
\<close>

theorem get_curr_cpu_mhz_ignores_variant:
  "get_curr_cpu_mhz False env omapVersion = 360"
  by (simp add: get_curr_cpu_mhz_def mhz_tables)

end
