(* ===== verification/Resource_Manager.thy ===== *)
theory Resource_Manager
  imports Policy_Manager Activity_Monitor
begin

section \<open>The resource manager\<close>

text \<open>
  Model of \<open>resource_manager/src/ResourceManager.c\<close>: the daemon between the proxies of the
  client processes and the policy manager. It keeps the list of registered components with
  their pipes, forwards requests to the policy manager, checks the DSP memory and load when a
  policy is granted, keeps the CPU totals of the executing components, and tells all clients
  when the DSP has failed. The model is the build without \<open>__ENABLE_RMPM_STUB__\<close>.

  The globals, with \<open>cmd_data\<close> and \<open>globalrequest_cmd_data\<close> that several handlers share, are
  the fields of \<open>rm_state\<close>. What is read from and written to pipes are events and outputs.
  The DSP bridge and the QoS library are a record \<open>qos_env\<close>, the opening of a pipe a
  function from its path to a file descriptor.
\<close>

subsection \<open>Data\<close>

datatype RM_COMMANDTYPE = RM_Init | RM_RequestResource | RM_WaitForResource | RM_FreeResource
  | RM_FreeAndCloseResource | RM_CancelWaitForResource | RM_StateSet | RM_OpenPipe | RM_ReusePipe
  | RM_Exit | RM_ExitTI

datatype RM_STATUSTYPE = RM_ErrorNone | RM_GRANT | RM_DENY | RM_PREEMPT | RM_RESOURCEACQUIRED | RM_RESOURCEFATALERROR

text \<open>\<open>RM_StatusUnset\<close> is the value 0 of the statically initialised array.\<close>

datatype RM_COMPONENTSTATUS = RM_StatusUnset | RM_ComponentActive | RM_WaitingForClient
  | RM_WaitingForResource | RM_WaitingForPolicy

datatype RM_DENYREASON = RM_ReasonNone | RM_ReasonResource | RM_ReasonPolicy

text \<open>The values of \<open>OMX_STATETYPE\<close>; the state arrives as a 32-bit parameter.\<close>

abbreviation (input) "OMX_StateIdle \<equiv> (2 :: u32)"
abbreviation (input) "OMX_StateExecuting \<equiv> (3 :: u32)"
abbreviation (input) "OMX_StatePause \<equiv> (4 :: u32)"
abbreviation (input) "OMX_StateWaitForResources \<equiv> (5 :: u32)"

record rm_command =
  rmComponent :: handle
  rmPid :: u32
  rmCmd :: RM_COMMANDTYPE
  rmParam1 :: u32
  rmParam2 :: u32
  rmParam3 :: u32
  rmParam4 :: u32
  rmStatus :: RM_STATUSTYPE

record rm_comp =
  rcHandle :: handle
  rcPid :: u32
  rcState :: u32
  rcCPU :: u32
  rcPipe :: int
  rcStatus :: RM_COMPONENTSTATUS
  rcReason :: RM_DENYREASON

text \<open>
  \<open>watch\<close> says where the fatal error thread is: setting up its notifications, waiting for an
  event, or gone.
\<close>

datatype watch_phase = Watch_setup | Watch_wait | Watch_exit

record rm_state =
  rmNum :: nat
  rmList :: "rm_comp list"
  stub_mode :: bool
  mmuRecoveryInProgress :: bool
  totalCpu :: u32
  imageTotalCpu :: u32
  videoTotalCpu :: u32
  audioTotalCpu :: u32
  lcdTotalCpu :: u32
  cameraTotalCpu :: u32
  cmd_data :: rm_command
  globalrequest :: rm_command
  rmFdwrite :: int
  snapshotsCaptured :: nat
  cpuLoadSnapshots :: "int list"
  averageCpuLoad :: int
  cyclesAvailable :: u32
  watch :: watch_phase
  rmRam :: ram_state

abbreviation (input) "RM_MAXCOMPONENTS \<equiv> (100 :: nat)"
abbreviation (input) "RM_CPUAVGDEPTH \<equiv> (5 :: nat)"

definition rm_command0 :: rm_command where
  "rm_command0 = \<lparr>rmComponent = NULL, rmPid = 0, rmCmd = RM_Init, rmParam1 = 0, rmParam2 = 0, rmParam3 = 0,
     rmParam4 = 0, rmStatus = RM_ErrorNone\<rparr>"

definition rm_comp0 :: rm_comp where
  "rm_comp0 = \<lparr>rcHandle = NULL, rcPid = 0, rcState = 0, rcCPU = 0, rcPipe = 0, rcStatus = RM_StatusUnset,
     rcReason = RM_ReasonNone\<rparr>"

definition rm_init :: rm_state where
  "rm_init = \<lparr>rmNum = 0, rmList = replicate RM_MAXCOMPONENTS rm_comp0, stub_mode = False,
     mmuRecoveryInProgress = False, totalCpu = 0, imageTotalCpu = 0, videoTotalCpu = 0, audioTotalCpu = 0,
     lcdTotalCpu = 0, cameraTotalCpu = 0, cmd_data = rm_command0, globalrequest = rm_command0, rmFdwrite = 0,
     snapshotsCaptured = 0, cpuLoadSnapshots = replicate RM_CPUAVGDEPTH 0, averageCpuLoad = 0,
     cyclesAvailable = 0, watch = Watch_setup, rmRam = ram_init\<rparr>"

text \<open>What the daemon writes: to a client pipe, to the policy manager, to sysfs; and pipes it closes.\<close>

datatype rm_out = To_client int rm_command | To_policy pm_command | To_sysfs string | Close_pipe int

text \<open>
  The answers of the bridge and the QoS library during one call of \<open>RM_GetQos\<close>, in the order
  of the calls: the environment variable with the name of the DLL, the bridge calls of
  \<open>InitializeQos\<close> (the types of the processors that the enumeration lists, and whether
  attaching to one of them succeeds), the data type and heap of the resources in the
  registry, the heap size of the two memory queries if they succeed, the load of
  \<open>QosTI_GetProcLoadStat\<close> if it succeeds, otherwise whether the array can be allocated and the
  loads of the processors found in the registry.
\<close>

record qos_env =
  q_dll :: bool
  q_open :: bool
  q_procs :: "nat list"
  q_attach :: "nat \<Rightarrow> bool"
  q_reg_node :: bool
  q_reg_lib :: bool
  q_create :: bool
  q_resources :: "(bool \<times> nat) list"
  q_memstat :: "u32 option"
  q_largest :: bool
  q_load :: "u32 option"
  q_malloc :: bool
  q_found :: "u32 list"

abbreviation (input) "DSPTYPE_55 \<equiv> (6 :: nat)"
abbreviation (input) "DSPTYPE_64 \<equiv> (153 :: nat)"
abbreviation (input) "KAllHeaps \<equiv> (256 :: nat)"

record rm_env =
  re_dvfs :: bool
  re_ram :: ram_env
  re_qos :: qos_env
  re_open :: "string \<Rightarrow> int"

subsection \<open>The component list\<close>

definition is_rm :: "handle \<Rightarrow> u32 \<Rightarrow> rm_comp \<Rightarrow> bool" where
  "is_rm h pid c \<longleftrightarrow> h = rcHandle c \<and> pid = rcPid c"

definition RM_GetListIndex :: "rm_state \<Rightarrow> handle \<Rightarrow> u32 \<Rightarrow> nat option option" where
  "RM_GetListIndex s h pid = scan (is_rm h pid) (rmList s) (rmNum s)"

definition RM_GetPipe :: "rm_state \<Rightarrow> handle \<Rightarrow> u32 \<Rightarrow> int option" where
  "RM_GetPipe s h pid =
     do { m \<leftarrow> RM_GetListIndex s h pid;
          case m of None \<Rightarrow> Some (- 1) | Some i \<Rightarrow> do { c \<leftarrow> rd (rmList s) i; Some (rcPipe c) } }"

definition RM_SetStatus :: "rm_state \<Rightarrow> handle \<Rightarrow> u32 \<Rightarrow> RM_COMPONENTSTATUS \<Rightarrow> rm_state option" where
  "RM_SetStatus s h pid status =
     do { m \<leftarrow> RM_GetListIndex s h pid;
          case m of None \<Rightarrow> Some s
          | Some i \<Rightarrow> do { c \<leftarrow> rd (rmList s) i;
                          l \<leftarrow> wr (rmList s) i (c\<lparr>rcStatus := status\<rparr>);
                          Some (s\<lparr>rmList := l\<rparr>) } }"

definition RM_SetReason :: "rm_state \<Rightarrow> handle \<Rightarrow> RM_DENYREASON \<Rightarrow> rm_state option" where
  "RM_SetReason s h reason =
     do { m \<leftarrow> RM_GetListIndex s h 0;
          case m of None \<Rightarrow> Some s
          | Some i \<Rightarrow> do { c \<leftarrow> rd (rmList s) i;
                          l \<leftarrow> wr (rmList s) i (c\<lparr>rcReason := reason\<rparr>);
                          Some (s\<lparr>rmList := l\<rparr>) } }"

text \<open>A new entry keeps the stale \<open>status\<close> of its slot.\<close>

definition RM_AddPipe :: "rm_state \<Rightarrow> rm_command \<Rightarrow> int \<Rightarrow> rm_state option" where
  "RM_AddPipe s cmd aPipe =
     do { m \<leftarrow> RM_GetListIndex s (rmComponent cmd) (rmPid cmd);
          case m of Some i \<Rightarrow> Some s
          | None \<Rightarrow>
              do { c \<leftarrow> rd (rmList s) (rmNum s);
                   l \<leftarrow> wr (rmList s) (rmNum s)
                     (c\<lparr>rcHandle := rmComponent cmd, rcPid := rmPid cmd, rcPipe := aPipe, rcState := OMX_StateIdle,
                        rcReason := RM_ReasonNone, rcCPU := rmParam2 cmd\<rparr>);
                   Some (s\<lparr>rmList := l, rmNum := Suc (rmNum s)\<rparr>) } }"

definition RM_RemoveComponentFromList :: "rm_state \<Rightarrow> handle \<Rightarrow> u32 \<Rightarrow> rm_state option" where
  "RM_RemoveComponentFromList s h pid =
     do { m \<leftarrow> RM_GetListIndex s h pid;
          case m of None \<Rightarrow> Some s
          | Some i \<Rightarrow> do { l \<leftarrow> shift_down (rmList s) i (rmNum s - 1 - i);
                          Some (s\<lparr>rmList := l, rmNum := rmNum s - 1\<rparr>) } }"

definition RM_ClosePipe :: "rm_state \<Rightarrow> rm_command \<Rightarrow> (rm_state \<times> rm_out list) option" where
  "RM_ClosePipe s cmd =
     do { m \<leftarrow> RM_GetListIndex s (rmComponent cmd) (rmPid cmd);
          case m of None \<Rightarrow> Some (s, [])
          | Some i \<Rightarrow> do { c \<leftarrow> rd (rmList s) i; Some (s\<lparr>rmFdwrite := rcPipe c\<rparr>, [Close_pipe (rcPipe c)]) } }"

definition pipe_name :: "string \<Rightarrow> string" where
  "pipe_name pid = ''/dev/rm_server_out'' @ ''_'' @ pid"

definition RM_CreatePipe :: "rm_env \<Rightarrow> rm_state \<Rightarrow> rm_command \<Rightarrow> rm_state option" where
  "RM_CreatePipe env s cmd =
     do { pid \<leftarrow> RM_itoa (sint (rmPid cmd));
          let fd = re_open env (pipe_name pid); s1 = s\<lparr>rmFdwrite := fd\<rparr>
          in if fd < 0 then Some s1 else RM_AddPipe s1 cmd fd }"

text \<open>A write to a pipe that was not found fails.\<close>

definition client_write :: "int \<Rightarrow> rm_command \<Rightarrow> rm_out list" where
  "client_write fd msg = (if fd < 0 then [] else [To_client fd msg])"

subsection \<open>Quality of service\<close>

text \<open>
  \<open>InitializeQos\<close> returns \<open>Some 0\<close> for \<open>OMX_ErrorNone\<close>; its other results are
  \<open>OMX_ErrorHardware\<close> and -1. Only some of its failures set \<open>stub_mode\<close>.
\<close>

definition qos_processor :: "nat list \<Rightarrow> nat" where
  "qos_processor procs =
     (case first_index (\<lambda>t. t = DSPTYPE_55 \<or> t = DSPTYPE_64) procs of None \<Rightarrow> 0 | Some i \<Rightarrow> i)"

datatype qos_result = Qos_none | Qos_hardware | Qos_minus_one

definition InitializeQos :: "qos_env \<Rightarrow> rm_state \<Rightarrow> qos_result \<times> rm_state" where
  "InitializeQos q s =
     (if \<not> q_dll q then (Qos_hardware, s\<lparr>stub_mode := True\<rparr>)
      else if \<not> q_open q then (Qos_minus_one, s)
      else if q_attach q (qos_processor (q_procs q)) then
        if q_reg_node q then
          if \<not> q_reg_lib q then (Qos_hardware, s\<lparr>stub_mode := True\<rparr>)
          else if \<not> q_create q then (Qos_hardware, s)
          else (Qos_none, s)
        else (Qos_hardware, s\<lparr>stub_mode := True\<rparr>)
      else (Qos_hardware, s))"

text \<open>
  The memory check. The size that is compared is that of the whole heap; the sum in the
  comparison is computed modulo \<open>2 ^ 32\<close>. \<open>None\<close> is the return with \<open>QOS_DENY\<close>.
\<close>

definition memory_check :: "qos_env \<Rightarrow> u32 \<Rightarrow> bool option" where
  "memory_check q param3 =
     (if param3 > 0 then
        case q_memstat q of None \<Rightarrow> None
        | Some heap \<Rightarrow> if q_largest q then Some (heap > param3 + 4) else None
      else Some True)"

text \<open>
  The load: the inner \<open>None\<close> is the return with \<open>QOS_DENY\<close> when the array cannot be
  allocated, the outer one the use of \<open>results[0]\<close> when no processor was found.
\<close>

definition dsp_load :: "qos_env \<Rightarrow> u32 option option" where
  "dsp_load q =
     (case q_load q of Some l \<Rightarrow> Some (Some l)
      | None \<Rightarrow>
          if \<not> q_malloc q then Some None
          else do { l \<leftarrow> rd (q_found q) 0; Some (Some l) })"

text \<open>The snapshots are set to 0 before the new load is stored.\<close>

definition record_load :: "rm_state \<Rightarrow> u32 \<Rightarrow> rm_state option" where
  "record_load s load =
     do { let cleared = replicate RM_CPUAVGDEPTH 0;
          (snaps, n) \<leftarrow>
            (if snapshotsCaptured s < RM_CPUAVGDEPTH
             then do { a \<leftarrow> wr cleared (snapshotsCaptured s) (sint load); Some (a, Suc (snapshotsCaptured s)) }
             else do { a \<leftarrow> shift_down cleared 0 (RM_CPUAVGDEPTH - 1);
                       b \<leftarrow> wr a (RM_CPUAVGDEPTH - 1) (sint load); Some (b, snapshotsCaptured s) });
          Some (s\<lparr>cpuLoadSnapshots := snaps, snapshotsCaptured := n,
                  averageCpuLoad := sum_list (take n snaps) sdiv int n\<rparr>) }"

definition RM_GetQos :: "rm_env \<Rightarrow> rm_state \<Rightarrow> (bool \<times> rm_state) option" where
  "RM_GetQos env s =
     (let q = re_qos env;
          s1 = (if stub_mode s then s
                else let (err, s') = InitializeQos q s
                     in if err \<noteq> Qos_none then s'\<lparr>stub_mode := True\<rparr> else s')
      in if stub_mode s1 then Some (True, s1)
         else if \<not> (\<exists>r \<in> set (q_resources q). fst r \<and> snd r = KAllHeaps) then Some (False, s1)
         else
           case memory_check q (rmParam3 (cmd_data s1)) of None \<Rightarrow> Some (False, s1)
           | Some memoryAvailable \<Rightarrow>
               let s2 = s1\<lparr>cpuLoadSnapshots := replicate RM_CPUAVGDEPTH 0\<rparr>
               in if get_omap_version (re_ram env) = OMAP_NOT_SUPPORTED then Some (False, s2)
                  else do { ml \<leftarrow> dsp_load q;
                            case ml of None \<Rightarrow> Some (False, s2)
                            | Some load \<Rightarrow>
                                do { s3 \<leftarrow> record_load s2 load;
                                     let cycles = word_of_int (get_dsp_max_freq (re_ram env)) - load;
                                     Some (memoryAvailable \<and> cycles \<ge> rmParam2 (cmd_data s),
                                           s3\<lparr>cyclesAvailable := cycles\<rparr>) } })"

subsection \<open>Handlers\<close>

text \<open>
  A handler gets the command by value; where the code reads or writes the global \<open>cmd_data\<close>
  instead of its parameter, so does the model.
\<close>

type_synonym rm_result = "(rm_state \<times> rm_out list) option"

definition policy_cmd :: "PM_COMMANDTYPE \<Rightarrow> rm_command \<Rightarrow> pm_command" where
  "policy_cmd c cmd = \<lparr>pcComponent = rmComponent cmd, pcPid = rmPid cmd, pcCmd = c, pcParam1 = rmParam1 cmd\<rparr>"

definition HandleRequestResource :: "rm_state \<Rightarrow> rm_command \<Rightarrow> rm_state \<times> rm_out list" where
  "HandleRequestResource s cmd =
     (if stub_mode s then (s, [])
      else (s\<lparr>globalrequest := (globalrequest s)\<lparr>rmComponent := rmComponent cmd, rmPid := rmPid cmd,
                rmCmd := RM_RequestResource, rmParam1 := rmParam1 cmd\<rparr>\<rparr>,
            [To_policy (policy_cmd PM_RequestPolicy cmd)]))"

definition HandleWaitForResource :: "rm_state \<Rightarrow> rm_command \<Rightarrow> rm_result" where
  "HandleWaitForResource s cmd =
     do { m \<leftarrow> RM_GetListIndex s (rmComponent cmd) (rmPid cmd);
          case m of None \<Rightarrow> Some (s, [])
          | Some i \<Rightarrow>
              do { c \<leftarrow> rd (rmList s) i;
                   s1 \<leftarrow> (if rcReason c = RM_ReasonPolicy
                          then RM_SetStatus s (rmComponent cmd) (rmPid cmd) RM_WaitingForPolicy
                          else if rcReason c = RM_ReasonResource
                          then RM_SetStatus s (rmComponent cmd) (rmPid cmd) RM_WaitingForResource
                          else Some s);
                   fd \<leftarrow> RM_GetPipe s1 (rmComponent (cmd_data s1)) (rmPid (cmd_data s1));
                   Some (s1, client_write fd (cmd_data s1)) } }"

text \<open>
  The loop of \<open>HandleFreeResource\<close> with \<open>k\<close> iterations left. It overwrites the status and the
  handle, but not the process, of the global \<open>cmd_data\<close>.
\<close>

primrec acquire_from :: "rm_state \<Rightarrow> nat \<Rightarrow> nat \<Rightarrow> rm_result" where
  "acquire_from s i 0 = Some (s, [])"
| "acquire_from s i (Suc k) =
     do { c \<leftarrow> rd (rmList s) i;
          (s1, out) \<leftarrow>
            (if rcState c = OMX_StateWaitForResources
             then let s' = s\<lparr>cmd_data := (cmd_data s)\<lparr>rmStatus := RM_RESOURCEACQUIRED, rmComponent := rcHandle c\<rparr>\<rparr>
                  in do { fd \<leftarrow> RM_GetPipe s' (rcHandle c) (rcPid c); Some (s', client_write fd (cmd_data s')) }
             else Some (s, []));
          (s2, outs) \<leftarrow> acquire_from s1 (Suc i) k;
          Some (s2, out @ outs) }"

definition HandleFreeResource :: "rm_state \<Rightarrow> rm_command \<Rightarrow> rm_result" where
  "HandleFreeResource s cmd =
     do { let out = (if stub_mode s then [] else [To_policy (policy_cmd PM_FreePolicy cmd)]);
          (s1, outs) \<leftarrow> (if rmNum s > 1 then acquire_from s 0 (rmNum s - 1) else Some (s, []));
          Some (s1, out @ outs) }"

definition HandleCancelWaitForResource :: "rm_state \<Rightarrow> rm_command \<Rightarrow> rm_state \<times> rm_out list" where
  "HandleCancelWaitForResource s cmd = (s, [])"

datatype rm_kind = RM_IMAGE | RM_VIDEO | RM_AUDIO | RM_LCD | RM_CAMERA

text \<open>
  The \<open>switch\<close> on the component index of \<open>ResourceManagerProxyAPI.h\<close>; 28 and 29, the IMA
  ADPCM decoder and encoder, have no \<open>case\<close>.
\<close>

definition component_type :: "u32 \<Rightarrow> rm_kind option" where
  "component_type p =
     (if p \<le> 27 \<or> p = 30 then Some RM_AUDIO
      else if 31 \<le> p \<and> p \<le> 40 then Some RM_VIDEO
      else if 41 \<le> p \<and> p \<le> 43 then Some RM_IMAGE
      else if p = 44 then Some RM_CAMERA
      else if p = 45 then Some RM_LCD
      else None)"

definition add_cpu :: "rm_kind option \<Rightarrow> u32 \<Rightarrow> rm_state \<Rightarrow> rm_state" where
  "add_cpu k cpu s =
     (case k of
        Some RM_AUDIO \<Rightarrow> s\<lparr>audioTotalCpu := audioTotalCpu s + cpu\<rparr>
      | Some RM_VIDEO \<Rightarrow> s\<lparr>videoTotalCpu := videoTotalCpu s + cpu\<rparr>
      | Some RM_IMAGE \<Rightarrow> s\<lparr>imageTotalCpu := imageTotalCpu s + cpu\<rparr>
      | Some RM_CAMERA \<Rightarrow> s\<lparr>cameraTotalCpu := cameraTotalCpu s + cpu\<rparr>
      | Some RM_LCD \<Rightarrow> s\<lparr>lcdTotalCpu := lcdTotalCpu s + cpu\<rparr>
      | None \<Rightarrow> s)"

definition sub_cpu :: "rm_kind option \<Rightarrow> u32 \<Rightarrow> rm_state \<Rightarrow> rm_state" where
  "sub_cpu k cpu s =
     (case k of
        Some RM_AUDIO \<Rightarrow> s\<lparr>audioTotalCpu := audioTotalCpu s - cpu\<rparr>
      | Some RM_VIDEO \<Rightarrow> s\<lparr>videoTotalCpu := videoTotalCpu s - cpu\<rparr>
      | Some RM_IMAGE \<Rightarrow> s\<lparr>imageTotalCpu := imageTotalCpu s - cpu\<rparr>
      | Some RM_CAMERA \<Rightarrow> s\<lparr>cameraTotalCpu := cameraTotalCpu s - cpu\<rparr>
      | Some RM_LCD \<Rightarrow> s\<lparr>lcdTotalCpu := lcdTotalCpu s - cpu\<rparr>
      | None \<Rightarrow> s)"

text \<open>The new total, and the constraint that is set from it.\<close>

definition set_total :: "rm_env \<Rightarrow> rm_state \<Rightarrow> rm_state \<times> rm_out list" where
  "set_total env s =
     (let total = audioTotalCpu s + videoTotalCpu s + imageTotalCpu s + cameraTotalCpu s + lcdTotalCpu s;
          (_, ram, cmds) = rm_set_vdd1_constraint (re_dvfs env) (re_ram env) (rmRam s) (sint total)
      in (s\<lparr>totalCpu := total, rmRam := ram\<rparr>, map To_sysfs cmds))"

definition HandleStateSet :: "rm_env \<Rightarrow> rm_state \<Rightarrow> rm_command \<Rightarrow> rm_result" where
  "HandleStateSet env s cmd =
     do { let componentType = component_type (rmParam1 cmd);
          m \<leftarrow> scan (is_rm (rmComponent cmd) (rmPid cmd)) (rmList s) (rmNum s);
          case m of None \<Rightarrow> Some (s, [])
          | Some index \<Rightarrow>
              do { c \<leftarrow> rd (rmList s) index;
                   let previousState = rcState c;
                   let newState = rmParam2 cmd;
                   l \<leftarrow> wr (rmList s) index (c\<lparr>rcState := newState\<rparr>);
                   let s1 = s\<lparr>rmList := l\<rparr>;
                   let (s2, out) =
                     (if (previousState = OMX_StateIdle \<or> previousState = OMX_StatePause) \<and> newState = OMX_StateExecuting
                      then set_total env (add_cpu componentType (rcCPU c) s1)
                      else if previousState = OMX_StateExecuting \<and> (newState = OMX_StateIdle \<or> newState = OMX_StatePause)
                      then set_total env (sub_cpu componentType (rcCPU c) s1)
                      else (s1, []));
                   if newState = OMX_StateWaitForResources
                   then do { (s3, out') \<leftarrow> HandleWaitForResource s2 cmd; Some (s3, out @ out') }
                   else Some (s2, out) } }"

subsection \<open>The main loop and the fatal error thread\<close>

text \<open>A command of a client; \<open>cmd_data\<close> has just been read into. \<open>hComponent\<close> and \<open>nPid\<close> of the
  removal are read from \<open>cmd_data\<close> after \<open>HandleFreeResource\<close> has returned.\<close>

definition rm_client :: "rm_env \<Rightarrow> rm_state \<Rightarrow> rm_command \<Rightarrow> rm_result" where
  "rm_client env s0 cmd =
     (let s = s0\<lparr>cmd_data := cmd\<rparr>
      in case rmCmd cmd of
           RM_RequestResource \<Rightarrow> Some (HandleRequestResource s cmd)
         | RM_WaitForResource \<Rightarrow> HandleWaitForResource s cmd
         | RM_FreeResource \<Rightarrow>
             do { (s1, out) \<leftarrow> HandleFreeResource s cmd;
                  s2 \<leftarrow> RM_RemoveComponentFromList s1 (rmComponent (cmd_data s1)) (rmPid (cmd_data s1));
                  Some (s2, out) }
         | RM_FreeAndCloseResource \<Rightarrow>
             do { (s1, out) \<leftarrow> HandleFreeResource s cmd;
                  (s2, out') \<leftarrow> RM_ClosePipe s1 (cmd_data s1);
                  s3 \<leftarrow> RM_RemoveComponentFromList s2 (rmComponent (cmd_data s2)) (rmPid (cmd_data s2));
                  Some (s3, out @ out') }
         | RM_CancelWaitForResource \<Rightarrow> Some (HandleCancelWaitForResource s cmd)
         | RM_StateSet \<Rightarrow> HandleStateSet env s cmd
         | RM_OpenPipe \<Rightarrow> map_option (\<lambda>s'. (s', [])) (RM_CreatePipe env s cmd)
         | RM_ReusePipe \<Rightarrow>
             do { fd \<leftarrow> RM_GetPipe s (rmParam4 cmd) (rmPid cmd);
                  map_option (\<lambda>s'. (s', [])) (if fd \<noteq> - 1 then RM_AddPipe s cmd fd else RM_CreatePipe env s cmd) }
         | RM_Exit \<Rightarrow> Some (s, [])
         | RM_Init \<Rightarrow> Some (s, [])
         | RM_ExitTI \<Rightarrow> Some (s, []))"

text \<open>The answer to the request whose data are in \<open>globalrequest_cmd_data\<close>.\<close>

definition answer_request :: "rm_state \<Rightarrow> RM_STATUSTYPE \<Rightarrow> RM_COMPONENTSTATUS \<Rightarrow> rm_result" where
  "answer_request s status cstatus =
     do { let g = (globalrequest s)\<lparr>rmStatus := status\<rparr>;
          s1 \<leftarrow> RM_SetStatus (s\<lparr>globalrequest := g\<rparr>) (rmComponent g) (rmPid g) cstatus;
          fd \<leftarrow> RM_GetPipe s1 (rmComponent g) (rmPid g);
          Some (s1, client_write fd g) }"

text \<open>
  A response of the policy manager. For a preemption the status is set with the process of the
  last command, and the message is the last command with handle and status replaced.
\<close>

definition rm_policy :: "rm_env \<Rightarrow> rm_state \<Rightarrow> pm_response \<Rightarrow> rm_result" where
  "rm_policy env s r =
     (if stub_mode s then Some (s, [])
      else case prCmd r of
        PM_PREEMPTED \<Rightarrow>
          do { let s1 = s\<lparr>cmd_data := (cmd_data s)\<lparr>rmStatus := RM_PREEMPT, rmComponent := prComponent r\<rparr>\<rparr>;
               s2 \<leftarrow> RM_SetStatus s1 (prComponent r) (rmPid (cmd_data s1)) RM_WaitingForClient;
               fd \<leftarrow> RM_GetPipe s2 (prComponent r) (prPid r);
               Some (s2, client_write fd (cmd_data s2)) }
      | PM_DENYPOLICY \<Rightarrow> answer_request s RM_DENY RM_WaitingForClient
      | PM_GRANTPOLICY \<Rightarrow>
          if \<not> mmuRecoveryInProgress s then
            do { (ok, s1) \<leftarrow> RM_GetQos env s;
                 if ok then answer_request s1 RM_GRANT RM_ComponentActive
                 else Some (s1, [To_policy (policy_cmd PM_FreeResources (globalrequest s1))]) }
          else answer_request s RM_RESOURCEFATALERROR RM_WaitingForClient)"

text \<open>The loop of the fatal error thread that tells the components, with \<open>k\<close> iterations left.\<close>

primrec notify_from :: "rm_state \<Rightarrow> nat \<Rightarrow> nat \<Rightarrow> rm_result" where
  "notify_from s i 0 = Some (s, [])"
| "notify_from s i (Suc k) =
     do { c \<leftarrow> rd (rmList s) i;
          let d = (cmd_data s)\<lparr>rmStatus := RM_RESOURCEFATALERROR, rmComponent := rcHandle c, rmPid := rcPid c\<rparr>;
          s1 \<leftarrow> RM_SetStatus (s\<lparr>cmd_data := d\<rparr>) (rcHandle c) (rcPid c) RM_WaitingForClient;
          fd \<leftarrow> RM_GetPipe s1 (rcHandle c) (rcPid c);
          (s2, outs) \<leftarrow> notify_from s1 (Suc i) k;
          Some (s2, client_write fd d @ outs) }"

text \<open>
  The thread opens the bridge at most \<open>MAX_TRIES\<close> times; \<open>opens\<close> lists the results. It then
  sets up its notifications whether or not the bridge was opened, and ends when that fails
  (\<open>ready\<close> is the conjunction of the bridge calls and allocations of the setup). After a fault,
  \<open>index\<close> 0 or 1, it closes the bridge and starts again.
\<close>

abbreviation (input) "MAX_TRIES \<equiv> (10 :: nat)"

definition watch_setup :: "rm_state \<Rightarrow> bool list \<Rightarrow> bool \<Rightarrow> rm_state" where
  "watch_setup s opens ready =
     (let s1 = (if True \<in> set (take MAX_TRIES opens) then s\<lparr>mmuRecoveryInProgress := False\<rparr> else s)
      in s1\<lparr>watch := (if ready then Watch_wait else Watch_exit)\<rparr>)"

definition watch_event :: "rm_state \<Rightarrow> nat \<Rightarrow> bool \<Rightarrow> rm_result" where
  "watch_event s index closed =
     (if index = 0 \<or> index = 1 then
        do { (s1, outs) \<leftarrow> notify_from (s\<lparr>mmuRecoveryInProgress := True\<rparr>) 0 (rmNum s);
             Some (s1\<lparr>watch := (if closed then Watch_setup else Watch_exit)\<rparr>, outs) }
      else Some (s, []))"

text \<open>
  The events of the process: a read from the client pipe, without data when the writers have
  closed it; a read from the policy manager; a round of the setup of the fatal error thread,
  and an event of the bridge. Handlers and rounds are atomic.
\<close>

datatype rm_event = Client rm_env "rm_command option" | Policy rm_env pm_response
  | Setup "bool list" bool | Bridge_event nat bool

definition rm_step :: "rm_state \<Rightarrow> rm_event \<Rightarrow> rm_result" where
  "rm_step s e =
     (case e of
        Client env None \<Rightarrow> Some (s, [])
      | Client env (Some cmd) \<Rightarrow> rm_client env s cmd
      | Policy env r \<Rightarrow> rm_policy env s r
      | Setup opens ready \<Rightarrow> if watch s = Watch_setup then Some (watch_setup s opens ready, []) else Some (s, [])
      | Bridge_event index closed \<Rightarrow> if watch s = Watch_wait then watch_event s index closed else Some (s, []))"

fun is_exit :: "rm_event \<Rightarrow> bool" where
  "is_exit (Client env (Some cmd)) = (rmCmd cmd = RM_ExitTI)"
| "is_exit _ = False"

text \<open>\<open>main\<close>: stub mode on an unsupported CPU, then the events until the exit command.\<close>

definition rm_start :: "rm_env \<Rightarrow> rm_state" where
  "rm_start env = (if get_omap_version (re_ram env) = OMAP_NOT_SUPPORTED then rm_init\<lparr>stub_mode := True\<rparr> else rm_init)"

fun rm_main_loop :: "rm_state \<Rightarrow> rm_event list \<Rightarrow> rm_result" where
  "rm_main_loop s [] = Some (s, [])"
| "rm_main_loop s (e # es) =
     do { (s1, out) \<leftarrow> rm_step s e;
          if is_exit e then Some (s1, out)
          else do { (s2, outs) \<leftarrow> rm_main_loop s1 es; Some (s2, out @ outs) } }"

subsection \<open>The list of registered components\<close>

definition rm_used :: "rm_state \<Rightarrow> rm_comp list" where
  "rm_used s = take (rmNum s) (rmList s)"

definition rm_key :: "rm_comp \<Rightarrow> handle \<times> u32" where
  "rm_key c = (rcHandle c, rcPid c)"

definition rm_keys :: "rm_state \<Rightarrow> (handle \<times> u32) list" where
  "rm_keys s = map rm_key (rm_used s)"

definition rm_lookup :: "rm_state \<Rightarrow> handle \<times> u32 \<Rightarrow> rm_comp option" where
  "rm_lookup s k = find (\<lambda>c. rm_key c = k) (rm_used s)"

definition rm_pipe :: "rm_state \<Rightarrow> handle \<times> u32 \<Rightarrow> int" where
  "rm_pipe s k = (case rm_lookup s k of None \<Rightarrow> - 1 | Some c \<Rightarrow> rcPipe c)"

definition rm_wf :: "rm_state \<Rightarrow> bool" where
  "rm_wf s \<longleftrightarrow> length (rmList s) = RM_MAXCOMPONENTS \<and> rmNum s \<le> RM_MAXCOMPONENTS \<and> distinct (rm_keys s)
     \<and> snapshotsCaptured s \<le> RM_CPUAVGDEPTH"

text \<open>An entry without its status.\<close>

definition rm_core :: "rm_comp \<Rightarrow> rm_comp" where
  "rm_core c = c\<lparr>rcStatus := RM_StatusUnset\<rparr>"

lemma is_rm_key: "is_rm h pid = (\<lambda>c. rm_key c = (h, pid))"
  by (auto simp: is_rm_def rm_key_def)

lemma find_first_index: "find P xs = map_option ((!) xs) (first_index P xs)"
  by (induction xs) (auto simp: option.map_comp comp_def)

lemma rm_wf_lengths [simp]:
  "rm_wf s \<Longrightarrow> length (rmList s) = RM_MAXCOMPONENTS" "rm_wf s \<Longrightarrow> rmNum s \<le> RM_MAXCOMPONENTS"
  "rm_wf s \<Longrightarrow> length (rm_used s) = rmNum s" "rm_wf s \<Longrightarrow> length (rm_keys s) = rmNum s"
  "rm_wf s \<Longrightarrow> distinct (rm_keys s)"
  by (auto simp: rm_wf_def rm_used_def rm_keys_def)

lemma rm_wf_init [simp]: "rm_wf rm_init" "rm_keys rm_init = []"
  by (simp_all add: rm_wf_def rm_init_def rm_keys_def rm_used_def)

text \<open>What the list of components determines.\<close>

lemma rm_list_cong:
  assumes "rmNum s' = rmNum s" and "rmList s' = rmList s"
  shows "rm_used s' = rm_used s" "rm_keys s' = rm_keys s" "rm_lookup s' = rm_lookup s" "rm_pipe s' = rm_pipe s"
    "snapshotsCaptured s' = snapshotsCaptured s \<Longrightarrow> rm_wf s' = rm_wf s"
  using assms by (simp_all add: rm_used_def rm_keys_def rm_lookup_def rm_pipe_def rm_wf_def fun_eq_iff del: rm_wf_lengths)

lemma RM_GetListIndex_closed:
  "rm_wf s \<Longrightarrow> RM_GetListIndex s h pid = Some (first_index (\<lambda>c. rm_key c = (h, pid)) (rm_used s))"
  by (simp add: RM_GetListIndex_def scan_closed is_rm_key rm_used_def)

lemma used_bound: "rm_wf s \<Longrightarrow> i < rmNum s \<Longrightarrow> i < RM_MAXCOMPONENTS"
  by (drule rm_wf_lengths(2)) simp

lemma used_nth: "rm_wf s \<Longrightarrow> i < rmNum s \<Longrightarrow> rm_used s ! i = rmList s ! i \<and> i < length (rmList s)"
  using used_bound [of s i] by (simp add: rm_used_def)

lemma first_index_used:
  "rm_wf s \<Longrightarrow> first_index P (rm_used s) = Some i \<Longrightarrow> i < rmNum s \<and> i < RM_MAXCOMPONENTS \<and> P (rmList s ! i)
     \<and> rm_used s ! i = rmList s ! i"
  using used_nth [of s i] first_index_Some [of P "rm_used s" i] by simp

lemma RM_GetPipe_closed: "rm_wf s \<Longrightarrow> RM_GetPipe s h pid = Some (rm_pipe s (h, pid))"
  using first_index_used [of s "\<lambda>c. rm_key c = (h, pid)"]
  by (auto simp: RM_GetPipe_def RM_GetListIndex_closed rm_pipe_def rm_lookup_def find_first_index split: option.split)

lemma rm_lookup_None: "rm_lookup s k = None \<longleftrightarrow> k \<notin> set (rm_keys s)"
  by (auto simp: rm_lookup_def rm_keys_def find_None_iff)

lemma rm_lookup_Some: "rm_lookup s k = Some c \<Longrightarrow> c \<in> set (rm_used s) \<and> rm_key c = k"
  by (auto simp: rm_lookup_def dest: find_SomeD)

lemma distinct_lookup:
  "distinct (map f xs) \<Longrightarrow> x \<in> set xs \<Longrightarrow> find (\<lambda>y. f y = f x) xs = Some x"
  by (induction xs) (auto simp: image_iff)

lemma rm_lookup_used: "rm_wf s \<Longrightarrow> c \<in> set (rm_used s) \<Longrightarrow> rm_lookup s (rm_key c) = Some c"
  by (simp add: rm_lookup_def rm_keys_def distinct_lookup flip: rm_keys_def)

text \<open>Replacing an entry by one with the same key.\<close>

definition rm_replaced :: "(rm_comp \<Rightarrow> rm_comp) \<Rightarrow> handle \<times> u32 \<Rightarrow> rm_state \<Rightarrow> rm_state \<Rightarrow> bool" where
  "rm_replaced f k s s' \<longleftrightarrow> (\<exists>l. s' = s\<lparr>rmList := l\<rparr>) \<and> rm_wf s'
     \<and> rm_used s' = map (\<lambda>c. if rm_key c = k then f c else c) (rm_used s)"

lemma update_first_index:
  assumes "distinct (map g xs)" and "first_index (\<lambda>c. g c = k) xs = Some i"
  shows "xs[i := f (xs ! i)] = map (\<lambda>c. if g c = k then f c else c) xs"
  using assms
proof (induction xs arbitrary: i)
  case Nil
  then show ?case by simp
next
  case (Cons x xs)
  show ?case
  proof (cases "g x = k")
    case True
    with Cons.prems have "\<forall>c \<in> set xs. g c \<noteq> k" "i = 0" by (auto simp: image_iff)
    with True show ?thesis by (auto intro!: map_idI [symmetric])
  next
    case False
    with Cons show ?thesis by auto
  qed
qed

lemma rm_replaced_keys:
  assumes "rm_replaced f k s s'" and "\<And>c. rm_key (f c) = rm_key c"
  shows "rm_keys s' = rm_keys s" "rmNum s' = rmNum s" "rm_wf s'"
    "rm_lookup s' k' = map_option (\<lambda>c. if k' = k then f c else c) (rm_lookup s k')"
proof -
  from assms have u: "rm_used s' = map (\<lambda>c. if rm_key c = k then f c else c) (rm_used s)"
    by (simp add: rm_replaced_def)
  with assms(2) show "rm_keys s' = rm_keys s" by (auto simp: rm_keys_def)
  from assms(1) show "rm_wf s'" by (simp add: rm_replaced_def)
  from assms(1) show "rmNum s' = rmNum s" by (auto simp: rm_replaced_def)
  have "find (\<lambda>c. rm_key c = k') (map (\<lambda>c. if rm_key c = k then f c else c) xs)
      = map_option (\<lambda>c. if k' = k then f c else c) (find (\<lambda>c. rm_key c = k') xs)" for xs
    using assms(2) by (induction xs) auto
  with u show "rm_lookup s' k' = map_option (\<lambda>c. if k' = k then f c else c) (rm_lookup s k')"
    by (simp add: rm_lookup_def)
qed

lemma rm_write_replaced:
  assumes "rm_wf s" and "first_index (\<lambda>c. rm_key c = k) (rm_used s) = Some i" and "\<And>c. rm_key (f c) = rm_key c"
  shows "rm_replaced f k s (s\<lparr>rmList := (rmList s)[i := f (rmList s ! i)]\<rparr>)"
proof -
  let ?s = "s\<lparr>rmList := (rmList s)[i := f (rmList s ! i)]\<rparr>"
  have i: "i < rmNum s" "rm_used s ! i = rmList s ! i"
    using first_index_used [OF assms(1,2)] by auto
  have u: "rm_used ?s = map (\<lambda>c. if rm_key c = k then f c else c) (rm_used s)"
    using update_first_index [of rm_key "rm_used s" k i f] assms(1,2) i
    by (simp flip: rm_keys_def) (simp add: rm_used_def take_update_swap)
  then have "rm_keys ?s = rm_keys s" using assms(3) by (auto simp: rm_keys_def)
  then have "rm_wf ?s" using assms(1) by (simp add: rm_wf_def del: rm_wf_lengths)
  with u show ?thesis unfolding rm_replaced_def by blast
qed

lemma rm_replaced_none:
  assumes "rm_wf s" and "k \<notin> set (rm_keys s)"
  shows "rm_replaced f k s s"
proof -
  have "s = s\<lparr>rmList := rmList s\<rparr>" by simp
  moreover have "rm_used s = map (\<lambda>c. if rm_key c = k then f c else c) (rm_used s)"
    using assms(2) by (auto simp: rm_keys_def intro!: map_idI [symmetric])
  ultimately show ?thesis using assms(1) unfolding rm_replaced_def by blast
qed

lemma absent_index: "rm_wf s \<Longrightarrow> first_index (\<lambda>c. rm_key c = k) (rm_used s) = None \<longleftrightarrow> k \<notin> set (rm_keys s)"
  by (auto simp: first_index_None rm_keys_def)

lemma RM_SetStatus_spec:
  assumes "rm_wf s"
  shows "\<exists>s'. RM_SetStatus s h pid st = Some s' \<and> rm_replaced (rcStatus_update (\<lambda>_. st)) (h, pid) s s'"
proof (cases "first_index (\<lambda>c. rm_key c = (h, pid)) (rm_used s)")
  case None
  with assms have "(h, pid) \<notin> set (rm_keys s)" by (simp add: absent_index)
  from rm_replaced_none [OF assms this] None assms show ?thesis
    by (intro exI [of _ s]) (simp add: RM_SetStatus_def RM_GetListIndex_closed)
next
  case (Some i)
  with rm_write_replaced [OF assms Some, of "rcStatus_update (\<lambda>_. st)"] first_index_used [OF assms Some] assms
  show ?thesis by (simp add: RM_SetStatus_def RM_GetListIndex_closed rm_key_def)
qed

lemma RM_AddPipe_known:
  "rm_wf s \<Longrightarrow> (rmComponent cmd, rmPid cmd) \<in> set (rm_keys s) \<Longrightarrow> RM_AddPipe s cmd fd = Some s"
  using absent_index [of s "(rmComponent cmd, rmPid cmd)"]
  by (auto simp: RM_AddPipe_def RM_GetListIndex_closed split: option.split)

text \<open>A new entry.\<close>

definition rm_entry :: "rm_command \<Rightarrow> int \<Rightarrow> rm_comp \<Rightarrow> bool" where
  "rm_entry cmd fd c \<longleftrightarrow> rm_key c = (rmComponent cmd, rmPid cmd) \<and> rcPipe c = fd \<and> rcState c = OMX_StateIdle
     \<and> rcReason c = RM_ReasonNone \<and> rcCPU c = rmParam2 cmd"

lemma RM_AddPipe_new:
  assumes "rm_wf s" and "(rmComponent cmd, rmPid cmd) \<notin> set (rm_keys s)" and "rmNum s < RM_MAXCOMPONENTS"
  shows "\<exists>l c. RM_AddPipe s cmd fd = Some (s\<lparr>rmList := l, rmNum := Suc (rmNum s)\<rparr>)
    \<and> rm_used (s\<lparr>rmList := l, rmNum := Suc (rmNum s)\<rparr>) = rm_used s @ [c] \<and> rm_entry cmd fd c
    \<and> rm_wf (s\<lparr>rmList := l, rmNum := Suc (rmNum s)\<rparr>)"
proof -
  let ?k = "(rmComponent cmd, rmPid cmd)"
  let ?c = "(rmList s ! rmNum s)\<lparr>rcHandle := rmComponent cmd, rcPid := rmPid cmd, rcPipe := fd,
    rcState := OMX_StateIdle, rcReason := RM_ReasonNone, rcCPU := rmParam2 cmd\<rparr>"
  let ?l = "(rmList s)[rmNum s := ?c]"
  let ?s = "s\<lparr>rmList := ?l, rmNum := Suc (rmNum s)\<rparr>"
  have "first_index (\<lambda>c. rm_key c = ?k) (rm_used s) = None" using assms by (simp add: absent_index)
  then have "RM_AddPipe s cmd fd = Some ?s"
    using assms by (simp add: RM_AddPipe_def RM_GetListIndex_closed)
  moreover have u: "rm_used ?s = rm_used s @ [?c]"
    using assms by (simp add: rm_used_def take_Suc_conv_app_nth)
  moreover have e: "rm_entry cmd fd ?c" by (simp add: rm_entry_def rm_key_def)
  moreover have "rm_wf ?s"
  proof -
    have "rm_keys ?s = rm_keys s @ [?k]" using u by (simp add: rm_keys_def rm_key_def)
    with assms(2,3) rm_wf_lengths(5) [OF assms(1)] assms(1) show ?thesis
      by (simp add: rm_wf_def del: rm_wf_lengths)
  qed
  ultimately show ?thesis by blast
qed

lemma RM_AddPipe_full:
  "rm_wf s \<Longrightarrow> (rmComponent cmd, rmPid cmd) \<notin> set (rm_keys s) \<Longrightarrow> rmNum s = RM_MAXCOMPONENTS \<Longrightarrow>
   RM_AddPipe s cmd fd = None"
  using absent_index [of s "(rmComponent cmd, rmPid cmd)"]
  by (auto simp: RM_AddPipe_def RM_GetListIndex_closed rd_def)

lemma RM_Remove_spec:
  assumes "rm_wf s"
  shows "\<exists>l n. RM_RemoveComponentFromList s h pid = Some (s\<lparr>rmList := l, rmNum := n\<rparr>)
    \<and> rm_wf (s\<lparr>rmList := l, rmNum := n\<rparr>)
    \<and> rm_used (s\<lparr>rmList := l, rmNum := n\<rparr>) = filter (\<lambda>c. rm_key c \<noteq> (h, pid)) (rm_used s)"
proof (cases "first_index (\<lambda>c. rm_key c = (h, pid)) (rm_used s)")
  case None
  then have "rm_used s = filter (\<lambda>c. rm_key c \<noteq> (h, pid)) (rm_used s)"
    by (auto simp: first_index_None intro!: filter_True [symmetric])
  with None assms show ?thesis
    by (intro exI [of _ "rmList s"] exI [of _ "rmNum s"])
      (simp add: RM_RemoveComponentFromList_def RM_GetListIndex_closed)
next
  case (Some i)
  let ?n = "rmNum s"
  have i: "i < ?n" using first_index_used [OF assms Some] by simp
  with shift_down_prefix [of i ?n "rmList s"] assms obtain b where
    b: "shift_down (rmList s) i (?n - 1 - i) = Some b" "length b = RM_MAXCOMPONENTS"
      "take (?n - 1) b = remove_at i (take ?n (rmList s))" by auto
  let ?s = "s\<lparr>rmList := b, rmNum := ?n - 1\<rparr>"
  have "RM_RemoveComponentFromList s h pid = Some ?s"
    using Some b assms by (simp add: RM_RemoveComponentFromList_def RM_GetListIndex_closed)
  moreover have r: "rm_used ?s = remove_at i (rm_used s)" using b(3) by (simp add: rm_used_def)
  have f: "distinct (map g xs) \<Longrightarrow> first_index (\<lambda>c. g c = k) xs = Some j \<Longrightarrow>
      remove_at j xs = filter (\<lambda>c. g c \<noteq> k) xs" for g :: "rm_comp \<Rightarrow> handle \<times> u32" and k xs j
    by (induction xs arbitrary: j) (auto simp: image_iff split: if_splits intro!: filter_True [symmetric])
  have "rm_used ?s = filter (\<lambda>c. rm_key c \<noteq> (h, pid)) (rm_used s)"
    using r f [OF _ Some] assms by (simp flip: rm_keys_def)
  moreover have "rm_wf ?s"
  proof -
    have "rm_keys ?s = remove_at i (rm_keys s)" using r by (simp add: rm_keys_def map_remove_at)
    then have "distinct (rm_keys ?s)" using assms by (simp add: distinct_remove_at)
    moreover have "?n - 1 \<le> RM_MAXCOMPONENTS" using used_bound [OF assms i] i assms
      by (intro diff_le_self [THEN le_trans]) simp
    ultimately show ?thesis using b(2) assms by (simp add: rm_wf_def del: rm_wf_lengths)
  qed
  ultimately show ?thesis by blast
qed

lemma find_filter_other: "(\<And>c. P c \<Longrightarrow> Q c) \<Longrightarrow> find P (filter Q xs) = find P xs"
  by (induction xs) auto

lemma remove1_keys: "distinct (map g xs) \<Longrightarrow> map g (filter (\<lambda>c. g c \<noteq> k) xs) = remove1 k (map g xs)"
  by (induction xs) (auto simp: image_iff remove1_idem)

lemma find_append: "find P (xs @ ys) = (case find P xs of None \<Rightarrow> find P ys | Some x \<Rightarrow> Some x)"
  by (induction xs) auto

text \<open>
  The list of components is a set registry as the client list of the policy manager is: adding
  the pipe of a component, removing a component.
\<close>

interpretation rm_reg: set_registry rm_keys rm_lookup rm_wf
    "\<lambda>s k. RM_AddPipe s (cmd\<lparr>rmComponent := fst k, rmPid := snd k\<rparr>) fd"
    "\<lambda>s k. RM_RemoveComponentFromList s (fst k) (snd k)" RM_MAXCOMPONENTS
  for cmd fd
proof unfold_locales
  fix s k assume a: "rm_wf s" "k \<notin> set (rm_keys s)" "length (rm_keys s) < RM_MAXCOMPONENTS"
  let ?cmd = "cmd\<lparr>rmComponent := fst k, rmPid := snd k\<rparr>"
  from RM_AddPipe_new [of s ?cmd fd] a obtain l c where
    r: "RM_AddPipe s ?cmd fd = Some (s\<lparr>rmList := l, rmNum := Suc (rmNum s)\<rparr>)"
      "rm_used (s\<lparr>rmList := l, rmNum := Suc (rmNum s)\<rparr>) = rm_used s @ [c]" "rm_entry ?cmd fd c"
      "rm_wf (s\<lparr>rmList := l, rmNum := Suc (rmNum s)\<rparr>)" by auto
  then have "rm_key c = k" by (simp add: rm_entry_def)
  with r show "\<exists>s'. RM_AddPipe s ?cmd fd = Some s' \<and> rm_wf s' \<and> rm_keys s' = rm_keys s @ [k]
      \<and> (\<forall>k'. k' \<noteq> k \<longrightarrow> rm_lookup s' k' = rm_lookup s k')"
    by (intro exI [of _ "s\<lparr>rmList := l, rmNum := Suc (rmNum s)\<rparr>"])
      (auto simp: rm_keys_def rm_lookup_def find_append split: option.split)
next
  fix s k assume a: "rm_wf s"
  from RM_Remove_spec [OF a, of "fst k" "snd k"] obtain l n where
    r: "RM_RemoveComponentFromList s (fst k) (snd k) = Some (s\<lparr>rmList := l, rmNum := n\<rparr>)"
      "rm_wf (s\<lparr>rmList := l, rmNum := n\<rparr>)"
      "rm_used (s\<lparr>rmList := l, rmNum := n\<rparr>) = filter (\<lambda>c. rm_key c \<noteq> k) (rm_used s)" by auto
  moreover have "rm_keys (s\<lparr>rmList := l, rmNum := n\<rparr>) = remove1 k (rm_keys s)"
    using remove1_keys [of rm_key "rm_used s"] a r(3) by (simp add: rm_keys_def [symmetric]) (simp add: rm_keys_def)
  moreover have "rm_lookup (s\<lparr>rmList := l, rmNum := n\<rparr>) k' = rm_lookup s k'" if "k' \<noteq> k" for k'
    using r(3) that find_filter_other [of "\<lambda>c. rm_key c = k'" "\<lambda>c. rm_key c \<noteq> k"] by (auto simp: rm_lookup_def)
  ultimately show "\<exists>s'. RM_RemoveComponentFromList s (fst k) (snd k) = Some s' \<and> rm_wf s'
      \<and> rm_keys s' = remove1 k (rm_keys s) \<and> (\<forall>k'. k' \<noteq> k \<longrightarrow> rm_lookup s' k' = rm_lookup s k')"
    by blast
next
  fix s assume "rm_wf s"
  then show "length (rm_keys s) \<le> RM_MAXCOMPONENTS" by simp
next
  fix s k assume "rm_wf s" "k \<in> set (rm_keys s)"
  then show "RM_AddPipe s (cmd\<lparr>rmComponent := fst k, rmPid := snd k\<rparr>) fd = Some s"
    by (intro RM_AddPipe_known) simp_all
qed

subsection \<open>The handlers on a well-formed state\<close>

lemma rm_frame [simp]:
  "rm_used (s\<lparr>cmd_data := d\<rparr>) = rm_used s" "rm_keys (s\<lparr>cmd_data := d\<rparr>) = rm_keys s"
  "rm_lookup (s\<lparr>cmd_data := d\<rparr>) = rm_lookup s" "rm_pipe (s\<lparr>cmd_data := d\<rparr>) = rm_pipe s"
  "rm_wf (s\<lparr>cmd_data := d\<rparr>) = rm_wf s"
  "rm_used (s\<lparr>globalrequest := d\<rparr>) = rm_used s" "rm_keys (s\<lparr>globalrequest := d\<rparr>) = rm_keys s"
  "rm_lookup (s\<lparr>globalrequest := d\<rparr>) = rm_lookup s" "rm_pipe (s\<lparr>globalrequest := d\<rparr>) = rm_pipe s"
  "rm_wf (s\<lparr>globalrequest := d\<rparr>) = rm_wf s"
  "rm_used (s\<lparr>mmuRecoveryInProgress := b\<rparr>) = rm_used s" "rm_keys (s\<lparr>mmuRecoveryInProgress := b\<rparr>) = rm_keys s"
  "rm_wf (s\<lparr>mmuRecoveryInProgress := b\<rparr>) = rm_wf s" "rm_wf (s\<lparr>watch := w\<rparr>) = rm_wf s"
  "rm_keys (s\<lparr>watch := w\<rparr>) = rm_keys s" "rm_used (s\<lparr>watch := w\<rparr>) = rm_used s"
  "rm_wf (s\<lparr>stub_mode := b\<rparr>) = rm_wf s" "rm_keys (s\<lparr>stub_mode := b\<rparr>) = rm_keys s"
  "rm_wf (s\<lparr>rmFdwrite := f\<rparr>) = rm_wf s" "rm_keys (s\<lparr>rmFdwrite := f\<rparr>) = rm_keys s"
  "rm_used (s\<lparr>rmFdwrite := f\<rparr>) = rm_used s"
  by (rule rm_list_cong; simp)+

lemma rm_frame_list [simp]:
  "rm_wf (s\<lparr>rmFdwrite := f, rmList := l, rmNum := n\<rparr>) = rm_wf (s\<lparr>rmList := l, rmNum := n\<rparr>)"
  "rm_wf (s\<lparr>cmd_data := d, rmList := l, rmNum := n\<rparr>) = rm_wf (s\<lparr>rmList := l, rmNum := n\<rparr>)"
  "rm_wf (s\<lparr>cmd_data := d, rmFdwrite := f, rmList := l, rmNum := n\<rparr>) = rm_wf (s\<lparr>rmList := l, rmNum := n\<rparr>)"
  by (rule rm_list_cong; simp)+

lemma pipe_used: "rm_wf s \<Longrightarrow> c \<in> set (rm_used s) \<Longrightarrow> rm_pipe s (rm_key c) = rcPipe c"
  by (simp add: rm_pipe_def rm_lookup_used)

lemma pipe_status:
  "rm_replaced (rcStatus_update (\<lambda>_. st)) k s s' \<Longrightarrow> rm_pipe s' k' = rm_pipe s k'"
  using rm_replaced_keys(4) [of "rcStatus_update (\<lambda>_. st)" k s s' k']
  by (auto simp: rm_pipe_def rm_key_def split: option.split)

lemma core_status:
  "rm_replaced (rcStatus_update (\<lambda>_. st)) k s s' \<Longrightarrow> map rm_core (rm_used s') = map rm_core (rm_used s)"
  by (auto simp: rm_replaced_def rm_core_def)

lemma map_core: "(\<And>c. f (rm_core c) = f c) \<Longrightarrow> map rm_core xs = map rm_core ys \<Longrightarrow> map f xs = map f ys"
  by (metis (no_types, lifting) comp_def map_map map_eq_conv)

lemma pipe_map_of:
  "rm_pipe s k = (case map_of (map (\<lambda>c. (rm_key c, rcPipe c)) (rm_used s)) k of None \<Rightarrow> - 1 | Some p \<Rightarrow> p)"
proof -
  have "map_of (map (\<lambda>c. (rm_key c, rcPipe c)) cs) k = map_option rcPipe (find (\<lambda>c. rm_key c = k) cs)" for cs
    by (induction cs) auto
  then show ?thesis by (auto simp: rm_pipe_def rm_lookup_def split: option.split)
qed

lemma core_keys:
  assumes "map rm_core (rm_used s') = map rm_core (rm_used s)"
  shows "rm_keys s' = rm_keys s" "rm_pipe s' = rm_pipe s"
  using map_core [OF _ assms, of rm_key] map_core [OF _ assms, of "\<lambda>c. (rm_key c, rcPipe c)"]
  by (simp_all add: rm_keys_def pipe_map_of fun_eq_iff rm_core_def rm_key_def)

definition waiting_clients :: "rm_comp list \<Rightarrow> rm_comp list" where
  "waiting_clients cs = filter (\<lambda>c. rcState c = OMX_StateWaitForResources) cs"

definition acquired_msg :: "rm_command \<Rightarrow> rm_comp \<Rightarrow> rm_command" where
  "acquired_msg d c = d\<lparr>rmStatus := RM_RESOURCEACQUIRED, rmComponent := rcHandle c\<rparr>"

definition last_acquired :: "rm_command \<Rightarrow> rm_comp list \<Rightarrow> rm_command" where
  "last_acquired d ws = (if ws = [] then d else acquired_msg d (last ws))"

lemma acquired_twice [simp]: "acquired_msg (acquired_msg d c) c' = acquired_msg d c'"
  by (simp add: acquired_msg_def)

lemma acquire_from_closed:
  assumes "rm_wf s" and "i + k \<le> rmNum s"
  shows "acquire_from s i k =
    (let ws = waiting_clients (take k (drop i (rm_used s)))
     in Some (s\<lparr>cmd_data := last_acquired (cmd_data s) ws\<rparr>,
              concat (map (\<lambda>c. client_write (rcPipe c) (acquired_msg (cmd_data s) c)) ws)))"
  using assms
proof (induction k arbitrary: s i)
  case 0
  then show ?case by (simp add: waiting_clients_def last_acquired_def)
next
  case (Suc k)
  let ?c = "rm_used s ! i"
  have i: "i < rmNum s" "i < length (rm_used s)" using Suc.prems by simp_all
  with Suc.prems have r: "rd (rmList s) i = Some ?c" using used_nth [of s i] by simp
  have t: "take (Suc k) (drop i (rm_used s)) = ?c # take k (drop (Suc i) (rm_used s))"
    using i(2) by (simp add: Cons_nth_drop_Suc [symmetric])
  have p: "rm_pipe s (rcHandle ?c, rcPid ?c) = rcPipe ?c"
    using pipe_used [OF Suc.prems(1), of ?c] i by (simp add: rm_key_def)
  show ?case
  proof (cases "rcState ?c = OMX_StateWaitForResources")
    case False
    from Suc.IH [OF Suc.prems(1), of "Suc i"] Suc.prems(2) False r t show ?thesis
      by (simp add: waiting_clients_def Let_def)
  next
    case True
    let ?s = "s\<lparr>cmd_data := acquired_msg (cmd_data s) ?c\<rparr>"
    have "RM_GetPipe ?s (rcHandle ?c) (rcPid ?c) = Some (rcPipe ?c)"
      using Suc.prems p by (simp add: RM_GetPipe_closed)
    with Suc.IH [of ?s "Suc i"] Suc.prems True r t show ?thesis
      by (simp add: waiting_clients_def Let_def last_acquired_def) (simp add: acquired_msg_def)
  qed
qed

lemma HandleFreeResource_closed:
  assumes "rm_wf s"
  shows "HandleFreeResource s cmd =
    (let ws = waiting_clients (butlast (rm_used s))
     in Some (s\<lparr>cmd_data := last_acquired (cmd_data s) ws\<rparr>,
              (if stub_mode s then [] else [To_policy (policy_cmd PM_FreePolicy cmd)])
              @ concat (map (\<lambda>c. client_write (rcPipe c) (acquired_msg (cmd_data s) c)) ws)))"
proof (cases "rmNum s > 1")
  case True
  have "take (rmNum s - 1) (rm_used s) = butlast (rm_used s)" using assms by (simp add: butlast_conv_take)
  with True acquire_from_closed [OF assms, of 0 "rmNum s - 1"] show ?thesis
    by (simp add: HandleFreeResource_def Let_def)
next
  case False
  then have "butlast (rm_used s) = []" using assms by (simp add: butlast_conv_take)
  with False show ?thesis by (simp add: HandleFreeResource_def waiting_clients_def last_acquired_def)
qed

lemma HandleWaitForResource_spec:
  assumes "rm_wf s"
  shows "\<exists>l outs. HandleWaitForResource s cmd = Some (s\<lparr>rmList := l\<rparr>, outs) \<and> rm_wf (s\<lparr>rmList := l\<rparr>)
    \<and> map rm_core (rm_used (s\<lparr>rmList := l\<rparr>)) = map rm_core (rm_used s)
    \<and> outs = (if (rmComponent cmd, rmPid cmd) \<in> set (rm_keys s)
              then client_write (rm_pipe s (rmComponent (cmd_data s), rmPid (cmd_data s))) (cmd_data s) else [])"
proof (cases "first_index (\<lambda>c. rm_key c = (rmComponent cmd, rmPid cmd)) (rm_used s)")
  case None
  with assms have "(rmComponent cmd, rmPid cmd) \<notin> set (rm_keys s)" by (simp add: absent_index)
  with None assms show ?thesis
    by (intro exI [of _ "rmList s"]) (simp add: HandleWaitForResource_def RM_GetListIndex_closed)
next
  case (Some i)
  let ?k = "(rmComponent cmd, rmPid cmd)"
  let ?d = "cmd_data s"
  have m: "?k \<in> set (rm_keys s)" using Some absent_index [OF assms, of ?k] by auto
  have r: "rd (rmList s) i = Some (rmList s ! i)" using first_index_used [OF assms Some] assms by simp
  have any: "\<exists>l. RM_SetStatus s (rmComponent cmd) (rmPid cmd) st = Some (s\<lparr>rmList := l\<rparr>) \<and> rm_wf (s\<lparr>rmList := l\<rparr>)
      \<and> map rm_core (rm_used (s\<lparr>rmList := l\<rparr>)) = map rm_core (rm_used s)
      \<and> (\<forall>k. rm_pipe (s\<lparr>rmList := l\<rparr>) k = rm_pipe s k)" for st
    using RM_SetStatus_spec [OF assms, of "rmComponent cmd" "rmPid cmd" st] core_status pipe_status
    by (fastforce simp: rm_replaced_def)
  have "\<exists>l. (if rcReason (rmList s ! i) = RM_ReasonPolicy
             then RM_SetStatus s (rmComponent cmd) (rmPid cmd) RM_WaitingForPolicy
             else if rcReason (rmList s ! i) = RM_ReasonResource
             then RM_SetStatus s (rmComponent cmd) (rmPid cmd) RM_WaitingForResource
             else Some s) = Some (s\<lparr>rmList := l\<rparr>) \<and> rm_wf (s\<lparr>rmList := l\<rparr>)
      \<and> map rm_core (rm_used (s\<lparr>rmList := l\<rparr>)) = map rm_core (rm_used s)
      \<and> (\<forall>k. rm_pipe (s\<lparr>rmList := l\<rparr>) k = rm_pipe s k)"
    using any assms by (auto intro: exI [of _ "rmList s"])
  then obtain l where l: "(if rcReason (rmList s ! i) = RM_ReasonPolicy
             then RM_SetStatus s (rmComponent cmd) (rmPid cmd) RM_WaitingForPolicy
             else if rcReason (rmList s ! i) = RM_ReasonResource
             then RM_SetStatus s (rmComponent cmd) (rmPid cmd) RM_WaitingForResource
             else Some s) = Some (s\<lparr>rmList := l\<rparr>)" "rm_wf (s\<lparr>rmList := l\<rparr>)"
      "map rm_core (rm_used (s\<lparr>rmList := l\<rparr>)) = map rm_core (rm_used s)"
      "rm_pipe (s\<lparr>rmList := l\<rparr>) k = rm_pipe s k" for k by blast
  with Some m r assms show ?thesis
    by (intro exI [of _ l]) (simp add: HandleWaitForResource_def RM_GetListIndex_closed RM_GetPipe_closed)
qed

text \<open>The fields that the list, the totals and the load do not belong to.\<close>

definition rm_ctl :: "rm_state \<Rightarrow> bool \<times> bool \<times> watch_phase \<times> rm_command \<times> rm_command" where
  "rm_ctl s = (stub_mode s, mmuRecoveryInProgress s, watch s, globalrequest s, cmd_data s)"

definition same_list :: "rm_state \<Rightarrow> rm_state \<Rightarrow> bool" where
  "same_list s s' \<longleftrightarrow> rmNum s' = rmNum s \<and> rmList s' = rmList s \<and> snapshotsCaptured s' = snapshotsCaptured s
     \<and> rm_ctl s' = rm_ctl s"

lemma same_list_refl [simp]: "same_list s s"
  by (simp add: same_list_def)

lemma same_listD:
  assumes "same_list s s'"
  shows "rm_wf s' = rm_wf s" "rm_keys s' = rm_keys s" "rm_pipe s' = rm_pipe s" "rm_used s' = rm_used s" "rm_ctl s' = rm_ctl s"
  using assms rm_list_cong [of s' s] by (auto simp: same_list_def)

lemma same_list_cpu [simp]: "same_list s (add_cpu k cpu s)" "same_list s (sub_cpu k cpu s)"
  by (auto simp: same_list_def rm_ctl_def add_cpu_def sub_cpu_def split: option.split rm_kind.split)

lemma same_list_total: "same_list s s' \<Longrightarrow> same_list s (fst (set_total env s'))"
  by (simp add: same_list_def set_total_def Let_def rm_ctl_def split: prod.split)

lemma set_total_outs: "snd (set_total env s) \<in> range (map To_sysfs)"
  by (simp add: set_total_def Let_def split: prod.split)

text \<open>The CPU totals: which total a component of a kind is counted in, and what the totals are after a change of state.\<close>

definition cpu_of :: "rm_kind \<Rightarrow> rm_state \<Rightarrow> u32" where
  "cpu_of k s = (case k of RM_AUDIO \<Rightarrow> audioTotalCpu s | RM_VIDEO \<Rightarrow> videoTotalCpu s | RM_IMAGE \<Rightarrow> imageTotalCpu s
     | RM_CAMERA \<Rightarrow> cameraTotalCpu s | RM_LCD \<Rightarrow> lcdTotalCpu s)"

definition sum_cpu :: "rm_state \<Rightarrow> u32" where
  "sum_cpu s = audioTotalCpu s + videoTotalCpu s + imageTotalCpu s + cameraTotalCpu s + lcdTotalCpu s"

lemma cpu_of_add: "cpu_of k (add_cpu k' cpu s) = cpu_of k s + (if k' = Some k then cpu else 0)"
  by (cases k) (auto simp: cpu_of_def add_cpu_def split: option.split rm_kind.split)

lemma cpu_of_sub: "cpu_of k (sub_cpu k' cpu s) = cpu_of k s - (if k' = Some k then cpu else 0)"
  by (cases k) (auto simp: cpu_of_def sub_cpu_def split: option.split rm_kind.split)

lemma set_total_total:
  "totalCpu (fst (set_total env s)) = sum_cpu s" "cpu_of k (fst (set_total env s)) = cpu_of k s"
  "sum_cpu (fst (set_total env s)) = sum_cpu s"
  by (simp_all add: set_total_def Let_def sum_cpu_def cpu_of_def split: prod.split rm_kind.split)

definition starts_running :: "u32 \<Rightarrow> u32 \<Rightarrow> bool" where
  "starts_running p n \<longleftrightarrow> (p = OMX_StateIdle \<or> p = OMX_StatePause) \<and> n = OMX_StateExecuting"

definition stops_running :: "u32 \<Rightarrow> u32 \<Rightarrow> bool" where
  "stops_running p n \<longleftrightarrow> p = OMX_StateExecuting \<and> (n = OMX_StateIdle \<or> n = OMX_StatePause)"

definition cpu_change :: "u32 \<Rightarrow> u32 \<Rightarrow> u32 \<Rightarrow> u32" where
  "cpu_change p n cpu = (if starts_running p n then cpu else if stops_running p n then - cpu else 0)"

lemma totals_cong:
  "cpu_of k (s\<lparr>rmList := l\<rparr>) = cpu_of k s" "sum_cpu (s\<lparr>rmList := l\<rparr>) = sum_cpu s" "totalCpu (s\<lparr>rmList := l\<rparr>) = totalCpu s"
  "rm_ctl (s\<lparr>rmList := l\<rparr>) = rm_ctl s"
  by (cases k) (simp_all add: cpu_of_def sum_cpu_def rm_ctl_def)

text \<open>
  A state change of a registered component: the state of its entry, the total of its kind and
  the sum are updated; the list is otherwise the same up to the status.
\<close>

lemma HandleStateSet_spec:
  assumes "rm_wf s" and "rm_lookup s (rmComponent cmd, rmPid cmd) = Some c"
  shows "\<exists>s' outs. HandleStateSet env s cmd = Some (s', outs) \<and> rm_wf s' \<and> rm_ctl s' = rm_ctl s
    \<and> rm_keys s' = rm_keys s \<and> rm_pipe s' = rm_pipe s
    \<and> map rm_core (rm_used s') = map (\<lambda>x. if rm_key x = rm_key c then (rm_core x)\<lparr>rcState := rmParam2 cmd\<rparr> else rm_core x) (rm_used s)
    \<and> (\<forall>k. cpu_of k s' = cpu_of k s + (if component_type (rmParam1 cmd) = Some k then cpu_change (rcState c) (rmParam2 cmd) (rcCPU c) else 0))
    \<and> (sum_cpu s = totalCpu s \<longrightarrow> sum_cpu s' = totalCpu s')
    \<and> (\<forall>o' \<in> set outs. (\<exists>x. o' = To_sysfs x) \<or> (\<exists>fd. o' = To_client fd (cmd_data s)))"
proof -
  let ?k = "(rmComponent cmd, rmPid cmd)"
  let ?new = "rmParam2 cmd" and ?old = "rcState c"
  let ?f = "rcState_update (\<lambda>_. ?new)"
  from assms(2) obtain i where i: "first_index (\<lambda>c. rm_key c = ?k) (rm_used s) = Some i" "c = rm_used s ! i"
    by (auto simp: rm_lookup_def find_first_index)
  have key: "rm_key c = ?k" using rm_lookup_Some [OF assms(2)] by simp
  from first_index_used [OF assms(1) i(1)] i(2) have c: "rmList s ! i = c" "i < RM_MAXCOMPONENTS" by auto
  let ?s1 = "s\<lparr>rmList := (rmList s)[i := ?f c]\<rparr>"
  have rep: "rm_replaced ?f ?k s ?s1"
    using rm_write_replaced [OF assms(1) i(1), of ?f] c(1) by (simp add: rm_key_def)
  have kf: "\<And>c. rm_key (?f c) = rm_key c" by (simp add: rm_key_def)
  note rk = rm_replaced_keys [OF rep kf]
  have pipe1: "rm_pipe ?s1 = rm_pipe s"
    using rk(4) by (auto simp: rm_pipe_def fun_eq_iff split: option.split)
  have used1: "rm_used ?s1 = map (\<lambda>x. if rm_key x = ?k then ?f x else x) (rm_used s)"
    using rep by (simp add: rm_replaced_def)
  define r where "r = (if starts_running ?old ?new then set_total env (add_cpu (component_type (rmParam1 cmd)) (rcCPU c) ?s1)
    else if stops_running ?old ?new then set_total env (sub_cpu (component_type (rmParam1 cmd)) (rcCPU c) ?s1) else (?s1, []))"
  have same: "same_list ?s1 (fst r)" by (simp add: r_def same_list_total)
  have outs: "\<forall>o' \<in> set (snd r). \<exists>x. o' = To_sysfs x"
    using set_total_outs [of env "add_cpu (component_type (rmParam1 cmd)) (rcCPU c) ?s1"]
      set_total_outs [of env "sub_cpu (component_type (rmParam1 cmd)) (rcCPU c) ?s1"]
    by (auto simp: r_def)
  have cpu: "cpu_of k (fst r) = cpu_of k s
      + (if component_type (rmParam1 cmd) = Some k then cpu_change ?old ?new (rcCPU c) else 0)" for k
    by (simp add: r_def cpu_change_def set_total_total cpu_of_add cpu_of_sub totals_cong)
  have tot: "sum_cpu s = totalCpu s \<longrightarrow> sum_cpu (fst r) = totalCpu (fst r)"
    by (simp add: r_def set_total_total totals_cong)
  have run: "HandleStateSet env s cmd = (if ?new = OMX_StateWaitForResources
      then do { (s3, out') \<leftarrow> HandleWaitForResource (fst r) cmd; Some (s3, snd r @ out') } else Some r)"
    using i(1) c assms(1)
    by (simp add: HandleStateSet_def scan_closed is_rm_key flip: rm_used_def)
      (simp add: r_def starts_running_def stops_running_def Let_def split: prod.split)
  note sl = same_listD [OF same]
  have core1: "map rm_core (rm_used ?s1)
      = map (\<lambda>x. if rm_key x = ?k then (rm_core x)\<lparr>rcState := ?new\<rparr> else rm_core x) (rm_used s)"
    by (simp add: used1 rm_core_def)
  show ?thesis
  proof (cases "?new = OMX_StateWaitForResources")
    case False
    with run sl rk(1,3) pipe1 core1 cpu tot outs key show ?thesis
      by (intro exI [of _ "fst r"] exI [of _ "snd r"]) (auto simp: totals_cong)
  next
    case True
    have w: "rm_wf (fst r)" using sl rk(3) by simp
    from HandleWaitForResource_spec [OF w, of cmd] obtain l o' where
      l: "HandleWaitForResource (fst r) cmd = Some ((fst r)\<lparr>rmList := l\<rparr>, o')" "rm_wf ((fst r)\<lparr>rmList := l\<rparr>)"
        "map rm_core (rm_used ((fst r)\<lparr>rmList := l\<rparr>)) = map rm_core (rm_used (fst r))"
        "set o' \<subseteq> {To_client (rm_pipe (fst r) (rmComponent (cmd_data (fst r)), rmPid (cmd_data (fst r)))) (cmd_data (fst r))}"
      by (auto simp: client_write_def split: if_splits)
    let ?s' = "(fst r)\<lparr>rmList := l\<rparr>"
    note lk = core_keys [OF l(3)]
    have "HandleStateSet env s cmd = Some (?s', snd r @ o')" using run True l(1) by simp
    moreover have "rm_ctl ?s' = rm_ctl s" using sl(5) by (simp add: totals_cong)
    moreover have "cmd_data (fst r) = cmd_data s" using sl(5) by (simp add: rm_ctl_def)
    ultimately show ?thesis
      using l(2,3,4) lk sl(1-4) rk(1) pipe1 core1 cpu tot outs key
      by (intro exI [of _ ?s'] exI [of _ "snd r @ o'"]) (auto simp: totals_cong)
  qed
qed

subsection \<open>Load, answers and notifications\<close>

lemma qos_error_state: "InitializeQos q s = (e, s') \<Longrightarrow> s' = s \<or> s' = s\<lparr>stub_mode := True\<rparr>"
  by (auto simp: InitializeQos_def split: if_splits)

lemma replicate5: "replicate 5 x = [x, x, x, x, x]"
  by (simp add: eval_nat_numeral)

text \<open>After the snapshots have been cleared only the new load counts, at the index of the capture.\<close>

lemma record_load_closed:
  assumes "snapshotsCaptured s \<le> RM_CPUAVGDEPTH"
  shows "record_load s load = (let n = min (Suc (snapshotsCaptured s)) RM_CPUAVGDEPTH
    in Some (s\<lparr>cpuLoadSnapshots := (replicate RM_CPUAVGDEPTH 0)[n - 1 := sint load], snapshotsCaptured := n,
               averageCpuLoad := sint load sdiv int n\<rparr>))"
proof -
  from assms consider "snapshotsCaptured s = 0" | "snapshotsCaptured s = 1" | "snapshotsCaptured s = 2"
    | "snapshotsCaptured s = 3" | "snapshotsCaptured s = 4" | "snapshotsCaptured s = 5" by linarith
  then show ?thesis
    by cases (simp_all add: record_load_def replicate5 eval_nat_numeral wr_def rd_def)
qed

text \<open>When the environment lets \<open>RM_GetQos\<close> come to a decision on the load.\<close>

definition qos_ready :: "qos_env \<Rightarrow> bool" where
  "qos_ready q \<longleftrightarrow> q_dll q \<and> q_open q \<and> q_attach q (qos_processor (q_procs q)) \<and> q_reg_node q \<and> q_reg_lib q \<and> q_create q"

lemma InitializeQos_ready: "fst (InitializeQos q s) = Qos_none \<longleftrightarrow> qos_ready q"
  by (auto simp: InitializeQos_def qos_ready_def)

lemma InitializeQos_none: "InitializeQos q s = (Qos_none, s') \<Longrightarrow> s' = s"
  by (auto simp: InitializeQos_def split: if_splits)

definition qos_defined :: "qos_env \<Rightarrow> bool" where
  "qos_defined q \<longleftrightarrow> q_load q \<noteq> None \<or> \<not> q_malloc q \<or> q_found q \<noteq> []"

lemma dsp_load_defined: "qos_defined q \<Longrightarrow> \<exists>m. dsp_load q = Some m"
  by (auto simp: qos_defined_def dsp_load_def neq_Nil_conv split: option.split)

lemma qos_frame:
  "rm_used (s\<lparr>cpuLoadSnapshots := a, snapshotsCaptured := n, averageCpuLoad := v, cyclesAvailable := c\<rparr>) = rm_used s"
  "rm_keys (s\<lparr>cpuLoadSnapshots := a, snapshotsCaptured := n, averageCpuLoad := v, cyclesAvailable := c\<rparr>) = rm_keys s"
  "rm_pipe (s\<lparr>cpuLoadSnapshots := a, snapshotsCaptured := n, averageCpuLoad := v, cyclesAvailable := c\<rparr>) = rm_pipe s"
  by (rule rm_list_cong; simp)+

lemma RM_GetQos_frame:
  assumes "rm_wf s" and "RM_GetQos env s = Some (b, s')"
  shows "rm_wf s' \<and> rmList s' = rmList s \<and> rmNum s' = rmNum s \<and> globalrequest s' = globalrequest s
    \<and> mmuRecoveryInProgress s' = mmuRecoveryInProgress s \<and> watch s' = watch s \<and> cmd_data s' = cmd_data s
    \<and> (stub_mode s \<longrightarrow> stub_mode s') \<and> totalCpu s' = totalCpu s \<and> sum_cpu s' = sum_cpu s
    \<and> (stub_mode s' \<longrightarrow> b)"
proof -
  let ?q = "re_qos env"
  obtain e si where i: "InitializeQos ?q s = (e, si)" by fastforce
  define s1 where "s1 = (if stub_mode s then s else if e \<noteq> Qos_none then si\<lparr>stub_mode := True\<rparr> else si)"
  have s1: "s1 = s \<or> s1 = s\<lparr>stub_mode := True\<rparr>"
    using qos_error_state [OF i] by (auto simp: s1_def)
  have n: "snapshotsCaptured s \<le> RM_CPUAVGDEPTH" using assms(1) by (simp add: rm_wf_def del: rm_wf_lengths)
  have wf: "rm_wf s'" if "rmList s' = rmList s" "rmNum s' = rmNum s" "snapshotsCaptured s' \<le> RM_CPUAVGDEPTH"
    using that assms(1) rm_list_cong(2) [of s' s] by (simp add: rm_wf_def del: rm_wf_lengths)
  have n1: "snapshotsCaptured s1 \<le> RM_CPUAVGDEPTH" using s1 n by auto
  from assms(2) have "rmList s' = rmList s1 \<and> rmNum s' = rmNum s1 \<and> globalrequest s' = globalrequest s1
    \<and> mmuRecoveryInProgress s' = mmuRecoveryInProgress s1 \<and> watch s' = watch s1 \<and> cmd_data s' = cmd_data s1
    \<and> stub_mode s' = stub_mode s1 \<and> totalCpu s' = totalCpu s1 \<and> sum_cpu s' = sum_cpu s1
    \<and> snapshotsCaptured s' \<le> RM_CPUAVGDEPTH \<and> (stub_mode s1 \<longrightarrow> b)"
    using n1 unfolding RM_GetQos_def i Let_def prod.case s1_def [symmetric]
    by (auto simp: record_load_closed Let_def sum_cpu_def split: if_splits option.splits Option.bind_splits)
  with s1 wf show ?thesis by (auto simp: sum_cpu_def)
qed

lemma RM_GetQos_defined:
  assumes "rm_wf s" and "qos_defined (re_qos env)"
  shows "\<exists>b s'. RM_GetQos env s = Some (b, s')"
proof -
  obtain e si where i: "InitializeQos (re_qos env) s = (e, si)" by fastforce
  define s1 where "s1 = (if stub_mode s then s else if e \<noteq> Qos_none then si\<lparr>stub_mode := True\<rparr> else si)"
  have n: "snapshotsCaptured s1 \<le> RM_CPUAVGDEPTH"
    using assms(1) qos_error_state [OF i] by (auto simp: rm_wf_def s1_def simp del: rm_wf_lengths)
  from dsp_load_defined [OF assms(2)] obtain m where "dsp_load (re_qos env) = Some m" by blast
  with n show ?thesis
    unfolding RM_GetQos_def i Let_def prod.case s1_def [symmetric]
    by (cases m) (auto simp: record_load_closed Let_def split: option.split)
qed

text \<open>The answer to the pending request goes to the pipe of its component.\<close>

lemma answer_request_spec:
  assumes "rm_wf s"
  shows "\<exists>l. answer_request s st cst = Some (s\<lparr>globalrequest := (globalrequest s)\<lparr>rmStatus := st\<rparr>, rmList := l\<rparr>,
      client_write (rm_pipe s (rmComponent (globalrequest s), rmPid (globalrequest s))) ((globalrequest s)\<lparr>rmStatus := st\<rparr>))
    \<and> rm_replaced (rcStatus_update (\<lambda>_. cst)) (rmComponent (globalrequest s), rmPid (globalrequest s))
        (s\<lparr>globalrequest := (globalrequest s)\<lparr>rmStatus := st\<rparr>\<rparr>) (s\<lparr>globalrequest := (globalrequest s)\<lparr>rmStatus := st\<rparr>, rmList := l\<rparr>)"
proof -
  let ?g = "(globalrequest s)\<lparr>rmStatus := st\<rparr>"
  let ?s = "s\<lparr>globalrequest := ?g\<rparr>"
  have w: "rm_wf ?s" using assms by simp
  from RM_SetStatus_spec [OF w, of "rmComponent ?g" "rmPid ?g" cst] obtain s' where
    s': "RM_SetStatus ?s (rmComponent ?g) (rmPid ?g) cst = Some s'"
      "rm_replaced (rcStatus_update (\<lambda>_. cst)) (rmComponent ?g, rmPid ?g) ?s s'" by blast
  then obtain l where l: "s' = ?s\<lparr>rmList := l\<rparr>" by (auto simp: rm_replaced_def)
  have "rm_wf s'" using s'(2) by (simp add: rm_replaced_def)
  then have "RM_GetPipe s' (rmComponent ?g) (rmPid ?g) = Some (rm_pipe s (rmComponent ?g, rmPid ?g))"
    using pipe_status [OF s'(2)] by (simp add: RM_GetPipe_closed)
  with s' l show ?thesis by (intro exI [of _ l]) (simp add: answer_request_def Let_def)
qed

definition fatal_msg :: "rm_command \<Rightarrow> rm_comp \<Rightarrow> rm_command" where
  "fatal_msg d c = d\<lparr>rmStatus := RM_RESOURCEFATALERROR, rmComponent := rcHandle c, rmPid := rcPid c\<rparr>"

lemma fatal_twice [simp]: "fatal_msg (fatal_msg d c) c' = fatal_msg d c'"
  by (simp add: fatal_msg_def)

lemma core_eqD:
  assumes "rm_core c = rm_core c'"
  shows "rcHandle c = rcHandle c'" "rcPid c = rcPid c'" "rcPipe c = rcPipe c'" "rm_key c = rm_key c'"
  using assms by (auto simp: rm_core_def rm_key_def dest: arg_cong [of _ _ rcHandle] arg_cong [of _ _ rcPid] arg_cong [of _ _ rcPipe])

lemma notify_from_spec:
  assumes "rm_wf s" and "i + k \<le> rmNum s"
  shows "\<exists>l d. notify_from s i k = Some (s\<lparr>cmd_data := d, rmList := l\<rparr>,
      concat (map (\<lambda>c. client_write (rcPipe c) (fatal_msg (cmd_data s) c)) (take k (drop i (rm_used s)))))
    \<and> rm_wf (s\<lparr>cmd_data := d, rmList := l\<rparr>)
    \<and> map rm_core (rm_used (s\<lparr>cmd_data := d, rmList := l\<rparr>)) = map rm_core (rm_used s)"
  using assms
proof (induction k arbitrary: s i)
  case 0
  then show ?case by (intro exI [of _ "rmList s"] exI [of _ "cmd_data s"]) simp
next
  case (Suc k)
  let ?c = "rm_used s ! i"
  let ?d = "fatal_msg (cmd_data s) ?c"
  have i: "i < rmNum s" "i < length (rm_used s)" using Suc.prems by simp_all
  with Suc.prems have r: "rd (rmList s) i = Some ?c" using used_nth [of s i] by simp
  have w: "rm_wf (s\<lparr>cmd_data := ?d\<rparr>)" using Suc.prems by simp
  from RM_SetStatus_spec [OF w, of "rcHandle ?c" "rcPid ?c" RM_WaitingForClient] obtain s1 where
    s1: "RM_SetStatus (s\<lparr>cmd_data := ?d\<rparr>) (rcHandle ?c) (rcPid ?c) RM_WaitingForClient = Some s1"
      "rm_replaced (rcStatus_update (\<lambda>_. RM_WaitingForClient)) (rcHandle ?c, rcPid ?c) (s\<lparr>cmd_data := ?d\<rparr>) s1" by blast
  then obtain l1 where l1: "s1 = s\<lparr>cmd_data := ?d, rmList := l1\<rparr>" by (auto simp: rm_replaced_def)
  have w1: "rm_wf s1" using s1(2) by (simp add: rm_replaced_def)
  have core1: "map rm_core (rm_used s1) = map rm_core (rm_used s)" using core_status [OF s1(2)] by simp
  have "rm_pipe s1 (rcHandle ?c, rcPid ?c) = rcPipe ?c"
    using pipe_status [OF s1(2)] pipe_used [OF Suc.prems(1), of ?c] i(2) by (simp add: rm_key_def)
  with w1 have p: "RM_GetPipe s1 (rcHandle ?c) (rcPid ?c) = Some (rcPipe ?c)" by (simp add: RM_GetPipe_closed)
  have n1: "Suc i + k \<le> rmNum s1" using Suc.prems l1 by simp
  from Suc.IH [OF w1 n1] obtain l d where ih:
    "notify_from s1 (Suc i) k = Some (s1\<lparr>cmd_data := d, rmList := l\<rparr>,
       concat (map (\<lambda>c. client_write (rcPipe c) (fatal_msg (cmd_data s1) c)) (take k (drop (Suc i) (rm_used s1)))))"
    "rm_wf (s1\<lparr>cmd_data := d, rmList := l\<rparr>)"
    "map rm_core (rm_used (s1\<lparr>cmd_data := d, rmList := l\<rparr>)) = map rm_core (rm_used s1)" by blast
  have "map rm_core (take k (drop (Suc i) (rm_used s1))) = map rm_core (take k (drop (Suc i) (rm_used s)))"
    using core1 by (metis drop_map take_map)
  then have "map (\<lambda>c. client_write (rcPipe c) (fatal_msg ?d c)) (take k (drop (Suc i) (rm_used s1)))
      = map (\<lambda>c. client_write (rcPipe c) (fatal_msg (cmd_data s) c)) (take k (drop (Suc i) (rm_used s)))"
    by (subst fatal_twice, rule map_core [rotated]) (simp_all add: rm_core_def fatal_msg_def)
  moreover have "take (Suc k) (drop i (rm_used s)) = ?c # take k (drop (Suc i) (rm_used s))"
    using i(2) by (simp add: Cons_nth_drop_Suc [symmetric])
  moreover have "cmd_data s1 = ?d" using l1 by simp
  ultimately have "notify_from s i (Suc k) = Some (s\<lparr>cmd_data := d, rmList := l\<rparr>,
      concat (map (\<lambda>c. client_write (rcPipe c) (fatal_msg (cmd_data s) c)) (take (Suc k) (drop i (rm_used s)))))"
    using r s1(1) p ih(1) l1 by (simp add: Let_def fatal_msg_def [symmetric])
  with ih(2,3) l1 core1 show ?case by (intro exI [of _ l] exI [of _ d]) simp
qed

subsection \<open>One step\<close>

fun opens_pipe :: "rm_event \<Rightarrow> bool" where
  "opens_pipe (Client env (Some cmd)) = (rmCmd cmd = RM_OpenPipe \<or> rmCmd cmd = RM_ReusePipe)"
| "opens_pipe _ = False"

fun requests :: "rm_event \<Rightarrow> bool" where
  "requests (Client env (Some cmd)) = (rmCmd cmd = RM_RequestResource)"
| "requests _ = False"

fun event_key :: "rm_event \<Rightarrow> handle \<times> u32" where
  "event_key (Client env (Some cmd)) = (rmComponent cmd, rmPid cmd)"
| "event_key _ = (NULL, 0)"

fun reopens :: "rm_event \<Rightarrow> bool" where
  "reopens (Setup opens ready) = (True \<in> set (take MAX_TRIES opens))"
| "reopens _ = False"

definition request_key :: "rm_state \<Rightarrow> handle \<times> u32" where
  "request_key s = (rmComponent (globalrequest s), rmPid (globalrequest s))"

text \<open>
  What an event needs: room in the list and a printable process number when a pipe is opened, a
  processor in the registry when \<open>RM_GetQos\<close> has to look there.
\<close>

definition event_ok :: "rm_event \<Rightarrow> bool" where
  "event_ok e = (case e of
     Client env (Some cmd) \<Rightarrow> (rmCmd cmd = RM_OpenPipe \<or> rmCmd cmd = RM_ReusePipe) \<longrightarrow> rmPid cmd \<noteq> 2 ^ 31
   | Policy env r \<Rightarrow> qos_defined (re_qos env)
   | _ \<Rightarrow> True)"

definition rm_ok :: "rm_state \<Rightarrow> rm_event \<Rightarrow> bool" where
  "rm_ok s e \<longleftrightarrow> event_ok e \<and> (opens_pipe e \<longrightarrow> rmNum s < RM_MAXCOMPONENTS)"

definition rm_effect :: "rm_state \<Rightarrow> rm_event \<Rightarrow> rm_state \<Rightarrow> rm_out list \<Rightarrow> bool" where
  "rm_effect s e s' out \<longleftrightarrow> rm_wf s' \<and> (sum_cpu s = totalCpu s \<longrightarrow> sum_cpu s' = totalCpu s')
     \<and> (stub_mode s \<longrightarrow> stub_mode s' \<and> (\<forall>c. To_policy c \<notin> set out))
     \<and> rmNum s' \<le> rmNum s + (if opens_pipe e then 1 else 0)
     \<and> request_key s' = (if requests e \<and> \<not> stub_mode s then event_key e else request_key s)
     \<and> (mmuRecoveryInProgress s \<and> (\<not> reopens e \<or> watch s = Watch_exit) \<longrightarrow> mmuRecoveryInProgress s')
     \<and> (watch s = Watch_exit \<longrightarrow> watch s' = Watch_exit)"

lemma To_policy_client [simp]: "To_policy c \<notin> set (client_write fd msg)"
  by (simp add: client_write_def)

lemma RM_itoa_pid: "(pid :: u32) \<noteq> 2 ^ 31 \<Longrightarrow> \<exists>str. RM_itoa (sint pid) = Some str"
proof -
  assume p: "pid \<noteq> 2 ^ 31"
  have "sint pid \<noteq> - (2 ^ 31)"
  proof
    assume "sint pid = - (2 ^ 31)"
    then have "word_of_int (sint pid) = (word_of_int (- (2 ^ 31)) :: u32)" by simp
    then show False using p by simp
  qed
  then show ?thesis by (simp add: RM_itoa_def RM_reverse_rev Let_def)
qed

lemma effect_cong:
  assumes "rmNum s' = rmNum s" "rmList s' = rmList s" "snapshotsCaptured s' = snapshotsCaptured s" "rm_wf s"
    "stub_mode s' = stub_mode s" "request_key s' = request_key s" "mmuRecoveryInProgress s' = mmuRecoveryInProgress s"
    "watch s' = watch s" "sum_cpu s' = sum_cpu s" "totalCpu s' = totalCpu s"
    "\<not> requests e \<or> stub_mode s" "stub_mode s \<longrightarrow> (\<forall>c. To_policy c \<notin> set out)"
  shows "rm_effect s e s' out"
  using assms rm_list_cong(5) [of s' s] by (auto simp: rm_effect_def)

lemma AddPipe_effect:
  assumes "rm_wf s" and "rmNum s < RM_MAXCOMPONENTS"
  shows "\<exists>l n. RM_AddPipe s cmd fd = Some (s\<lparr>rmList := l, rmNum := n\<rparr>) \<and> rm_wf (s\<lparr>rmList := l, rmNum := n\<rparr>) \<and> n \<le> Suc (rmNum s)"
proof (cases "(rmComponent cmd, rmPid cmd) \<in> set (rm_keys s)")
  case True
  with RM_AddPipe_known [OF assms(1) True, of fd] assms(1) show ?thesis
    by (intro exI [of _ "rmList s"] exI [of _ "rmNum s"]) simp
next
  case False
  with RM_AddPipe_new [OF assms(1) False assms(2), of fd] show ?thesis by blast
qed

lemma CreatePipe_effect:
  assumes "rm_wf s" and "rmNum s < RM_MAXCOMPONENTS" and "rmPid cmd \<noteq> 2 ^ 31"
  shows "\<exists>l n f. RM_CreatePipe env s cmd = Some (s\<lparr>rmList := l, rmNum := n, rmFdwrite := f\<rparr>)
    \<and> rm_wf (s\<lparr>rmList := l, rmNum := n, rmFdwrite := f\<rparr>) \<and> n \<le> Suc (rmNum s)"
proof -
  obtain str where str: "RM_itoa (sint (rmPid cmd)) = Some str" using RM_itoa_pid [OF assms(3)] by blast
  define f where "f = re_open env (pipe_name str)"
  let ?s = "s\<lparr>rmFdwrite := f\<rparr>"
  from AddPipe_effect [of ?s cmd f] assms obtain l n where
    a: "RM_AddPipe ?s cmd f = Some (?s\<lparr>rmList := l, rmNum := n\<rparr>)" "rm_wf (?s\<lparr>rmList := l, rmNum := n\<rparr>)" "n \<le> Suc (rmNum s)" by auto
  show ?thesis
  proof (cases "f < 0")
    case True
    with str assms show ?thesis
      by (intro exI [of _ "rmList s"] exI [of _ "rmNum s"] exI [of _ f]) (simp add: RM_CreatePipe_def f_def Let_def)
  next
    case False
    with str a show ?thesis
      by (intro exI [of _ l] exI [of _ n] exI [of _ f]) (simp add: RM_CreatePipe_def Let_def flip: f_def)
  qed
qed

lemma list_update_effect:
  assumes "rm_wf (s\<lparr>rmList := l, rmNum := n\<rparr>)" and "n \<le> rmNum s + (if opens_pipe e then 1 else 0)" and "\<not> requests e"
    and "stub_mode s \<longrightarrow> (\<forall>c. To_policy c \<notin> set out)"
  shows "rm_effect s e (s\<lparr>cmd_data := d, rmList := l, rmNum := n, rmFdwrite := f\<rparr>) out"
proof -
  have "rm_wf (s\<lparr>cmd_data := d, rmList := l, rmNum := n, rmFdwrite := f\<rparr>) = rm_wf (s\<lparr>rmList := l, rmNum := n\<rparr>)"
    by (rule rm_list_cong) simp_all
  with assms show ?thesis by (auto simp: rm_effect_def sum_cpu_def request_key_def)
qed

lemma free_effect:
  assumes "rm_wf s" and "rmCmd cmd = RM_FreeResource \<or> rmCmd cmd = RM_FreeAndCloseResource"
  shows "\<exists>s' out. rm_client env s cmd = Some (s', out) \<and> rm_effect s (Client env (Some cmd)) s' out
    \<and> (let ws = waiting_clients (butlast (rm_used s)); k = (rmComponent (last_acquired cmd ws), rmPid cmd)
       in rm_used s' = filter (\<lambda>c. rm_key c \<noteq> k) (rm_used s))"
proof -
  let ?s = "s\<lparr>cmd_data := cmd\<rparr>"
  let ?ws = "waiting_clients (butlast (rm_used s))"
  define d where "d = last_acquired cmd ?ws"
  have pid: "rmPid d = rmPid cmd" by (simp add: d_def last_acquired_def acquired_msg_def)
  have w: "rm_wf ?s" using assms by simp
  define out where "out = (if stub_mode s then [] else [To_policy (policy_cmd PM_FreePolicy cmd)])
              @ concat (map (\<lambda>c. client_write (rcPipe c) (acquired_msg cmd c)) ?ws)"
  have h: "HandleFreeResource ?s cmd = Some (s\<lparr>cmd_data := d\<rparr>, out)"
    using HandleFreeResource_closed [OF w, of cmd] by (simp add: Let_def d_def out_def)
  have o1: "stub_mode s \<longrightarrow> (\<forall>c. To_policy c \<notin> set out)" by (auto simp: out_def)
  have nr: "\<not> requests (Client env (Some cmd))" "\<not> opens_pipe (Client env (Some cmd))" using assms(2) by auto
  have frame: "s\<lparr>cmd_data := d, rmFdwrite := f, rmList := l, rmNum := n\<rparr>
      = s\<lparr>cmd_data := d, rmList := l, rmNum := n, rmFdwrite := f\<rparr>" for f l n by simp
  have rem: "\<exists>l n. RM_RemoveComponentFromList (s\<lparr>cmd_data := d, rmFdwrite := f\<rparr>) (rmComponent d) (rmPid d)
        = Some (s\<lparr>cmd_data := d, rmList := l, rmNum := n, rmFdwrite := f\<rparr>)
      \<and> rm_effect s (Client env (Some cmd)) (s\<lparr>cmd_data := d, rmList := l, rmNum := n, rmFdwrite := f\<rparr>) (out @ out')
      \<and> rm_used (s\<lparr>cmd_data := d, rmList := l, rmNum := n, rmFdwrite := f\<rparr>) = filter (\<lambda>c. rm_key c \<noteq> (rmComponent d, rmPid d)) (rm_used s)"
    if o2: "\<forall>c. To_policy c \<notin> set out'" for f out'
  proof -
    let ?t = "s\<lparr>cmd_data := d, rmFdwrite := f\<rparr>"
    from RM_Remove_spec [of ?t "rmComponent d" "rmPid d"] assms(1) obtain l n where
      r: "RM_RemoveComponentFromList ?t (rmComponent d) (rmPid d) = Some (?t\<lparr>rmList := l, rmNum := n\<rparr>)"
        "rm_wf (?t\<lparr>rmList := l, rmNum := n\<rparr>)"
        "rm_used (?t\<lparr>rmList := l, rmNum := n\<rparr>) = filter (\<lambda>c. rm_key c \<noteq> (rmComponent d, rmPid d)) (rm_used s)" by auto
    have wf: "rm_wf (s\<lparr>rmList := l, rmNum := n\<rparr>)" using r(2) rm_list_cong(5) [of "?t\<lparr>rmList := l, rmNum := n\<rparr>" "s\<lparr>rmList := l, rmNum := n\<rparr>"] by simp
    have "rm_keys (?t\<lparr>rmList := l, rmNum := n\<rparr>) = map rm_key (filter (\<lambda>c. rm_key c \<noteq> (rmComponent d, rmPid d)) (rm_used s))"
      unfolding rm_keys_def r(3) ..
    then have "length (rm_keys (?t\<lparr>rmList := l, rmNum := n\<rparr>)) \<le> length (rm_used s)" by simp
    then have "n \<le> rmNum s" using rm_wf_lengths(4) [OF r(2)] rm_wf_lengths(3) [OF assms(1)] by simp
    with list_update_effect [OF wf, where e = "Client env (Some cmd)" and out = "out @ out'" and d = d and f = f] nr o1 o2
    have "rm_effect s (Client env (Some cmd)) (s\<lparr>cmd_data := d, rmList := l, rmNum := n, rmFdwrite := f\<rparr>) (out @ out')" by auto
    with r(1,3) show ?thesis unfolding frame by blast
  qed
  show ?thesis
  proof (cases "rmCmd cmd = RM_FreeResource")
    case True
    have id: "s\<lparr>cmd_data := d, rmFdwrite := rmFdwrite s\<rparr> = s\<lparr>cmd_data := d\<rparr>" by simp
    from rem [of "[]" "rmFdwrite s"] True h show ?thesis
      unfolding id by (auto simp: rm_client_def Let_def pid d_def [symmetric])
  next
    case False
    with assms(2) have c: "rmCmd cmd = RM_FreeAndCloseResource" by simp
    have "\<exists>f out'. RM_ClosePipe (s\<lparr>cmd_data := d\<rparr>) d = Some (s\<lparr>cmd_data := d, rmFdwrite := f\<rparr>, out') \<and> (\<forall>c. To_policy c \<notin> set out')"
    proof (cases "first_index (\<lambda>c. rm_key c = (rmComponent d, rmPid d)) (rm_used s)")
      case None
      with assms(1) show ?thesis
        by (intro exI [of _ "rmFdwrite s"] exI [of _ "[]"]) (simp add: RM_ClosePipe_def RM_GetListIndex_closed)
    next
      case (Some i)
      with assms(1) first_index_used [OF assms(1) Some] show ?thesis
        by (auto simp: RM_ClosePipe_def RM_GetListIndex_closed)
    qed
    then obtain f out' where f: "RM_ClosePipe (s\<lparr>cmd_data := d\<rparr>) d = Some (s\<lparr>cmd_data := d, rmFdwrite := f\<rparr>, out')"
      "\<forall>c. To_policy c \<notin> set out'" by blast
    from rem [OF f(2), of f] f(1) c h show ?thesis
      by (auto simp: rm_client_def Let_def pid d_def [symmetric])
  qed
qed

lemma effect_ctl:
  assumes "rm_wf s'" and "sum_cpu s = totalCpu s \<longrightarrow> sum_cpu s' = totalCpu s'" and "rm_ctl s' = rm_ctl s1"
    and "rm_ctl s1 = (stub_mode s, mmuRecoveryInProgress s, watch s, globalrequest s, d)"
    and "rmNum s' = rmNum s" and "\<not> requests e" and "stub_mode s \<longrightarrow> (\<forall>c. To_policy c \<notin> set out)"
  shows "rm_effect s e s' out"
  using assms by (auto simp: rm_effect_def rm_ctl_def request_key_def)

lemma StateSet_absent:
  "rm_wf s \<Longrightarrow> rm_lookup s (rmComponent cmd, rmPid cmd) = None \<Longrightarrow> HandleStateSet env s cmd = Some (s, [])"
  by (simp add: HandleStateSet_def scan_closed is_rm_key rm_lookup_def find_first_index flip: rm_used_def)

lemma client_effect:
  assumes "rm_wf s" and "rm_ok s (Client env (Some cmd))"
  shows "\<exists>s' out. rm_client env s cmd = Some (s', out) \<and> rm_effect s (Client env (Some cmd)) s' out"
proof -
  let ?e = "Client env (Some cmd)"
  let ?s = "s\<lparr>cmd_data := cmd\<rparr>"
  have w: "rm_wf ?s" using assms by simp
  have same: "rm_effect s ?e ?s []" if "\<not> requests ?e"
    by (rule effect_cong) (use assms that in \<open>simp_all add: request_key_def sum_cpu_def\<close>)
  have pipe: "\<exists>s' out. map_option (\<lambda>s'. (s', [])) (RM_CreatePipe env ?s cmd) = Some (s', out) \<and> rm_effect s ?e s' out"
    "\<exists>s' out. map_option (\<lambda>s'. (s', [])) (RM_AddPipe ?s cmd fd) = Some (s', out) \<and> rm_effect s ?e s' out"
    if "opens_pipe ?e" for fd
  proof -
    have n: "rmNum ?s < RM_MAXCOMPONENTS" "rmPid cmd \<noteq> 2 ^ 31" "\<not> requests ?e"
      using that assms(2) by (auto simp: rm_ok_def event_ok_def)
    from CreatePipe_effect [OF w n(1,2), of env] obtain l k f where
      c: "RM_CreatePipe env ?s cmd = Some (?s\<lparr>rmList := l, rmNum := k, rmFdwrite := f\<rparr>)"
        "rm_wf (?s\<lparr>rmList := l, rmNum := k, rmFdwrite := f\<rparr>)" "k \<le> Suc (rmNum s)" by auto
    have "rm_wf (s\<lparr>rmList := l, rmNum := k\<rparr>)"
      using c(2) rm_list_cong(5) [of "?s\<lparr>rmList := l, rmNum := k, rmFdwrite := f\<rparr>" "s\<lparr>rmList := l, rmNum := k\<rparr>"] by simp
    from list_update_effect [OF this, where e = ?e and out = "[]" and d = cmd and f = f] c n that
    show "\<exists>s' out. map_option (\<lambda>s'. (s', [])) (RM_CreatePipe env ?s cmd) = Some (s', out) \<and> rm_effect s ?e s' out"
      by simp
    from AddPipe_effect [OF w n(1), of cmd fd] obtain l k where
      a: "RM_AddPipe ?s cmd fd = Some (?s\<lparr>rmList := l, rmNum := k\<rparr>)" "rm_wf (?s\<lparr>rmList := l, rmNum := k\<rparr>)" "k \<le> Suc (rmNum s)" by auto
    have "s\<lparr>cmd_data := cmd, rmList := l, rmNum := k, rmFdwrite := rmFdwrite s\<rparr> = ?s\<lparr>rmList := l, rmNum := k\<rparr>" by simp
    with list_update_effect [where s = s and l = l and n = k and e = ?e and out = "[]" and d = cmd and f = "rmFdwrite s"] a n that
    show "\<exists>s' out. map_option (\<lambda>s'. (s', [])) (RM_AddPipe ?s cmd fd) = Some (s', out) \<and> rm_effect s ?e s' out"
      by simp
  qed
  have ctl: "rm_ctl ?s = (stub_mode s, mmuRecoveryInProgress s, watch s, globalrequest s, cmd)" by (simp add: rm_ctl_def)
  show ?thesis
  proof (cases "rmCmd cmd")
    case RM_RequestResource
    then show ?thesis using assms(1)
      by (auto simp: rm_client_def HandleRequestResource_def rm_effect_def request_key_def sum_cpu_def)
  next
    case RM_WaitForResource
    from HandleWaitForResource_spec [OF w, of cmd] obtain l out where
      l: "HandleWaitForResource ?s cmd = Some (?s\<lparr>rmList := l\<rparr>, out)" "rm_wf (?s\<lparr>rmList := l\<rparr>)"
        "\<forall>c. To_policy c \<notin> set out" by (auto split: if_splits)
    have "rm_effect s ?e (?s\<lparr>rmList := l\<rparr>) out"
      by (rule effect_ctl [OF l(2) _ _ ctl]) (use l(3) RM_WaitForResource in \<open>simp_all add: totals_cong sum_cpu_def\<close>)
    with l(1) RM_WaitForResource show ?thesis by (simp add: rm_client_def Let_def)
  next
    case RM_StateSet
    show ?thesis
    proof (cases "rm_lookup ?s (rmComponent cmd, rmPid cmd)")
      case None
      with StateSet_absent [OF w None, of env] RM_StateSet same show ?thesis
        by (simp add: rm_client_def Let_def)
    next
      case (Some c)
      from HandleStateSet_spec [OF w Some, of env] obtain s' out where
        r: "HandleStateSet env ?s cmd = Some (s', out)" "rm_wf s'" "rm_ctl s' = rm_ctl ?s" "rm_keys s' = rm_keys ?s"
          "sum_cpu ?s = totalCpu ?s \<longrightarrow> sum_cpu s' = totalCpu s'" "\<forall>c. To_policy c \<notin> set out" by fastforce
      have "rmNum s' = rmNum s" using r(4) rm_wf_lengths(4) [OF r(2)] rm_wf_lengths(4) [OF assms(1)] by simp
      with effect_ctl [OF r(2) _ r(3) ctl, of ?e out] r(5,6) RM_StateSet
      have "rm_effect s ?e s' out" by (simp add: sum_cpu_def)
      with r(1) RM_StateSet show ?thesis by (simp add: rm_client_def Let_def)
    qed
  next
    case RM_FreeResource
    with free_effect [OF assms(1), of cmd env] show ?thesis by blast
  next
    case RM_FreeAndCloseResource
    with free_effect [OF assms(1), of cmd env] show ?thesis by blast
  next
    case RM_OpenPipe
    with pipe(1) show ?thesis by (simp add: rm_client_def Let_def)
  next
    case RM_ReusePipe
    have "RM_GetPipe ?s (rmParam4 cmd) (rmPid cmd) = Some (rm_pipe ?s (rmParam4 cmd, rmPid cmd))"
      by (rule RM_GetPipe_closed [OF w])
    with RM_ReusePipe pipe(1) pipe(2) [of "rm_pipe ?s (rmParam4 cmd, rmPid cmd)"] show ?thesis
      by (simp add: rm_client_def Let_def)
  qed (use same in \<open>simp_all add: rm_client_def Let_def HandleCancelWaitForResource_def\<close>)
qed

lemma answer_effect:
  assumes "rm_wf s" and "\<not> requests e"
  shows "\<exists>s' out. answer_request s st cst = Some (s', out) \<and> rm_effect s e s' out"
proof -
  let ?g = "(globalrequest s)\<lparr>rmStatus := st\<rparr>"
  from answer_request_spec [OF assms(1), of st cst] obtain l out where
    l: "answer_request s st cst = Some (s\<lparr>globalrequest := ?g, rmList := l\<rparr>, out)" "\<forall>c. To_policy c \<notin> set out"
      "rm_wf (s\<lparr>globalrequest := ?g, rmList := l\<rparr>)"
    by (auto simp: rm_replaced_def)
  with assms(2) show ?thesis
    by (auto simp: rm_effect_def request_key_def sum_cpu_def)
qed

lemma policy_effect:
  assumes "rm_wf s" and "qos_defined (re_qos env)"
  shows "\<exists>s' out. rm_policy env s r = Some (s', out) \<and> rm_effect s (Policy env r) s' out"
proof -
  let ?e = "Policy env r"
  have same: "rm_effect s ?e s []" by (rule effect_cong) (use assms in simp_all)
  show ?thesis
  proof (cases "stub_mode s")
    case True
    with same show ?thesis by (simp add: rm_policy_def)
  next
    case ns: False
    show ?thesis
    proof (cases "prCmd r")
      case PM_PREEMPTED
      let ?d = "(cmd_data s)\<lparr>rmStatus := RM_PREEMPT, rmComponent := prComponent r\<rparr>"
      have w: "rm_wf (s\<lparr>cmd_data := ?d\<rparr>)" using assms by simp
      from RM_SetStatus_spec [OF w, of "prComponent r" "rmPid (cmd_data s)" RM_WaitingForClient] obtain s2 where
        s2: "RM_SetStatus (s\<lparr>cmd_data := ?d\<rparr>) (prComponent r) (rmPid (cmd_data s)) RM_WaitingForClient = Some s2"
          "rm_replaced (rcStatus_update (\<lambda>_. RM_WaitingForClient)) (prComponent r, rmPid (cmd_data s)) (s\<lparr>cmd_data := ?d\<rparr>) s2" by blast
      then obtain l where l: "s2 = s\<lparr>cmd_data := ?d, rmList := l\<rparr>" "rm_wf s2" by (auto simp: rm_replaced_def)
      have "rm_effect s ?e s2 out" for out
        using l ns by (simp add: rm_effect_def request_key_def sum_cpu_def)
      with s2(1) l(2) ns PM_PREEMPTED show ?thesis
        by (simp add: rm_policy_def Let_def RM_GetPipe_closed)
    next
      case PM_DENYPOLICY
      with answer_effect [OF assms(1), of ?e] ns show ?thesis by (simp add: rm_policy_def)
    next
      case PM_GRANTPOLICY
      show ?thesis
      proof (cases "mmuRecoveryInProgress s")
        case True
        with PM_GRANTPOLICY answer_effect [OF assms(1), of ?e] ns show ?thesis by (simp add: rm_policy_def)
      next
        case False
        from RM_GetQos_defined [OF assms] obtain b s1 where q: "RM_GetQos env s = Some (b, s1)" by blast
        note f = RM_GetQos_frame [OF assms(1) q]
        from answer_effect [of s1 ?e RM_GRANT RM_ComponentActive] f obtain s' out where
          a: "answer_request s1 RM_GRANT RM_ComponentActive = Some (s', out)" "rm_effect s1 ?e s' out" by auto
        have e1: "rm_effect s ?e s1 [To_policy (policy_cmd PM_FreeResources (globalrequest s1))]"
          using f ns False by (simp add: rm_effect_def request_key_def)
        have "rm_effect s ?e s' out"
          using a(2) f ns False by (auto simp: rm_effect_def request_key_def)
        with a(1) e1 q ns False PM_GRANTPOLICY show ?thesis
          by (cases b) (simp_all add: rm_policy_def)
      qed
    qed
  qed
qed

lemma watch_effect:
  assumes "rm_wf s" and "watch s = Watch_wait"
  shows "\<exists>s' out. watch_event s index closed = Some (s', out) \<and> rm_effect s (Bridge_event index closed) s' out"
proof (cases "index = 0 \<or> index = 1")
  case False
  moreover have "rm_effect s (Bridge_event index closed) s []" by (rule effect_cong) (use assms in simp_all)
  ultimately show ?thesis by (simp add: watch_event_def)
next
  case True
  let ?s = "s\<lparr>mmuRecoveryInProgress := True\<rparr>"
  from notify_from_spec [of ?s 0 "rmNum s"] assms(1) obtain l d where
    n: "notify_from ?s 0 (rmNum s) = Some (?s\<lparr>cmd_data := d, rmList := l\<rparr>,
      concat (map (\<lambda>c. client_write (rcPipe c) (fatal_msg (cmd_data ?s) c)) (take (rmNum s) (drop 0 (rm_used ?s)))))"
      "rm_wf (?s\<lparr>cmd_data := d, rmList := l\<rparr>)" by auto
  have "rm_effect s (Bridge_event index closed) (?s\<lparr>cmd_data := d, rmList := l, watch := w\<rparr>)
      (concat (map (\<lambda>c. client_write (rcPipe c) (fatal_msg (cmd_data ?s) c)) (take (rmNum s) (drop 0 (rm_used ?s)))))" for w
    using n(2) assms(2) by (auto simp: rm_effect_def request_key_def sum_cpu_def)
  with n(1) True show ?thesis by (simp add: watch_event_def)
qed

lemma rm_step_effect:
  assumes "rm_wf s" and "rm_ok s e"
  shows "\<exists>s' out. rm_step s e = Some (s', out) \<and> rm_effect s e s' out"
proof -
  have same: "rm_effect s e s []" if "\<not> requests e"
    by (rule effect_cong) (use assms that in simp_all)
  show ?thesis
  proof (cases e)
    case (Client env m)
    with client_effect [OF assms(1)] assms(2) same show ?thesis by (cases m) (auto simp: rm_step_def)
  next
    case (Policy env r)
    with policy_effect [OF assms(1)] assms(2) show ?thesis by (simp add: rm_step_def rm_ok_def event_ok_def)
  next
    case (Setup opens ready)
    have "rm_effect s e (watch_setup s opens ready) []" if "watch s = Watch_setup"
      using assms(1) Setup that by (auto simp: rm_effect_def watch_setup_def Let_def request_key_def sum_cpu_def)
    with same Setup show ?thesis by (auto simp: rm_step_def)
  next
    case (Bridge_event index closed)
    with watch_effect [OF assms(1)] same show ?thesis by (cases "watch s = Watch_wait") (auto simp: rm_step_def)
  qed
qed

interpretation rm_machine: guarded_machine rm_step rm_wf rm_ok
proof unfold_locales
  fix s e assume "rm_wf s" "rm_ok s e"
  from rm_step_effect [OF this] obtain s' out where "rm_step s e = Some (s', out)" "rm_effect s e s' out" by blast
  then show "\<exists>s' out. rm_step s e = Some (s', out) \<and> rm_wf s'" unfolding rm_effect_def by blast
qed

subsection \<open>Runs\<close>

lemma exec_step_effect:
  assumes "rm_wf s" and "rm_ok s e" and "rm_step s e = Some (s', out)"
  shows "rm_effect s e s' out"
  using rm_step_effect [OF assms(1,2)] assms(3) by auto

lemma effect_wf: "rm_effect s e s' out \<Longrightarrow> rm_wf s'"
  by (simp add: rm_effect_def)

text \<open>The component of the last request of a history, if there was one.\<close>

definition last_request :: "rm_event list \<Rightarrow> (handle \<times> u32) option" where
  "last_request es = (let rs = filter requests es in if rs = [] then None else Some (event_key (last rs)))"

lemma run_request_key:
  assumes "exec rm_step rm_ok s es s' outs" and "rm_wf s" and "\<not> stub_mode s'"
  shows "request_key s' = (case last_request es of None \<Rightarrow> request_key s | Some k \<Rightarrow> k) \<and> \<not> stub_mode s"
  using assms
proof (induction rule: exec.induct)
  case (exec_nil s)
  then show ?case by (simp add: last_request_def)
next
  case (exec_cons s e s1 out1 es s2 out2)
  note f = exec_step_effect [OF exec_cons.prems(1) exec_cons.hyps(1,2)]
  from exec_cons.IH [OF effect_wf [OF f] exec_cons.prems(2)]
  have "request_key s2 = (case last_request es of None \<Rightarrow> request_key s1 | Some k \<Rightarrow> k)" "\<not> stub_mode s1" by auto
  with f show ?case by (auto simp: rm_effect_def last_request_def Let_def split: if_splits)
qed

lemma run_sum:
  assumes "exec rm_step rm_ok s es s' outs" and "rm_wf s" and "sum_cpu s = totalCpu s"
  shows "sum_cpu s' = totalCpu s'"
  using assms
proof (induction rule: exec.induct)
  case (exec_cons s e s1 out1 es s2 out2)
  note f = exec_step_effect [OF exec_cons.prems(1) exec_cons.hyps(1,2)]
  with exec_cons.IH [OF effect_wf [OF f]] exec_cons.prems(2) show ?case by (simp add: rm_effect_def)
qed

lemma run_stub:
  assumes "exec rm_step rm_ok s es s' outs" and "rm_wf s" and "stub_mode s"
  shows "stub_mode s' \<and> (\<forall>c. To_policy c \<notin> set outs)"
  using assms
proof (induction rule: exec.induct)
  case (exec_cons s e s1 out1 es s2 out2)
  note f = exec_step_effect [OF exec_cons.prems(1) exec_cons.hyps(1,2)]
  with exec_cons.IH [OF effect_wf [OF f]] exec_cons.prems(2) show ?case by (auto simp: rm_effect_def)
qed simp

lemma run_fault:
  assumes "exec rm_step rm_ok s es s' outs" and "rm_wf s" and "mmuRecoveryInProgress s"
    and "watch s = Watch_exit \<or> (\<forall>e \<in> set es. \<not> reopens e)"
  shows "mmuRecoveryInProgress s'"
  using assms
proof (induction rule: exec.induct)
  case (exec_cons s e s1 out1 es s2 out2)
  note f = exec_step_effect [OF exec_cons.prems(1) exec_cons.hyps(1,2)]
  from f exec_cons.prems(2,3) have "mmuRecoveryInProgress s1" "watch s1 = Watch_exit \<or> (\<forall>e \<in> set es. \<not> reopens e)"
    by (auto simp: rm_effect_def)
  with exec_cons.IH [OF effect_wf [OF f]] show ?case by blast
qed simp

lemma main_loop_total:
  assumes "rm_wf s" and "\<forall>e \<in> set es. event_ok e" and "rmNum s + length (filter opens_pipe es) \<le> RM_MAXCOMPONENTS"
  shows "\<exists>s' outs. rm_main_loop s es = Some (s', outs) \<and> rm_wf s'
    \<and> (\<exists>n. exec rm_step rm_ok s (take n es) s' outs)"
  using assms
proof (induction es arbitrary: s)
  case Nil
  have "exec rm_step rm_ok s [] s []" by (rule exec_nil)
  with Nil show ?case by auto
next
  case (Cons e es)
  have ok: "rm_ok s e" using Cons.prems by (auto simp: rm_ok_def)
  from rm_step_effect [OF Cons.prems(1) ok] obtain s1 out where
    s1: "rm_step s e = Some (s1, out)" "rm_effect s e s1 out" by blast
  have "exec rm_step rm_ok s1 [] s1 []" by (rule exec_nil)
  from exec_cons [where step = rm_step, OF ok s1(1) this]
  have one: "exec rm_step rm_ok s [e] s1 out" by simp
  show ?case
  proof (cases "is_exit e")
    case True
    with s1(1) one effect_wf [OF s1(2)] show ?thesis
      by (intro exI [of _ s1] exI [of _ out] conjI exI [of _ 1]) simp_all
  next
    case False
    have n: "rmNum s1 \<le> rmNum s + (if opens_pipe e then 1 else 0)" using s1(2) by (simp add: rm_effect_def)
    have "rmNum s1 + length (filter opens_pipe es) \<le> RM_MAXCOMPONENTS"
      using n Cons.prems(3) by (auto split: if_splits)
    with Cons.IH [OF effect_wf [OF s1(2)]] Cons.prems(2) obtain s' outs n where
      r: "rm_main_loop s1 es = Some (s', outs)" "rm_wf s'" "exec rm_step rm_ok s1 (take n es) s' outs" by auto
    from exec_cons [where step = rm_step, OF ok s1(1) r(3)] r(1,2) s1(1) False show ?thesis
      by (intro exI [of _ s'] exI [of _ "out @ outs"] conjI exI [of _ "Suc n"]) simp_all
  qed
qed

subsection \<open>Properties\<close>

definition demo_qos :: qos_env where
  "demo_qos = \<lparr>q_dll = True, q_open = True, q_procs = [1, DSPTYPE_55], q_attach = (\<lambda>i. i = 1), q_reg_node = True,
     q_reg_lib = True, q_create = True, q_resources = [(False, 0), (True, KAllHeaps)], q_memstat = Some 65536,
     q_largest = True, q_load = Some 600, q_malloc = True, q_found = []\<rparr>"

definition demo_env :: rm_env where
  "demo_env = \<lparr>re_dvfs = True, re_ram = omap3440_env, re_qos = demo_qos, re_open = (\<lambda>name. int (length name))\<rparr>"

definition mk_rm :: "RM_COMMANDTYPE \<Rightarrow> handle \<Rightarrow> u32 \<Rightarrow> u32 \<Rightarrow> u32 \<Rightarrow> rm_command" where
  "mk_rm c h pid p1 p2 = \<lparr>rmComponent = h, rmPid = pid, rmCmd = c, rmParam1 = p1, rmParam2 = p2, rmParam3 = 0, rmParam4 = 0,
     rmStatus = RM_ErrorNone\<rparr>"

definition demo_events :: "rm_event list" where
  "demo_events = [Setup [True] True, Client demo_env (Some (mk_rm RM_OpenPipe 16 7 31 100)), Client demo_env None,
     Client demo_env (Some (mk_rm RM_RequestResource 16 7 31 100)), Policy demo_env (grant_msg 16 7),
     Client demo_env (Some (mk_rm RM_StateSet 16 7 31 3))]"



text \<open>
  a component that is registered and then removed leaves the list as it was, with the other
  components' entries untouched; in a list of 100 components a new one is written past the end.
\<close>

theorem RM_AddPipe_RemoveComponentFromList:
  assumes "rm_wf s" and "(h, pid) \<notin> set (rm_keys s)" and "cmd = d\<lparr>rmComponent := h, rmPid := pid\<rparr>"
  shows "(rmNum s < RM_MAXCOMPONENTS \<longrightarrow>
      (\<exists>s1 s2. RM_AddPipe s cmd fd = Some s1 \<and> RM_RemoveComponentFromList s1 h pid = Some s2 \<and> rm_wf s2
         \<and> rm_keys s2 = rm_keys s \<and> (\<forall>k. k \<noteq> (h, pid) \<longrightarrow> rm_lookup s2 k = rm_lookup s k)))
    \<and> (rmNum s = RM_MAXCOMPONENTS \<longrightarrow> RM_AddPipe s cmd fd = None)"
  using rm_reg.add_del [OF assms(1,2), of d fd] RM_AddPipe_full [OF assms(1), of cmd fd] assms by simp

theorem RM_AddPipe_RemoveComponentFromList_witness:
  "\<exists>s1 s2. RM_AddPipe rm_init (mk_rm RM_OpenPipe 16 7 31 100) 5 = Some s1 \<and> RM_RemoveComponentFromList s1 16 7 = Some s2
     \<and> rm_keys s2 = []"
  using RM_AddPipe_RemoveComponentFromList [of rm_init 16 7 "mk_rm RM_OpenPipe 16 7 31 100" "mk_rm RM_OpenPipe 16 7 31 100" 5]
  by (simp add: mk_rm_def) (auto simp: rm_init_def)



text \<open>
  of two requests that are pending at the same time, the first one is never answered: both
  answers of the policy manager, whatever components they are for, are sent to the second
  component.
\<close>

theorem rm_two_requests_one_answered:
  assumes "rm_wf s" and "\<not> stub_mode s"
    and "rmCmd a = RM_RequestResource" and "rmCmd b = RM_RequestResource"
    and "prCmd r1 = PM_DENYPOLICY" and "prCmd r2 = PM_DENYPOLICY" and "rm_pipe s (rmComponent b, rmPid b) \<ge> 0"
  shows "\<exists>s' msg. rm_main_loop s [Client env (Some a), Client env (Some b), Policy env r1, Policy env r2]
      = Some (s', [To_policy (policy_cmd PM_RequestPolicy a), To_policy (policy_cmd PM_RequestPolicy b),
                   To_client (rm_pipe s (rmComponent b, rmPid b)) msg, To_client (rm_pipe s (rmComponent b, rmPid b)) msg])
    \<and> rmComponent msg = rmComponent b \<and> rmPid msg = rmPid b \<and> rmStatus msg = RM_DENY"
proof -
  let ?g = "(globalrequest s)\<lparr>rmComponent := rmComponent b, rmPid := rmPid b, rmCmd := RM_RequestResource, rmParam1 := rmParam1 b\<rparr>"
  let ?s2 = "s\<lparr>cmd_data := b, globalrequest := ?g\<rparr>"
  let ?msg = "?g\<lparr>rmStatus := RM_DENY\<rparr>"
  let ?k = "(rmComponent b, rmPid b)"
  have w2: "rm_wf ?s2" using assms(1) by simp
  from answer_request_spec [OF w2, of RM_DENY RM_WaitingForClient] obtain l3 where
    a3: "answer_request ?s2 RM_DENY RM_WaitingForClient
      = Some (?s2\<lparr>globalrequest := ?msg, rmList := l3\<rparr>, client_write (rm_pipe s ?k) ?msg)"
      "rm_replaced (rcStatus_update (\<lambda>_. RM_WaitingForClient)) ?k (?s2\<lparr>globalrequest := ?msg\<rparr>) (?s2\<lparr>globalrequest := ?msg, rmList := l3\<rparr>)"
    by auto
  let ?s3 = "?s2\<lparr>globalrequest := ?msg, rmList := l3\<rparr>"
  have w3: "rm_wf ?s3" using a3(2) by (simp add: rm_replaced_def)
  have p3: "rm_pipe ?s3 ?k = rm_pipe s ?k" using pipe_status [OF a3(2)] by simp
  from answer_request_spec [OF w3, of RM_DENY RM_WaitingForClient] p3 obtain s4 where
    a4: "answer_request ?s3 RM_DENY RM_WaitingForClient = Some (s4, client_write (rm_pipe s ?k) ?msg)" by auto
  have "rm_step s (Client env (Some a)) = Some (s\<lparr>cmd_data := a, globalrequest := (globalrequest s)\<lparr>rmComponent := rmComponent a,
      rmPid := rmPid a, rmCmd := RM_RequestResource, rmParam1 := rmParam1 a\<rparr>\<rparr>, [To_policy (policy_cmd PM_RequestPolicy a)])"
    using assms(2,3) by (simp add: rm_step_def rm_client_def HandleRequestResource_def)
  moreover have "rm_step (s\<lparr>cmd_data := a, globalrequest := (globalrequest s)\<lparr>rmComponent := rmComponent a,
      rmPid := rmPid a, rmCmd := RM_RequestResource, rmParam1 := rmParam1 a\<rparr>\<rparr>) (Client env (Some b))
      = Some (?s2, [To_policy (policy_cmd PM_RequestPolicy b)])"
    using assms(2,4) by (simp add: rm_step_def rm_client_def HandleRequestResource_def)
  moreover have "rm_step ?s2 (Policy env r1) = Some (?s3, client_write (rm_pipe s ?k) ?msg)"
    using assms(2,5) a3(1) by (simp add: rm_step_def rm_policy_def)
  moreover have "rm_step ?s3 (Policy env r2) = Some (s4, client_write (rm_pipe s ?k) ?msg)"
    using assms(2,6) a4 by (simp add: rm_step_def rm_policy_def)
  ultimately show ?thesis
    using assms(3,4,7) by (intro exI [of _ s4] exI [of _ ?msg]) (simp add: client_write_def)
qed

definition two_clients :: rm_state where
  "two_clients = rm_init\<lparr>rmNum := 2, rmList := [\<lparr>rcHandle = 16, rcPid = 7, rcState = 2, rcCPU = 50, rcPipe = 4,
     rcStatus = RM_ComponentActive, rcReason = RM_ReasonNone\<rparr>, \<lparr>rcHandle = 32, rcPid = 8, rcState = 3, rcCPU = 60, rcPipe = 5,
     rcStatus = RM_ComponentActive, rcReason = RM_ReasonNone\<rparr>] @ replicate 98 rm_comp0\<rparr>"

lemma two_clients_simps:
  "rm_wf two_clients" "\<not> stub_mode two_clients" "rm_keys two_clients = [(16, 7), (32, 8)]"
  "rm_pipe two_clients (16, 7) = 4" "rm_pipe two_clients (32, 8) = 5" "rmNum two_clients = 2"
  "globalrequest two_clients = rm_command0"
  by (simp_all add: rm_wf_def rm_keys_def rm_used_def rm_key_def two_clients_def rm_init_def rm_pipe_def rm_lookup_def numeral_2_eq_2
      del: rm_wf_lengths)

theorem rm_two_requests_one_answered_witness:
  "\<exists>s' msg. rm_main_loop two_clients [Client demo_env (Some (mk_rm RM_RequestResource 16 7 31 100)),
      Client demo_env (Some (mk_rm RM_RequestResource 32 8 31 100)), Policy demo_env (DenyPolicy 16 7), Policy demo_env (DenyPolicy 32 8)]
      = Some (s', [To_policy (mk_cmd PM_RequestPolicy 16 7 31), To_policy (mk_cmd PM_RequestPolicy 32 8 31),
                   To_client 5 msg, To_client 5 msg])"
  using rm_two_requests_one_answered [of two_clients "mk_rm RM_RequestResource 16 7 31 100" "mk_rm RM_RequestResource 32 8 31 100"
      "DenyPolicy 16 7" "DenyPolicy 32 8" demo_env] two_clients_simps
  by (auto simp: mk_rm_def DenyPolicy_def policy_cmd_def mk_cmd_def)

lemma RM_GetQos_closed:
  assumes "rm_wf s" and "\<not> stub_mode s" and "qos_ready (re_qos env)" and "get_omap_version (re_ram env) \<noteq> OMAP_NOT_SUPPORTED"
    and "(True, KAllHeaps) \<in> set (q_resources (re_qos env))"
    and "memory_check (re_qos env) (rmParam3 (cmd_data s)) = Some memoryAvailable"
    and "dsp_load (re_qos env) = Some (Some load)"
  shows "\<exists>s'. RM_GetQos env s = Some (memoryAvailable
        \<and> rmParam2 (cmd_data s) \<le> word_of_int (get_dsp_max_freq (re_ram env)) - load, s')
    \<and> averageCpuLoad s' = sint load sdiv int (min (Suc (snapshotsCaptured s)) RM_CPUAVGDEPTH)"
proof -
  have i: "InitializeQos (re_qos env) s = (Qos_none, s)"
    using assms(3) by (simp add: InitializeQos_def qos_ready_def)
  have h: "\<exists>r \<in> set (q_resources (re_qos env)). fst r \<and> snd r = KAllHeaps" using assms(5) by force
  have n: "snapshotsCaptured s \<le> RM_CPUAVGDEPTH" using assms(1) by (simp add: rm_wf_def del: rm_wf_lengths)
  from n assms(2,4,6,7) h show ?thesis by (simp add: RM_GetQos_def i Let_def record_load_closed)
qed

text \<open>
  C16: outside stub mode, on a supported CPU with the QoS library ready, a request is granted
  exactly when its memory check holds and its cycles are at most the free cycles of the DSP.
  The parameters are those of the last command of any client that was read, not those of the
  request; and the average that is kept divides the last load by the number of loads.
\<close>

theorem RM_GetQos_decides:
  assumes "rm_wf s" and "\<not> stub_mode s" and "qos_ready (re_qos env)" and "get_omap_version (re_ram env) \<noteq> OMAP_NOT_SUPPORTED"
    and "(True, KAllHeaps) \<in> set (q_resources (re_qos env))"
    and "memory_check (re_qos env) (rmParam3 (cmd_data s)) = Some memoryAvailable"
    and "dsp_load (re_qos env) = Some (Some load)"
  shows "\<exists>s'. RM_GetQos env s = Some (memoryAvailable
        \<and> rmParam2 (cmd_data s) \<le> word_of_int (get_dsp_max_freq (re_ram env)) - load, s')
    \<and> averageCpuLoad s' = sint load sdiv int (min (Suc (snapshotsCaptured s)) RM_CPUAVGDEPTH)"
  by (rule RM_GetQos_closed [OF assms])

theorem RM_GetQos_decides_witness:
  "\<exists>s'. RM_GetQos demo_env two_clients = Some (rmParam2 (cmd_data two_clients) \<le> word_of_int (get_dsp_max_freq omap3440_env) - 600, s')"
proof -
  have "get_omap_version omap3440_env \<noteq> OMAP_NOT_SUPPORTED" by simp
  moreover have "qos_ready demo_qos" by (simp add: qos_ready_def demo_qos_def qos_processor_def)
  moreover have "memory_check demo_qos (rmParam3 (cmd_data two_clients)) = Some True" "dsp_load demo_qos = Some (Some 600)"
    by (simp_all add: memory_check_def demo_qos_def two_clients_def rm_init_def rm_command0_def dsp_load_def)
  moreover have "(True, KAllHeaps) \<in> set (q_resources demo_qos)" by (simp add: demo_qos_def)
  ultimately show ?thesis
    using RM_GetQos_decides [of two_clients demo_env True 600] two_clients_simps by (auto simp: demo_env_def)
qed

text \<open>
  when the load of the DSP is above its capacity, the free cycles are negative and the
  comparison reads them as a large unsigned number: any request for up to \<open>2 ^ 31\<close> cycles
  passes the check.
\<close>

theorem RM_GetQos_overload_grants:
  assumes "rm_wf s" and "\<not> stub_mode s" and "qos_ready (re_qos env)" and "get_omap_version (re_ram env) \<noteq> OMAP_NOT_SUPPORTED"
    and "(True, KAllHeaps) \<in> set (q_resources (re_qos env))" and "memory_check (re_qos env) (rmParam3 (cmd_data s)) = Some True"
    and "dsp_load (re_qos env) = Some (Some load)"
    and "0 \<le> get_dsp_max_freq (re_ram env)" and "get_dsp_max_freq (re_ram env) < uint load" and "uint load < 2 ^ 31"
    and "rmParam2 (cmd_data s) \<le> 2 ^ 31"
  shows "map_option fst (RM_GetQos env s) = Some True"
proof -
  let ?m = "get_dsp_max_freq (re_ram env)"
  have u: "uint (word_of_int ?m :: u32) = ?m"
    using assms(8-10) by (simp add: uint_word_of_int_eq take_bit_int_eq_self)
  have "uint (word_of_int ?m - load) = ?m - uint load + 2 ^ 32"
  proof -
    have "uint (word_of_int ?m - load) = (?m - uint load) mod 2 ^ 32" by (simp add: uint_word_ariths u)
    also have "\<dots> = (?m - uint load + 2 ^ 32) mod 2 ^ 32" by simp
    also have "\<dots> = ?m - uint load + 2 ^ 32" using assms(8-10) by (intro mod_pos_pos_trivial) simp_all
    finally show ?thesis .
  qed
  moreover have "uint (rmParam2 (cmd_data s)) \<le> 2 ^ 31" using assms(11) by (simp add: word_le_def)
  ultimately have "rmParam2 (cmd_data s) \<le> word_of_int ?m - load" using assms(8,10) by (simp add: word_le_def)
  then show ?thesis using RM_GetQos_closed [OF assms(1-7)] by auto
qed

theorem RM_GetQos_overload_grants_witness:
  "map_option fst (RM_GetQos demo_env (two_clients\<lparr>cmd_data := mk_rm RM_RequestResource 16 7 31 4000\<rparr>)) = Some True"
proof -
  have f: "get_dsp_max_freq omap3440_env = 520" by code_simp
  have "get_omap_version omap3440_env \<noteq> OMAP_NOT_SUPPORTED" by simp
  moreover have "qos_ready demo_qos" by (simp add: qos_ready_def demo_qos_def qos_processor_def)
  moreover have "memory_check demo_qos (rmParam3 (mk_rm RM_RequestResource 16 7 31 4000)) = Some True" "dsp_load demo_qos = Some (Some 600)"
    "rmParam2 (mk_rm RM_RequestResource 16 7 31 4000) = 4000"
    by (simp_all add: memory_check_def demo_qos_def mk_rm_def dsp_load_def)
  moreover have "(True, KAllHeaps) \<in> set (q_resources demo_qos)" by (simp add: demo_qos_def)
  ultimately show ?thesis
    using RM_GetQos_overload_grants [of "two_clients\<lparr>cmd_data := mk_rm RM_RequestResource 16 7 31 4000\<rparr>" demo_env 600] two_clients_simps f by (simp add: demo_env_def)
qed

text \<open>
  C17: when the DSP reports a fault, every registered component whose pipe is open is sent
  exactly one fatal error message with its own handle and process, in the order of the list,
  and new requests are blocked.
\<close>

theorem rm_fault_notifies_all:
  assumes "rm_wf s" and "watch s = Watch_wait" and "index = 0 \<or> index = 1"
  shows "\<exists>s'. rm_step s (Bridge_event index closed) = Some (s',
      map (\<lambda>c. To_client (rcPipe c) ((cmd_data s)\<lparr>rmStatus := RM_RESOURCEFATALERROR, rmComponent := rcHandle c, rmPid := rcPid c\<rparr>))
        (filter (\<lambda>c. rcPipe c \<ge> 0) (rm_used s)))
    \<and> mmuRecoveryInProgress s' \<and> rm_keys s' = rm_keys s \<and> (closed \<longrightarrow> watch s' = Watch_setup)"
proof -
  let ?s = "s\<lparr>mmuRecoveryInProgress := True\<rparr>"
  from notify_from_spec [of ?s 0 "rmNum s"] assms(1) obtain l d where
    n: "notify_from ?s 0 (rmNum s) = Some (?s\<lparr>cmd_data := d, rmList := l\<rparr>,
      concat (map (\<lambda>c. client_write (rcPipe c) (fatal_msg (cmd_data s) c)) (rm_used s)))"
      "map rm_core (rm_used (?s\<lparr>cmd_data := d, rmList := l\<rparr>)) = map rm_core (rm_used s)" by auto
  have c: "concat (map (\<lambda>c. client_write (rcPipe c) (fatal_msg m c)) cs)
      = map (\<lambda>c. To_client (rcPipe c) (fatal_msg m c)) (filter (\<lambda>c. rcPipe c \<ge> 0) cs)" for m cs
    by (induction cs) (auto simp: client_write_def)
  have "rm_keys (?s\<lparr>cmd_data := d, rmList := l\<rparr>) = rm_keys s" by (rule core_keys [OF n(2)])
  with n(1) assms(2,3) c show ?thesis
    by (auto simp: rm_step_def watch_event_def fatal_msg_def)
qed

theorem rm_fault_notifies_all_witness:
  "\<exists>s'. rm_step (two_clients\<lparr>watch := Watch_wait\<rparr>) (Bridge_event 0 True) = Some (s',
     [To_client 4 (rm_command0\<lparr>rmStatus := RM_RESOURCEFATALERROR, rmComponent := 16, rmPid := 7\<rparr>),
      To_client 5 (rm_command0\<lparr>rmStatus := RM_RESOURCEFATALERROR, rmComponent := 32, rmPid := 8\<rparr>)])"
proof -
  have u: "rm_used two_clients = take 2 (rmList two_clients)" "cmd_data two_clients = rm_command0"
    by (simp_all add: rm_used_def two_clients_def rm_init_def)
  show ?thesis
    using rm_fault_notifies_all [of "two_clients\<lparr>watch := Watch_wait\<rparr>" 0 True] two_clients_simps u
    by (auto simp: two_clients_def)
qed

text \<open>
  C18: after a fault no request is granted until the bridge has been opened again: whatever
  happens in between, a grant of the policy manager is answered with a fatal error. When the
  bridge could not be closed or set up again, the thread has ended and this holds for ever.
\<close>

theorem rm_no_grant_during_recovery:
  assumes "exec rm_step rm_ok s es s' outs" and "rm_wf s" and "mmuRecoveryInProgress s" and "\<not> stub_mode s'"
    and "watch s = Watch_exit \<or> (\<forall>e \<in> set es. \<not> reopens e)" and "prCmd r = PM_GRANTPOLICY"
  shows "\<exists>s''. rm_step s' (Policy env r) = Some (s'', client_write (rm_pipe s' (request_key s'))
      ((globalrequest s')\<lparr>rmStatus := RM_RESOURCEFATALERROR\<rparr>)) \<and> mmuRecoveryInProgress s''"
proof -
  have w: "rm_wf s'" using rm_machine.exec_inv [OF assms(1,2)] .
  have m: "mmuRecoveryInProgress s'" using run_fault [OF assms(1,2,3,5)] .
  from answer_request_spec [OF w, of RM_RESOURCEFATALERROR RM_WaitingForClient] m assms(4,6) show ?thesis
    by (auto simp: rm_step_def rm_policy_def request_key_def)
qed

theorem rm_no_grant_during_recovery_witness:
  "\<exists>s''. rm_step (two_clients\<lparr>mmuRecoveryInProgress := True, watch := Watch_exit\<rparr>) (Policy demo_env (grant_msg 16 7))
     = Some (s'', []) \<and> mmuRecoveryInProgress s''"
proof -
  let ?s = "two_clients\<lparr>mmuRecoveryInProgress := True, watch := Watch_exit\<rparr>"
  have r: "exec rm_step rm_ok ?s [] ?s []" by (rule exec_nil)
  have "rm_pipe ?s = rm_pipe two_clients" by (rule rm_list_cong) simp_all
  moreover have "rm_lookup two_clients (0, 0) = None"
    using two_clients_simps by (simp add: rm_lookup_None)
  ultimately have "rm_pipe ?s (request_key ?s) = - 1"
    using two_clients_simps(7) by (simp add: request_key_def rm_pipe_def rm_command0_def)
  with rm_no_grant_during_recovery [OF r, of "grant_msg 16 7" demo_env] two_clients_simps show ?thesis
    by (simp add: grant_msg_def client_write_def)
qed

text \<open>
  a component that frees its resource is removed from the list when no other registered
  component (the last one of the list aside) waits for resources. Otherwise the removal uses
  the handle of the last waiting component with the process of the freeing one: the waiting
  component is removed if it belongs to the same process, and the freeing one stays.
\<close>

theorem HandleFreeResource_removes:
  assumes "rm_wf s" and "rmCmd cmd = RM_FreeResource \<or> rmCmd cmd = RM_FreeAndCloseResource"
  shows "\<exists>s' out. rm_step s (Client env (Some cmd)) = Some (s', out)
    \<and> (let ws = filter (\<lambda>c. rcState c = OMX_StateWaitForResources) (butlast (rm_used s))
       in rm_used s' = filter (\<lambda>c. rm_key c \<noteq> (if ws = [] then rmComponent cmd else rcHandle (last ws), rmPid cmd)) (rm_used s))"
proof -
  have "rmComponent (last_acquired cmd ws) = (if ws = [] then rmComponent cmd else rcHandle (last ws))" for ws
    by (simp add: last_acquired_def acquired_msg_def)
  with free_effect [OF assms, of env] show ?thesis
    by (auto simp: rm_step_def waiting_clients_def Let_def)
qed

definition waiting_client :: rm_state where
  "waiting_client = two_clients\<lparr>rmList := (rmList two_clients)[0 := (rmList two_clients ! 0)\<lparr>rcPid := 8, rcState := OMX_StateWaitForResources\<rparr>]\<rparr>"

theorem HandleFreeResource_removes_witness:
  "\<exists>s' out. rm_step waiting_client (Client demo_env (Some (mk_rm RM_FreeResource 32 8 31 100))) = Some (s', out)
    \<and> map rcHandle (rm_used waiting_client) = [16, 32] \<and> map rcHandle (rm_used s') = [32]"
proof -
  have "rm_wf waiting_client"
    by (simp add: waiting_client_def two_clients_def rm_init_def rm_wf_def rm_keys_def rm_used_def rm_key_def del: rm_wf_lengths)
  moreover have "rm_used waiting_client = [\<lparr>rcHandle = 16, rcPid = 8, rcState = 5, rcCPU = 50, rcPipe = 4,
     rcStatus = RM_ComponentActive, rcReason = RM_ReasonNone\<rparr>, \<lparr>rcHandle = 32, rcPid = 8, rcState = 3, rcCPU = 60, rcPipe = 5,
     rcStatus = RM_ComponentActive, rcReason = RM_ReasonNone\<rparr>]"
    by (simp add: waiting_client_def two_clients_def rm_init_def rm_used_def)
  ultimately show ?thesis
    using HandleFreeResource_removes [of waiting_client "mk_rm RM_FreeResource 32 8 31 100" demo_env]
    by (auto simp: mk_rm_def rm_key_def)
qed

text \<open>
  once stub mode is entered, which one failed initialisation of the QoS library is enough
  for, the resource manager never leaves it, never asks the policy manager again and gives a
  request no answer at all: the requests of all clients stay pending, none is granted by
  default.
\<close>

theorem rm_stub_mode_is_silent:
  assumes "exec rm_step rm_ok s es s' outs" and "rm_wf s" and "stub_mode s" and "rmCmd cmd = RM_RequestResource"
  shows "stub_mode s' \<and> (\<forall>c. To_policy c \<notin> set outs)
    \<and> rm_step s' (Client env (Some cmd)) = Some (s'\<lparr>cmd_data := cmd\<rparr>, []) \<and> rm_step s' (Policy env r) = Some (s', [])"
  using run_stub [OF assms(1-3)] assms(4)
  by (simp add: rm_step_def rm_client_def HandleRequestResource_def rm_policy_def)

theorem rm_stub_mode_is_silent_witness:
  "rm_step (two_clients\<lparr>stub_mode := True\<rparr>) (Policy demo_env (grant_msg 16 7)) = Some (two_clients\<lparr>stub_mode := True\<rparr>, [])"
proof -
  let ?s = "two_clients\<lparr>stub_mode := True\<rparr>"
  have r: "exec rm_step rm_ok ?s [] ?s []" by (rule exec_nil)
  from rm_stub_mode_is_silent [OF r, of "mk_rm RM_RequestResource 16 7 31 100" demo_env "grant_msg 16 7"] two_clients_simps(1)
  show ?thesis by (simp add: mk_rm_def)
qed

lemma find_map_key: "(\<And>x. P (f x) = P x) \<Longrightarrow> find P (map f xs) = map_option f (find P xs)"
  by (induction xs) auto

lemma free_keeps_cpu:
  assumes "rm_wf s" and "rmCmd cmd = RM_FreeResource"
  shows "\<exists>s' out. rm_client env s cmd = Some (s', out) \<and> cpu_of k s' = cpu_of k s"
proof -
  have w: "rm_wf (s\<lparr>cmd_data := cmd\<rparr>)" using assms(1) by simp
  from HandleFreeResource_closed [OF w, of cmd] obtain d out where
    h: "HandleFreeResource (s\<lparr>cmd_data := cmd\<rparr>) cmd = Some (s\<lparr>cmd_data := d\<rparr>, out)" by (auto simp: Let_def)
  have "rm_wf (s\<lparr>cmd_data := d\<rparr>)" using assms(1) by simp
  from RM_Remove_spec [OF this, of "rmComponent d" "rmPid d"] h assms(2) show ?thesis
    by (auto simp: rm_client_def cpu_of_def split: rm_kind.split)
qed

text \<open>
  a registered component that starts executing and later stops leaves the CPU totals as
  they were before; but when it is freed while it executes, its load stays in the totals and
  so in the frequency constraint.
\<close>

theorem rm_cpu_accounting:
  assumes "rm_wf s" and "rm_lookup s (h, pid) = Some c" and "rcState c = OMX_StateIdle" and "component_type p = Some k"
    and "start = \<lparr>rmComponent = h, rmPid = pid, rmCmd = RM_StateSet, rmParam1 = p, rmParam2 = OMX_StateExecuting,
          rmParam3 = 0, rmParam4 = 0, rmStatus = RM_ErrorNone\<rparr>"
  shows "\<exists>s1 o1. rm_step s (Client env (Some start)) = Some (s1, o1) \<and> cpu_of k s1 = cpu_of k s + rcCPU c
    \<and> (\<exists>s2 o2. rm_step s1 (Client env' (Some (start\<lparr>rmParam2 := OMX_StateIdle\<rparr>))) = Some (s2, o2) \<and> cpu_of k s2 = cpu_of k s)
    \<and> (\<exists>s2 o2. rm_step s1 (Client env' (Some (start\<lparr>rmCmd := RM_FreeResource\<rparr>))) = Some (s2, o2) \<and> cpu_of k s2 = cpu_of k s + rcCPU c)"
proof -
  let ?s = "s\<lparr>cmd_data := start\<rparr>"
  have w: "rm_wf ?s" using assms(1) by simp
  have st: "rmComponent start = h" "rmPid start = pid" "rmParam1 start = p" "rmParam2 start = OMX_StateExecuting" "rmCmd start = RM_StateSet"
    using assms(5) by simp_all
  have cu [simp]: "cpu_of k (t\<lparr>cmd_data := d\<rparr>) = cpu_of k t" for t d by (simp add: cpu_of_def split: rm_kind.split)
  have lk: "rm_lookup ?s (rmComponent start, rmPid start) = Some c" using assms(2) st by simp
  from HandleStateSet_spec [OF w lk, of env] obtain s1 o1 where
    s1: "HandleStateSet env ?s start = Some (s1, o1)" "rm_wf s1" "rm_keys s1 = rm_keys ?s"
      "map rm_core (rm_used s1) = map (\<lambda>x. if rm_key x = rm_key c then (rm_core x)\<lparr>rcState := rmParam2 start\<rparr> else rm_core x) (rm_used ?s)"
      "\<forall>k'. cpu_of k' s1 = cpu_of k' ?s + (if component_type (rmParam1 start) = Some k' then cpu_change (rcState c) (rmParam2 start) (rcCPU c) else 0)"
    by blast
  have cpu1: "cpu_of k s1 = cpu_of k s + rcCPU c"
    using s1(5) st assms(3,4) by (simp add: cpu_change_def starts_running_def)
  have key: "rm_key c = (h, pid)" using rm_lookup_Some [OF assms(2)] by simp
  have "map_option rm_core (rm_lookup s1 (h, pid))
      = map_option (\<lambda>x. if rm_key x = rm_key c then (rm_core x)\<lparr>rcState := rmParam2 start\<rparr> else rm_core x) (rm_lookup s (h, pid))"
    using arg_cong [OF s1(4), of "find (\<lambda>x. rm_key x = (h, pid))"] unfolding rm_lookup_def
    by (subst (asm) (1 2) find_map_key) (auto simp: rm_core_def rm_key_def)
  with assms(2) st obtain c1 where c1: "rm_lookup s1 (h, pid) = Some c1" "rm_core c1 = (rm_core c)\<lparr>rcState := OMX_StateExecuting\<rparr>"
    by (auto simp: map_option_eq_Some)
  have c1': "rcState c1 = OMX_StateExecuting" "rcCPU c1 = rcCPU c"
    using arg_cong [OF c1(2), of rcState] arg_cong [OF c1(2), of rcCPU] by (simp_all add: rm_core_def)
  let ?stop = "start\<lparr>rmParam2 := OMX_StateIdle\<rparr>" and ?free = "start\<lparr>rmCmd := RM_FreeResource\<rparr>"
  have w2: "rm_wf (s1\<lparr>cmd_data := ?stop\<rparr>)" using s1(2) by simp
  have lk2: "rm_lookup (s1\<lparr>cmd_data := ?stop\<rparr>) (rmComponent ?stop, rmPid ?stop) = Some c1" using c1(1) st by simp
  from HandleStateSet_spec [OF w2 lk2, of env'] obtain s2 o2 where
    s2: "HandleStateSet env' (s1\<lparr>cmd_data := ?stop\<rparr>) ?stop = Some (s2, o2)"
      "\<forall>k'. cpu_of k' s2 = cpu_of k' (s1\<lparr>cmd_data := ?stop\<rparr>)
         + (if component_type (rmParam1 ?stop) = Some k' then cpu_change (rcState c1) (rmParam2 ?stop) (rcCPU c1) else 0)" by blast
  have "cpu_of k s2 = cpu_of k s"
    using s2(2) cpu1 c1' st assms(4) by (simp add: cpu_change_def starts_running_def stops_running_def)
  moreover have "rm_step s1 (Client env' (Some ?stop)) = Some (s2, o2)"
    using s2(1) st by (simp add: rm_step_def rm_client_def)
  moreover have "rm_step s (Client env (Some start)) = Some (s1, o1)"
    using s1(1) st by (simp add: rm_step_def rm_client_def)
  moreover have "\<exists>s2 o2. rm_step s1 (Client env' (Some ?free)) = Some (s2, o2) \<and> cpu_of k s2 = cpu_of k s1"
    using free_keeps_cpu [OF s1(2), of ?free env' k] by (simp add: rm_step_def)
  ultimately show ?thesis using cpu1 by auto
qed

theorem rm_cpu_accounting_witness:
  "\<exists>s1 o1. rm_step two_clients (Client demo_env (Some (mk_rm RM_StateSet 16 7 31 3))) = Some (s1, o1)
    \<and> cpu_of RM_VIDEO s1 = cpu_of RM_VIDEO two_clients + 50"
proof -
  have "rm_lookup two_clients (16, 7) = Some \<lparr>rcHandle = 16, rcPid = 7, rcState = 2, rcCPU = 50, rcPipe = 4,
     rcStatus = RM_ComponentActive, rcReason = RM_ReasonNone\<rparr>"
    by (simp add: rm_lookup_def rm_used_def two_clients_def rm_init_def rm_key_def)
  moreover have "component_type 31 = Some RM_VIDEO" by (simp add: component_type_def)
  ultimately show ?thesis
    using rm_cpu_accounting [of two_clients 16 7 _ 31 RM_VIDEO "mk_rm RM_StateSet 16 7 31 3" demo_env demo_env] two_clients_simps(1)
    by (auto simp: mk_rm_def)
qed

text \<open>Asking for an existing pipe registers at most the component of the message.\<close>

lemma AddPipe_keys:
  assumes "rm_wf s" and "rmNum s < RM_MAXCOMPONENTS" and "RM_AddPipe s cmd fd = Some s'"
  shows "rm_wf s' \<and> set (rm_keys s') \<subseteq> insert (rmComponent cmd, rmPid cmd) (set (rm_keys s)) \<and> rm_ctl s' = rm_ctl s"
proof (cases "(rmComponent cmd, rmPid cmd) \<in> set (rm_keys s)")
  case True
  with RM_AddPipe_known [OF assms(1) True, of fd] assms(1,3) show ?thesis by auto
next
  case False
  from RM_AddPipe_new [OF assms(1) False assms(2), of fd] assms(3) obtain l c where
    n: "s' = s\<lparr>rmList := l, rmNum := Suc (rmNum s)\<rparr>" "rm_used s' = rm_used s @ [c]" "rm_entry cmd fd c" "rm_wf s'" by auto
  then show ?thesis by (auto simp: rm_keys_def rm_entry_def) (simp add: rm_ctl_def)
qed

lemma ReusePipe_keys:
  assumes "rm_wf s" and "rmNum s < RM_MAXCOMPONENTS" and "rmCmd cmd = RM_ReusePipe" and "rmPid cmd \<noteq> 2 ^ 31"
  shows "\<exists>s'. rm_step s (Client env (Some cmd)) = Some (s', []) \<and> rm_wf s'
    \<and> set (rm_keys s') \<subseteq> insert (rmComponent cmd, rmPid cmd) (set (rm_keys s)) \<and> stub_mode s' = stub_mode s"
proof -
  let ?s = "s\<lparr>cmd_data := cmd\<rparr>"
  have ok: "rm_ok s (Client env (Some cmd))" using assms by (simp add: rm_ok_def event_ok_def)
  obtain s' out where step: "rm_step s (Client env (Some cmd)) = Some (s', out)" "rm_wf s'"
    using rm_machine.step_inv [OF assms(1) ok] by blast
  have w: "rm_wf ?s" using assms by simp
  obtain str where str: "RM_itoa (sint (rmPid cmd)) = Some str" using RM_itoa_pid [OF assms(4)] by blast
  let ?p = "rm_pipe ?s (rmParam4 cmd, rmPid cmd)" and ?fd = "re_open env (pipe_name str)"
  let ?t = "?s\<lparr>rmFdwrite := ?fd\<rparr>"
  have "RM_CreatePipe env ?s cmd = (if ?fd < 0 then Some ?t else RM_AddPipe ?t cmd ?fd)"
    using str by (simp add: RM_CreatePipe_def Let_def)
  with RM_GetPipe_closed [OF w, of "rmParam4 cmd" "rmPid cmd"] assms(3)
  have r: "rm_step s (Client env (Some cmd)) = map_option (\<lambda>s'. (s', []))
      (if ?p \<noteq> - 1 then RM_AddPipe ?s cmd ?p else if ?fd < 0 then Some ?t else RM_AddPipe ?t cmd ?fd)"
    by (simp add: rm_step_def rm_client_def Let_def)
  have wt: "rm_wf ?t" using w by simp
  have aux: "m = Some s' \<and> out = []" if "Some (s', out) = map_option (\<lambda>s'. (s', [])) m" for m
    using that by (cases m) auto
  consider (add) "?p \<noteq> - 1" | (failed) "?p = - 1" "?fd < 0" | (create) "?p = - 1" "\<not> ?fd < 0" by linarith
  then show ?thesis
  proof cases
    case add
    with r step(1) have "RM_AddPipe ?s cmd ?p = Some s'" "out = []" using aux [of "RM_AddPipe ?s cmd ?p"] by simp_all
    with AddPipe_keys [OF w _ this(1)] assms(2) step show ?thesis by (simp add: rm_ctl_def)
  next
    case create
    with r step(1) have "RM_AddPipe ?t cmd ?fd = Some s'" "out = []" using aux [of "RM_AddPipe ?t cmd ?fd"] by simp_all
    with AddPipe_keys [OF wt _ this(1)] assms(2) step show ?thesis by (simp add: rm_ctl_def)
  next
    case failed
    with r step show ?thesis by auto
  qed
qed

end
