(* ===== verification/RM_Proxy.thy ===== *)
theory RM_Proxy
  imports Resource_Manager
begin

section \<open>The resource manager proxy\<close>

text \<open>
  Model of \<open>resource_manager_proxy/src/ResourceManagerProxy.c\<close>, the library that every OMX
  component links: instance counting and the life cycle of the proxy thread, the blocking call
  \<open>RMProxy_NewSendCommand\<close>, the thread that forwards commands to the resource manager and
  passes its answers back, the boost counter. The model is the build without
  \<open>__ENABLE_RMPM_STUB__\<close>; the flag \<open>ve\<close> is \<open>__VIDEO_EXHAUSTION__\<close>.

  The globals and the locals of the thread are the fields of \<open>px_state\<close>. The pointers
  \<open>RM_Error\<close> and \<open>sem\<close> are options: \<^const>\<open>None\<close> is \<open>NULL\<close>, an error value that was
  allocated and not yet written is \<open>Some None\<close>. A step of the caller up to its \<open>sem_wait\<close>, a
  command or a response handled by the thread, and the return of the caller are the steps.
  The commands of the proxy have the numbers of those of the resource manager, whose type is
  used for both.
\<close>

subsection \<open>Data\<close>

text \<open>The values of \<open>OMX_ERRORTYPE\<close> and of \<open>OMX_LINUX_CALLBACK_EVENTTYPE\<close> that the proxy stores.\<close>

abbreviation (input) "PX_ErrorNone \<equiv> (0 :: u32)"
abbreviation (input) "PX_ResourcesAcquired \<equiv> (0 :: u32)"
abbreviation (input) "PX_FatalError \<equiv> (1 :: u32)"
abbreviation (input) "PX_ErrorInsufficientResources \<equiv> (0x80001000 :: u32)"
abbreviation (input) "PX_ErrorBadParameter \<equiv> (0x80001005 :: u32)"
abbreviation (input) "PX_ResourcesPreempted \<equiv> (0x80001013 :: u32)"

abbreviation (input) "RMPROXY_MAXCOMPONENTS \<equiv> (100 :: nat)"

datatype OMX_LINUX_COMPONENTTYPE = OMX_COMPONENTTYPE_AUDIO | OMX_COMPONENTTYPE_VIDEO | OMX_COMPONENTTYPE_VPP
  | OMX_COMPONENTTYPE_IMAGE | OMX_COMPONENTTYPE_CAMERA | OMX_COMPONENTTYPE_DISPLAY1 | OMX_COMPONENTTYPE_DISPLAY2
  | OMX_COMPONENTTYPE_OTHER

record px_command =
  pxComponent :: handle
  pxPid :: u32
  pxCmd :: RM_COMMANDTYPE
  pxParam1 :: u32
  pxParam2 :: u32
  pxParam3 :: u32
  pxParam4 :: u32

record px_comp =
  componentHandle :: handle
  callback :: u32

record px_counts =
  nInstances :: int
  nVideoInstances :: int
  nVPPInstances :: int
  nImageInstances :: int
  nCameraInstances :: int
  nDisplay1Instances :: int
  nDisplay2Instances :: int
  threadFlag :: bool

record px_state =
  responsePending :: bool
  RM_Error :: "u32 option option"
  sem :: "nat option"
  pxNum :: nat
  pxList :: "px_comp list"
  tothread :: "px_command list"
  fdwrite :: int
  readPipeOpened :: bool
  numClients :: nat
  threadhandle :: handle
  fatalErrorHandled :: bool
  rm_data :: rm_command
  core_cmd :: px_command
  closed :: bool

definition px_command0 :: px_command where
  "px_command0 = \<lparr>pxComponent = NULL, pxPid = 0, pxCmd = RM_Init, pxParam1 = 0, pxParam2 = 0, pxParam3 = 0, pxParam4 = 0\<rparr>"

definition px_comp0 :: px_comp where
  "px_comp0 = \<lparr>componentHandle = NULL, callback = 0\<rparr>"

text \<open>The state when the thread starts for the first time.\<close>

definition px_init :: px_state where
  "px_init = \<lparr>responsePending = False, RM_Error = None, sem = None, pxNum = 0,
     pxList = replicate RMPROXY_MAXCOMPONENTS px_comp0, tothread = [], fdwrite = 0, readPipeOpened = False,
     numClients = 0, threadhandle = NULL, fatalErrorHandled = False, rm_data = rm_command0,
     core_cmd = px_command0, closed = False\<rparr>"

text \<open>
  What a step sees of its environment: the process, the contents of uninitialised locals, the
  result of opening the pipe of the resource manager, of \<open>malloc\<close>, and what
  \<open>RMProxy_CheckForStubMode\<close> reads: the activity monitor, the environment variable and whether
  the file it names can be opened.
\<close>

record px_env =
  pe_pid :: u32
  pe_junk :: u32
  pe_open :: int
  pe_malloc :: bool
  pe_ram :: ram_env
  pe_qosdyn :: bool
  pe_dll :: bool

text \<open>
  What happens outside: writes to the resource manager; calls of a client's callback with the
  component and the error of the command data it is given; the return of the caller.
\<close>

datatype px_out = To_rm int rm_command | Callback u32 handle "u32 option option" | Returned u32

definition RMProxy_CheckForStubMode :: "px_env \<Rightarrow> bool" where
  "RMProxy_CheckForStubMode env =
     (if get_omap_version (pe_ram env) = OMAP_NOT_SUPPORTED then True
      else if \<not> pe_qosdyn env then True
      else \<not> pe_dll env)"

subsection \<open>Instances and the thread\<close>

text \<open>Results of \<open>pipe\<close>, \<open>calloc\<close> and \<open>pthread_create\<close>.\<close>

record thread_env =
  te_pipe :: bool
  te_calloc :: bool
  te_create :: bool

definition create_thread :: "thread_env \<Rightarrow> px_counts \<Rightarrow> u32 \<times> px_counts" where
  "create_thread te c =
     (if threadFlag c then (PX_ErrorNone, c)
      else if \<not> te_pipe te then (PX_ErrorInsufficientResources, c)
      else if \<not> te_calloc te then (PX_ErrorInsufficientResources, c)
      else if \<not> te_create te then (PX_ErrorInsufficientResources, c)
      else (PX_ErrorNone, c\<lparr>threadFlag := True\<rparr>))"

definition RMProxy_NewInitalize :: "thread_env \<Rightarrow> px_counts \<Rightarrow> u32 \<times> px_counts" where
  "RMProxy_NewInitalize te c =
     (if nInstances c > 8 then (PX_ErrorInsufficientResources, c\<lparr>nInstances := nInstances c - 1\<rparr>)
      else let (e, c1) = create_thread te c
           in if e \<noteq> PX_ErrorNone then (e, c1) else (PX_ErrorNone, c1\<lparr>nInstances := nInstances c1 + 1\<rparr>))"

text \<open>The \<open>switch\<close> of \<open>RMProxy_NewInitalizeEx\<close>: the counter is increased, and decreased again above the limit.\<close>

definition count_instance :: "bool \<Rightarrow> OMX_LINUX_COMPONENTTYPE \<Rightarrow> px_counts \<Rightarrow> u32 \<times> px_counts" where
  "count_instance ve t c =
     (case t of
        OMX_COMPONENTTYPE_VIDEO \<Rightarrow>
          (let c1 = c\<lparr>nVideoInstances := nVideoInstances c + 1\<rparr>
           in if ve \<and> nVideoInstances c1 > 2 then (PX_ErrorInsufficientResources, c1\<lparr>nVideoInstances := nVideoInstances c1 - 1\<rparr>)
              else (PX_ErrorNone, c1))
      | OMX_COMPONENTTYPE_VPP \<Rightarrow>
          (let c1 = c\<lparr>nVPPInstances := nVPPInstances c + 1\<rparr>
           in if ve \<and> nVPPInstances c1 > 2 then (PX_ErrorInsufficientResources, c1\<lparr>nVPPInstances := nVPPInstances c1 - 1\<rparr>)
              else (PX_ErrorNone, c1))
      | OMX_COMPONENTTYPE_IMAGE \<Rightarrow>
          (let c1 = c\<lparr>nImageInstances := nImageInstances c + 1\<rparr>
           in if ve \<and> nImageInstances c1 > 2 then (PX_ErrorInsufficientResources, c1\<lparr>nImageInstances := nImageInstances c1 - 1\<rparr>)
              else (PX_ErrorNone, c1))
      | OMX_COMPONENTTYPE_CAMERA \<Rightarrow>
          (let c1 = c\<lparr>nCameraInstances := nCameraInstances c + 1\<rparr>
           in if nCameraInstances c1 > 1 then (PX_ErrorInsufficientResources, c1\<lparr>nCameraInstances := nCameraInstances c1 - 1\<rparr>)
              else (PX_ErrorNone, c1))
      | OMX_COMPONENTTYPE_DISPLAY1 \<Rightarrow>
          (let c1 = c\<lparr>nDisplay1Instances := nDisplay1Instances c + 1\<rparr>
           in if nDisplay1Instances c1 > 1 then (PX_ErrorInsufficientResources, c1\<lparr>nDisplay1Instances := nDisplay1Instances c1 - 1\<rparr>)
              else (PX_ErrorNone, c1))
      | OMX_COMPONENTTYPE_DISPLAY2 \<Rightarrow>
          (let c1 = c\<lparr>nDisplay2Instances := nDisplay2Instances c + 1\<rparr>
           in if nDisplay2Instances c1 > 1 then (PX_ErrorInsufficientResources, c1\<lparr>nDisplay2Instances := nDisplay2Instances c1 - 1\<rparr>)
              else (PX_ErrorNone, c1))
      | OMX_COMPONENTTYPE_AUDIO \<Rightarrow> (PX_ErrorNone, c)
      | OMX_COMPONENTTYPE_OTHER \<Rightarrow> (PX_ErrorBadParameter, c))"

definition RMProxy_NewInitalizeEx :: "bool \<Rightarrow> thread_env \<Rightarrow> OMX_LINUX_COMPONENTTYPE \<Rightarrow> px_counts \<Rightarrow> u32 \<times> px_counts" where
  "RMProxy_NewInitalizeEx ve te t c =
     (let (e, c1) = count_instance ve t c
      in if e \<noteq> PX_ErrorNone then (e, c1) else create_thread te c1)"

definition no_instances :: "px_counts \<Rightarrow> bool" where
  "no_instances c \<longleftrightarrow> nVideoInstances c = 0 \<and> nVPPInstances c = 0 \<and> nImageInstances c = 0 \<and> nCameraInstances c = 0
     \<and> nDisplay1Instances c = 0 \<and> nDisplay2Instances c = 0 \<and> nInstances c = 0"

text \<open>The last part of both functions: the command \<open>RMProxy_Exit\<close> is written and the thread joined.\<close>

definition stop_thread :: "px_counts \<Rightarrow> px_counts" where
  "stop_thread c = (if no_instances c then c\<lparr>threadFlag := False\<rparr> else c)"

definition RMProxy_Deinitalize :: "px_counts \<Rightarrow> u32 \<times> px_counts" where
  "RMProxy_Deinitalize c = (PX_ErrorNone, stop_thread (c\<lparr>nInstances := nInstances c - 1\<rparr>))"

text \<open>Every path returns \<open>OMX_ErrorNone\<close>.\<close>

definition RMProxy_DeinitalizeEx :: "OMX_LINUX_COMPONENTTYPE \<Rightarrow> px_counts \<Rightarrow> u32 \<times> px_counts" where
  "RMProxy_DeinitalizeEx t c =
     (case t of
        OMX_COMPONENTTYPE_AUDIO \<Rightarrow> (PX_ErrorNone, stop_thread c)
      | OMX_COMPONENTTYPE_VIDEO \<Rightarrow> (PX_ErrorNone, stop_thread (c\<lparr>nVideoInstances := nVideoInstances c - 1\<rparr>))
      | OMX_COMPONENTTYPE_VPP \<Rightarrow> (PX_ErrorNone, stop_thread (c\<lparr>nVPPInstances := nVPPInstances c - 1\<rparr>))
      | OMX_COMPONENTTYPE_IMAGE \<Rightarrow> (PX_ErrorNone, stop_thread (c\<lparr>nImageInstances := nImageInstances c - 1\<rparr>))
      | OMX_COMPONENTTYPE_CAMERA \<Rightarrow> (PX_ErrorNone, stop_thread (c\<lparr>nCameraInstances := nCameraInstances c - 1\<rparr>))
      | OMX_COMPONENTTYPE_DISPLAY1 \<Rightarrow> (PX_ErrorNone, stop_thread (c\<lparr>nDisplay1Instances := nDisplay1Instances c - 1\<rparr>))
      | OMX_COMPONENTTYPE_DISPLAY2 \<Rightarrow> (PX_ErrorNone, stop_thread (c\<lparr>nDisplay2Instances := nDisplay2Instances c - 1\<rparr>))
      | OMX_COMPONENTTYPE_OTHER \<Rightarrow> (PX_ErrorNone, c))"

text \<open>The boost counter; the mutex operations are taken to succeed.\<close>

definition RMProxy_RequestBoost :: "bool \<Rightarrow> ram_env \<Rightarrow> int \<times> ram_state \<Rightarrow> BOOST_LEVEL \<Rightarrow> (int \<times> ram_state) \<times> string list" where
  "RMProxy_RequestBoost dvfs env s level =
     (let n = fst s + 1
      in if n = 1 then let (r, cmds) = rm_request_boost dvfs env (snd s) level in ((n, r), cmds)
         else ((n, snd s), []))"

definition RMProxy_ReleaseBoost :: "bool \<Rightarrow> ram_env \<Rightarrow> int \<times> ram_state \<Rightarrow> (int \<times> ram_state) \<times> string list" where
  "RMProxy_ReleaseBoost dvfs env s =
     (let n = fst s - 1
      in if n = 0 then let (r, cmds) = rm_release_boost dvfs env (snd s) in ((n, r), cmds)
         else ((n, snd s), []))"

subsection \<open>Messages to the resource manager\<close>

text \<open>Fields that the code does not set keep what was in the local variable.\<close>

definition px_write :: "int \<Rightarrow> rm_command \<Rightarrow> px_out list" where
  "px_write fd msg = (if fd < 0 then [] else [To_rm fd msg])"

definition RM_RequestResource_msg :: "px_env \<Rightarrow> px_command \<Rightarrow> rm_command" where
  "RM_RequestResource_msg env c = \<lparr>rmComponent = pxComponent c, rmPid = pxPid c, rmCmd = RM_RequestResource,
     rmParam1 = pxParam1 c, rmParam2 = pxParam2 c, rmParam3 = pxParam3 c, rmParam4 = pe_junk env, rmStatus = RM_ErrorNone\<rparr>"

definition RM_WaitForResource_msg :: "px_env \<Rightarrow> px_command \<Rightarrow> rm_command" where
  "RM_WaitForResource_msg env c = \<lparr>rmComponent = pxComponent c, rmPid = pe_pid env, rmCmd = RM_WaitForResource,
     rmParam1 = pxParam1 c, rmParam2 = pe_junk env, rmParam3 = pe_junk env, rmParam4 = pe_junk env, rmStatus = RM_ErrorNone\<rparr>"

definition RM_SetState_msg :: "px_env \<Rightarrow> px_command \<Rightarrow> rm_command" where
  "RM_SetState_msg env c = \<lparr>rmComponent = pxComponent c, rmPid = pe_pid env, rmCmd = RM_StateSet,
     rmParam1 = pxParam1 c, rmParam2 = pxParam2 c, rmParam3 = pe_junk env, rmParam4 = pe_junk env, rmStatus = RM_ErrorNone\<rparr>"

definition RM_FreeResource_msg :: "px_env \<Rightarrow> nat \<Rightarrow> px_command \<Rightarrow> rm_command" where
  "RM_FreeResource_msg env n c = \<lparr>rmComponent = pxComponent c, rmPid = pe_pid env,
     rmCmd = (if n > 1 then RM_FreeResource else RM_FreeAndCloseResource),
     rmParam1 = pxParam1 c, rmParam2 = pxParam2 c, rmParam3 = pe_junk env, rmParam4 = pe_junk env, rmStatus = RM_ErrorNone\<rparr>"

subsection \<open>The list of components\<close>

definition is_px :: "handle \<Rightarrow> px_comp \<Rightarrow> bool" where
  "is_px h c \<longleftrightarrow> componentHandle c = h"

definition px_add :: "px_state \<Rightarrow> handle \<Rightarrow> u32 \<Rightarrow> px_state option" where
  "px_add s h cb =
     do { l \<leftarrow> wr (pxList s) (pxNum s) \<lparr>componentHandle = h, callback = cb\<rparr>;
          Some (s\<lparr>pxList := l, pxNum := Suc (pxNum s)\<rparr>) }"

definition px_remove :: "px_state \<Rightarrow> handle \<Rightarrow> px_state option" where
  "px_remove s h =
     do { m \<leftarrow> scan (is_px h) (pxList s) (pxNum s);
          case m of None \<Rightarrow> Some s
          | Some i \<Rightarrow>
              do { l \<leftarrow> shift_down (pxList s) i (pxNum s - 1 - i);
                   l' \<leftarrow> wr l (pxNum s - 1) px_comp0;
                   Some (s\<lparr>pxList := l', pxNum := pxNum s - 1\<rparr>) } }"

text \<open>The callback gets the command data of the thread with the error; a null callback faults.\<close>

definition RMProxy_CallbackClient :: "px_state \<Rightarrow> handle \<Rightarrow> px_out list option" where
  "RMProxy_CallbackClient s h =
     do { m \<leftarrow> scan (is_px h) (pxList s) (pxNum s);
          case m of None \<Rightarrow> Some []
          | Some i \<Rightarrow> do { c \<leftarrow> rd (pxList s) i;
                          if callback c = 0 then None
                          else Some [Callback (callback c) (pxComponent (core_cmd s)) (RM_Error s)] } }"

subsection \<open>The thread: commands\<close>

type_synonym px_result = "(px_state \<times> px_out list) option"

definition thread_free :: "px_env \<Rightarrow> px_state \<Rightarrow> px_command \<Rightarrow> px_result" where
  "thread_free env s c =
     do { let out = px_write (fdwrite s) (RM_FreeResource_msg env (numClients s) c);
          s1 \<leftarrow> px_remove s (pxComponent c);
          Some (s1\<lparr>numClients := numClients s1 - 1\<rparr>, out) }"

text \<open>
  The first client of the process opens the pipes; the reading end is retried until it opens.
  Later ones ask for the pipe of the component \<open>threadhandle\<close>; \<open>nPid\<close> and the status of that
  message are left from what was last read or written.
\<close>

definition thread_request :: "px_env \<Rightarrow> px_state \<Rightarrow> px_command \<Rightarrow> px_result" where
  "thread_request env s0 c =
     do { s \<leftarrow> px_add s0 (pxComponent c) (pxParam4 c);
          let (s1, out) =
            (if numClients s = 0 then
               let d = (rm_data s)\<lparr>rmComponent := pxComponent c, rmPid := pe_pid env, rmCmd := RM_OpenPipe,
                     rmStatus := RM_ErrorNone, rmParam1 := pxParam1 c, rmParam2 := pxParam2 c, rmParam3 := pxParam4 c\<rparr>
               in (s\<lparr>fdwrite := pe_open env, threadhandle := pxComponent c, rm_data := d, readPipeOpened := True\<rparr>,
                   px_write (pe_open env) d)
             else
               let d = (rm_data s)\<lparr>rmCmd := RM_ReusePipe, rmComponent := pxComponent c, rmParam1 := pxParam1 c,
                     rmParam2 := pxParam2 c, rmParam4 := threadhandle s\<rparr>
               in (s\<lparr>rm_data := d\<rparr>, px_write (fdwrite s) d));
          Some (s1\<lparr>numClients := Suc (numClients s1)\<rparr>, out @ px_write (fdwrite s1) (RM_RequestResource_msg env c)) }"

definition thread_command :: "px_env \<Rightarrow> px_state \<Rightarrow> px_command \<Rightarrow> px_result" where
  "thread_command env s0 c =
     (let s = s0\<lparr>core_cmd := c\<rparr>
      in case pxCmd c of
           RM_StateSet \<Rightarrow> Some (s, px_write (fdwrite s) (RM_SetState_msg env c))
         | RM_FreeResource \<Rightarrow> thread_free env s c
         | RM_CancelWaitForResource \<Rightarrow> Some (s, [])
         | RM_RequestResource \<Rightarrow> thread_request env s c
         | RM_WaitForResource \<Rightarrow> Some (s, px_write (fdwrite s) (RM_WaitForResource_msg env c))
         | RM_Exit \<Rightarrow> Some (s\<lparr>closed := True, readPipeOpened := False\<rparr>, [])
         | _ \<Rightarrow> Some (s, []))"

subsection \<open>The thread: responses\<close>

definition set_error :: "px_state \<Rightarrow> u32 \<Rightarrow> px_state" where
  "set_error s v = (case RM_Error s of None \<Rightarrow> s | Some _ \<Rightarrow> s\<lparr>RM_Error := Some (Some v)\<rparr>)"

definition post :: "px_state \<Rightarrow> px_state" where
  "post s = (case sem s of None \<Rightarrow> s | Some n \<Rightarrow> s\<lparr>sem := Some (Suc n)\<rparr>)"

definition alloc_error :: "px_env \<Rightarrow> px_state \<Rightarrow> px_state" where
  "alloc_error env s = (if RM_Error s = None \<and> pe_malloc env then s\<lparr>RM_Error := Some None\<rparr> else s)"

text \<open>The callback is called, then \<open>RM_Error\<close> is freed.\<close>

definition call_back :: "px_state \<Rightarrow> px_result" where
  "call_back s =
     do { out \<leftarrow> RMProxy_CallbackClient s (rmComponent (rm_data s)); Some (s\<lparr>RM_Error := None\<rparr>, out) }"

definition set_core :: "px_state \<Rightarrow> px_state" where
  "set_core s = s\<lparr>core_cmd := (core_cmd s)\<lparr>pxComponent := rmComponent (rm_data s)\<rparr>\<rparr>"

definition thread_response :: "px_env \<Rightarrow> px_state \<Rightarrow> rm_command \<Rightarrow> px_result" where
  "thread_response env s0 msg =
     (let s = s0\<lparr>rm_data := msg\<rparr>
      in if rmStatus msg = RM_DENY then Some (post (set_error s PX_ErrorInsufficientResources), [])
         else if rmStatus msg = RM_PREEMPT then
           call_back (set_core (set_error (alloc_error env s) PX_ResourcesPreempted))
         else if rmStatus msg = RM_RESOURCEFATALERROR \<and> \<not> fatalErrorHandled s then
           (if \<not> responsePending s
            then do { (s1, out) \<leftarrow> call_back (set_core (set_error (alloc_error env s) PX_FatalError));
                      Some (s1\<lparr>fatalErrorHandled := True\<rparr>, out) }
            else Some ((post (set_error s PX_FatalError))\<lparr>fatalErrorHandled := True\<rparr>, []))
         else if rmStatus msg = RM_GRANT then
           (if \<not> RMProxy_CheckForStubMode env then Some (post (set_error s PX_ErrorNone), []) else Some (s, []))
         else if rmStatus msg = RM_RESOURCEACQUIRED then
           call_back (set_error (alloc_error env s) PX_ResourcesAcquired)
         else Some (s, []))"

subsection \<open>The caller\<close>

text \<open>
  \<open>RMProxy_NewSendCommand\<close> up to the write into the pipe of the thread; a second caller waits
  while a response is pending. \<open>RMProxy_Return\<close> is the rest: \<open>None\<close> as result value while it is
  blocked in \<open>sem_wait\<close>.
\<close>

definition RMProxy_NewSendCommand :: "px_env \<Rightarrow> px_state \<Rightarrow> px_command \<Rightarrow> px_result" where
  "RMProxy_NewSendCommand env s c =
     (let msg = c\<lparr>pxPid := pe_pid env\<rparr>
      in if responsePending s then Some (s, [])
         else if pxCmd c = RM_RequestResource then
           (if pe_malloc env
            then Some (s\<lparr>responsePending := True, sem := Some 0, RM_Error := Some None, tothread := tothread s @ [msg]\<rparr>, [])
            else None)
         else Some (s\<lparr>tothread := tothread s @ [msg]\<rparr>, [Returned PX_ErrorNone]))"

definition RMProxy_Return :: "px_env \<Rightarrow> px_state \<Rightarrow> px_result" where
  "RMProxy_Return env s =
     (if \<not> responsePending s then Some (s, [])
      else if RMProxy_CheckForStubMode env then Some (s\<lparr>responsePending := False\<rparr>, [Returned PX_ErrorNone])
      else if sem s = Some 0 then Some (s, [])
      else do { v \<leftarrow> (case RM_Error s of None \<Rightarrow> Some PX_ErrorNone | Some e \<Rightarrow> e);
                Some (s\<lparr>sem := None, RM_Error := None, responsePending := False\<rparr>, [Returned v]) })"

datatype px_event = Send px_env px_command | Thread px_env | Response px_env rm_command | Return px_env

definition px_step :: "px_state \<Rightarrow> px_event \<Rightarrow> px_result" where
  "px_step s e =
     (case e of
        Send env c \<Rightarrow> RMProxy_NewSendCommand env s c
      | Thread env \<Rightarrow>
          (case tothread s of [] \<Rightarrow> Some (s, [])
           | c # cs \<Rightarrow> if closed s then Some (s, []) else thread_command env (s\<lparr>tothread := cs\<rparr>) c)
      | Response env msg \<Rightarrow> if readPipeOpened s then thread_response env s msg else Some (s, [])
      | Return env \<Rightarrow> RMProxy_Return env s)"

fun px_run :: "px_state \<Rightarrow> px_event list \<Rightarrow> px_result" where
  "px_run s [] = Some (s, [])"
| "px_run s (e # es) = do { (s1, out) \<leftarrow> px_step s e; (s2, outs) \<leftarrow> px_run s1 es; Some (s2, out @ outs) }"

subsection \<open>The list is a table registry\<close>

definition px_used :: "px_state \<Rightarrow> px_comp list" where
  "px_used s = take (pxNum s) (pxList s)"

definition px_keys :: "px_state \<Rightarrow> handle list" where
  "px_keys s = map componentHandle (px_used s)"

definition px_info :: "px_state \<Rightarrow> handle \<Rightarrow> u32 option" where
  "px_info s h = map_option callback (find (is_px h) (px_used s))"

text \<open>A posted semaphore comes with an error value that has been written, or with none.\<close>

definition px_wf :: "px_state \<Rightarrow> bool" where
  "px_wf s \<longleftrightarrow> length (pxList s) = RMPROXY_MAXCOMPONENTS \<and> pxNum s \<le> RMPROXY_MAXCOMPONENTS
     \<and> (responsePending s \<and> sem s \<noteq> Some 0 \<longrightarrow> RM_Error s \<noteq> Some None)"

definition callbacks_set :: "px_state \<Rightarrow> bool" where
  "callbacks_set s \<longleftrightarrow> (\<forall>c \<in> set (px_used s). callback c \<noteq> 0)"

lemma px_wfD: "px_wf s \<Longrightarrow> length (pxList s) = RMPROXY_MAXCOMPONENTS" "px_wf s \<Longrightarrow> pxNum s \<le> RMPROXY_MAXCOMPONENTS"
  "px_wf s \<Longrightarrow> length (px_used s) = pxNum s" "px_wf s \<Longrightarrow> length (px_keys s) = pxNum s"
  by (simp_all add: px_wf_def px_used_def px_keys_def)

lemma scan_px: "px_wf s \<Longrightarrow> scan (is_px h) (pxList s) (pxNum s) = Some (first_index (is_px h) (px_used s))"
  by (simp add: px_wf_def scan_closed px_used_def)

lemma first_index_px: "first_index (is_px h) (px_used s) = first_index (\<lambda>x. x = h) (px_keys s)"
  by (simp add: px_keys_def first_index_map) (rule first_index_cong, simp add: is_px_def)

lemma px_add_spec:
  assumes "px_wf s" and "pxNum s < RMPROXY_MAXCOMPONENTS"
  shows "\<exists>l. px_add s h cb = Some (s\<lparr>pxList := l, pxNum := Suc (pxNum s)\<rparr>)
    \<and> px_wf (s\<lparr>pxList := l, pxNum := Suc (pxNum s)\<rparr>)
    \<and> px_used (s\<lparr>pxList := l, pxNum := Suc (pxNum s)\<rparr>) = px_used s @ [\<lparr>componentHandle = h, callback = cb\<rparr>]"
  using assms
  by (intro exI [of _ "(pxList s)[pxNum s := \<lparr>componentHandle = h, callback = cb\<rparr>]"])
    (simp add: px_add_def px_wf_def px_used_def take_Suc_conv_app_nth)

lemma px_add_full: "px_wf s \<Longrightarrow> pxNum s = RMPROXY_MAXCOMPONENTS \<Longrightarrow> px_add s h cb = None"
  by (simp add: px_add_def px_wf_def wr_def)

lemma px_remove_spec:
  assumes "px_wf s"
  shows "\<exists>l n. px_remove s h = Some (s\<lparr>pxList := l, pxNum := n\<rparr>) \<and> px_wf (s\<lparr>pxList := l, pxNum := n\<rparr>) \<and> n \<le> pxNum s
    \<and> px_used (s\<lparr>pxList := l, pxNum := n\<rparr>)
        = (case first_index (is_px h) (px_used s) of None \<Rightarrow> px_used s | Some i \<Rightarrow> remove_at i (px_used s))"
proof (cases "first_index (is_px h) (px_used s)")
  case None
  with assms show ?thesis
    by (intro exI [of _ "pxList s"] exI [of _ "pxNum s"]) (simp add: px_remove_def scan_px)
next
  case (Some i)
  let ?n = "pxNum s"
  have i: "i < ?n" using first_index_Some [OF Some] px_wfD(3) [OF assms] by simp
  have n: "?n \<le> length (pxList s)" using px_wfD(1,2) [OF assms] by simp
  from shift_down_prefix [OF i n] obtain b where
    b: "shift_down (pxList s) i (?n - 1 - i) = Some b" "length b = length (pxList s)"
      "take (?n - 1) b = remove_at i (px_used s)" by (auto simp: px_used_def)
  have w: "wr b (?n - 1) px_comp0 = Some (b[?n - 1 := px_comp0])" using b(2) n i by simp
  have t: "take (?n - 1) (b[?n - 1 := px_comp0]) = remove_at i (px_used s)" using b(3) by simp
  from b(1,2) w t i assms Some show ?thesis
    by (intro exI [of _ "b[?n - 1 := px_comp0]"] exI [of _ "?n - 1"])
      (auto simp: px_remove_def scan_px px_wf_def px_used_def simp del: One_nat_def)
qed

lemma find_remove_at:
  "first_index P xs = Some i \<Longrightarrow> (\<And>x. P x \<Longrightarrow> \<not> Q x) \<Longrightarrow> find Q (remove_at i xs) = find Q xs"
  by (induction xs arbitrary: i) (auto split: if_splits)

interpretation px_reg: table_registry px_keys px_info px_wf "\<lambda>s h. px_add s h cb" px_remove RMPROXY_MAXCOMPONENTS
  for cb
proof unfold_locales
  fix s h assume a: "px_wf s" "h \<notin> set (px_keys s)" "length (px_keys s) < RMPROXY_MAXCOMPONENTS"
  with px_add_spec [OF a(1), of h cb] obtain l where
    l: "px_add s h cb = Some (s\<lparr>pxList := l, pxNum := Suc (pxNum s)\<rparr>)" "px_wf (s\<lparr>pxList := l, pxNum := Suc (pxNum s)\<rparr>)"
      "px_used (s\<lparr>pxList := l, pxNum := Suc (pxNum s)\<rparr>) = px_used s @ [\<lparr>componentHandle = h, callback = cb\<rparr>]"
    using px_wfD(4) [OF a(1)] by auto
  then show "\<exists>s'. px_add s h cb = Some s' \<and> px_wf s' \<and> px_keys s' = px_keys s @ [h]
      \<and> (\<forall>k'. k' \<noteq> h \<longrightarrow> px_info s' k' = px_info s k')"
    by (intro exI [of _ "s\<lparr>pxList := l, pxNum := Suc (pxNum s)\<rparr>"])
      (auto simp: px_keys_def px_info_def find_append is_px_def split: option.split)
next
  fix s h assume a: "px_wf s"
  from px_remove_spec [OF a, of h] obtain l n where
    l: "px_remove s h = Some (s\<lparr>pxList := l, pxNum := n\<rparr>)" "px_wf (s\<lparr>pxList := l, pxNum := n\<rparr>)"
      "px_used (s\<lparr>pxList := l, pxNum := n\<rparr>)
        = (case first_index (is_px h) (px_used s) of None \<Rightarrow> px_used s | Some i \<Rightarrow> remove_at i (px_used s))" by blast
  have k: "px_keys (s\<lparr>pxList := l, pxNum := n\<rparr>) = remove1 h (px_keys s)"
  proof (cases "first_index (is_px h) (px_used s)")
    case None
    then have "h \<notin> set (px_keys s)" by (simp add: first_index_px first_absent)
    with l(3) None show ?thesis by (simp add: px_keys_def remove1_idem)
  next
    case (Some i)
    with remove_at_first [of h "px_keys s" i] l(3) show ?thesis
      by (simp add: first_index_px) (simp add: px_keys_def map_remove_at)
  qed
  have "px_info (s\<lparr>pxList := l, pxNum := n\<rparr>) k' = px_info s k'" if "k' \<noteq> h" for k'
    using l(3) that find_remove_at [of "is_px h" "px_used s" _ "is_px k'"]
    by (auto simp: px_info_def is_px_def split: option.splits)
  with l(1,2) k show "\<exists>s'. px_remove s h = Some s' \<and> px_wf s' \<and> px_keys s' = remove1 h (px_keys s)
      \<and> (\<forall>k'. k' \<noteq> h \<longrightarrow> px_info s' k' = px_info s k')" by blast
next
  fix s assume "px_wf s"
  then show "length (px_keys s) \<le> RMPROXY_MAXCOMPONENTS" by (simp add: px_wfD)
qed

lemma callbacks_add:
  "callbacks_set s \<Longrightarrow> cb \<noteq> 0 \<Longrightarrow> px_used s' = px_used s @ [\<lparr>componentHandle = h, callback = cb\<rparr>] \<Longrightarrow> callbacks_set s'"
  by (simp add: callbacks_set_def)

lemma CallbackClient_spec:
  assumes "px_wf s"
  shows "(callbacks_set s \<longrightarrow> RMProxy_CallbackClient s h \<noteq> None)
    \<and> RMProxy_CallbackClient s h = (case px_info s h of None \<Rightarrow> Some []
         | Some cb \<Rightarrow> if cb = 0 then None else Some [Callback cb (pxComponent (core_cmd s)) (RM_Error s)])"
proof (cases "first_index (is_px h) (px_used s)")
  case None
  with assms show ?thesis by (simp add: RMProxy_CallbackClient_def scan_px px_info_def find_first_index)
next
  case (Some i)
  have i: "i < pxNum s" using first_index_Some [OF Some] px_wfD(3) [OF assms] by simp
  then have "rd (pxList s) i = Some (px_used s ! i)" using px_wfD(1,2) [OF assms] by (simp add: px_used_def)
  moreover have "px_used s ! i \<in> set (px_used s)" using i px_wfD(3) [OF assms] by simp
  ultimately show ?thesis using assms Some
    by (auto simp: RMProxy_CallbackClient_def scan_px px_info_def find_first_index callbacks_set_def)
qed

subsection \<open>The machine\<close>

definition queue_ok :: "px_state \<Rightarrow> bool" where
  "queue_ok s \<longleftrightarrow> (\<forall>c \<in> set (tothread s). pxCmd c = RM_RequestResource \<longrightarrow> pxParam4 c \<noteq> 0)"

definition px_inv :: "px_state \<Rightarrow> bool" where
  "px_inv s \<longleftrightarrow> px_wf s \<and> callbacks_set s \<and> queue_ok s"

text \<open>Memory can be allocated, a request names a callback, and there is room in the list.\<close>

definition px_ok :: "px_state \<Rightarrow> px_event \<Rightarrow> bool" where
  "px_ok s e = (case e of
     Send env c \<Rightarrow> pe_malloc env \<and> (pxCmd c = RM_RequestResource \<longrightarrow> pxParam4 c \<noteq> 0)
   | Thread env \<Rightarrow> pxNum s < RMPROXY_MAXCOMPONENTS
   | _ \<Rightarrow> True)"

lemma px_list_cong:
  assumes "pxNum s' = pxNum s" and "pxList s' = pxList s"
  shows "px_used s' = px_used s" "px_keys s' = px_keys s" "px_info s' = px_info s"
    "callbacks_set s' = callbacks_set s"
  using assms by (simp_all add: px_used_def px_keys_def px_info_def callbacks_set_def fun_eq_iff)

lemma px_inv_cong:
  assumes "px_inv s" and "pxNum s' = pxNum s" and "pxList s' = pxList s" and "set (tothread s') \<subseteq> set (tothread s)"
    and "responsePending s' \<and> sem s' \<noteq> Some 0 \<longrightarrow> RM_Error s' \<noteq> Some None"
  shows "px_inv s'"
  using assms px_list_cong [OF assms(2,3)] by (auto simp: px_inv_def px_wf_def queue_ok_def)

lemma px_frame_response [simp]:
  "pxNum (set_error s v) = pxNum s" "pxList (set_error s v) = pxList s" "tothread (set_error s v) = tothread s"
  "responsePending (set_error s v) = responsePending s" "sem (set_error s v) = sem s" "rm_data (set_error s v) = rm_data s"
  "core_cmd (set_error s v) = core_cmd s"
  "pxNum (post s) = pxNum s" "pxList (post s) = pxList s" "tothread (post s) = tothread s"
  "responsePending (post s) = responsePending s" "RM_Error (post s) = RM_Error s"
  "pxNum (alloc_error env s) = pxNum s" "pxList (alloc_error env s) = pxList s" "tothread (alloc_error env s) = tothread s"
  "responsePending (alloc_error env s) = responsePending s" "sem (alloc_error env s) = sem s" "rm_data (alloc_error env s) = rm_data s"
  "core_cmd (alloc_error env s) = core_cmd s"
  "pxNum (set_core s) = pxNum s" "pxList (set_core s) = pxList s" "tothread (set_core s) = tothread s"
  "responsePending (set_core s) = responsePending s" "sem (set_core s) = sem s" "rm_data (set_core s) = rm_data s"
  "RM_Error (set_core s) = RM_Error s" "RM_Error (set_error s v) \<noteq> Some None"
  by (auto simp: set_error_def post_def alloc_error_def set_core_def split: option.split)

lemma call_back_spec:
  assumes "px_inv s"
  shows "\<exists>out. call_back s = Some (s\<lparr>RM_Error := None\<rparr>, out) \<and> px_inv (s\<lparr>RM_Error := None\<rparr>)
    \<and> out = (case px_info s (rmComponent (rm_data s)) of None \<Rightarrow> [] | Some cb \<Rightarrow> [Callback cb (pxComponent (core_cmd s)) (RM_Error s)])"
proof -
  have "px_inv (s\<lparr>RM_Error := None\<rparr>)" by (rule px_inv_cong [OF assms]) simp_all
  moreover have "px_wf s" "callbacks_set s" using assms by (simp_all add: px_inv_def)
  ultimately show ?thesis
    using CallbackClient_spec [of s "rmComponent (rm_data s)"] by (auto simp: call_back_def split: option.splits if_splits)
qed

lemma post_after_error: "px_inv s \<Longrightarrow> px_inv (post (set_error s v))"
  by (erule px_inv_cong) simp_all

lemma error_inv: "px_inv s \<Longrightarrow> px_inv (set_core (set_error (alloc_error env s) v))" "px_inv s \<Longrightarrow> px_inv (set_error (alloc_error env s) v)"
  by (erule px_inv_cong; simp)+

lemma thread_response_inv:
  assumes "px_inv s"
  shows "\<exists>s' out. thread_response env s msg = Some (s', out) \<and> px_inv s'"
proof -
  have w: "px_inv (s\<lparr>rm_data := msg\<rparr>)"
    by (rule px_inv_cong [OF assms]) (use assms in \<open>simp_all add: px_inv_def px_wf_def\<close>)
  have f: "px_inv (t\<lparr>fatalErrorHandled := b\<rparr>)" if "px_inv t" for t b
    by (rule px_inv_cong [OF that]) (use that in \<open>simp_all add: px_inv_def px_wf_def\<close>)
  let ?s = "s\<lparr>rm_data := msg\<rparr>"
  have cb: "\<exists>out. call_back (set_core (set_error (alloc_error env ?s) v)) = Some ((set_core (set_error (alloc_error env ?s) v))\<lparr>RM_Error := None\<rparr>, out)
      \<and> px_inv ((set_core (set_error (alloc_error env ?s) v))\<lparr>RM_Error := None\<rparr>)"
    "\<exists>out. call_back (set_error (alloc_error env ?s) v) = Some ((set_error (alloc_error env ?s) v)\<lparr>RM_Error := None\<rparr>, out)
      \<and> px_inv ((set_error (alloc_error env ?s) v)\<lparr>RM_Error := None\<rparr>)" for v
    using call_back_spec [OF error_inv(1) [OF w]] call_back_spec [OF error_inv(2) [OF w]] by blast+
  show ?thesis
  proof (cases "rmStatus msg")
    case RM_DENY
    with post_after_error [OF w] show ?thesis by (simp add: thread_response_def Let_def)
  next
    case RM_PREEMPT
    from cb(1) obtain out where "call_back (set_core (set_error (alloc_error env ?s) PX_ResourcesPreempted))
      = Some ((set_core (set_error (alloc_error env ?s) PX_ResourcesPreempted))\<lparr>RM_Error := None\<rparr>, out)"
      "px_inv ((set_core (set_error (alloc_error env ?s) PX_ResourcesPreempted))\<lparr>RM_Error := None\<rparr>)" by blast
    with RM_PREEMPT show ?thesis by (simp add: thread_response_def Let_def)
  next
    case RM_RESOURCEFATALERROR
    from cb(1) obtain out where "call_back (set_core (set_error (alloc_error env ?s) PX_FatalError))
      = Some ((set_core (set_error (alloc_error env ?s) PX_FatalError))\<lparr>RM_Error := None\<rparr>, out)"
      "px_inv ((set_core (set_error (alloc_error env ?s) PX_FatalError))\<lparr>RM_Error := None\<rparr>)" by blast
    with RM_RESOURCEFATALERROR f f [OF post_after_error [OF w]] w show ?thesis
      by (cases "fatalErrorHandled s"; cases "responsePending s") (simp_all add: thread_response_def Let_def)
  next
    case RM_GRANT
    with post_after_error [OF w] w show ?thesis by (simp add: thread_response_def Let_def)
  next
    case RM_RESOURCEACQUIRED
    from cb(2) obtain out where "call_back (set_error (alloc_error env ?s) PX_ResourcesAcquired)
      = Some ((set_error (alloc_error env ?s) PX_ResourcesAcquired)\<lparr>RM_Error := None\<rparr>, out)"
      "px_inv ((set_error (alloc_error env ?s) PX_ResourcesAcquired)\<lparr>RM_Error := None\<rparr>)" by blast
    with RM_RESOURCEACQUIRED show ?thesis by (simp add: thread_response_def Let_def)
  next
    case RM_ErrorNone
    with w show ?thesis by (simp add: thread_response_def Let_def)
  qed
qed

lemma thread_command_inv:
  assumes "px_inv s" and "pxCmd c = RM_RequestResource \<longrightarrow> pxParam4 c \<noteq> 0" and "pxNum s < RMPROXY_MAXCOMPONENTS"
  shows "\<exists>s' out. thread_command env s c = Some (s', out) \<and> px_inv s'"
proof -
  let ?s = "s\<lparr>core_cmd := c\<rparr>"
  have w: "px_inv ?s" by (rule px_inv_cong [OF assms(1)]) (use assms(1) in \<open>simp_all add: px_inv_def px_wf_def\<close>)
  have i: "px_inv t'" if "px_wf t" "callbacks_set t" "queue_ok ?s" "pxNum t' = pxNum t" "pxList t' = pxList t" "tothread t' = tothread ?s"
    "responsePending t' = responsePending t" "sem t' = sem t" "RM_Error t' = RM_Error t" for t t'
    using that px_list_cong [OF that(4,5)] by (simp add: px_inv_def px_wf_def queue_ok_def)
  show ?thesis
  proof (cases "pxCmd c")
    case RM_FreeResource
    from w have "px_wf ?s" by (simp add: px_inv_def)
    from px_remove_spec [OF this, of "pxComponent c"] obtain l n where
      l: "px_remove ?s (pxComponent c) = Some (?s\<lparr>pxList := l, pxNum := n\<rparr>)" "px_wf (?s\<lparr>pxList := l, pxNum := n\<rparr>)"
        "px_used (?s\<lparr>pxList := l, pxNum := n\<rparr>) = (case first_index (is_px (pxComponent c)) (px_used ?s) of None \<Rightarrow> px_used ?s
           | Some i \<Rightarrow> remove_at i (px_used ?s))" by blast
    have "set (px_used (?s\<lparr>pxList := l, pxNum := n\<rparr>)) \<subseteq> set (px_used ?s)"
      using l(3) by (auto split: option.splits dest: subsetD [OF set_remove_at])
    then have "callbacks_set (?s\<lparr>pxList := l, pxNum := n\<rparr>)" using w by (auto simp: px_inv_def callbacks_set_def)
    from i [OF l(2) this, of "?s\<lparr>pxList := l, pxNum := n, numClients := numClients ?s - 1\<rparr>"] w l(1) RM_FreeResource
    show ?thesis by (simp add: thread_command_def thread_free_def px_inv_def)
  next
    case RM_RequestResource
    from w have w': "px_wf ?s" "callbacks_set ?s" by (simp_all add: px_inv_def)
    from px_add_spec [OF w'(1), of "pxComponent c" "pxParam4 c"] assms(3) obtain l where
      l: "px_add ?s (pxComponent c) (pxParam4 c) = Some (?s\<lparr>pxList := l, pxNum := Suc (pxNum ?s)\<rparr>)"
        "px_wf (?s\<lparr>pxList := l, pxNum := Suc (pxNum ?s)\<rparr>)"
        "px_used (?s\<lparr>pxList := l, pxNum := Suc (pxNum ?s)\<rparr>) = px_used ?s @ [\<lparr>componentHandle = pxComponent c, callback = pxParam4 c\<rparr>]"
      by auto
    note cb = callbacks_add [OF w'(2) _ l(3)]
    have q: "queue_ok ?s" using w by (simp add: px_inv_def)
    from i [OF l(2) cb q] assms(2) l(1) RM_RequestResource show ?thesis
      by (auto simp: thread_command_def thread_request_def Let_def)
  next
    case RM_Exit
    have "px_inv (?s\<lparr>closed := True, readPipeOpened := False\<rparr>)"
      by (rule px_inv_cong [OF w]) (use w in \<open>simp_all add: px_inv_def px_wf_def\<close>)
    with RM_Exit show ?thesis by (simp add: thread_command_def)
  qed (use w in \<open>simp_all add: thread_command_def\<close>)
qed

interpretation px_machine: guarded_machine px_step px_inv px_ok
proof unfold_locales
  fix s e assume a: "px_inv s" "px_ok s e"
  show "\<exists>s' out. px_step s e = Some (s', out) \<and> px_inv s'"
  proof (cases e)
    case (Send env c)
    have "px_inv (s\<lparr>responsePending := True, sem := Some 0, RM_Error := Some None, tothread := tothread s @ [c\<lparr>pxPid := pe_pid env\<rparr>]\<rparr>)"
      if "pxCmd c = RM_RequestResource \<longrightarrow> pxParam4 c \<noteq> 0"
      using a(1) that by (auto simp: px_inv_def px_wf_def queue_ok_def callbacks_set_def px_used_def)
    moreover have "px_inv (s\<lparr>tothread := tothread s @ [c\<lparr>pxPid := pe_pid env\<rparr>]\<rparr>)"
      if "pxCmd c = RM_RequestResource \<longrightarrow> pxParam4 c \<noteq> 0"
      using a(1) that by (auto simp: px_inv_def px_wf_def queue_ok_def callbacks_set_def px_used_def)
    ultimately show ?thesis using a Send
      by (cases "responsePending s"; cases "pxCmd c = RM_RequestResource")
        (auto simp: px_step_def RMProxy_NewSendCommand_def px_ok_def Let_def)
  next
    case (Thread env)
    show ?thesis
    proof (cases "tothread s")
      case Nil
      with a Thread show ?thesis by (simp add: px_step_def)
    next
      case (Cons c cs)
      have "px_inv (s\<lparr>tothread := cs\<rparr>)" by (rule px_inv_cong [OF a(1)]) (use a(1) Cons in \<open>auto simp: px_inv_def px_wf_def\<close>)
      moreover have "pxCmd c = RM_RequestResource \<longrightarrow> pxParam4 c \<noteq> 0" using a(1) Cons by (simp add: px_inv_def queue_ok_def)
      moreover have "pxNum (s\<lparr>tothread := cs\<rparr>) < RMPROXY_MAXCOMPONENTS" using a(2) Thread by (simp add: px_ok_def)
      ultimately show ?thesis using thread_command_inv a(1) Thread Cons by (simp add: px_step_def)
    qed
  next
    case (Response env msg)
    with thread_response_inv [OF a(1)] a(1) show ?thesis by (simp add: px_step_def)
  next
    case (Return env)
    have "px_inv (s\<lparr>responsePending := False\<rparr>)" "px_inv (s\<lparr>sem := None, RM_Error := None, responsePending := False\<rparr>)"
      by (rule px_inv_cong [OF a(1)]; simp)+
    moreover have "RM_Error s \<noteq> Some None" if "responsePending s" "sem s \<noteq> Some 0"
      using a(1) that by (simp add: px_inv_def px_wf_def)
    ultimately show ?thesis using a(1) Return by (auto simp: px_step_def RMProxy_Return_def split: option.splits)
  qed
qed

subsection \<open>Properties\<close>

text \<open>The proxy is idle and can take a request.\<close>

definition px_ready :: "px_state \<Rightarrow> bool" where
  "px_ready s \<longleftrightarrow> px_inv s \<and> \<not> responsePending s \<and> tothread s = [] \<and> \<not> closed s \<and> pxNum s < RMPROXY_MAXCOMPONENTS
     \<and> (readPipeOpened s \<or> numClients s = 0)"

definition request_ok :: "px_env \<Rightarrow> px_command \<Rightarrow> bool" where
  "request_ok env c \<longleftrightarrow> pe_malloc env \<and> \<not> RMProxy_CheckForStubMode env \<and> pxCmd c = RM_RequestResource \<and> pxParam4 c \<noteq> 0"

text \<open>The state after a request has been sent and forwarded.\<close>

lemma request_forwarded:
  assumes "px_ready s" and "request_ok env c"
  shows "\<exists>t fwd fd. px_run s [Send env c, Thread env] = Some (t, fwd @ px_write fd (RM_RequestResource_msg env (c\<lparr>pxPid := pe_pid env\<rparr>)))
    \<and> px_inv t \<and> responsePending t \<and> readPipeOpened t \<and> RM_Error t = Some None \<and> sem t = Some 0 \<and> tothread t = [] \<and> \<not> closed t
    \<and> px_used t = px_used s @ [\<lparr>componentHandle = pxComponent c, callback = pxParam4 c\<rparr>]
    \<and> fatalErrorHandled t = fatalErrorHandled s \<and> (\<forall>x \<in> set fwd. \<exists>fd m. x = To_rm fd m)
    \<and> (numClients s > 0 \<longrightarrow> fd = fdwrite s \<and> fwd = px_write (fdwrite s) ((rm_data s)\<lparr>rmCmd := RM_ReusePipe,
          rmComponent := pxComponent c, rmParam1 := pxParam1 c, rmParam2 := pxParam2 c, rmParam4 := threadhandle s\<rparr>))"
proof -
  let ?c = "c\<lparr>pxPid := pe_pid env\<rparr>"
  let ?s1 = "s\<lparr>responsePending := True, sem := Some 0, RM_Error := Some None, tothread := [?c]\<rparr>"
  have s1: "px_step s (Send env c) = Some (?s1, [])"
    using assms by (simp add: px_ready_def request_ok_def px_step_def RMProxy_NewSendCommand_def)
  let ?s2 = "?s1\<lparr>tothread := [], core_cmd := ?c\<rparr>"
  have w: "px_wf ?s2" using assms(1) by (simp add: px_ready_def px_inv_def px_wf_def)
  have n: "pxNum ?s2 < RMPROXY_MAXCOMPONENTS" using assms(1) by (simp add: px_ready_def)
  from px_add_spec [OF w n, of "pxComponent c" "pxParam4 c"] obtain l where
    l: "px_add ?s2 (pxComponent c) (pxParam4 c) = Some (?s2\<lparr>pxList := l, pxNum := Suc (pxNum ?s2)\<rparr>)"
      "px_used (?s2\<lparr>pxList := l, pxNum := Suc (pxNum ?s2)\<rparr>) = px_used ?s2 @ [\<lparr>componentHandle = pxComponent c, callback = pxParam4 c\<rparr>]" by blast
  have u: "px_used ?s2 = px_used s" by (simp add: px_used_def)
  have ok1: "px_ok s (Send env c)" "px_ok ?s1 (Thread env)"
    using assms by (simp_all add: px_ok_def px_ready_def request_ok_def)
  have i1: "px_inv ?s1" using px_machine.step_inv [OF _ ok1(1)] s1 assms(1) by (auto simp: px_ready_def)
  have used: "px_used t = px_used s @ [\<lparr>componentHandle = pxComponent c, callback = pxParam4 c\<rparr>]"
    if "pxNum t = Suc (pxNum s)" "pxList t = l" for t
    using l(2) u px_list_cong(1) [of t "?s2\<lparr>pxList := l, pxNum := Suc (pxNum ?s2)\<rparr>"] that by simp
  have cmd: "pxCmd ?c = RM_RequestResource" "\<not> closed s" using assms by (simp_all add: request_ok_def px_ready_def)
  obtain t out where t: "px_step ?s1 (Thread env) = Some (t, out)" "px_inv t"
    using px_machine.step_inv [OF i1 ok1(2)] by blast
  have run: "px_run s [Send env c, Thread env] = Some (t, out)" using s1 t(1) by simp
  show ?thesis
  proof (cases "numClients s = 0")
    case True
    define d where "d = (rm_data s)\<lparr>rmComponent := pxComponent c, rmPid := pe_pid env, rmCmd := RM_OpenPipe,
        rmStatus := RM_ErrorNone, rmParam1 := pxParam1 c, rmParam2 := pxParam2 c, rmParam3 := pxParam4 c\<rparr>"
    from t(1) l(1) cmd True have tt: "t = ?s2\<lparr>pxList := l, pxNum := Suc (pxNum s), fdwrite := pe_open env,
        threadhandle := pxComponent c, rm_data := d, readPipeOpened := True, numClients := Suc 0\<rparr>"
      "out = px_write (pe_open env) d @ px_write (pe_open env) (RM_RequestResource_msg env ?c)"
      by (auto simp: px_step_def thread_command_def thread_request_def Let_def d_def)
    with run t(2) used cmd True show ?thesis
      by (intro exI [of _ t] exI [of _ "px_write (pe_open env) d"] exI [of _ "pe_open env"]) (simp add: px_write_def)
  next
    case False
    define d where "d = (rm_data s)\<lparr>rmCmd := RM_ReusePipe, rmComponent := pxComponent c, rmParam1 := pxParam1 c,
        rmParam2 := pxParam2 c, rmParam4 := threadhandle s\<rparr>"
    from False assms(1) have rp: "readPipeOpened s" by (simp add: px_ready_def)
    from t(1) l(1) cmd False have tt: "t = ?s2\<lparr>pxList := l, pxNum := Suc (pxNum s), rm_data := d, numClients := Suc (numClients s)\<rparr>"
      "out = px_write (fdwrite s) d @ px_write (fdwrite s) (RM_RequestResource_msg env ?c)"
      by (auto simp: px_step_def thread_command_def thread_request_def Let_def d_def)
    with run t(2) used cmd rp show ?thesis
      by (intro exI [of _ t] exI [of _ "px_write (fdwrite s) d"] exI [of _ "fdwrite s"]) (simp add: px_write_def d_def)
  qed
qed

lemma px_run_append:
  "px_run s (es @ es') = do { (s1, out) \<leftarrow> px_run s es; (s2, outs) \<leftarrow> px_run s1 es'; Some (s2, out @ outs) }"
proof (induction es arbitrary: s)
  case Nil
  show ?case by (cases "px_run s es'") auto
next
  case (Cons e es)
  show ?case
  proof (cases "px_step s e")
    case (Some r)
    with Cons show ?thesis
      by (cases r; cases "px_run (fst r) es"; cases "px_run (fst (the (px_run (fst r) es))) es'") auto
  qed simp
qed

lemma px_run_extend:
  "px_run s es = Some (t, out) \<Longrightarrow> px_run t es' = Some (u, outs) \<Longrightarrow> px_run s (es @ es') = Some (u, out @ outs)"
  by (simp add: px_run_append)


definition demo_px_env :: px_env where
  "demo_px_env = \<lparr>pe_pid = 7, pe_junk = 99, pe_open = 3, pe_malloc = True, pe_ram = omap3440_env, pe_qosdyn = True, pe_dll = True\<rparr>"

definition mk_px :: "handle \<Rightarrow> u32 \<Rightarrow> px_command" where
  "mk_px h cb = px_command0\<lparr>pxComponent := h, pxCmd := RM_RequestResource, pxParam1 := 31, pxParam4 := cb\<rparr>"

definition mk_response :: "RM_STATUSTYPE \<Rightarrow> handle \<Rightarrow> u32 \<Rightarrow> rm_command" where
  "mk_response st h pid = rm_command0\<lparr>rmComponent := h, rmPid := pid, rmStatus := st\<rparr>"

lemma demo_px:
  "px_ready px_init" "request_ok demo_px_env (mk_px 16 500)" "px_keys px_init = []"
  by (simp_all add: px_ready_def px_inv_def px_wf_def callbacks_set_def px_used_def queue_ok_def px_init_def px_keys_def
      request_ok_def demo_px_env_def mk_px_def RMProxy_CheckForStubMode_def px_command0_def)


text \<open>
  when a preemption of some registered component arrives while another component waits for
  the answer to its request, the error value of the waiting component is used for the
  callback and freed; a denial that follows is then returned as no error at all.
\<close>

theorem RMProxy_preemption_hides_denial:
  assumes "px_ready s" and "request_ok env c"
    and "rmStatus p = RM_PREEMPT" and "px_info s (rmComponent p) = Some cb" and "rmStatus d = RM_DENY"
  shows "\<exists>s' fwd. px_run s [Send env c, Thread env, Response env p, Response env d, Return env]
      = Some (s', fwd @ [Callback cb (rmComponent p) (Some (Some PX_ResourcesPreempted)), Returned PX_ErrorNone])"
proof -
  from request_forwarded [OF assms(1,2)] obtain t fwd where
    t: "px_run s [Send env c, Thread env] = Some (t, fwd)"
      "px_inv t" "responsePending t" "readPipeOpened t" "RM_Error t = Some None" "sem t = Some 0" "tothread t = []" "\<not> closed t"
      "px_used t = px_used s @ [\<lparr>componentHandle = pxComponent c, callback = pxParam4 c\<rparr>]" by blast
  have stub: "\<not> RMProxy_CheckForStubMode env" using assms(2) by (simp add: request_ok_def)
  let ?t1 = "t\<lparr>rm_data := p, RM_Error := Some (Some PX_ResourcesPreempted), core_cmd := (core_cmd t)\<lparr>pxComponent := rmComponent p\<rparr>\<rparr>"
  have i1: "px_inv ?t1" by (rule px_inv_cong [OF t(2)]) simp_all
  have "px_info t (rmComponent p) = Some cb"
    using assms(4) t(9) by (auto simp: px_info_def find_append split: option.splits)
  then have "px_info ?t1 (rmComponent p) = Some cb" using px_list_cong(3) [of ?t1 t] by simp
  with call_back_spec [OF i1] have cb: "call_back ?t1 = Some (?t1\<lparr>RM_Error := None\<rparr>,
      [Callback cb (rmComponent p) (Some (Some PX_ResourcesPreempted))])" by auto
  let ?t2 = "?t1\<lparr>RM_Error := None\<rparr>"
  have "set_core (set_error (alloc_error env (t\<lparr>rm_data := p\<rparr>)) PX_ResourcesPreempted) = ?t1"
    using t(5) by (simp add: set_core_def set_error_def alloc_error_def)
  with cb assms(3) t(4) have s1: "px_step t (Response env p) = Some (?t2, [Callback cb (rmComponent p) (Some (Some PX_ResourcesPreempted))])"
    by (simp add: px_step_def thread_response_def Let_def)
  have s2: "px_step ?t2 (Response env d) = Some (?t2\<lparr>rm_data := d, sem := Some 1\<rparr>, [])"
    using assms(5) t(4,6) by (simp add: px_step_def thread_response_def Let_def set_error_def post_def)
  have s3: "px_step (?t2\<lparr>rm_data := d, sem := Some 1\<rparr>) (Return env)
      = Some (?t2\<lparr>rm_data := d, sem := None, responsePending := False\<rparr>, [Returned PX_ErrorNone])"
    using t(3) stub by (simp add: px_step_def RMProxy_Return_def)
  from s1 s2 s3 have "px_run t [Response env p, Response env d, Return env]
      = Some (?t2\<lparr>rm_data := d, sem := None, responsePending := False\<rparr>,
          [Callback cb (rmComponent p) (Some (Some PX_ResourcesPreempted)), Returned PX_ErrorNone])" by simp
  from px_run_extend [OF t(1) this] show ?thesis by (simp only: append_Cons append_Nil append_assoc) blast
qed

definition running_px :: px_state where
  "running_px = px_init\<lparr>pxNum := 1, pxList := \<lparr>componentHandle = 32, callback = 600\<rparr> # replicate 99 px_comp0, numClients := 1,
     readPipeOpened := True, fdwrite := 3, threadhandle := 32\<rparr>"

lemma running_px: "px_ready running_px" "px_info running_px 32 = Some 600" "px_inv running_px" "px_keys running_px = [32]"
  by (simp_all add: px_ready_def px_inv_def px_wf_def callbacks_set_def px_used_def queue_ok_def px_init_def running_px_def
      px_info_def is_px_def px_keys_def)

theorem RMProxy_preemption_hides_denial_witness:
  "\<exists>s' fwd. px_run running_px [Send demo_px_env (mk_px 16 500), Thread demo_px_env, Response demo_px_env (mk_response RM_PREEMPT 32 7),
       Response demo_px_env (mk_response RM_DENY 16 7), Return demo_px_env]
     = Some (s', fwd @ [Callback 600 32 (Some (Some PX_ResourcesPreempted)), Returned PX_ErrorNone])"
  using RMProxy_preemption_hides_denial [OF running_px(1) demo_px(2), of "mk_response RM_PREEMPT 32 7" 600 "mk_response RM_DENY 16 7"]
    running_px(2) by (simp add: mk_response_def)

text \<open>
  the fatal error is passed on once per process, not once per component: after the first
  one, fatal errors for any other components, or of a later fault, have no effect; a caller that waits for
  an answer is not woken by them.
\<close>

theorem RMProxy_fatal_error_once:
  assumes "px_inv s" and "readPipeOpened s" and "fatalErrorHandled s"
    and "\<forall>m \<in> set ms. rmStatus m = RM_RESOURCEFATALERROR" and "responsePending s \<longrightarrow> sem s = Some 0" and "\<not> RMProxy_CheckForStubMode env"
  shows "\<exists>d. px_run s (map (Response env) ms @ [Return env]) = Some (s\<lparr>rm_data := d\<rparr>, [])"
  using assms
proof (induction ms arbitrary: s)
  case Nil
  then show ?case by (intro exI [of _ "rm_data s"]) (auto simp: px_step_def RMProxy_Return_def)
next
  case (Cons m ms)
  let ?s = "s\<lparr>rm_data := m\<rparr>"
  have "px_inv ?s" by (rule px_inv_cong [OF Cons.prems(1)]) (use Cons.prems in \<open>auto simp: px_inv_def px_wf_def\<close>)
  with Cons.IH [of ?s] Cons.prems obtain d where
    "px_run ?s (map (Response env) ms @ [Return env]) = Some (?s\<lparr>rm_data := d\<rparr>, [])" by auto
  moreover have "px_step s (Response env m) = Some (?s, [])"
    using Cons.prems by (simp add: px_step_def thread_response_def Let_def)
  ultimately show ?case by auto
qed

theorem RMProxy_fatal_error_once_witness:
  "\<exists>d. px_run (running_px\<lparr>fatalErrorHandled := True\<rparr>) [Response demo_px_env (mk_response RM_RESOURCEFATALERROR 32 7), Return demo_px_env]
     = Some (running_px\<lparr>fatalErrorHandled := True, rm_data := d\<rparr>, [])"
proof -
  have "px_inv (running_px\<lparr>fatalErrorHandled := True\<rparr>)"
    by (rule px_inv_cong [OF running_px(3)]) (simp_all add: running_px_def px_init_def)
  then show ?thesis
    using RMProxy_fatal_error_once [of "running_px\<lparr>fatalErrorHandled := True\<rparr>" "[mk_response RM_RESOURCEFATALERROR 32 7]" demo_px_env]
      demo_px(2) by (simp add: mk_response_def request_ok_def running_px_def px_init_def)
qed

lemma thread_request_adds:
  assumes "px_add s (pxComponent c) (pxParam4 c) = Some t" and "t = s\<lparr>pxList := l, pxNum := n\<rparr>"
  shows "\<exists>s1 o1. thread_request env s c = Some (s1, o1) \<and> pxNum s1 = n \<and> pxList s1 = l \<and> numClients s1 = Suc (numClients s)
    \<and> responsePending s1 = responsePending s \<and> sem s1 = sem s \<and> RM_Error s1 = RM_Error s"
  using assms by (cases "numClients s = 0") (simp_all add: thread_request_def Let_def)

text \<open>
  C20: a component that requests and then frees its resource leaves the list of its process as
  it was, other components keep their callbacks, and the last client of the process asks for
  its pipe to be closed.
\<close>

theorem RMProxy_request_free_roundtrip:
  assumes "px_inv s" and "pxComponent c \<notin> set (px_keys s)" and "pxNum s < RMPROXY_MAXCOMPONENTS" and "pxCmd c = RM_RequestResource"
    and "pxParam4 c \<noteq> 0" and "f = c\<lparr>pxCmd := RM_FreeResource\<rparr>"
  shows "\<exists>s1 o1 s2. thread_command env s c = Some (s1, o1)
    \<and> thread_command env s1 f = Some (s2, px_write (fdwrite s1) (RM_FreeResource_msg env (Suc (numClients s)) f))
    \<and> px_keys s2 = px_keys s \<and> numClients s2 = numClients s \<and> (\<forall>h. h \<noteq> pxComponent c \<longrightarrow> px_info s2 h = px_info s h)"
proof -
  let ?s = "s\<lparr>core_cmd := c\<rparr>"
  have cg: "px_keys ?s = px_keys s" "px_info ?s = px_info s" by (rule px_list_cong; simp)+
  have w: "px_wf ?s" using assms(1) by (simp add: px_inv_def px_wf_def)
  from px_add_spec [OF w, of "pxComponent c" "pxParam4 c"] assms(3) obtain l where
    l: "px_add ?s (pxComponent c) (pxParam4 c) = Some (?s\<lparr>pxList := l, pxNum := Suc (pxNum ?s)\<rparr>)"
      "px_wf (?s\<lparr>pxList := l, pxNum := Suc (pxNum ?s)\<rparr>)" by auto
  from px_reg.add_fresh [OF w, of "pxComponent c" "pxParam4 c"] assms(2,3) cg l(1) px_wfD(4) [OF w] have
    a: "px_keys (?s\<lparr>pxList := l, pxNum := Suc (pxNum ?s)\<rparr>) = px_keys s @ [pxComponent c]"
      "\<forall>h. h \<noteq> pxComponent c \<longrightarrow> px_info (?s\<lparr>pxList := l, pxNum := Suc (pxNum ?s)\<rparr>) h = px_info s h" by auto
  from thread_request_adds [OF l(1) refl, of env] assms(4) obtain s1 o1 where s1: "thread_command env s c = Some (s1, o1)" "pxNum s1 = Suc (pxNum s)" "pxList s1 = l"
    "numClients s1 = Suc (numClients s)" "responsePending s1 = responsePending s" "sem s1 = sem s" "RM_Error s1 = RM_Error s"
    by (auto simp: thread_command_def)
  let ?s1 = "s1\<lparr>core_cmd := f\<rparr>"
  have c1: "px_keys ?s1 = px_keys s @ [pxComponent c]" "h \<noteq> pxComponent c \<Longrightarrow> px_info ?s1 h = px_info s h" for h
    using a px_list_cong [of ?s1 "?s\<lparr>pxList := l, pxNum := Suc (pxNum ?s)\<rparr>"] s1 by simp_all
  have w1: "px_wf ?s1" using l(2) s1 by (simp add: px_wf_def)
  from px_reg.del_key [OF w1, of "pxComponent c"] obtain s' where
    d: "px_remove ?s1 (pxComponent c) = Some s'" "px_keys s' = remove1 (pxComponent c) (px_keys ?s1)"
      "\<forall>h. h \<noteq> pxComponent c \<longrightarrow> px_info s' h = px_info ?s1 h" by blast
  from px_remove_spec [OF w1, of "pxComponent c"] d(1) obtain l' n where s': "s' = ?s1\<lparr>pxList := l', pxNum := n\<rparr>" by auto
  let ?s2 = "s'\<lparr>numClients := numClients s' - 1\<rparr>"
  have "px_keys ?s2 = px_keys s'" "px_info ?s2 = px_info s'" by (rule px_list_cong; simp)+
  with d(2,3) c1 assms(2) have "px_keys ?s2 = px_keys s" "\<forall>h. h \<noteq> pxComponent c \<longrightarrow> px_info ?s2 h = px_info s h"
    by (simp_all add: remove1_append)
  moreover have "thread_command env s1 f = Some (?s2, px_write (fdwrite s1) (RM_FreeResource_msg env (Suc (numClients s)) f))"
    using d(1) s1(4) assms(6) by (simp add: thread_command_def thread_free_def)
  moreover have "numClients ?s2 = numClients s" using s' s1(4) by simp
  ultimately show ?thesis using s1(1) by blast
qed

theorem RMProxy_request_free_roundtrip_witness:
  "\<exists>s1 o1 s2 o2. thread_command demo_px_env running_px (mk_px 16 500) = Some (s1, o1)
    \<and> thread_command demo_px_env s1 ((mk_px 16 500)\<lparr>pxCmd := RM_FreeResource\<rparr>) = Some (s2, o2) \<and> px_keys s2 = [32]"
  using RMProxy_request_free_roundtrip [OF running_px(3), of "mk_px 16 500" _ demo_px_env] running_px(4)
  by (fastforce simp: mk_px_def running_px_def px_command0_def)

subsection \<open>Counting instances\<close>

definition px_counts0 :: px_counts where
  "px_counts0 = \<lparr>nInstances = 0, nVideoInstances = 0, nVPPInstances = 0, nImageInstances = 0, nCameraInstances = 0,
     nDisplay1Instances = 0, nDisplay2Instances = 0, threadFlag = False\<rparr>"

definition thread_starts :: "thread_env \<Rightarrow> bool" where
  "thread_starts te \<longleftrightarrow> te_pipe te \<and> te_calloc te \<and> te_create te"

lemma init_many:
  assumes "thread_starts te" and "nInstances c = 0" and "k \<le> 9"
  shows "((\<lambda>c. snd (RMProxy_NewInitalize te c)) ^^ k) c = c\<lparr>nInstances := int k, threadFlag := (if k = 0 then threadFlag c else True)\<rparr>"
  using assms
proof (induction k)
  case 0
  then show ?case by simp
next
  case (Suc k)
  then show ?case by (simp add: RMProxy_NewInitalize_def create_thread_def thread_starts_def)
qed

lemma deinit_many:
  assumes "int k < nInstances c"
  shows "((\<lambda>c. snd (RMProxy_Deinitalize c)) ^^ k) c = c\<lparr>nInstances := nInstances c - int k\<rparr>"
  using assms
  by (induction k) (simp_all add: RMProxy_Deinitalize_def stop_thread_def no_instances_def)

text \<open>
  the refusal of a tenth instance itself decreases the counter: nine components are
  initialised, a tenth is refused, and after eight of the nine have been closed the thread is
  destroyed although one is still open.
\<close>

theorem RMProxy_refusal_loses_instance:
  assumes "thread_starts te"
  shows "let nine = ((\<lambda>c. snd (RMProxy_NewInitalize te c)) ^^ 9) px_counts0;
             (e, refused) = RMProxy_NewInitalize te nine;
             eight_closed = ((\<lambda>c. snd (RMProxy_Deinitalize c)) ^^ 8) refused
         in threadFlag nine \<and> nInstances nine = 9 \<and> e = PX_ErrorInsufficientResources \<and> \<not> threadFlag eight_closed"
proof -
  let ?nine = "px_counts0\<lparr>nInstances := 9, threadFlag := True\<rparr>"
  let ?ref = "px_counts0\<lparr>nInstances := 8, threadFlag := True\<rparr>"
  have n: "((\<lambda>c. snd (RMProxy_NewInitalize te c)) ^^ 9) px_counts0 = ?nine"
    using init_many [OF assms, of px_counts0 9] by (simp add: px_counts0_def)
  have r: "RMProxy_NewInitalize te ?nine = (PX_ErrorInsufficientResources, ?ref)" by (simp add: RMProxy_NewInitalize_def)
  have eight: "(8 :: nat) = Suc 7" by simp
  have "((\<lambda>c. snd (RMProxy_Deinitalize c)) ^^ Suc 7) ?ref = snd (RMProxy_Deinitalize (((\<lambda>c. snd (RMProxy_Deinitalize c)) ^^ 7) ?ref))"
    by (simp only: funpow.simps(2) comp_apply)
  also have "\<dots> = snd (RMProxy_Deinitalize (?ref\<lparr>nInstances := 1\<rparr>))" using deinit_many [of 7 ?ref] by simp
  finally have "((\<lambda>c. snd (RMProxy_Deinitalize c)) ^^ 8) ?ref = snd (RMProxy_Deinitalize (?ref\<lparr>nInstances := 1\<rparr>))"
    by (simp only: eight)
  then show ?thesis
    unfolding n r Let_def prod.case by (simp add: RMProxy_Deinitalize_def stop_thread_def no_instances_def px_counts0_def)
qed

theorem RMProxy_refusal_loses_instance_witness:
  "fst (RMProxy_NewInitalize \<lparr>te_pipe = True, te_calloc = True, te_create = True\<rparr>
     (((\<lambda>c. snd (RMProxy_NewInitalize \<lparr>te_pipe = True, te_calloc = True, te_create = True\<rparr> c)) ^^ 9) px_counts0))
   = PX_ErrorInsufficientResources"
  using RMProxy_refusal_loses_instance [of "\<lparr>te_pipe = True, te_calloc = True, te_create = True\<rparr>"]
  by (simp only: Let_def thread_starts_def thread_env.select_convs case_prod_beta simp_thms)

text \<open>
  when the thread cannot be created for the first camera component, the error is returned
  but the camera stays counted: no camera component can be opened in that process any more,
  whatever the environment does.
\<close>

theorem RMProxy_failed_camera_blocks:
  assumes "\<not> threadFlag c" and "nCameraInstances c = 0" and "\<not> thread_starts te"
  shows "fst (RMProxy_NewInitalizeEx ve te OMX_COMPONENTTYPE_CAMERA c) = PX_ErrorInsufficientResources
    \<and> fst (RMProxy_NewInitalizeEx ve te' OMX_COMPONENTTYPE_CAMERA
        (((\<lambda>c. snd (RMProxy_NewInitalizeEx ve te' OMX_COMPONENTTYPE_CAMERA c)) ^^ k)
          (snd (RMProxy_NewInitalizeEx ve te OMX_COMPONENTTYPE_CAMERA c)))) = PX_ErrorInsufficientResources"
proof -
  have f: "RMProxy_NewInitalizeEx ve te OMX_COMPONENTTYPE_CAMERA c = (PX_ErrorInsufficientResources, c\<lparr>nCameraInstances := 1\<rparr>)"
    using assms by (auto simp: RMProxy_NewInitalizeEx_def count_instance_def create_thread_def thread_starts_def Let_def)
  have i: "RMProxy_NewInitalizeEx ve te' OMX_COMPONENTTYPE_CAMERA d = (PX_ErrorInsufficientResources, d)"
    if "nCameraInstances d = 1" for d
    using that by (simp add: RMProxy_NewInitalizeEx_def count_instance_def Let_def)
  have "((\<lambda>c. snd (RMProxy_NewInitalizeEx ve te' OMX_COMPONENTTYPE_CAMERA c)) ^^ k) (c\<lparr>nCameraInstances := 1\<rparr>) = c\<lparr>nCameraInstances := 1\<rparr>"
    by (induction k) (simp_all add: i)
  then show ?thesis by (simp add: f i)
qed

theorem RMProxy_failed_camera_blocks_witness:
  "fst (RMProxy_NewInitalizeEx False \<lparr>te_pipe = True, te_calloc = True, te_create = True\<rparr> OMX_COMPONENTTYPE_CAMERA
     (snd (RMProxy_NewInitalizeEx False \<lparr>te_pipe = False, te_calloc = True, te_create = True\<rparr> OMX_COMPONENTTYPE_CAMERA px_counts0)))
   = PX_ErrorInsufficientResources"
  using RMProxy_failed_camera_blocks [of px_counts0 "\<lparr>te_pipe = False, te_calloc = True, te_create = True\<rparr>" False
      "\<lparr>te_pipe = True, te_calloc = True, te_create = True\<rparr>" 0]
  by (simp add: px_counts0_def thread_starts_def)

text \<open>Audio components are not counted, so closing one of them destroys the thread of the others.\<close>

lemma audio_instances_not_counted:
  assumes "thread_starts te" and "thread_starts te'"
  shows "let c1 = snd (RMProxy_NewInitalizeEx ve te OMX_COMPONENTTYPE_AUDIO px_counts0);
             c2 = snd (RMProxy_NewInitalizeEx ve te' OMX_COMPONENTTYPE_AUDIO c1)
         in threadFlag c2 \<and> \<not> threadFlag (snd (RMProxy_DeinitalizeEx OMX_COMPONENTTYPE_AUDIO c2))"
  using assms
  by (simp add: RMProxy_NewInitalizeEx_def RMProxy_DeinitalizeEx_def count_instance_def create_thread_def thread_starts_def
      stop_thread_def no_instances_def px_counts0_def Let_def)

text \<open>The message that asks for the pipe of the process carries the process of the last response.\<close>

lemma reuse_after_response:
  assumes "px_ready s" and "readPipeOpened s" and "numClients s > 0" and "request_ok env c" and "fdwrite s \<ge> 0" and "rmStatus m = RM_PREEMPT"
  shows "\<exists>t cb. px_run s [Response env m, Send env c, Thread env] = Some (t, cb
      @ [To_rm (fdwrite s) (m\<lparr>rmCmd := RM_ReusePipe, rmComponent := pxComponent c, rmParam1 := pxParam1 c,
            rmParam2 := pxParam2 c, rmParam4 := threadhandle s\<rparr>),
         To_rm (fdwrite s) (RM_RequestResource_msg env (c\<lparr>pxPid := pe_pid env\<rparr>))])
    \<and> (\<forall>x \<in> set cb. \<exists>f h e. x = Callback f h e)"
proof -
  let ?s = "s\<lparr>rm_data := m\<rparr>"
  have w: "px_inv ?s"
    by (rule px_inv_cong [where s = s]) (use assms(1) in \<open>auto simp: px_ready_def px_inv_def px_wf_def\<close>)
  let ?u = "set_core (set_error (alloc_error env ?s) PX_ResourcesPreempted)"
  from call_back_spec [OF error_inv(1) [OF w], of env PX_ResourcesPreempted] obtain out where
    o: "call_back ?u = Some (?u\<lparr>RM_Error := None\<rparr>, out)" "px_inv (?u\<lparr>RM_Error := None\<rparr>)"
      "\<forall>x \<in> set out. \<exists>f h e. x = Callback f h e" by (auto split: option.splits)
  let ?t = "?u\<lparr>RM_Error := None\<rparr>"
  have t: "px_step s (Response env m) = Some (?t, out)"
    using assms(2,6) o(1) by (simp add: px_step_def thread_response_def Let_def)
  have f: "numClients ?t = numClients s" "fdwrite ?t = fdwrite s" "threadhandle ?t = threadhandle s" "rm_data ?t = m"
    "readPipeOpened ?t = readPipeOpened s" "closed ?t = closed s"
    by (auto simp: set_core_def set_error_def alloc_error_def split: option.split)
  have "px_ready ?t" using assms(1,2) o(2) f by (simp add: px_ready_def)
  from request_forwarded [OF this assms(4)] f assms(3,5) obtain v where
    "px_run ?t [Send env c, Thread env] = Some (v, [To_rm (fdwrite s) (m\<lparr>rmCmd := RM_ReusePipe, rmComponent := pxComponent c,
        rmParam1 := pxParam1 c, rmParam2 := pxParam2 c, rmParam4 := threadhandle s\<rparr>),
      To_rm (fdwrite s) (RM_RequestResource_msg env (c\<lparr>pxPid := pe_pid env\<rparr>))])"
    by (auto simp: px_write_def simp del: px_run.simps)
  with t o(3) show ?thesis by (intro exI [of _ v] exI [of _ out]) (simp del: px_run.simps(2) add: px_run.simps(2) [of s])
qed

end
