(* ===== verification/Dload_Words.thy ===== *)
theory Dload_Words
  imports Prelude
begin

section \<open>Words of a DOFF file\<close>

text \<open>
  The dynamic loader of \<open>dspbridge/dynreg\<close> reads DOFF files, which are sequences of 32-bit words:
  the host (a little-endian ARM) reads them as bytes into structures, restores the byte order with
  \<open>dload_reorder\<close> and sums the words with \<open>dload_checksum\<close> (\<open>cload.c\<close>). Here a buffer is the list
  of its bytes; \<open>rd32\<close> and \<open>wr32\<close> access the word at a byte offset and are \<^const>\<open>None\<close> outside
  the buffer. \<open>reorder_word_bytes\<close>, \<open>dload_reorder_words\<close> and \<open>dload_checksum_words\<close> give the loops
  in closed form.
\<close>

unbundle bit_operations_syntax

named_theorems dload_simps \<open>closed forms of the loader's loops\<close>

subsection \<open>Words and bytes of the little-endian host\<close>

definition bytes_of_word :: "u32 \<Rightarrow> u8 list" where
  "bytes_of_word w = [ucast w, ucast (drop_bit 8 w), ucast (drop_bit 16 w), ucast (drop_bit 24 w)]"

definition word_of_bytes :: "u8 \<Rightarrow> u8 \<Rightarrow> u8 \<Rightarrow> u8 \<Rightarrow> u32" where
  "word_of_bytes a b c d = ucast a OR push_bit 8 (ucast b) OR push_bit 16 (ucast c) OR push_bit 24 (ucast d)"

definition rd32 :: "u8 list \<Rightarrow> nat \<Rightarrow> u32 option" where
  "rd32 m p = do { a \<leftarrow> rd m p; b \<leftarrow> rd m (p + 1); c \<leftarrow> rd m (p + 2); d \<leftarrow> rd m (p + 3);
     Some (word_of_bytes a b c d) }"

definition wr32 :: "u8 list \<Rightarrow> nat \<Rightarrow> u32 \<Rightarrow> u8 list option" where
  "wr32 m p w = (if p + 4 \<le> length m then Some (take p m @ bytes_of_word w @ drop (p + 4) m) else None)"

fun words_of :: "u8 list \<Rightarrow> u32 list" where
  "words_of (a # b # c # d # bs) = word_of_bytes a b c d # words_of bs"
| "words_of _ = []"

definition bytes_of :: "u32 list \<Rightarrow> u8 list" where
  "bytes_of ws = concat (map bytes_of_word ws)"

lemma length_bytes_of_word [simp]: "length (bytes_of_word w) = 4"
  by (simp add: bytes_of_word_def)

lemma bytes_of_simps [simp]: "bytes_of [] = []" "bytes_of (w # ws) = bytes_of_word w @ bytes_of ws"
  by (simp_all add: bytes_of_def)

lemma bytes_of_append [simp]: "bytes_of (us @ ws) = bytes_of us @ bytes_of ws"
  by (simp add: bytes_of_def)

lemma length_bytes_of [simp]: "length (bytes_of ws) = 4 * length ws"
  by (induction ws) simp_all

lemma bit_u8_out [simp]: "8 \<le> n \<Longrightarrow> \<not> bit (a :: u8) n"
  by (auto dest: bit_imp_le_length)

lemma bit_u32_out [simp]: "32 \<le> n \<Longrightarrow> \<not> bit (a :: u32) n"
  by (auto dest: bit_imp_le_length)

lemma unat_ucast_u8 [simp]: "unat (ucast (x :: u8) :: u32) = unat x"
proof -
  have "unat x < 2 ^ 8" using unsigned_less [of x] by simp
  then have "unat x < 2 ^ LENGTH(32)" by simp
  then show ?thesis by (simp add: unsigned_ucast_eq take_bit_nat_eq_self)
qed

lemma bit_word_of_bytes:
  "bit (word_of_bytes a b c d) i \<longleftrightarrow> (i < 32 \<and> bit ([a, b, c, d] ! (i div 8)) (i mod 8))"
proof (cases "i < 32")
  case False
  then show ?thesis by simp
next
  case True
  define q r where "q = i div 8" and "r = i mod 8"
  then have i: "i = 8 * q + r" and r: "r < 8" by simp_all
  with True have "q \<in> {0, 1, 2, 3}" by auto
  with i r show ?thesis
    by (auto simp: word_of_bytes_def bit_or_iff bit_push_bit_iff bit_ucast_iff)
qed

lemma bit_byte_of_word:
  "j < 4 \<Longrightarrow> bit (bytes_of_word w ! j) i \<longleftrightarrow> i < 8 \<and> bit w (8 * j + i)"
  by (auto simp: bytes_of_word_def bit_ucast_iff bit_drop_bit_eq less_Suc_eq numeral_eq_Suc algebra_simps
      dest: bit_imp_le_length)

lemma bytes_of_word_of_bytes [simp]: "bytes_of_word (word_of_bytes a b c d) = [a, b, c, d]"
proof (rule nth_equalityI)
  show "length (bytes_of_word (word_of_bytes a b c d)) = length [a, b, c, d]" by simp
next
  fix j assume "j < length (bytes_of_word (word_of_bytes a b c d))"
  then have j: "j < 4" by simp
  show "bytes_of_word (word_of_bytes a b c d) ! j = [a, b, c, d] ! j"
    by (rule bit_word_eqI) (use j in \<open>simp add: bit_byte_of_word bit_word_of_bytes\<close>)
qed

lemma word_of_bytes_of_word:
  "word_of_bytes (bytes_of_word w ! 0) (bytes_of_word w ! 1) (bytes_of_word w ! 2) (bytes_of_word w ! 3) = w"
proof (rule bit_word_eqI)
  fix i assume i: "i < LENGTH(32)"
  have "[bytes_of_word w ! 0, bytes_of_word w ! 1, bytes_of_word w ! 2, bytes_of_word w ! 3] = bytes_of_word w"
    by (simp add: bytes_of_word_def numeral_eq_Suc)
  with i show "bit (word_of_bytes (bytes_of_word w ! 0) (bytes_of_word w ! 1) (bytes_of_word w ! 2) (bytes_of_word w ! 3)) i = bit w i"
    by (simp only: bit_word_of_bytes) (simp add: bit_byte_of_word)
qed

lemma words_of_bytes_of [simp]: "words_of (bytes_of_word w @ bs) = w # words_of bs"
  using word_of_bytes_of_word [of w] by (simp add: bytes_of_word_def numeral_eq_Suc)

lemma words_of_bytes_of_list [simp]: "words_of (bytes_of ws @ bs) = ws @ words_of bs"
  by (induction ws) simp_all

lemma bytes_of_words_of: "length bs = 4 * n \<Longrightarrow> bytes_of (words_of bs) = bs"
proof (induction n arbitrary: bs)
  case 0
  then show ?case by simp
next
  case (Suc n)
  then obtain a b c d bs' where bs: "bs = a # b # c # d # bs'"
    by (cases bs rule: words_of.cases) auto
  with Suc show ?case by simp
qed

lemma rd32_at: "rd32 (pre @ bytes_of_word w @ post) (length pre) = Some w"
proof -
  let ?m = "pre @ bytes_of_word w @ post"
  have "rd ?m (length pre + j) = Some (bytes_of_word w ! j)" if "j < 4" for j
    using that by (simp add: rd_def nth_append)
  from this [of 0] this [of 1] this [of 2] this [of 3] show ?thesis
    using word_of_bytes_of_word [of w] by (simp add: rd32_def)
qed

lemma wr32_at: "wr32 (pre @ bytes_of_word w @ post) (length pre) v = Some (pre @ bytes_of_word v @ post)"
  by (simp add: wr32_def)

subsection \<open>Byte order\<close>

text \<open>
  \<open>dload_reorder\<close>: the map of the file header, xored with \<open>0x3030303\<close>, gives for each byte of the
  word its place in the result. Both loops run at least once.
\<close>

definition BYTE_RESHUFFLE_VALUE :: u32 where
  "BYTE_RESHUFFLE_VALUE = 0x00010203"

definition REORDER_MAP :: "u32 \<Rightarrow> u32" where
  "REORDER_MAP rawmap = rawmap XOR 0x3030303"

function reorder_loop :: "u32 \<Rightarrow> u32 \<Rightarrow> u32 \<Rightarrow> u32" where
  "reorder_loop tmp datv tmap =
     (let tmp' = tmp OR push_bit (unat (tmap AND 24)) (datv AND 255);
          tmap' = drop_bit 8 tmap;
          datv' = drop_bit 8 datv
      in if datv' \<noteq> 0 then reorder_loop tmp' datv' tmap' else tmp')"
  by pat_completeness auto

lemma drop_bit_8_less: "drop_bit 8 (w :: u32) \<noteq> 0 \<Longrightarrow> unat (drop_bit 8 w) < unat w"
proof -
  assume nz: "drop_bit 8 w \<noteq> 0"
  have e: "unat (drop_bit 8 w) = unat w div 256"
    by (simp only: unat_drop_bit_eq) (simp add: drop_bit_eq_div)
  from nz have "unat (drop_bit 8 w) \<noteq> 0" by (metis unat_eq_0)
  with e have "unat w > 0" by (cases "unat w") simp_all
  with e show ?thesis by simp
qed

termination reorder_loop
  by (relation "measure (\<lambda>(tmp, datv, tmap). unat datv)") (auto simp: drop_bit_8_less)

declare reorder_loop.simps [simp del]

definition reorder_word :: "u32 \<Rightarrow> u32 \<Rightarrow> u32" where
  "reorder_word mp datv = reorder_loop 0 datv (push_bit 3 mp)"

function dload_reorder :: "u8 list \<Rightarrow> nat \<Rightarrow> int \<Rightarrow> u32 \<Rightarrow> u8 list option" where
  "dload_reorder data p dsiz mp = do {
     datv \<leftarrow> rd32 data p;
     data' \<leftarrow> wr32 data p (reorder_word mp datv);
     (if dsiz - 4 > 0 then dload_reorder data' (p + 4) (dsiz - 4) mp else Some data') }"
  by pat_completeness auto

termination dload_reorder
  by (relation "measure (\<lambda>(data, p, dsiz, mp). nat dsiz)") auto

declare dload_reorder.simps [simp del]

lemma dload_reorder_words [dload_simps]:
  "ws \<noteq> [] \<Longrightarrow> dload_reorder (pre @ bytes_of ws @ post) (length pre) (4 * int (length ws)) mp =
     Some (pre @ bytes_of (map (reorder_word mp) ws) @ post)"
proof (induction ws arbitrary: pre)
  case Nil
  then show ?case by simp
next
  case (Cons w ws)
  have r: "rd32 (pre @ bytes_of (w # ws) @ post) (length pre) = Some w"
    using rd32_at [of pre w "bytes_of ws @ post"] by simp
  have v: "wr32 (pre @ bytes_of (w # ws) @ post) (length pre) (reorder_word mp w) =
      Some ((pre @ bytes_of_word (reorder_word mp w)) @ bytes_of ws @ post)"
    using wr32_at [of pre w "bytes_of ws @ post" "reorder_word mp w"] by simp
  show ?case
  proof (cases "ws = []")
    case True
    with r v show ?thesis by (subst dload_reorder.simps) simp
  next
    case False
    from Cons.IH [OF False, of "pre @ bytes_of_word (reorder_word mp w)"] r v False
    show ?thesis by (subst dload_reorder.simps) (simp add: add.commute)
  qed
qed

text \<open>\<open>dload_checksum\<close>: the sum of the words of the block, with wrap-around.\<close>

function checksum_loop :: "u8 list \<Rightarrow> nat \<Rightarrow> int \<Rightarrow> u32 \<Rightarrow> u32 option" where
  "checksum_loop data p left acc =
     (if left > 0 then do { w \<leftarrow> rd32 data p; checksum_loop data (p + 4) (left - 4) (acc + w) }
      else Some acc)"
  by pat_completeness auto

termination checksum_loop
  by (relation "measure (\<lambda>(data, p, left, acc). nat left)") auto

declare checksum_loop.simps [simp del]

definition dload_checksum :: "u8 list \<Rightarrow> nat \<Rightarrow> int \<Rightarrow> u32 option" where
  "dload_checksum data p siz = checksum_loop data p siz 0"

lemma checksum_loop_words:
  "checksum_loop (pre @ bytes_of ws @ post) (length pre) (4 * int (length ws)) acc = Some (acc + sum_list ws)"
proof (induction ws arbitrary: pre acc)
  case Nil
  then show ?case by (subst checksum_loop.simps) simp
next
  case (Cons w ws)
  have r: "rd32 (pre @ bytes_of (w # ws) @ post) (length pre) = Some w"
    using rd32_at [of pre w "bytes_of ws @ post"] by simp
  from Cons.IH [of "pre @ bytes_of_word w" "acc + w"] r show ?case
    by (subst checksum_loop.simps) (simp add: add.commute add.left_commute)
qed

lemma dload_checksum_words [dload_simps]:
  "dload_checksum (pre @ bytes_of ws @ post) (length pre) (4 * int (length ws)) = Some (sum_list ws)"
  by (simp add: dload_checksum_def checksum_loop_words)

definition DOFF_ALIGN :: "u32 \<Rightarrow> u32" where
  "DOFF_ALIGN addr = (addr + 3) AND NOT 3"

subsection \<open>What the byte order map does\<close>

definition map_place :: "u32 \<Rightarrow> nat \<Rightarrow> nat" where
  "map_place mp i = unat (drop_bit (8 * i) mp AND 3)"

lemma reorder_loop_zero: "reorder_loop tmp 0 tmap = tmp"
  by (subst reorder_loop.simps) simp

lemma reorder_loop_step:
  "reorder_loop tmp datv tmap =
     reorder_loop (tmp OR push_bit (unat (tmap AND 24)) (datv AND 255)) (drop_bit 8 datv) (drop_bit 8 tmap)"
  by (subst reorder_loop.simps) (simp add: Let_def reorder_loop_zero)

lemma map_place_less: "map_place mp i < 4"
proof -
  have "unat (drop_bit (8 * i) mp AND 3) \<le> unat (3 :: u32)"
    by (rule word_le_nat_alt [THEN iffD1]) (rule word_and_le1)
  then show ?thesis by (simp add: map_place_def)
qed

lemma bit_255 [simp]: "bit (255 :: int) n \<longleftrightarrow> n < 8"
proof -
  have "(255 :: int) = mask 8" by (simp add: mask_eq_exp_minus_1)
  then show ?thesis by (simp only: bit_mask_iff) auto
qed

lemma bit_3 [simp]: "bit (3 :: int) n \<longleftrightarrow> n < 2"
proof -
  have "(3 :: int) = mask 2" by (simp add: mask_eq_exp_minus_1)
  then show ?thesis by (simp only: bit_mask_iff) auto
qed

lemma bit_24 [simp]: "bit (24 :: int) n \<longleftrightarrow> 3 \<le> n \<and> n < 5"
proof -
  have "(24 :: int) = push_bit 3 (mask 2)" by (simp add: mask_eq_exp_minus_1 push_bit_eq_mult)
  then show ?thesis by (simp only: bit_push_bit_iff bit_mask_iff) auto
qed

lemma map_shift:
  assumes "i < 4"
  shows "unat (drop_bit (8 * i) (push_bit 3 mp) AND 24) = 8 * map_place mp i"
proof -
  let ?x = "drop_bit (8 * i) mp AND 3"
  have "drop_bit (8 * i) (push_bit 3 mp) AND 24 = push_bit 3 ?x"
    by (rule bit_word_eqI) (use assms in \<open>auto simp: bit_and_iff bit_drop_bit_eq bit_push_bit_iff\<close>)
  moreover have "unat (push_bit 3 ?x) = 8 * unat ?x"
    using map_place_less [of mp i] by (simp add: map_place_def push_bit_eq_mult unat_word_ariths)
  ultimately show ?thesis by (simp add: map_place_def)
qed

lemma reorder_word_closed [dload_simps]:
  "reorder_word mp w = push_bit (8 * map_place mp 0) (w AND 255)
     OR push_bit (8 * map_place mp 1) (drop_bit 8 w AND 255)
     OR push_bit (8 * map_place mp 2) (drop_bit 16 w AND 255)
     OR push_bit (8 * map_place mp 3) (drop_bit 24 w AND 255)"
proof -
  have z: "drop_bit 32 w = 0" by (rule bit_word_eqI) (simp add: bit_drop_bit_eq)
  show ?thesis
    using map_shift [of 0 mp] map_shift [of 1 mp] map_shift [of 2 mp] map_shift [of 3 mp]
    unfolding reorder_word_def
    by (subst reorder_loop_step, subst reorder_loop_step, subst reorder_loop_step, subst reorder_loop_step)
      (simp add: reorder_loop_zero z ac_simps)
qed

lemma bit_reorder_word:
  "bit (reorder_word mp w) n \<longleftrightarrow> n < 32 \<and> (\<exists>i < 4. map_place mp i = n div 8 \<and> bit w (8 * i + n mod 8))"
proof -
  have part: "bit (push_bit (8 * map_place mp i) (drop_bit (8 * i) w AND 255)) n \<longleftrightarrow>
      n < 32 \<and> map_place mp i = n div 8 \<and> bit w (8 * i + n mod 8)" for i
  proof -
    have "8 * map_place mp i \<le> n \<and> n - 8 * map_place mp i < 8 \<longleftrightarrow> map_place mp i = n div 8" by auto
    moreover have "map_place mp i = n div 8 \<Longrightarrow> n - 8 * map_place mp i = n mod 8"
      by (simp add: minus_mult_div_eq_mod)
    ultimately show ?thesis
      by (auto simp: bit_push_bit_iff bit_and_iff bit_drop_bit_eq)
  qed
  have ex: "(\<exists>i < 4. P i) \<longleftrightarrow> P 0 \<or> P 1 \<or> P 2 \<or> P (3 :: nat)" for P
    by (auto simp: numeral_eq_Suc less_Suc_eq)
  show ?thesis
    using part [of 0] part [of 1] part [of 2] part [of 3]
    unfolding reorder_word_closed ex by (auto simp: bit_or_iff)
qed

lemma reorder_word_byte:
  assumes inj: "inj_on (map_place mp) {..<4}" and i: "i < 4"
  shows "bytes_of_word (reorder_word mp w) ! map_place mp i = bytes_of_word w ! i"
proof (rule bit_word_eqI)
  fix n assume "n < LENGTH(8)"
  then have n: "n < 8" by simp
  have d: "(8 * map_place mp i + n) div 8 = map_place mp i" "(8 * map_place mp i + n) mod 8 = n"
    using n by simp_all
  have l: "8 * map_place mp i + n < 32" using map_place_less [of mp i] n by simp
  have "(\<exists>j < 4. map_place mp j = map_place mp i \<and> bit w (8 * j + n)) \<longleftrightarrow> bit w (8 * i + n)"
    using inj i by (auto dest: inj_onD)
  then show "bit (bytes_of_word (reorder_word mp w) ! map_place mp i) n = bit (bytes_of_word w ! i) n"
    by (simp add: bit_byte_of_word map_place_less i n bit_reorder_word d l)
qed

definition shuffled :: "(nat \<Rightarrow> nat) \<Rightarrow> u32 \<Rightarrow> u32 \<Rightarrow> bool" where
  "shuffled \<sigma> w v \<longleftrightarrow> list_all (\<lambda>i. bytes_of_word v ! \<sigma> i = bytes_of_word w ! i) [0, 1, 2, 3]"

lemma all_less_4: "(\<forall>i < 4. P i) \<longleftrightarrow> P 0 \<and> P 1 \<and> P 2 \<and> P (3 :: nat)"
  by (auto simp: numeral_eq_Suc less_Suc_eq)

lemma shuffled_iff: "shuffled \<sigma> w v \<longleftrightarrow> (\<forall>i < 4. bytes_of_word v ! \<sigma> i = bytes_of_word w ! i)"
  unfolding shuffled_def all_less_4 by simp

lemma map_place_byte:
  assumes "j < 4"
  shows "map_place (REORDER_MAP raw) j = unat ((bytes_of_word raw ! j XOR 3) AND 3)"
proof -
  have x: "bit (0x3030303 :: int) (8 * j + n)" if "n < 2" for n
  proof -
    have "(0x3030303 :: int) = 3 OR push_bit 8 3 OR push_bit 16 3 OR push_bit 24 3" by simp
    moreover have "bit (3 OR push_bit 8 3 OR push_bit 16 3 OR push_bit 24 3 :: int) (8 * j + n)"
      using assms that by (auto simp: bit_or_iff bit_push_bit_iff numeral_eq_Suc less_Suc_eq)
    ultimately show ?thesis by simp
  qed
  have "drop_bit (8 * j) (REORDER_MAP raw) AND 3 = ucast ((bytes_of_word raw ! j XOR 3) AND 3)"
  proof (rule bit_word_eqI)
    fix n assume "n < LENGTH(32)"
    show "bit (drop_bit (8 * j) (REORDER_MAP raw) AND 3) n = bit (ucast ((bytes_of_word raw ! j XOR 3) AND 3) :: u32) n"
      using assms x [of n]
      by (cases "n < 2")
        (auto simp: REORDER_MAP_def bit_and_iff bit_drop_bit_eq bit_xor_iff bit_ucast_iff bit_byte_of_word)
  qed
  moreover have "unat (ucast ((bytes_of_word raw ! j XOR 3) AND 3) :: u32) = unat ((bytes_of_word raw ! j XOR 3) AND 3)"
    by (rule unat_ucast_u8)
  ultimately show ?thesis by (simp add: map_place_def)
qed

lemma bytes_BYTE_RESHUFFLE_VALUE: "bytes_of_word BYTE_RESHUFFLE_VALUE = [3, 2, 1, 0]"
  by (simp add: bytes_of_word_def BYTE_RESHUFFLE_VALUE_def)

lemma map_place_shuffled:
  assumes "shuffled \<sigma> BYTE_RESHUFFLE_VALUE raw" and "bij_betw \<sigma> {..<4} {..<4}" and "i < 4"
  shows "map_place (REORDER_MAP raw) (\<sigma> i) = i"
proof -
  from assms have s: "\<sigma> i < 4" by (auto simp: bij_betw_def)
  from assms(1,3) have "bytes_of_word raw ! \<sigma> i = [3, 2, 1, 0] ! i"
    by (simp add: shuffled_iff bytes_BYTE_RESHUFFLE_VALUE)
  moreover have "i = 0 \<or> i = 1 \<or> i = 2 \<or> i = 3" using assms(3) by auto
  ultimately show ?thesis by (auto simp: map_place_byte [OF s])
qed

lemma reorder_word_shuffled:
  assumes raw: "shuffled \<sigma> BYTE_RESHUFFLE_VALUE raw" and bij: "bij_betw \<sigma> {..<4} {..<4}" and v: "shuffled \<sigma> w v"
  shows "reorder_word (REORDER_MAP raw) v = w"
proof -
  note pl = map_place_shuffled [OF raw bij]
  have surj: "\<exists>i < 4. \<sigma> i = j" if "j < 4" for j
    using bij that by (auto simp: bij_betw_def image_iff set_eq_iff) (metis lessThan_iff)
  have inj: "inj_on (map_place (REORDER_MAP raw)) {..<4}"
  proof (rule inj_onI)
    fix j k assume jk: "j \<in> {..<4}" "k \<in> {..<4}" and e: "map_place (REORDER_MAP raw) j = map_place (REORDER_MAP raw) k"
    from jk surj obtain a where "a < 4" "\<sigma> a = j" by blast
    moreover from jk surj obtain b where "b < 4" "\<sigma> b = k" by blast
    ultimately show "j = k" using pl e by metis
  qed
  have "bytes_of_word (reorder_word (REORDER_MAP raw) v) ! i = bytes_of_word w ! i" if i: "i < 4" for i
  proof -
    from i bij have "\<sigma> i < 4" by (auto simp: bij_betw_def)
    from reorder_word_byte [OF inj this, of v] pl [OF i] v i show ?thesis by (simp add: shuffled_iff)
  qed
  then have "bytes_of_word (reorder_word (REORDER_MAP raw) v) = bytes_of_word w"
    by (intro nth_equalityI) simp_all
  then show ?thesis by (metis words_of_bytes_of append_Nil2 list.inject)
qed

text \<open>
  The byte order written in the file's header is undone for every word of a block: whatever
  permutation of the four bytes of each word the file was written with, \<open>dload_reorder\<close> under the
  map taken from the header's \<open>df_byte_reshuffle\<close> field restores the words, in place.
\<close>

theorem dload_reorder_restores:
  assumes "bij_betw \<sigma> {..<4} {..<4}" and "shuffled \<sigma> BYTE_RESHUFFLE_VALUE raw"
    and "list_all2 (shuffled \<sigma>) ws vs" and "ws \<noteq> []"
  shows "dload_reorder (pre @ bytes_of vs @ post) (length pre) (4 * int (length vs)) (REORDER_MAP raw)
    = Some (pre @ bytes_of ws @ post)"
proof -
  have "map (reorder_word (REORDER_MAP raw)) vs = ws"
    using assms(3) by (induction rule: list_all2_induct) (simp_all add: reorder_word_shuffled [OF assms(2,1)])
  moreover have "vs \<noteq> []" using assms(3,4) by auto
  ultimately show ?thesis by (simp add: dload_reorder_words)
qed

definition swap_places :: "nat \<Rightarrow> nat" where
  "swap_places i = 3 - i"

theorem dload_reorder_restores_witness:
  "dload_reorder (bytes_of [0x78563412, 0x03020100]) 0 8 (REORDER_MAP 0x03020100)
    = Some (bytes_of [0x12345678, 0x00010203])"
proof -
  have "bij_betw swap_places {..<4} {..<4}"
    by (rule bij_betw_byWitness [where f' = swap_places]) (auto simp: swap_places_def)
  from dload_reorder_restores [OF this, of "0x03020100" "[0x12345678, 0x00010203]" "[0x78563412, 0x03020100]" "[]" "[]"]
  show ?thesis
    by (simp add: shuffled_def swap_places_def bytes_of_word_def BYTE_RESHUFFLE_VALUE_def)
qed

end
