(* ===== verification/Dload_Symtab.thy ===== *)
theory Dload_Symtab
  imports Prelude
begin

section \<open>The symbol table of the dynamic loader\<close>

text \<open>
  Model of \<open>dspbridge/dynreg/DLsymtab_support.c\<close> and \<open>DLsymtab.c\<close>: a hash table of \<open>2 ^ 5\<close> lists of
  symbols. The first word of the C array \<open>mytable\<close> holds the shift count of the hash function; it
  is the field \<open>shift_cnt\<close> here and the other 32 words are \<open>mytable\<close>. A symbol of the table carries
  the \<open>lvalue\<close> of the enclosing \<open>my_symbol\<close>. Names are lists of bytes without the terminating
  zero byte; \<open>char\<close> is unsigned, as on ARM. A search stores the hash key and the length of the
  name in the table, where the insertion picks them up.

  The abstract view is \<open>bindings\<close>: for every name the list of its definitions, newest first. The
  interface \<open>symbol_manager\<close> states what the loader relies on (\<open>Dynamic_Loader_Sym\<close> of
  \<open>dynamic_loader.h\<close>) in these terms; the hash table is an instance of it.
\<close>

unbundle bit_operations_syntax

type_synonym name = "u8 list"

record symbol =
  sym_name :: name
  versn :: u32
  sym_length :: nat
  lvalue :: u32

record symtab =
  mytable :: "symbol list list"
  shift_cnt :: nat
  hash_key :: nat
  last_length :: nat

definition LSYM_LOGTBLLEN :: nat where
  "LSYM_LOGTBLLEN = 5"

definition AVALUE :: u32 where
  "AVALUE = 1315424652"

definition KEYSHIFT :: nat where
  "KEYSHIFT = 4"

subsection \<open>Hashing and comparing names\<close>

fun hash_loop :: "u32 \<Rightarrow> name \<Rightarrow> u32" where
  "hash_loop key [] = key"
| "hash_loop key (c # cs) = hash_loop (push_bit KEYSHIFT key + ucast c) cs"

definition name_key :: "symtab \<Rightarrow> name \<Rightarrow> nat" where
  "name_key t name = unat (drop_bit (shift_cnt t) (hash_loop 0 name * AVALUE))"

text \<open>
  The comparison runs over the characters in memory, the terminating zero byte included, and
  at least once.
\<close>

fun names_match :: "u8 list \<Rightarrow> u8 list \<Rightarrow> nat \<Rightarrow> bool" where
  "names_match (a # as) (b # bs) len =
     (if a \<noteq> b then False else if len - 1 > 0 then names_match as bs (len - 1) else True)"
| "names_match _ _ _ = False"

definition symbol_matches :: "name \<Rightarrow> symbol \<Rightarrow> bool" where
  "symbol_matches name s \<longleftrightarrow> sym_length s = length name
     \<and> names_match (name @ [0]) (sym_name s @ [0]) (length name)"

subsection \<open>The operations\<close>

text \<open>\<open>Init_Symbol_Table\<close> writes the shift count and clears the pointers.\<close>

definition Init_Symbol_Table :: "symtab \<Rightarrow> nat \<Rightarrow> symtab" where
  "Init_Symbol_Table t llen = t\<lparr>shift_cnt := 32 - llen, mytable := replicate (2 ^ llen) []\<rparr>"

text \<open>
  \<open>Find_Matching_Symbol\<close>: the first symbol of the list that matches. The index of the list is
  read from the array, which is a fault when the key is outside it.
\<close>

definition Find_Matching_Symbol :: "symtab \<Rightarrow> name \<Rightarrow> (symtab \<times> symbol option) option" where
  "Find_Matching_Symbol t name =
     (let t1 = t\<lparr>last_length := length name, hash_key := name_key t name\<rparr>
      in do { l \<leftarrow> rd (mytable t1) (hash_key t1); Some (t1, find (symbol_matches name) l) })"

definition Add_To_Symbol_Table :: "symtab \<Rightarrow> name \<Rightarrow> u32 \<Rightarrow> u32 \<Rightarrow> symtab option" where
  "Add_To_Symbol_Table t nname ver v = do {
     (t1, _) \<leftarrow> Find_Matching_Symbol t nname;
     l \<leftarrow> rd (mytable t1) (hash_key t1);
     tbl \<leftarrow> wr (mytable t1) (hash_key t1)
       (\<lparr>sym_name = nname, versn = ver, sym_length = last_length t1, lvalue = v\<rparr> # l);
     Some (t1\<lparr>mytable := tbl\<rparr>) }"

definition SYMI_continue :: nat where "SYMI_continue = 0"
definition SYMI_delete :: nat where "SYMI_delete = 1"
definition SYMI_terminate :: nat where "SYMI_terminate = 2"

text \<open>
  One list of \<open>Iterate_Symbols\<close>: the result of the action on each symbol says whether to unlink
  it and whether to stop. The flag returned is the early return.
\<close>

fun iterate_list :: "(symbol \<Rightarrow> nat) \<Rightarrow> symbol list \<Rightarrow> symbol list \<times> bool" where
  "iterate_list action [] = ([], False)"
| "iterate_list action (s # nxt) =
     (let rslt = action s
      in if rslt \<noteq> 0 then
           (let kept = (if rslt AND SYMI_delete \<noteq> 0 then [] else [s])
            in if rslt AND SYMI_terminate \<noteq> 0 then (kept @ nxt, True)
               else (let (l, stop) = iterate_list action nxt in (kept @ l, stop)))
         else (let (l, stop) = iterate_list action nxt in (s # l, stop)))"

fun iterate_lists :: "(symbol \<Rightarrow> nat) \<Rightarrow> symbol list list \<Rightarrow> symbol list list" where
  "iterate_lists action [] = []"
| "iterate_lists action (l # ls) =
     (let (l', stop) = iterate_list action l in if stop then l' # ls else l' # iterate_lists action ls)"

definition Iterate_Symbols :: "(symbol \<Rightarrow> nat) \<Rightarrow> symtab \<Rightarrow> symtab" where
  "Iterate_Symbols action t =
     (let cnt = unat (drop_bit (shift_cnt t) (- 1 :: u32)) + 1
      in t\<lparr>mytable := iterate_lists action (take cnt (mytable t)) @ drop cnt (mytable t)\<rparr>)"

definition Purge_Symbol :: "u32 \<Rightarrow> symbol \<Rightarrow> nat" where
  "Purge_Symbol arg s = (if versn s = arg then SYMI_delete else SYMI_continue)"

subsection \<open>The symbol manager class\<close>

definition DLsym_init :: "symtab \<Rightarrow> symtab" where
  "DLsym_init t = Init_Symbol_Table t LSYM_LOGTBLLEN"

definition DLsym_Find_Matching_Symbol :: "symtab \<Rightarrow> name \<Rightarrow> (symtab \<times> u32 option) option" where
  "DLsym_Find_Matching_Symbol t name = do {
     (t1, fsym) \<leftarrow> Find_Matching_Symbol t name;
     Some (t1, map_option lvalue fsym) }"

text \<open>
  The symbol is allocated with its name; \<open>v\<close> is what the block holds where \<open>lvalue\<close> lies. The
  result tells whether a symbol was made; its value is set through the returned pointer
  (\<open>set_newest_value\<close>), which is the head of the list just extended.
\<close>

definition DLsym_Add_To_Symbol_Table :: "bool \<Rightarrow> symtab \<Rightarrow> name \<Rightarrow> u32 \<Rightarrow> u32 \<Rightarrow> (symtab \<times> bool) option" where
  "DLsym_Add_To_Symbol_Table malloc_ok t nname moduleid v =
     (if malloc_ok then do { t1 \<leftarrow> Add_To_Symbol_Table t nname moduleid v; Some (t1, True) }
      else Some (t, False))"

definition set_newest_value :: "symtab \<Rightarrow> u32 \<Rightarrow> symtab option" where
  "set_newest_value t v = do {
     l \<leftarrow> rd (mytable t) (hash_key t);
     (case l of [] \<Rightarrow> None
      | s # ss \<Rightarrow> do { tbl \<leftarrow> wr (mytable t) (hash_key t) (s\<lparr>lvalue := v\<rparr> # ss); Some (t\<lparr>mytable := tbl\<rparr>) }) }"

definition DLsym_Purge_Symbol_Table :: "symtab \<Rightarrow> u32 \<Rightarrow> symtab" where
  "DLsym_Purge_Symbol_Table t moduleid = Iterate_Symbols (Purge_Symbol moduleid) t"

subsection \<open>The hash table as bindings\<close>

definition symtab_wf :: "symtab \<Rightarrow> bool" where
  "symtab_wf t \<longleftrightarrow> shift_cnt t = 27 \<and> length (mytable t) = 32
     \<and> (\<forall>i < 32. \<forall>s \<in> set (mytable t ! i). name_key t (sym_name s) = i \<and> sym_length s = length (sym_name s))"

definition bindings :: "symtab \<Rightarrow> name \<Rightarrow> (u32 \<times> u32) list" where
  "bindings t name = map (\<lambda>s. (versn s, lvalue s)) (filter (\<lambda>s. sym_name s = name) (mytable t ! name_key t name))"

definition newest :: "('i \<times> 'v) list \<Rightarrow> 'v option" where
  "newest bs = (case bs of [] \<Rightarrow> None | (i, v) # _ \<Rightarrow> Some v)"

lemma newest_simps [simp]: "newest [] = None" "newest ((i, v) # bs) = Some v"
  by (simp_all add: newest_def)

lemma names_match_iff: "length as = length bs \<Longrightarrow> names_match (as @ [0]) (bs @ [0]) (length as) \<longleftrightarrow> as = bs"
proof (induction as arbitrary: bs)
  case Nil
  then show ?case by simp
next
  case (Cons a as)
  then obtain b bs' where bs: "bs = b # bs'" by (cases bs) auto
  from Cons.IH [of bs'] Cons.prems bs show ?case by (cases as) auto
qed

lemma symbol_matches_iff: "sym_length s = length (sym_name s) \<Longrightarrow> symbol_matches name s \<longleftrightarrow> sym_name s = name"
  using names_match_iff [of name "sym_name s"] by (auto simp: symbol_matches_def)

lemma name_key_less: "shift_cnt t = 27 \<Longrightarrow> name_key t name < 32"
proof -
  assume s: "shift_cnt t = 27"
  let ?x = "hash_loop 0 name * AVALUE"
  have "unat (drop_bit 27 ?x) = unat ?x div 2 ^ 27" by (simp only: unat_drop_bit_eq) (simp add: drop_bit_eq_div)
  moreover have "unat ?x < 2 ^ 32" using unsigned_less [of ?x] by simp
  ultimately show ?thesis using s by (simp add: name_key_def less_mult_imp_div_less)
qed

lemma name_key_cong [simp]:
  "name_key (t\<lparr>mytable := m\<rparr>) name = name_key t name"
  "name_key (t\<lparr>hash_key := k\<rparr>) name = name_key t name"
  "name_key (t\<lparr>last_length := l\<rparr>) name = name_key t name"
  by (simp_all add: name_key_def)

lemma symtab_wf_cong [simp]:
  "symtab_wf (t\<lparr>hash_key := k\<rparr>) = symtab_wf t" "symtab_wf (t\<lparr>last_length := l\<rparr>) = symtab_wf t"
  "bindings (t\<lparr>hash_key := k\<rparr>) = bindings t" "bindings (t\<lparr>last_length := l\<rparr>) = bindings t"
  by (auto simp: symtab_wf_def bindings_def)

lemma find_filter: "find P xs = (case filter P xs of [] \<Rightarrow> None | x # _ \<Rightarrow> Some x)"
  by (induction xs) simp_all

lemma Find_Matching_Symbol_spec:
  assumes "symtab_wf t"
  shows "Find_Matching_Symbol t name =
    Some (t\<lparr>last_length := length name, hash_key := name_key t name\<rparr>,
      find (\<lambda>s. sym_name s = name) (mytable t ! name_key t name))"
proof -
  from assms have k: "name_key t name < 32" by (simp add: symtab_wf_def name_key_less)
  with assms have l: "\<forall>s \<in> set (mytable t ! name_key t name). sym_length s = length (sym_name s)"
    and len: "length (mytable t) = 32" by (auto simp: symtab_wf_def)
  from l have "find (symbol_matches name) (mytable t ! name_key t name) =
      find (\<lambda>s. sym_name s = name) (mytable t ! name_key t name)"
    by (intro find_cong) (auto simp: symbol_matches_iff)
  with k len show ?thesis by (simp add: Find_Matching_Symbol_def Let_def)
qed

lemma DLsym_find_spec:
  assumes "symtab_wf t"
  shows "DLsym_Find_Matching_Symbol t name =
    Some (t\<lparr>last_length := length name, hash_key := name_key t name\<rparr>, newest (bindings t name))"
  using assms
  by (simp add: DLsym_Find_Matching_Symbol_def Find_Matching_Symbol_spec find_filter bindings_def newest_def
      split: list.split)

definition add_symbol :: "symtab \<Rightarrow> name \<Rightarrow> u32 \<Rightarrow> u32 \<Rightarrow> symtab option" where
  "add_symbol t name moduleid v = do {
     (t1, ok) \<leftarrow> DLsym_Add_To_Symbol_Table True t name moduleid 0; set_newest_value t1 v }"

lemma add_symbol_spec:
  assumes "symtab_wf t"
  shows "\<exists>t'. add_symbol t name i v = Some t' \<and> symtab_wf t' \<and> bindings t' = (bindings t)(name := (i, v) # bindings t name)"
proof -
  let ?k = "name_key t name"
  let ?s = "\<lparr>sym_name = name, versn = i, sym_length = length name, lvalue = v\<rparr>"
  let ?t = "t\<lparr>mytable := (mytable t)[?k := ?s # mytable t ! ?k], hash_key := ?k, last_length := length name\<rparr>"
  from assms have k: "?k < 32" "length (mytable t) = 32" by (simp_all add: symtab_wf_def name_key_less)
  have "add_symbol t name i v = Some ?t"
    using assms k
    by (simp add: add_symbol_def DLsym_Add_To_Symbol_Table_def Add_To_Symbol_Table_def Find_Matching_Symbol_spec
        set_newest_value_def)
  moreover have "symtab_wf ?t"
    using assms k by (auto simp: symtab_wf_def nth_list_update)
  moreover have "bindings ?t = (bindings t)(name := (i, v) # bindings t name)"
    using k by (auto simp: bindings_def fun_eq_iff nth_list_update)
  ultimately show ?thesis by blast
qed

lemma purge_list: "iterate_list (Purge_Symbol i) l = (filter (\<lambda>s. versn s \<noteq> i) l, False)"
  by (induction l) (simp_all add: Purge_Symbol_def SYMI_delete_def SYMI_continue_def SYMI_terminate_def Let_def)

lemma purge_lists: "iterate_lists (Purge_Symbol i) ls = map (filter (\<lambda>s. versn s \<noteq> i)) ls"
  by (induction ls) (simp_all add: purge_list)

lemma DLsym_purge_spec:
  assumes "symtab_wf t"
  shows "DLsym_Purge_Symbol_Table t i = t\<lparr>mytable := map (filter (\<lambda>s. versn s \<noteq> i)) (mytable t)\<rparr>"
proof -
  have "unat (drop_bit 27 (- 1 :: u32)) + 1 = 32"
    by code_simp
  with assms show ?thesis
    by (simp add: DLsym_Purge_Symbol_Table_def Iterate_Symbols_def symtab_wf_def purge_lists)
qed

lemma purge_spec:
  assumes "symtab_wf t"
  shows "symtab_wf (DLsym_Purge_Symbol_Table t i)
    \<and> bindings (DLsym_Purge_Symbol_Table t i) = (\<lambda>n. filter (\<lambda>b. fst b \<noteq> i) (bindings t n))"
proof
  show "symtab_wf (DLsym_Purge_Symbol_Table t i)"
    using assms by (auto simp: DLsym_purge_spec symtab_wf_def)
  have "name_key t n < length (mytable t)" for n using assms by (simp add: symtab_wf_def name_key_less)
  then show "bindings (DLsym_Purge_Symbol_Table t i) = (\<lambda>n. filter (\<lambda>b. fst b \<noteq> i) (bindings t n))"
    using assms by (simp add: DLsym_purge_spec bindings_def fun_eq_iff filter_map comp_def conj_commute)
qed

lemma DLsym_init_spec: "symtab_wf (DLsym_init t) \<and> bindings (DLsym_init t) n = []"
proof -
  have w: "symtab_wf (DLsym_init t)"
    by (auto simp: symtab_wf_def DLsym_init_def Init_Symbol_Table_def LSYM_LOGTBLLEN_def)
  then have "name_key (DLsym_init t) n < 32" by (simp add: symtab_wf_def name_key_less)
  with w show ?thesis
    by (simp add: bindings_def) (simp add: DLsym_init_def Init_Symbol_Table_def LSYM_LOGTBLLEN_def)
qed

subsection \<open>The interface of the loader\<close>

text \<open>
  What the loader relies on: a search gives the newest definition of the name, an insertion hides
  the older ones, and purging a module removes its definitions and uncovers those it hid.
\<close>

locale symbol_manager =
  fixes wf :: "'s \<Rightarrow> bool"
    and binds :: "'s \<Rightarrow> 'n \<Rightarrow> ('i \<times> 'v) list"
    and lookup :: "'s \<Rightarrow> 'n \<Rightarrow> ('s \<times> 'v option) option"
    and insert_sym :: "'s \<Rightarrow> 'n \<Rightarrow> 'i \<Rightarrow> 'v \<Rightarrow> 's option"
    and purge :: "'s \<Rightarrow> 'i \<Rightarrow> 's"
  assumes lookup_newest: "wf s \<Longrightarrow> \<exists>s'. lookup s n = Some (s', newest (binds s n)) \<and> wf s' \<and> binds s' = binds s"
    and insert_hides: "wf s \<Longrightarrow> \<exists>s'. insert_sym s n i v = Some s' \<and> wf s' \<and> binds s' = (binds s)(n := (i, v) # binds s n)"
    and purge_uncovers: "wf s \<Longrightarrow> wf (purge s i) \<and> binds (purge s i) = (\<lambda>n. filter (\<lambda>b. fst b \<noteq> i) (binds s n))"
begin

primrec insert_all :: "'s \<Rightarrow> 'i \<Rightarrow> ('n \<times> 'v) list \<Rightarrow> 's option" where
  "insert_all s i [] = Some s"
| "insert_all s i (d # ds) = Option.bind (insert_sym s (fst d) i (snd d)) (\<lambda>s'. insert_all s' i ds)"

lemma insert_all_binds:
  "wf s \<Longrightarrow> \<exists>s'. insert_all s i ds = Some s' \<and> wf s'
     \<and> binds s' = (\<lambda>n. map (\<lambda>d. (i, snd d)) (rev (filter (\<lambda>d. fst d = n) ds)) @ binds s n)"
proof (induction ds arbitrary: s)
  case Nil
  then show ?case by simp
next
  case (Cons d ds)
  from insert_hides [OF Cons.prems, of "fst d" i "snd d"] obtain s1 where
    s1: "insert_sym s (fst d) i (snd d) = Some s1" "wf s1"
      "binds s1 = (binds s)(fst d := (i, snd d) # binds s (fst d))" by blast
  from Cons.IH [OF s1(2)] obtain s2 where
    "insert_all s1 i ds = Some s2" "wf s2"
    "binds s2 = (\<lambda>n. map (\<lambda>d. (i, snd d)) (rev (filter (\<lambda>d. fst d = n) ds)) @ binds s1 n)" by blast
  with s1 show ?case by (auto simp: fun_eq_iff)
qed

lemma last_definition_found:
  assumes "wf s" and "insert_all s i ds = Some s'"
  shows "\<exists>s''. lookup s' n = Some (s'', (case rev (filter (\<lambda>d. fst d = n) ds) of d # _ \<Rightarrow> Some (snd d)
    | [] \<Rightarrow> newest (binds s n))) \<and> wf s'' \<and> binds s'' = binds s'"
proof -
  from insert_all_binds [OF assms(1), of i ds] assms(2) have
    w: "wf s'" and b: "binds s' n = map (\<lambda>d. (i, snd d)) (rev (filter (\<lambda>d. fst d = n) ds)) @ binds s n"
    by auto
  from lookup_newest [OF w, of n] b show ?thesis
    by (cases "rev (filter (\<lambda>d. fst d = n) ds)") auto
qed

lemma purge_restores:
  assumes "wf s" and "\<And>n. i \<notin> fst ` set (binds s n)" and "insert_all s i ds = Some s'"
  shows "wf (purge s' i) \<and> binds (purge s' i) = binds s"
proof -
  from insert_all_binds [OF assms(1), of i ds] assms(3) have
    w: "wf s'" and b: "binds s' = (\<lambda>n. map (\<lambda>d. (i, snd d)) (rev (filter (\<lambda>d. fst d = n) ds)) @ binds s n)"
    by auto
  have "filter (\<lambda>b. fst b \<noteq> i) (binds s n) = binds s n" for n
    using assms(2) [of n] by (auto simp: filter_id_conv)
  with purge_uncovers [OF w, of i] b show ?thesis by (simp add: filter_map comp_def fun_eq_iff)
qed

end

interpretation dlsym: symbol_manager symtab_wf bindings DLsym_Find_Matching_Symbol add_symbol DLsym_Purge_Symbol_Table
proof unfold_locales
  fix s n assume "symtab_wf s"
  then show "\<exists>s'. DLsym_Find_Matching_Symbol s n = Some (s', newest (bindings s n)) \<and> symtab_wf s' \<and> bindings s' = bindings s"
    by (simp add: DLsym_find_spec)
next
  fix s n i v assume "symtab_wf s"
  then show "\<exists>s'. add_symbol s n i v = Some s' \<and> symtab_wf s' \<and> bindings s' = (bindings s)(n := (i, v) # bindings s n)"
    by (rule add_symbol_spec)
next
  fix s i assume "symtab_wf s"
  then show "symtab_wf (DLsym_Purge_Symbol_Table s i)
      \<and> bindings (DLsym_Purge_Symbol_Table s i) = (\<lambda>n. filter (\<lambda>b. fst b \<noteq> i) (bindings s n))"
    by (rule purge_spec)
qed

text \<open>
  C26: Loading a module into the symbol table and purging it: while the module is there each of its
  symbols is found with the value of its last definition and every other name with the value it
  had, and after the purge every search gives what it gave before, also for the names the module
  hid.
\<close>

theorem DLsym_load_purge:
  assumes "symtab_wf t" and "\<And>n. i \<notin> fst ` set (bindings t n)"
  shows "\<exists>t1. dlsym.insert_all t i ds = Some t1
    \<and> (\<forall>n. map_option snd (DLsym_Find_Matching_Symbol t1 n) =
          Some (case rev (filter (\<lambda>d. fst d = n) ds) of d # _ \<Rightarrow> Some (snd d) | [] \<Rightarrow> newest (bindings t n)))
    \<and> (\<forall>n. map_option snd (DLsym_Find_Matching_Symbol (DLsym_Purge_Symbol_Table t1 i) n) =
          map_option snd (DLsym_Find_Matching_Symbol t n))"
proof -
  from dlsym.insert_all_binds [OF assms(1), of i ds] obtain t1 where
    t1: "dlsym.insert_all t i ds = Some t1" by blast
  from dlsym.purge_restores [OF assms t1] have
    p: "symtab_wf (DLsym_Purge_Symbol_Table t1 i)" "bindings (DLsym_Purge_Symbol_Table t1 i) = bindings t" by auto
  show ?thesis
  proof (intro exI [of _ t1] conjI allI t1)
    fix n
    from dlsym.last_definition_found [OF assms(1) t1, of n]
    show "map_option snd (DLsym_Find_Matching_Symbol t1 n) =
        Some (case rev (filter (\<lambda>d. fst d = n) ds) of d # _ \<Rightarrow> Some (snd d) | [] \<Rightarrow> newest (bindings t n))"
      by auto
    show "map_option snd (DLsym_Find_Matching_Symbol (DLsym_Purge_Symbol_Table t1 i) n) =
        map_option snd (DLsym_Find_Matching_Symbol t n)"
      using p assms(1) by (simp add: DLsym_find_spec)
  qed
qed

definition empty_symtab :: symtab where
  "empty_symtab = DLsym_init \<lparr>mytable = [], shift_cnt = 0, hash_key = 0, last_length = 0\<rparr>"

theorem DLsym_load_purge_witness:
  "\<exists>t1. dlsym.insert_all empty_symtab 7 [([109], 5), ([110], 6), ([109], 9)] = Some t1
    \<and> map_option snd (DLsym_Find_Matching_Symbol t1 [109]) = Some (Some 9)
    \<and> map_option snd (DLsym_Find_Matching_Symbol (DLsym_Purge_Symbol_Table t1 7) [109]) = Some None"
proof -
  have w: "symtab_wf empty_symtab" and b: "bindings empty_symtab n = []" for n
    by (simp_all add: empty_symtab_def DLsym_init_spec)
  from DLsym_load_purge [OF w, of 7 "[([109], 5), ([110], 6), ([109], 9)]"] b obtain t1 where
    t1: "dlsym.insert_all empty_symtab 7 [([109], 5), ([110], 6), ([109], 9)] = Some t1"
    and f: "\<And>n. map_option snd (DLsym_Find_Matching_Symbol t1 n) =
      Some (case rev (filter (\<lambda>d. fst d = n) [([109], 5), ([110], 6), ([109], 9)]) of d # _ \<Rightarrow> Some (snd d) | [] \<Rightarrow> newest (bindings empty_symtab n))"
    and p: "\<And>n. map_option snd (DLsym_Find_Matching_Symbol (DLsym_Purge_Symbol_Table t1 7) n) =
      map_option snd (DLsym_Find_Matching_Symbol empty_symtab n)" by auto
  from t1 f [of "[109]"] p [of "[109]"] w b show ?thesis by (auto simp: DLsym_find_spec)
qed

end
