(* ===== verification/Dload_State.thy ===== *)
theory Dload_State
  imports Dload_Words Dload_Symtab
begin

section \<open>The state of the dynamic loader\<close>

text \<open>
  The structures of \<open>doff.h\<close> and \<open>dload_internal.h\<close>: the header, section and relocation records of
  a DOFF file, the symbols kept for relocation, and \<open>dload_state\<close>, which every procedure of the
  loader takes. The build is the one of \<open>Android.mk\<close>: \<open>TMS32060\<close>, bytes of 8 bits on host and
  target, a little-endian host, \<open>TARGET_BIG_ENDIAN\<close> 0. A structure read from the file is decoded
  from its words. Errors are values of \<open>dl_error\<close>; \<open>dload_errors\<close> lists those reported, so that
  \<open>dload_errcount\<close> is its length. \<^const>\<open>None\<close> is undefined behaviour, as in the prelude.
\<close>

subsection \<open>Records of the file\<close>

record doff_filehdr =
  df_strtab_size :: u32
  df_entrypt :: u32
  df_byte_reshuffle :: u32
  df_scn_name_size :: u32
  df_no_syms :: u16
  df_max_str_len :: u16
  df_no_scns :: u16
  df_target_scns :: u16
  df_doff_version :: u16
  df_target_id :: u16
  df_flags :: u16
  df_entry_secn :: u16
  df_checksum :: u32

record doff_verify_rec =
  dv_timdat :: u32
  dv_scn_rec_checksum :: u32
  dv_str_tab_checksum :: u32
  dv_sym_tab_checksum :: u32
  dv_verify_rec_checksum :: u32

record doff_scnhdr =
  ds_offset :: u32
  ds_paddr :: u32
  ds_vaddr :: u32
  ds_size :: u32
  ds_page :: u16
  ds_flags :: u16
  ds_first_pkt_offset :: u32
  ds_nipacks :: u32

record image_packet =
  i_num_relocs :: u32
  i_packet_size :: u32
  i_checksum :: u32

text \<open>
  A relocation record is three words: the address, a word that the operations read in three
  ways (constant, symbol index, or bit offset, width and word size), and displacement and type.
\<close>

record reloc_record =
  r_vaddr :: u32
  r_word :: u32
  r_disp :: u16
  r_type :: u16

definition r_uval :: "reloc_record \<Rightarrow> u32" where "r_uval rp = r_word rp"
definition r_symndx :: "reloc_record \<Rightarrow> int" where "r_symndx rp = sint (r_word rp)"
definition r_offset :: "reloc_record \<Rightarrow> nat" where "r_offset rp = unat (r_word rp AND 255)"
definition r_fieldsz :: "reloc_record \<Rightarrow> nat" where "r_fieldsz rp = unat (drop_bit 8 (r_word rp) AND 255)"

abbreviation lo16 :: "u32 \<Rightarrow> u16" where "lo16 w \<equiv> ucast w"
abbreviation hi16 :: "u32 \<Rightarrow> u16" where "hi16 w \<equiv> ucast (drop_bit 16 w)"

fun decode_filehdr :: "u32 list \<Rightarrow> doff_filehdr option" where
  "decode_filehdr [a, b, c, d, e, f, g, h, k] =
     Some \<lparr>df_strtab_size = a, df_entrypt = b, df_byte_reshuffle = c, df_scn_name_size = d,
       df_no_syms = lo16 e, df_max_str_len = hi16 e, df_no_scns = lo16 f, df_target_scns = hi16 f,
       df_doff_version = lo16 g, df_target_id = hi16 g, df_flags = lo16 h, df_entry_secn = hi16 h,
       df_checksum = k\<rparr>"
| "decode_filehdr _ = None"

fun decode_verify :: "u32 list \<Rightarrow> doff_verify_rec option" where
  "decode_verify [a, b, c, d, e] =
     Some \<lparr>dv_timdat = a, dv_scn_rec_checksum = b, dv_str_tab_checksum = c, dv_sym_tab_checksum = d,
       dv_verify_rec_checksum = e\<rparr>"
| "decode_verify _ = None"

fun decode_scnhdr :: "u32 list \<Rightarrow> doff_scnhdr option" where
  "decode_scnhdr [a, b, c, d, e, f, g] =
     Some \<lparr>ds_offset = a, ds_paddr = b, ds_vaddr = c, ds_size = d, ds_page = lo16 e, ds_flags = hi16 e,
       ds_first_pkt_offset = f, ds_nipacks = g\<rparr>"
| "decode_scnhdr _ = None"

fun decode_packet :: "u32 list \<Rightarrow> image_packet option" where
  "decode_packet [a, b, c] = Some \<lparr>i_num_relocs = a, i_packet_size = b, i_checksum = c\<rparr>"
| "decode_packet _ = None"

fun decode_reloc :: "u32 list \<Rightarrow> reloc_record option" where
  "decode_reloc [a, b, c] = Some \<lparr>r_vaddr = a, r_word = b, r_disp = lo16 c, r_type = hi16 c\<rparr>"
| "decode_reloc _ = None"

subsection \<open>Internal structures\<close>

record Local_Symbol =
  ls_value :: u32
  ls_delta :: u32
  ls_secnn :: int
  ls_sclass :: int

record LDR_SECTION_INFO =
  li_name :: "u32 option"
  run_addr :: u32
  load_addr :: u32
  li_size :: u32
  li_page :: u16
  li_type :: u16
  li_context :: u32

datatype cinit_mode = CI_count | CI_address | CI_copy | CI_done

datatype dl_error = E_READSTRM | E_ALLOC | E_TGTALLOC | E_INITFAIL | E_ICONNECT | E_DLVWRITE | E_CHECKSUM
  | Bad_operator | Index_out_of_bounds | Stack_overflow | No_bss_base | Unaligned_reference | Value_overflows
  | Bad_byte_map | Bad_target_id | Bad_version | Excessive_strings | Excessive_sections | Endianness_disagrees
  | Alloc_required | Bad_section_name | Bad_symbol_name | Undefined_symbol | Absolute_redefined | Symbol_checksum
  | Cinit_left_over | Bad_packet_size | Write_failed | Zero_init_late | Execute_failed | E_SEEK | E_RELOC
  | Required_NULL

text \<open>
  The input stream of \<open>dynreg.c\<close>: the bytes of the file, absent when \<open>fopen\<close> failed, and the
  position in it.
\<close>

record dl_stream =
  filePointer :: "u8 list option"
  posn :: nat

text \<open>
  The calls of the host and target interfaces of \<open>dynamic_loader.h\<close>, in order. A block of host
  memory is named after its purpose: no load allocates more than one of a kind. \<open>B_root\<close> is the root of
  the list of modules, which outlives a load.
\<close>

datatype block = B_module | B_strings | B_sections | B_handle | B_symbols | B_root

datatype io_event = Host_allocate block u32 bool | Host_deallocate block
  | Target_allocate LDR_SECTION_INFO u32 | Target_deallocate LDR_SECTION_INFO
  | Connect | Writemem u32 "u8 list" | Fillmem u32 u32 u8 | Execute u32 | Release

definition STATIC_EXPR_STK_SIZE :: int where "STATIC_EXPR_STK_SIZE = 10"

record dload_state =
  strm :: dl_stream
  mysym :: symtab
  myoptions :: u32
  str_head :: "u8 list option"
  debug_string_size :: u32
  sect_hdrs_p :: bool
  sect_hdrs :: "doff_scnhdr list"
  ldr_sections :: "LDR_SECTION_INFO list"
  bss_run_base :: u32
  local_symtab_p :: bool
  local_symtab :: "Local_Symbol list"
  image_secn :: LDR_SECTION_INFO
  delta_runaddr :: u32
  image_offset :: u32
  cinit_state :: cinit_mode
  cinit_count :: int
  cinit_addr :: u32
  cinit_page :: u16
  dload_errors :: "dl_error list"
  allocated_secn_count :: nat
  big_e_target :: bool
  reorder_map :: u32
  dfile_hdr :: doff_filehdr
  verify :: doff_verify_rec
  relstkidx :: int
  relstk :: "u32 list"
  myalloc :: bool
  myio :: bool
  myhandle :: u32
  calls :: "io_event list"

abbreviation call :: "io_event \<Rightarrow> dload_state \<Rightarrow> dload_state" where
  "call e s \<equiv> s\<lparr>calls := calls s @ [e]\<rparr>"

definition dload_error :: "dload_state \<Rightarrow> dl_error \<Rightarrow> dload_state" where
  "dload_error s e = s\<lparr>dload_errors := dload_errors s @ [e]\<rparr>"

abbreviation dload_errcount :: "dload_state \<Rightarrow> nat" where
  "dload_errcount s \<equiv> length (dload_errors s)"

text \<open>The cleared state a load starts from.\<close>

definition no_section :: LDR_SECTION_INFO where
  "no_section = \<lparr>li_name = None, run_addr = 0, load_addr = 0, li_size = 0, li_page = 0, li_type = 0, li_context = 0\<rparr>"

definition dload_clear :: "dl_stream \<Rightarrow> symtab \<Rightarrow> dload_state" where
  "dload_clear module syms = \<lparr>strm = module, mysym = syms, myoptions = 0, str_head = None, debug_string_size = 0,
     sect_hdrs_p = False, sect_hdrs = [], ldr_sections = [], bss_run_base = 0, local_symtab_p = False, local_symtab = [],
     image_secn = no_section,
     delta_runaddr = 0, image_offset = 0, cinit_state = CI_count, cinit_count = 0, cinit_addr = 0, cinit_page = 0,
     dload_errors = [], allocated_secn_count = 0, big_e_target = False, reorder_map = 0,
     dfile_hdr = \<lparr>df_strtab_size = 0, df_entrypt = 0, df_byte_reshuffle = 0, df_scn_name_size = 0, df_no_syms = 0,
       df_max_str_len = 0, df_no_scns = 0, df_target_scns = 0, df_doff_version = 0, df_target_id = 0, df_flags = 0,
       df_entry_secn = 0, df_checksum = 0\<rparr>,
     verify = \<lparr>dv_timdat = 0, dv_scn_rec_checksum = 0, dv_str_tab_checksum = 0, dv_sym_tab_checksum = 0,
       dv_verify_rec_checksum = 0\<rparr>,
     relstkidx = 0, relstk = replicate 10 0, myalloc = False, myio = False, myhandle = 0, calls = []\<rparr>"

subsection \<open>The environment of a load\<close>

text \<open>
  What the code does not decide: the results of the client's objects, which may depend on every
  call made before. \<open>host_allocate\<close> returns the address of a block and what the block holds;
  \<open>tgt_allocate\<close> the run address, load address and context it assigns; the flags \<open>alloc_given\<close> and
  \<open>init_given\<close> say whether the objects were passed at all.
\<close>

record dl_env =
  host_allocate :: "io_event list \<Rightarrow> block \<Rightarrow> u32 \<Rightarrow> (u32 \<times> (nat \<Rightarrow> u8)) option"
  alloc_given :: bool
  tgt_allocate :: "io_event list \<Rightarrow> LDR_SECTION_INFO \<Rightarrow> u32 \<Rightarrow> (u32 \<times> u32 \<times> u32) option"
  init_given :: bool
  io_connect :: "io_event list \<Rightarrow> bool"
  io_writemem :: "io_event list \<Rightarrow> bool"
  io_execute :: "io_event list \<Rightarrow> bool"
  sym_malloc :: "symtab \<Rightarrow> bool"

text \<open>\<open>Allocate\<close> of the symbol object: the block with its address, or no block.\<close>

definition Allocate :: "dl_env \<Rightarrow> dload_state \<Rightarrow> block \<Rightarrow> u32 \<Rightarrow> dload_state \<times> (u32 \<times> u8 list) option" where
  "Allocate env s b n = (let r = host_allocate env (calls s) b n
     in (call (Host_allocate b n (r \<noteq> None)) s, map_option (\<lambda>(a, f). (a, map f [0 ..< unat n])) r))"

text \<open>The blocks allocated and not yet released after a sequence of calls.\<close>

definition live_step :: "block set \<Rightarrow> io_event \<Rightarrow> block set" where
  "live_step bs e = (case e of Host_allocate b n ok \<Rightarrow> if ok then insert b bs else bs | Host_deallocate b \<Rightarrow> bs - {b} | _ \<Rightarrow> bs)"

definition live :: "io_event list \<Rightarrow> block set" where
  "live es = foldl live_step {} es"

lemma live_simps [simp]:
  "live [] = {}"
  "live (es @ [Host_allocate b n ok]) = (if ok then insert b (live es) else live es)"
  "live (es @ [Host_deallocate b]) = live es - {b}"
  by (simp_all add: live_def live_step_def)

lemma Allocate_length: "Allocate env s b n = (s', Some (a, m)) \<Longrightarrow> length m = unat n"
  by (auto simp: Allocate_def Let_def)

subsection \<open>The input stream\<close>

text \<open>
  \<open>readBuffer\<close> is \<open>fread\<close> into a buffer at an offset: it stores what the file has left, up to
  \<open>bufsize\<close> bytes, and returns the number of bytes. Storing past the end of the buffer is
  undefined, and so is reading when the file did not open.
\<close>

definition readBuffer :: "dl_stream \<Rightarrow> u8 list \<Rightarrow> nat \<Rightarrow> u32 \<Rightarrow> (dl_stream \<times> u8 list \<times> int) option" where
  "readBuffer st buffer p bufsize = do {
     f \<leftarrow> filePointer st;
     let bs = take (unat bufsize) (drop (posn st) f);
     (if p + length bs \<le> length buffer
      then Some (st\<lparr>posn := posn st + length bs\<rparr>, take p buffer @ bs @ drop (p + length bs) buffer, int (length bs))
      else None) }"

text \<open>\<open>setFilePosn\<close>: the position is converted to the signed \<open>long\<close> of \<open>fseek\<close>.\<close>

definition setFilePosn :: "dl_stream \<Rightarrow> u32 \<Rightarrow> (dl_stream \<times> int) option" where
  "setFilePosn st pos = do {
     _ \<leftarrow> filePointer st;
     Some (if sint pos \<ge> 0 then (st\<lparr>posn := unat pos\<rparr>, 0) else (st, - 1)) }"

end
