(* ===== verification/Dload_Reloc.thy ===== *)
theory Dload_Reloc
  imports Dload_State
begin

section \<open>Relocation\<close>

text \<open>
  Model of \<open>dspbridge/dynreg/reloc.c\<close> with the tables of \<open>reloc_table_c6000.c\<close> and the macros of
  \<open>reloc_table.h\<close>: bit fields of the image are read and written with \<open>dload_unpack\<close> and
  \<open>dload_repack\<close>, and \<open>dload_relocate\<close> performs one relocation operation, on the image, on the
  stack of intermediate values, or both. \<open>RVALUE\<close> is a 32-bit signed integer, a word here whose
  signed operations are written out. Shift counts outside 0 to 31, a division by zero, accesses
  outside the image or the stack and the use of the uninitialised action after an index error are
  \<^const>\<open>None\<close>.

  The bit fields are specified by \<open>img_bit\<close>, the bits of the image in little-endian order.
\<close>

subsection \<open>Tables\<close>

definition ROP_R :: nat where "ROP_R = 1"
definition ROP_W :: nat where "ROP_W = 2"
definition ROP_RW :: nat where "ROP_RW = 3"

definition ROP_ANY :: nat where "ROP_ANY = 0"
definition ROP_SGN :: nat where "ROP_SGN = 1"
definition ROP_UNS :: nat where "ROP_UNS = 2"
definition ROP_MAX :: nat where "ROP_MAX = 3"

definition ROP_SYMD :: nat where "ROP_SYMD = 2"

definition RSTK_UOP :: int where "RSTK_UOP = 2"

datatype Dload_Actions = RACT_VAL | RACT_ASGN | RACT_ADD | RACT_PCR | RACT_ADDISP | RACT_ASGPC
  | RACT_PLUS | RACT_SUB | RACT_NEG | RACT_MPY | RACT_DIV | RACT_MOD
  | RACT_SR | RACT_ASR | RACT_SL | RACT_AND | RACT_OR | RACT_XOR | RACT_NOT
  | RACT_C6SECT | RACT_C6BASE | RACT_C6DSPL | RACT_PCR23T

definition actions :: "Dload_Actions list" where
  "actions = [RACT_VAL, RACT_ASGN, RACT_ADD, RACT_PCR, RACT_ADDISP, RACT_ASGPC,
    RACT_PLUS, RACT_SUB, RACT_NEG, RACT_MPY, RACT_DIV, RACT_MOD,
    RACT_SR, RACT_ASR, RACT_SL, RACT_AND, RACT_OR, RACT_XOR, RACT_NOT,
    RACT_C6SECT, RACT_C6BASE, RACT_C6DSPL, RACT_PCR23T]"

definition RFV_POSN :: "nat \<Rightarrow> nat" where "RFV_POSN a = a mod 16"
definition RFV_WIDTH :: "nat \<Rightarrow> nat" where "RFV_WIDTH a = a div 16 mod 64"
definition RFV_ACTION :: "nat \<Rightarrow> nat" where "RFV_ACTION a = a div 1024"

definition RFV_ACCS :: "nat \<Rightarrow> nat" where "RFV_ACCS i = i mod 4"
definition RFV_SIGN :: "nat \<Rightarrow> nat" where "RFV_SIGN i = i div 4 mod 4"
definition RFV_SYM :: "nat \<Rightarrow> nat" where "RFV_SYM i = i div 16 mod 4"
definition RFV_STK :: "nat \<Rightarrow> nat" where "RFV_STK i = i div 64 mod 4"
definition RFV_SCALE :: "nat \<Rightarrow> nat" where "RFV_SCALE i = i div 2048"

definition HASH_FUNC :: "nat \<Rightarrow> nat" where "HASH_FUNC zz = (zz + 1) * 1845 div 2048 mod 64"
definition HASH_L :: "int \<Rightarrow> int" where "HASH_L zz = zz div 256"
definition HASH_I :: "int \<Rightarrow> int" where "HASH_I zz = zz mod 256"

definition rop_map1 :: "nat list" where
  "rop_map1 =
    [0, 1, 2, 20, 4, 5, 6, 15, 80, 81, 82, 83, 84, 85, 86, 87, 17, 18, 19, 21, 16, 16394, 16404,
    65535, 65535, 65535, 65535, 65535, 65535, 32, 65535, 65535, 65535, 65535, 65535, 65535, 40, 112,
    113, 65535, 16384, 16385, 16386, 16387, 16388, 16389, 16390, 16391, 16392, 16393, 16395, 16396,
    16397, 16398, 16399, 16400, 16401, 16402, 16403, 16405, 16406, 65535, 65535, 65535]"

definition rop_map2 :: "int list" where
  "rop_map2 =
    [- 256, - 255, - 254, - 245, - 253, - 252, - 251, - 250, - 241, - 240, - 239, - 238, - 237,
    - 236, 1813, 5142, - 248, - 247, 778, - 244, - 249, - 221, - 211, - 1, - 1, - 1, - 1, - 1, - 1,
    - 243, - 1, - 1, - 1, - 1, - 1, - 1, - 242, - 233, - 232, - 1, - 231, - 230, - 229, - 228,
    - 227, - 226, - 225, - 224, - 223, 5410, - 220, - 219, - 218, - 217, - 216, - 215, - 214, - 213,
    5676, - 210, - 209, - 1, - 1, - 1]"

definition rop_action :: "nat list" where
  "rop_action =
    [2560, 2304, 2304, 2432, 2432, 2560, 2176, 2304, 2560, 3200, 3328, 3584, 3456, 2304, 4208, 20788,
    21812, 3415, 3245, 2311, 4359, 19764, 2311, 3191, 3280, 6656, 7680, 8704, 9728, 10752, 11776,
    12800, 13824, 14848, 15872, 16896, 17920, 18944, 0, 0, 0, 0, 1536, 1536, 1536, 5632, 512, 0]"

definition rop_info :: "nat list" where
  "rop_info =
    [0, 35, 35, 35, 35, 35, 35, 35, 35, 39, 39, 39, 39, 35, 34, 283, 299, 4135, 4391, 291, 33059,
    283, 295, 4647, 4135, 64, 64, 128, 64, 64, 64, 64, 64, 64, 64, 64, 64, 128, 201, 197, 74, 70,
    208, 196, 200, 192, 192, 66]"

subsection \<open>Finding the operation of a relocation type\<close>

text \<open>
  The type is looked up in a hash table with chaining. The chains of the table are short
  (\<open>chain_end\<close>: a link leads to an entry without a link), so the loop ends for every type.
\<close>

lemma chain_table:
  "list_all (\<lambda>l. HASH_L l < 0 \<or> nat (HASH_L l) < 64 \<and> HASH_L (rop_map2 ! nat (HASH_L l)) < 0) rop_map2"
  by (simp add: rop_map2_def HASH_L_def)

lemma chain_end: "rx < 64 \<Longrightarrow> HASH_L (rop_map2 ! rx) \<ge> 0 \<Longrightarrow>
    nat (HASH_L (rop_map2 ! rx)) < 64 \<and> HASH_L (rop_map2 ! nat (HASH_L (rop_map2 ! rx))) < 0"
proof -
  assume rx: "rx < 64" and l: "HASH_L (rop_map2 ! rx) \<ge> 0"
  have "length rop_map2 = 64" by (simp add: rop_map2_def)
  with rx have "rop_map2 ! rx \<in> set rop_map2" by simp
  with chain_table l show ?thesis by (force simp: list_all_iff)
qed

lemma length_rop_tables [simp]:
  "length rop_map1 = 64" "length rop_map2 = 64" "length rop_action = 48" "length rop_info = 48"
  by (simp_all add: rop_map1_def rop_map2_def rop_action_def rop_info_def)

function rop_find :: "nat \<Rightarrow> nat \<Rightarrow> nat option option" where
  "rop_find t rx = do {
     m \<leftarrow> rd rop_map1 rx;
     (if m = t then Some (Some (nat (HASH_I (rop_map2 ! rx))))
      else if HASH_L (rop_map2 ! rx) < 0 then Some None
      else rop_find t (nat (HASH_L (rop_map2 ! rx)))) }"
  by pat_completeness auto

termination rop_find
  by (relation "measure (\<lambda>(t, rx). if HASH_L (rop_map2 ! rx) < 0 then 0 else 1)")
    (use chain_end in \<open>auto simp: rd_Some_iff not_less\<close>)

declare rop_find.simps [simp del]

subsection \<open>Bit fields\<close>

text \<open>
  \<open>fieldsz\<close> is decremented first, against shifts by 32; the bytes are collected from the lowest
  host address upwards.
\<close>

function unpack_loop :: "u8 list \<Rightarrow> nat \<Rightarrow> u32 \<Rightarrow> nat \<Rightarrow> nat \<Rightarrow> u32 option" where
  "unpack_loop img dp objval shift fieldsz =
     (if shift \<le> fieldsz then do { b \<leftarrow> rd img (dp + 1);
        unpack_loop img (dp + 1) (objval + push_bit shift (ucast b)) (shift + 8) fieldsz }
      else Some objval)"
  by pat_completeness auto

termination unpack_loop
  by (relation "measure (\<lambda>(img, dp, objval, shift, fieldsz). Suc fieldsz - shift)") auto

declare unpack_loop.simps [simp del]

definition dload_unpack :: "u8 list \<Rightarrow> nat \<Rightarrow> nat \<Rightarrow> nat \<Rightarrow> nat \<Rightarrow> u32 option" where
  "dload_unpack img dp fieldsz offset sg =
     (if fieldsz = 0 \<or> 32 < fieldsz \<or> 8 < offset then None
      else do {
        b \<leftarrow> rd img dp;
        objval \<leftarrow> unpack_loop img dp (drop_bit offset (ucast b)) (8 - offset) (fieldsz - 1);
        (if sg = ROP_UNS then Some (objval AND (push_bit (fieldsz - 1) 2 - 1))
         else let shift = 31 - (fieldsz - 1) in Some (signed_drop_bit shift (push_bit shift objval))) })"

function repack_loop :: "u8 list \<Rightarrow> nat \<Rightarrow> u32 \<Rightarrow> u32 \<Rightarrow> u8 list option" where
  "repack_loop img dp objval msk =
     (if msk \<noteq> 0 then do {
        b \<leftarrow> rd img (dp + 1);
        img' \<leftarrow> wr img (dp + 1) (ucast ((ucast b AND NOT msk) + objval));
        repack_loop img' (dp + 1) (drop_bit 8 objval) (drop_bit 8 msk) }
      else Some img)"
  by pat_completeness auto

lemma drop_bit_8_decreases: "(w :: u32) \<noteq> 0 \<Longrightarrow> unat (drop_bit 8 w) < unat w"
proof -
  assume "w \<noteq> 0"
  then have "unat w > 0" by (simp add: unat_gt_0)
  moreover have "unat (drop_bit 8 w) = unat w div 256"
    by (simp only: unat_drop_bit_eq) (simp add: drop_bit_eq_div)
  ultimately show ?thesis by simp
qed

termination repack_loop
  by (relation "measure (\<lambda>(img, dp, objval, msk). unat msk)") (auto simp: drop_bit_8_decreases)

declare repack_loop.simps [simp del]

definition ovf_limit :: "nat list" where
  "ovf_limit = [1, 2, 2]"

definition repack_overflows :: "u32 \<Rightarrow> nat \<Rightarrow> nat \<Rightarrow> bool" where
  "repack_overflows val fieldsz sg \<longleftrightarrow> sg \<noteq> 0
     \<and> unat (signed_drop_bit (fieldsz - 1) val + of_nat (sg mod 2)) > ovf_limit ! (sg - 1)"

definition dload_repack :: "u32 \<Rightarrow> u8 list \<Rightarrow> nat \<Rightarrow> nat \<Rightarrow> nat \<Rightarrow> nat \<Rightarrow> (u8 list \<times> bool) option" where
  "dload_repack val img dp fieldsz offset sg =
     (if fieldsz = 0 \<or> 32 < fieldsz \<or> 8 < offset then None
      else do {
        let msk = push_bit (fieldsz - 1) 2 - 1;
        let objval = val AND msk;
        b \<leftarrow> rd img dp;
        img1 \<leftarrow> wr img dp (ucast ((ucast b AND NOT (push_bit offset msk)) + push_bit offset objval));
        let shift = 8 - offset;
        img2 \<leftarrow> repack_loop img1 dp (drop_bit shift objval) (drop_bit shift msk);
        Some (img2, repack_overflows val fieldsz sg) })"

subsection \<open>One relocation\<close>

definition C60_Scale :: "nat list" where
  "C60_Scale = [1, 0, 0, 0, 1, 1, 2, 2]"

definition SCALE_BITS :: nat where "SCALE_BITS = 4"

definition BSSSYMBOL :: name where
  "BSSSYMBOL = [46, 98, 115, 115]"

definition R_C60ALIGN :: nat where "R_C60ALIGN = 0x76"
definition R_C60FPHEAD :: nat where "R_C60FPHEAD = 0x77"
definition R_C60NOCMP :: nat where "R_C60NOCMP = 0x100"

definition c_div :: "u32 \<Rightarrow> u32 \<Rightarrow> u32 option" where
  "c_div a b = (if b = 0 \<or> (a = 2 ^ 31 \<and> b = - 1) then None
     else Some (word_of_int (sgn (sint a) * sgn (sint b) * (\<bar>sint a\<bar> div \<bar>sint b\<bar>))))"

definition c_mod :: "u32 \<Rightarrow> u32 \<Rightarrow> u32 option" where
  "c_mod a b = do { q \<leftarrow> c_div a b; Some (a - q * b) }"

text \<open>The amount of the referenced symbol or section, and the symbol.\<close>

definition reloc_amount :: "dload_state \<Rightarrow> nat \<Rightarrow> reloc_record \<Rightarrow> (u32 \<times> Local_Symbol option) option" where
  "reloc_amount s reloc_info rp =
     (if RFV_SYM reloc_info = 0 then Some (r_uval rp, None)
      else if unat (r_word rp) < unat (df_no_syms (dfile_hdr s)) then do {
        svp \<leftarrow> rd (local_symtab s) (unat (r_word rp));
        Some (if RFV_SYM reloc_info = ROP_SYMD then ls_delta svp else ls_value svp, Some svp) }
      else if r_symndx rp = - 1 then
        Some (if RFV_SYM reloc_info = ROP_SYMD then delta_runaddr s else run_addr (image_secn s), None)
      else Some (r_uval rp, None))"

text \<open>Access to the stack of intermediate values through a C index.\<close>

definition stk_rd :: "u32 list \<Rightarrow> int \<Rightarrow> u32 option" where
  "stk_rd st i = (if i < 0 then None else rd st (nat i))"

definition stk_wr :: "u32 list \<Rightarrow> int \<Rightarrow> u32 \<Rightarrow> u32 list option" where
  "stk_wr st i v = (if i < 0 then None else wr st (nat i) v)"

text \<open>
  The arithmetic of the actions that do not change the field. \<open>st\<close> reads \<open>*stackp\<close>, and is absent
  when \<open>stackp\<close> is \<open>NULL\<close>.
\<close>

definition with_stack :: "u32 option option \<Rightarrow> u32 \<Rightarrow> (u32 \<Rightarrow> u32 option) \<Rightarrow> u32 option" where
  "with_stack st val f = (case st of None \<Rightarrow> Some val | Some v \<Rightarrow> Option.bind v f)"

fun act_value :: "Dload_Actions \<Rightarrow> dload_state \<Rightarrow> reloc_record \<Rightarrow> u32 \<Rightarrow> u32 option option \<Rightarrow> u32 \<Rightarrow> u32 option" where
  "act_value RACT_ASGN s rp amt st val = Some amt"
| "act_value RACT_ADD s rp amt st val = Some (val + amt)"
| "act_value RACT_PCR s rp amt st val = Some (val + ((if r_symndx rp = - 1 then 0 else amt) - delta_runaddr s))"
| "act_value RACT_ADDISP s rp amt st val = Some (val + (ucast (r_disp rp) + amt))"
| "act_value RACT_ASGPC s rp amt st val = Some (run_addr (image_secn s) + amt)"
| "act_value RACT_PLUS s rp amt st val = with_stack st val (\<lambda>v. Some (val + v))"
| "act_value RACT_SUB s rp amt st val = with_stack st val (\<lambda>v. Some (v - val))"
| "act_value RACT_NEG s rp amt st val = (if st = None then Some val else Some (- val))"
| "act_value RACT_MPY s rp amt st val = with_stack st val (\<lambda>v. Some (val * v))"
| "act_value RACT_DIV s rp amt st val = with_stack st val (\<lambda>v. c_div v val)"
| "act_value RACT_MOD s rp amt st val = with_stack st val (\<lambda>v. c_mod v val)"
| "act_value RACT_SR s rp amt st val =
     (if 32 \<le> val then Some 0 else with_stack st val (\<lambda>v. Some (drop_bit (unat val) v)))"
| "act_value RACT_ASR s rp amt st val =
     (if 32 \<le> val then Some 31 else with_stack st val (\<lambda>v. Some (signed_drop_bit (unat val) v)))"
| "act_value RACT_SL s rp amt st val =
     (if 32 \<le> val then Some 0 else with_stack st val (\<lambda>v. Some (push_bit (unat val) v)))"
| "act_value RACT_AND s rp amt st val = with_stack st val (\<lambda>v. Some (val AND v))"
| "act_value RACT_OR s rp amt st val = with_stack st val (\<lambda>v. Some (val OR v))"
| "act_value RACT_XOR s rp amt st val = with_stack st val (\<lambda>v. Some (val XOR v))"
| "act_value RACT_NOT s rp amt st val = Some (NOT val)"
| "act_value _ s rp amt st val = Some val"

text \<open>
  The last three actions share their tail: \<open>RACT_C6SECT\<close> takes the section of the symbol instead
  of the symbol, \<open>RACT_C6BASE\<close> subtracts the base of \<open>.bss\<close>, which it looks up once, and
  \<open>RACT_C6DSPL\<close> scales the value by the amount that the low bits of the field select and leaves
  the scale bits of the field alone. The result is state, value, offset, width and scale.
\<close>

definition c6_section :: "dload_state \<Rightarrow> reloc_record \<Rightarrow> Local_Symbol option \<Rightarrow> u32 \<Rightarrow> u32 option" where
  "c6_section s rp svp amt =
     (case svp of
        Some sv \<Rightarrow>
          (if r_symndx rp \<ge> 0 \<and> ls_secnn sv > 0
           then do { li \<leftarrow> rd (ldr_sections s) (nat (ls_secnn sv - 1)); Some (run_addr li) }
           else Some amt)
      | None \<Rightarrow> Some amt)"

definition c6_base :: "dload_state \<Rightarrow> u32 \<Rightarrow> (dload_state \<times> u32) option" where
  "c6_base s amt =
     (if bss_run_base s = 0 then do {
        (sy, v) \<leftarrow> DLsym_Find_Matching_Symbol (mysym s) BSSSYMBOL;
        let s1 = s\<lparr>mysym := sy\<rparr>;
        let s2 = (case v of Some a \<Rightarrow> s1\<lparr>bss_run_base := a\<rparr> | None \<Rightarrow> dload_error s1 No_bss_base);
        Some (s2, amt - bss_run_base s2) }
      else Some (s, amt - bss_run_base s))"

definition c6_displacement :: "dload_state \<Rightarrow> u32 \<Rightarrow> u32 \<Rightarrow> nat \<Rightarrow> nat \<Rightarrow> dload_state \<times> u32 \<times> nat \<times> nat \<times> nat" where
  "c6_displacement s amt val offset fieldsz =
     (let scale = C60_Scale ! unat (val AND 7);
          val1 = push_bit scale (signed_drop_bit SCALE_BITS val) + amt;
          s1 = (if (push_bit scale 1 - 1) AND val1 \<noteq> 0 then dload_error s Unaligned_reference else s)
      in (s1, val1, offset + SCALE_BITS, fieldsz - SCALE_BITS, scale))"

definition perform_action ::
    "Dload_Actions \<Rightarrow> dload_state \<Rightarrow> reloc_record \<Rightarrow> u32 \<Rightarrow> Local_Symbol option \<Rightarrow> u32 option option
     \<Rightarrow> u32 \<Rightarrow> nat \<Rightarrow> nat \<Rightarrow> nat \<Rightarrow> (dload_state \<times> u32 \<times> nat \<times> nat \<times> nat) option" where
  "perform_action act s rp amt svp st val offset fieldsz scale =
     (case act of
        RACT_C6SECT \<Rightarrow> do { amt1 \<leftarrow> c6_section s rp svp amt; (s1, amt2) \<leftarrow> c6_base s amt1;
          Some (c6_displacement s1 amt2 val offset fieldsz) }
      | RACT_C6BASE \<Rightarrow> do { (s1, amt1) \<leftarrow> c6_base s amt; Some (c6_displacement s1 amt1 val offset fieldsz) }
      | RACT_C6DSPL \<Rightarrow> Some (c6_displacement s amt val offset fieldsz)
      | _ \<Rightarrow> do { v \<leftarrow> act_value act s rp amt st val; Some (s, v, offset, fieldsz, scale) })"

text \<open>
  \<open>dload_relocate\<close> after the look-up of the operation: the stack adjustment, the field, the
  reading, the action and the result. \<open>top\<close> is the stack use of the operation and then the new
  stack index; \<open>stackp\<close> is \<open>NULL\<close> exactly when the operation does not use the stack.
\<close>

definition relocate_with :: "dload_state \<Rightarrow> u8 list \<Rightarrow> reloc_record \<Rightarrow> nat \<Rightarrow> nat \<Rightarrow> (dload_state \<times> u8 list) option" where
  "relocate_with s img rp reloc_action reloc_info = do {
     (amt, svp) \<leftarrow> reloc_amount s reloc_info rp;
     let uses = RFV_STK reloc_info;
     let top = (if uses = 0 then 0 else int uses + relstkidx s - RSTK_UOP);
     (if uses \<noteq> 0 \<and> top \<ge> STATIC_EXPR_STK_SIZE then Some (dload_error s Stack_overflow, img)
      else do {
        val0 \<leftarrow> (if uses = 0 then Some 0 else stk_rd (relstk s) (relstkidx s));
        let s1 = (if uses = 0 then s else s\<lparr>relstkidx := top\<rparr>);
        let stackp = (if uses = 0 then None else Some (stk_rd (relstk s) top));
        let touches = (RFV_ACCS reloc_info \<noteq> 0);
        let width = RFV_WIDTH reloc_action;
        let fieldsz = (if \<not> touches then 0 else if width \<noteq> 0 then width else r_fieldsz rp);
        let offset = (if \<not> touches then 0 else if width \<noteq> 0 then RFV_POSN reloc_action else r_offset rp);
        let scale = (if touches then RFV_SCALE reloc_info else 0);
        dp \<leftarrow> (if touches \<and> sint (r_vaddr rp) < 0 then None else Some (nat (sint (r_vaddr rp))));
        val1 \<leftarrow> (if RFV_ACCS reloc_info AND ROP_R \<noteq> 0
                 then do { v \<leftarrow> dload_unpack img dp fieldsz offset (RFV_SIGN reloc_info); Some (push_bit scale v) }
                 else Some val0);
        act \<leftarrow> rd actions (RFV_ACTION reloc_action);
        (s2, val2, offset2, fieldsz2, scale2) \<leftarrow> perform_action act s1 rp amt svp stackp val1 offset fieldsz scale;
        (if RFV_ACCS reloc_info AND ROP_W \<noteq> 0 then do {
           (img', ovf) \<leftarrow> dload_repack (signed_drop_bit scale2 val2) img dp fieldsz2 offset2 (RFV_SIGN reloc_info);
           Some (if ovf then dload_error s2 Value_overflows else s2, img') }
         else if top \<noteq> 0 then do {
           stk \<leftarrow> stk_wr (relstk s2) top val2;
           Some (s2\<lparr>relstk := stk\<rparr>, img) }
         else Some (s2, img)) }) }"

definition dload_relocate :: "dload_state \<Rightarrow> u8 list \<Rightarrow> reloc_record \<Rightarrow> (dload_state \<times> u8 list) option" where
  "dload_relocate s img rp = do {
     let t = unat (r_type rp);
     found \<leftarrow> rop_find t (HASH_FUNC t);
     (case found of
        None \<Rightarrow> Some (if t \<in> {R_C60ALIGN, R_C60NOCMP, R_C60FPHEAD} then s else dload_error s Bad_operator, img)
      | Some rx \<Rightarrow>
          (if rx < length rop_action \<and> rx < length rop_info
           then relocate_with s img rp (rop_action ! rx) (rop_info ! rx)
           else None)) }"

subsection \<open>Bit fields of the image\<close>

definition img_bit :: "u8 list \<Rightarrow> nat \<Rightarrow> bool" where
  "img_bit img k = bit (img ! (k div 8)) (k mod 8)"

lemma field_mask: "0 < fz \<Longrightarrow> push_bit (fz - Suc 0) 2 - 1 = (mask fz :: u32)"
proof -
  assume "0 < fz"
  then have "push_bit (fz - Suc 0) 2 = (2 ^ fz :: u32)" by (cases fz) (simp_all add: push_bit_eq_mult)
  then show ?thesis by (simp add: mask_eq_exp_minus_1)
qed

lemma img_bit_next: "j < 8 \<Longrightarrow> img_bit img (8 * d + j) = bit (img ! d) j"
  by (simp add: img_bit_def)

lemma unpack_loop_bits:
  assumes "shift + base = 8 * (dp + 1)" and "fs < 32" and "base + fs < 8 * length img"
    and "\<And>i. bit objval i \<longleftrightarrow> i < shift \<and> i < 32 \<and> img_bit img (base + i)"
  shows "\<exists>r. unpack_loop img dp objval shift fs = Some r \<and> (\<forall>i \<le> fs. bit r i = img_bit img (base + i))"
  using assms
proof (induction img dp objval shift fs rule: unpack_loop.induct)
  case (1 img dp objval shift fs)
  show ?case
  proof (cases "shift \<le> fs")
    case False
    with 1(5) \<open>fs < 32\<close> show ?thesis by (subst unpack_loop.simps) auto
  next
    case True
    with 1(2,4) have dp: "dp + 1 < length img" by presburger
    let ?b = "img ! (dp + 1)"
    let ?o = "objval + push_bit shift (ucast ?b)"
    have bit_o: "bit ?o i \<longleftrightarrow> i < shift + 8 \<and> i < 32 \<and> img_bit img (base + i)" for i
    proof -
      have "bit ?o i \<longleftrightarrow> bit objval i \<or> bit (push_bit shift (ucast ?b :: u32)) i"
        by (rule bit_disjunctive_add_iff) (auto simp: 1(5) bit_push_bit_iff)
      moreover have "img_bit img (base + i) = bit ?b (i - shift)" if "shift \<le> i" "i < shift + 8"
      proof -
        have "base + i = 8 * (dp + 1) + (i - shift)" using that 1(2) by simp
        then show ?thesis using that by (simp only: img_bit_next)
      qed
      ultimately show ?thesis
        by (cases "i < shift + 8"; cases "shift \<le> i") (auto simp: 1(5) bit_push_bit_iff bit_ucast_iff)
    qed
    have "\<exists>r. unpack_loop img (dp + 1) ?o (shift + 8) fs = Some r \<and> (\<forall>i \<le> fs. bit r i = img_bit img (base + i))"
      by (rule 1(1)) (use True dp 1(2-4) bit_o in \<open>simp_all add: rd_Some_iff\<close>)
    then show ?thesis using True dp by (subst unpack_loop.simps) simp
  qed
qed

lemma first_byte_bits:
  "offset \<le> 8 \<Longrightarrow> bit (drop_bit offset (ucast (img ! dp)) :: u32) i
     \<longleftrightarrow> i < 8 - offset \<and> i < 32 \<and> img_bit img (8 * dp + offset + i)"
  using img_bit_next [of "offset + i" img dp]
  by (cases "offset + i < 8") (auto simp: bit_drop_bit_eq bit_ucast_iff add.assoc)

lemma unpack_raw:
  assumes "0 < fieldsz" "fieldsz \<le> 32" "offset \<le> 8" "8 * dp + offset + fieldsz \<le> 8 * length img" "dp < length img"
  shows "\<exists>r. unpack_loop img dp (drop_bit offset (ucast (img ! dp))) (8 - offset) (fieldsz - 1) = Some r
    \<and> (\<forall>i < fieldsz. bit r i = img_bit img (8 * dp + offset + i))"
proof -
  have "8 - offset + (8 * dp + offset) = 8 * (dp + 1)" "fieldsz - 1 < 32" "8 * dp + offset + (fieldsz - 1) < 8 * length img"
    using assms by simp_all
  from unpack_loop_bits [OF this first_byte_bits [OF assms(3), of img dp]]
  obtain r where "unpack_loop img dp (drop_bit offset (ucast (img ! dp))) (8 - offset) (fieldsz - 1) = Some r"
      "\<forall>i \<le> fieldsz - 1. bit r i = img_bit img (8 * dp + offset + i)" by blast
  with assms(1) show ?thesis by (intro exI [of _ r]) auto
qed

lemma dload_unpack_bits:
  assumes "0 < fieldsz" "fieldsz \<le> 32" "offset \<le> 8" "8 * dp + offset + fieldsz \<le> 8 * length img" "dp < length img"
  shows "\<exists>v. dload_unpack img dp fieldsz offset sg = Some v
    \<and> (\<forall>i < 32. bit v i = (if i < fieldsz then img_bit img (8 * dp + offset + i)
         else sg \<noteq> ROP_UNS \<and> img_bit img (8 * dp + offset + (fieldsz - 1))))"
proof -
  from unpack_raw [OF assms] obtain r where
    r: "unpack_loop img dp (drop_bit offset (ucast (img ! dp))) (8 - offset) (fieldsz - 1) = Some r"
      "\<And>i. i < fieldsz \<Longrightarrow> bit r i = img_bit img (8 * dp + offset + i)" by blast
  show ?thesis
  proof (cases "sg = ROP_UNS")
    case True
    with r assms show ?thesis
      by (auto simp: dload_unpack_def field_mask bit_and_iff bit_mask_iff)
  next
    case False
    have "bit (signed_drop_bit (32 - fieldsz) (push_bit (32 - fieldsz) r)) i = bit r (if i < fieldsz then i else fieldsz - 1)"
      if "i < 32" for i
      using that assms(1,2) by (auto simp: bit_signed_drop_bit_iff bit_push_bit_iff)
    moreover have "31 - (fieldsz - 1) = 32 - fieldsz" using assms(1) by simp
    ultimately show ?thesis using r assms False by (auto simp: dload_unpack_def Let_def)
  qed
qed

lemma img_bit_update:
  "d < length img \<Longrightarrow> img_bit (img[d := b]) k = (if k div 8 = d then bit b (k mod 8) else img_bit img k)"
  by (simp add: img_bit_def nth_list_update)

lemma in_byte: "k div 8 = (d :: nat) \<longleftrightarrow> 8 * d \<le> k \<and> k < 8 * d + 8"
  by auto

lemma drop_mask_zero: "drop_bit sh (mask fz :: u32) = 0 \<longleftrightarrow> fz \<le> sh \<or> 32 \<le> sh"
  by (auto simp: bit_eq_iff bit_drop_bit_eq bit_mask_iff dest: spec [of _ 0])

lemma byte_merge:
  assumes "\<And>n. bit obj n \<Longrightarrow> bit msk n" and "j < 8"
  shows "bit (ucast ((ucast (b :: u8) AND NOT msk) + obj :: u32) :: u8) j = (if bit msk j then bit obj j else bit b j)"
proof -
  have "bit ((ucast b AND NOT msk) + obj) j \<longleftrightarrow> bit (ucast b AND NOT msk) j \<or> bit obj j"
    by (rule bit_disjunctive_add_iff) (use assms(1) in \<open>auto simp: bit_and_iff bit_not_iff\<close>)
  with assms show ?thesis by (auto simp: bit_ucast_iff bit_and_iff bit_not_iff)
qed

lemma repack_loop_bits:
  assumes "sh + base = 8 * (dp + 1)" and "fz \<le> 32" and "base + fz \<le> 8 * length img"
  shows "\<exists>img'. repack_loop img dp (drop_bit sh (val AND mask fz)) (drop_bit sh (mask fz)) = Some img'
    \<and> length img' = length img
    \<and> (\<forall>k. img_bit img' k = (if 8 * (dp + 1) \<le> k \<and> k < base + fz then bit val (k - base) else img_bit img k))"
  using assms
proof (induction "fz - sh" arbitrary: sh dp img rule: less_induct)
  case less
  show ?case
  proof (cases "fz \<le> sh")
    case True
    then have z: "drop_bit sh (mask fz :: u32) = 0" by (simp add: drop_mask_zero)
    from True less.prems(1) have "base + fz \<le> 8 * (dp + 1)" by simp
    with z show ?thesis by (subst repack_loop.simps) auto
  next
    case False
    with less.prems(2) have nz: "drop_bit sh (mask fz :: u32) \<noteq> 0" by (simp add: drop_mask_zero)
    from False less.prems(1,3) have dp: "dp + 1 < length img" by presburger
    let ?obj = "drop_bit sh (val AND mask fz)" and ?msk = "drop_bit sh (mask fz) :: u32"
    let ?b = "ucast ((ucast (img ! (dp + 1)) AND NOT ?msk) + ?obj) :: u8"
    let ?img = "img[dp + 1 := ?b]"
    have s: "drop_bit 8 (drop_bit sh x) = drop_bit (sh + 8) (x :: u32)" for x by (simp add: add.commute)
    have bb: "bit ?b j = (if sh + j < fz then bit val (sh + j) else bit (img ! (dp + 1)) j)" if "j < 8" for j
    proof -
      have "bit ?b j = (if bit ?msk j then bit ?obj j else bit (img ! (dp + 1)) j)"
        by (rule byte_merge) (use that in \<open>auto simp: bit_drop_bit_eq bit_and_iff\<close>)
      then show ?thesis using less.prems(2) by (auto simp: bit_drop_bit_eq bit_and_iff bit_mask_iff)
    qed
    have "fz - (sh + 8) < fz - sh" "sh + 8 + base = 8 * (dp + 1 + 1)" "base + fz \<le> 8 * length ?img"
      using False less.prems(1,3) by simp_all
    from less.hyps [OF this(1,2) less.prems(2) this(3)] obtain img' where
      i: "repack_loop ?img (dp + 1) (drop_bit (sh + 8) (val AND mask fz)) (drop_bit (sh + 8) (mask fz)) = Some img'"
        "length img' = length ?img"
        "\<And>k. img_bit img' k = (if 8 * (dp + 1 + 1) \<le> k \<and> k < base + fz then bit val (k - base) else img_bit ?img k)"
      by blast
    have "img_bit img' k = (if 8 * (dp + 1) \<le> k \<and> k < base + fz then bit val (k - base) else img_bit img k)" for k
    proof (cases "k div 8 = dp + 1")
      case True
      then have k: "8 * (dp + 1) \<le> k" "k < 8 * (dp + 1) + 8" by (simp_all add: in_byte)
      then have "k mod 8 = k - 8 * (dp + 1)" using True by (metis minus_mult_div_eq_mod)
      then have e: "sh + k mod 8 = k - base" using less.prems(1) k by simp
      have "base \<le> k" using less.prems(1) k by linarith
      with e have "sh + k mod 8 < fz \<longleftrightarrow> k < base + fz" by (simp add: less_diff_conv2 add.commute)
      with e bb [of "k mod 8"] k True i(3) [of k] dp show ?thesis by (simp add: img_bit_update) (simp add: img_bit_def)
    next
      case False
      with i(3) [of k] dp show ?thesis by (auto simp: img_bit_update in_byte)
    qed
    with i(1,2) nz dp show ?thesis
      by (subst repack_loop.simps) (simp add: s del: drop_bit_drop_bit)
  qed
qed

lemma dload_repack_bits:
  assumes "0 < fieldsz" "fieldsz \<le> 32" "offset \<le> 8" "8 * dp + offset + fieldsz \<le> 8 * length img" "dp < length img"
  shows "\<exists>img'. dload_repack val img dp fieldsz offset sg = Some (img', repack_overflows val fieldsz sg)
    \<and> length img' = length img
    \<and> (\<forall>k. img_bit img' k = (if 8 * dp + offset \<le> k \<and> k < 8 * dp + offset + fieldsz
          then bit val (k - (8 * dp + offset)) else img_bit img k))"
proof -
  let ?m = "mask fieldsz :: u32"
  let ?b = "ucast ((ucast (img ! dp) AND NOT (push_bit offset ?m)) + push_bit offset (val AND ?m)) :: u8"
  let ?img = "img[dp := ?b]"
  have bb: "bit ?b j = (if offset \<le> j \<and> j < offset + fieldsz then bit val (j - offset) else bit (img ! dp) j)"
    if "j < 8" for j
  proof -
    have "bit ?b j = (if bit (push_bit offset ?m) j then bit (push_bit offset (val AND ?m)) j else bit (img ! dp) j)"
      by (rule byte_merge) (use that in \<open>auto simp: bit_push_bit_iff bit_and_iff\<close>)
    then show ?thesis using that assms by (auto simp: bit_push_bit_iff bit_and_iff bit_mask_iff)
  qed
  have "8 - offset + (8 * dp + offset) = 8 * (dp + 1)" using assms(3) by simp
  from repack_loop_bits [OF this assms(2), of ?img val] assms(4) obtain img' where
    i: "repack_loop ?img dp (drop_bit (8 - offset) (val AND ?m)) (drop_bit (8 - offset) ?m) = Some img'"
      "length img' = length img"
      "\<And>k. img_bit img' k = (if 8 * (dp + 1) \<le> k \<and> k < 8 * dp + offset + fieldsz
         then bit val (k - (8 * dp + offset)) else img_bit ?img k)"
    by auto
  have "img_bit img' k = (if 8 * dp + offset \<le> k \<and> k < 8 * dp + offset + fieldsz
      then bit val (k - (8 * dp + offset)) else img_bit img k)" for k
  proof (cases "k div 8 = dp")
    case True
    then have k: "8 * dp \<le> k" "k < 8 * dp + 8" by (simp_all add: in_byte)
    then have "k mod 8 = k - 8 * dp" using True by (metis minus_mult_div_eq_mod)
    then have "offset \<le> k mod 8 \<longleftrightarrow> 8 * dp + offset \<le> k" "k mod 8 - offset = k - (8 * dp + offset)"
      "k mod 8 < offset + fieldsz \<longleftrightarrow> k < 8 * dp + offset + fieldsz" using k by auto
    with bb [of "k mod 8"] k True i(3) [of k] assms(5) show ?thesis
      by (simp add: img_bit_update) (simp add: img_bit_def)
  next
    case False
    with i(3) [of k] assms(5,3) show ?thesis by (auto simp: img_bit_update in_byte)
  qed
  with i(1,2) assms show ?thesis
    by (simp add: dload_repack_def field_mask Let_def)
qed

subsection \<open>Storing and loading a field\<close>

lemma arith_shift: "sint (signed_drop_bit n (w :: u32)) = sint w div 2 ^ n"
  by (simp add: sint_signed_drop_bit_eq drop_bit_eq_div)

lemma int_le_div: "0 < (q :: int) \<Longrightarrow> a \<le> x div q \<longleftrightarrow> a * q \<le> x"
proof
  assume q: "0 < q" and "a \<le> x div q"
  then have "a * q \<le> x div q * q" by (simp add: mult_right_mono)
  also have "\<dots> \<le> x" using q pos_mod_sign [of q x] by (simp add: minus_mod_eq_div_mult [symmetric])
  finally show "a * q \<le> x" .
next
  assume q: "0 < q" and "a * q \<le> x"
  then have "a * q div q \<le> x div q" by (intro zdiv_mono1)
  with q show "a \<le> x div q" by simp
qed

lemma unat_small_iff:
  assumes "- (2 ^ 31) \<le> x" and "x < 2 ^ 31 + 2"
  shows "unat (word_of_int x :: u32) > L \<longleftrightarrow> \<not> (0 \<le> x \<and> x \<le> int L) \<and> (0 \<le> x \<or> int L < x + 2 ^ 32)"
proof -
  let ?u = "int (unat (word_of_int x :: u32))"
  have u: "?u = x mod 2 ^ 32"
    by (simp add: unsigned_of_int take_bit_eq_mod)
  have l: "unat (word_of_int x :: u32) > L \<longleftrightarrow> int L < ?u" by (simp only: of_nat_less_iff)
  show ?thesis
  proof (cases "0 \<le> x")
    case True
    then have "x mod 2 ^ 32 = x" using assms by (intro mod_pos_pos_trivial) auto
    with True show ?thesis unfolding l u by auto
  next
    case False
    then have "(x + 2 ^ 32) mod 2 ^ 32 = x + 2 ^ 32" using assms(1) by (intro mod_pos_pos_trivial) auto
    then have "x mod 2 ^ 32 = x + 2 ^ 32" by simp
    with False show ?thesis unfolding l u by auto
  qed
qed

lemma shift_range: "- (2 ^ 31) \<le> sint (w :: u32) div 2 ^ n \<and> sint w div 2 ^ n < 2 ^ 31"
proof -
  have "- (2 ^ 31) \<le> sint (signed_drop_bit n w)" "sint (signed_drop_bit n w) < 2 ^ 31"
    using sint_greater_eq [of "signed_drop_bit n w"] sint_less [of "signed_drop_bit n w"] by simp_all
  then show ?thesis by (simp add: arith_shift)
qed

lemma overflow_word:
  "signed_drop_bit n (w :: u32) + of_nat c = word_of_int (sint w div 2 ^ n + int c)"
proof -
  have "signed_drop_bit n w = word_of_int (sint (signed_drop_bit n w))" by simp
  then show ?thesis by (simp only: arith_shift) simp
qed

text \<open>
  The overflow check, in terms of the range of the field: it is exact for signed fields and for
  fields that may be read either way, but for an unsigned field of width \<open>n\<close> it lets the values
  from \<open>2 ^ n\<close> up to half as much again through (the limit is 2 where it should be 1).
\<close>

lemma repack_overflows_range:
  assumes "0 < n" and "n \<le> 32"
  shows "repack_overflows val n ROP_SGN \<longleftrightarrow> \<not> (- (2 ^ (n - 1)) \<le> sint val \<and> sint val < 2 ^ (n - 1))"
    and "repack_overflows val n ROP_MAX \<longleftrightarrow> \<not> (- (2 ^ (n - 1)) \<le> sint val \<and> sint val < 2 ^ n)"
    and "repack_overflows val n ROP_UNS \<longleftrightarrow> \<not> (0 \<le> sint val \<and> sint val < 3 * 2 ^ (n - 1))"
    and "\<not> repack_overflows val n ROP_ANY"
proof -
  let ?x = "sint val div 2 ^ (n - 1)"
  have r: "- (2 ^ 31) \<le> ?x" "?x < 2 ^ 31" using shift_range [of val "n - 1"] by simp_all
  have div: "a \<le> ?x \<longleftrightarrow> a * 2 ^ (n - 1) \<le> sint val" for a
    by (rule int_le_div) simp
  have lt: "?x < a \<longleftrightarrow> sint val < a * 2 ^ (n - 1)" for a
    using div [of a] by linarith
  have p: "(2 :: int) ^ n = 2 * 2 ^ (n - 1)" using assms(1) by (cases n) simp_all
  have s: "repack_overflows val n ROP_SGN \<longleftrightarrow> \<not> (- 1 \<le> ?x \<and> ?x < 1)"
    using unat_small_iff [of "?x + 1" 1] r
    by (auto simp: repack_overflows_def ROP_SGN_def ovf_limit_def overflow_word [of _ _ 1, simplified])
  have m: "repack_overflows val n ROP_MAX \<longleftrightarrow> \<not> (- 1 \<le> ?x \<and> ?x < 2)"
    using unat_small_iff [of "?x + 1" 2] r
    by (auto simp: repack_overflows_def ROP_MAX_def ovf_limit_def overflow_word [of _ _ 1, simplified])
  have u: "repack_overflows val n ROP_UNS \<longleftrightarrow> \<not> (0 \<le> ?x \<and> ?x < 3)"
    using unat_small_iff [of "?x" 2] r
    by (auto simp: repack_overflows_def ROP_UNS_def ovf_limit_def overflow_word [of _ _ 0, simplified])
  show "repack_overflows val n ROP_SGN \<longleftrightarrow> \<not> (- (2 ^ (n - 1)) \<le> sint val \<and> sint val < 2 ^ (n - 1))"
    unfolding s div lt by simp
  show "repack_overflows val n ROP_MAX \<longleftrightarrow> \<not> (- (2 ^ (n - 1)) \<le> sint val \<and> sint val < 2 ^ n)"
    unfolding m div lt p by simp
  show "repack_overflows val n ROP_UNS \<longleftrightarrow> \<not> (0 \<le> sint val \<and> sint val < 3 * 2 ^ (n - 1))"
    unfolding u div lt by simp
  show "\<not> repack_overflows val n ROP_ANY" by (simp add: repack_overflows_def ROP_ANY_def)
qed

lemma signed_range_bits:
  assumes "0 < n" and "- (2 ^ (n - 1)) \<le> sint (val :: u32)" and "sint val < 2 ^ (n - 1)" and "n \<le> i" and "i < 32"
  shows "bit val i = bit val (n - 1)"
proof -
  have b: "bit val j = bit (sint val) j" if "j < 32" for j using that by (simp add: bit_sint_iff)
  have e: "signed_take_bit (n - 1) (sint val) = sint val"
    using assms(2,3) by (simp add: signed_take_bit_int_eq_self_iff)
  have m: "min (n - 1) i = n - 1" using assms(4) by simp
  have "bit (sint val) i = bit (signed_take_bit (n - 1) (sint val)) i" by (simp only: e)
  also have "\<dots> = bit (sint val) (n - 1)" by (simp only: bit_signed_take_bit_iff m) simp
  finally show ?thesis using b [of i] b [of "n - 1"] assms by simp
qed

lemma repack_unpack_field:
  assumes "0 < n" "n \<le> 32" "offset \<le> 8" "8 * dp + offset + n \<le> 8 * length img" "dp < length img"
  shows "\<exists>img' ovf. dload_repack val img dp n offset ROP_SGN = Some (img', ovf) \<and> length img' = length img
    \<and> (\<forall>k. \<not> (8 * dp + offset \<le> k \<and> k < 8 * dp + offset + n) \<longrightarrow> img_bit img' k = img_bit img k)
    \<and> (ovf \<longleftrightarrow> \<not> (- (2 ^ (n - 1)) \<le> sint val \<and> sint val < 2 ^ (n - 1)))
    \<and> (\<not> ovf \<longrightarrow> dload_unpack img' dp n offset ROP_SGN = Some val)
    \<and> dload_unpack img' dp n offset ROP_UNS = Some (val AND mask n)"
proof -
  from dload_repack_bits [OF assms, of val ROP_SGN] obtain img' where
    i: "dload_repack val img dp n offset ROP_SGN = Some (img', repack_overflows val n ROP_SGN)" "length img' = length img"
      "\<And>k. img_bit img' k = (if 8 * dp + offset \<le> k \<and> k < 8 * dp + offset + n
          then bit val (k - (8 * dp + offset)) else img_bit img k)" by blast
  note r = repack_overflows_range(1) [OF assms(1,2), of val]
  have a: "8 * dp + offset + n \<le> 8 * length img'" "dp < length img'" using assms i(2) by simp_all
  have s: "dload_unpack img' dp n offset ROP_SGN = Some val" if "\<not> repack_overflows val n ROP_SGN"
  proof -
    from dload_unpack_bits [OF assms(1-3) a, of ROP_SGN] obtain v where
      v: "dload_unpack img' dp n offset ROP_SGN = Some v"
        "\<And>i. i < 32 \<Longrightarrow> bit v i = (if i < n then img_bit img' (8 * dp + offset + i) else img_bit img' (8 * dp + offset + (n - 1)))"
      by (auto simp: ROP_SGN_def ROP_UNS_def)
    have "v = val"
      by (rule bit_word_eqI) (use v(2) i(3) that r signed_range_bits [OF assms(1), of val] assms(1) in auto)
    with v(1) show ?thesis by simp
  qed
  from dload_unpack_bits [OF assms(1-3) a, of ROP_UNS] obtain v where
    v: "dload_unpack img' dp n offset ROP_UNS = Some v"
      "\<And>i. i < 32 \<Longrightarrow> bit v i = (i < n \<and> img_bit img' (8 * dp + offset + i))" by auto
  have "v = val AND mask n"
    by (rule bit_word_eqI) (use v(2) i(3) in \<open>auto simp: bit_and_iff bit_mask_iff\<close>)
  with i s r v(1) show ?thesis by auto
qed

text \<open>
  C27: Storing a value in a field of the image and reading it back: the store succeeds for every field
  of at most 32 bits that lies in the image, changes only the bits of the field, and reports an
  overflow of a signed field exactly when the value is outside its range; when it reports none,
  the signed reading of the field is the value stored, and the unsigned reading gives the low
  bits of any value stored.
\<close>

theorem dload_repack_unpack:
  assumes "0 < n" "n \<le> 32" "offset \<le> 8" "8 * dp + offset + n \<le> 8 * length img" "dp < length img"
  shows "\<exists>img' ovf. dload_repack val img dp n offset ROP_SGN = Some (img', ovf) \<and> length img' = length img
    \<and> (\<forall>k. \<not> (8 * dp + offset \<le> k \<and> k < 8 * dp + offset + n) \<longrightarrow> img_bit img' k = img_bit img k)
    \<and> (ovf \<longleftrightarrow> \<not> (- (2 ^ (n - 1)) \<le> sint val \<and> sint val < 2 ^ (n - 1)))
    \<and> (\<not> ovf \<longrightarrow> dload_unpack img' dp n offset ROP_SGN = Some val)
    \<and> dload_unpack img' dp n offset ROP_UNS = Some (val AND mask n)"
  by (rule repack_unpack_field [OF assms])

theorem dload_repack_unpack_witness:
  "dload_unpack [0x21, 0x65, 0x87] 0 7 3 ROP_UNS = Some 0x24
   \<and> (\<exists>img'. dload_repack (- 5) [0x21, 0x65, 0x87] 0 7 3 ROP_SGN = Some (img', False)
        \<and> dload_unpack img' 0 7 3 ROP_SGN = Some (- 5))"
proof -
  have "dload_unpack [0x21, 0x65, 0x87] 0 7 3 ROP_UNS = Some 0x24" by code_simp
  moreover from dload_repack_unpack [of 7 3 0 "[0x21, 0x65, 0x87]" "- 5"]
  have "\<exists>img'. dload_repack (- 5) [0x21, 0x65, 0x87] 0 7 3 ROP_SGN = Some (img', False)
        \<and> dload_unpack img' 0 7 3 ROP_SGN = Some (- 5)" by auto
  ultimately show ?thesis by blast
qed

text \<open>
  The range check of the unsigned and of the sign-agnostic fields: the second is exact, the first
  accepts values up to half as large again as the field can hold, of which only the low bits are
  stored.
\<close>

theorem dload_repack_unsigned_overflow:
  assumes "0 < n" "n \<le> 32" "offset \<le> 8" "8 * dp + offset + n \<le> 8 * length img" "dp < length img"
  shows "(\<exists>img' ovf. dload_repack val img dp n offset ROP_UNS = Some (img', ovf)
      \<and> (ovf \<longleftrightarrow> \<not> (0 \<le> sint val \<and> sint val < 3 * 2 ^ (n - 1)))
      \<and> dload_unpack img' dp n offset ROP_UNS = Some (val AND mask n))
    \<and> (\<exists>img' ovf. dload_repack val img dp n offset ROP_MAX = Some (img', ovf)
      \<and> (ovf \<longleftrightarrow> \<not> (- (2 ^ (n - 1)) \<le> sint val \<and> sint val < 2 ^ n)))"
proof
  from dload_repack_bits [OF assms, of val ROP_UNS] obtain img' where
    i: "dload_repack val img dp n offset ROP_UNS = Some (img', repack_overflows val n ROP_UNS)" "length img' = length img"
      "\<And>k. img_bit img' k = (if 8 * dp + offset \<le> k \<and> k < 8 * dp + offset + n
          then bit val (k - (8 * dp + offset)) else img_bit img k)" by blast
  have a: "8 * dp + offset + n \<le> 8 * length img'" "dp < length img'" using assms i(2) by simp_all
  from dload_unpack_bits [OF assms(1-3) a, of ROP_UNS] obtain v where
    v: "dload_unpack img' dp n offset ROP_UNS = Some v"
      "\<And>i. i < 32 \<Longrightarrow> bit v i = (i < n \<and> img_bit img' (8 * dp + offset + i))" by auto
  have "v = val AND mask n"
    by (rule bit_word_eqI) (use v(2) i(3) in \<open>auto simp: bit_and_iff bit_mask_iff\<close>)
  with i v(1) show "\<exists>img' ovf. dload_repack val img dp n offset ROP_UNS = Some (img', ovf)
      \<and> (ovf \<longleftrightarrow> \<not> (0 \<le> sint val \<and> sint val < 3 * 2 ^ (n - 1)))
      \<and> dload_unpack img' dp n offset ROP_UNS = Some (val AND mask n)"
    using repack_overflows_range(3) [OF assms(1,2), of val] by auto
  from dload_repack_bits [OF assms, of val ROP_MAX]
  show "\<exists>img' ovf. dload_repack val img dp n offset ROP_MAX = Some (img', ovf)
      \<and> (ovf \<longleftrightarrow> \<not> (- (2 ^ (n - 1)) \<le> sint val \<and> sint val < 2 ^ n))"
    using repack_overflows_range(2) [OF assms(1,2), of val] by auto
qed

theorem dload_repack_unsigned_overflow_witness:
  "\<exists>img'. dload_repack 300 [0, 0] 0 8 0 ROP_UNS = Some (img', False) \<and> dload_unpack img' 0 8 0 ROP_UNS = Some 44"
proof -
  have "(300 :: u32) AND mask 8 = 44" by code_simp
  with dload_repack_unsigned_overflow [of 8 0 0 "[0, 0]" 300] show ?thesis by auto
qed

subsection \<open>The look-up against the table\<close>

text \<open>Linear search in the table, the reference for the hashed look-up.\<close>

definition table_index :: "nat \<Rightarrow> nat option" where
  "table_index t = map_option (\<lambda>rx. nat (HASH_I (rop_map2 ! rx))) (first_index (\<lambda>m. m = t) rop_map1)"

lemma HASH_FUNC_less: "HASH_FUNC t < 64"
  by (simp add: HASH_FUNC_def)

text \<open>The look-up takes at most two steps.\<close>

definition rop_hit :: "nat \<Rightarrow> nat \<Rightarrow> nat option option \<Rightarrow> nat option option" where
  "rop_hit t rx other = (if rop_map1 ! rx = t then Some (Some (nat (HASH_I (rop_map2 ! rx)))) else other)"

definition rop_two :: "nat \<Rightarrow> nat \<Rightarrow> nat option option" where
  "rop_two t rx = rop_hit t rx (if HASH_L (rop_map2 ! rx) < 0 then Some None
     else rop_hit t (nat (HASH_L (rop_map2 ! rx))) (Some None))"

lemma rop_find_last: "rx < 64 \<Longrightarrow> HASH_L (rop_map2 ! rx) < 0 \<Longrightarrow> rop_find t rx = rop_hit t rx (Some None)"
  by (subst rop_find.simps) (simp add: rop_hit_def)

lemma rop_find_two: "rx < 64 \<Longrightarrow> rop_find t rx = rop_two t rx"
  using chain_end [of rx]
  by (subst rop_find.simps) (auto simp: rop_two_def rop_hit_def rop_find_last)

lemma rop_find_unknown: "t \<notin> set rop_map1 \<Longrightarrow> rx < 64 \<Longrightarrow> rop_find t rx = Some None"
  using chain_end [of rx] nth_mem [of rx rop_map1] nth_mem [of "nat (HASH_L (rop_map2 ! rx))" rop_map1]
  by (cases "HASH_L (rop_map2 ! rx) < 0") (auto simp: rop_find_two rop_two_def rop_hit_def)

lemma rop_find_known: "t \<in> set rop_map1 \<Longrightarrow> t \<noteq> 65535 \<Longrightarrow> rop_find t (HASH_FUNC t) = Some (table_index t)"
proof -
  have "list_all (\<lambda>t. rop_two t (HASH_FUNC t) = Some (table_index t)) (filter (\<lambda>t. t \<noteq> 65535) rop_map1)"
    by (simp add: rop_two_def rop_hit_def table_index_def rop_map1_def rop_map2_def HASH_FUNC_def HASH_L_def HASH_I_def)
  then show "t \<in> set rop_map1 \<Longrightarrow> t \<noteq> 65535 \<Longrightarrow> rop_find t (HASH_FUNC t) = Some (table_index t)"
    by (simp add: list_all_iff rop_find_two HASH_FUNC_less)
qed

lemma table_index_less: "table_index t = Some rx \<Longrightarrow> t \<noteq> 65535 \<Longrightarrow> rx < 48"
proof -
  assume t: "table_index t = Some rx" "t \<noteq> 65535"
  then obtain k where k: "first_index (\<lambda>m. m = t) rop_map1 = Some k" "rx = nat (HASH_I (rop_map2 ! k))"
    by (auto simp: table_index_def)
  from first_index_Some [OF k(1)] have "k < 64" "rop_map1 ! k = t" by auto
  moreover have "list_all (\<lambda>(m, l). m \<noteq> 65535 \<longrightarrow> nat (HASH_I l) < 48) (zip rop_map1 rop_map2)"
    by (simp add: rop_map1_def rop_map2_def HASH_I_def)
  then have "rop_map1 ! k \<noteq> 65535 \<longrightarrow> nat (HASH_I (rop_map2 ! k)) < 48" if "k < 64" for k
    using that by (auto simp: list_all_length)
  ultimately show ?thesis using t(2) k(2) by auto
qed

lemma relocate_dispatch:
  "dload_relocate s img rp =
    (if unat (r_type rp) = 65535 then None
     else case table_index (unat (r_type rp)) of
       Some rx \<Rightarrow> relocate_with s img rp (rop_action ! rx) (rop_info ! rx)
     | None \<Rightarrow> if unat (r_type rp) \<in> {R_C60ALIGN, R_C60NOCMP, R_C60FPHEAD} then Some (s, img)
         else Some (dload_error s Bad_operator, img))"
proof -
  let ?t = "unat (r_type rp)"
  have "rop_two 65535 (HASH_FUNC 65535) = Some (Some 255)"
    by (simp add: rop_two_def rop_hit_def rop_map1_def rop_map2_def HASH_FUNC_def HASH_I_def)
  then have bad: "rop_find 65535 (HASH_FUNC 65535) = Some (Some 255)" by (simp add: rop_find_two HASH_FUNC_less)
  have u: "rop_find ?t (HASH_FUNC ?t) = Some (table_index ?t)" if "?t \<noteq> 65535"
  proof (cases "?t \<in> set rop_map1")
    case True
    with that show ?thesis by (rule rop_find_known [rotated -1])
  next
    case False
    then have "table_index ?t = None" by (auto simp: table_index_def first_index_None)
    with rop_find_unknown [OF False HASH_FUNC_less] show ?thesis by simp
  qed
  show ?thesis
  proof (cases "?t = 65535")
    case True
    with bad show ?thesis by (simp add: dload_relocate_def)
  next
    case False
    with u table_index_less [OF _ False] show ?thesis
      by (auto simp: dload_relocate_def Let_def split: option.splits)
  qed
qed

text \<open>
  The hashed look-up ends for every relocation type and agrees with a search of the table: a type
  of the table is performed with its own action, an alignment, header or compression type is
  ignored, any other type is reported and changes nothing else. The exception is the type
  \<open>65535\<close>, which marks the free entries of the table: it is found there, its index lies outside
  the action table, and after the report the relocation continues with uninitialised variables.
\<close>

theorem dload_relocate_dispatch:
  "dload_relocate s img rp =
    (if unat (r_type rp) = 65535 then None
     else case table_index (unat (r_type rp)) of
       Some rx \<Rightarrow> relocate_with s img rp (rop_action ! rx) (rop_info ! rx)
     | None \<Rightarrow> if unat (r_type rp) \<in> {R_C60ALIGN, R_C60NOCMP, R_C60FPHEAD} then Some (s, img)
         else Some (dload_error s Bad_operator, img))"
  by (rule relocate_dispatch)

lemmas table_index_simps = table_index_def rop_map1_def rop_map2_def HASH_I_def

lemma known_type:
  "unat (r_type rp) = t \<Longrightarrow> t < 65535 \<Longrightarrow> table_index t = Some rx \<Longrightarrow>
    dload_relocate s img rp = relocate_with s img rp (rop_action ! rx) (rop_info ! rx)"
  by (simp add: relocate_dispatch)

text \<open>The actions other than the last three only change the value.\<close>

definition plain_action :: "Dload_Actions \<Rightarrow> bool" where
  "plain_action act \<longleftrightarrow> act \<notin> {RACT_C6SECT, RACT_C6BASE, RACT_C6DSPL}"

lemma perform_plain:
  "plain_action act \<Longrightarrow> perform_action act s rp amt svp st val offset fieldsz scale =
     map_option (\<lambda>v. (s, v, offset, fieldsz, scale)) (act_value act s rp amt st val)"
  by (cases act) (simp_all add: perform_action_def plain_action_def map_option_case split: option.split Option.bind_split)

end
