(* ===== verification/Dload_Fields.thy ===== *)
theory Dload_Fields
  imports Dload_Reloc
begin

section \<open>Relocation of fields\<close>

text \<open>
  What the relocation types that change a field of the image do: \<open>abs_field\<close> lists those that add
  the displacement of the symbol to an address field, \<open>pcr_field\<close> those that adjust a displacement
  relative to the program counter, each with position, width and scale of the field as the tables
  of \<open>reloc_table_c6000.c\<close> give them. The first are shown to relocate the address modulo the width,
  the second to keep the destination of a branch, or to report that it is out of reach.
\<close>

lemma relocate_rw:
  assumes "RFV_ACCS info = 3" "RFV_STK info = 0" "RFV_WIDTH act = n" "0 < n" "reloc_amount s info rp = Some (amt, svp)"
    and "rd actions (RFV_ACTION act) = Some a" "plain_action a" "sint (r_vaddr rp) = int p"
    and "dload_unpack img p n (RFV_POSN act) (RFV_SIGN info) = Some v"
    and "act_value a s rp amt None (push_bit (RFV_SCALE info) v) = Some v2"
    and "dload_repack (signed_drop_bit (RFV_SCALE info) v2) img p n (RFV_POSN act) (RFV_SIGN info) = Some (img', ovf)"
  shows "relocate_with s img rp act info = Some (if ovf then dload_error s Value_overflows else s, img')"
  using assms
  by (simp add: relocate_with_def Let_def ROP_R_def ROP_W_def perform_plain)

lemma field_numbers [simp]: "(3 :: nat) AND 1 = 1" "(3 :: nat) AND 2 = 2" "(3 :: nat) AND Suc 0 = 1"
  by simp_all

lemma word_take_bit_add: "take_bit n (take_bit n (a :: u32) + take_bit n b) = take_bit n (a + b)"
  by transfer (simp add: take_bit_add min_def)

subsection \<open>Address fields\<close>

definition abs_field :: "nat \<Rightarrow> nat option" where
  "abs_field t = map_of [(0x01, 16), (0x02, 16), (0x04, 24), (0x05, 24), (0x06, 32), (0x0F, 8), (0x10, 16), (0x11, 32), (0x20, 16)] t"

lemma abs_field_entry:
  "abs_field t = Some n \<Longrightarrow> \<exists>rx. table_index t = Some rx \<and> rop_info ! rx = 35 \<and> RFV_ACTION (rop_action ! rx) = 2
     \<and> RFV_WIDTH (rop_action ! rx) = n \<and> RFV_POSN (rop_action ! rx) = 0 \<and> 0 < n \<and> n \<le> 32 \<and> t < 65535"
  by (auto simp: abs_field_def table_index_simps rop_info_def rop_action_def RFV_ACTION_def RFV_WIDTH_def RFV_POSN_def
      split: if_splits)

text \<open>
  An address field of the image is relocated by the displacement of the symbol, modulo the width of
  the field: nothing else of the image changes, no error is reported, and the state stays as it was.
\<close>

theorem address_field_relocated:
  assumes "abs_field (unat (r_type rp)) = Some n" and "sint (r_vaddr rp) = int p" and "8 * p + n \<le> 8 * length img"
    and "p < length img" and "unat (r_word rp) < unat (df_no_syms (dfile_hdr s))" and "unat (r_word rp) < length (local_symtab s)"
  shows "\<exists>img' old. dload_relocate s img rp = Some (s, img') \<and> length img' = length img
    \<and> (\<forall>k. \<not> (8 * p \<le> k \<and> k < 8 * p + n) \<longrightarrow> img_bit img' k = img_bit img k)
    \<and> dload_unpack img p n 0 ROP_UNS = Some old
    \<and> dload_unpack img' p n 0 ROP_UNS = Some ((old + ls_delta (local_symtab s ! unat (r_word rp))) AND mask n)"
proof -
  let ?d = "ls_delta (local_symtab s ! unat (r_word rp))"
  from abs_field_entry [OF assms(1)] obtain rx where
    rx: "table_index (unat (r_type rp)) = Some rx" "rop_info ! rx = 35" "RFV_ACTION (rop_action ! rx) = 2"
      "RFV_WIDTH (rop_action ! rx) = n" "RFV_POSN (rop_action ! rx) = 0"
    and n: "0 < n" "n \<le> 32" and t: "unat (r_type rp) < 65535" by blast
  have b: "8 * p + 0 + n \<le> 8 * length img" using assms(3) by simp
  from dload_unpack_bits [OF n _ b assms(4), of 0] obtain v where
    v: "dload_unpack img p n 0 0 = Some v" "\<And>i. i < n \<Longrightarrow> bit v i = img_bit img (8 * p + i)"
    using n by (auto simp: ROP_UNS_def)
  from dload_unpack_bits [OF n _ b assms(4), of ROP_UNS] obtain old where
    o: "dload_unpack img p n 0 ROP_UNS = Some old" "\<And>i. i < 32 \<Longrightarrow> bit old i = (i < n \<and> img_bit img (8 * p + i))" by auto
  from dload_repack_bits [OF n _ b assms(4), of "v + ?d" 0] obtain img' where
    i: "dload_repack (v + ?d) img p n 0 0 = Some (img', False)" "length img' = length img"
      "\<And>k. img_bit img' k = (if 8 * p \<le> k \<and> k < 8 * p + n then bit (v + ?d) (k - 8 * p) else img_bit img k)"
    by (auto simp: repack_overflows_def)
  have "reloc_amount s 35 rp = Some (?d, Some (local_symtab s ! unat (r_word rp)))"
    using assms(5,6) by (simp add: reloc_amount_def RFV_SYM_def ROP_SYMD_def)
  then have "relocate_with s img rp (rop_action ! rx) (rop_info ! rx) = Some (s, img')"
    using relocate_rw [where info = 35 and act = "rop_action ! rx" and n = n and a = RACT_ADD and p = p and v = v
        and ?v2.0 = "v + ?d" and img' = img' and ovf = False and s = s and img = img and rp = rp] rx n v(1) i(1) assms(2)
    by (simp add: RFV_ACCS_def RFV_STK_def RFV_SCALE_def RFV_SIGN_def actions_def plain_action_def)
  with known_type [OF refl t rx(1)] have r: "dload_relocate s img rp = Some (s, img')" by simp
  have b': "8 * p + 0 + n \<le> 8 * length img'" "p < length img'" using b assms(4) i(2) by simp_all
  from dload_unpack_bits [OF n _ b', of ROP_UNS] obtain new where
    nw: "dload_unpack img' p n 0 ROP_UNS = Some new" "\<And>i. i < 32 \<Longrightarrow> bit new i = (i < n \<and> img_bit img' (8 * p + i))" by auto
  have "take_bit n v = take_bit n old" 
    by (intro bit_word_eqI) (use v(2) o(2) n in \<open>auto simp: bit_take_bit_iff\<close>)
  then have "take_bit n (take_bit n v + take_bit n ?d) = take_bit n (take_bit n old + take_bit n ?d)" by (rule arg_cong)
  then have "take_bit n (v + ?d) = take_bit n (old + ?d)" by (simp only: word_take_bit_add)
  moreover have "new = take_bit n (v + ?d)"
    by (rule bit_word_eqI) (use nw(2) i(3) n in \<open>auto simp: bit_take_bit_iff\<close>)
  ultimately have "new = (old + ?d) AND mask n" by (simp add: take_bit_eq_mask)
  with r i(2,3) o(1) nw(1) show ?thesis by auto
qed

definition field_state :: dload_state where
  "field_state = (dload_clear \<lparr>filePointer = None, posn = 0\<rparr> empty_symtab)
     \<lparr>local_symtab := [\<lparr>ls_value = 0x8000, ls_delta = 0x1100, ls_secnn = 1, ls_sclass = 2\<rparr>],
      delta_runaddr := 0x1000,
      dfile_hdr := (dfile_hdr (dload_clear \<lparr>filePointer = None, posn = 0\<rparr> empty_symtab))\<lparr>df_no_syms := 1\<rparr>\<rparr>"

lemma field_state_simps:
  "local_symtab field_state = [\<lparr>ls_value = 0x8000, ls_delta = 0x1100, ls_secnn = 1, ls_sclass = 2\<rparr>]"
  "unat (df_no_syms (dfile_hdr field_state)) = 1" "delta_runaddr field_state = 0x1000"
  by (simp_all add: field_state_def)

theorem address_field_relocated_witness:
  "\<exists>img'. dload_relocate field_state [0, 0x34, 0x12, 7] \<lparr>r_vaddr = 1, r_word = 0, r_disp = 0, r_type = 0x10\<rparr> = Some (field_state, img')
    \<and> dload_unpack img' 1 16 0 ROP_UNS = Some 0x2334"
proof -
  have "dload_unpack [0, 0x34, 0x12, 7] 1 16 0 ROP_UNS = Some 0x1234" by code_simp
  moreover have "(0x2334 :: u32) AND mask 16 = 0x2334" by code_simp
  ultimately show ?thesis
    using address_field_relocated [of "\<lparr>r_vaddr = 1, r_word = 0, r_disp = 0, r_type = 0x10\<rparr>" 16 1 "[0, 0x34, 0x12, 7]" field_state]
    by (auto simp: field_state_simps abs_field_def)
qed

subsection \<open>Branch displacements\<close>

text \<open>Position, width and scale of the displacements relative to the program counter.\<close>

definition pcr_field :: "nat \<Rightarrow> (nat \<times> nat \<times> nat) option" where
  "pcr_field t = map_of [(0x12, (0, 8, 0)), (0x13, (0, 16, 0)), (0x14, (0, 32, 0)), (0x15, (0, 24, 0)), (0x52, (7, 21, 2)),
     (0x70, (7, 7, 2)), (0x71, (0, 13, 2))] t"

lemma pcr_field_cases:
  assumes "pcr_field t = Some (pos, n, sc)"
  shows "t = 0x12 \<and> pos = 0 \<and> n = 8 \<and> sc = 0 \<or> t = 0x13 \<and> pos = 0 \<and> n = 16 \<and> sc = 0 \<or> t = 0x14 \<and> pos = 0 \<and> n = 32 \<and> sc = 0
    \<or> t = 0x15 \<and> pos = 0 \<and> n = 24 \<and> sc = 0 \<or> t = 0x52 \<and> pos = 7 \<and> n = 21 \<and> sc = 2 \<or> t = 0x70 \<and> pos = 7 \<and> n = 7 \<and> sc = 2
    \<or> t = 0x71 \<and> pos = 0 \<and> n = 13 \<and> sc = 2"
  using assms by (simp add: pcr_field_def split: if_splits)

lemma pcr_field_entry:
  "pcr_field t = Some (pos, n, sc) \<Longrightarrow> \<exists>rx. table_index t = Some rx \<and> RFV_ACCS (rop_info ! rx) = 3 \<and> RFV_SIGN (rop_info ! rx) = ROP_SGN
     \<and> RFV_STK (rop_info ! rx) = 0 \<and> RFV_SYM (rop_info ! rx) = ROP_SYMD \<and> RFV_SCALE (rop_info ! rx) = sc
     \<and> RFV_ACTION (rop_action ! rx) = 3 \<and> RFV_WIDTH (rop_action ! rx) = n \<and> RFV_POSN (rop_action ! rx) = pos
     \<and> 0 < n \<and> n \<le> 32 \<and> pos \<le> 8 \<and> sc < 32 \<and> t < 65535"
  by (drule pcr_field_cases, elim disjE conjE)
    (simp_all add: table_index_simps rop_info_def rop_action_def RFV_ACTION_def RFV_WIDTH_def RFV_POSN_def
      RFV_ACCS_def RFV_SIGN_def RFV_STK_def RFV_SYM_def RFV_SCALE_def ROP_SGN_def ROP_SYMD_def)

lemma push_signed_drop: "take_bit sc (w :: u32) = 0 \<Longrightarrow> push_bit sc (signed_drop_bit sc w) = w"
proof (rule bit_word_eqI)
  fix i assume z: "take_bit sc w = 0" and i: "i < LENGTH(32)"
  show "bit (push_bit sc (signed_drop_bit sc w)) i = bit w i"
  proof (cases "i < sc")
    case True
    have "bit (take_bit sc w) i = bit w i" using True by (simp add: bit_take_bit_iff)
    with z True show ?thesis by (simp add: bit_push_bit_iff)
  next
    case False
    then have "sc \<le> i" by simp
    moreover have "\<not> 32 - sc \<le> i - sc" using i \<open>sc \<le> i\<close> by simp
    ultimately show ?thesis using i by (simp add: bit_push_bit_iff bit_signed_drop_bit_iff)
  qed
qed

lemma take_bit_push_add: "take_bit sc x = 0 \<Longrightarrow> take_bit sc (push_bit sc v + x :: u32) = 0"
proof -
  assume x: "take_bit sc x = 0"
  have "take_bit sc (push_bit sc v :: u32) = 0"
    by (rule bit_word_eqI) (simp add: bit_take_bit_iff bit_push_bit_iff)
  with x word_take_bit_add [of sc "push_bit sc v" x] show ?thesis by simp
qed

text \<open>
  C29: A branch keeps its destination: where the displacement has moved by a multiple of its scale and
  no overflow is reported, the new displacement leads from the new place of the branch to the old
  destination moved with its symbol. An overflow is reported exactly when that displacement does
  not fit the field; nothing else of the image changes either way.
\<close>

theorem branch_keeps_destination:
  assumes "pcr_field (unat (r_type rp)) = Some (pos, n, sc)" and "sint (r_vaddr rp) = int p"
    and "8 * p + pos + n \<le> 8 * length img" and "p < length img"
    and "unat (r_word rp) < unat (df_no_syms (dfile_hdr s))" and "unat (r_word rp) < length (local_symtab s)"
    and "r_symndx rp \<noteq> - 1" and "moved = ls_delta (local_symtab s ! unat (r_word rp))"
    and "take_bit sc (moved - delta_runaddr s) = 0"
  shows "\<exists>img' v v' ovf. dload_unpack img p n pos ROP_SGN = Some v
    \<and> dload_relocate s img rp = Some (if ovf then dload_error s Value_overflows else s, img')
    \<and> (\<forall>k. \<not> (8 * p + pos \<le> k \<and> k < 8 * p + pos + n) \<longrightarrow> img_bit img' k = img_bit img k)
    \<and> (\<forall>pc. pc + delta_runaddr s + push_bit sc v' = pc + push_bit sc v + moved)
    \<and> (ovf \<longleftrightarrow> \<not> (- (2 ^ (n - 1)) \<le> sint v' \<and> sint v' < 2 ^ (n - 1)))
    \<and> (\<not> ovf \<longrightarrow> dload_unpack img' p n pos ROP_SGN = Some v')"
proof -
  from pcr_field_entry [OF assms(1)] obtain rx where
    rx: "table_index (unat (r_type rp)) = Some rx" "RFV_ACCS (rop_info ! rx) = 3" "RFV_SIGN (rop_info ! rx) = ROP_SGN"
      "RFV_STK (rop_info ! rx) = 0" "RFV_SYM (rop_info ! rx) = ROP_SYMD" "RFV_SCALE (rop_info ! rx) = sc"
      "RFV_ACTION (rop_action ! rx) = 3" "RFV_WIDTH (rop_action ! rx) = n" "RFV_POSN (rop_action ! rx) = pos"
    and n: "0 < n" "n \<le> 32" "pos \<le> 8" and t: "unat (r_type rp) < 65535" by blast
  from dload_unpack_bits [OF n assms(3,4), of ROP_SGN] obtain v where
    v: "dload_unpack img p n pos ROP_SGN = Some v" by blast
  let ?x = "moved - delta_runaddr s" and ?v2 = "push_bit sc v + (moved - delta_runaddr s)"
  let ?v' = "signed_drop_bit sc ?v2"
  from repack_unpack_field [OF n assms(3,4), of ?v'] obtain img' ovf where
    i: "dload_repack ?v' img p n pos ROP_SGN = Some (img', ovf)"
      "\<forall>k. \<not> (8 * p + pos \<le> k \<and> k < 8 * p + pos + n) \<longrightarrow> img_bit img' k = img_bit img k"
      "ovf \<longleftrightarrow> \<not> (- (2 ^ (n - 1)) \<le> sint ?v' \<and> sint ?v' < 2 ^ (n - 1))"
      "\<not> ovf \<longrightarrow> dload_unpack img' p n pos ROP_SGN = Some ?v'" by blast
  have "reloc_amount s (rop_info ! rx) rp = Some (moved, Some (local_symtab s ! unat (r_word rp)))"
    using assms(5,6,8) rx(5) by (simp add: reloc_amount_def ROP_SYMD_def)
  then have "relocate_with s img rp (rop_action ! rx) (rop_info ! rx) = Some (if ovf then dload_error s Value_overflows else s, img')"
    using relocate_rw [where info = "rop_info ! rx" and act = "rop_action ! rx" and n = n and a = RACT_PCR and p = p and v = v
        and ?v2.0 = ?v2 and img' = img' and ovf = ovf and s = s and img = img and rp = rp] rx n v i(1) assms(2,7)
    by (simp add: actions_def plain_action_def)
  with known_type [OF refl t rx(1)] have r: "dload_relocate s img rp = Some (if ovf then dload_error s Value_overflows else s, img')"
    by simp
  have "push_bit sc ?v' = ?v2" by (intro push_signed_drop take_bit_push_add assms(9))
  then have "pc + delta_runaddr s + push_bit sc ?v' = pc + push_bit sc v + moved" for pc by (simp add: algebra_simps)
  with v r i(2-4) show ?thesis by blast
qed

theorem branch_keeps_destination_witness:
  "\<exists>img' v'. (dload_relocate field_state [0x80, 0, 0, 0x10] \<lparr>r_vaddr = 0, r_word = 0, r_disp = 0, r_type = 0x52\<rparr> = Some (field_state, img')
      \<or> dload_relocate field_state [0x80, 0, 0, 0x10] \<lparr>r_vaddr = 0, r_word = 0, r_disp = 0, r_type = 0x52\<rparr>
         = Some (dload_error field_state Value_overflows, img'))
    \<and> 0x1000 + push_bit 2 v' = 4 + (0x1100 :: u32)"
proof -
  let ?rp = "\<lparr>r_vaddr = 0, r_word = 0, r_disp = 0, r_type = 0x52\<rparr>"
  have u: "dload_unpack [0x80, 0, 0, 0x10] 0 21 7 ROP_SGN = Some 1" by code_simp
  have s: "r_symndx ?rp \<noteq> - 1" by (simp add: r_symndx_def)
  have t: "take_bit 2 (0x100 :: u32) = 0" by code_simp
  have p: "pcr_field (unat (r_type ?rp)) = Some (7, 21, 2)" by (simp add: pcr_field_def)
  have h: "sint (r_vaddr ?rp) = int 0" "8 * 0 + 7 + 21 \<le> 8 * length [0x80 :: u8, 0, 0, 0x10]" "0 < length [0x80 :: u8, 0, 0, 0x10]"
    "unat (r_word ?rp) < unat (df_no_syms (dfile_hdr field_state))" "unat (r_word ?rp) < length (local_symtab field_state)"
    by (simp_all add: field_state_simps)
  have m: "0x1100 = ls_delta (local_symtab field_state ! unat (r_word ?rp))" by (simp add: field_state_simps)
  have z: "take_bit 2 (0x1100 - delta_runaddr field_state) = 0" using t by (simp add: field_state_simps)
  from branch_keeps_destination [OF p h s m z]
  have "\<exists>img' v v' ovf. dload_unpack [0x80, 0, 0, 0x10] 0 21 7 ROP_SGN = Some v
     \<and> dload_relocate field_state [0x80, 0, 0, 0x10] ?rp = Some (if ovf then dload_error field_state Value_overflows else field_state, img')
     \<and> (\<forall>pc. pc + delta_runaddr field_state + push_bit 2 v' = pc + push_bit 2 v + 0x1100)"
    by blast
  then obtain img' v v' ovf where
    r: "dload_unpack [0x80, 0, 0, 0x10] 0 21 7 ROP_SGN = Some v"
      "dload_relocate field_state [0x80, 0, 0, 0x10] ?rp = Some (if ovf then dload_error field_state Value_overflows else field_state, img')"
      "\<forall>pc. pc + delta_runaddr field_state + push_bit 2 v' = pc + push_bit 2 v + 0x1100" by blast
  from u r(1) have "v = 1" by simp
  with spec [OF r(3), of 0] have "0x1000 + push_bit 2 v' = 4 + (0x1100 :: u32)" by (simp add: field_state_simps)
  with r(2) show ?thesis by (cases ovf) auto
qed

end
