(* ===== verification/Dload_Module.thy ===== *)
theory Dload_Module
  imports Dload_State
begin

section \<open>Opening a module file\<close>

text \<open>
  The queries of \<open>getsection.c\<close> on a DOFF file, with the readers of \<open>cload.c\<close> they share with the
  loader: \<open>dload_headers\<close>, \<open>dload_strings\<close>, \<open>dload_sections\<close>, then \<open>DLOAD_module_open\<close>, the two ways
  to find a section, and \<open>DLOAD_GetSection\<close>, which copies the packets of a section into a buffer.
  A section information structure is the section header read with other field names, so that a
  pointer to one is the index of the section. The theorems say which files open, what a section
  lookup finds, that copying a well-formed section returns its bytes, and what a malformed
  file does to the buffers.
\<close>

subsection \<open>Headers\<close>

definition MAX_REASONABLE_STRINGTAB :: u32 where "MAX_REASONABLE_STRINGTAB = 0x100000"
definition MAX_REASONABLE_SECTIONS :: u16 where "MAX_REASONABLE_SECTIONS = 200"
definition TMS470_ID :: u16 where "TMS470_ID = 0x97"
definition TARGET_ID :: u16 where "TARGET_ID = 0x99"
definition DOFF0 :: u16 where "DOFF0 = 0"
definition DF_LITTLE :: u16 where "DF_LITTLE = 0x100"
definition DF_BIG :: u16 where "DF_BIG = 0x200"
definition ENDIANNESS_MASK :: u32 where "ENDIANNESS_MASK = drop_bit 7 (ucast (DF_LITTLE OR DF_BIG))"

definition COMBINED_HEADER_SIZE :: nat where "COMBINED_HEADER_SIZE = 56"

text \<open>The header and the verify record lie one after the other in the state.\<close>

definition store_headers :: "dload_state \<Rightarrow> u8 list \<Rightarrow> dload_state option" where
  "store_headers s b = do {
     h \<leftarrow> decode_filehdr (words_of (take 36 b));
     v \<leftarrow> decode_verify (words_of (drop 36 b));
     Some (s\<lparr>dfile_hdr := h, verify := v\<rparr>) }"

text \<open>
  The byte order: the headers in the order of the host, and the map kept for the rest of the
  file, or \<^const>\<open>None\<close> for a bad map.
\<close>

definition header_byte_order :: "dload_state \<Rightarrow> u8 list \<Rightarrow> (u8 list \<times> u32 option) option" where
  "header_byte_order s b = do {
     raw \<leftarrow> rd32 b 8;
     let mp = REORDER_MAP raw;
     (if mp \<noteq> REORDER_MAP BYTE_RESHUFFLE_VALUE then do {
        b1 \<leftarrow> (if mp AND 0xFCFCFCFC = 0 then dload_reorder b 0 (int COMBINED_HEADER_SIZE) mp else Some b);
        w \<leftarrow> rd32 b1 8;
        Some (b1, if w \<noteq> BYTE_RESHUFFLE_VALUE then None else Some mp) }
      else Some (b, Some (reorder_map s))) }"

text \<open>The first of the checks that fails, in the order of the code.\<close>

definition header_error :: "dload_state \<Rightarrow> u32 \<Rightarrow> u32 \<Rightarrow> dl_error option" where
  "header_error s hsum vsum = (let h = dfile_hdr s in
     if NOT hsum \<noteq> 0 \<or> NOT vsum \<noteq> 0 then Some E_CHECKSUM
     else if df_target_id h \<noteq> TARGET_ID \<and> df_target_id h \<noteq> TMS470_ID then Some Bad_target_id
     else if df_doff_version h \<noteq> DOFF0 then Some Bad_version
     else if df_strtab_size h > MAX_REASONABLE_STRINGTAB then Some Excessive_strings
     else if df_no_scns h > MAX_REASONABLE_SECTIONS then Some Excessive_sections
     else if ucast (drop_bit 7 (df_flags h)) AND myoptions s AND ENDIANNESS_MASK \<noteq> 0 then Some Endianness_disagrees
     else None)"

definition dload_headers :: "dload_state \<Rightarrow> dload_state option" where
  "dload_headers s = do {
     (st, b, n) \<leftarrow> readBuffer (strm s) (replicate COMBINED_HEADER_SIZE 0) 0 (of_nat COMBINED_HEADER_SIZE);
     let s1 = s\<lparr>strm := st\<rparr>;
     (if n \<noteq> int COMBINED_HEADER_SIZE then do { s2 \<leftarrow> store_headers s1 b; Some (dload_error s2 E_READSTRM) }
      else do {
        (b1, mp) \<leftarrow> header_byte_order s1 b;
        s2 \<leftarrow> store_headers s1 b1;
        (case mp of None \<Rightarrow> Some (dload_error s2 Bad_byte_map)
         | Some m \<Rightarrow> do {
             let s3 = s2\<lparr>reorder_map := m\<rparr>;
             hsum \<leftarrow> dload_checksum b1 0 36;
             vsum \<leftarrow> dload_checksum b1 36 20;
             (case header_error s3 hsum vsum of
                Some e \<Rightarrow> Some (dload_error s3 e)
              | None \<Rightarrow> Some (s3\<lparr>big_e_target := (df_flags (dfile_hdr s3) AND DF_BIG \<noteq> 0)\<rparr>)) }) }) }"

subsection \<open>Strings and sections\<close>

text \<open>What follows every read: \<open>if (dlthis->reorder_map) dload_reorder(...)\<close>.\<close>

definition fix_order :: "dload_state \<Rightarrow> u8 list \<Rightarrow> nat \<Rightarrow> int \<Rightarrow> u8 list option" where
  "fix_order s b p n = (if reorder_map s \<noteq> 0 then dload_reorder b p n (reorder_map s) else Some b)"

definition dload_strings :: "dl_env \<Rightarrow> dload_state \<Rightarrow> bool \<Rightarrow> dload_state option" where
  "dload_strings env s sec_names_only =
     (let ssiz = DOFF_ALIGN (if sec_names_only then df_scn_name_size (dfile_hdr s) else df_strtab_size (dfile_hdr s))
      in if ssiz = 0 then Some s
         else (case Allocate env s B_strings ssiz of
            (s1, None) \<Rightarrow> Some (dload_error s1 E_ALLOC)
          | (s1, Some (_, m)) \<Rightarrow> do {
              (st, b, n) \<leftarrow> readBuffer (strm s1) m 0 ssiz;
              let s2 = s1\<lparr>strm := st\<rparr>;
              let s3 = (if word_of_int n \<noteq> ssiz then dload_error s2 E_READSTRM else s2);
              b1 \<leftarrow> fix_order s3 b 0 (sint ssiz);
              chk \<leftarrow> (if sec_names_only then Some (NOT (dv_str_tab_checksum (verify s3))) else dload_checksum b1 0 (sint ssiz));
              let s4 = s3\<lparr>str_head := Some b1\<rparr>;
              Some (if NOT chk \<noteq> dv_str_tab_checksum (verify s4) then dload_error s4 E_CHECKSUM else s4) }))"

text \<open>The records of a table, decoded one after the other.\<close>

fun decode_all :: "nat \<Rightarrow> (u32 list \<Rightarrow> 'a option) \<Rightarrow> nat \<Rightarrow> u32 list \<Rightarrow> 'a list option" where
  "decode_all k d 0 ws = Some []"
| "decode_all k d (Suc n) ws = do { x \<leftarrow> d (take k ws); xs \<leftarrow> decode_all k d n (drop k ws); Some (x # xs) }"

text \<open>The local variable \<open>siz\<close>, a number of bytes in 16 bits.\<close>

definition sections_siz :: "nat \<Rightarrow> int" where
  "sections_siz nsecs = sint (word_of_int (int nsecs * 28) :: u16)"

definition dload_sections :: "dl_env \<Rightarrow> dload_state \<Rightarrow> dload_state option" where
  "dload_sections env s =
     (let nsecs = unat (df_no_scns (dfile_hdr s));
          siz = sections_siz nsecs
      in case Allocate env s B_sections (word_of_int siz) of
         (s1, None) \<Rightarrow> Some (dload_error s1 E_ALLOC)
       | (s1, Some (_, m)) \<Rightarrow> do {
           let s2 = s1\<lparr>sect_hdrs_p := True\<rparr>;
           (st, b, n) \<leftarrow> readBuffer (strm s2) m 0 (word_of_int siz);
           let s3 = s2\<lparr>strm := st\<rparr>;
           (if n \<noteq> siz then Some (dload_error s3 E_READSTRM)
            else do {
              b1 \<leftarrow> fix_order s3 b 0 siz;
              hs \<leftarrow> decode_all 7 decode_scnhdr nsecs (words_of b1);
              let s4 = s3\<lparr>sect_hdrs := hs\<rparr>;
              chk \<leftarrow> dload_checksum b1 0 siz;
              Some (if NOT chk \<noteq> dv_scn_rec_checksum (verify s4) then dload_error s4 E_CHECKSUM else s4) }) })"

subsection \<open>The module information\<close>

definition DLOAD_module_close :: "dload_state \<Rightarrow> dload_state" where
  "DLOAD_module_close s =
     (let s1 = (if str_head s \<noteq> None then call (Host_deallocate B_strings) s else s);
          s2 = (if sect_hdrs_p s1 then call (Host_deallocate B_sections) s1 else s1)
      in call (Host_deallocate B_module) s2)"

text \<open>
  The result tells whether a handle is returned. The names of the sections stay offsets into
  the string table, to be added to \<open>str_head\<close> where a name is read.
\<close>

definition sizeof_dload_state :: u32 where "sizeof_dload_state = 192"

definition DLOAD_module_open :: "dl_env \<Rightarrow> dl_stream option \<Rightarrow> symtab option \<Rightarrow> (dload_state \<times> bool) option" where
  "DLOAD_module_open env module syms =
     (case (module, syms) of
        (_, None) \<Rightarrow> None
      | (None, Some t) \<Rightarrow> Some (dload_error (dload_clear \<lparr>filePointer = None, posn = 0\<rparr> t) Required_NULL, False)
      | (Some st, Some t) \<Rightarrow>
         (case Allocate env (dload_clear st t) B_module sizeof_dload_state of
            (s, None) \<Rightarrow> Some (dload_error s E_ALLOC, False)
          | (s, Some _) \<Rightarrow> do {
              s1 \<leftarrow> dload_headers s;
              s2 \<leftarrow> (if dload_errcount s1 = 0 then dload_strings env s1 True else Some s1);
              let sec_start = 36 + 20 + DOFF_ALIGN (df_strtab_size (dfile_hdr s2));
              (st2, r) \<leftarrow> setFilePosn (strm s2) sec_start;
              let s3 = s2\<lparr>strm := st2\<rparr>;
              (if r \<noteq> 0 then Some (dload_error s3 E_SEEK, False)
               else do {
                 s4 \<leftarrow> (if dload_errcount s3 = 0 then dload_sections env s3 else Some s3);
                 Some (if dload_errcount s4 \<noteq> 0 then (DLOAD_module_close s4, False) else (s4, True)) }) }))"

text \<open>\<open>strcmp\<close> of a string with the one that starts at an offset of the table.\<close>

fun equals_at :: "u8 list \<Rightarrow> u8 list \<Rightarrow> nat \<Rightarrow> bool option" where
  "equals_at [] m p = do { c \<leftarrow> rd m p; Some (c = 0) }"
| "equals_at (a # as) m p = do { c \<leftarrow> rd m p; if c \<noteq> a then Some False else equals_at as m (p + 1) }"

primrec section_from :: "dload_state \<Rightarrow> name \<Rightarrow> nat \<Rightarrow> nat \<Rightarrow> nat option option" where
  "section_from s sectionName i 0 = Some None"
| "section_from s sectionName i (Suc k) = do {
     shp \<leftarrow> rd (sect_hdrs s) i;
     strs \<leftarrow> str_head s;
     e \<leftarrow> equals_at sectionName strs (unat (ds_offset shp));
     if e then Some (Some i) else section_from s sectionName (i + 1) k }"

definition DLOAD_GetSectionInfo :: "dload_state option \<Rightarrow> name \<Rightarrow> nat option option" where
  "DLOAD_GetSectionInfo minfo sectionName =
     (case minfo of None \<Rightarrow> Some None
      | Some s \<Rightarrow> section_from s sectionName 0 (unat (df_no_scns (dfile_hdr s))))"

definition DLOAD_GetSectionNum :: "dload_state option \<Rightarrow> nat \<Rightarrow> nat option" where
  "DLOAD_GetSectionNum minfo secn =
     (case minfo of None \<Rightarrow> None
      | Some s \<Rightarrow> if secn \<ge> unat (df_no_scns (dfile_hdr s)) then None else Some secn)"

definition DLOAD_RoundUpSectionSize :: "u32 \<Rightarrow> u32" where
  "DLOAD_RoundUpSectionSize sectSize = (sectSize + 3) AND - 4"

subsection \<open>Copying a section\<close>

definition IMAGE_PACKET_SIZE :: nat where "IMAGE_PACKET_SIZE = 1024"
definition IPH_SIZE :: nat where "IPH_SIZE = 12"

text \<open>The packets of a section; the flag is the result of \<open>DLOAD_GetSection\<close>.\<close>

primrec get_packets :: "nat \<Rightarrow> dload_state \<Rightarrow> u8 list \<Rightarrow> nat \<Rightarrow> (dload_state \<times> u8 list \<times> bool) option" where
  "get_packets 0 s data dest = Some (s, data, True)"
| "get_packets (Suc nip) s data dest = do {
     (st, hb, n) \<leftarrow> readBuffer (strm s) (replicate IPH_SIZE 0) 0 (of_nat IPH_SIZE);
     let s1 = s\<lparr>strm := st\<rparr>;
     (if n \<noteq> int IPH_SIZE then Some (dload_error s1 E_READSTRM, data, False)
      else do {
        hb1 \<leftarrow> fix_order s1 hb 0 (int IPH_SIZE);
        ipacket \<leftarrow> decode_packet (words_of hb1);
        let ipsize = DOFF_ALIGN (i_packet_size ipacket);
        (if sint ipsize > int IMAGE_PACKET_SIZE then Some (dload_error s1 Bad_packet_size, data, False)
         else do {
           (st2, data1, n2) \<leftarrow> readBuffer (strm s1) data dest ipsize;
           let s2 = s1\<lparr>strm := st2\<rparr>;
           (if n2 \<noteq> sint ipsize then Some (dload_error s2 E_READSTRM, data1, False)
            else do {
              data2 \<leftarrow> fix_order s2 data1 dest (sint ipsize);
              dsum \<leftarrow> dload_checksum data2 dest (sint ipsize);
              hsum \<leftarrow> dload_checksum hb1 0 (int IPH_SIZE);
              (if i_num_relocs ipacket \<noteq> 0 then Some (dload_error s2 E_RELOC, data2, False)
               else if NOT (dsum + hsum) \<noteq> 0 then Some (dload_error s2 E_CHECKSUM, data2, False)
               else get_packets nip s2 data2 (nat (int dest + sint ipsize))) }) }) }) }"

text \<open>The counter is decremented before the test: the least value of its type has no predecessor.\<close>

definition packet_count :: "doff_scnhdr \<Rightarrow> nat option" where
  "packet_count sptr = (if ds_nipacks sptr = 0x80000000 then None else Some (nat (sint (ds_nipacks sptr))))"

definition DLOAD_GetSection :: "dload_state option \<Rightarrow> nat option \<Rightarrow> u8 list \<Rightarrow> (dload_state option \<times> u8 list \<times> bool) option" where
  "DLOAD_GetSection minfo sectionInfo sectionData =
     (case (minfo, sectionInfo) of
        (None, _) \<Rightarrow> Some (minfo, sectionData, False)
      | (_, None) \<Rightarrow> Some (minfo, sectionData, False)
      | (Some s, Some i) \<Rightarrow> do {
          sptr \<leftarrow> rd (sect_hdrs s) i;
          (st, r) \<leftarrow> setFilePosn (strm s) (DOFF_ALIGN (ds_first_pkt_offset sptr));
          let s1 = s\<lparr>strm := st\<rparr>;
          (if r \<noteq> 0 then Some (Some (dload_error s1 E_SEEK), sectionData, False)
           else do {
             nip \<leftarrow> packet_count sptr;
             (s2, data, ok) \<leftarrow> get_packets nip s1 sectionData 0;
             Some (Some s2, data, ok) }) })"

subsection \<open>Reading well-formed data\<close>

text \<open>
  A file is a sequence of words; \<open>logical mp\<close> are the words in the order of the host when \<open>mp\<close>
  is the map kept by \<open>dload_headers\<close>, 0 for a file that needs no reordering.
\<close>

definition logical :: "u32 \<Rightarrow> u32 list \<Rightarrow> u32 list" where
  "logical mp ws = (if mp = 0 then ws else map (reorder_word mp) ws)"

lemma length_logical [simp]: "length (logical mp ws) = length ws"
  by (simp add: logical_def)

lemma logical_append [simp]: "logical mp (us @ ws) = logical mp us @ logical mp ws"
  by (simp add: logical_def)

lemma logical_Nil [simp]: "logical mp [] = []" "logical 0 ws = ws"
  by (simp_all add: logical_def)

lemma readBuffer_words:
  assumes "filePointer st = Some f" and "drop (posn st) f = bytes_of ws @ rest" and "unat k = 4 * length ws"
    and "length buffer = p + unat k + q"
  shows "readBuffer st buffer p k =
    Some (st\<lparr>posn := posn st + unat k\<rparr>, take p buffer @ bytes_of ws @ drop (p + unat k) buffer, int (unat k))"
  using assms by (simp add: readBuffer_def Let_def)

lemma fix_order_words:
  assumes "ws \<noteq> [] \<or> reorder_map s = 0" and "n = 4 * int (length ws)" and "length pre = p"
  shows "fix_order s (pre @ bytes_of ws @ post) p n = Some (pre @ bytes_of (logical (reorder_map s) ws) @ post)"
  using assms dload_reorder_words [of ws pre post "reorder_map s"] by (auto simp: logical_def fix_order_def)

lemma fix_order_all:
  assumes "ws \<noteq> [] \<or> reorder_map s = 0" and "n = 4 * int (length ws)"
  shows "fix_order s (bytes_of ws) 0 n = Some (bytes_of (logical (reorder_map s) ws))"
  using fix_order_words [OF assms, of "[]" 0 "[]"] by simp

lemma fix_order_cong [simp]: "fix_order (s\<lparr>strm := st\<rparr>) = fix_order s"
  by (intro ext) (simp add: fix_order_def)

lemma bytes_of_drop: "bytes_of (drop n ws) = drop (4 * n) (bytes_of ws)"
proof (induction n arbitrary: ws)
  case (Suc n)
  then show ?case by (cases ws) (simp_all add: drop_append)
qed simp

lemma bytes_of_take: "bytes_of (take n ws) = take (4 * n) (bytes_of ws)"
proof (induction n arbitrary: ws)
  case (Suc n)
  then show ?case by (cases ws) (simp_all add: take_append)
qed simp

lemma words_of_take [simp]: "words_of (take (4 * n) (bytes_of ws)) = take n ws"
  using words_of_bytes_of_list [of "take n ws" "[]"] by (simp add: bytes_of_take)

lemma words_of_drop [simp]: "words_of (drop (4 * n) (bytes_of ws)) = drop n ws"
  using words_of_bytes_of_list [of "drop n ws" "[]"] by (simp add: bytes_of_drop)

lemma words_of_all [simp]: "words_of (bytes_of ws) = ws"
  using words_of_bytes_of_list [of ws "[]"] by simp

lemma rd32_bytes_of: "i < length ws \<Longrightarrow> rd32 (bytes_of ws) (4 * i) = Some (ws ! i)"
  using rd32_at [of "bytes_of (take i ws)" "ws ! i" "bytes_of (drop (Suc i) ws)"]
  by (simp flip: bytes_of_simps(2) bytes_of_append add: Cons_nth_drop_Suc)

subsection \<open>Well-formed sections\<close>

text \<open>
  A packet without relocations: its header words and its image words, in file order, whose
  logical form has a sum of -1. A section is a list of such packets.
\<close>

definition packet_ok :: "u32 \<Rightarrow> u32 list \<times> u32 list \<Rightarrow> bool" where
  "packet_ok mp pk \<longleftrightarrow> (case pk of (hw, pw) \<Rightarrow>
     (\<exists>sz chk. logical mp hw = [0, sz, chk] \<and> DOFF_ALIGN sz = of_nat (4 * length pw))
     \<and> pw \<noteq> [] \<and> 4 * length pw \<le> IMAGE_PACKET_SIZE
     \<and> sum_list (logical mp hw) + sum_list (logical mp pw) = - 1)"

definition packet_words :: "(u32 list \<times> u32 list) list \<Rightarrow> u32 list" where
  "packet_words pks = concat (map (\<lambda>(hw, pw). hw @ pw) pks)"

definition packet_image :: "u32 \<Rightarrow> (u32 list \<times> u32 list) list \<Rightarrow> u32 list" where
  "packet_image mp pks = concat (map (\<lambda>(hw, pw). logical mp pw) pks)"

lemma packet_simps [simp]:
  "packet_words [] = []" "packet_words ((hw, pw) # pks) = hw @ pw @ packet_words pks"
  "packet_image mp [] = []" "packet_image mp ((hw, pw) # pks) = logical mp pw @ packet_image mp pks"
  by (simp_all add: packet_words_def packet_image_def)

lemma small_word: "n \<le> IMAGE_PACKET_SIZE \<Longrightarrow> unat (of_nat n :: u32) = n" "n \<le> IMAGE_PACKET_SIZE \<Longrightarrow> sint (of_nat n :: u32) = int n"
  by (simp_all add: IMAGE_PACKET_SIZE_def unsigned_of_nat take_bit_nat_eq_self signed_of_nat
      signed_take_bit_int_eq_self)

lemma sint_small: "unat (w :: u32) = n \<Longrightarrow> n < 2 ^ 31 \<Longrightarrow> sint w = int n"
  by (simp add: sint_uint uint_nat signed_take_bit_int_eq_self)

lemma packet_header: "packet_ok mp (hw, pw) \<Longrightarrow> length hw = 3"
  using length_logical [of mp hw] by (auto simp: packet_ok_def simp del: length_logical)

lemma get_packets_step:
  assumes "packet_ok (reorder_map s) (hw, pw)" and "filePointer (strm s) = Some f"
    and "drop (posn (strm s)) f = bytes_of (hw @ pw) @ rest" and "length data = dest + 4 * length pw + q"
  shows "get_packets (Suc nip) s data dest =
    get_packets nip (s\<lparr>strm := (strm s)\<lparr>posn := posn (strm s) + 12 + 4 * length pw\<rparr>\<rparr>)
      (take dest data @ bytes_of (logical (reorder_map s) pw) @ drop (dest + 4 * length pw) data) (dest + 4 * length pw)"
proof -
  let ?mp = "reorder_map s"
  from assms(1) obtain sz chk where
    hw: "logical ?mp hw = [0, sz, chk]" and sz: "DOFF_ALIGN sz = of_nat (4 * length pw)"
    and pw: "pw \<noteq> []" "4 * length pw \<le> IMAGE_PACKET_SIZE" and chk: "chk + sz + sum_list (logical ?mp pw) = - 1"
    by (auto simp: packet_ok_def add_ac)
  have len: "length hw = 3" "hw \<noteq> []" using hw length_logical [of ?mp hw] by auto
  define k :: u32 where "k = of_nat (4 * length pw)"
  have k: "DOFF_ALIGN sz = k" "unat k = 4 * length pw" "sint k = int (4 * length pw)" "\<not> IMAGE_PACKET_SIZE < 4 * length pw"
    using sz small_word [OF pw(2)] pw(2) by (simp_all add: k_def)
  let ?st1 = "(strm s)\<lparr>posn := posn (strm s) + 12\<rparr>" and ?st2 = "(strm s)\<lparr>posn := posn (strm s) + 12 + 4 * length pw\<rparr>"
  let ?d1 = "take dest data @ bytes_of pw @ drop (dest + 4 * length pw) data"
  let ?d2 = "take dest data @ bytes_of (logical ?mp pw) @ drop (dest + 4 * length pw) data"
  have r1: "readBuffer (strm s) (replicate IPH_SIZE 0) 0 (of_nat IPH_SIZE) = Some (?st1, bytes_of hw, int IPH_SIZE)"
    using readBuffer_words [OF assms(2), of hw "bytes_of pw @ rest" 12 "replicate 12 0" 0 0] assms(3) len
    by (simp add: IPH_SIZE_def)
  have o1: "fix_order s (bytes_of hw) 0 (int IPH_SIZE) = Some (bytes_of [0, sz, chk])"
    using fix_order_all [of hw s "int IPH_SIZE"] hw len by (simp add: IPH_SIZE_def)
  have d1: "decode_packet (words_of (bytes_of [0, sz, chk])) = Some \<lparr>i_num_relocs = 0, i_packet_size = sz, i_checksum = chk\<rparr>"
    by (simp only: words_of_all) simp
  have "drop (posn ?st1) f = drop 12 (drop (posn (strm s)) f)" by (simp add: add.commute)
  also have "\<dots> = bytes_of pw @ rest" using assms(3) len by simp
  finally have f2: "drop (posn ?st1) f = bytes_of pw @ rest" .
  have r2: "readBuffer ?st1 data dest k = Some (?st2, ?d1, int (4 * length pw))"
    using readBuffer_words [OF _ f2, of k data dest q] assms(2,4) k(2) by simp
  have l: "length (take dest data) = dest" using assms(4) by simp
  have o2: "fix_order s ?d1 dest (int (4 * length pw)) = Some ?d2"
    using fix_order_words [OF _ _ l, of pw s "int (4 * length pw)" "drop (dest + 4 * length pw) data"] pw(1) by simp
  have c2: "dload_checksum ?d2 dest (int (4 * length pw)) = Some (sum_list (logical ?mp pw))"
    using dload_checksum_words [of "take dest data" "logical ?mp pw" "drop (dest + 4 * length pw) data"] l by simp
  have c1: "dload_checksum (bytes_of [0, sz, chk]) 0 (int IPH_SIZE) = Some (sz + chk)"
    using dload_checksum_words [of "[]" "[0, sz, chk]" "[]"] by (simp add: IPH_SIZE_def)
  have chk': "NOT (sum_list (logical ?mp pw) + (sz + chk)) = 0" using chk by (simp add: add_ac)
  have nd: "nat (int dest + int (4 * length pw)) = dest + 4 * length pw" by simp
  show ?thesis
    by (simp add: r1 o1 d1 k r2 o2 c2 c1 chk' nd Let_def del: bytes_of_simps of_nat_mult)
qed

lemma get_packets_image:
  assumes "\<forall>pk \<in> set pks. packet_ok (reorder_map s) pk" and "filePointer (strm s) = Some f"
    and "drop (posn (strm s)) f = bytes_of (packet_words pks) @ rest"
    and "length data = dest + 4 * length (packet_image (reorder_map s) pks) + q"
  shows "get_packets (length pks) s data dest =
    Some (s\<lparr>strm := (strm s)\<lparr>posn := posn (strm s) + 4 * length (packet_words pks)\<rparr>\<rparr>,
      take dest data @ bytes_of (packet_image (reorder_map s) pks)
        @ drop (dest + 4 * length (packet_image (reorder_map s) pks)) data, True)"
  using assms
proof (induction pks arbitrary: s data dest)
  case Nil
  then show ?case by simp
next
  case (Cons pk pks)
  obtain hw pw where pk: "pk = (hw, pw)" by (cases pk)
  let ?mp = "reorder_map s"
  have len: "length hw = 3"
    using Cons.prems(1) by (auto simp: pk intro: packet_header)
  let ?s1 = "s\<lparr>strm := (strm s)\<lparr>posn := posn (strm s) + 12 + 4 * length pw\<rparr>\<rparr>"
  let ?d1 = "take dest data @ bytes_of (logical ?mp pw) @ drop (dest + 4 * length pw) data"
  have "get_packets (length (pk # pks)) s data dest = get_packets (length pks) ?s1 ?d1 (dest + 4 * length pw)"
    using get_packets_step [of s hw pw f "bytes_of (packet_words pks) @ rest" data dest _ "length pks"] Cons.prems
    by (simp add: pk)
  also have "drop (posn (strm ?s1)) f = drop (12 + 4 * length pw) (drop (posn (strm s)) f)" by (simp add: add_ac)
  then have "drop (posn (strm ?s1)) f = bytes_of (packet_words pks) @ rest"
    using Cons.prems(3) len by (simp add: pk)
  then have "get_packets (length pks) ?s1 ?d1 (dest + 4 * length pw) =
    Some (?s1\<lparr>strm := (strm ?s1)\<lparr>posn := posn (strm ?s1) + 4 * length (packet_words pks)\<rparr>\<rparr>,
      take (dest + 4 * length pw) ?d1 @ bytes_of (packet_image ?mp pks)
        @ drop (dest + 4 * length pw + 4 * length (packet_image ?mp pks)) ?d1, True)"
    using Cons.IH [of ?s1 ?d1 "dest + 4 * length pw"] Cons.prems by (simp add: pk)
  also have "\<dots> = Some (s\<lparr>strm := (strm s)\<lparr>posn := posn (strm s) + 4 * length (packet_words (pk # pks))\<rparr>\<rparr>,
      take dest data @ bytes_of (packet_image ?mp (pk # pks))
        @ drop (dest + 4 * length (packet_image ?mp (pk # pks))) data, True)"
    using Cons.prems(4) len by (simp add: pk algebra_simps)
  finally show ?case .
qed

lemma packet_count_nat:
  assumes "ds_nipacks h = of_nat n" and "n < 2 ^ 31"
  shows "packet_count h = Some n"
proof -
  have n: "unat (of_nat n :: u32) = n" "sint (of_nat n :: u32) = int n"
    using assms(2) by (simp_all add: unsigned_of_nat take_bit_nat_eq_self signed_of_nat signed_take_bit_int_eq_self)
  have "(of_nat n :: u32) \<noteq> 0x80000000"
  proof
    assume "(of_nat n :: u32) = 0x80000000"
    then have "unat (of_nat n :: u32) = unat (0x80000000 :: u32)" by simp
    with n(1) assms(2) show False by simp
  qed
  then show ?thesis using assms(1) n(2) by (simp add: packet_count_def)
qed

lemma get_section_file:
  assumes "i < length (sect_hdrs s)" and "h = sect_hdrs s ! i" and "filePointer (strm s) = Some f"
    and "p = unat (DOFF_ALIGN (ds_first_pkt_offset h))" and "p < 2 ^ 31"
    and "drop p f = bytes_of (packet_words pks) @ rest" and "\<forall>pk \<in> set pks. packet_ok (reorder_map s) pk"
    and "ds_nipacks h = of_nat (length pks)" and "length pks < 2 ^ 31"
    and "4 * length (packet_image (reorder_map s) pks) \<le> length data"
  shows "\<exists>s'. DLOAD_GetSection (Some s) (Some i) data = Some (Some s',
      bytes_of (packet_image (reorder_map s) pks) @ drop (4 * length (packet_image (reorder_map s) pks)) data, True)
    \<and> dload_errors s' = dload_errors s \<and> sect_hdrs s' = sect_hdrs s \<and> str_head s' = str_head s \<and> reorder_map s' = reorder_map s"
proof -
  let ?w = "DOFF_ALIGN (ds_first_pkt_offset h)"
  have w: "sint ?w = int p" using assms(4,5) by (simp add: sint_small)
  note c = packet_count_nat [OF assms(8,9)]
  let ?s1 = "s\<lparr>strm := (strm s)\<lparr>posn := p\<rparr>\<rparr>"
  have "get_packets (length pks) ?s1 data 0 = Some (?s1\<lparr>strm := (strm ?s1)\<lparr>posn := p + 4 * length (packet_words pks)\<rparr>\<rparr>,
      bytes_of (packet_image (reorder_map s) pks) @ drop (4 * length (packet_image (reorder_map s) pks)) data, True)"
    using get_packets_image [of pks ?s1 f rest data 0 "length data - 4 * length (packet_image (reorder_map s) pks)"]
      assms(3,6,7,10) by simp
  with assms(1-4) w c show ?thesis
    by (simp add: DLOAD_GetSection_def setFilePosn_def Let_def)
qed

text \<open>
  C31: A section is copied: where the file holds packets without relocations at the place its header
  names, each with a correct checksum, \<open>DLOAD_GetSection\<close> succeeds and the buffer starts with the
  image of all packets in the byte order of the host; what lies behind it is unchanged.
\<close>

theorem DLOAD_GetSection_copies:
  assumes "i < length (sect_hdrs s)" and "h = sect_hdrs s ! i" and "filePointer (strm s) = Some f"
    and "p = unat (DOFF_ALIGN (ds_first_pkt_offset h))" and "p < 2 ^ 31"
    and "drop p f = bytes_of (packet_words pks) @ rest" and "\<forall>pk \<in> set pks. packet_ok (reorder_map s) pk"
    and "ds_nipacks h = of_nat (length pks)" and "length pks < 2 ^ 31"
    and "4 * length (packet_image (reorder_map s) pks) \<le> length data"
  shows "\<exists>s'. DLOAD_GetSection (Some s) (Some i) data = Some (Some s',
      bytes_of (packet_image (reorder_map s) pks) @ drop (4 * length (packet_image (reorder_map s) pks)) data, True)
    \<and> dload_errors s' = dload_errors s \<and> sect_hdrs s' = sect_hdrs s \<and> str_head s' = str_head s \<and> reorder_map s' = reorder_map s"
  using assms by (rule get_section_file)

theorem DLOAD_GetSection_copies_witness:
  "\<exists>s' st. DLOAD_GetSection (Some ((dload_clear \<lparr>filePointer = Some (bytes_of [0, 0, 0, 8, 0xFFFFFFF4, 1, 2]), posn = 3\<rparr> empty_symtab)
        \<lparr>sect_hdrs := [\<lparr>ds_offset = 0, ds_paddr = 0, ds_vaddr = 0, ds_size = 8, ds_page = 0, ds_flags = 0, ds_first_pkt_offset = 8, ds_nipacks = 1\<rparr>]\<rparr>))
      (Some 0) (replicate 9 7) = Some (Some s', [1, 0, 0, 0, 2, 0, 0, 0, 7], True) \<and> dload_errors s' = st"
proof -
  let ?h = "\<lparr>ds_offset = 0, ds_paddr = 0, ds_vaddr = 0, ds_size = 8, ds_page = 0, ds_flags = 0, ds_first_pkt_offset = 8, ds_nipacks = 1\<rparr> :: doff_scnhdr"
  let ?s = "(dload_clear \<lparr>filePointer = Some (bytes_of [0, 0, 0, 8, 0xFFFFFFF4, 1, 2]), posn = 3\<rparr> empty_symtab)\<lparr>sect_hdrs := [?h]\<rparr>"
  have b: "bytes_of [1, 2] @ drop 8 (replicate 9 7) = [1, 0, 0, 0, 2, 0, 0, 0, 7]" by code_simp
  have d: "drop 8 (bytes_of [0, 0, 0, 8, 0xFFFFFFF4, 1, 2]) = bytes_of (packet_words [([0, 8, 0xFFFFFFF4], [1, 2])]) @ []" by code_simp
  have a: "DOFF_ALIGN 8 = 8" "unat (8 :: u32) = 8" by code_simp+
  have k: "packet_ok 0 ([0, 8, 0xFFFFFFF4], [1, 2])" by (simp add: packet_ok_def IMAGE_PACKET_SIZE_def a)
  show ?thesis
    using DLOAD_GetSection_copies [of 0 ?s ?h _ 8 "[([0, 8, 0xFFFFFFF4], [1, 2])]" "[]" "replicate 9 7"] b d a k
    by (simp add: dload_clear_def del: bytes_of_simps) blast
qed

subsection \<open>Finding a section\<close>

lemma drop_ConsD: "drop p m = x # r \<Longrightarrow> p < length m \<and> m ! p = x \<and> drop (Suc p) m = r"
  by (metis Cons_nth_drop_Suc drop_all list.distinct(1) list.inject not_less)

lemma equals_at_string:
  "drop p m = nm @ 0 # r \<Longrightarrow> 0 \<notin> set a \<Longrightarrow> 0 \<notin> set nm \<Longrightarrow> equals_at a m p = Some (a = nm)"
proof (induction a arbitrary: p nm)
  case Nil
  show ?case
  proof (cases nm)
    case N: Nil
    with Nil.prems(1) drop_ConsD [of p m 0 r] show ?thesis by simp
  next
    case (Cons d ds)
    with Nil.prems drop_ConsD [of p m d "ds @ 0 # r"] show ?thesis by auto
  qed
next
  case (Cons c cs)
  show ?case
  proof (cases nm)
    case Nil
    with Cons.prems drop_ConsD [of p m 0 r] show ?thesis by auto
  next
    case N: (Cons d ds)
    with Cons.prems Cons.IH [of "p + 1" ds] drop_ConsD [of p m d "ds @ 0 # r"] show ?thesis by auto
  qed
qed

definition names_at :: "u8 list \<Rightarrow> doff_scnhdr list \<Rightarrow> name list \<Rightarrow> bool" where
  "names_at m hs nms \<longleftrightarrow> list_all2 (\<lambda>h nm. 0 \<notin> set nm \<and> (\<exists>r. drop (unat (ds_offset h)) m = nm @ 0 # r)) hs nms"

lemma section_from_closed:
  assumes "str_head s = Some m" and "names_at m (sect_hdrs s) nms" and "0 \<notin> set a" and "i + k \<le> length nms"
  shows "section_from s a i k = Some (map_option (\<lambda>j. i + j) (first_index (\<lambda>nm. nm = a) (take k (drop i nms))))"
  using assms(4)
proof (induction k arbitrary: i)
  case 0
  then show ?case by simp
next
  case (Suc k)
  then have i: "i < length nms" by simp
  then have d: "drop i nms = nms ! i # drop (Suc i) nms" by (rule Cons_nth_drop_Suc [symmetric])
  from assms(2) i have h: "i < length (sect_hdrs s)" "0 \<notin> set (nms ! i)"
    and "\<exists>r. drop (unat (ds_offset (sect_hdrs s ! i))) m = nms ! i @ 0 # r"
    by (auto simp: names_at_def list_all2_conv_all_nth)
  then obtain r where "drop (unat (ds_offset (sect_hdrs s ! i))) m = nms ! i @ 0 # r" by blast
  from equals_at_string [OF this assms(3) h(2)] h(1) Suc.IH [of "Suc i"] Suc.prems d assms(1) show ?case
    by (auto simp: option.map_comp comp_def)
qed

text \<open>
  \<open>DLOAD_GetSectionInfo\<close> finds the first section with the name, and nothing when no section has
  it, provided every name lies in the part of the string table that was read.
\<close>

theorem DLOAD_GetSectionInfo_finds:
  assumes "str_head s = Some m" and "names_at m (sect_hdrs s) nms" and "0 \<notin> set a"
    and "length nms = unat (df_no_scns (dfile_hdr s))"
  shows "DLOAD_GetSectionInfo (Some s) a = Some (first_index (\<lambda>nm. nm = a) nms)"
  using section_from_closed [OF assms(1-3), of 0 "length nms"] assms(4)
  by (simp add: DLOAD_GetSectionInfo_def option.map_ident)

subsection \<open>Opening\<close>

text \<open>Which map \<open>dload_headers\<close> keeps for a file whose header has the word \<open>raw\<close> at its third place.\<close>

definition file_map :: "u32 \<Rightarrow> u32 \<Rightarrow> bool" where
  "file_map mp raw \<longleftrightarrow> mp = 0 \<and> raw = BYTE_RESHUFFLE_VALUE
     \<or> mp \<noteq> 0 \<and> raw \<noteq> BYTE_RESHUFFLE_VALUE \<and> mp = REORDER_MAP raw \<and> mp AND 0xFCFCFCFC = 0 \<and> reorder_word mp raw = BYTE_RESHUFFLE_VALUE"

definition doff_file_ok :: "u32 \<Rightarrow> doff_filehdr \<Rightarrow> doff_verify_rec \<Rightarrow> u32 list \<Rightarrow> u32 list \<Rightarrow> u32 list \<Rightarrow> bool" where
  "doff_file_ok mp h v hdrs strs secs \<longleftrightarrow> length hdrs = 14 \<and> file_map mp (hdrs ! 2)
     \<and> decode_filehdr (take 9 (logical mp hdrs)) = Some h \<and> decode_verify (drop 9 (logical mp hdrs)) = Some v
     \<and> sum_list (take 9 (logical mp hdrs)) = - 1 \<and> sum_list (drop 9 (logical mp hdrs)) = - 1
     \<and> df_target_id h \<in> {TARGET_ID, TMS470_ID} \<and> df_doff_version h = DOFF0
     \<and> df_strtab_size h \<le> MAX_REASONABLE_STRINGTAB \<and> df_no_scns h \<le> MAX_REASONABLE_SECTIONS
     \<and> DOFF_ALIGN (df_strtab_size h) = of_nat (4 * length strs) \<and> 4 * length strs < 2 ^ 31 - 56
     \<and> 0 < df_scn_name_size h \<and> DOFF_ALIGN (df_scn_name_size h) \<le> DOFF_ALIGN (df_strtab_size h) \<and> DOFF_ALIGN (df_scn_name_size h) \<noteq> 0
     \<and> 0 < df_no_scns h \<and> length secs = 7 * unat (df_no_scns h)
     \<and> NOT (sum_list (logical mp secs)) = dv_scn_rec_checksum v"

lemma REORDER_MAP_inject: "REORDER_MAP a = REORDER_MAP b \<longleftrightarrow> a = b"
proof
  assume "REORDER_MAP a = REORDER_MAP b"
  then have "REORDER_MAP a XOR 0x3030303 = REORDER_MAP b XOR 0x3030303" by simp
  then show "a = b" by (simp add: REORDER_MAP_def xor.assoc)
qed simp

lemma header_byte_order_file:
  assumes "length raw = 14" and "file_map mp (raw ! 2)" and "reorder_map s = 0"
  shows "header_byte_order s (bytes_of raw) = Some (bytes_of (logical mp raw), Some mp)"
proof -
  have r: "rd32 (bytes_of raw) 8 = Some (raw ! 2)" using rd32_bytes_of [of 2 raw] assms(1) by simp
  show ?thesis
  proof (cases "mp = 0")
    case True
    with assms r show ?thesis by (simp add: header_byte_order_def file_map_def Let_def)
  next
    case False
    then have m: "raw ! 2 \<noteq> BYTE_RESHUFFLE_VALUE" "REORDER_MAP (raw ! 2) = mp" "mp AND 0xFCFCFCFC = 0"
        "reorder_word mp (raw ! 2) = BYTE_RESHUFFLE_VALUE"
      using assms(2) by (auto simp: file_map_def)
    have o: "dload_reorder (bytes_of raw) 0 (int COMBINED_HEADER_SIZE) mp = Some (bytes_of (logical mp raw))"
      using dload_reorder_words [of raw "[]" "[]" mp] assms(1) False
      by (cases "raw = []") (simp_all add: COMBINED_HEADER_SIZE_def logical_def)
    have "rd32 (bytes_of (logical mp raw)) 8 = Some BYTE_RESHUFFLE_VALUE"
      using rd32_bytes_of [of 2 "logical mp raw"] assms(1) m(4) False by (simp add: logical_def)
    moreover have "mp \<noteq> REORDER_MAP BYTE_RESHUFFLE_VALUE"
      using m(1) by (simp add: REORDER_MAP_inject flip: m(2))
    ultimately show ?thesis by (simp add: header_byte_order_def r m(2,3) o Let_def)
  qed
qed

lemma dload_headers_file:
  assumes "doff_file_ok mp h v hdrs strs secs" and "filePointer (strm s) = Some f" and "posn (strm s) = 0"
    and "f = bytes_of hdrs @ rest" and "reorder_map s = 0" and "myoptions s = 0"
  shows "dload_headers s = Some (s\<lparr>strm := (strm s)\<lparr>posn := 56\<rparr>, dfile_hdr := h, verify := v, reorder_map := mp,
    big_e_target := (df_flags h AND DF_BIG \<noteq> 0)\<rparr>)"
proof -
  let ?s1 = "s\<lparr>strm := (strm s)\<lparr>posn := 56\<rparr>\<rparr>"
  let ?lw = "logical mp hdrs"
  from assms(1) have hd: "length hdrs = 14" "file_map mp (hdrs ! 2)"
    and dec: "decode_filehdr (take 9 ?lw) = Some h" "decode_verify (drop 9 ?lw) = Some v"
    and sums: "sum_list (take 9 ?lw) = - 1" "sum_list (drop 9 ?lw) = - 1"
    and chk: "df_target_id h \<in> {TARGET_ID, TMS470_ID}" "df_doff_version h = DOFF0"
      "df_strtab_size h \<le> MAX_REASONABLE_STRINGTAB" "df_no_scns h \<le> MAX_REASONABLE_SECTIONS"
    by (simp_all add: doff_file_ok_def)
  have "readBuffer (strm s) (replicate COMBINED_HEADER_SIZE 0) 0 (of_nat COMBINED_HEADER_SIZE)
      = Some ((strm s)\<lparr>posn := 56\<rparr>, bytes_of hdrs, int COMBINED_HEADER_SIZE)"
    using readBuffer_words [OF assms(2), of hdrs rest 56 "replicate 56 0" 0 0] assms(3,4) hd(1)
    by (simp add: COMBINED_HEADER_SIZE_def)
  moreover have "header_byte_order ?s1 (bytes_of hdrs) = Some (bytes_of ?lw, Some mp)"
    using header_byte_order_file [OF hd] assms(5) by simp
  moreover have "store_headers ?s1 (bytes_of ?lw) = Some (?s1\<lparr>dfile_hdr := h, verify := v\<rparr>)"
    using dec words_of_take [of 9 ?lw] words_of_drop [of 9 ?lw] by (simp add: store_headers_def)
  moreover have "dload_checksum (bytes_of ?lw) 0 36 = Some (- 1)"
    using dload_checksum_words [of "[]" "take 9 ?lw" "bytes_of (drop 9 ?lw)"] hd(1) sums(1) by (simp flip: bytes_of_append)
  moreover have "dload_checksum (bytes_of ?lw) 36 20 = Some (- 1)"
    using dload_checksum_words [of "bytes_of (take 9 ?lw)" "drop 9 ?lw" "[]"] hd(1) sums(2) by (simp flip: bytes_of_append)
  moreover have "header_error (?s1\<lparr>dfile_hdr := h, verify := v, reorder_map := mp\<rparr>) (- 1) (- 1) = None"
    using chk assms(6) by (auto simp: header_error_def Let_def)
  ultimately show ?thesis
    by (simp add: dload_headers_def Let_def)
qed

lemma DOFF_ALIGN_words: "4 * (unat (DOFF_ALIGN x) div 4) = unat (DOFF_ALIGN x)"
proof -
  have "take_bit 2 (DOFF_ALIGN x) = 0"
    by (rule bit_word_eqI) (simp add: DOFF_ALIGN_def bit_take_bit_iff bit_and_iff bit_not_iff)
  then have "take_bit 2 (unat (DOFF_ALIGN x)) = 0" by (simp flip: unsigned_take_bit_eq)
  then have "unat (DOFF_ALIGN x) mod 4 = 0" by (simp add: take_bit_eq_mod)
  then show ?thesis by presburger
qed

lemma dload_strings_names:
  assumes "doff_file_ok mp h v hdrs strs secs" and "filePointer (strm s) = Some f" and "posn (strm s) = 56"
    and "f = bytes_of hdrs @ bytes_of strs @ rest" and "dfile_hdr s = h" and "reorder_map s = mp"
    and "host_allocate env (calls s) B_strings (DOFF_ALIGN (df_scn_name_size h)) = Some blk"
  shows "\<exists>k. 4 * k = unat (DOFF_ALIGN (df_scn_name_size h)) \<and> dload_strings env s True = Some (s\<lparr>strm := (strm s)\<lparr>posn := 56 + 4 * k\<rparr>,
    calls := calls s @ [Host_allocate B_strings (DOFF_ALIGN (df_scn_name_size h)) True],
    str_head := Some (bytes_of (logical mp (take k strs)))\<rparr>)"
proof -
  let ?n = "DOFF_ALIGN (df_scn_name_size h)"
  define k where "k = unat ?n div 4"
  have k: "4 * k = unat ?n" by (simp add: k_def DOFF_ALIGN_words)
  from assms(1) have nz: "?n \<noteq> 0" and sz: "?n \<le> DOFF_ALIGN (df_strtab_size h)" "DOFF_ALIGN (df_strtab_size h) = of_nat (4 * length strs)"
    and small: "4 * length strs < 2 ^ 31 - 56" unfolding doff_file_ok_def by blast+
  from sz have "unat ?n \<le> unat (of_nat (4 * length strs) :: u32)" by (simp only: word_le_nat_alt)
  also have "\<dots> = 4 * length strs" using small by (simp only: unsigned_of_nat) (simp add: take_bit_nat_eq_self)
  finally have le: "k \<le> length strs" using k by simp
  have sn: "sint ?n = int (4 * k)" using k le small by (intro sint_small) simp_all
  have k0: "take k strs \<noteq> []" using nz k le by (cases k) (auto simp: unsigned_eq_0_iff)
  obtain a fr where blk: "blk = (a, fr)" by (cases blk)
  let ?s1 = "s\<lparr>calls := calls s @ [Host_allocate B_strings ?n True]\<rparr>"
  have al: "Allocate env s B_strings ?n = (?s1, Some (a, map fr [0 ..< unat ?n]))"
    using assms(7) by (simp add: Allocate_def blk)
  have st: "bytes_of strs = bytes_of (take k strs) @ bytes_of (drop k strs)" by (simp flip: bytes_of_append)
  have hl: "length hdrs = 14" using assms(1) by (simp add: doff_file_ok_def)
  have dr: "drop 56 f = bytes_of (take k strs) @ bytes_of (drop k strs) @ rest"
    using assms(4) hl by (simp only: st append_assoc) simp
  have rd: "readBuffer (strm s) (map fr [0 ..< unat ?n]) 0 ?n = Some ((strm s)\<lparr>posn := 56 + 4 * k\<rparr>, bytes_of (take k strs), int (unat ?n))"
    using readBuffer_words [of "strm s" f "take k strs" "bytes_of (drop k strs) @ rest" ?n "map fr [0 ..< unat ?n]" 0 0]
      assms(2,3) dr k le by (simp add: min_absorb2)
  have fo: "fix_order ?s1 (bytes_of (take k strs)) 0 (sint ?n) = Some (bytes_of (logical mp (take k strs)))"
    using fix_order_all [of "take k strs" ?s1 "sint ?n"] k0 sn le assms(6) by (simp add: min_absorb2)
  have "dload_strings env s True = Some (s\<lparr>strm := (strm s)\<lparr>posn := 56 + 4 * k\<rparr>,
    calls := calls s @ [Host_allocate B_strings ?n True], str_head := Some (bytes_of (logical mp (take k strs)))\<rparr>)"
    using nz assms(5) al rd fo by (simp add: dload_strings_def Let_def)
  with k show ?thesis by blast
qed

lemma decode_all_length: "decode_all k d n ws = Some xs \<Longrightarrow> length xs = n"
  by (induction n arbitrary: ws xs) (auto split: bind_splits)

lemma decode_scnhdrs: "length ws = 7 * n \<Longrightarrow> \<exists>hs. decode_all 7 decode_scnhdr n ws = Some hs"
proof (induction n arbitrary: ws)
  case 0
  then show ?case by simp
next
  case (Suc n)
  define us where "us = take 7 ws"
  from Suc.prems have "length us = 7" by (simp add: us_def)
  then have "\<exists>h. decode_scnhdr us = Some h" by (auto simp: length_Suc_conv numeral_eq_Suc)
  then obtain h where "decode_scnhdr (take 7 ws) = Some h" by (auto simp: us_def)
  moreover from Suc.IH [of "drop 7 ws"] Suc.prems obtain hs where "decode_all 7 decode_scnhdr n (drop 7 ws) = Some hs" by auto
  ultimately show ?case by simp
qed

lemma sections_size: "k \<le> 200 \<Longrightarrow> sections_siz k = 28 * int k"
  by (simp only: sections_siz_def signed_of_int) (simp add: signed_take_bit_int_eq_self)

lemma dload_sections_file:
  assumes "doff_file_ok mp h v hdrs strs secs" and "filePointer (strm s) = Some f"
    and "drop (posn (strm s)) f = bytes_of secs @ rest" and "dfile_hdr s = h" and "verify s = v" and "reorder_map s = mp"
    and "host_allocate env (calls s) B_sections (28 * ucast (df_no_scns h)) = Some blk"
  shows "\<exists>hs. decode_all 7 decode_scnhdr (unat (df_no_scns h)) (logical mp secs) = Some hs
    \<and> dload_sections env s = Some (s\<lparr>strm := (strm s)\<lparr>posn := posn (strm s) + 4 * length secs\<rparr>,
      calls := calls s @ [Host_allocate B_sections (28 * ucast (df_no_scns h)) True], sect_hdrs_p := True, sect_hdrs := hs\<rparr>)"
proof -
  let ?k = "unat (df_no_scns h)" and ?sz = "28 * ucast (df_no_scns h) :: u32"
  from assms(1) have sec: "df_no_scns h \<le> 200" "0 < df_no_scns h" "length secs = 7 * ?k" and chk: "NOT (sum_list (logical mp secs)) = dv_scn_rec_checksum v"
    unfolding doff_file_ok_def MAX_REASONABLE_SECTIONS_def by blast+
  have k: "?k \<le> 200" using sec(1) by (simp add: word_le_nat_alt)
  have ne: "secs \<noteq> []" using sec(2,3) by (auto simp: word_less_nat_alt)
  have siz: "sections_siz ?k = 28 * int ?k" using sections_size [OF k] .
  have w: "word_of_int (sections_siz ?k) = ?sz" unfolding siz by (simp add: unsigned_ucast_eq)
  have u: "unat ?sz = 28 * ?k" 
  proof -
    have "unat ?sz = unat (of_nat (28 * ?k) :: u32)" by simp
    also have "\<dots> = 28 * ?k" using k by (simp only: unsigned_of_nat) (simp add: take_bit_nat_eq_self)
    finally show ?thesis .
  qed
  from decode_scnhdrs [of "logical mp secs" ?k] sec(3) obtain hs where
    hs: "decode_all 7 decode_scnhdr ?k (logical mp secs) = Some hs" by auto
  obtain a fr where blk: "blk = (a, fr)" by (cases blk)
  let ?s1 = "s\<lparr>calls := calls s @ [Host_allocate B_sections ?sz True]\<rparr>"
  have al: "Allocate env s B_sections ?sz = (?s1, Some (a, map fr [0 ..< unat ?sz]))"
    using assms(7) by (simp add: Allocate_def blk)
  have rd: "readBuffer (strm s) (map fr [0 ..< unat ?sz]) 0 ?sz
      = Some ((strm s)\<lparr>posn := posn (strm s) + 4 * length secs\<rparr>, bytes_of secs, sections_siz ?k)"
    using readBuffer_words [OF assms(2,3), of ?sz "map fr [0 ..< unat ?sz]" 0 0] sec(3) u siz by simp
  have fo: "fix_order (?s1\<lparr>sect_hdrs_p := True\<rparr>) (bytes_of secs) 0 (sections_siz ?k) = Some (bytes_of (logical mp secs))"
    using fix_order_all [of secs "?s1\<lparr>sect_hdrs_p := True\<rparr>" "sections_siz ?k"] ne sec(3) assms(6) siz by simp
  have ck: "dload_checksum (bytes_of (logical mp secs)) 0 (sections_siz ?k) = Some (sum_list (logical mp secs))"
    using dload_checksum_words [of "[]" "logical mp secs" "[]"] sec(3) siz by simp
  show ?thesis
    using hs chk assms(4,5) w al rd fo ck by (simp add: dload_sections_def Let_def)
qed

lemma dload_clear_simps [simp]:
  "strm (dload_clear st t) = st" "calls (dload_clear st t) = []" "reorder_map (dload_clear st t) = 0"
  "myoptions (dload_clear st t) = 0" "dload_errors (dload_clear st t) = []" "str_head (dload_clear st t) = None"
  "sect_hdrs_p (dload_clear st t) = False"
  by (simp_all add: dload_clear_def)

lemma live_first [simp]: "live [Host_allocate b n ok] = (if ok then {b} else {})"
  using live_simps(2) [of "[]"] by simp

lemma opened:
  assumes "Allocate env (dload_clear st t) B_module sizeof_dload_state = (s0, Some blk)" and "dload_headers s0 = Some s1"
    and "dload_errors s1 = []" and "dload_strings env s1 True = Some s2"
    and "setFilePosn (strm s2) (36 + 20 + DOFF_ALIGN (df_strtab_size (dfile_hdr s2))) = Some (st2, 0)"
    and "dload_errors s2 = []" and "dload_sections env (s2\<lparr>strm := st2\<rparr>) = Some s4" and "dload_errors s4 = []"
  shows "DLOAD_module_open env (Some st) (Some t) = Some (s4, True)"
  using assms by (simp add: DLOAD_module_open_def Let_def)

lemma module_open_file:
  assumes "doff_file_ok mp h v hdrs strs secs" and "filePointer st = Some (bytes_of hdrs @ bytes_of strs @ bytes_of secs @ rest)"
    and "posn st = 0" and "\<forall>es b n. host_allocate env es b n \<noteq> None"
  shows "\<exists>s hs k. DLOAD_module_open env (Some st) (Some t) = Some (s, True) \<and> dload_errors s = [] \<and> dfile_hdr s = h
    \<and> reorder_map s = mp \<and> 4 * k = unat (DOFF_ALIGN (df_scn_name_size h)) \<and> str_head s = Some (bytes_of (logical mp (take k strs)))
    \<and> decode_all 7 decode_scnhdr (unat (df_no_scns h)) (logical mp secs) = Some hs \<and> sect_hdrs s = hs
    \<and> live (calls s) = {B_module, B_strings, B_sections}"
proof -
  let ?f = "bytes_of hdrs @ bytes_of strs @ bytes_of secs @ rest"
  from assms(4) have al: "\<exists>blk. host_allocate env es b n = Some blk" for es b n by auto
  obtain a0 fr0 where b0: "host_allocate env [] B_module sizeof_dload_state = Some (a0, fr0)" using al by fast
  let ?s0 = "(dload_clear st t)\<lparr>calls := [Host_allocate B_module sizeof_dload_state True]\<rparr>"
  have a: "Allocate env (dload_clear st t) B_module sizeof_dload_state = (?s0, Some (a0, map fr0 [0 ..< unat sizeof_dload_state]))"
    using b0 by (simp add: Allocate_def)
  let ?s1 = "?s0\<lparr>strm := st\<lparr>posn := 56\<rparr>, dfile_hdr := h, verify := v, reorder_map := mp,
    big_e_target := (df_flags h AND DF_BIG \<noteq> 0)\<rparr>"
  have h: "dload_headers ?s0 = Some ?s1"
    using dload_headers_file [OF assms(1), of ?s0 ?f "bytes_of strs @ bytes_of secs @ rest"] assms(2,3) by simp
  obtain b1 where b1: "host_allocate env (calls ?s1) B_strings (DOFF_ALIGN (df_scn_name_size h)) = Some b1" using al by blast
  from dload_strings_names [OF assms(1), of ?s1 ?f "bytes_of secs @ rest", OF _ _ _ _ _ b1] assms(2) obtain k where
    k: "4 * k = unat (DOFF_ALIGN (df_scn_name_size h))" and
    st: "dload_strings env ?s1 True = Some (?s1\<lparr>strm := st\<lparr>posn := 56 + 4 * k\<rparr>,
      calls := calls ?s1 @ [Host_allocate B_strings (DOFF_ALIGN (df_scn_name_size h)) True],
      str_head := Some (bytes_of (logical mp (take k strs)))\<rparr>)" by auto
  let ?s2 = "?s1\<lparr>strm := st\<lparr>posn := 56 + 4 * k\<rparr>, calls := calls ?s1 @ [Host_allocate B_strings (DOFF_ALIGN (df_scn_name_size h)) True],
      str_head := Some (bytes_of (logical mp (take k strs)))\<rparr>"
  from assms(1) have sz: "DOFF_ALIGN (df_strtab_size h) = of_nat (4 * length strs)" "4 * length strs < 2 ^ 31 - 56" "length hdrs = 14"
    unfolding doff_file_ok_def by blast+
  let ?p = "36 + 20 + DOFF_ALIGN (df_strtab_size (dfile_hdr ?s2))"
  have "?p = of_nat (56 + 4 * length strs)" using sz(1) by simp
  then have "unat ?p = unat (of_nat (56 + 4 * length strs) :: u32)" by (rule arg_cong)
  also have "\<dots> = 56 + 4 * length strs" using sz(2) by (simp only: unsigned_of_nat) (simp add: take_bit_nat_eq_self)
  finally have u: "unat ?p = 56 + 4 * length strs" .
  then have "sint ?p = int (56 + 4 * length strs)" using sz(2) by (intro sint_small) simp_all
  with u assms(2) have sk: "setFilePosn (strm ?s2) ?p = Some (st\<lparr>posn := 56 + 4 * length strs\<rparr>, 0)"
    by (simp add: setFilePosn_def)
  let ?s3 = "?s2\<lparr>strm := st\<lparr>posn := 56 + 4 * length strs\<rparr>\<rparr>"
  obtain b3 where b3: "host_allocate env (calls ?s3) B_sections (28 * ucast (df_no_scns h)) = Some b3" using al by blast
  have d: "drop (posn (strm ?s3)) ?f = bytes_of secs @ rest" using sz(3) by simp
  from dload_sections_file [OF assms(1), of ?s3 ?f rest, OF _ d _ _ _ b3] assms(2) obtain hs where
    hs: "decode_all 7 decode_scnhdr (unat (df_no_scns h)) (logical mp secs) = Some hs" and
    sc: "dload_sections env ?s3 = Some (?s3\<lparr>strm := st\<lparr>posn := 56 + 4 * length strs + 4 * length secs\<rparr>,
      calls := calls ?s3 @ [Host_allocate B_sections (28 * ucast (df_no_scns h)) True], sect_hdrs_p := True, sect_hdrs := hs\<rparr>)"
    by (auto simp: add_ac)
  let ?s4 = "?s3\<lparr>strm := st\<lparr>posn := 56 + 4 * length strs + 4 * length secs\<rparr>,
      calls := calls ?s3 @ [Host_allocate B_sections (28 * ucast (df_no_scns h)) True], sect_hdrs_p := True, sect_hdrs := hs\<rparr>"
  have "DLOAD_module_open env (Some st) (Some t) = Some (?s4, True)"
  proof (rule opened [OF a h _ st sk _ sc])
  qed simp_all
  moreover have "live (calls ?s4) = {B_module, B_strings, B_sections}"
    using live_simps(2) [of "[]"] by (auto simp flip: append_assoc append_Cons) 
  ultimately show ?thesis using hs k by (intro exI [of _ ?s4] exI [of _ hs] exI [of _ k]) simp
qed

text \<open>
  C30: A well-formed file opens, in either byte order: the handle holds the header, the section names
  and the section headers in the order of the host, no error is reported, and three blocks of
  memory are in use.
\<close>

theorem DLOAD_module_open_reads:
  assumes "doff_file_ok mp h v hdrs strs secs" and "filePointer st = Some (bytes_of hdrs @ bytes_of strs @ bytes_of secs @ rest)"
    and "posn st = 0" and "\<forall>es b n. host_allocate env es b n \<noteq> None"
  shows "\<exists>s hs k. DLOAD_module_open env (Some st) (Some t) = Some (s, True) \<and> dload_errors s = [] \<and> dfile_hdr s = h
    \<and> reorder_map s = mp \<and> 4 * k = unat (DOFF_ALIGN (df_scn_name_size h)) \<and> str_head s = Some (bytes_of (logical mp (take k strs)))
    \<and> decode_all 7 decode_scnhdr (unat (df_no_scns h)) (logical mp secs) = Some hs \<and> sect_hdrs s = hs
    \<and> live (calls s) = {B_module, B_strings, B_sections}"
  using assms by (rule module_open_file)

text \<open>A file with one section, named \<open>a\<close>, of one packet.\<close>

definition sample_env :: dl_env where
  "sample_env = \<lparr>host_allocate = \<lambda>_ _ _. Some (0x1000, \<lambda>_. 0), alloc_given = True, tgt_allocate = \<lambda>_ _ _. None, init_given = True,
     io_connect = \<lambda>_. True, io_writemem = \<lambda>_. True, io_execute = \<lambda>_. True, sym_malloc = \<lambda>_. True\<rparr>"

definition sample_hdrs :: "u32 list" where
  "sample_hdrs = [4, 0, 0x10203, 4, 0, 0x10001, 0x990000, 0, 0xFF64FDF3, 0, 0xFFFFFF92, 0, 0, 0x6D]"

definition sample_filehdr :: doff_filehdr where
  "sample_filehdr = \<lparr>df_strtab_size = 4, df_entrypt = 0, df_byte_reshuffle = 0x10203, df_scn_name_size = 4, df_no_syms = 0,
     df_max_str_len = 0, df_no_scns = 1, df_target_scns = 1, df_doff_version = 0, df_target_id = 0x99, df_flags = 0,
     df_entry_secn = 0, df_checksum = 0xFF64FDF3\<rparr>"

definition sample_verify :: doff_verify_rec where
  "sample_verify = \<lparr>dv_timdat = 0, dv_scn_rec_checksum = 0xFFFFFF92, dv_str_tab_checksum = 0, dv_sym_tab_checksum = 0,
     dv_verify_rec_checksum = 0x6D\<rparr>"

lemma sample_ok: "doff_file_ok 0 sample_filehdr sample_verify sample_hdrs [0x61] [0, 0, 0, 8, 0, 0x64, 1]"
proof -
  have a: "DOFF_ALIGN 4 = 4" by code_simp
  have "decode_filehdr (take 9 sample_hdrs) = Some sample_filehdr" by code_simp
  moreover have "decode_verify (drop 9 sample_hdrs) = Some sample_verify" by code_simp
  moreover have "sum_list (take 9 sample_hdrs) = - 1" "sum_list (drop 9 sample_hdrs) = - 1" by code_simp+
  moreover have "NOT (sum_list [0, 0, 0, 8, 0, 0x64, 1]) = (0xFFFFFF92 :: u32)" by code_simp
  ultimately show ?thesis
    by (simp add: doff_file_ok_def a file_map_def sample_filehdr_def sample_verify_def BYTE_RESHUFFLE_VALUE_def TARGET_ID_def
        DOFF0_def MAX_REASONABLE_STRINGTAB_def MAX_REASONABLE_SECTIONS_def) (simp add: sample_hdrs_def)
qed

theorem DLOAD_module_open_reads_witness:
  "\<exists>s. DLOAD_module_open sample_env (Some \<lparr>filePointer = Some (bytes_of (sample_hdrs @ [0x61, 0, 0, 0, 8, 0, 0x64, 1])), posn = 0\<rparr>)
     (Some empty_symtab) = Some (s, True) \<and> str_head s = Some [0x61, 0, 0, 0] \<and> dfile_hdr s = sample_filehdr"
proof -
  let ?st = "\<lparr>filePointer = Some (bytes_of (sample_hdrs @ [0x61, 0, 0, 0, 8, 0, 0x64, 1])), posn = 0\<rparr>"
  have f: "filePointer ?st = Some (bytes_of sample_hdrs @ bytes_of [0x61] @ bytes_of [0, 0, 0, 8, 0, 0x64, 1] @ [])" by simp
  have e: "\<forall>es b n. host_allocate sample_env es b n \<noteq> None" by (simp add: sample_env_def)
  have n: "unat (DOFF_ALIGN (df_scn_name_size sample_filehdr)) = 4" by code_simp
  have b: "bytes_of [0x61] = [0x61, 0, 0, 0]" by code_simp
  from DLOAD_module_open_reads [OF sample_ok f _ e, of empty_symtab] obtain s k where
    "DLOAD_module_open sample_env (Some ?st) (Some empty_symtab) = Some (s, True)" "dfile_hdr s = sample_filehdr"
    "4 * k = unat (DOFF_ALIGN (df_scn_name_size sample_filehdr))" "str_head s = Some (bytes_of (logical 0 (take k [0x61])))" by auto
  with n b show ?thesis by auto
qed

lemma readBuffer_file: "readBuffer st b p n = Some (st', b', k) \<Longrightarrow> filePointer st' = filePointer st"
  by (auto simp: readBuffer_def Let_def split: bind_splits if_splits)

lemma module_open_stream:
  assumes "DLOAD_module_open env (Some st) (Some t) = Some (s, True)"
  shows "filePointer (strm s) = filePointer st"
proof -
  have h: "filePointer (strm s') = filePointer (strm s)" if "dload_headers s = Some s'" for s s'
    using that by (auto simp: dload_headers_def store_headers_def dload_error_def Let_def dest!: readBuffer_file
        split: bind_splits if_splits option.splits prod.splits)
  have n: "filePointer (strm s') = filePointer (strm s)" if "dload_strings env s b = Some s'" for s s' b
    using that by (auto simp: dload_strings_def dload_error_def Allocate_def Let_def dest!: readBuffer_file
        split: bind_splits if_splits option.splits prod.splits)
  have c: "filePointer (strm s') = filePointer (strm s)" if "dload_sections env s = Some s'" for s s'
    using that by (auto simp: dload_sections_def dload_error_def Allocate_def Let_def dest!: readBuffer_file
        split: bind_splits if_splits option.splits prod.splits)
  have p: "filePointer st' = filePointer st" if "setFilePosn st k = Some (st', r)" for st st' k r
    using that by (auto simp: setFilePosn_def split: bind_splits if_splits)
  show ?thesis
    using assms
    by (auto simp: DLOAD_module_open_def Allocate_def Let_def DLOAD_module_close_def split: bind_splits if_splits option.splits prod.splits
        dest!: h n c p)
qed

subsection \<open>Refused files\<close>

lemma dload_headers_frame:
  "dload_headers s = Some s' \<Longrightarrow> calls s' = calls s \<and> str_head s' = str_head s \<and> sect_hdrs_p s' = sect_hdrs_p s"
  by (auto simp: dload_headers_def store_headers_def dload_error_def Let_def split: bind_splits if_splits option.splits prod.splits)

lemma dload_strings_frame:
  assumes "dload_strings env s b = Some s'" and "str_head s = None" and "B_strings \<notin> live (calls s)"
  shows "sect_hdrs_p s' = sect_hdrs_p s \<and> live (calls s') = live (calls s) \<union> (if str_head s' \<noteq> None then {B_strings} else {})"
  using assms
  by (auto simp: dload_strings_def dload_error_def Allocate_def Let_def split: bind_splits if_splits option.splits prod.splits)

lemma dload_sections_frame:
  assumes "dload_sections env s = Some s'" and "\<not> sect_hdrs_p s" and "B_sections \<notin> live (calls s)"
  shows "str_head s' = str_head s \<and> live (calls s') = live (calls s) \<union> (if sect_hdrs_p s' then {B_sections} else {})"
  using assms
  by (auto simp: dload_sections_def dload_error_def Allocate_def Let_def split: bind_splits if_splits option.splits prod.splits)

lemma module_close_frees:
  assumes "live (calls s) = {B_module} \<union> (if str_head s \<noteq> None then {B_strings} else {}) \<union> (if sect_hdrs_p s then {B_sections} else {})"
  shows "live (calls (DLOAD_module_close s)) = {}"
  using assms by (auto simp: DLOAD_module_close_def Let_def split: if_splits)

text \<open>
  Whatever the file holds, when no handle is returned every block of memory has been released,
  except on one path: a failing seek to the sections returns without closing, so that the
  state of the module and the string table are never released.
\<close>

theorem DLOAD_module_open_refused:
  assumes "DLOAD_module_open env (Some st) (Some t) = Some (s, False)"
  shows "live (calls s) = {} \<or> (\<exists>es. dload_errors s = es @ [E_SEEK]) \<and> B_module \<in> live (calls s)"
proof -
  obtain s0 ob where al: "Allocate env (dload_clear st t) B_module sizeof_dload_state = (s0, ob)" by fastforce
  show ?thesis
  proof (cases ob)
    case None
    with assms al show ?thesis by (auto simp: DLOAD_module_open_def dload_error_def Allocate_def Let_def)
  next
    case (Some blk)
    note run = assms [unfolded DLOAD_module_open_def Let_def prod.case option.case al Some]
    obtain s1 where h: "dload_headers s0 = Some s1" using run by (cases "dload_headers s0") simp_all
    obtain s2 where st: "(if dload_errcount s1 = 0 then dload_strings env s1 True else Some s1) = Some s2"
      using run by (cases "if dload_errcount s1 = 0 then dload_strings env s1 True else Some s1") (simp_all add: h)
    note run2 = run [unfolded h bind.bind_lunit st]
    obtain st2 r where sk: "setFilePosn (strm s2) (36 + 20 + DOFF_ALIGN (df_strtab_size (dfile_hdr s2))) = Some (st2, r)"
      using run2 by (cases "setFilePosn (strm s2) (36 + 20 + DOFF_ALIGN (df_strtab_size (dfile_hdr s2)))") auto
    let ?s3 = "s2\<lparr>strm := st2\<rparr>"
    have e: "(if r \<noteq> 0 then Some (dload_error ?s3 E_SEEK, False)
        else do { s4 \<leftarrow> (if dload_errcount ?s3 = 0 then dload_sections env ?s3 else Some ?s3);
          Some (if dload_errcount s4 \<noteq> 0 then (DLOAD_module_close s4, False) else (s4, True)) }) = Some (s, False)"
      using run2 by (simp only: sk prod.case bind.bind_lunit)
    from al Some have s0: "live (calls s0) = {B_module}" "str_head s0 = None" "\<not> sect_hdrs_p s0"
      using live_simps(2) [of "[]"] by (auto simp: Allocate_def Let_def)
    with dload_headers_frame [OF h] have s1: "live (calls s1) = {B_module}" "str_head s1 = None" "\<not> sect_hdrs_p s1" by simp_all
    have s2: "live (calls s2) = {B_module} \<union> (if str_head s2 \<noteq> None then {B_strings} else {})" "\<not> sect_hdrs_p s2"
      using st dload_strings_frame [of env s1 True s2] s1 by (auto split: if_splits)
    show ?thesis
    proof (cases "r = 0")
      case False
      with e s2 show ?thesis by (auto simp: dload_error_def)
    next
      case True
      with e obtain s4 where
        s4: "(if dload_errcount s2 = 0 then dload_sections env (s2\<lparr>strm := st2\<rparr>) else Some (s2\<lparr>strm := st2\<rparr>)) = Some s4"
        and s: "s = DLOAD_module_close s4" by (auto split: bind_splits if_splits)
      have "live (calls s4) = {B_module} \<union> (if str_head s4 \<noteq> None then {B_strings} else {}) \<union> (if sect_hdrs_p s4 then {B_sections} else {})"
      proof (cases "dload_errcount ?s3 = 0")
        case True
        with s4 have "dload_sections env ?s3 = Some s4" by simp
        moreover have "B_sections \<notin> live (calls ?s3)" using s2(1) by simp
        ultimately have "str_head s4 = str_head s2 \<and> live (calls s4) = live (calls s2) \<union> (if sect_hdrs_p s4 then {B_sections} else {})"
          using dload_sections_frame [of env ?s3 s4] s2(2) by simp
        with s2(1) show ?thesis by simp
      next
        case False
        with s4 have "s4 = ?s3" by simp
        with s2 show ?thesis by simp
      qed
      then show ?thesis unfolding s by (simp add: module_close_frees)
    qed
  qed
qed

theorem DLOAD_module_open_refused_witness:
  "\<exists>s. DLOAD_module_open sample_env (Some \<lparr>filePointer = Some [0, 0, 0, 0x80], posn = 0\<rparr>) (Some empty_symtab) = Some (s, False)
     \<and> (\<exists>es. dload_errors s = es @ [E_SEEK]) \<and> B_module \<in> live (calls s)"
proof -
  let ?r = "DLOAD_module_open sample_env (Some \<lparr>filePointer = Some [0, 0, 0, 0x80], posn = 0\<rparr>) (Some empty_symtab)"
  have "map_option (\<lambda>(s, ok). (ok, B_module \<in> live (calls s))) ?r = Some (False, True)" by code_simp
  then obtain s where s: "?r = Some (s, False)" "B_module \<in> live (calls s)" by auto
  then have "live (calls s) \<noteq> {}" by blast
  with DLOAD_module_open_refused [OF s(1)] s show ?thesis by blast
qed

subsection \<open>Packets and the buffer\<close>

text \<open>What the header of a packet decides before its image is read.\<close>

lemma get_packets_read:
  assumes "filePointer (strm s) = Some f" and "drop (posn (strm s)) f = bytes_of hw @ r" and "length hw = 3"
    and "logical (reorder_map s) hw = [nr, sz, chk]" and "DOFF_ALIGN sz = k" and "sint k \<le> int IMAGE_PACKET_SIZE"
    and "length data < dest + length (take (unat k) r)"
  shows "get_packets (Suc nip) s data dest = None"
proof -
  have "hw \<noteq> []" using assms(3) by auto
  let ?st1 = "(strm s)\<lparr>posn := posn (strm s) + 12\<rparr>"
  have r1: "readBuffer (strm s) (replicate IPH_SIZE 0) 0 (of_nat IPH_SIZE) = Some (?st1, bytes_of hw, int IPH_SIZE)"
    using readBuffer_words [OF assms(1), of hw r 12 "replicate 12 0" 0 0] assms(2,3) by (simp add: IPH_SIZE_def)
  have o1: "fix_order s (bytes_of hw) 0 (int IPH_SIZE) = Some (bytes_of [nr, sz, chk])"
    using fix_order_all [of hw s "int IPH_SIZE"] assms(3,4) \<open>hw \<noteq> []\<close> by (simp add: IPH_SIZE_def)
  have d1: "decode_packet (words_of (bytes_of [nr, sz, chk])) = Some \<lparr>i_num_relocs = nr, i_packet_size = sz, i_checksum = chk\<rparr>"
    by (simp only: words_of_all) simp
  have "drop (posn ?st1) f = drop 12 (drop (posn (strm s)) f)" by (simp add: add.commute)
  then have r: "drop (posn ?st1) f = r" using assms(2,3) by simp
  then have "readBuffer ?st1 data dest k = None \<longleftrightarrow> length data < dest + length (take (unat k) r)"
    using assms(1) by (simp add: readBuffer_def Let_def not_le flip: length_drop)
  with assms(7) have r2: "readBuffer ?st1 data dest k = None" by simp
  show ?thesis using assms(6) by (simp add: r1 o1 d1 assms(5) r2 Let_def del: bytes_of_simps)
qed

lemma get_packets_overrun:
  assumes "\<forall>pk \<in> set pks. packet_ok (reorder_map s) pk" and "filePointer (strm s) = Some f"
    and "drop (posn (strm s)) f = bytes_of (packet_words pks) @ rest"
    and "length data < dest + 4 * length (packet_image (reorder_map s) pks)" and "dest \<le> length data"
  shows "get_packets (length pks) s data dest = None"
  using assms
proof (induction pks arbitrary: s data dest)
  case Nil
  then show ?case by simp
next
  case (Cons pk pks)
  obtain hw pw where pk: "pk = (hw, pw)" by (cases pk)
  let ?mp = "reorder_map s"
  have ok: "packet_ok ?mp (hw, pw)" using Cons.prems(1) by (simp add: pk)
  have len: "length hw = 3" using packet_header [OF ok] .
  from ok obtain sz chk where hw: "logical ?mp hw = [0, sz, chk]" "DOFF_ALIGN sz = of_nat (4 * length pw)" "4 * length pw \<le> IMAGE_PACKET_SIZE"
    by (auto simp: packet_ok_def)
  show ?case
  proof (cases "dest + 4 * length pw \<le> length data")
    case False
    have "length data < dest + length (take (unat (of_nat (4 * length pw) :: u32)) (bytes_of pw @ bytes_of (packet_words pks) @ rest))"
      using False small_word(1) [OF hw(3)] by simp
    from get_packets_read [OF Cons.prems(2) _ len hw(1,2) _ this] Cons.prems(3) small_word(2) [OF hw(3)] hw(3) show ?thesis
      by (simp add: pk)
  next
    case True
    let ?s1 = "s\<lparr>strm := (strm s)\<lparr>posn := posn (strm s) + 12 + 4 * length pw\<rparr>\<rparr>"
    let ?d1 = "take dest data @ bytes_of (logical ?mp pw) @ drop (dest + 4 * length pw) data"
    have "get_packets (length (pk # pks)) s data dest = get_packets (length pks) ?s1 ?d1 (dest + 4 * length pw)"
      using get_packets_step [OF ok Cons.prems(2), of "bytes_of (packet_words pks) @ rest" data dest "length data - (dest + 4 * length pw)" "length pks"]
        Cons.prems(3) True by (simp add: pk)
    moreover have "drop (posn (strm ?s1)) f = drop (12 + 4 * length pw) (drop (posn (strm s)) f)" by (simp add: add_ac)
    then have "drop (posn (strm ?s1)) f = bytes_of (packet_words pks) @ rest" using Cons.prems(3) len by (simp add: pk)
    then have "get_packets (length pks) ?s1 ?d1 (dest + 4 * length pw) = None"
      using Cons.IH [of ?s1 ?d1 "dest + 4 * length pw"] Cons.prems True by (simp add: pk)
    ultimately show ?thesis by simp
  qed
qed

text \<open>
  The packets are not measured against the buffer: a section whose packets hold more than the
  buffer is written past its end, even when every packet is well-formed.
\<close>

theorem DLOAD_GetSection_overruns:
  assumes "i < length (sect_hdrs s)" and "h = sect_hdrs s ! i" and "filePointer (strm s) = Some f"
    and "p = unat (DOFF_ALIGN (ds_first_pkt_offset h))" and "p < 2 ^ 31"
    and "drop p f = bytes_of (packet_words pks) @ rest" and "\<forall>pk \<in> set pks. packet_ok (reorder_map s) pk"
    and "ds_nipacks h = of_nat (length pks)" and "length pks < 2 ^ 31"
    and "length data < 4 * length (packet_image (reorder_map s) pks)"
  shows "DLOAD_GetSection (Some s) (Some i) data = None"
proof -
  have w: "sint (DOFF_ALIGN (ds_first_pkt_offset h)) = int p" using assms(4,5) by (simp add: sint_small)
  have "get_packets (length pks) (s\<lparr>strm := (strm s)\<lparr>posn := p\<rparr>\<rparr>) data 0 = None"
    using get_packets_overrun [of pks "s\<lparr>strm := (strm s)\<lparr>posn := p\<rparr>\<rparr>" f rest data 0] assms(3,6,7,10) by simp
  with assms(1-4) w packet_count_nat [OF assms(8,9)] show ?thesis
    by (simp add: DLOAD_GetSection_def setFilePosn_def Let_def)
qed

text \<open>
  A negative packet size passes the check against the size of a packet: the read is asked for
  nearly 4 GB, and everything left of the file is stored from the start of the buffer on.
\<close>

theorem negative_packet_size_overruns:
  assumes "i < length (sect_hdrs s)" and "h = sect_hdrs s ! i" and "filePointer (strm s) = Some f"
    and "p = unat (DOFF_ALIGN (ds_first_pkt_offset h))" and "p < 2 ^ 31" and "drop p f = bytes_of hw @ r" and "length hw = 3"
    and "logical (reorder_map s) hw = [nr, sz, chk]" and "sint (DOFF_ALIGN sz) < 0" and "0 < sint (ds_nipacks h)"
    and "length data < length r" and "length data < 2 ^ 31"
  shows "DLOAD_GetSection (Some s) (Some i) data = None"
proof -
  have w: "sint (DOFF_ALIGN (ds_first_pkt_offset h)) = int p" using assms(4,5) by (simp add: sint_small)
  obtain nip where n: "packet_count h = Some (Suc nip)"
  proof -
    have "ds_nipacks h \<noteq> 0x80000000" using assms(10) by auto
    with assms(10) that show ?thesis by (cases "nat (sint (ds_nipacks h))") (auto simp: packet_count_def)
  qed
  have "\<not> unat (DOFF_ALIGN sz) < 2 ^ 31"
    using sint_small [OF refl, of "DOFF_ALIGN sz"] assms(9) by auto
  then have "length data < length (take (unat (DOFF_ALIGN sz)) r)" using assms(11,12) by simp
  then have "get_packets (Suc nip) (s\<lparr>strm := (strm s)\<lparr>posn := p\<rparr>\<rparr>) data 0 = None"
    using get_packets_read [of "s\<lparr>strm := (strm s)\<lparr>posn := p\<rparr>\<rparr>" f hw r nr sz chk "DOFF_ALIGN sz" data 0 nip] assms(3,6-9)
    by simp
  with assms(1-4) w n show ?thesis
    by (simp add: DLOAD_GetSection_def setFilePosn_def Let_def)
qed


definition packet_state :: "u32 list \<Rightarrow> dload_state" where
  "packet_state ws = (dload_clear \<lparr>filePointer = Some (bytes_of ws), posn = 0\<rparr> empty_symtab)
     \<lparr>sect_hdrs := [\<lparr>ds_offset = 0, ds_paddr = 0, ds_vaddr = 0, ds_size = 4, ds_page = 0, ds_flags = 0, ds_first_pkt_offset = 0, ds_nipacks = 1\<rparr>]\<rparr>"

lemma packet_state_simps [simp]:
  "reorder_map (packet_state ws) = 0" "filePointer (strm (packet_state ws)) = Some (bytes_of ws)"
  "sect_hdrs (packet_state ws) = [\<lparr>ds_offset = 0, ds_paddr = 0, ds_vaddr = 0, ds_size = 4, ds_page = 0, ds_flags = 0,
     ds_first_pkt_offset = 0, ds_nipacks = 1\<rparr>]"
  by (simp_all add: packet_state_def)

theorem DLOAD_GetSection_overruns_witness:
  "DLOAD_GetSection (Some (packet_state [0, 8, 0xFFFFFFF4, 1, 2])) (Some 0) [0, 0, 0, 0] = None"
proof -
  have a: "DOFF_ALIGN 8 = 8" "DOFF_ALIGN 0 = 0" by code_simp+
  have k: "packet_ok 0 ([0, 8, 0xFFFFFFF4], [1, 2])" by (simp add: packet_ok_def IMAGE_PACKET_SIZE_def a)
  show ?thesis
    using DLOAD_GetSection_overruns [of 0 "packet_state [0, 8, 0xFFFFFFF4, 1, 2]" _ _ 0 "[([0, 8, 0xFFFFFFF4], [1, 2])]" "[]" "[0, 0, 0, 0]"] a k
    by simp
qed

theorem negative_packet_size_overruns_witness:
  "DLOAD_GetSection (Some (packet_state [0, 0xFFFFFFF8, 0, 1, 2])) (Some 0) [0, 0, 0, 0] = None"
proof -
  have a: "sint (DOFF_ALIGN 0xFFFFFFF8) < 0" "DOFF_ALIGN 0 = 0" by code_simp+
  show ?thesis
    using negative_packet_size_overruns [of 0 "packet_state [0, 0xFFFFFFF8, 0, 1, 2]" _ _ 0 "[0, 0xFFFFFFF8, 0]" "bytes_of [1, 2]" 0 "0xFFFFFFF8" 0 "[0, 0, 0, 0]"] a
    by simp
qed

theorem DLOAD_GetSectionInfo_finds_witness:
  "DLOAD_GetSectionInfo (Some ((packet_state [])\<lparr>str_head := Some [0x62, 0, 0x61, 0],
      sect_hdrs := map (\<lambda>k. \<lparr>ds_offset = k, ds_paddr = 0, ds_vaddr = 0, ds_size = 4, ds_page = 0, ds_flags = 0,
        ds_first_pkt_offset = 0, ds_nipacks = 1\<rparr>) [0, 2, 2], dfile_hdr := sample_filehdr\<lparr>df_no_scns := 3\<rparr>\<rparr>)) [0x61] = Some (Some 1)"
proof -
  let ?s = "(packet_state [])\<lparr>str_head := Some [0x62, 0, 0x61, 0],
      sect_hdrs := map (\<lambda>k. \<lparr>ds_offset = k, ds_paddr = 0, ds_vaddr = 0, ds_size = 4, ds_page = 0, ds_flags = 0,
        ds_first_pkt_offset = 0, ds_nipacks = 1\<rparr>) [0, 2, 2], dfile_hdr := sample_filehdr\<lparr>df_no_scns := 3\<rparr>\<rparr>"
  have "names_at [0x62, 0, 0x61, 0] (sect_hdrs ?s) [[0x62], [0x61], [0x61]]" by (simp add: names_at_def)
  then show ?thesis
    using DLOAD_GetSectionInfo_finds [of ?s "[0x62, 0, 0x61, 0]" "[[0x62], [0x61], [0x61]]" "[0x61]"] by simp
qed

end
