(* ===== verification/Dload_Expr.thy ===== *)
theory Dload_Expr
  imports Dload_Reloc
begin

section \<open>Relocation expressions\<close>

text \<open>
  The relocation types from \<open>0x4000\<close> on form a stack machine: a linker describes an expression over
  constants and symbols in postfix order, one relocation record per operand or operator, and ends it
  with a record that stores the result in a field of the image. Here the expressions are a data type
  with its own evaluation, \<open>reloc_code\<close> is their postfix form, and \<open>dload_relocate\<close> is shown to
  evaluate them.
\<close>

subsection \<open>Running a sequence of relocations\<close>

primrec run_relocs :: "dload_state \<Rightarrow> u8 list \<Rightarrow> reloc_record list \<Rightarrow> (dload_state \<times> u8 list) option" where
  "run_relocs s img [] = Some (s, img)"
| "run_relocs s img (rp # rps) = do { (s', img') \<leftarrow> dload_relocate s img rp; run_relocs s' img' rps }"

lemma run_relocs_append:
  "run_relocs s img (xs @ ys) = do { (s', img') \<leftarrow> run_relocs s img xs; run_relocs s' img' ys }"
  by (induction xs arbitrary: s img) (auto split: option.splits Option.bind_splits)

subsection \<open>Expressions\<close>

datatype rel_binop = OpPlus | OpSub | OpMpy | OpDiv | OpMod | OpShr | OpShl | OpAnd | OpOr | OpXor
datatype rel_unop = OpNeg | OpNot
datatype rel_expr = Lit u32 | Sym u16 | Binary rel_binop rel_expr rel_expr | Unary rel_unop rel_expr

fun binop_value :: "rel_binop \<Rightarrow> u32 \<Rightarrow> u32 \<Rightarrow> u32 option" where
  "binop_value OpPlus a b = Some (a + b)"
| "binop_value OpSub a b = Some (a - b)"
| "binop_value OpMpy a b = Some (a * b)"
| "binop_value OpDiv a b = c_div a b"
| "binop_value OpMod a b = c_mod a b"
| "binop_value OpShr a b = Some (if b < 32 then drop_bit (unat b) a else 0)"
| "binop_value OpShl a b = Some (if b < 32 then push_bit (unat b) a else 0)"
| "binop_value OpAnd a b = Some (a AND b)"
| "binop_value OpOr a b = Some (a OR b)"
| "binop_value OpXor a b = Some (a XOR b)"

fun unop_value :: "rel_unop \<Rightarrow> u32 \<Rightarrow> u32" where
  "unop_value OpNeg a = - a"
| "unop_value OpNot a = NOT a"

fun expr_value :: "dload_state \<Rightarrow> rel_expr \<Rightarrow> u32 option" where
  "expr_value s (Lit v) = Some v"
| "expr_value s (Sym i) = Some (ls_value (local_symtab s ! unat i))"
| "expr_value s (Binary bop a b) = do { x \<leftarrow> expr_value s a; y \<leftarrow> expr_value s b; binop_value bop x y }"
| "expr_value s (Unary uop a) = map_option (unop_value uop) (expr_value s a)"

fun binop_type :: "rel_binop \<Rightarrow> u16" where
  "binop_type OpPlus = 0x4000"
| "binop_type OpSub = 0x4001"
| "binop_type OpMpy = 0x4003"
| "binop_type OpDiv = 0x4004"
| "binop_type OpMod = 0x4005"
| "binop_type OpShr = 0x4006"
| "binop_type OpShl = 0x4008"
| "binop_type OpAnd = 0x4009"
| "binop_type OpOr = 0x400A"
| "binop_type OpXor = 0x400B"

fun unop_type :: "rel_unop \<Rightarrow> u16" where
  "unop_type OpNeg = 0x4002"
| "unop_type OpNot = 0x400C"

definition reloc_op :: "u32 \<Rightarrow> u16 \<Rightarrow> reloc_record" where
  "reloc_op w t = \<lparr>r_vaddr = 0, r_word = w, r_disp = 0, r_type = t\<rparr>"

fun reloc_code :: "rel_expr \<Rightarrow> reloc_record list" where
  "reloc_code (Lit v) = [reloc_op v 0x4012]"
| "reloc_code (Sym i) = [reloc_op (ucast i) 0x4011]"
| "reloc_code (Binary bop a b) = reloc_code a @ reloc_code b @ [reloc_op 0 (binop_type bop)]"
| "reloc_code (Unary uop a) = reloc_code a @ [reloc_op 0 (unop_type uop)]"

text \<open>The stack an expression needs, and the symbols it refers to.\<close>

fun expr_depth :: "rel_expr \<Rightarrow> nat" where
  "expr_depth (Lit v) = 1"
| "expr_depth (Sym i) = 1"
| "expr_depth (Binary bop a b) = max (expr_depth a) (Suc (expr_depth b))"
| "expr_depth (Unary uop a) = expr_depth a"

fun expr_symbols :: "rel_expr \<Rightarrow> u16 list" where
  "expr_symbols (Lit v) = []"
| "expr_symbols (Sym i) = [i]"
| "expr_symbols (Binary bop a b) = expr_symbols a @ expr_symbols b"
| "expr_symbols (Unary uop a) = expr_symbols a"

subsection \<open>Single operations\<close>

text \<open>The table entries of the stack operations.\<close>

lemma stack_ops:
  "dload_relocate s img (reloc_op w 0x4000) = relocate_with s img (reloc_op w 0x4000) 6656 64"
  "dload_relocate s img (reloc_op w 0x4001) = relocate_with s img (reloc_op w 0x4001) 7680 64"
  "dload_relocate s img (reloc_op w 0x4002) = relocate_with s img (reloc_op w 0x4002) 8704 128"
  "dload_relocate s img (reloc_op w 0x4003) = relocate_with s img (reloc_op w 0x4003) 9728 64"
  "dload_relocate s img (reloc_op w 0x4004) = relocate_with s img (reloc_op w 0x4004) 10752 64"
  "dload_relocate s img (reloc_op w 0x4005) = relocate_with s img (reloc_op w 0x4005) 11776 64"
  "dload_relocate s img (reloc_op w 0x4006) = relocate_with s img (reloc_op w 0x4006) 12800 64"
  "dload_relocate s img (reloc_op w 0x4007) = relocate_with s img (reloc_op w 0x4007) 13824 64"
  "dload_relocate s img (reloc_op w 0x4008) = relocate_with s img (reloc_op w 0x4008) 14848 64"
  "dload_relocate s img (reloc_op w 0x4009) = relocate_with s img (reloc_op w 0x4009) 15872 64"
  "dload_relocate s img (reloc_op w 0x400A) = relocate_with s img (reloc_op w 0x400A) 16896 64"
  "dload_relocate s img (reloc_op w 0x400B) = relocate_with s img (reloc_op w 0x400B) 17920 64"
  "dload_relocate s img (reloc_op w 0x400C) = relocate_with s img (reloc_op w 0x400C) 18944 128"
  "dload_relocate s img (reloc_op w 0x4011) = relocate_with s img (reloc_op w 0x4011) 1536 208"
  "dload_relocate s img (reloc_op w 0x4012) = relocate_with s img (reloc_op w 0x4012) 1536 196"
  by (subst known_type, simp add: reloc_op_def, simp, simp add: table_index_simps, simp add: rop_action_def rop_info_def)+

lemmas rfv_simps = RFV_ACCS_def RFV_SIGN_def RFV_SYM_def RFV_STK_def RFV_SCALE_def RFV_ACTION_def RFV_WIDTH_def
  RFV_POSN_def ROP_R_def ROP_W_def RSTK_UOP_def STATIC_EXPR_STK_SIZE_def

text \<open>An operation on the stack alone: a binary one, a unary one, and a push.\<close>

lemma relocate_pop:
  assumes "RFV_ACCS info = 0" "RFV_STK info = 1" "RFV_SYM info = 0"
    and "rd actions (RFV_ACTION act) = Some a" "plain_action a"
    and "relstkidx s = int (Suc (Suc n))" "Suc (Suc n) < 10" "length (relstk s) = 10"
  shows "relocate_with s img rp act info =
    map_option (\<lambda>v. (s\<lparr>relstkidx := int (Suc n), relstk := (relstk s)[Suc n := v]\<rparr>, img))
      (act_value a (s\<lparr>relstkidx := int (Suc n)\<rparr>) rp (r_uval rp) (Some (Some (relstk s ! Suc n))) (relstk s ! Suc (Suc n)))"
proof -
  have idx: "nat (1 + int n) = Suc n" "nat (2 + int n) = Suc (Suc n)" by simp_all
  show ?thesis
    using assms idx
    by (simp add: relocate_with_def reloc_amount_def Let_def RSTK_UOP_def STATIC_EXPR_STK_SIZE_def stk_rd_def
        stk_wr_def perform_plain map_option_case split: option.split)
qed

lemma relocate_unary:
  assumes "RFV_ACCS info = 0" "RFV_STK info = 2" "RFV_SYM info = 0"
    and "rd actions (RFV_ACTION act) = Some a" "plain_action a"
    and "relstkidx s = int (Suc n)" "Suc n < 10" "length (relstk s) = 10"
  shows "relocate_with s img rp act info =
    map_option (\<lambda>v. (s\<lparr>relstkidx := int (Suc n), relstk := (relstk s)[Suc n := v]\<rparr>, img))
      (act_value a (s\<lparr>relstkidx := int (Suc n)\<rparr>) rp (r_uval rp) (Some (Some (relstk s ! Suc n))) (relstk s ! Suc n))"
proof -
  have idx: "nat (int n + 1) = Suc n" "nat (1 + int n) = Suc n" by simp_all
  show ?thesis
    using assms idx
    by (simp add: relocate_with_def reloc_amount_def Let_def RSTK_UOP_def STATIC_EXPR_STK_SIZE_def stk_rd_def
        stk_wr_def perform_plain map_option_case split: option.split)
qed

lemma relocate_push:
  assumes "RFV_ACCS info = 0" "RFV_STK info = 3" "reloc_amount s info rp = Some (amt, svp)"
    and "rd actions (RFV_ACTION act) = Some RACT_ASGN"
    and "relstkidx s = int n" "Suc n < 10" "length (relstk s) = 10"
  shows "relocate_with s img rp act info = Some (s\<lparr>relstkidx := int (Suc n), relstk := (relstk s)[Suc n := amt]\<rparr>, img)"
proof -
  have idx: "nat (int n + 1) = Suc n" "nat (1 + int n) = Suc n" by simp_all
  have "plain_action RACT_ASGN" by (simp add: plain_action_def)
  then show ?thesis
    using assms idx
    by (simp add: relocate_with_def Let_def RSTK_UOP_def STATIC_EXPR_STK_SIZE_def stk_rd_def
        stk_wr_def perform_plain)
qed

lemma binop_step:
  assumes "relstkidx s = int (Suc (Suc n))" and "Suc (Suc n) < 10" and "length (relstk s) = 10"
  shows "dload_relocate s img (reloc_op 0 (binop_type bop)) =
    map_option (\<lambda>v. (s\<lparr>relstkidx := int (Suc n), relstk := (relstk s)[Suc n := v]\<rparr>, img))
      (binop_value bop (relstk s ! Suc n) (relstk s ! Suc (Suc n)))"
  by (cases bop)
    (simp_all add: stack_ops relocate_pop [OF _ _ _ _ _ assms] rfv_simps plain_action_def actions_def
      with_stack_def not_le ac_simps)

lemma unop_step:
  assumes "relstkidx s = int (Suc n)" and "Suc n < 10" and "length (relstk s) = 10"
  shows "dload_relocate s img (reloc_op 0 (unop_type uop)) =
    Some (s\<lparr>relstkidx := int (Suc n), relstk := (relstk s)[Suc n := unop_value uop (relstk s ! Suc n)]\<rparr>, img)"
  by (cases uop)
    (simp_all add: stack_ops relocate_unary [OF _ _ _ _ _ assms] rfv_simps plain_action_def actions_def)

lemma push_literal:
  assumes "relstkidx s = int n" and "Suc n < 10" and "length (relstk s) = 10"
  shows "dload_relocate s img (reloc_op v 0x4012) =
    Some (s\<lparr>relstkidx := int (Suc n), relstk := (relstk s)[Suc n := v]\<rparr>, img)"
proof -
  have "reloc_amount s 196 (reloc_op v 0x4012) = Some (v, None)"
    by (simp add: reloc_op_def reloc_amount_def r_uval_def rfv_simps)
  from relocate_push [OF _ _ this _ assms] show ?thesis by (simp add: stack_ops rfv_simps actions_def)
qed

lemma push_symbol:
  fixes i :: u16
  assumes "relstkidx s = int n" and "Suc n < 10" and "length (relstk s) = 10"
    and "unat i < unat (df_no_syms (dfile_hdr s))" and "unat i < length (local_symtab s)"
  shows "dload_relocate s img (reloc_op (ucast i) 0x4011) =
    Some (s\<lparr>relstkidx := int (Suc n), relstk := (relstk s)[Suc n := ls_value (local_symtab s ! unat i)]\<rparr>, img)"
proof -
  have u: "unat (ucast i :: u32) = unat (i :: 16 word)"
    by (simp add: unsigned_ucast_eq take_bit_nat_eq_self less_trans [OF unsigned_less])
  have "reloc_amount s 208 (reloc_op (ucast i) 0x4011) =
      Some (ls_value (local_symtab s ! unat i), Some (local_symtab s ! unat i))"
    using assms(4,5) by (simp add: reloc_op_def reloc_amount_def rfv_simps ROP_SYMD_def u)
  from relocate_push [OF _ _ this _ assms(1-3)] show ?thesis by (simp add: stack_ops rfv_simps actions_def)
qed

subsection \<open>Evaluation\<close>

definition symbols_ok :: "dload_state \<Rightarrow> rel_expr \<Rightarrow> bool" where
  "symbols_ok s e \<longleftrightarrow> list_all (\<lambda>i. unat i < unat (df_no_syms (dfile_hdr s)) \<and> unat i < length (local_symtab s)) (expr_symbols e)"

definition evaluates :: "dload_state \<Rightarrow> u8 list \<Rightarrow> nat \<Rightarrow> rel_expr \<Rightarrow> bool" where
  "evaluates s img n e \<longleftrightarrow>
     (case expr_value s e of
        None \<Rightarrow> run_relocs s img (reloc_code e) = None
      | Some v \<Rightarrow> \<exists>st. run_relocs s img (reloc_code e) = Some (s\<lparr>relstkidx := int (Suc n), relstk := st\<rparr>, img)
          \<and> length st = 10 \<and> st ! Suc n = v \<and> take (Suc n) st = take (Suc n) (relstk s))"

lemma expr_value_cong [simp]:
  "expr_value (s\<lparr>relstkidx := i\<rparr>) e = expr_value s e" "expr_value (s\<lparr>relstk := st\<rparr>) e = expr_value s e"
  "symbols_ok (s\<lparr>relstkidx := i\<rparr>) e = symbols_ok s e" "symbols_ok (s\<lparr>relstk := st\<rparr>) e = symbols_ok s e"
  by (induction e) (simp_all add: symbols_ok_def)

lemma take_nth_eq: "take (Suc n) xs = take (Suc n) ys \<Longrightarrow> n < length xs \<Longrightarrow> n < length ys \<Longrightarrow> xs ! n = ys ! n"
  by (metis lessI nth_take)

lemma take_less_eq: "take (Suc n) xs = take (Suc n) ys \<Longrightarrow> take n xs = take n ys"
  by (metis min_def take_take Suc_n_not_le_n nat_le_linear)

lemma reloc_code_run:
  assumes "relstkidx s = int n" and "n + expr_depth e < 10" and "length (relstk s) = 10" and "symbols_ok s e"
  shows "evaluates s img n e"
  using assms
proof (induction e arbitrary: s n)
  case (Lit v)
  with push_literal [of s n img v] show ?case
    by (auto simp: evaluates_def intro!: exI [of _ "(relstk s)[Suc n := v]"])
next
  case (Sym i)
  with push_symbol [of s n i img] show ?case
    by (auto simp: evaluates_def symbols_ok_def intro!: exI [of _ "(relstk s)[Suc n := ls_value (local_symtab s ! unat i)]"])
next
  case (Binary bop a b)
  from Binary.prems have oks: "symbols_ok s a" "symbols_ok s b" by (simp_all add: symbols_ok_def)
  from Binary.IH(1) [of s n] Binary.prems oks have ea: "evaluates s img n a" by simp
  show ?case
  proof (cases "expr_value s a")
    case None
    with ea show ?thesis by (simp add: evaluates_def run_relocs_append)
  next
    case (Some x)
    with ea obtain st where
      st: "run_relocs s img (reloc_code a) = Some (s\<lparr>relstkidx := int (Suc n), relstk := st\<rparr>, img)"
        "length st = 10" "st ! Suc n = x" "take (Suc n) st = take (Suc n) (relstk s)"
      by (auto simp: evaluates_def)
    let ?s1 = "s\<lparr>relstkidx := int (Suc n), relstk := st\<rparr>"
    from Binary.IH(2) [of ?s1 "Suc n"] Binary.prems oks st(2) have eb: "evaluates ?s1 img (Suc n) b" by simp
    show ?thesis
    proof (cases "expr_value s b")
      case None
      with eb st(1) Some show ?thesis by (simp add: evaluates_def run_relocs_append)
    next
      case (Some y)
      with eb obtain st2 where
        st2: "run_relocs ?s1 img (reloc_code b) = Some (s\<lparr>relstkidx := int (Suc (Suc n)), relstk := st2\<rparr>, img)"
          "length st2 = 10" "st2 ! Suc (Suc n) = y" "take (Suc (Suc n)) st2 = take (Suc (Suc n)) st"
        by (auto simp: evaluates_def)
      let ?s2 = "s\<lparr>relstkidx := int (Suc (Suc n)), relstk := st2\<rparr>"
      have n: "Suc (Suc n) < 10"
      proof -
        have "0 < expr_depth b" by (induction b) simp_all
        with Binary.prems(2) show ?thesis by simp
      qed
      have x: "st2 ! Suc n = x" using take_nth_eq [OF st2(4)] st(2,3) st2(2) n by simp
      have t: "take (Suc n) st2 = take (Suc n) (relstk s)" using take_less_eq [OF st2(4)] st(4) by simp
      from binop_step [of ?s2 n img bop] n st2(2,3) x
      have "dload_relocate ?s2 img (reloc_op 0 (binop_type bop)) =
          map_option (\<lambda>v. (s\<lparr>relstkidx := int (Suc n), relstk := st2[Suc n := v]\<rparr>, img)) (binop_value bop x y)" by simp
      with st(1) st2(1,2) t n \<open>expr_value s a = Some x\<close> Some show ?thesis
        by (cases "binop_value bop x y")
          (auto simp: evaluates_def run_relocs_append intro!: exI [of _ "st2[Suc n := the (binop_value bop x y)]"])
    qed
  qed
next
  case (Unary uop a)
  from Unary.prems have oks: "symbols_ok s a" by (simp add: symbols_ok_def)
  from Unary.IH [of s n] Unary.prems oks have ea: "evaluates s img n a" by simp
  show ?case
  proof (cases "expr_value s a")
    case None
    with ea show ?thesis by (simp add: evaluates_def run_relocs_append)
  next
    case (Some x)
    with ea obtain st where
      st: "run_relocs s img (reloc_code a) = Some (s\<lparr>relstkidx := int (Suc n), relstk := st\<rparr>, img)"
        "length st = 10" "st ! Suc n = x" "take (Suc n) st = take (Suc n) (relstk s)"
      by (auto simp: evaluates_def)
    have n: "Suc n < 10"
    proof -
      have "0 < expr_depth a" by (induction a) simp_all
      with Unary.prems(2) show ?thesis by simp
    qed
    from unop_step [of "s\<lparr>relstkidx := int (Suc n), relstk := st\<rparr>" n img uop] st n Some show ?thesis
      by (auto simp: evaluates_def run_relocs_append intro!: exI [of _ "st[Suc n := unop_value uop x]"])
  qed
qed

text \<open>The record that ends an expression: the top of the stack is stored in a signed field.\<close>

definition reloc_store :: "nat \<Rightarrow> nat \<Rightarrow> nat \<Rightarrow> reloc_record" where
  "reloc_store p offset fieldsz = \<lparr>r_vaddr = of_nat p, r_word = of_nat (256 * fieldsz + offset), r_disp = 0, r_type = 0x4010\<rparr>"

lemma store_fields:
  assumes "offset < 256" and "fieldsz < 256"
  shows "r_offset (reloc_store p offset fieldsz) = offset" and "r_fieldsz (reloc_store p offset fieldsz) = fieldsz"
proof -
  let ?w = "of_nat (256 * fieldsz + offset) :: u32"
  have "256 * fieldsz + offset < 2 ^ 32" using assms by simp
  then have u: "unat ?w = 256 * fieldsz + offset" by (simp add: unsigned_of_nat take_bit_nat_eq_self del: of_nat_add of_nat_mult)
  have m: "(255 :: u32) = mask 8" by (simp add: mask_eq_exp_minus_1)
  have a: "unat (?w AND 255) = (256 * fieldsz + offset) mod 256"
    unfolding m take_bit_eq_mask [symmetric] by (simp only: unsigned_take_bit_eq u) (simp add: take_bit_eq_mod)
  have d: "unat (drop_bit 8 ?w AND 255) = (256 * fieldsz + offset) div 256 mod 256"
    unfolding m take_bit_eq_mask [symmetric] 
    by (simp only: unsigned_take_bit_eq unsigned_drop_bit_eq u) (use assms in \<open>simp add: take_bit_eq_mod drop_bit_eq_div\<close>)
  show "r_offset (reloc_store p offset fieldsz) = offset"
    using a assms by (simp add: r_offset_def reloc_store_def del: of_nat_add of_nat_mult)
  show "r_fieldsz (reloc_store p offset fieldsz) = fieldsz"
    using d assms by (simp add: r_fieldsz_def reloc_store_def del: of_nat_add of_nat_mult)
qed

lemma known_store:
  "dload_relocate s img (reloc_store p offset fieldsz) = relocate_with s img (reloc_store p offset fieldsz) 0 70"
  by (subst known_type, simp add: reloc_store_def, simp, simp add: table_index_simps, simp add: rop_action_def rop_info_def)

lemma store_step:
  assumes "relstkidx s = int (Suc n)" and "Suc n < 10" and "length (relstk s) = 10"
    and "p < 2 ^ 31" and "offset < 256" and "fieldsz < 256"
  shows "dload_relocate s img (reloc_store p offset fieldsz) =
    map_option (\<lambda>(img', ovf). (let s' = s\<lparr>relstkidx := int n\<rparr> in if ovf then dload_error s' Value_overflows else s', img'))
      (dload_repack (relstk s ! Suc n) img p fieldsz offset ROP_SGN)"
proof -
  have idx: "nat (1 + int n) = Suc n" by simp
  have "unat (of_nat p :: u32) = p" using assms(4) by (simp add: unsigned_of_nat take_bit_nat_eq_self)
  moreover have "sint (of_nat p :: u32) = int p"
    using assms(4) by (simp add: signed_of_nat signed_take_bit_int_eq_self)
  ultimately have v: "sint (r_vaddr (reloc_store p offset fieldsz)) = int p" by (simp add: reloc_store_def)
  show ?thesis
    using assms(1-3) idx v
    by (simp add: known_store relocate_with_def reloc_amount_def rfv_simps stk_rd_def Let_def actions_def
        store_fields [OF assms(5,6)] perform_plain plain_action_def ROP_SGN_def map_option_case split_def
        split: option.split)
qed

text \<open>
  C28: A relocation expression in postfix form, followed by its store, puts the value of the expression
  into the field: for an expression within the stack, the relocations of an expression with a value
  change the image exactly as storing that value does, report an overflow exactly when the value
  does not fit the field, leave the stack index where it was and the older stack entries alone, and
  an expression that divides by zero does not return. (Arithmetic shifts right are not among the
  operators: see \<open>RACT_ASR_loses_value\<close>.)
\<close>

theorem reloc_expression_stored:
  assumes "relstkidx s = int n" and "n + expr_depth e < 10" and "length (relstk s) = 10" and "symbols_ok s e"
    and "p < 2 ^ 31" and "offset < 256" and "fieldsz < 256"
  shows "case expr_value s e of
      None \<Rightarrow> run_relocs s img (reloc_code e @ [reloc_store p offset fieldsz]) = None
    | Some v \<Rightarrow> \<exists>st. take (Suc n) st = take (Suc n) (relstk s) \<and>
        run_relocs s img (reloc_code e @ [reloc_store p offset fieldsz]) =
          map_option (\<lambda>(img', ovf). (s\<lparr>relstk := st,
              dload_errors := dload_errors s @ (if ovf then [Value_overflows] else [])\<rparr>, img'))
            (dload_repack v img p fieldsz offset ROP_SGN)"
proof (cases "expr_value s e")
  case None
  with reloc_code_run [OF assms(1-4), of img] show ?thesis by (simp add: evaluates_def run_relocs_append)
next
  case (Some v)
  with reloc_code_run [OF assms(1-4), of img] obtain st where
    st: "run_relocs s img (reloc_code e) = Some (s\<lparr>relstkidx := int (Suc n), relstk := st\<rparr>, img)"
      "length st = 10" "st ! Suc n = v" "take (Suc n) st = take (Suc n) (relstk s)"
    by (auto simp: evaluates_def)
  have n: "Suc n < 10"
  proof -
    have "0 < expr_depth e" by (induction e) simp_all
    with assms(2) show ?thesis by simp
  qed
  let ?s1 = "s\<lparr>relstkidx := int (Suc n), relstk := st\<rparr>"
  have i: "?s1\<lparr>relstkidx := int n\<rparr> = s\<lparr>relstk := st\<rparr>" using assms(1) by simp
  have "run_relocs s img (reloc_code e @ [reloc_store p offset fieldsz]) =
      map_option (\<lambda>(img', ovf). (s\<lparr>relstk := st,
              dload_errors := dload_errors s @ (if ovf then [Value_overflows] else [])\<rparr>, img'))
            (dload_repack v img p fieldsz offset ROP_SGN)"
    using store_step [of ?s1 n p offset fieldsz img] n st(1,2,3) assms(5-7)
    by (cases "dload_repack v img p fieldsz offset ROP_SGN")
      (auto simp: run_relocs_append i dload_error_def simp del: of_nat_Suc)
  with Some st(4) show ?thesis by auto
qed

subsection \<open>Witness and faults\<close>

definition start_state :: dload_state where
  "start_state = dload_clear \<lparr>filePointer = None, posn = 0\<rparr> empty_symtab"

theorem reloc_expression_stored_witness:
  "\<exists>st img'. run_relocs start_state [0, 0, 0, 0]
      (reloc_code (Binary OpMpy (Binary OpSub (Lit 10) (Lit 4)) (Lit 3)) @ [reloc_store 1 0 8])
    = Some (start_state\<lparr>relstk := st\<rparr>, img') \<and> dload_unpack img' 1 8 0 ROP_SGN = Some 18"
proof -
  have "dload_repack 18 [0, 0, 0, 0] 1 8 0 ROP_SGN = Some ([0, 18, 0, 0], False)"
    and "dload_unpack [0, 18, 0, 0] 1 8 0 ROP_SGN = Some 18" by code_simp+
  with reloc_expression_stored [of start_state 0 "Binary OpMpy (Binary OpSub (Lit 10) (Lit 4)) (Lit 3)" 1 0 8 "[0, 0, 0, 0]"]
  show ?thesis by (auto simp: start_state_def dload_clear_def symbols_ok_def)
qed

text \<open>
  An arithmetic shift to the right by 32 or more does not shift: the check of the amount replaces
  the amount by 31 and then skips the shift, so that the result is 31 whatever the operand. Below
  32 the shift is arithmetic.
\<close>

theorem RACT_ASR_loses_value:
  assumes "relstkidx s = int (Suc (Suc n))" and "Suc (Suc n) < 10" and "length (relstk s) = 10"
  shows "dload_relocate s img (reloc_op 0 0x4007) =
    Some (s\<lparr>relstkidx := int (Suc n), relstk := (relstk s)[Suc n :=
      (if relstk s ! Suc (Suc n) < 32 then signed_drop_bit (unat (relstk s ! Suc (Suc n))) (relstk s ! Suc n) else 31)]\<rparr>, img)"
  by (simp add: stack_ops relocate_pop [OF _ _ _ _ _ assms] rfv_simps plain_action_def actions_def with_stack_def not_le)

theorem RACT_ASR_loses_value_witness:
  "run_relocs start_state [] [reloc_op (- 8) 0x4012, reloc_op 32 0x4012, reloc_op 0 0x4007] =
    Some (start_state\<lparr>relstkidx := 1, relstk := [0, 31, 32, 0, 0, 0, 0, 0, 0, 0]\<rparr>, [])"
proof -
  let ?s1 = "start_state\<lparr>relstkidx := 1, relstk := [0, - 8, 0, 0, 0, 0, 0, 0, 0, 0]\<rparr>"
  let ?s2 = "start_state\<lparr>relstkidx := 2, relstk := [0, - 8, 32, 0, 0, 0, 0, 0, 0, 0]\<rparr>"
  have z: "relstk start_state = replicate 10 0" "relstkidx start_state = 0" by (simp_all add: start_state_def dload_clear_def)
  have 1: "dload_relocate start_state [] (reloc_op (- 8) 0x4012) = Some (?s1, [])"
    using push_literal [of start_state 0 "[]" "- 8"] z by (simp add: numeral_eq_Suc)
  have 2: "dload_relocate ?s1 [] (reloc_op 32 0x4012) = Some (?s2, [])"
    using push_literal [of ?s1 1 "[]" 32] by (simp add: numeral_2_eq_2)
  have 3: "dload_relocate ?s2 [] (reloc_op 0 0x4007) =
      Some (start_state\<lparr>relstkidx := 1, relstk := [0, 31, 32, 0, 0, 0, 0, 0, 0, 0]\<rparr>, [])"
    using RACT_ASR_loses_value [of ?s2 0 "[]"] by (simp add: numeral_2_eq_2)
  from 1 2 3 show ?thesis by simp
qed

lemma relocate_pop_empty:
  assumes "RFV_ACCS info = 0" "RFV_STK info = 1" "RFV_SYM info = 0"
    and "rd actions (RFV_ACTION act) = Some a" "plain_action a" "relstkidx s = 0" "length (relstk s) = 10"
  shows "relocate_with s img rp act info = None"
  using assms
  by (simp add: relocate_with_def reloc_amount_def Let_def RSTK_UOP_def STATIC_EXPR_STK_SIZE_def stk_rd_def stk_wr_def
      perform_plain split: Option.bind_split)

lemma store_empty:
  assumes "relstkidx s = 0" and "length (relstk s) = 10" and "p < 2 ^ 31" and "offset < 256" and "fieldsz < 256"
    and "dload_relocate s img (reloc_store p offset fieldsz) = Some (s', img')"
  shows "relstkidx s' = - 1"
  using assms
  by (auto simp: known_store relocate_with_def reloc_amount_def rfv_simps stk_rd_def Let_def actions_def perform_plain
      plain_action_def dload_error_def split: Option.bind_splits if_splits)

text \<open>
  The stack index is checked against overflow only. With an empty stack a binary operator reads
  \<open>relstk[-1]\<close>, and a store (which needs no such access) leaves the index at -1, where the next
  operand faults. This is also what follows an overflow: the report does not stop the expression,
  whose operators then find one operand too few.
\<close>

theorem relocation_stack_underflow:
  assumes "relstkidx s = 0" and "length (relstk s) = 10" and "p < 2 ^ 31" and "offset < 256" and "fieldsz < 256"
  shows "run_relocs s img (reloc_op 0 (binop_type bop) # rps) = None
    \<and> run_relocs s img (reloc_store p offset fieldsz # reloc_op v 0x4012 # rps) = None"
proof
  have "dload_relocate s img (reloc_op 0 (binop_type bop)) = None"
    by (cases bop)
      (simp_all add: stack_ops relocate_pop_empty [OF _ _ _ _ _ assms(1,2)] rfv_simps plain_action_def actions_def)
  then show "run_relocs s img (reloc_op 0 (binop_type bop) # rps) = None" by simp
  have "dload_relocate s' img' (reloc_op v 0x4012) = None" if "relstkidx s' = - 1" for s' img'
    using that by (simp add: stack_ops relocate_with_def reloc_amount_def rfv_simps stk_rd_def)
  with store_empty [OF assms] show "run_relocs s img (reloc_store p offset fieldsz # reloc_op v 0x4012 # rps) = None"
    by (auto split: Option.bind_split)
qed

theorem relocation_stack_underflow_witness:
  "run_relocs start_state [0] [reloc_op 0 0x4000] = None
   \<and> run_relocs start_state [0] [reloc_store 0 0 8, reloc_op 1 0x4012] = None"
  using relocation_stack_underflow [of start_state 0 0 8 "[0]" OpPlus "[]" 1]
  by (simp add: start_state_def dload_clear_def)

end
