(* ===== verification/Dload_Load.thy ===== *)
theory Dload_Load
  imports Dload_Module Dload_Expr
begin

section \<open>Loading a module\<close>

text \<open>
  The steps of \<open>Dynamic_Load_Module\<close> in \<open>cload.c\<close> after the readers it shares with the queries:
  the allocation of target memory, the symbols, the packets of the sections with their
  relocations, and the interpreter of the \<open>.cinit\<close> table. The pointer to an information
  structure is an index of \<open>ldr_sections\<close> for the first \<open>allocated_secn_count\<close> sections and the
  section header itself for the others; \<open>image_secn\<close> holds the structure.
\<close>

subsection \<open>Target memory\<close>

definition DS_ALLOCATE_MASK :: u16 where "DS_ALLOCATE_MASK = 0x10"
definition DS_DOWNLOAD_MASK :: u16 where "DS_DOWNLOAD_MASK = 0x20"
definition DS_NEEDS_ALLOCATION :: "doff_scnhdr \<Rightarrow> bool" where
  "DS_NEEDS_ALLOCATION h \<longleftrightarrow> ds_flags h AND DS_ALLOCATE_MASK \<noteq> 0"
definition DS_NEEDS_DOWNLOAD :: "doff_scnhdr \<Rightarrow> bool" where
  "DS_NEEDS_DOWNLOAD h \<longleftrightarrow> ds_flags h AND DS_DOWNLOAD_MASK \<noteq> 0"
definition DS_ALIGNMENT :: "u16 \<Rightarrow> u32" where
  "DS_ALIGNMENT flags = push_bit (unat (drop_bit 8 flags AND 15)) 1"
definition DLOAD_SECT_TYPE :: "doff_scnhdr \<Rightarrow> u16" where "DLOAD_SECT_TYPE h = ds_flags h AND 15"
definition DLOAD_BSS :: u16 where "DLOAD_BSS = 2"
definition DLOAD_CINIT :: u16 where "DLOAD_CINIT = 3"

text \<open>A section header seen as a section information structure; the name is its offset.\<close>

definition DOFFSEC_IS_LDRSEC :: "doff_scnhdr \<Rightarrow> LDR_SECTION_INFO" where
  "DOFFSEC_IS_LDRSEC h = \<lparr>li_name = Some (ds_offset h), run_addr = ds_paddr h, load_addr = ds_vaddr h, li_size = ds_size h,
     li_page = ds_page h, li_type = ds_flags h, li_context = ds_first_pkt_offset h\<rparr>"

definition MY_HANDLE_SIZE :: u16 where "MY_HANDLE_SIZE = 28"
definition sizeof_LDR_SECTION_INFO :: u16 where "sizeof_LDR_SECTION_INFO = 24"

text \<open>The length of the string at an offset of the table.\<close>

definition strlen_at :: "u8 list \<Rightarrow> nat \<Rightarrow> nat option" where
  "strlen_at m p = (if 0 \<in> set (drop p m) then Some (length (takeWhile (\<lambda>c. c \<noteq> 0) (drop p m))) else None)"

text \<open>
  The loop over the sections. Every section moves the pointer into the structures on, also one
  that needs no memory; \<open>ldr_sections\<close> is the memory behind the handle, so that storing past its
  end is a fault. The flag tells whether the loop ran to its end.
\<close>

primrec allocate_loop :: "dl_env \<Rightarrow> nat \<Rightarrow> nat \<Rightarrow> dload_state \<Rightarrow> (dload_state \<times> bool) option" where
  "allocate_loop env curr_sect 0 s = Some (s, True)"
| "allocate_loop env curr_sect (Suc k) s = do {
     shp \<leftarrow> rd (sect_hdrs s) curr_sect;
     let named = ds_offset shp < df_strtab_size (dfile_hdr s);
     let s1 = (if named then s else dload_error s Bad_section_name);
     (if DS_NEEDS_ALLOCATION shp then do {
        let asec = (DOFFSEC_IS_LDRSEC shp)\<lparr>li_name := (if named then Some (ds_offset shp) else None), li_context := 0\<rparr>;
        secs \<leftarrow> wr (ldr_sections s1) curr_sect asec;
        let s2 = s1\<lparr>ldr_sections := secs, debug_string_size := ds_offset shp\<rparr>;
        _ \<leftarrow> (if myalloc s2 then Some () else None);
        let align = DS_ALIGNMENT (li_type asec);
        let s3 = call (Target_allocate asec align) s2;
        (case tgt_allocate env (calls s2) asec align of
           None \<Rightarrow> Some (dload_error s3 E_TGTALLOC, False)
         | Some (run, load, ctx) \<Rightarrow> do {
             let asec1 = asec\<lparr>run_addr := run, load_addr := load, li_context := ctx\<rparr>;
             let shp1 = shp\<lparr>ds_vaddr := load - ds_vaddr shp, ds_paddr := run - ds_paddr shp\<rparr>;
             let s4 = s3\<lparr>ldr_sections := (ldr_sections s3)[curr_sect := asec1], sect_hdrs := (sect_hdrs s3)[curr_sect := shp1],
               allocated_secn_count := allocated_secn_count s3 + 1\<rparr>;
             allocate_loop env (curr_sect + 1) k s4 }) }
      else allocate_loop env (curr_sect + 1) k s1) }"

definition allocate_sections :: "dl_env \<Rightarrow> dload_state \<Rightarrow> dload_state option" where
  "allocate_sections env s =
     (let nsecs = unat (df_no_scns (dfile_hdr s))
      in if nsecs = 0 then Some s
         else if \<not> myalloc s \<and> df_target_scns (dfile_hdr s) > 0 then Some (dload_error s Alloc_required)
         else
           (let siz = df_target_scns (dfile_hdr s) * sizeof_LDR_SECTION_INFO + MY_HANDLE_SIZE
            in case Allocate env s B_handle (ucast siz) of
              (s1, None) \<Rightarrow> Some (dload_error s1 E_ALLOC)
            | (s1, Some (hndl, _)) \<Rightarrow>
                (if siz < MY_HANDLE_SIZE then None
                 else do {
                   let s2 = s1\<lparr>myhandle := hndl, ldr_sections := replicate ((unat siz - unat MY_HANDLE_SIZE) div 24) no_section\<rparr>;
                   (s3, finished) \<leftarrow> allocate_loop env 0 nsecs s2;
                   (if \<not> finished then Some s3
                    else do {
                      strs \<leftarrow> str_head s3;
                      n \<leftarrow> strlen_at strs (unat (debug_string_size s3));
                      Some (s3\<lparr>debug_string_size := debug_string_size s3 + of_nat n + 1\<rparr>) }) })))"

subsection \<open>Symbols\<close>

record doff_syment =
  dn_offset :: u32
  dn_value :: u32
  dn_scnum :: u16
  dn_sclass :: u16

fun decode_syment :: "u32 list \<Rightarrow> doff_syment option" where
  "decode_syment [a, b, c] = Some \<lparr>dn_offset = a, dn_value = b, dn_scnum = lo16 c, dn_sclass = hi16 c\<rparr>"
| "decode_syment _ = None"

definition DN_UNDEF :: int where "DN_UNDEF = 0"
definition DN_ABS :: int where "DN_ABS = - 1"
definition DN_EXT :: int where "DN_EXT = 2"
definition DN_STATLAB :: int where "DN_STATLAB = 20"
definition DN_EXTLAB :: int where "DN_EXTLAB = 21"

definition is_extern :: "int \<Rightarrow> bool" where
  "is_extern c \<longleftrightarrow> c = DN_EXT \<or> c = DN_EXTLAB"

text \<open>The string a symbol's name points to.\<close>

definition string_at :: "dload_state \<Rightarrow> u32 \<Rightarrow> name option" where
  "string_at s off = do {
     strs \<leftarrow> str_head s;
     n \<leftarrow> strlen_at strs (unat off);
     Some (take n (drop (unat off) strs)) }"

definition find_symbol :: "dload_state \<Rightarrow> u32 option \<Rightarrow> (dload_state \<times> u32 option) option" where
  "find_symbol s sname = do {
     off \<leftarrow> sname;
     nm \<leftarrow> string_at s off;
     (t, v) \<leftarrow> DLsym_Find_Matching_Symbol (mysym s) nm;
     Some (s\<lparr>mysym := t\<rparr>, v) }"

text \<open>Posting a global symbol: a null name or a failing allocation are no error.\<close>

definition post_symbol :: "dl_env \<Rightarrow> dload_state \<Rightarrow> u32 option \<Rightarrow> u32 \<Rightarrow> dload_state option" where
  "post_symbol env s sname val =
     (case sname of None \<Rightarrow> Some s
      | Some off \<Rightarrow> do {
          nm \<leftarrow> string_at s off;
          (t, ok) \<leftarrow> DLsym_Add_To_Symbol_Table (sym_malloc env (mysym s)) (mysym s) nm (myhandle s) 0;
          (if ok then do { t1 \<leftarrow> set_newest_value t val; Some (s\<lparr>mysym := t1\<rparr>) }
           else Some (s\<lparr>mysym := t\<rparr>)) })"

text \<open>The value and displacement of a symbol that this module defines in a section.\<close>

definition section_symbol :: "dload_state \<Rightarrow> int \<Rightarrow> int \<Rightarrow> u32 \<Rightarrow> (u32 \<times> u32) option" where
  "section_symbol s scnum sclass val =
     (if nat scnum \<le> allocated_secn_count s then do {
        srefp \<leftarrow> rd (sect_hdrs s) (nat scnum - 1);
        let delta = (if sclass = DN_STATLAB \<or> sclass = DN_EXTLAB then ds_vaddr srefp else ds_paddr srefp);
        Some (val + delta, delta) }
      else Some (val, 0))"

definition keep_symbol :: "dload_state \<Rightarrow> u32 \<Rightarrow> u32 \<Rightarrow> int \<Rightarrow> int \<Rightarrow> dload_state" where
  "keep_symbol s val delta scnum sclass =
     s\<lparr>local_symtab := local_symtab s @ [\<lparr>ls_value = val, ls_delta = delta, ls_secnn = scnum, ls_sclass = sclass\<rparr>]\<rparr>"

text \<open>One symbol of the buffer; the flag is False where the procedure returns.\<close>

definition load_symbol :: "dl_env \<Rightarrow> doff_syment \<Rightarrow> dload_state \<Rightarrow> (dload_state \<times> bool) option" where
  "load_symbol env y s =
     (let (s1, sname) = (if sint (dn_offset y) > 0
            then if dn_offset y < df_strtab_size (dfile_hdr s) then (s, Some (dn_offset y)) else (dload_error s Bad_symbol_name, None)
            else (s, None));
          val = dn_value y; scnum = sint (dn_scnum y); sclass = sint (dn_sclass y)
      in if scnum = DN_UNDEF then
           (if sclass = DN_EXT then do {
              (s2, symp) \<leftarrow> find_symbol s1 sname;
              Some (case symp of Some v \<Rightarrow> keep_symbol s2 v v scnum sclass
                | None \<Rightarrow> keep_symbol (dload_error s2 Undefined_symbol) val 0 scnum sclass, True) }
            else Some (keep_symbol s1 val 0 scnum sclass, True))
         else if scnum > 0 then do {
           (v, delta) \<leftarrow> section_symbol s1 scnum sclass val;
           s2 \<leftarrow> (if is_extern sclass then post_symbol env s1 sname v else Some s1);
           Some (keep_symbol s2 v delta scnum sclass, True) }
         else if scnum = DN_ABS \<and> is_extern sclass then do {
           (s2, symp) \<leftarrow> find_symbol s1 sname;
           (case symp of
              Some v \<Rightarrow> Some (if v = val then (keep_symbol s2 val 0 scnum sclass, True) else (dload_error s2 Absolute_redefined, False))
            | None \<Rightarrow> do { s3 \<leftarrow> post_symbol env s2 sname val; Some (keep_symbol s3 val 0 scnum sclass, True) }) }
         else do {
           s2 \<leftarrow> (if is_extern sclass then post_symbol env s1 sname val else Some s1);
           Some (keep_symbol s2 val 0 scnum sclass, True) })"

primrec load_symbols :: "dl_env \<Rightarrow> doff_syment list \<Rightarrow> dload_state \<Rightarrow> (dload_state \<times> bool) option" where
  "load_symbols env [] s = Some (s, True)"
| "load_symbols env (y # ys) s = do {
     (s1, go) \<leftarrow> load_symbol env y s;
     if go then load_symbols env ys s1 else Some (s1, False) }"

definition MY_SYM_BUF_SIZ :: nat where "MY_SYM_BUF_SIZ = 85"

text \<open>The buffers: each is read, reordered and added to the checksum before its symbols.\<close>

function symbol_buffers :: "dl_env \<Rightarrow> nat \<Rightarrow> u32 \<Rightarrow> dload_state \<Rightarrow> (dload_state \<times> u32 option) option" where
  "symbol_buffers env symbols_left checks s =
     (if symbols_left = 0 then Some (s, Some checks)
      else do {
        let n = (if symbols_left > MY_SYM_BUF_SIZ then MY_SYM_BUF_SIZ else symbols_left);
        (st, b, r) \<leftarrow> readBuffer (strm s) (replicate (12 * n) 0) 0 (of_nat (12 * n));
        let s1 = s\<lparr>strm := st\<rparr>;
        (if r \<noteq> int (12 * n) then Some (dload_error s1 E_READSTRM, None)
         else do {
           b1 \<leftarrow> fix_order s1 b 0 (int (12 * n));
           c \<leftarrow> dload_checksum b1 0 (int (12 * n));
           ys \<leftarrow> decode_all 3 decode_syment n (words_of b1);
           (s2, go) \<leftarrow> load_symbols env ys s1;
           (if go then symbol_buffers env (symbols_left - n) (checks + c) s2 else Some (s2, None)) }) })"
  by pat_completeness auto
termination
  by (relation "measure (\<lambda>(env, n, c, s). n)") (auto simp: MY_SYM_BUF_SIZ_def split: if_splits)

declare symbol_buffers.simps [simp del]

definition DBG_HDR_SIZE :: nat where "DBG_HDR_SIZE = 16"

definition dload_symbols :: "dl_env \<Rightarrow> dload_state \<Rightarrow> dload_state option" where
  "dload_symbols env s =
     (let s_count = unat (df_no_syms (dfile_hdr s))
      in if s_count = 0 then Some s
         else
           (let siz = 12 * s_count;
                dsiz = DBG_HDR_SIZE + 8 * allocated_secn_count s + unat (debug_string_size s + 1)
            in case Allocate env s B_symbols (of_nat (max siz dsiz)) of
              (s1, None) \<Rightarrow> Some (dload_error s1 E_ALLOC)
            | (s1, Some _) \<Rightarrow> do {
                (s2, checks) \<leftarrow> symbol_buffers env s_count (dv_sym_tab_checksum (verify s1)) (s1\<lparr>local_symtab_p := True, local_symtab := []\<rparr>);
                Some (case checks of None \<Rightarrow> s2 | Some c \<Rightarrow> if NOT c \<noteq> 0 then dload_error s2 Symbol_checksum else s2) }))"

end
