(* ===== verification/Dload_Cinit.thy ===== *)
theory Dload_Cinit
  imports Dload_Reloc
begin

section \<open>The interpreter of the initialisation table\<close>

text \<open>
  \<open>cload_cinit\<close> of \<open>cload.c\<close> receives the relocated packets of a \<open>.cinit\<close> section in place of target
  memory and carries out what they say. The table is a sequence of records (a count of bytes, an
  address, the bytes, padding to a multiple of 8) and ends with a count that is not positive. The
  packets cut it anywhere, so that the position in the table is kept in \<open>cinit_state\<close>,
  \<open>cinit_count\<close> and \<open>cinit_addr\<close>. The theorems: the interpreter returns on every packet and never
  reads outside it; a table cut at multiples of 8 is written completely; a cut between the bytes of
  a record and their padding ends the table early without an error.
\<close>

subsection \<open>The code\<close>

definition CINIT_ALIGN :: int where "CINIT_ALIGN = 8"
definition CINIT_COUNT :: nat where "CINIT_COUNT = 4"
definition CINIT_ADDRESS :: nat where "CINIT_ADDRESS = 4"

text \<open>The label \<open>loopexit\<close>.\<close>

definition cinit_exit :: "int \<Rightarrow> dload_state \<Rightarrow> dload_state" where
  "cinit_exit left s = (if left > 0 then (dload_error s Cinit_left_over)\<lparr>cinit_state := CI_done\<rparr> else s)"

text \<open>
  One write of the interface, with its result. A count below zero is handed to the interface as a
  huge size; it only comes with a packet of negative size and is \<^const>\<open>None\<close>.
\<close>

definition writemem :: "dl_env \<Rightarrow> u32 \<Rightarrow> u8 list \<Rightarrow> dload_state \<Rightarrow> dload_state \<times> bool" where
  "writemem env addr bs s = (let s1 = call (Writemem addr bs) s in (s1, io_writemem env (calls s1)))"

definition copy_bits :: "dl_env \<Rightarrow> u8 list \<Rightarrow> nat \<Rightarrow> int \<Rightarrow> dload_state \<Rightarrow> dload_state option" where
  "copy_bits env bits pktp n s =
     (if n < 0 \<or> length bits < pktp + nat n then None
      else let (s1, ok) = writemem env (cinit_addr s) (take (nat n) (drop pktp bits)) s
           in Some (if ok then s1 else dload_error s1 E_INITFAIL))"

text \<open>The loop; \<open>pktp\<close> and \<open>pktend\<close> are offsets from the start of the packet.\<close>

function cload_cinit :: "dl_env \<Rightarrow> u8 list \<Rightarrow> int \<Rightarrow> nat \<Rightarrow> dload_state \<Rightarrow> dload_state option" where
  "cload_cinit env bits pktend pktp s =
     (let left = pktend - int pktp in
      case cinit_state s of
        CI_count \<Rightarrow>
          if left < int CINIT_COUNT then Some (cinit_exit left s)
          else do {
            temp \<leftarrow> dload_unpack bits pktp 32 0 ROP_SGN;
            if sint temp \<le> 0 then cload_cinit env bits pktend (pktp + CINIT_COUNT) (s\<lparr>cinit_state := CI_done\<rparr>)
            else cload_cinit env bits pktend (pktp + CINIT_COUNT) (s\<lparr>cinit_count := sint temp, cinit_state := CI_address\<rparr>) }
      | CI_address \<Rightarrow>
          if left < int CINIT_ADDRESS then Some (cinit_exit left s)
          else do {
            atmp \<leftarrow> dload_unpack bits pktp 32 0 ROP_UNS;
            cload_cinit env bits pktend (pktp + CINIT_ADDRESS) (s\<lparr>cinit_page := 0, cinit_addr := atmp, cinit_state := CI_copy\<rparr>) }
      | CI_copy \<Rightarrow>
          let init_count = (if left > cinit_count s then cinit_count s else left) in
          if init_count = 0 then Some (cinit_exit left s)
          else if init_count < 0 then None
          else do {
            s1 \<leftarrow> copy_bits env bits pktp init_count s;
            let s2 = s1\<lparr>cinit_count := cinit_count s1 - init_count\<rparr>;
            if cinit_count s2 \<le> 0 then
              let n = (init_count + CINIT_ALIGN - 1) div CINIT_ALIGN * CINIT_ALIGN
              in cload_cinit env bits pktend (pktp + nat n) (s2\<lparr>cinit_state := CI_count, cinit_addr := cinit_addr s2 + of_int n\<rparr>)
            else cload_cinit env bits pktend (pktp + nat init_count) (s2\<lparr>cinit_addr := cinit_addr s2 + of_int init_count\<rparr>) }
      | CI_done \<Rightarrow> Some s)"
  by pat_completeness auto

lemma round_up_ge: "n \<le> (n + CINIT_ALIGN - 1) div CINIT_ALIGN * CINIT_ALIGN"
  by (simp add: CINIT_ALIGN_def)

termination cload_cinit
proof (relation "measure (\<lambda>(env, bits, pktend, pktp, s). nat (pktend - int pktp))", goal_cases)
  case 1
  then show ?case by simp
next
  case (5 env bits pktend pktp s left n s1 s2 m)
  then have "n > 0" "n \<le> left" by (auto split: if_splits)
  with 5 round_up_ge [of n] show ?case by simp
qed (auto simp: CINIT_COUNT_def CINIT_ADDRESS_def split: if_splits)

declare cload_cinit.simps [simp del]

subsection \<open>Single steps\<close>

lemma unpack_word:
  assumes "drop p bits = bytes_of_word w @ r"
  shows "dload_unpack bits p 32 0 sg = Some w"
proof -
  have len: "p + 4 \<le> length bits" using arg_cong [OF assms, of length] by (simp split: if_splits)
  from dload_unpack_bits [of 32 0 p bits sg] len obtain v where
    v: "dload_unpack bits p 32 0 sg = Some v" "\<And>i. i < 32 \<Longrightarrow> bit v i = img_bit bits (8 * p + i)" by auto
  have "img_bit bits (8 * p + i) = bit w i" if "i < 32" for i
  proof -
    have q: "i div 8 < 4" "(8 * p + i) div 8 = p + i div 8" "(8 * p + i) mod 8 = i mod 8" using that by simp_all
    have "bits ! (p + i div 8) = bytes_of_word w ! (i div 8)"
      using assms len q(1) nth_drop [of p bits "i div 8"] by (simp add: nth_append)
    with q show ?thesis by (simp add: img_bit_def bit_byte_of_word)
  qed
  with v have "v = w" by (intro bit_word_eqI) simp
  with v(1) show ?thesis by simp
qed

lemma unpack_inside: "p + 4 \<le> length bits \<Longrightarrow> \<exists>w. dload_unpack bits p 32 0 sg = Some w"
  using dload_unpack_bits [of 32 0 p bits sg] by auto

lemma cinit_stop:
  "cinit_state s = CI_done \<Longrightarrow> cload_cinit env bits pktend p s = Some s"
  "cinit_state s = CI_count \<Longrightarrow> pktend < int p + 4 \<Longrightarrow> cload_cinit env bits pktend p s = Some (cinit_exit (pktend - int p) s)"
  "cinit_state s = CI_address \<Longrightarrow> pktend < int p + 4 \<Longrightarrow> cload_cinit env bits pktend p s = Some (cinit_exit (pktend - int p) s)"
  "cinit_state s = CI_copy \<Longrightarrow> 0 < cinit_count s \<Longrightarrow> pktend = int p \<Longrightarrow> cload_cinit env bits pktend p s = Some s"
  by (subst cload_cinit.simps; simp add: CINIT_COUNT_def CINIT_ADDRESS_def cinit_exit_def)+

lemma cinit_take_count:
  "cinit_state s = CI_count \<Longrightarrow> int p + 4 \<le> pktend \<Longrightarrow> dload_unpack bits p 32 0 ROP_SGN = Some w \<Longrightarrow>
   cload_cinit env bits pktend p s = (if sint w \<le> 0 then Some (s\<lparr>cinit_state := CI_done\<rparr>)
     else cload_cinit env bits pktend (p + 4) (s\<lparr>cinit_count := sint w, cinit_state := CI_address\<rparr>))"
  by (subst cload_cinit.simps) (simp add: CINIT_COUNT_def Let_def cinit_stop)

lemma cinit_take_address:
  "cinit_state s = CI_address \<Longrightarrow> int p + 4 \<le> pktend \<Longrightarrow> dload_unpack bits p 32 0 ROP_UNS = Some w \<Longrightarrow>
   cload_cinit env bits pktend p s = cload_cinit env bits pktend (p + 4) (s\<lparr>cinit_page := 0, cinit_addr := w, cinit_state := CI_copy\<rparr>)"
  by (subst cload_cinit.simps) (simp add: CINIT_ADDRESS_def)

definition after_copy :: "dl_env \<Rightarrow> u8 list \<Rightarrow> dload_state \<Rightarrow> dload_state" where
  "after_copy env bs s = (let (s1, ok) = writemem env (cinit_addr s) bs s in if ok then s1 else dload_error s1 E_INITFAIL)"

lemma after_copy_fields [simp]:
  "cinit_state (after_copy env bs s) = cinit_state s" "cinit_count (after_copy env bs s) = cinit_count s"
  "cinit_addr (after_copy env bs s) = cinit_addr s" "calls (after_copy env bs s) = calls s @ [Writemem (cinit_addr s) bs]"
  by (simp_all add: after_copy_def writemem_def dload_error_def Let_def)

lemma after_copy_errors: "io_writemem env (calls s @ [Writemem (cinit_addr s) bs]) \<Longrightarrow>
  after_copy env bs s = call (Writemem (cinit_addr s) bs) s"
  by (simp add: after_copy_def writemem_def Let_def)

definition round8 :: "nat \<Rightarrow> nat" where "round8 n = (n + 7) div 8 * 8"

lemma cinit_copy_step:
  assumes "cinit_state s = CI_copy" "(if pktend - int p > cinit_count s then cinit_count s else pktend - int p) = int n" "0 < n" "p + n \<le> length bits"
  shows "cload_cinit env bits pktend p s = (let s1 = after_copy env (take n (drop p bits)) s in
    if cinit_count s \<le> int n then cload_cinit env bits pktend (p + round8 n)
      (s1\<lparr>cinit_count := cinit_count s - int n, cinit_state := CI_count, cinit_addr := cinit_addr s1 + of_nat (round8 n)\<rparr>)
    else cload_cinit env bits pktend (p + n) (s1\<lparr>cinit_count := cinit_count s - int n, cinit_addr := cinit_addr s1 + of_nat n\<rparr>))"
proof -
  have r: "(int n + CINIT_ALIGN - 1) div CINIT_ALIGN * CINIT_ALIGN = int (round8 n)"
    by (simp add: round8_def CINIT_ALIGN_def zdiv_int add.commute)
  have c: "copy_bits env bits p (int n) s = Some (after_copy env (take n (drop p bits)) s)"
    using assms(4) by (simp add: copy_bits_def after_copy_def split: prod.splits)
  show ?thesis
    unfolding cload_cinit.simps [of env bits pktend p s] assms(1) Let_def cinit_mode.case assms(2) c
    using assms(3) by (simp add: r)
qed

lemma cinit_copy_all:
  assumes "cinit_state s = CI_copy" "cinit_count s = int n" "0 < n" "int p + int n \<le> pktend" "p + n \<le> length bits"
  shows "cload_cinit env bits pktend p s = cload_cinit env bits pktend (p + round8 n)
      ((after_copy env (take n (drop p bits)) s)\<lparr>cinit_count := 0, cinit_state := CI_count,
        cinit_addr := cinit_addr s + of_nat (round8 n)\<rparr>)"
  using cinit_copy_step [of s pktend p n bits env] assms by simp

lemma cinit_copy_some:
  assumes "cinit_state s = CI_copy" "cinit_count s = int k" "n < k" "0 < n" "pktend = int p + int n" "p + n \<le> length bits"
  shows "cload_cinit env bits pktend p s =
    Some ((after_copy env (take n (drop p bits)) s)\<lparr>cinit_count := int k - int n, cinit_addr := cinit_addr s + of_nat n\<rparr>)"
  using cinit_copy_step [of s pktend p n bits env] assms by (simp add: cinit_stop(4))

subsection \<open>No packet makes the interpreter fail\<close>

definition cinit_ok :: "dload_state \<Rightarrow> bool" where
  "cinit_ok s \<longleftrightarrow> (cinit_state s \<in> {CI_address, CI_copy} \<longrightarrow> 0 < cinit_count s)"

text \<open>A write of bytes of the packet.\<close>

definition write_from :: "u8 list \<Rightarrow> nat \<Rightarrow> io_event \<Rightarrow> bool" where
  "write_from bits k e \<longleftrightarrow> (\<exists>a q n. e = Writemem a (take n (drop q bits)) \<and> 0 < n \<and> q + n \<le> k)"

lemma cload_cinit_returns:
  assumes "k \<le> length bits" and "cinit_ok s" and "p \<le> k \<or> cinit_state s \<in> {CI_count, CI_done}"
  shows "\<exists>s' ws. cload_cinit env bits (int k) p s = Some s' \<and> cinit_ok s'
    \<and> calls s' = calls s @ ws \<and> (\<forall>e \<in> set ws. write_from bits k e)"
  using assms
proof (induction "k - p" arbitrary: p s rule: less_induct)
  case less
  have stop: ?case if "cload_cinit env bits (int k) p s = Some s'" "cinit_ok s'" "calls s' = calls s" for s'
    using that by (intro exI [of _ s'] exI [of _ "[]"]) simp
  have exit: "cinit_ok (cinit_exit left s)" "calls (cinit_exit left s) = calls s" for left
    using less.prems(2) by (simp_all add: cinit_exit_def cinit_ok_def dload_error_def)
  show ?case
  proof (cases "cinit_state s")
    case CI_count
    show ?thesis
    proof (cases "p + 4 \<le> k")
      case True
      then obtain w where w: "dload_unpack bits p 32 0 ROP_SGN = Some w"
        using unpack_inside [of p bits ROP_SGN] less.prems(1) by auto
      show ?thesis
      proof (cases "sint w \<le> 0")
        case True
        with cinit_take_count [OF CI_count _ w, of "int k" env] \<open>p + 4 \<le> k\<close> show ?thesis
          by (intro stop [of "s\<lparr>cinit_state := CI_done\<rparr>"]) (simp_all add: cinit_ok_def)
      next
        case False
        with cinit_take_count [OF CI_count _ w, of "int k" env] \<open>p + 4 \<le> k\<close>
          less.hyps [of "p + 4" "s\<lparr>cinit_count := sint w, cinit_state := CI_address\<rparr>"] less.prems(1)
        show ?thesis by (simp add: cinit_ok_def)
      qed
    next
      case False
      with cinit_stop(2) [OF CI_count] exit show ?thesis by (intro stop [of "cinit_exit (int k - int p) s"]) simp_all
    qed
  next
    case CI_address
    show ?thesis
    proof (cases "p + 4 \<le> k")
      case True
      then obtain w where w: "dload_unpack bits p 32 0 ROP_UNS = Some w"
        using unpack_inside [of p bits ROP_UNS] less.prems(1) by auto
      from less.prems(2) CI_address have "0 < cinit_count s" by (simp add: cinit_ok_def)
      with cinit_take_address [OF CI_address _ w, of "int k" env] \<open>p + 4 \<le> k\<close>
        less.hyps [of "p + 4" "s\<lparr>cinit_page := 0, cinit_addr := w, cinit_state := CI_copy\<rparr>"] less.prems(1)
      show ?thesis by (simp add: cinit_ok_def)
    next
      case False
      with cinit_stop(3) [OF CI_address] exit show ?thesis by (intro stop [of "cinit_exit (int k - int p) s"]) simp_all
    qed
  next
    case CI_copy
    with less.prems have pk: "p \<le> k" and c: "0 < cinit_count s" by (auto simp: cinit_ok_def)
    show ?thesis
    proof (cases "p = k")
      case True
      with cinit_stop(4) [OF CI_copy c] less.prems(2) show ?thesis by (intro stop) simp_all
    next
      case False
      define n where "n = nat (if int k - int p > cinit_count s then cinit_count s else int k - int p)"
      have n: "(if int k - int p > cinit_count s then cinit_count s else int k - int p) = int n" "0 < n" "p + n \<le> k"
        using False pk c by (auto simp: n_def)
      let ?s1 = "after_copy env (take n (drop p bits)) s"
      have wf: "write_from bits k (Writemem (cinit_addr s) (take n (drop p bits)))"
        unfolding write_from_def using n(2,3) by blast
      have r8: "n \<le> round8 n" by (simp add: round8_def)
      have step: "cload_cinit env bits (int k) p s = (if cinit_count s \<le> int n then cload_cinit env bits (int k) (p + round8 n)
          (?s1\<lparr>cinit_count := cinit_count s - int n, cinit_state := CI_count, cinit_addr := cinit_addr s + of_nat (round8 n)\<rparr>)
        else cload_cinit env bits (int k) (p + n) (?s1\<lparr>cinit_count := cinit_count s - int n, cinit_addr := cinit_addr s + of_nat n\<rparr>))"
        using cinit_copy_step [OF CI_copy n(1,2), of bits env] n(3) less.prems(1) by (simp add: Let_def)
      have glue: ?thesis if rec: "cload_cinit env bits (int k) p s = cload_cinit env bits (int k) p' s2"
        "calls s2 = calls s @ [Writemem (cinit_addr s) (take n (drop p bits))]" "k - p' < k - p" "cinit_ok s2"
        "p' \<le> k \<or> cinit_state s2 \<in> {CI_count, CI_done}" for p' s2
      proof -
        from less.hyps [OF rec(3) less.prems(1) rec(4,5)] obtain s' ws where
          "cload_cinit env bits (int k) p' s2 = Some s'" "cinit_ok s'" "calls s' = calls s2 @ ws" "\<forall>e \<in> set ws. write_from bits k e"
          by blast
        with rec(1,2) wf show ?thesis
          by (intro exI [of _ s'] exI [of _ "Writemem (cinit_addr s) (take n (drop p bits)) # ws"]) simp
      qed
      show ?thesis
      proof (cases "cinit_count s \<le> int n")
        case True
        then show ?thesis using step n r8
          by (intro glue [of "p + round8 n" "?s1\<lparr>cinit_count := cinit_count s - int n, cinit_state := CI_count,
              cinit_addr := cinit_addr s + of_nat (round8 n)\<rparr>"]) (simp_all add: cinit_ok_def)
      next
        case False
        then show ?thesis using step n CI_copy
          by (intro glue [of "p + n" "?s1\<lparr>cinit_count := cinit_count s - int n, cinit_addr := cinit_addr s + of_nat n\<rparr>"])
            (simp_all add: cinit_ok_def)
      qed
    qed
  next
    case CI_done
    with cinit_stop(1) less.prems(2) show ?thesis by (intro stop) simp_all
  qed
qed


definition cinit_start :: dload_state where
  "cinit_start = dload_clear \<lparr>filePointer = None, posn = 0\<rparr> empty_symtab"

text \<open>Client objects that grant everything.\<close>

definition easy_env :: dl_env where
  "easy_env = \<lparr>host_allocate = (\<lambda>es b n. Some (0x1000, \<lambda>_. 0)), alloc_given = True, tgt_allocate = (\<lambda>es sec al. Some (0x8000, 0x8000, 0)),
     init_given = True, io_connect = (\<lambda>_. True), io_writemem = (\<lambda>_. True), io_execute = (\<lambda>_. True), sym_malloc = (\<lambda>_. True)\<rparr>"


subsection \<open>Tables\<close>

text \<open>
  A record of the table is its address, its bytes and the padding. Every byte written to the
  target appears in \<open>written\<close> with its address, in order.
\<close>

type_synonym cinit_record = "u32 \<times> u8 list \<times> u8 list"

fun record_ok :: "cinit_record \<Rightarrow> bool" where
  "record_ok (a, bs, pad) \<longleftrightarrow> bs \<noteq> [] \<and> length bs < 2 ^ 31 \<and> length bs + length pad = round8 (length bs)"

fun cinit_table :: "cinit_record list \<Rightarrow> u8 list \<Rightarrow> u8 list" where
  "cinit_table [] stop = stop"
| "cinit_table ((a, bs, pad) # rs) stop = bytes_of_word (of_nat (length bs)) @ bytes_of_word a @ bs @ pad @ cinit_table rs stop"

text \<open>The end of a table: a count that is not positive, and whatever follows.\<close>

definition table_end :: "u8 list \<Rightarrow> bool" where
  "table_end stop \<longleftrightarrow> (\<exists>w r. stop = bytes_of_word w @ r \<and> sint w \<le> 0)"

fun addressed :: "u32 \<Rightarrow> u8 list \<Rightarrow> (u32 \<times> u8) list" where
  "addressed a [] = []"
| "addressed a (b # bs) = (a, b) # addressed (a + 1) bs"

definition written :: "io_event list \<Rightarrow> (u32 \<times> u8) list" where
  "written es = concat (map (\<lambda>e. case e of Writemem a bs \<Rightarrow> addressed a bs | _ \<Rightarrow> []) es)"

definition record_bytes :: "cinit_record list \<Rightarrow> (u32 \<times> u8) list" where
  "record_bytes rs = concat (map (\<lambda>(a, bs, pad). addressed a bs) rs)"

lemma addressed_append: "addressed a (bs @ cs) = addressed a bs @ addressed (a + of_nat (length bs)) cs"
  by (induction bs arbitrary: a) (simp_all add: algebra_simps)

lemma written_append [simp]: "written (es @ fs) = written es @ written fs"
  by (simp add: written_def)

lemma written_one [simp]: "written [Writemem a bs] = addressed a bs"
  by (simp add: written_def)

lemma record_bytes_simps [simp]: "record_bytes [] = []" "record_bytes ((a, bs, pad) # rs) = addressed a bs @ record_bytes rs"
  by (simp_all add: record_bytes_def)

text \<open>
  Where the interpreter stands between two records or inside one: what is left of the packets must
  be \<open>rest_of pend rs stop\<close>, and \<open>rest_bytes pend rs\<close> is left to be written.
\<close>

fun rest_of :: "cinit_record option \<Rightarrow> cinit_record list \<Rightarrow> u8 list \<Rightarrow> u8 list" where
  "rest_of None rs stop = cinit_table rs stop"
| "rest_of (Some (a, bs, pad)) rs stop = bs @ pad @ cinit_table rs stop"

definition rest_bytes :: "cinit_record option \<Rightarrow> cinit_record list \<Rightarrow> (u32 \<times> u8) list" where
  "rest_bytes pend rs = record_bytes (case pend of None \<Rightarrow> rs | Some r \<Rightarrow> r # rs)"

fun stands :: "dload_state \<Rightarrow> cinit_record option \<Rightarrow> bool" where
  "stands s None \<longleftrightarrow> cinit_state s = CI_count"
| "stands s (Some (a, bs, pad)) \<longleftrightarrow> record_ok (a, bs, pad) \<and> cinit_state s = CI_copy \<and> cinit_count s = int (length bs) \<and> cinit_addr s = a"

text \<open>The packets of a section, one after the other.\<close>

primrec cinit_packets :: "dl_env \<Rightarrow> u8 list list \<Rightarrow> dload_state \<Rightarrow> dload_state option" where
  "cinit_packets env [] s = Some s"
| "cinit_packets env (pk # pks) s = do { s1 \<leftarrow> cload_cinit env pk (int (length pk)) 0 s; cinit_packets env pks s1 }"

lemma round8_dvd [simp]: "8 dvd round8 n" by (simp add: round8_def)

lemma round8_le: "8 dvd m \<Longrightarrow> n \<le> m \<Longrightarrow> round8 n \<le> m"
  by (auto simp: round8_def elim!: dvdE)

lemma round8_add: "8 dvd m \<Longrightarrow> round8 (m + n) = m + round8 n"
  unfolding round8_def dvd_def by presburger

lemma packet_prefix:
  assumes "drop p (take k bits) @ later = bs @ r" and "p + length bs \<le> k" and "k \<le> length bits"
  shows "\<exists>r'. drop p bits = bs @ r'" and "drop (p + length bs) (take k bits) @ later = r"
proof -
  have l: "length bs \<le> length (drop p (take k bits))" using assms(2,3) by simp
  have "bs = take (length bs) (drop p (take k bits) @ later)" using assms(1) by simp
  also have "\<dots> = take (length bs) (drop p bits)" using l assms(2) by (simp add: drop_take min_def)
  finally show "\<exists>r'. drop p bits = bs @ r'" by (metis append_take_drop_id)
  have "r = drop (length bs) (drop p (take k bits) @ later)" using assms(1) by simp
  also have "\<dots> = drop (p + length bs) (take k bits) @ later" using l by (simp add: add.commute)
  finally show "drop (p + length bs) (take k bits) @ later = r" by simp
qed

lemma room_for:
  assumes "drop p (take k bits) @ later = xs" "k \<le> length bits" "p < k" "8 dvd p" "8 dvd k \<or> later = []" "n \<le> 8" "n \<le> length xs"
  shows "p + n \<le> k"
proof (cases "later = []")
  case True
  with assms(1-3,7) show ?thesis by (auto simp: min.absorb2)
next
  case False
  with assms(4,5) have "8 dvd k - p" by auto
  with assms(3,6) show ?thesis by (auto dest: dvd_imp_le)
qed

definition packet_result :: "dload_state \<Rightarrow> cinit_record option \<Rightarrow> cinit_record list \<Rightarrow> u8 list \<Rightarrow> u8 list \<Rightarrow> dload_state \<Rightarrow> bool" where
  "packet_result s pend rs stop later s' \<longleftrightarrow> dload_errors s' = dload_errors s \<and>
     ((cinit_state s' = CI_done \<and> written (calls s') = written (calls s) @ rest_bytes pend rs)
      \<or> (\<exists>pend' rs'. stands s' pend' \<and> (\<forall>r \<in> set rs'. record_ok r) \<and> later = rest_of pend' rs' stop
          \<and> written (calls s') @ rest_bytes pend' rs' = written (calls s) @ rest_bytes pend rs))"

lemma packet_result_here:
  "stands s pend \<Longrightarrow> \<forall>r \<in> set rs. record_ok r \<Longrightarrow> later = rest_of pend rs stop \<Longrightarrow> packet_result s pend rs stop later s"
  by (auto simp: packet_result_def)

lemma cinit_take_record:
  assumes "cinit_state s = CI_count" and "drop p bits = bytes_of_word (of_nat n) @ bytes_of_word a @ q" and "0 < n" "n < 2 ^ 31" and "int p + 8 \<le> pktend"
  shows "cload_cinit env bits pktend p s =
    cload_cinit env bits pktend (p + 8) (s\<lparr>cinit_count := int n, cinit_page := 0, cinit_addr := a, cinit_state := CI_copy\<rparr>)"
proof -
  have n: "sint (of_nat n :: u32) = int n" using assms(4) by (simp add: signed_of_nat signed_take_bit_int_eq_self)
  have q: "drop (p + 4) bits = bytes_of_word a @ q"
    using assms(2) by (simp add: add.commute [of p] flip: drop_drop)
  let ?s1 = "s\<lparr>cinit_count := int n, cinit_state := CI_address\<rparr>"
  have "cload_cinit env bits pktend p s = cload_cinit env bits pktend (p + 4) ?s1"
    using cinit_take_count [OF assms(1) _ unpack_word [OF assms(2)], of pktend env] assms(3,5) n by simp
  then show ?thesis
    using cinit_take_address [OF _ _ unpack_word [OF q], of ?s1 pktend env] assms(5) by (simp add: add.commute)
qed

lemma cinit_packet:
  assumes "\<And>es. io_writemem env es" and "k \<le> length bits" and "table_end stop" and "8 dvd k \<or> later = []"
    and "drop p (take k bits) @ later = rest_of pend rs stop" and "stands s pend" and "\<forall>r \<in> set rs. record_ok r"
    and "8 dvd p" and "p \<le> k"
  shows "\<exists>s'. cload_cinit env bits (int k) p s = Some s' \<and> packet_result s pend rs stop later s'"
  using assms(5-9)
proof (induction "k - p" arbitrary: p s pend rs rule: less_induct)
  case less
  note d = less.prems(1)
  show ?case
  proof (cases "p = k")
    case True
    with less.prems(2) have "cload_cinit env bits (int k) p s = Some s"
      by (cases pend) (auto simp: cinit_stop cinit_exit_def)
    with True d less.prems(2,3) show ?thesis by (auto intro: packet_result_here)
  next
    case False
    with less.prems(5) have pk: "p < k" by simp
    show ?thesis
    proof (cases pend)
      case None
      with less.prems(2) have st: "cinit_state s = CI_count" by simp
      show ?thesis
      proof (cases rs)
        case Nil
        with d None assms(3) obtain w r where w: "drop p (take k bits) @ later = bytes_of_word w @ r" "sint w \<le> 0"
          by (auto simp: table_end_def)
        have k: "p + 4 \<le> k" using room_for [OF w(1) assms(2) pk less.prems(4) assms(4), of 4] by simp
        with packet_prefix(1) [OF w(1) _ assms(2)] obtain r' where "drop p bits = bytes_of_word w @ r'" by auto
        from cinit_take_count [OF st _ unpack_word [OF this], of "int k" env] k w(2)
        have "cload_cinit env bits (int k) p s = Some (s\<lparr>cinit_state := CI_done\<rparr>)" by simp
        with Nil None show ?thesis by (auto simp: packet_result_def rest_bytes_def)
      next
        case (Cons r1 rs1)
        obtain a bs pad where r1: "r1 = (a, bs, pad)" by (cases r1)
        with Cons less.prems(3) have ok: "record_ok (a, bs, pad)" by simp
        have w: "drop p (take k bits) @ later = (bytes_of_word (of_nat (length bs)) @ bytes_of_word a) @ bs @ pad @ cinit_table rs1 stop"
          using d None Cons r1 by simp
        have k: "p + 8 \<le> k" using room_for [OF w assms(2) pk less.prems(4) assms(4), of 8] by simp
        from packet_prefix [OF w _ assms(2)] k obtain q where
          q: "drop p bits = bytes_of_word (of_nat (length bs)) @ bytes_of_word a @ q"
          and w3: "drop (p + 8) (take k bits) @ later = rest_of (Some (a, bs, pad)) rs1 stop" by auto
        let ?s2 = "s\<lparr>cinit_count := int (length bs), cinit_page := 0, cinit_addr := a, cinit_state := CI_copy\<rparr>"
        have e: "cload_cinit env bits (int k) p s = cload_cinit env bits (int k) (p + 8) ?s2"
          using ok k by (intro cinit_take_record [OF st q]) auto
        have "\<exists>s'. cload_cinit env bits (int k) (p + 8) ?s2 = Some s' \<and> packet_result ?s2 (Some (a, bs, pad)) rs1 stop later s'"
          by (rule less.hyps [OF _ w3]) (use k pk ok less.prems(3,4) Cons in auto)
        with e None Cons r1 show ?thesis by (simp add: packet_result_def rest_bytes_def)
      qed
    next
      case (Some r1)
      obtain a bs pad where r1: "r1 = (a, bs, pad)" by (cases r1)
      with Some less.prems(2) have st: "record_ok (a, bs, pad)" "cinit_state s = CI_copy" "cinit_count s = int (length bs)" "cinit_addr s = a"
        by simp_all
      have w: "drop p (take k bits) @ later = bs @ pad @ cinit_table rs stop" using d Some r1 by simp
      show ?thesis
      proof (cases "p + length bs \<le> k")
        case True
        have p8: "p + round8 (length bs) \<le> k"
        proof (cases "later = []")
          case True
          with w have "length (drop p (take k bits)) = length bs + length pad + length (cinit_table rs stop)" by simp
          with assms(2) st(1) pk show ?thesis by (simp add: min.absorb2)
        next
          case False
          with assms(4) less.prems(4) have "8 dvd k - p" by auto
          moreover have "length bs \<le> k - p" using True by linarith
          ultimately have "round8 (length bs) \<le> k - p" by (rule round8_le)
          with pk show ?thesis by linarith
        qed
        from packet_prefix [OF w True assms(2)] obtain q where
          q: "drop p bits = bs @ q" and w2: "drop (p + length bs) (take k bits) @ later = pad @ cinit_table rs stop" by auto
        have "drop (p + length bs + length pad) (take k bits) @ later = cinit_table rs stop"
          using packet_prefix(2) [OF w2 _ assms(2)] p8 st(1) by simp
        moreover have "p + length bs + length pad = p + round8 (length bs)" using st(1) by simp
        ultimately have w3: "drop (p + round8 (length bs)) (take k bits) @ later = rest_of None rs stop" by simp
        let ?s1 = "after_copy env bs s"
        let ?s2 = "?s1\<lparr>cinit_count := 0, cinit_state := CI_count, cinit_addr := a + of_nat (round8 (length bs))\<rparr>"
        have e: "cload_cinit env bits (int k) p s = cload_cinit env bits (int k) (p + round8 (length bs)) ?s2"
          using cinit_copy_all [OF st(2,3), of p "int k" bits env] True st(1,4) q assms(2) by simp
        have "0 < length bs" "length bs \<le> round8 (length bs)" using st(1) by (simp_all add: round8_def)
        then have "k - (p + round8 (length bs)) < k - p" "8 dvd p + round8 (length bs)" using pk less.prems(4) by (linarith, simp)
        then have "\<exists>s'. cload_cinit env bits (int k) (p + round8 (length bs)) ?s2 = Some s' \<and> packet_result ?s2 None rs stop later s'"
          by (intro less.hyps [OF _ w3]) (use p8 less.prems(3) in simp_all)
        moreover have "dload_errors ?s2 = dload_errors s" "written (calls ?s2) = written (calls s) @ addressed a bs"
          using after_copy_errors [OF assms(1)] st(4) by (simp_all add: )
        ultimately show ?thesis using e Some r1 by (simp add: packet_result_def rest_bytes_def)
      next
        case False
        define n where "n = k - p"
        with False pk have n: "0 < n" "n < length bs" "k = p + n" by simp_all
        have "later \<noteq> []"
        proof
          assume "later = []"
          with w have "length (drop p (take k bits)) = length bs + length pad + length (cinit_table rs stop)" by simp
          with n assms(2) show False by (simp add: min.absorb2)
        qed
        with assms(4) less.prems(4) n have "8 dvd n" by (simp add: dvd_add_right_iff)
        have t: "drop p (take k bits) = take n bs" "later = drop n bs @ pad @ cinit_table rs stop"
        proof -
          have l: "length (drop p (take k bits)) = n" using n assms(2) by (simp add: min.absorb2)
          have "drop p (take k bits) @ later = take n bs @ drop n bs @ pad @ cinit_table rs stop" using w by simp
          with l n(2) show "drop p (take k bits) = take n bs" "later = drop n bs @ pad @ cinit_table rs stop"
            by (simp_all add: append_eq_append_conv)
        qed
        have tk: "take n (drop p bits) = take n bs" using t(1) n(3) by (simp add: drop_take)
        let ?s1 = "after_copy env (take n bs) s"
        let ?s2 = "?s1\<lparr>cinit_count := int (length bs) - int n, cinit_addr := a + of_nat n\<rparr>"
        have e: "cload_cinit env bits (int k) p s = Some ?s2"
          using cinit_copy_some [OF st(2,3) n(2,1), of "int k" p bits env] n(3) assms(2) st(4) tk by simp
        have "length bs + length pad = round8 (n + (length bs - n))" using st(1) n(2) by simp
        then have "record_ok (a + of_nat n, drop n bs, pad)"
          using st(1) n(2) round8_add [OF \<open>8 dvd n\<close>, of "length bs - n"] by auto
        then have "stands ?s2 (Some (a + of_nat n, drop n bs, pad))" using n(2) st(2) by (simp add: of_nat_diff)
        moreover have "later = rest_of (Some (a + of_nat n, drop n bs, pad)) rs stop" using t(2) by simp
        moreover have "written (calls ?s2) @ rest_bytes (Some (a + of_nat n, drop n bs, pad)) rs = written (calls s) @ rest_bytes pend rs"
          using addressed_append [of a "take n bs" "drop n bs"] n(2) st(4) Some r1 by (simp add: rest_bytes_def min_def)
        moreover have "dload_errors ?s2 = dload_errors s" using after_copy_errors [OF assms(1)] by simp
        ultimately show ?thesis using e less.prems(3) unfolding packet_result_def by blast
      qed
    qed
  qed
qed

lemma cinit_packets_done: "cinit_state s = CI_done \<Longrightarrow> cinit_packets env pks s = Some s"
  by (induction pks) (simp_all add: cinit_stop)

lemma cinit_packets_from:
  assumes "\<And>es. io_writemem env es" and "table_end stop" and "concat pks = rest_of pend rs stop"
    and "\<forall>pk \<in> set (butlast pks). 8 dvd length pk" and "stands s pend" and "\<forall>r \<in> set rs. record_ok r"
  shows "\<exists>s'. cinit_packets env pks s = Some s' \<and> cinit_state s' = CI_done \<and> dload_errors s' = dload_errors s
    \<and> written (calls s') = written (calls s) @ rest_bytes pend rs"
  using assms(3-6)
proof (induction pks arbitrary: s pend rs)
  case Nil
  have "cinit_table rs stop \<noteq> []" using assms(2) by (cases rs rule: list.exhaust) (auto simp: table_end_def bytes_of_word_def)
  with Nil show ?case by (cases pend) auto
next
  case (Cons pk pks)
  have d: "8 dvd length pk \<or> concat pks = []" using Cons.prems(2) by (cases pks) auto
  from cinit_packet [OF assms(1) _ assms(2) d, of "pk" 0 pend rs s] Cons.prems(1,3,4) obtain s1 where
    s1: "cload_cinit env pk (int (length pk)) 0 s = Some s1" "packet_result s pend rs stop (concat pks) s1" by auto
  show ?case
  proof (cases "cinit_state s1 = CI_done \<and> written (calls s1) = written (calls s) @ rest_bytes pend rs")
    case True
    with s1 show ?thesis by (simp add: cinit_packets_done packet_result_def)
  next
    case False
    with s1(2) obtain pend' rs' where p: "stands s1 pend'" "\<forall>r \<in> set rs'. record_ok r" "concat pks = rest_of pend' rs' stop"
      "written (calls s1) @ rest_bytes pend' rs' = written (calls s) @ rest_bytes pend rs" "dload_errors s1 = dload_errors s"
      by (auto simp: packet_result_def)
    have "\<forall>pk \<in> set (butlast pks). 8 dvd length pk" using Cons.prems(2) by (cases pks) auto
    from Cons.IH [OF p(3) this p(1,2)] s1(1) p(4,5) show ?thesis by auto
  qed
qed

text \<open>
  A table is carried out completely, however it is cut into packets at multiples of 8 bytes: every
  byte of every record is written to its address, in the order of the table, nothing else is
  written and no error is reported, provided the writes succeed.
\<close>

theorem cinit_table_written:
  assumes "\<And>es. io_writemem env es" and "cinit_state s = CI_count" and "\<forall>r \<in> set rs. record_ok r" and "table_end stop"
    and "concat pks = cinit_table rs stop" and "\<forall>pk \<in> set (butlast pks). 8 dvd length pk"
  shows "\<exists>s'. cinit_packets env pks s = Some s' \<and> cinit_state s' = CI_done \<and> dload_errors s' = dload_errors s
    \<and> written (calls s') = written (calls s) @ record_bytes rs"
  using cinit_packets_from [OF assms(1,4) _ assms(6), of None rs s] assms(2,3,5) by (simp add: rest_bytes_def)

theorem cinit_table_written_witness:
  "\<exists>s'. cinit_packets easy_env [[9, 0, 0, 0, 0, 0x10, 0, 0], [1, 2, 3, 4, 5, 6, 7, 8], [9, 0, 0, 0, 0, 0, 0, 0, 0, 0, 0, 0]] cinit_start = Some s'
    \<and> written (calls s') = [(0x1000, 1), (0x1001, 2), (0x1002, 3), (0x1003, 4), (0x1004, 5), (0x1005, 6), (0x1006, 7), (0x1007, 8), (0x1008, 9)]"
proof -
  have t: "table_end [0, 0, 0, 0]"
    unfolding table_end_def by (intro exI [of _ 0] exI [of _ "[]"]) (simp add: bytes_of_word_def)
  have b: "bytes_of_word 9 = [9, 0, 0, 0]" "bytes_of_word 0x1000 = [0, 0x10, 0, 0]" by code_simp+
  have e: "io_writemem easy_env es" for es by (simp add: easy_env_def)
  have s: "cinit_state cinit_start = CI_count" "calls cinit_start = []" by (simp_all add: cinit_start_def dload_clear_def)
  let ?rs = "[(0x1000, [1, 2, 3, 4, 5, 6, 7, 8, 9], [0, 0, 0, 0, 0, 0, 0])] :: cinit_record list"
  have "concat [[9, 0, 0, 0, 0, 0x10, 0, 0], [1, 2, 3, 4, 5, 6, 7, 8], [9, 0, 0, 0, 0, 0, 0, 0, 0, 0, 0, 0]] = cinit_table ?rs [0, 0, 0, 0]"
    by (simp add: b)
  moreover have "\<forall>r \<in> set ?rs. record_ok r" by (simp add: round8_def)
  moreover have "\<forall>pk \<in> set (butlast [[9, 0, 0, 0, 0, 0x10, 0, 0], [1, 2, 3, 4, 5, 6, 7, 8], [9, 0, 0, 0, 0, 0, 0, 0, 0, 0, 0, 0 :: u8]]). 8 dvd length pk"
    by code_simp
  ultimately obtain s' where "cinit_packets easy_env [[9, 0, 0, 0, 0, 0x10, 0, 0], [1, 2, 3, 4, 5, 6, 7, 8], [9, 0, 0, 0, 0, 0, 0, 0, 0, 0, 0, 0]] cinit_start = Some s'"
      "written (calls s') = written (calls cinit_start) @ record_bytes ?rs"
    using cinit_table_written [OF e s(1) _ t, of ?rs "[[9, 0, 0, 0, 0, 0x10, 0, 0], [1, 2, 3, 4, 5, 6, 7, 8], [9, 0, 0, 0, 0, 0, 0, 0, 0, 0, 0, 0]]"]
    by blast
  then show ?thesis by (simp add: s(2) written_def del: cinit_packets.simps)
qed

text \<open>
  The assumption on the packets is needed. When a packet ends with the bytes of a record and their
  padding opens the next one, the interpreter has skipped the padding already: it reads the
  padding as the end of the table, and the records that follow are dropped without an error.
\<close>

theorem cinit_padding_cut:
  assumes "\<And>es. io_writemem env es" and "cinit_state s = CI_count" and "bs \<noteq> []" and "length bs < 2 ^ 31" and "length bs mod 8 = 4"
  shows "\<exists>s'. cinit_packets env [bytes_of_word (of_nat (length bs)) @ bytes_of_word a @ bs, replicate 4 0 @ cinit_table rs stop] s = Some s'
    \<and> cinit_state s' = CI_done \<and> dload_errors s' = dload_errors s \<and> written (calls s') = written (calls s) @ addressed a bs"
proof -
  let ?p = "bytes_of_word (of_nat (length bs)) @ bytes_of_word a @ bs" and ?q = "replicate 4 0 @ cinit_table rs stop"
  let ?s2 = "s\<lparr>cinit_count := int (length bs), cinit_page := 0, cinit_addr := a, cinit_state := CI_copy\<rparr>"
  let ?s3 = "(after_copy env bs ?s2)\<lparr>cinit_count := 0, cinit_state := CI_count, cinit_addr := a + of_nat (round8 (length bs))\<rparr>"
  have r: "length bs \<le> round8 (length bs)" by (simp add: round8_def)
  have "cload_cinit env ?p (int (length ?p)) 0 s = cload_cinit env ?p (int (length ?p)) 8 ?s2"
    using cinit_take_record [OF assms(2), of 0 ?p "length bs" a bs "int (length ?p)" env] assms(3,4) by simp
  also have "\<dots> = cload_cinit env ?p (int (length ?p)) (8 + round8 (length bs)) ?s3"
    using cinit_copy_all [of ?s2 "length bs" 8 "int (length ?p)" ?p env] assms(3) by simp
  also have "\<dots> = Some ?s3" using cinit_stop(2) [of ?s3] r by (simp add: cinit_exit_def)
  finally have 1: "cload_cinit env ?p (int (length ?p)) 0 s = Some ?s3" .
  have "replicate 4 (0 :: u8) = bytes_of_word 0" by code_simp
  then have z: "drop 0 ?q = bytes_of_word 0 @ cinit_table rs stop" by simp
  have 2: "cload_cinit env ?q (int (length ?q)) 0 ?s3 = Some (?s3\<lparr>cinit_state := CI_done\<rparr>)"
    using cinit_take_count [OF _ _ unpack_word [OF z], of ?s3 "int (length ?q)" env] by simp
  from 1 2 after_copy_errors [OF assms(1), of bs ?s2] show ?thesis by simp
qed

end
