(* ===== verification/Dload_Frame.thy ===== *)
theory Dload_Frame
  imports Dload_Expr
begin

section \<open>What a relocation leaves alone\<close>

text \<open>
  Lemmas on \<open>dload_relocate\<close> that the loading of packets needs: a relocation does not touch the
  stream, so that reading the relocations of a packet in pieces can be separated from performing
  them, and it changes only the symbol table, the base of \<open>.bss\<close>, the errors and the stack.
  \<open>relocate_with_steps\<close> is the equation of \<open>relocate_with\<close> with the reading and the storing of the
  field as functions of their own.
\<close>

subsection \<open>The stream\<close>

lemma relocate_strm_parts:
  "reloc_amount (s\<lparr>strm := x\<rparr>) = reloc_amount s"
  "act_value act (s\<lparr>strm := x\<rparr>) rp amt st val = act_value act s rp amt st val"
  "c6_section (s\<lparr>strm := x\<rparr>) rp svp amt = c6_section s rp svp amt"
  "c6_base (s\<lparr>strm := x\<rparr>) amt = map_option (apfst (\<lambda>s. s\<lparr>strm := x\<rparr>)) (c6_base s amt)"
  "c6_displacement (s\<lparr>strm := x\<rparr>) amt val offs fieldsz = apfst (\<lambda>s. s\<lparr>strm := x\<rparr>) (c6_displacement s amt val offs fieldsz)"
proof -
  show "reloc_amount (s\<lparr>strm := x\<rparr>) = reloc_amount s" by (intro ext) (simp add: reloc_amount_def)
  show "act_value act (s\<lparr>strm := x\<rparr>) rp amt st val = act_value act s rp amt st val" by (cases act) simp_all
  show "c6_section (s\<lparr>strm := x\<rparr>) rp svp amt = c6_section s rp svp amt" by (simp add: c6_section_def split: option.split)
  show "c6_base (s\<lparr>strm := x\<rparr>) amt = map_option (apfst (\<lambda>s. s\<lparr>strm := x\<rparr>)) (c6_base s amt)"
    by (auto simp: c6_base_def dload_error_def Let_def split: Option.bind_split option.split prod.split)
  show "c6_displacement (s\<lparr>strm := x\<rparr>) amt val offs fieldsz = apfst (\<lambda>s. s\<lparr>strm := x\<rparr>) (c6_displacement s amt val offs fieldsz)"
    by (simp add: c6_displacement_def dload_error_def Let_def)
qed

lemma perform_strm:
  "perform_action act (s\<lparr>strm := x\<rparr>) rp amt svp st val offs fieldsz scale =
     map_option (apfst (\<lambda>s. s\<lparr>strm := x\<rparr>)) (perform_action act s rp amt svp st val offs fieldsz scale)"
  by (cases act) (auto simp: perform_action_def relocate_strm_parts split: Option.bind_split)

definition reloc_result :: "nat \<Rightarrow> nat \<Rightarrow> u8 list \<Rightarrow> int \<Rightarrow> dload_state \<times> u32 \<times> nat \<times> nat \<times> nat \<Rightarrow> (dload_state \<times> u8 list) option" where
  "reloc_result info dp img tos r = (case r of (s2, val2, offset2, fieldsz2, scale2) \<Rightarrow>
     (if RFV_ACCS info AND ROP_W \<noteq> 0 then do {
           (img', ovf) \<leftarrow> dload_repack (signed_drop_bit scale2 val2) img dp fieldsz2 offset2 (RFV_SIGN info);
           Some (if ovf then dload_error s2 Value_overflows else s2, img') }
         else if tos \<noteq> 0 then do {
           stk \<leftarrow> stk_wr (relstk s2) tos val2;
           Some (s2\<lparr>relstk := stk\<rparr>, img) }
         else Some (s2, img)))"

lemma reloc_result_strm:
  "reloc_result info dp img tos (apfst (\<lambda>s. s\<lparr>strm := x\<rparr>) r) = map_option (apfst (\<lambda>s. s\<lparr>strm := x\<rparr>)) (reloc_result info dp img tos r)"
  by (cases r) (auto simp: reloc_result_def dload_error_def split: Option.bind_split prod.splits)

definition reloc_value :: "nat \<Rightarrow> u8 list \<Rightarrow> reloc_record \<Rightarrow> nat \<Rightarrow> nat \<Rightarrow> nat \<Rightarrow> u32 \<Rightarrow> nat \<Rightarrow> u32 option" where
  "reloc_value info img rp fieldsz offs scale val0 dp =
     (if RFV_ACCS info AND ROP_R \<noteq> 0
                 then do { v \<leftarrow> dload_unpack img dp fieldsz offs (RFV_SIGN info); Some (push_bit scale v) }
                 else Some val0)"

lemma relocate_with_steps:
  "relocate_with s img rp action info = do {
     (amt, svp) \<leftarrow> reloc_amount s info rp;
     let uses = RFV_STK info;
     let tos = (if uses = 0 then 0 else int uses + relstkidx s - RSTK_UOP);
     (if uses \<noteq> 0 \<and> tos \<ge> STATIC_EXPR_STK_SIZE then Some (dload_error s Stack_overflow, img)
      else do {
        val0 \<leftarrow> (if uses = 0 then Some 0 else stk_rd (relstk s) (relstkidx s));
        let touches = (RFV_ACCS info \<noteq> 0);
        let width = RFV_WIDTH action;
        let fieldsz = (if \<not> touches then 0 else if width \<noteq> 0 then width else r_fieldsz rp);
        let offs = (if \<not> touches then 0 else if width \<noteq> 0 then RFV_POSN action else r_offset rp);
        let scale = (if touches then RFV_SCALE info else 0);
        dp \<leftarrow> (if touches \<and> sint (r_vaddr rp) < 0 then None else Some (nat (sint (r_vaddr rp))));
        val1 \<leftarrow> reloc_value info img rp fieldsz offs scale val0 dp;
        act \<leftarrow> rd actions (RFV_ACTION action);
        r \<leftarrow> perform_action act (if uses = 0 then s else s\<lparr>relstkidx := tos\<rparr>) rp amt svp (if uses = 0 then None else Some (stk_rd (relstk s) tos)) val1 offs fieldsz scale;
        reloc_result info dp img tos r }) }"
  unfolding relocate_with_def reloc_value_def reloc_result_def Let_def by (simp only: prod.case_distrib)

lemma relocate_with_strm:
  "relocate_with (s\<lparr>strm := x\<rparr>) img rp action info = map_option (apfst (\<lambda>s. s\<lparr>strm := x\<rparr>)) (relocate_with s img rp action info)"
proof -
  let ?g = "apfst (\<lambda>s :: dload_state. s\<lparr>strm := x\<rparr>) :: dload_state \<times> u8 list \<Rightarrow> _"
  define uses where "uses = RFV_STK info"
  define tos where "tos = (if uses = 0 then 0 else int uses + relstkidx s - RSTK_UOP)"
  define s1 where "s1 = (if uses = 0 then s else s\<lparr>relstkidx := tos\<rparr>)"
  have i: "(if uses = 0 then s\<lparr>strm := x\<rparr> else s\<lparr>strm := x\<rparr>\<lparr>relstkidx := tos\<rparr>) = s1\<lparr>strm := x\<rparr>" by (simp add: s1_def)
  have f: "relstkidx (s\<lparr>strm := x\<rparr>) = relstkidx s" "relstk (s\<lparr>strm := x\<rparr>) = relstk s"
    by simp_all
  have fin: "Option.bind (perform_action act (s1\<lparr>strm := x\<rparr>) rp amt svp st v offs fieldsz scale) (reloc_result info dp img tos) =
      map_option ?g (Option.bind (perform_action act s1 rp amt svp st v offs fieldsz scale) (reloc_result info dp img tos))"
    for act amt svp st v offs fieldsz scale dp
    by (cases "perform_action act s1 rp amt svp st v offs fieldsz scale") (simp_all add: perform_strm reloc_result_strm)
  have b: "Option.bind m f = map_option ?g (Option.bind m f')" if "\<And>y. f y = map_option ?g (f' y)" for m :: "'z option" and f f'
    using that by (cases m) simp_all
  show ?thesis
    unfolding relocate_with_steps relocate_strm_parts Let_def uses_def [symmetric] f tos_def [symmetric] i s1_def [symmetric]
    apply (rule b)
    apply (simp only: split_beta)
    apply (simp only: if_distrib [of "map_option _"] option.map)
    apply (intro if_cong refl)
     apply (simp add: dload_error_def)
    apply (rule b)+
    apply (rule fin)
    done
qed

lemma dload_relocate_strm:
  "dload_relocate (s\<lparr>strm := x\<rparr>) img rp = map_option (apfst (\<lambda>s. s\<lparr>strm := x\<rparr>)) (dload_relocate s img rp)"
  by (auto simp: dload_relocate_def relocate_with_strm dload_error_def Let_def split: Option.bind_split option.split)

lemma run_relocs_strm:
  "run_relocs (s\<lparr>strm := x\<rparr>) img rps = map_option (apfst (\<lambda>s. s\<lparr>strm := x\<rparr>)) (run_relocs s img rps)"
proof (induction rps arbitrary: s img)
  case (Cons rp rps)
  then show ?case by (cases "dload_relocate s img rp") (auto simp: dload_relocate_strm split: prod.split)
qed simp

subsection \<open>The state\<close>

text \<open>What a relocation may change of the state.\<close>

inductive reloc_frame :: "dload_state \<Rightarrow> dload_state \<Rightarrow> bool" where
  "reloc_frame s (s\<lparr>mysym := sy, bss_run_base := b, dload_errors := dload_errors s @ es, relstkidx := i, relstk := stk\<rparr>)"

lemma reloc_frame_update:
  "reloc_frame s s"
  "reloc_frame s (dload_error s e)" "reloc_frame s (s\<lparr>mysym := sy\<rparr>)" "reloc_frame s (s\<lparr>bss_run_base := b\<rparr>)"
  "reloc_frame s (s\<lparr>relstkidx := i\<rparr>)" "reloc_frame s (s\<lparr>relstk := stk\<rparr>)"
  using reloc_frame.intros [where s = s and sy = "mysym s" and b = "bss_run_base s" and es = "[]" and i = "relstkidx s" and stk = "relstk s"]
    reloc_frame.intros [where s = s and sy = "mysym s" and b = "bss_run_base s" and es = "[e]" and i = "relstkidx s" and stk = "relstk s"]
    reloc_frame.intros [where s = s and sy = sy and b = "bss_run_base s" and es = "[]" and i = "relstkidx s" and stk = "relstk s"]
    reloc_frame.intros [where s = s and sy = "mysym s" and b = b and es = "[]" and i = "relstkidx s" and stk = "relstk s"]
    reloc_frame.intros [where s = s and sy = "mysym s" and b = "bss_run_base s" and es = "[]" and i = i and stk = "relstk s"]
    reloc_frame.intros [where s = s and sy = "mysym s" and b = "bss_run_base s" and es = "[]" and i = "relstkidx s" and stk = stk]
  by (simp_all add: dload_error_def)

lemma reloc_frame_trans: "reloc_frame s s' \<Longrightarrow> reloc_frame s' s'' \<Longrightarrow> reloc_frame s s''"
proof (elim reloc_frame.cases, clarsimp)
  fix sy b es i stk fs
  show "reloc_frame s (s\<lparr>mysym := sy, bss_run_base := b, dload_errors := dload_errors s @ es @ fs, relstkidx := i, relstk := stk\<rparr>)"
    by (rule reloc_frame.intros)
qed

lemma c6_frame:
  "c6_base s amt = Some (s', v) \<Longrightarrow> reloc_frame s s'"
  "reloc_frame s (fst (c6_displacement s amt val offs fieldsz))"
proof -
  show "reloc_frame s (fst (c6_displacement s amt val offs fieldsz))"
    by (simp add: c6_displacement_def Let_def reloc_frame_update)
  show "reloc_frame s s'" if "c6_base s amt = Some (s', v)"
    using that
    by (auto simp: c6_base_def Let_def split: if_splits Option.bind_splits option.splits prod.splits
        intro: reloc_frame_update reloc_frame_trans [OF reloc_frame_update(3) reloc_frame_update(2)]
          reloc_frame_trans [OF reloc_frame_update(3) reloc_frame_update(4)])
qed

lemma perform_frame:
  "perform_action act s rp amt svp st val offs fieldsz scale = Some r \<Longrightarrow> reloc_frame s (fst r)"
  by (cases act) (auto simp: perform_action_def split: Option.bind_splits
      intro: reloc_frame_update c6_frame reloc_frame_trans [OF c6_frame(1) c6_frame(2)])

lemma reloc_result_frame: "reloc_result info dp img tos r = Some (s', img') \<Longrightarrow> reloc_frame (fst r) s'"
  by (cases r) (auto simp: reloc_result_def split: if_splits Option.bind_splits prod.splits intro: reloc_frame_update)

lemma result_frame:
  assumes "perform_action act s1 rp amt svp st val offs fieldsz scale = Some r" and "reloc_result info dp img tos r = Some (s', img')" and "reloc_frame s s1"
  shows "reloc_frame s s'"
  using reloc_frame_trans [OF assms(3) reloc_frame_trans [OF perform_frame [OF assms(1)] reloc_result_frame [OF assms(2)]]] .

lemma relocate_with_frame: "relocate_with s img rp action info = Some (s', img') \<Longrightarrow> reloc_frame s s'"
  by (auto simp: relocate_with_steps Let_def bind_eq_Some_conv split: if_splits prod.splits
      intro: reloc_frame_update result_frame)

lemma dload_relocate_frame: "dload_relocate s img rp = Some (s', img') \<Longrightarrow> reloc_frame s s'"
  by (auto simp: dload_relocate_def Let_def bind_eq_Some_conv split: option.splits if_splits
      intro: reloc_frame_update relocate_with_frame)

lemma run_relocs_frame: "run_relocs s img rps = Some (s', img') \<Longrightarrow> reloc_frame s s'"
proof (induction rps arbitrary: s img)
  case (Cons rp rps)
  then show ?case by (auto simp: bind_eq_Some_conv intro: reloc_frame_trans dload_relocate_frame)
qed (simp add: reloc_frame_update)

lemma repack_loop_length: "repack_loop img dp v m = Some img' \<Longrightarrow> length img' = length img"
proof (induction img dp v m arbitrary: img' rule: repack_loop.induct)
  case (1 img dp v m)
  from "1.prems" [unfolded repack_loop.simps [of img]] "1.IH" show ?case
    by (auto simp: bind_eq_Some_conv wr_Some_iff split: if_splits)
qed

lemma dload_repack_length: "dload_repack v img dp n offs sg = Some (img', ovf) \<Longrightarrow> length img' = length img"
  by (auto simp: dload_repack_def Let_def bind_eq_Some_conv wr_Some_iff dest: repack_loop_length split: if_splits)

lemma reloc_result_length: "reloc_result info dp img tos r = Some (s', img') \<Longrightarrow> length img' = length img"
  by (cases r) (auto simp: reloc_result_def bind_eq_Some_conv dest: dload_repack_length split: if_splits prod.splits)

lemma relocate_with_length: "relocate_with s img rp action info = Some (s', img') \<Longrightarrow> length img' = length img"
  by (auto simp: relocate_with_steps Let_def bind_eq_Some_conv split: if_splits prod.splits dest: reloc_result_length)

lemma run_relocs_length: "run_relocs s img rps = Some (s', img') \<Longrightarrow> length img' = length img"
proof (induction rps arbitrary: s img)
  case (Cons rp rps)
  then obtain s1 img1 where 1: "dload_relocate s img rp = Some (s1, img1)" "run_relocs s1 img1 rps = Some (s', img')"
    by (auto simp: bind_eq_Some_conv)
  from 1(1) have "length img1 = length img"
    by (auto simp: dload_relocate_def Let_def bind_eq_Some_conv split: option.splits if_splits dest: relocate_with_length)
  with Cons.IH [OF 1(2)] show ?case by simp
qed simp

end
