(* ===== verification/Dload_Data.thy ===== *)
theory Dload_Data
  imports Dload_Load Dload_Cinit Dload_Frame
begin

section \<open>The data of a module\<close>

text \<open>
  \<open>dload_data\<close> and \<open>relocate_packet\<close> of \<open>cload.c\<close>: every section that needs it is read packet by
  packet, relocated and written to the target, or handed to the interpreter of the initialisation
  table; a section of uninitialised data is filled when the client asks for it. The buffer of a
  packet is a local array that keeps what earlier packets left in it; its first contents are an
  argument.
\<close>

subsection \<open>The code\<close>

definition MY_RELOC_BUF_SIZ :: nat where "MY_RELOC_BUF_SIZ = 8"

text \<open>
  The relocations of a packet, read in groups of eight; the result holds the bits of the packet,
  the checksum and the value returned. The loops test at their ends: the caller never passes 0.
\<close>

function relocate_packet :: "nat \<Rightarrow> u8 list \<Rightarrow> u32 \<Rightarrow> dload_state \<Rightarrow> (dload_state \<times> u8 list \<times> u32 \<times> bool) option" where
  "relocate_packet rnum bits checks s =
     (if rnum = 0 then None
      else do {
        let rinbuf = (if rnum > MY_RELOC_BUF_SIZ then MY_RELOC_BUF_SIZ else rnum);
        (st, b, n) \<leftarrow> readBuffer (strm s) (replicate (12 * rinbuf) 0) 0 (of_nat (12 * rinbuf));
        let s1 = s\<lparr>strm := st\<rparr>;
        (if n \<noteq> int (12 * rinbuf) then Some (dload_error s1 E_READSTRM, bits, checks, False)
         else do {
           b1 \<leftarrow> fix_order s1 b 0 (int (12 * rinbuf));
           c \<leftarrow> dload_checksum b1 0 (int (12 * rinbuf));
           rps \<leftarrow> decode_all 3 decode_reloc rinbuf (words_of b1);
           (s2, bits1) \<leftarrow> run_relocs s1 bits rps;
           (if rnum - rinbuf > 0 then relocate_packet (rnum - rinbuf) bits1 (checks + c) s2
            else Some (s2, bits1, checks + c, True)) }) })"
  by pat_completeness auto
termination
  by (relation "measure (\<lambda>(n, bits, c, s). n)") (auto simp: MY_RELOC_BUF_SIZ_def split: if_splits)

declare relocate_packet.simps [simp del]

text \<open>What happens to the bits of a packet that has been read and relocated.\<close>

definition store_packet :: "dl_env \<Rightarrow> doff_scnhdr \<Rightarrow> LDR_SECTION_INFO \<Rightarrow> u32 \<Rightarrow> image_packet \<Rightarrow> u8 list \<Rightarrow> dload_state \<Rightarrow> dload_state option" where
  "store_packet env sptr lptr image_offs ipacket bits s =
     (if DLOAD_SECT_TYPE sptr = DLOAD_CINIT then cload_cinit env bits (sint (i_packet_size ipacket)) 0 s
      else if length bits < unat (i_packet_size ipacket) then None
      else let (s1, ok) = writemem env (load_addr lptr + image_offs) (take (unat (i_packet_size ipacket)) bits) s
           in Some (if ok then s1 else dload_error s1 Write_failed))"

text \<open>The packets of a section; the flag is False where the procedure returns.\<close>

primrec load_packets :: "dl_env \<Rightarrow> doff_scnhdr \<Rightarrow> LDR_SECTION_INFO \<Rightarrow> nat \<Rightarrow> u32 \<Rightarrow> u8 list \<Rightarrow> dload_state
    \<Rightarrow> (dload_state \<times> u8 list \<times> bool) option" where
  "load_packets env sptr lptr 0 image_offs bufr s = Some (s, bufr, True)"
| "load_packets env sptr lptr (Suc nip) image_offs bufr s = do {
     (st, hb, n) \<leftarrow> readBuffer (strm s) (replicate IPH_SIZE 0) 0 (of_nat IPH_SIZE);
     let s1 = s\<lparr>strm := st\<rparr>;
     (if n \<noteq> int IPH_SIZE then Some (dload_error s1 E_READSTRM, bufr, False)
      else do {
        hb1 \<leftarrow> fix_order s1 hb 0 (int IPH_SIZE);
        ipacket \<leftarrow> decode_packet (words_of hb1);
        let ipsize = DOFF_ALIGN (i_packet_size ipacket);
        (if sint ipsize > int IMAGE_PACKET_SIZE then Some (dload_error s1 Bad_packet_size, bufr, False)
         else do {
           (st2, bits, n2) \<leftarrow> readBuffer (strm s1) bufr 0 ipsize;
           let s2 = s1\<lparr>strm := st2\<rparr>;
           (if n2 \<noteq> sint ipsize then Some (dload_error s2 E_READSTRM, bits, False)
            else do {
              bits1 \<leftarrow> fix_order s2 bits 0 (sint ipsize);
              dsum \<leftarrow> dload_checksum bits1 0 (sint ipsize);
              hsum \<leftarrow> dload_checksum hb1 0 (int IPH_SIZE);
              (s3, bits2, checks, ok) \<leftarrow>
                (if i_num_relocs ipacket \<noteq> 0
                 then relocate_packet (unat (i_num_relocs ipacket)) bits1 (dsum + hsum) (s2\<lparr>image_offset := image_offs\<rparr>)
                 else Some (s2, bits1, dsum + hsum, True));
              (if \<not> ok then Some (s3, bits2, False)
               else do {
                 let s4 = (if NOT checks \<noteq> 0 then dload_error s3 E_CHECKSUM else s3);
                 s5 \<leftarrow> store_packet env sptr lptr image_offs ipacket bits2 s4;
                 load_packets env sptr lptr nip (image_offs + i_packet_size ipacket) bits2 s5 }) }) }) }) }"

definition DLOAD_INITBSS :: u32 where "DLOAD_INITBSS = 1"
definition dload_fill_bss :: u8 where "dload_fill_bss = 0"

definition fill_bss :: "doff_scnhdr \<Rightarrow> LDR_SECTION_INFO \<Rightarrow> bool \<Rightarrow> dload_state \<Rightarrow> dload_state" where
  "fill_bss sptr lptr cinit_processed s =
     (if DLOAD_SECT_TYPE sptr = DLOAD_BSS \<and> myoptions s AND DLOAD_INITBSS \<noteq> 0
      then if \<not> cinit_processed then call (Fillmem (load_addr lptr) (li_size lptr) dload_fill_bss) s
           else dload_error s Zero_init_late
      else s)"

text \<open>
  The information structure of a section: its entry in the handle for the first
  \<open>allocated_secn_count\<close> sections, its header for the others.
\<close>

definition section_info :: "dload_state \<Rightarrow> nat \<Rightarrow> doff_scnhdr \<Rightarrow> LDR_SECTION_INFO option" where
  "section_info s curr_sect sptr =
     (if curr_sect < allocated_secn_count s then rd (ldr_sections s) curr_sect else Some (DOFFSEC_IS_LDRSEC sptr))"

primrec data_loop :: "dl_env \<Rightarrow> nat \<Rightarrow> nat \<Rightarrow> u8 list \<Rightarrow> bool \<Rightarrow> dload_state \<Rightarrow> dload_state option" where
  "data_loop env curr_sect 0 bufr cinit_processed s = Some s"
| "data_loop env curr_sect (Suc k) bufr cinit_processed s = do {
     sptr \<leftarrow> rd (sect_hdrs s) curr_sect;
     lptr \<leftarrow> section_info s curr_sect sptr;
     (if DS_NEEDS_DOWNLOAD sptr then do {
        let s1 = s\<lparr>delta_runaddr := (if curr_sect < allocated_secn_count s then ds_paddr sptr else 0), image_secn := lptr\<rparr>;
        nip \<leftarrow> packet_count sptr;
        (s2, bufr1, ok) \<leftarrow> load_packets env sptr lptr nip 0 bufr s1;
        (if \<not> ok then Some s2
         else do {
           let cinit1 = (cinit_processed \<or> DLOAD_SECT_TYPE sptr = DLOAD_CINIT \<and> nip > 0);
           data_loop env (curr_sect + 1) k bufr1 cinit1 (fill_bss sptr lptr cinit1 s2) }) }
      else data_loop env (curr_sect + 1) k bufr cinit_processed (fill_bss sptr lptr cinit_processed s)) }"

definition dload_data :: "dl_env \<Rightarrow> u8 list \<Rightarrow> dload_state \<Rightarrow> dload_state option" where
  "dload_data env bufr s = data_loop env 0 (unat (df_no_scns (dfile_hdr s))) bufr False s"

subsection \<open>Buffers\<close>

lemma decode_all_append:
  "decode_all k d (m + n) ws = do { xs \<leftarrow> decode_all k d m ws; ys \<leftarrow> decode_all k d n (drop (k * m) ws); Some (xs @ ys) }"
proof (induction m arbitrary: ws)
  case (Suc m)
  then show ?case by (cases "d (take k ws)") (auto simp: add.commute split: Option.bind_split)
qed simp

lemma decode_all_take: "decode_all k d n (take (k * n) ws) = decode_all k d n ws"
proof (induction n arbitrary: ws)
  case (Suc n)
  have "drop k (take (k + k * n) ws) = take (k * n) (drop k ws)" by (simp add: drop_take)
  then show ?case using Suc [of "drop k ws"] by (simp add: min_def)
qed simp

lemma logical_take: "logical mp (take n ws) = take n (logical mp ws)"
  by (simp add: logical_def take_map)

lemma logical_drop: "logical mp (drop n ws) = drop n (logical mp ws)"
  by (simp add: logical_def drop_map)

lemma relocate_packet_step:
  assumes "filePointer (strm s) = Some f" and "drop (posn (strm s)) f = bytes_of us @ rest" and "length us = 3 * n" and "0 < n" "n \<le> 8"
    and "n = (if rnum > 8 then 8 else rnum)" and "decode_all 3 decode_reloc n (logical (reorder_map s) us) = Some rps"
  shows "relocate_packet rnum bits checks s = do {
    (s2, bits1) \<leftarrow> run_relocs (s\<lparr>strm := (strm s)\<lparr>posn := posn (strm s) + 12 * n\<rparr>\<rparr>) bits rps;
    (if rnum - n > 0 then relocate_packet (rnum - n) bits1 (checks + sum_list (logical (reorder_map s) us)) s2
     else Some (s2, bits1, checks + sum_list (logical (reorder_map s) us), True)) }"
proof -
  define k :: u32 where "k = of_nat (12 * n)"
  have k: "unat k = 12 * n" using assms(5) using small_word(1) [of "12 * n"] by (simp add: k_def IMAGE_PACKET_SIZE_def del: of_nat_mult)
  have r: "readBuffer (strm s) (replicate (12 * n) 0) 0 k =
      Some ((strm s)\<lparr>posn := posn (strm s) + 12 * n\<rparr>, bytes_of us, int (12 * n))"
    using readBuffer_words [OF assms(1,2), of k "replicate (12 * n) 0" 0 0] assms(3) k by simp
  have "us \<noteq> []" using assms(3,4) by auto
  then have o: "fix_order s (bytes_of us) 0 (int (12 * n)) = Some (bytes_of (logical (reorder_map s) us))"
    using fix_order_all [of us s "int (12 * n)"] assms(3) by simp
  have c: "dload_checksum (bytes_of (logical (reorder_map s) us)) 0 (int (12 * n)) = Some (sum_list (logical (reorder_map s) us))"
    using dload_checksum_words [of "[]" "logical (reorder_map s) us" "[]"] assms(3) by simp
  have i: "(if rnum > MY_RELOC_BUF_SIZ then MY_RELOC_BUF_SIZ else rnum) = n" "rnum \<noteq> 0"
    using assms(4,6) by (auto simp: MY_RELOC_BUF_SIZ_def split: if_splits)
  show ?thesis
    by (subst relocate_packet.simps) (simp only: i(1) Let_def k_def [symmetric] r Option.bind.bind_lunit prod.case,
      simp add: i(2) o c assms(7) del: of_nat_mult)
qed

text \<open>
  The buffer of eight relocations is invisible: reading and performing the relocations of a packet
  in groups, whatever their number, has the result of performing them one after the other with
  the stream behind the last of them, and the checksum of all of them.
\<close>

theorem relocate_packet_unbuffered:
  assumes "filePointer (strm s) = Some f" and "drop (posn (strm s)) f = bytes_of us @ rest" and "length us = 3 * n" and "0 < n"
    and "decode_all 3 decode_reloc n (logical (reorder_map s) us) = Some rps"
  shows "relocate_packet n bits checks s = do {
    (s', bits') \<leftarrow> run_relocs (s\<lparr>strm := (strm s)\<lparr>posn := posn (strm s) + 12 * n\<rparr>\<rparr>) bits rps;
    Some (s', bits', checks + sum_list (logical (reorder_map s) us), True) }"
  using assms
proof (induction n arbitrary: us rps bits checks s rule: less_induct)
  case (less n)
  show ?case
  proof (cases "n \<le> 8")
    case True
    with relocate_packet_step [OF less.prems(1-4) True, of n rps bits checks] less.prems(5) show ?thesis by simp
  next
    case False
    let ?mp = "reorder_map s" and ?a = "take 24 us" and ?b = "drop 24 us"
    let ?st = "(strm s)\<lparr>posn := posn (strm s) + 96\<rparr>"
    obtain m where m: "n = 8 + m" "0 < m" using False by (intro that [of "n - 8"]) auto
    from less.prems(5) m(1) obtain xs ys where
      xs: "decode_all 3 decode_reloc 8 (logical ?mp ?a) = Some xs" "decode_all 3 decode_reloc m (logical ?mp ?b) = Some ys" "rps = xs @ ys"
      using decode_all_take [of 3 decode_reloc 8 "logical ?mp us"]
      by (auto simp: decode_all_append bind_eq_Some_conv logical_take logical_drop)
    have w: "bytes_of us @ rest = bytes_of ?a @ bytes_of ?b @ rest" by (simp flip: append_assoc bytes_of_append)
    have la: "length ?a = 3 * 8" "length ?b = 3 * m" using less.prems(3) m by simp_all
    have "relocate_packet n bits checks s = do {
        (s2, bits1) \<leftarrow> run_relocs (s\<lparr>strm := ?st\<rparr>) bits xs;
        relocate_packet m bits1 (checks + sum_list (logical ?mp ?a)) s2 }"
      using relocate_packet_step [OF less.prems(1) _ la(1), of "bytes_of ?b @ rest" n xs bits checks] less.prems(2) w xs(1) m by simp
    also have "\<dots> = do {
        (s2, bits1) \<leftarrow> run_relocs (s\<lparr>strm := ?st\<rparr>) bits xs;
        (s', bits') \<leftarrow> run_relocs (s2\<lparr>strm := (strm s)\<lparr>posn := posn (strm s) + 12 * n\<rparr>\<rparr>) bits1 ys;
        Some (s', bits', checks + sum_list (logical ?mp us), True) }"
    proof (rule Option.bind_cong [OF refl], clarify)
      fix s2 bits1 assume "run_relocs (s\<lparr>strm := ?st\<rparr>) bits xs = Some (s2, bits1)"
      then have "reloc_frame (s\<lparr>strm := ?st\<rparr>) s2" by (rule run_relocs_frame)
      then have f: "strm s2 = ?st" "reorder_map s2 = ?mp" by (auto elim!: reloc_frame.cases)
      have "drop (posn ?st) f = drop 96 (drop (posn (strm s)) f)" by (simp add: add.commute)
      also have "\<dots> = bytes_of ?b @ rest" using less.prems(2) w la(1) by simp
      finally have d: "drop (posn (strm s2)) f = bytes_of ?b @ rest" using f by simp
      have "sum_list (logical ?mp ?a) + sum_list (logical ?mp ?b) = sum_list (logical ?mp us)"
        by (metis append_take_drop_id logical_append sum_list_append)
      moreover have "m < n" using m by simp
      ultimately show "relocate_packet m bits1 (checks + sum_list (logical ?mp ?a)) s2 = do {
        (s', bits') \<leftarrow> run_relocs (s2\<lparr>strm := (strm s)\<lparr>posn := posn (strm s) + 12 * n\<rparr>\<rparr>) bits1 ys;
        Some (s', bits', checks + sum_list (logical ?mp us), True) }"
        using less.IH [of m s2 ?b ys bits1 "checks + sum_list (logical ?mp ?a)"] less.prems(1) d la(2) m xs(2) f
        by (simp add: add.assoc)
    qed
    also have "\<dots> = do {
        (s', bits') \<leftarrow> run_relocs (s\<lparr>strm := (strm s)\<lparr>posn := posn (strm s) + 12 * n\<rparr>\<rparr>) bits (xs @ ys);
        Some (s', bits', checks + sum_list (logical ?mp us), True) }"
      using run_relocs_strm [where s = "s\<lparr>strm := ?st\<rparr>" and x = "(strm s)\<lparr>posn := posn (strm s) + 12 * n\<rparr>" and img = bits and rps = xs]
      by (cases "run_relocs (s\<lparr>strm := ?st\<rparr>) bits xs") (auto simp: run_relocs_append)
    finally show ?thesis using xs(3) by simp
  qed
qed

subsection \<open>Packets of a file\<close>

text \<open>
  A packet in the file: the words of its header, its image and its relocations. The header counts
  the others and carries the checksum that makes the sum of all words -1.
\<close>

type_synonym file_packet = "u32 list \<times> u32 list \<times> u32 list"

fun packet_valid :: "u32 \<Rightarrow> file_packet \<Rightarrow> bool" where
  "packet_valid mp (hw, pw, rw) \<longleftrightarrow> (\<exists>nr chk. logical mp hw = [of_nat nr, of_nat (4 * length pw), chk] \<and> length rw = 3 * nr \<and> nr < 2 ^ 31
     \<and> pw \<noteq> [] \<and> 4 * length pw \<le> IMAGE_PACKET_SIZE \<and> decode_all 3 decode_reloc nr (logical mp rw) \<noteq> None
     \<and> of_nat nr + of_nat (4 * length pw) + chk + sum_list (logical mp pw) + sum_list (logical mp rw) = - 1)"

fun packet_file :: "file_packet \<Rightarrow> u32 list" where
  "packet_file (hw, pw, rw) = hw @ pw @ rw"

text \<open>
  The reference: for each packet, relocate its image, starting behind it in the stream, and store
  it; no buffers, no checks.
\<close>

primrec direct_load :: "dl_env \<Rightarrow> doff_scnhdr \<Rightarrow> LDR_SECTION_INFO \<Rightarrow> file_packet list \<Rightarrow> u32 \<Rightarrow> u8 list \<Rightarrow> dload_state
    \<Rightarrow> (dload_state \<times> u8 list) option" where
  "direct_load env sptr lptr [] offs bufr s = Some (s, bufr)"
| "direct_load env sptr lptr (pk # pks) offs bufr s = (case pk of (hw, pw, rw) \<Rightarrow> do {
     rps \<leftarrow> decode_all 3 decode_reloc (length rw div 3) (logical (reorder_map s) rw);
     (s1, bits) \<leftarrow> run_relocs ((if rw = [] then s else s\<lparr>image_offset := offs\<rparr>)\<lparr>strm := (strm s)\<lparr>posn := posn (strm s) + 4 * length (packet_file pk)\<rparr>\<rparr>)
       (bytes_of (logical (reorder_map s) pw) @ drop (4 * length pw) bufr) rps;
     s2 \<leftarrow> store_packet env sptr lptr offs \<lparr>i_num_relocs = of_nat (length rw div 3), i_packet_size = of_nat (4 * length pw), i_checksum = hd (drop 2 (logical (reorder_map s) hw))\<rparr> bits s1;
     direct_load env sptr lptr pks (offs + of_nat (4 * length pw)) bits s2 })"

text \<open>What the interpreter of the table may change of the state.\<close>

definition writes :: "io_event list \<Rightarrow> bool" where
  "writes es \<longleftrightarrow> (\<forall>e \<in> set es. \<exists>a bs. e = Writemem a bs)"

lemma writes_simps [simp]: "writes []" "writes (es @ fs) \<longleftrightarrow> writes es \<and> writes fs" "writes [Writemem a bs]"
  by (auto simp: writes_def)

inductive cinit_frame :: "dload_state \<Rightarrow> dload_state \<Rightarrow> bool" where
  "writes ws \<Longrightarrow> cinit_frame s (s\<lparr>cinit_state := m, cinit_count := c, cinit_addr := a, cinit_page := p,
     dload_errors := dload_errors s @ es, calls := calls s @ ws\<rparr>)"

lemma cinit_frame_update:
  "cinit_frame s s" "cinit_frame s (s\<lparr>cinit_state := m\<rparr>)" "cinit_frame s (s\<lparr>cinit_count := c\<rparr>)" "cinit_frame s (s\<lparr>cinit_addr := a\<rparr>)"
  "cinit_frame s (s\<lparr>cinit_page := p\<rparr>)" "cinit_frame s (dload_error s e)" "cinit_frame s (call (Writemem b bs) s)"
  using cinit_frame.intros [where s = s and ws = "[]" and m = "cinit_state s" and c = "cinit_count s" and a = "cinit_addr s" and p = "cinit_page s" and es = "[]"]
    cinit_frame.intros [where s = s and ws = "[]" and m = m and c = "cinit_count s" and a = "cinit_addr s" and p = "cinit_page s" and es = "[]"]
    cinit_frame.intros [where s = s and ws = "[]" and m = "cinit_state s" and c = c and a = "cinit_addr s" and p = "cinit_page s" and es = "[]"]
    cinit_frame.intros [where s = s and ws = "[]" and m = "cinit_state s" and c = "cinit_count s" and a = a and p = "cinit_page s" and es = "[]"]
    cinit_frame.intros [where s = s and ws = "[]" and m = "cinit_state s" and c = "cinit_count s" and a = "cinit_addr s" and p = p and es = "[]"]
    cinit_frame.intros [where s = s and ws = "[]" and m = "cinit_state s" and c = "cinit_count s" and a = "cinit_addr s" and p = "cinit_page s" and es = "[e]"]
    cinit_frame.intros [where s = s and ws = "[Writemem b bs]" and m = "cinit_state s" and c = "cinit_count s" and a = "cinit_addr s" and p = "cinit_page s" and es = "[]"]
  by (simp_all add: dload_error_def)

lemma cinit_frame_trans: "cinit_frame s s' \<Longrightarrow> cinit_frame s' s'' \<Longrightarrow> cinit_frame s s''"
proof (elim cinit_frame.cases, clarsimp)
  fix ws vs m c a p es fs
  assume "writes ws" "writes vs"
  then have "writes (ws @ vs)" by simp
  from cinit_frame.intros [OF this, where s = s and m = m and c = c and a = a and p = p and es = "es @ fs"]
  show "cinit_frame s (s\<lparr>cinit_state := m, cinit_count := c, cinit_addr := a, cinit_page := p,
     dload_errors := dload_errors s @ es @ fs, calls := calls s @ ws @ vs\<rparr>)" by simp
qed

lemma copy_bits_frame: "copy_bits env bits p n s = Some s' \<Longrightarrow> cinit_frame s s'"
  by (auto simp: copy_bits_def writemem_def Let_def split: if_splits
      intro: cinit_frame_update cinit_frame_trans [OF cinit_frame_update(7) cinit_frame_update(6)])

lemma cinit_exit_frame: "cinit_frame s (cinit_exit left s)"
  by (auto simp: cinit_exit_def intro: cinit_frame_update cinit_frame_trans [OF cinit_frame_update(6) cinit_frame_update(2)])

lemma cload_cinit_frame: "cload_cinit env bits pktend p s = Some s' \<Longrightarrow> cinit_frame s s'"
proof (induction env bits pktend p s rule: cload_cinit.induct)
  case (1 env bits pktend p s)
  note run = "1.prems" [unfolded cload_cinit.simps [of env bits pktend p s] Let_def]
  note up = cinit_frame_trans [OF cinit_frame_trans [OF cinit_frame_update(3) cinit_frame_update(2)]]
    cinit_frame_trans [OF cinit_frame_update(2)]
    cinit_frame_trans [OF cinit_frame_trans [OF cinit_frame_trans [OF cinit_frame_update(5) cinit_frame_update(4)] cinit_frame_update(2)]]
    cinit_frame_trans [OF cinit_frame_trans [OF cinit_frame_update(2) cinit_frame_update(4)]] cinit_frame_trans [OF cinit_frame_update(4)]
  have positive: "k \<noteq> 0" "\<not> k < 0" if "\<not> k \<le> 0" for k :: int using that by simp_all
  show ?case
  proof (cases "cinit_state s")
    case CI_count
    from run [unfolded CI_count cinit_mode.case] "1.IH"(1,2) [OF refl CI_count] show ?thesis
      by (auto simp: bind_eq_Some_conv split: if_splits intro: cinit_exit_frame up(1,2))
  next
    case CI_address
    from run [unfolded CI_address cinit_mode.case] "1.IH"(3) [OF refl CI_address] show ?thesis
      by (auto simp: bind_eq_Some_conv split: if_splits intro: cinit_exit_frame up(3))
  next
    case CI_copy
    let ?n = "if cinit_count s < pktend - int p then cinit_count s else pktend - int p"
    show ?thesis
    proof (cases "?n \<le> 0")
      case True
      with run [unfolded CI_copy cinit_mode.case] show ?thesis
        by (auto split: if_splits intro: cinit_exit_frame)
    next
      case False
      with run [unfolded CI_copy cinit_mode.case] obtain s1 where
        s1: "copy_bits env bits p ?n s = Some s1" by (cases "copy_bits env bits p ?n s") (auto split: if_splits)
      let ?s2 = "s1\<lparr>cinit_count := cinit_count s1 - ?n\<rparr>"
      have f: "cinit_frame s ?s2" using cinit_frame_trans [OF copy_bits_frame [OF s1] cinit_frame_update(3)] .
      note n = positive [OF False]
      note run = run [unfolded CI_copy cinit_mode.case, unfolded if_not_P [OF n(1)] if_not_P [OF n(2)] s1 Option.bind.bind_lunit]
      show ?thesis
      proof (cases "cinit_count ?s2 \<le> 0")
        case True
        from "1.IH"(4) [OF refl CI_copy refl n s1 refl True refl] run [unfolded if_P [OF True]]
        show ?thesis by - (rule cinit_frame_trans [OF f], rule up(4))
      next
        case F: False
        from "1.IH"(5) [OF refl CI_copy refl n s1 refl F] run [unfolded if_not_P [OF F]]
        show ?thesis by - (rule cinit_frame_trans [OF f], rule up(5))
      qed
    qed
  next
    case CI_done
    with "1.prems" show ?thesis by (simp add: cinit_stop cinit_frame_update)
  qed
qed

lemma cinit_frame_fields: "cinit_frame s s' \<Longrightarrow> strm s' = strm s \<and> reorder_map s' = reorder_map s"
  by (auto elim!: cinit_frame.cases)

lemma store_packet_cinit_frame: "store_packet env sptr lptr offs pk bits s = Some s' \<Longrightarrow> cinit_frame s s'"
  by (auto simp: store_packet_def writemem_def Let_def split: if_splits
      intro: cload_cinit_frame cinit_frame_update cinit_frame_trans [OF cinit_frame_update(7) cinit_frame_update(6)])

lemma store_packet_frame: "store_packet env sptr lptr offs pk bits s = Some s' \<Longrightarrow> strm s' = strm s \<and> reorder_map s' = reorder_map s"
  by (rule cinit_frame_fields [OF store_packet_cinit_frame])

lemma DOFF_ALIGN_whole: "4 * n \<le> IMAGE_PACKET_SIZE \<Longrightarrow> DOFF_ALIGN (of_nat (4 * n)) = of_nat (4 * n)"
proof -
  assume "4 * n \<le> IMAGE_PACKET_SIZE"
  then have n: "n \<in> set [0 ..< 257]" by (auto simp: IMAGE_PACKET_SIZE_def)
  have "\<forall>k \<in> set [0 ..< 257]. DOFF_ALIGN (of_nat (4 * k)) = of_nat (4 * k)" by code_simp
  with n show ?thesis by blast
qed

lemma load_packets_step:
  assumes "packet_valid (reorder_map s) (hw, pw, rw)" and "filePointer (strm s) = Some f"
    and "drop (posn (strm s)) f = bytes_of (hw @ pw @ rw) @ rest" and "IMAGE_PACKET_SIZE \<le> length bufr"
  shows "load_packets env sptr lptr (Suc nip) offs bufr s = do {
     rps \<leftarrow> decode_all 3 decode_reloc (length rw div 3) (logical (reorder_map s) rw);
     (s1, bits) \<leftarrow> run_relocs ((if rw = [] then s else s\<lparr>image_offset := offs\<rparr>)\<lparr>strm := (strm s)\<lparr>posn := posn (strm s) + 4 * length (hw @ pw @ rw)\<rparr>\<rparr>)
       (bytes_of (logical (reorder_map s) pw) @ drop (4 * length pw) bufr) rps;
     s2 \<leftarrow> store_packet env sptr lptr offs \<lparr>i_num_relocs = of_nat (length rw div 3), i_packet_size = of_nat (4 * length pw), i_checksum = hd (drop 2 (logical (reorder_map s) hw))\<rparr> bits s1;
     load_packets env sptr lptr nip (offs + of_nat (4 * length pw)) bits s2 }"
proof -
  let ?mp = "reorder_map s"
  from assms(1) obtain nr chk rps where
    hw: "logical ?mp hw = [of_nat nr, of_nat (4 * length pw), chk]" and nr: "length rw = 3 * nr" "nr < 2 ^ 31"
    and pw: "pw \<noteq> []" "4 * length pw \<le> IMAGE_PACKET_SIZE" and rps: "decode_all 3 decode_reloc nr (logical ?mp rw) = Some rps"
    and sum: "of_nat nr + of_nat (4 * length pw) + chk + sum_list (logical ?mp pw) + sum_list (logical ?mp rw) = - 1"
    by auto
  have len: "length hw = 3" "hw \<noteq> []" using hw length_logical [of ?mp hw] by auto
  define k :: u32 where "k = of_nat (4 * length pw)"
  have k: "DOFF_ALIGN k = k" "unat k = 4 * length pw" "sint k = int (4 * length pw)" "\<not> int IMAGE_PACKET_SIZE < sint k"
    using DOFF_ALIGN_whole [OF pw(2)] small_word [OF pw(2)] pw(2) by (simp_all add: k_def)
  define wn :: u32 where "wn = of_nat nr"
  have wn: "unat wn = nr" "wn = 0 \<longleftrightarrow> rw = []"
  proof -
    show u: "unat wn = nr" using nr(2) by (simp add: wn_def unsigned_of_nat take_bit_nat_eq_self)
    show "wn = 0 \<longleftrightarrow> rw = []" using u nr(1) by (metis length_0_conv mult_is_0 unat_eq_zero unsigned_0 zero_neq_numeral)
  qed
  let ?st1 = "(strm s)\<lparr>posn := posn (strm s) + 12\<rparr>" and ?st2 = "(strm s)\<lparr>posn := posn (strm s) + 12 + 4 * length pw\<rparr>"
  let ?st3 = "(strm s)\<lparr>posn := posn (strm s) + 4 * length (hw @ pw @ rw)\<rparr>"
  let ?bits = "bytes_of (logical ?mp pw) @ drop (4 * length pw) bufr"
  have r1: "readBuffer (strm s) (replicate IPH_SIZE 0) 0 (of_nat IPH_SIZE) = Some (?st1, bytes_of hw, int IPH_SIZE)"
    using readBuffer_words [OF assms(2), of hw "bytes_of (pw @ rw) @ rest" 12 "replicate 12 0" 0 0] assms(3) len
    by (simp add: IPH_SIZE_def)
  have o1: "fix_order s (bytes_of hw) 0 (int IPH_SIZE) = Some (bytes_of [wn, k, chk])"
    using fix_order_all [of hw s "int IPH_SIZE"] hw len by (simp add: IPH_SIZE_def wn_def k_def)
  have d1: "decode_packet (words_of (bytes_of [wn, k, chk])) = Some \<lparr>i_num_relocs = wn, i_packet_size = k, i_checksum = chk\<rparr>"
    by (simp only: words_of_all) simp
  have "drop (posn ?st1) f = drop 12 (drop (posn (strm s)) f)" by (simp add: add.commute)
  also have f2: "\<dots> = bytes_of pw @ bytes_of rw @ rest" using assms(3) len by simp
  finally have f2: "drop (posn ?st1) f = bytes_of pw @ bytes_of rw @ rest" .
  have "drop (posn ?st2) f = drop (4 * length pw) (drop (posn ?st1) f)" by (simp add: add.commute)
  also have "\<dots> = bytes_of rw @ rest" using f2 by simp
  finally have f3: "drop (posn ?st2) f = bytes_of rw @ rest" .
  have r2: "readBuffer ?st1 bufr 0 k = Some (?st2, bytes_of pw @ drop (4 * length pw) bufr, int (4 * length pw))"
    using readBuffer_words [OF _ f2, of k bufr 0 "length bufr - 4 * length pw"] assms(2,4) k(2) pw(2) by simp
  have o2: "fix_order s (bytes_of pw @ drop (4 * length pw) bufr) 0 (int (4 * length pw)) = Some ?bits"
    using fix_order_words [of pw s "int (4 * length pw)" "[]" 0] pw(1) by simp
  have c2: "dload_checksum ?bits 0 (int (4 * length pw)) = Some (sum_list (logical ?mp pw))"
    using dload_checksum_words [of "[]" "logical ?mp pw"] by simp
  have c1: "dload_checksum (bytes_of [wn, k, chk]) 0 (int IPH_SIZE) = Some (wn + (k + chk))"
    using dload_checksum_words [of "[]" "[wn, k, chk]" "[]"] by (simp add: IPH_SIZE_def)
  let ?chk = "sum_list (logical ?mp pw) + (wn + (k + chk))"
  have chk: "NOT (?chk + sum_list (logical ?mp rw)) = 0"
    using sum by (simp add: wn_def k_def ac_simps del: of_nat_mult)
  have rel: "(if wn \<noteq> 0 then relocate_packet (unat wn) ?bits ?chk (s\<lparr>strm := ?st2\<rparr>\<lparr>image_offset := offs\<rparr>)
      else Some (s\<lparr>strm := ?st2\<rparr>, ?bits, ?chk, True)) =
    do { (s1, bits) \<leftarrow> run_relocs ((if rw = [] then s else s\<lparr>image_offset := offs\<rparr>)\<lparr>strm := ?st3\<rparr>) ?bits rps;
      Some (s1, bits, ?chk + sum_list (logical ?mp rw), True) }"
  proof (cases "rw = []")
    case True
    then have "rps = []" using rps nr by simp
    with True wn len show ?thesis by (simp add: add.commute logical_def)
  next
    case False
    let ?s = "s\<lparr>strm := ?st2\<rparr>\<lparr>image_offset := offs\<rparr>"
    have pos: "0 < nr" using False nr(1) by (cases nr) auto
    have "relocate_packet nr ?bits ?chk ?s = do {
        (s', bits') \<leftarrow> run_relocs (?s\<lparr>strm := (strm ?s)\<lparr>posn := posn (strm ?s) + 12 * nr\<rparr>\<rparr>) ?bits rps;
        Some (s', bits', ?chk + sum_list (logical (reorder_map ?s) rw), True) }"
      by (rule relocate_packet_unbuffered [where f = f and rest = rest])
        (use assms(2) f3 nr pos rps in auto)
    moreover have "?s\<lparr>strm := (strm ?s)\<lparr>posn := posn (strm ?s) + 12 * nr\<rparr>\<rparr> = s\<lparr>image_offset := offs\<rparr>\<lparr>strm := ?st3\<rparr>"
      using len nr(1) by simp
    ultimately show ?thesis using False wn by simp
  qed
  have hd: "hd (drop 2 (logical ?mp hw)) = chk" "length rw div 3 = nr" using hw nr(1) by simp_all
  have chk0: "(NOT (?chk + sum_list (logical ?mp rw)) \<noteq> 0) = False" using chk by simp
  have le: "(int (4 * length pw) > int IMAGE_PACKET_SIZE) = False" "(int IPH_SIZE \<noteq> int IPH_SIZE) = False"
      "(int (4 * length pw) \<noteq> int (4 * length pw)) = False" using k(3,4) by simp_all
  have f: "strm (s\<lparr>strm := x\<rparr>) = x" "s\<lparr>strm := x\<rparr>\<lparr>strm := y\<rparr> = s\<lparr>strm := y\<rparr>" "fix_order (s\<lparr>strm := x\<rparr>) = fix_order s" for x y
    by simp_all
  have "load_packets env sptr lptr (Suc nip) offs bufr s = do {
      (s3, bits2, checks, ok) \<leftarrow> (if wn \<noteq> 0 then relocate_packet (unat wn) ?bits ?chk (s\<lparr>strm := ?st2\<rparr>\<lparr>image_offset := offs\<rparr>)
        else Some (s\<lparr>strm := ?st2\<rparr>, ?bits, ?chk, True));
      (if \<not> ok then Some (s3, bits2, False)
       else do {
         s5 \<leftarrow> store_packet env sptr lptr offs \<lparr>i_num_relocs = wn, i_packet_size = k, i_checksum = chk\<rparr> bits2
           (if NOT checks \<noteq> 0 then dload_error s3 E_CHECKSUM else s3);
         load_packets env sptr lptr nip (offs + k) bits2 s5 }) }"
    by (simp only: load_packets.simps r1 Option.bind.bind_lunit prod.case Let_def f le if_False o1 d1
        image_packet.simps k(1) r2 k(3) o2 c2 c1 rel)
  also have "\<dots> = do {
      (s1, bits) \<leftarrow> run_relocs ((if rw = [] then s else s\<lparr>image_offset := offs\<rparr>)\<lparr>strm := ?st3\<rparr>) ?bits rps;
      s2 \<leftarrow> store_packet env sptr lptr offs \<lparr>i_num_relocs = wn, i_packet_size = k, i_checksum = chk\<rparr> bits s1;
      load_packets env sptr lptr nip (offs + k) bits s2 }"
    unfolding rel
    by (cases "run_relocs ((if rw = [] then s else s\<lparr>image_offset := offs\<rparr>)\<lparr>strm := ?st3\<rparr>) ?bits rps")
      (simp_all add: chk0 split_beta)
  finally show ?thesis by (simp only: hd rps Option.bind.bind_lunit k_def wn_def)
qed

lemma load_packets_direct_eq:
  assumes "\<forall>pk \<in> set pks. packet_valid (reorder_map s) pk" and "filePointer (strm s) = Some f"
    and "drop (posn (strm s)) f = bytes_of (concat (map packet_file pks)) @ rest" and "IMAGE_PACKET_SIZE \<le> length bufr"
  shows "load_packets env sptr lptr (length pks) offs bufr s =
    map_option (\<lambda>(s', b). (s', b, True)) (direct_load env sptr lptr pks offs bufr s)"
  using assms
proof (induction pks arbitrary: s offs bufr)
  case Nil
  then show ?case by simp
next
  case (Cons pk pks)
  obtain hw pw rw where pk: "pk = (hw, pw, rw)" by (cases pk) auto
  let ?mp = "reorder_map s"
  let ?st3 = "(strm s)\<lparr>posn := posn (strm s) + 4 * length (hw @ pw @ rw)\<rparr>"
  let ?s0 = "(if rw = [] then s else s\<lparr>image_offset := offs\<rparr>)\<lparr>strm := ?st3\<rparr>"
  let ?bits = "bytes_of (logical ?mp pw) @ drop (4 * length pw) bufr"
  let ?pk = "\<lparr>i_num_relocs = of_nat (length rw div 3), i_packet_size = of_nat (4 * length pw), i_checksum = hd (drop 2 (logical ?mp hw))\<rparr>"
  have step: "load_packets env sptr lptr (Suc (length pks)) offs bufr s = do {
     rps \<leftarrow> decode_all 3 decode_reloc (length rw div 3) (logical ?mp rw);
     (s1, bits) \<leftarrow> run_relocs ?s0 ?bits rps;
     s2 \<leftarrow> store_packet env sptr lptr offs ?pk bits s1;
     load_packets env sptr lptr (length pks) (offs + of_nat (4 * length pw)) bits s2 }"
    by (rule load_packets_step [where f = f and rest = "bytes_of (concat (map packet_file pks)) @ rest"])
      (use Cons.prems pk in auto)
  have rest: "load_packets env sptr lptr (length pks) o' bits s2 = map_option (\<lambda>(s', b). (s', b, True)) (direct_load env sptr lptr pks o' bits s2)"
    if "run_relocs ?s0 ?bits rps = Some (s1, bits)" "store_packet env sptr lptr offs ?pk bits s1 = Some s2" for o' rps s1 s2 bits
  proof (rule Cons.IH)
    have "reloc_frame ?s0 s1" using that(1) by (rule run_relocs_frame)
    then have "strm s1 = ?st3" "reorder_map s1 = ?mp" by (auto elim!: reloc_frame.cases)
    with store_packet_frame [OF that(2)] have f: "strm s2 = ?st3" "reorder_map s2 = ?mp" by simp_all
    show "\<forall>pk \<in> set pks. packet_valid (reorder_map s2) pk" using Cons.prems(1) f by simp
    show "filePointer (strm s2) = Some f" using Cons.prems(2) f by simp
    have "drop (posn (strm s2)) f = drop (4 * length (hw @ pw @ rw)) (drop (posn (strm s)) f)" using f by (simp add: add.commute)
    then show "drop (posn (strm s2)) f = bytes_of (concat (map packet_file pks)) @ rest"
      using Cons.prems(3) pk by simp
    have "length bits = length ?bits" using that(1) by (rule run_relocs_length)
    then show "IMAGE_PACKET_SIZE \<le> length bits" using Cons.prems(4) by simp
  qed
  show ?case
  proof (cases "decode_all 3 decode_reloc (length rw div 3) (logical ?mp rw)")
    case None
    with step pk show ?thesis by simp
  next
    case (Some rps)
    show ?thesis
    proof (cases "run_relocs ?s0 ?bits rps")
      case None
      with step Some pk show ?thesis by simp
    next
      case S: (Some r)
      obtain s1 bits where r: "r = (s1, bits)" by (cases r)
      show ?thesis
      proof (cases "store_packet env sptr lptr offs ?pk bits s1")
        case None
        with step Some S r pk show ?thesis by simp
      next
        case T: (Some s2)
        with rest [of rps s1 bits s2] S r step Some pk show ?thesis by simp
      qed
    qed
  qed
qed

text \<open>
  C21: A section whose packets lie well-formed in the stream, in either byte order, is loaded exactly as
  the reference loads it: the buffers and the checks of the code are invisible, the stream ends
  behind the last packet, and a fault of a relocation or of the initialisation table is a fault of
  both.
\<close>

theorem load_packets_direct:
  assumes "\<forall>pk \<in> set pks. packet_valid (reorder_map s) pk" and "filePointer (strm s) = Some f"
    and "drop (posn (strm s)) f = bytes_of (concat (map packet_file pks)) @ rest" and "IMAGE_PACKET_SIZE \<le> length bufr"
  shows "load_packets env sptr lptr (length pks) offs bufr s =
    map_option (\<lambda>(s', b). (s', b, True)) (direct_load env sptr lptr pks offs bufr s)"
  using assms by (rule load_packets_direct_eq)

subsection \<open>Sections without relocations\<close>

definition plain_packet :: "u32 \<Rightarrow> file_packet \<Rightarrow> bool" where
  "plain_packet mp pk \<longleftrightarrow> packet_valid mp pk \<and> snd (snd pk) = []"

definition packet_bytes :: "u32 \<Rightarrow> file_packet \<Rightarrow> u8 list" where
  "packet_bytes mp pk = bytes_of (logical mp (fst (snd pk)))"

lemma length_packet_bytes [simp]: "length (packet_bytes mp (hw, pw, rw)) = 4 * length pw"
  by (simp add: packet_bytes_def)

lemma direct_step:
  assumes "plain_packet (reorder_map s) pk"
  shows "\<exists>chk. direct_load env sptr lptr (pk # pks) offs bufr s = do {
     s2 \<leftarrow> store_packet env sptr lptr offs \<lparr>i_num_relocs = 0, i_packet_size = of_nat (length (packet_bytes (reorder_map s) pk)), i_checksum = chk\<rparr>
       (packet_bytes (reorder_map s) pk @ drop (length (packet_bytes (reorder_map s) pk)) bufr)
       (s\<lparr>strm := (strm s)\<lparr>posn := posn (strm s) + 4 * length (packet_file pk)\<rparr>\<rparr>);
     direct_load env sptr lptr pks (offs + of_nat (length (packet_bytes (reorder_map s) pk)))
       (packet_bytes (reorder_map s) pk @ drop (length (packet_bytes (reorder_map s) pk)) bufr) s2 }"
proof -
  obtain hw pw rw where pk: "pk = (hw, pw, rw)" by (cases pk) auto
  with assms have "rw = []" by (simp add: plain_packet_def)
  with pk show ?thesis by (intro exI [of _ "hd (drop 2 (logical (reorder_map s) hw))"]) (simp add: packet_bytes_def logical_def)
qed

lemma plain_size:
  assumes "plain_packet mp pk"
  shows "unat (of_nat (length (packet_bytes mp pk)) :: u32) = length (packet_bytes mp pk)"
    "sint (of_nat (length (packet_bytes mp pk)) :: u32) = int (length (packet_bytes mp pk))"
    "length (packet_bytes mp pk) \<le> IMAGE_PACKET_SIZE" "packet_bytes mp pk \<noteq> []"
proof -
  obtain hw pw rw where pk: "pk = (hw, pw, rw)" by (cases pk) auto
  with assms have l: "4 * length pw \<le> IMAGE_PACKET_SIZE" "pw \<noteq> []" by (auto simp: plain_packet_def)
  show "unat (of_nat (length (packet_bytes mp pk)) :: u32) = length (packet_bytes mp pk)"
    "sint (of_nat (length (packet_bytes mp pk)) :: u32) = int (length (packet_bytes mp pk))"
    "length (packet_bytes mp pk) \<le> IMAGE_PACKET_SIZE"
    using small_word [OF l(1)] l(1) pk by (simp_all del: of_nat_mult)
  have "length (packet_bytes mp pk) \<noteq> 0" using l(2) pk by simp
  then show "packet_bytes mp pk \<noteq> []" by auto
qed

lemma direct_load_writes:
  assumes "\<And>es. io_writemem env es" and "DLOAD_SECT_TYPE sptr \<noteq> DLOAD_CINIT" and "\<forall>pk \<in> set pks. plain_packet (reorder_map s) pk"
  shows "\<exists>s' b. direct_load env sptr lptr pks offs bufr s = Some (s', b) \<and> dload_errors s' = dload_errors s
    \<and> written (calls s') = written (calls s) @ addressed (load_addr lptr + offs) (concat (map (packet_bytes (reorder_map s)) pks))"
  using assms(3)
proof (induction pks arbitrary: s offs bufr)
  case Nil
  then show ?case by simp
next
  case (Cons pk pks)
  let ?bs = "packet_bytes (reorder_map s) pk" and ?st = "(strm s)\<lparr>posn := posn (strm s) + 4 * length (packet_file pk)\<rparr>"
  let ?s2 = "call (Writemem (load_addr lptr + offs) ?bs) (s\<lparr>strm := ?st\<rparr>)"
  from Cons.prems have pk: "plain_packet (reorder_map s) pk" by simp
  from direct_step [OF pk, of env sptr lptr pks offs bufr] obtain chk where
    e: "direct_load env sptr lptr (pk # pks) offs bufr s = do {
     s2 \<leftarrow> store_packet env sptr lptr offs \<lparr>i_num_relocs = 0, i_packet_size = of_nat (length ?bs), i_checksum = chk\<rparr>
       (?bs @ drop (length ?bs) bufr) (s\<lparr>strm := ?st\<rparr>);
     direct_load env sptr lptr pks (offs + of_nat (length ?bs)) (?bs @ drop (length ?bs) bufr) s2 }" by blast
  have "store_packet env sptr lptr offs \<lparr>i_num_relocs = 0, i_packet_size = of_nat (length ?bs), i_checksum = chk\<rparr>
       (?bs @ drop (length ?bs) bufr) (s\<lparr>strm := ?st\<rparr>) = Some ?s2"
    using assms(1,2) plain_size [OF pk] by (simp add: store_packet_def writemem_def Let_def)
  with e Cons.IH [of ?s2 "offs + of_nat (length ?bs)" "?bs @ drop (length ?bs) bufr"] Cons.prems show ?case
    by (auto simp: addressed_append add.assoc)
qed

text \<open>
  The bytes of a section reach the target: each byte of each packet is written to its place behind
  the load address, in order, nothing else is written and no error is reported.
\<close>

theorem section_written:
  assumes "\<forall>pk \<in> set pks. plain_packet (reorder_map s) pk" and "filePointer (strm s) = Some f"
    and "drop (posn (strm s)) f = bytes_of (concat (map packet_file pks)) @ rest" and "IMAGE_PACKET_SIZE \<le> length bufr"
    and "\<And>es. io_writemem env es" and "DLOAD_SECT_TYPE sptr \<noteq> DLOAD_CINIT"
  shows "\<exists>s' b. load_packets env sptr lptr (length pks) 0 bufr s = Some (s', b, True) \<and> dload_errors s' = dload_errors s
    \<and> written (calls s') = written (calls s) @ addressed (load_addr lptr) (concat (map (packet_bytes (reorder_map s)) pks))"
proof -
  have "\<forall>pk \<in> set pks. packet_valid (reorder_map s) pk" using assms(1) by (simp add: plain_packet_def)
  from load_packets_direct_eq [OF this assms(2-4), of env sptr lptr 0] direct_load_writes [OF assms(5,6,1), of lptr 0 bufr]
  show ?thesis by auto
qed

lemma direct_load_done:
  assumes "cinit_state s = CI_done" and "DLOAD_SECT_TYPE sptr = DLOAD_CINIT" and "\<forall>pk \<in> set pks. plain_packet (reorder_map s) pk"
  shows "\<exists>st b. direct_load env sptr lptr pks offs bufr s = Some (s\<lparr>strm := st\<rparr>, b)"
  using assms(1,3)
proof (induction pks arbitrary: s offs bufr)
  case Nil
  have "s = s\<lparr>strm := strm s\<rparr>" by simp
  then show ?case by (metis direct_load.simps(1))
next
  case (Cons pk pks)
  let ?bs = "packet_bytes (reorder_map s) pk" and ?st = "(strm s)\<lparr>posn := posn (strm s) + 4 * length (packet_file pk)\<rparr>"
  from Cons.prems have pk: "plain_packet (reorder_map s) pk" by simp
  from direct_step [OF pk, of env sptr lptr pks offs bufr] obtain chk where
    e: "direct_load env sptr lptr (pk # pks) offs bufr s = do {
     s2 \<leftarrow> store_packet env sptr lptr offs \<lparr>i_num_relocs = 0, i_packet_size = of_nat (length ?bs), i_checksum = chk\<rparr>
       (?bs @ drop (length ?bs) bufr) (s\<lparr>strm := ?st\<rparr>);
     direct_load env sptr lptr pks (offs + of_nat (length ?bs)) (?bs @ drop (length ?bs) bufr) s2 }" by blast
  have "store_packet env sptr lptr offs \<lparr>i_num_relocs = 0, i_packet_size = of_nat (length ?bs), i_checksum = chk\<rparr>
       (?bs @ drop (length ?bs) bufr) (s\<lparr>strm := ?st\<rparr>) = Some (s\<lparr>strm := ?st\<rparr>)"
    using assms(2) Cons.prems(1) by (simp add: store_packet_def cinit_stop)
  with e Cons.IH [of "s\<lparr>strm := ?st\<rparr>" "offs + of_nat (length ?bs)" "?bs @ drop (length ?bs) bufr"] Cons.prems show ?case
    by auto
qed

lemma direct_load_table:
  assumes "\<And>es. io_writemem env es" and "DLOAD_SECT_TYPE sptr = DLOAD_CINIT" and "table_end stop"
    and "\<forall>pk \<in> set pks. plain_packet (reorder_map s) pk" and "concat (map (packet_bytes (reorder_map s)) pks) = rest_of pend rs stop"
    and "\<forall>pk \<in> set (butlast pks). 8 dvd length (packet_bytes (reorder_map s) pk)" and "stands s pend" and "\<forall>r \<in> set rs. record_ok r"
    and "IMAGE_PACKET_SIZE \<le> length bufr"
  shows "\<exists>s' b. direct_load env sptr lptr pks offs bufr s = Some (s', b) \<and> cinit_state s' = CI_done \<and> dload_errors s' = dload_errors s
    \<and> written (calls s') = written (calls s) @ rest_bytes pend rs"
  using assms(4-9)
proof (induction pks arbitrary: s offs bufr pend rs)
  case Nil
  have "cinit_table rs stop \<noteq> []" using assms(3) by (cases rs rule: list.exhaust) (auto simp: table_end_def bytes_of_word_def)
  with Nil show ?case by (cases pend) auto
next
  case (Cons pk pks)
  let ?mp = "reorder_map s"
  let ?bs = "packet_bytes ?mp pk" and ?s0 = "s\<lparr>strm := (strm s)\<lparr>posn := posn (strm s) + 4 * length (packet_file pk)\<rparr>\<rparr>"
  let ?bits = "?bs @ drop (length ?bs) bufr" and ?later = "concat (map (packet_bytes ?mp) pks)"
  from Cons.prems(1) have pk: "plain_packet ?mp pk" by simp
  note size = plain_size [OF pk]
  from direct_step [OF pk, of env sptr lptr pks offs bufr] obtain chk where
    e: "direct_load env sptr lptr (pk # pks) offs bufr s = do {
     s2 \<leftarrow> store_packet env sptr lptr offs \<lparr>i_num_relocs = 0, i_packet_size = of_nat (length ?bs), i_checksum = chk\<rparr> ?bits ?s0;
     direct_load env sptr lptr pks (offs + of_nat (length ?bs)) ?bits s2 }" by blast
  have d: "8 dvd length ?bs \<or> ?later = []" using Cons.prems(3) by (cases pks) auto
  have "drop 0 (take (length ?bs) ?bits) @ ?later = rest_of pend rs stop" using Cons.prems(2) by simp
  moreover have "stands ?s0 pend" using Cons.prems(4) by (cases pend) auto
  ultimately obtain s1 where s1: "cload_cinit env ?bits (int (length ?bs)) 0 ?s0 = Some s1" "packet_result ?s0 pend rs stop ?later s1"
    using cinit_packet [OF assms(1) _ assms(3) d, of ?bits 0 pend rs ?s0] Cons.prems(5) by auto
  have st: "store_packet env sptr lptr offs \<lparr>i_num_relocs = 0, i_packet_size = of_nat (length ?bs), i_checksum = chk\<rparr> ?bits ?s0 = Some s1"
    using assms(2) s1(1) size(2) by (simp add: store_packet_def)
  have mp: "reorder_map s1 = ?mp" using cinit_frame_fields [OF cload_cinit_frame [OF s1(1)]] by simp
  have ok: "\<forall>pk \<in> set pks. plain_packet (reorder_map s1) pk" using Cons.prems(1) mp by simp
  show ?case
  proof (cases "cinit_state s1 = CI_done \<and> written (calls s1) = written (calls ?s0) @ rest_bytes pend rs")
    case True
    from direct_load_done [OF _ assms(2) ok, of env lptr "offs + of_nat (length ?bs)" ?bits] True obtain st b where
      "direct_load env sptr lptr pks (offs + of_nat (length ?bs)) ?bits s1 = Some (s1\<lparr>strm := st\<rparr>, b)" by blast
    with True s1(2) e st show ?thesis by (simp add: packet_result_def)
  next
    case False
    with s1(2) obtain pend' rs' where p: "stands s1 pend'" "\<forall>r \<in> set rs'. record_ok r" "?later = rest_of pend' rs' stop"
      "written (calls s1) @ rest_bytes pend' rs' = written (calls s) @ rest_bytes pend rs" "dload_errors s1 = dload_errors s"
      by (auto simp: packet_result_def)
    have b: "\<forall>pk \<in> set (butlast pks). 8 dvd length (packet_bytes (reorder_map s1) pk)" using Cons.prems(3) mp by (cases pks) auto
    have l: "IMAGE_PACKET_SIZE \<le> length ?bits" using Cons.prems(6) by simp
    from Cons.IH [OF ok _ b p(1,2) l, of "offs + of_nat (length ?bs)"] p(3-5) mp e st show ?thesis by auto
  qed
qed

text \<open>
  C22: An initialisation section is carried out instead of being written: when the packets of the file
  hold a table, cut at multiples of 8 bytes, every byte of every record is written to the address
  the record gives, in the order of the table, and the interpreter ends in its final state.
\<close>

theorem cinit_section_carried_out:
  assumes "\<forall>pk \<in> set pks. plain_packet (reorder_map s) pk" and "filePointer (strm s) = Some f"
    and "drop (posn (strm s)) f = bytes_of (concat (map packet_file pks)) @ rest" and "IMAGE_PACKET_SIZE \<le> length bufr"
    and "\<And>es. io_writemem env es" and "DLOAD_SECT_TYPE sptr = DLOAD_CINIT" and "cinit_state s = CI_count"
    and "concat (map (packet_bytes (reorder_map s)) pks) = cinit_table rs stop" and "\<forall>r \<in> set rs. record_ok r" and "table_end stop"
    and "\<forall>pk \<in> set (butlast pks). 8 dvd length (packet_bytes (reorder_map s) pk)"
  shows "\<exists>s' b. load_packets env sptr lptr (length pks) 0 bufr s = Some (s', b, True) \<and> cinit_state s' = CI_done
    \<and> dload_errors s' = dload_errors s \<and> written (calls s') = written (calls s) @ record_bytes rs"
proof -
  have v: "\<forall>pk \<in> set pks. packet_valid (reorder_map s) pk" using assms(1) by (simp add: plain_packet_def)
  from load_packets_direct_eq [OF v assms(2-4), of env sptr lptr 0]
    direct_load_table [OF assms(5,6,10,1) _ assms(11) _ assms(9,4), of None lptr 0] assms(7,8)
  show ?thesis by (auto simp: rest_bytes_def)
qed

subsection \<open>Witnesses\<close>

text \<open>A file that holds packets from its first byte on, read without reordering.\<close>

definition packets_state :: "file_packet list \<Rightarrow> dload_state" where
  "packets_state pks = cinit_start\<lparr>strm := \<lparr>filePointer = Some (bytes_of (concat (map packet_file pks))), posn = 0\<rparr>\<rparr>"

lemma packets_state_simps [simp]:
  "reorder_map (packets_state pks) = 0" "strm (packets_state pks) = \<lparr>filePointer = Some (bytes_of (concat (map packet_file pks))), posn = 0\<rparr>"
  "cinit_state (packets_state pks) = CI_count" "calls (packets_state pks) = []"
  by (simp_all add: packets_state_def cinit_start_def dload_clear_def)

definition section_of_type :: "u16 \<Rightarrow> doff_scnhdr" where
  "section_of_type t = \<lparr>ds_offset = 0, ds_paddr = 0, ds_vaddr = 0, ds_size = 0, ds_page = 0, ds_flags = t, ds_first_pkt_offset = 0, ds_nipacks = 1\<rparr>"

definition relocated_packet :: file_packet where
  "relocated_packet = ([1, 4, - 1 - (1 + 4 + 0x100 + (0 + 7 + 0x40120000))], [0x100], [0, 7, 0x40120000])"

definition table_packet :: file_packet where
  "table_packet = ([0, 20, - 1 - (20 + (4 + 0x1000 + 0x04030201))], [4, 0x1000, 0x04030201, 0, 0], [])"

lemma table_packet_plain: "plain_packet 0 table_packet"
proof -
  have "sum_list [4, 0x1000, 0x04030201, 0, 0 :: u32] = 4 + 0x1000 + 0x04030201" by simp
  then show ?thesis
    unfolding plain_packet_def table_packet_def packet_valid.simps
    by (intro conjI exI [of _ 0] exI [of _ "- 1 - (20 + (4 + 0x1000 + 0x04030201))"])
      (simp_all add: logical_def IMAGE_PACKET_SIZE_def)
qed

lemma table_packet_bytes:
  "concat (map (packet_bytes 0) [table_packet]) = cinit_table [(0x1000, [1, 2, 3, 4], [0, 0, 0, 0])] [0, 0, 0, 0]"
proof -
  have "bytes_of [4, 0x1000, 0x04030201, 0, 0] = bytes_of_word 4 @ bytes_of_word 0x1000 @ [1, 2, 3, 4] @ [0, 0, 0, 0] @ [0, 0, 0, 0]"
    by code_simp
  then show ?thesis by (simp add: packet_bytes_def table_packet_def logical_def)
qed

theorem load_packets_direct_witness:
  "load_packets easy_env (section_of_type 1) no_section 1 0 (replicate 1024 0) (packets_state [relocated_packet]) =
    map_option (\<lambda>(s', b). (s', b, True)) (direct_load easy_env (section_of_type 1) no_section [relocated_packet] 0 (replicate 1024 0) (packets_state [relocated_packet]))"
proof -
  have "packet_valid 0 relocated_packet"
    unfolding relocated_packet_def packet_valid.simps
    by (intro exI [of _ 1] exI [of _ "- 1 - (1 + 4 + 0x100 + (0 + 7 + 0x40120000))"])
      (simp_all add: logical_def IMAGE_PACKET_SIZE_def)
  then show ?thesis
    using load_packets_direct [of "[relocated_packet]" "packets_state [relocated_packet]" _ "[]" "replicate 1024 0" easy_env "section_of_type 1" no_section 0]
    by (simp add: IMAGE_PACKET_SIZE_def)
qed

theorem section_written_witness:
  "\<exists>s' b. load_packets easy_env (section_of_type 1) (no_section\<lparr>load_addr := 0x8000\<rparr>) 1 0 (replicate 1024 0) (packets_state [table_packet]) = Some (s', b, True)
    \<and> take 9 (written (calls s')) = [(0x8000, 4), (0x8001, 0), (0x8002, 0), (0x8003, 0), (0x8004, 0), (0x8005, 0x10), (0x8006, 0), (0x8007, 0), (0x8008, 1)]"
proof -
  have e: "io_writemem easy_env es" for es by (simp add: easy_env_def)
  have "addressed 0x8000 (packet_bytes 0 table_packet) = addressed 0x8000 ([4, 0, 0, 0, 0, 0x10, 0, 0, 1] @ drop 9 (packet_bytes 0 table_packet))"
    by (rule arg_cong [of _ _ "addressed 0x8000"]) code_simp
  moreover have "DLOAD_SECT_TYPE (section_of_type 1) \<noteq> DLOAD_CINIT" by code_simp
  ultimately show ?thesis
    using section_written [OF _ _ _ _ e, of "[table_packet]" "packets_state [table_packet]" _ "[]" "replicate 1024 0" "section_of_type 1" "no_section\<lparr>load_addr := 0x8000\<rparr>"]
      table_packet_plain
    by (auto simp: IMAGE_PACKET_SIZE_def written_def)
qed

theorem cinit_section_carried_out_witness:
  "\<exists>s' b. load_packets easy_env (section_of_type 3) no_section 1 0 (replicate 1024 0) (packets_state [table_packet]) = Some (s', b, True)
    \<and> written (calls s') = [(0x1000, 1), (0x1001, 2), (0x1002, 3), (0x1003, 4)]"
proof -
  have e: "io_writemem easy_env es" for es by (simp add: easy_env_def)
  have t: "table_end [0, 0, 0, 0]"
    unfolding table_end_def by (intro exI [of _ 0] exI [of _ "[]"]) (simp add: bytes_of_word_def)
  have c: "DLOAD_SECT_TYPE (section_of_type 3) = DLOAD_CINIT" by code_simp
  have w: "concat (map (packet_bytes (reorder_map (packets_state [table_packet]))) [table_packet]) = cinit_table [(0x1000, [1, 2, 3, 4], [0, 0, 0, 0])] [0, 0, 0, 0]"
    using table_packet_bytes by simp
  from cinit_section_carried_out [OF _ _ _ _ e c _ w _ t, where f = "bytes_of (packet_file table_packet)" and rest = "[]" and bufr = "replicate 1024 0" and lptr = no_section]
    table_packet_plain
  show ?thesis by (auto simp: IMAGE_PACKET_SIZE_def round8_def written_def)
qed

end
