(* ===== verification/Dload_View.thy ===== *)
theory Dload_View
  imports Dload_Data
begin

section \<open>Module handles and the list of modules\<close>

text \<open>
  The rest of \<open>cload.c\<close>: \<open>init_module_handle\<close>, which records a loaded module in the list of modules
  that a debugger reads in target memory (\<open>module_list.h\<close>), \<open>Dynamic_Unload_Module\<close>, which takes it
  out again, and \<open>Dynamic_Load_Module\<close>. The host mirrors the list: the root and the handles are
  doubly linked structures that outlive a load. They are the values of two maps from addresses;
  the root and a handle start with the same two fields, through which the code treats the root as
  the predecessor of the first handle.
\<close>

subsection \<open>The structures\<close>

record mirror_root =
  mr_dbthis :: u32
  mr_hnext :: u32
  mr_changes :: u16
  mr_refcount :: u16

record my_handle =
  dm_dbthis :: u32
  dm_hnext :: u32
  dm_hprev :: u32
  dm_hroot :: u32
  dm_dbsiz :: u16
  dm_context :: u32
  secn_count :: u16
  secns :: "LDR_SECTION_INFO list"

record dl_heap =
  roots :: "u32 \<Rightarrow> mirror_root option"
  handles :: "u32 \<Rightarrow> my_handle option"

abbreviation put_root :: "u32 \<Rightarrow> mirror_root \<Rightarrow> dl_heap \<Rightarrow> dl_heap" where
  "put_root a r hp \<equiv> hp\<lparr>roots := (roots hp)(a \<mapsto> r)\<rparr>"

abbreviation put_handle :: "u32 \<Rightarrow> my_handle \<Rightarrow> dl_heap \<Rightarrow> dl_heap" where
  "put_handle a h hp \<equiv> hp\<lparr>handles := (handles hp)(a \<mapsto> h)\<rparr>"

text \<open>The fields that the root shares with a handle.\<close>

definition node_dbthis :: "dl_heap \<Rightarrow> u32 \<Rightarrow> u32 option" where
  "node_dbthis hp p = (case handles hp p of Some h \<Rightarrow> Some (dm_dbthis h) | None \<Rightarrow> map_option mr_dbthis (roots hp p))"

definition set_hnext :: "u32 \<Rightarrow> u32 \<Rightarrow> dl_heap \<Rightarrow> dl_heap option" where
  "set_hnext p v hp = (case handles hp p of
       Some h \<Rightarrow> Some (put_handle p (h\<lparr>dm_hnext := v\<rparr>) hp)
     | None \<Rightarrow> map_option (\<lambda>r. put_root p (r\<lparr>mr_hnext := v\<rparr>) hp) (roots hp p))"

definition set_hprev :: "u32 \<Rightarrow> u32 \<Rightarrow> dl_heap \<Rightarrow> dl_heap option" where
  "set_hprev p v hp = map_option (\<lambda>h. put_handle p (h\<lparr>dm_hprev := v\<rparr>) hp) (handles hp p)"

subsection \<open>Target data\<close>

definition bytes_of_half :: "u16 \<Rightarrow> u8 list" where
  "bytes_of_half w = [ucast w, ucast (drop_bit 8 w)]"

text \<open>\<open>modules_header\<close> without its last field, and the start of \<open>dll_module\<close>.\<close>

definition link_bytes :: "u32 \<Rightarrow> u16 \<Rightarrow> u8 list" where
  "link_bytes a n = bytes_of_word a @ bytes_of_half n"

definition INIT_VERSION :: u16 where "INIT_VERSION = 1"
definition VERIFICATION :: u16 where "VERIFICATION = 0x79"

definition dll_module :: "u32 \<Rightarrow> u16 \<Rightarrow> u16 \<Rightarrow> u32 \<Rightarrow> LDR_SECTION_INFO list \<Rightarrow> u8 list \<Rightarrow> u8 list" where
  "dll_module next_module next_size num_sects timestamp asecs names =
     link_bytes next_module next_size @ bytes_of_half INIT_VERSION @ bytes_of_half VERIFICATION @ bytes_of_half num_sects
     @ bytes_of_word timestamp @ concat (map (\<lambda>a. bytes_of_word (load_addr a) @ bytes_of_word (run_addr a)) asecs) @ names"

text \<open>\<open>copy_tgt_strings\<close>: at least one character is copied, and the last one becomes zero.\<close>

definition copy_tgt_strings :: "u8 list \<Rightarrow> u32 \<Rightarrow> u8 list option" where
  "copy_tgt_strings src charcount =
     (let n = nat (max 1 (sint charcount)) in if n \<le> length src then Some (take (n - 1) src @ [0]) else None)"

text \<open>
  \<open>swap_words\<close>: the bytes of every half word are swapped, then the halves of the words that the map
  marks with 0. The loops test at their ends; the only size in use is 6, the half word at the end
  belongs to no word.
\<close>

fun swap_halves :: "u8 list \<Rightarrow> u8 list" where
  "swap_halves (a # b # bs) = b # a # swap_halves bs"
| "swap_halves bs = bs"

fun swap_longs :: "nat \<Rightarrow> u32 \<Rightarrow> u8 list \<Rightarrow> u8 list" where
  "swap_longs (Suc n) bitmap (a # b # c # d # bs) =
     (if bitmap AND 1 = 0 then [c, d, a, b] else [a, b, c, d]) @ swap_longs n (drop_bit 1 bitmap) bs"
| "swap_longs _ bitmap bs = bs"

definition swap_words :: "u8 list \<Rightarrow> u32 \<Rightarrow> u8 list" where
  "swap_words bs bitmap = swap_longs (length bs div 4) bitmap (swap_halves bs)"

definition MODULES_HEADER_BITMAP :: u32 where "MODULES_HEADER_BITMAP = 2"

definition DLOAD_DATA :: u16 where "DLOAD_DATA = 1"

definition DLLVIEW_INFO_INIT :: LDR_SECTION_INFO where
  "DLLVIEW_INFO_INIT = \<lparr>li_name = None, run_addr = 0, load_addr = 0, li_size = - 1, li_page = 0, li_type = DLOAD_DATA, li_context = 0\<rparr>"

definition LOADER_DLLVIEW_ROOT :: name where
  "LOADER_DLLVIEW_ROOT = [63, 68, 76, 77, 111, 100, 117, 108, 101, 115, 63]"

definition LINKER_MODULES_HEADER :: name where
  "LINKER_MODULES_HEADER = [95, 68, 76, 77, 111, 100, 117, 108, 101, 115]"

subsection \<open>Entering a module\<close>

text \<open>The root of the list: found by its symbol, or made when the target has a list; \<^const>\<open>None\<close> in the result where the procedure returns.\<close>

definition view_root :: "dl_env \<Rightarrow> dl_heap \<Rightarrow> dload_state \<Rightarrow> (dl_heap \<times> dload_state \<times> u32 option) option" where
  "view_root env hp s = do {
     (t1, sy) \<leftarrow> DLsym_Find_Matching_Symbol (mysym s) LOADER_DLLVIEW_ROOT;
     let s1 = s\<lparr>mysym := t1\<rparr>;
     (case sy of
        Some a \<Rightarrow> Some (hp, s1, Some a)
      | None \<Rightarrow> do {
          (t2, dlmodsym) \<leftarrow> DLsym_Find_Matching_Symbol (mysym s1) LINKER_MODULES_HEADER;
          let s2 = s1\<lparr>mysym := t2\<rparr>;
          (case dlmodsym of
             None \<Rightarrow> Some (hp, s2, None)
           | Some target \<Rightarrow>
               (case Allocate env s2 B_root 12 of
                  (s3, None) \<Rightarrow> Some (hp, dload_error s3 E_ALLOC, None)
                | (s3, Some (a, _)) \<Rightarrow> do {
                    (t3, ok) \<leftarrow> DLsym_Add_To_Symbol_Table (sym_malloc env (mysym s3)) (mysym s3) LOADER_DLLVIEW_ROOT (myhandle s3) 0;
                    (if ok then do {
                       t4 \<leftarrow> set_newest_value t3 a;
                       Some (put_root a \<lparr>mr_dbthis = target, mr_hnext = 0, mr_changes = 0, mr_refcount = 0\<rparr> hp, s3\<lparr>mysym := t4\<rparr>, Some a) }
                     else Some (hp, call (Host_deallocate B_root) (s3\<lparr>mysym := t3\<rparr>), None)) })) }) }"

text \<open>The handle as \<open>allocate_sections\<close> leaves it; the fields not yet set are never read.\<close>

definition fresh_handle :: "dload_state \<Rightarrow> my_handle" where
  "fresh_handle s = \<lparr>dm_dbthis = 0, dm_hnext = myhandle s, dm_hprev = myhandle s, dm_hroot = 0, dm_dbsiz = 0, dm_context = 0,
     secn_count = push_bit 1 (of_nat (allocated_secn_count s)) + (if big_e_target s then 1 else 0), secns = ldr_sections s\<rparr>"

text \<open>The record of the module and the size that is kept of it, in 16 bits.\<close>

definition view_record :: "dl_heap \<Rightarrow> dload_state \<Rightarrow> mirror_root \<Rightarrow> (u8 list \<times> u16) option" where
  "view_record hp s mlist = do {
     _ \<leftarrow> (if local_symtab_p s \<and> allocated_secn_count s \<le> length (ldr_sections s) then Some () else None);
     strs \<leftarrow> str_head s;
     names \<leftarrow> copy_tgt_strings strs (debug_string_size s);
     (next_module, next_size) \<leftarrow> (if mr_hnext mlist \<noteq> 0 then do { h \<leftarrow> handles hp (mr_hnext mlist); Some (dm_dbthis h, dm_dbsiz h) }
       else Some (0, 0));
     let bs = dll_module next_module next_size (of_nat (allocated_secn_count s)) (dv_timdat (verify s))
       (take (allocated_secn_count s) (ldr_sections s)) names;
     Some (bs, of_nat (length bs)) }"

text \<open>Putting the handle first in the list of the host.\<close>

definition link_handle :: "u32 \<Rightarrow> my_handle \<Rightarrow> u32 \<Rightarrow> dl_heap \<Rightarrow> dl_heap option" where
  "link_handle a h r hp = do {
     mlist \<leftarrow> roots hp r;
     let hp1 = put_handle a (h\<lparr>dm_hnext := mr_hnext mlist\<rparr>) hp;
     hp2 \<leftarrow> (if mr_hnext mlist \<noteq> 0 then set_hprev (mr_hnext mlist) a hp1 else Some hp1);
     hp3 \<leftarrow> set_hprev a r hp2;
     Some (put_root r (mlist\<lparr>mr_hnext := a\<rparr>) hp3) }"

definition init_module_handle :: "dl_env \<Rightarrow> dl_heap \<Rightarrow> dload_state \<Rightarrow> (dl_heap \<times> dload_state) option" where
  "init_module_handle env hp s =
     (let a = myhandle s; h = fresh_handle s; hp1 = put_handle a h hp
      in if a = 0 then Some (hp, s)
         else if dload_errcount s \<noteq> 0 then Some (hp1, s)
         else do {
           (hp2, s1, root) \<leftarrow> view_root env hp1 s;
           (case root of
              None \<Rightarrow> Some (hp2, s1)
            | Some r \<Rightarrow>
                (if r = 0 then Some (hp2, s1)
                 else
                   (let h1 = h\<lparr>dm_hroot := r\<rparr>; hp3 = put_handle a h1 hp2
                    in if allocated_secn_count s1 = 0 then Some (hp3, s1)
                       else do {
                         mlist \<leftarrow> roots hp3 r;
                         (dbmod, dbsiz) \<leftarrow> view_record hp3 s1 mlist;
                         let h2 = h1\<lparr>dm_dbsiz := dbsiz, dm_context := 0\<rparr>;
                         let info = DLLVIEW_INFO_INIT\<lparr>li_size := ucast dbsiz, li_context := 0\<rparr>;
                         (if \<not> myalloc s1 then Some (put_handle a h2 hp3, s1)
                          else
                            (let s2 = call (Target_allocate info 4) s1
                             in case tgt_allocate env (calls s1) info 4 of
                                  None \<Rightarrow> Some (put_handle a h2 hp3, s2)
                                | Some (run, load, ctx) \<Rightarrow>
                                    (let h3 = h2\<lparr>dm_dbthis := load, dm_context := ctx\<rparr>;
                                         hp4 = put_root r (mlist\<lparr>mr_refcount := mr_refcount mlist + 1\<rparr>) (put_handle a h3 hp3);
                                         (s3, ok) = writemem env load (take (unat dbsiz) dbmod) s2
                                     in if \<not> ok then Some (hp4, s3)
                                        else
                                          (let (s4, ok2) = writemem env (mr_dbthis mlist) (link_bytes load dbsiz) s3
                                           in if \<not> ok2 then Some (hp4, s4)
                                              else do { hp5 \<leftarrow> link_handle a h3 r hp4; Some (hp5, s4) })))) }))) })"

subsection \<open>Unloading\<close>

text \<open>What an unload works on; \<open>u_errcount\<close> is the value it returns.\<close>

record unload_state =
  u_heap :: dl_heap
  u_syms :: symtab
  u_calls :: "io_event list"
  u_errcount :: nat

abbreviation ucall :: "io_event \<Rightarrow> unload_state \<Rightarrow> unload_state" where
  "ucall e u \<equiv> u\<lparr>u_calls := u_calls u @ [e]\<rparr>"

definition u_writemem :: "dl_env \<Rightarrow> u32 \<Rightarrow> u8 list \<Rightarrow> unload_state \<Rightarrow> unload_state" where
  "u_writemem env addr bs u =
     (let u1 = ucall (Writemem addr bs) u in if io_writemem env (u_calls u1) then u1 else u1\<lparr>u_errcount := u_errcount u1 + 1\<rparr>)"

text \<open>Taking a handle out of the list: the mirror of the host, then the list of the target.\<close>

definition unlink_handle :: "my_handle \<Rightarrow> dl_heap \<Rightarrow> dl_heap option" where
  "unlink_handle h hp = do {
     hp1 \<leftarrow> set_hnext (dm_hprev h) (dm_hnext h) hp;
     (if dm_hnext h \<noteq> 0 then set_hprev (dm_hnext h) (dm_hprev h) hp1 else Some hp1) }"

definition target_unlink :: "dl_env \<Rightarrow> my_handle \<Rightarrow> unload_state \<Rightarrow> unload_state option" where
  "target_unlink env h u = do {
     (first, size0) \<leftarrow> (if dm_hnext h \<noteq> 0 then do { n \<leftarrow> handles (u_heap u) (dm_hnext h); Some (dm_dbthis n, dm_dbsiz n) } else Some (0, 0));
     (if \<not> init_given env then Some u
      else
        (let u1 = ucall Connect u
         in if \<not> io_connect env (u_calls u1) then Some (u1\<lparr>u_errcount := u_errcount u1 + 1\<rparr>)
            else do {
              let mhdr = (if bit (secn_count h) 0 then swap_words (link_bytes first size0) MODULES_HEADER_BITMAP else link_bytes first size0);
              dest \<leftarrow> node_dbthis (u_heap u1) (dm_hprev h);
              let u2 = u_writemem env dest mhdr u1;
              root \<leftarrow> roots (u_heap u2) (dm_hroot h);
              let root1 = root\<lparr>mr_changes := mr_changes root + 1\<rparr>;
              let u3 = u2\<lparr>u_heap := put_root (dm_hroot h) root1 (u_heap u2)\<rparr>;
              let u4 = u_writemem env (mr_dbthis root1 + 6) (bytes_of_half (mr_changes root1)) u3;
              Some (ucall Release u4) })) }"

definition deallocate_sections :: "dl_env \<Rightarrow> my_handle \<Rightarrow> unload_state \<Rightarrow> unload_state option" where
  "deallocate_sections env h u =
     (let n = unat (drop_bit 1 (secn_count h))
      in if \<not> alloc_given env then Some u
         else if n \<le> length (secns h)
         then Some (u\<lparr>u_calls := u_calls u @ map (\<lambda>a. Target_deallocate (a\<lparr>li_name := None\<rparr>)) (take n (secns h))\<rparr>)
         else None)"

definition unload_view :: "dl_env \<Rightarrow> u32 \<Rightarrow> my_handle \<Rightarrow> unload_state \<Rightarrow> unload_state option" where
  "unload_view env a h u =
     (if dm_dbthis h = 0 then Some u
      else do {
        u1 \<leftarrow> (if dm_hprev h \<noteq> a then do {
            hp \<leftarrow> unlink_handle h (u_heap u);
            target_unlink env h (u\<lparr>u_heap := hp\<rparr>) } else Some u);
        let info = DLLVIEW_INFO_INIT\<lparr>li_context := dm_context h, li_size := ucast (dm_dbsiz h), load_addr := dm_dbthis h\<rparr>;
        let u2 = (if alloc_given env then ucall (Target_deallocate info) u1 else u1);
        root \<leftarrow> roots (u_heap u2) (dm_hroot h);
        Some (u2\<lparr>u_heap := put_root (dm_hroot h) (root\<lparr>mr_refcount := mr_refcount root - 1\<rparr>) (u_heap u2)\<rparr>) })"

text \<open>The root goes when no record refers to it and its symbol is gone.\<close>

definition release_root :: "u32 \<Rightarrow> unload_state \<Rightarrow> unload_state option" where
  "release_root r u = do {
     root \<leftarrow> roots (u_heap u) r;
     (if mr_refcount root = 0 then do {
        (t, sy) \<leftarrow> DLsym_Find_Matching_Symbol (u_syms u) LOADER_DLLVIEW_ROOT;
        let u1 = u\<lparr>u_syms := t\<rparr>;
        Some (if sy = None then ucall (Host_deallocate B_root) (u1\<lparr>u_heap := (u_heap u1)\<lparr>roots := (roots (u_heap u1))(r := None)\<rparr>\<rparr>)
          else u1) }
      else Some u) }"

definition Dynamic_Unload_Module :: "dl_env \<Rightarrow> u32 \<Rightarrow> unload_state \<Rightarrow> unload_state option" where
  "Dynamic_Unload_Module env mhandle u =
     (if mhandle = 0 then Some u
      else do {
        h \<leftarrow> handles (u_heap u) mhandle;
        let u1 = u\<lparr>u_syms := DLsym_Purge_Symbol_Table (u_syms u) mhandle\<rparr>;
        u2 \<leftarrow> deallocate_sections env h u1;
        u3 \<leftarrow> (if dm_hroot h \<noteq> 0 then do { v \<leftarrow> unload_view env mhandle h u2; release_root (dm_hroot h) v } else Some u2);
        Some (ucall (Host_deallocate B_handle) (u3\<lparr>u_heap := (u_heap u3)\<lparr>handles := (handles (u_heap u3))(mhandle := None)\<rparr>\<rparr>)) })"

subsection \<open>Loading\<close>

definition entry_point :: "dload_state \<Rightarrow> dload_state option" where
  "entry_point s =
     (let sref = df_entry_secn (dfile_hdr s)
      in if sref \<noteq> 0 \<and> unat sref - 1 < allocated_secn_count s
         then do { a \<leftarrow> rd (ldr_sections s) (unat sref - 1);
           Some (s\<lparr>dfile_hdr := (dfile_hdr s)\<lparr>df_entrypt := df_entrypt (dfile_hdr s) + run_addr a\<rparr>\<rparr>) }
         else Some s)"

text \<open>A step that is taken only while no error has been reported.\<close>

definition unless_error :: "(dload_state \<Rightarrow> dload_state option) \<Rightarrow> dload_state \<Rightarrow> dload_state option" where
  "unless_error f s = (if dload_errcount s = 0 then f s else Some s)"

definition connect_step :: "dl_env \<Rightarrow> dload_state \<Rightarrow> dload_state option" where
  "connect_step env s =
     (if \<not> init_given env then Some s
      else let s1 = call Connect s
           in if io_connect env (calls s1) then allocate_sections env (s1\<lparr>myio := True, myalloc := alloc_given env\<rparr>)
              else Some (dload_error s1 E_ICONNECT))"

definition execute_step :: "dl_env \<Rightarrow> dload_state \<Rightarrow> dload_state" where
  "execute_step env s =
     (if \<not> myio s then s
      else let s1 = (if dload_errcount s = 0 \<and> df_entry_secn (dfile_hdr s) \<noteq> 0
             then let s2 = call (Execute (df_entrypt (dfile_hdr s))) s
                  in call Release (if io_execute env (calls s2) then s2 else dload_error s2 Execute_failed)
             else s)
           in call Release s1)"

definition symbol_table_free :: "dload_state \<Rightarrow> dload_state" where
  "symbol_table_free s =
     (if local_symtab_p s
      then let s1 = (if dload_errcount s \<noteq> 0 then s\<lparr>mysym := DLsym_Purge_Symbol_Table (mysym s) (myhandle s)\<rparr> else s)
           in call (Host_deallocate B_symbols) s1
      else s)"

definition section_table_free :: "dload_state \<Rightarrow> dload_state" where
  "section_table_free s = (if sect_hdrs_p s then call (Host_deallocate B_sections) s else s)"

definition string_table_free :: "dload_state \<Rightarrow> dload_state" where
  "string_table_free s = (if str_head s \<noteq> None then call (Host_deallocate B_strings) s else s)"

text \<open>The steps up to the symbols, and up to the data of the sections.\<close>

definition symbol_steps :: "dl_env \<Rightarrow> dload_state \<Rightarrow> dload_state option" where
  "symbol_steps env s = do {
     s1 \<leftarrow> dload_headers s;
     s2 \<leftarrow> unless_error (\<lambda>s. dload_strings env s False) s1;
     s3 \<leftarrow> unless_error (dload_sections env) s2;
     s4 \<leftarrow> unless_error (connect_step env) s3;
     unless_error (\<lambda>s. do { s' \<leftarrow> entry_point s; dload_symbols env s' }) s4 }"

definition load_steps :: "dl_env \<Rightarrow> u8 list \<Rightarrow> dload_state \<Rightarrow> dload_state option" where
  "load_steps env bufr s = do {
     s5 \<leftarrow> symbol_steps env s;
     unless_error (\<lambda>s. if init_given env then dload_data env bufr s else Some s) s5 }"

definition start_load :: "dl_stream \<Rightarrow> symtab \<Rightarrow> u32 \<Rightarrow> dload_state" where
  "start_load st syms options = (dload_clear st syms)\<lparr>myoptions := (if options AND DLOAD_INITBSS = DLOAD_INITBSS then DLOAD_INITBSS else 0)\<rparr>"

text \<open>What is left at the end: the tables go, and after an error the module with them.\<close>

definition end_load :: "dl_env \<Rightarrow> dl_heap \<Rightarrow> dload_state \<Rightarrow> (dl_heap \<times> dload_state \<times> u32 \<times> nat) option" where
  "end_load env hp s =
     (let s1 = string_table_free (section_table_free (symbol_table_free s))
      in if dload_errcount s1 \<noteq> 0 then do {
           u \<leftarrow> Dynamic_Unload_Module env (myhandle s1) \<lparr>u_heap = hp, u_syms = mysym s1, u_calls = calls s1, u_errcount = 0\<rparr>;
           Some (u_heap u, s1\<lparr>mysym := u_syms u, calls := u_calls u, myhandle := 0\<rparr>, 0, dload_errcount s1) }
         else Some (hp, s1, myhandle s1, 0))"

text \<open>
  The result: the heap, the final state, which holds the symbol table and the calls, the handle and
  the value returned. \<open>bufr\<close> is what the local buffer of \<open>dload_data\<close> holds at first. Without a stream
  the report of the missing argument goes through the symbol object, which is not set yet.
\<close>

definition Dynamic_Load_Module :: "dl_env \<Rightarrow> u8 list \<Rightarrow> dl_heap \<Rightarrow> dl_stream option \<Rightarrow> symtab \<Rightarrow> u32 \<Rightarrow> (dl_heap \<times> dload_state \<times> u32 \<times> nat) option" where
  "Dynamic_Load_Module env bufr hp module syms options =
     (case module of
        None \<Rightarrow> None
      | Some st \<Rightarrow> do {
          s1 \<leftarrow> load_steps env bufr (start_load st syms options);
          (hp1, s2) \<leftarrow> init_module_handle env hp s1;
          end_load env hp1 (execute_step env s2) })"

text \<open>\<open>Dynamic_Open_Module\<close> is the same without the data of the sections, and releases the target once.\<close>

definition open_execute_step :: "dl_env \<Rightarrow> dload_state \<Rightarrow> dload_state" where
  "open_execute_step env s =
     (if \<not> myio s then s
      else let s1 = (if dload_errcount s = 0 \<and> df_entry_secn (dfile_hdr s) \<noteq> 0
             then let s2 = call (Execute (df_entrypt (dfile_hdr s))) s
                  in if io_execute env (calls s2) then s2 else dload_error s2 Execute_failed
             else s)
           in call Release s1)"

definition Dynamic_Open_Module :: "dl_env \<Rightarrow> dl_heap \<Rightarrow> dl_stream option \<Rightarrow> symtab \<Rightarrow> u32 \<Rightarrow> (dl_heap \<times> dload_state \<times> u32 \<times> nat) option" where
  "Dynamic_Open_Module env hp module syms options =
     (case module of
        None \<Rightarrow> None
      | Some st \<Rightarrow> do {
          s1 \<leftarrow> symbol_steps env (start_load st syms options);
          (hp1, s2) \<leftarrow> init_module_handle env hp s1;
          end_load env hp1 (open_execute_step env s2) })"

end
