(* ===== verification/Dload_Owned.thy ===== *)
theory Dload_Owned
  imports Dload_View
begin

section \<open>The memory of a load\<close>

text \<open>
  Which blocks of host memory a load holds while it runs is what the pointers of \<open>dload_state\<close> say;
  every step keeps this, and the frees at the end return all but the handle. The root of the list
  of modules belongs to no single load and is left out.
\<close>

definition owned :: "dload_state \<Rightarrow> block set" where
  "owned s = (if str_head s \<noteq> None then {B_strings} else {}) \<union> (if sect_hdrs_p s then {B_sections} else {})
     \<union> (if local_symtab_p s then {B_symbols} else {}) \<union> (if myhandle s \<noteq> 0 then {B_handle} else {})"

definition live_own :: "io_event list \<Rightarrow> block set" where
  "live_own es = live es - {B_root}"

definition accounted :: "dload_state \<Rightarrow> bool" where
  "accounted s \<longleftrightarrow> live_own (calls s) = owned s"

text \<open>A step that neither gets nor returns memory.\<close>

definition keeps :: "dload_state \<Rightarrow> dload_state \<Rightarrow> bool" where
  "keeps s s' \<longleftrightarrow> (str_head s' = None) = (str_head s = None) \<and> sect_hdrs_p s' = sect_hdrs_p s \<and> local_symtab_p s' = local_symtab_p s
     \<and> myhandle s' = myhandle s \<and> live_own (calls s') = live_own (calls s)"

definition host_event :: "io_event \<Rightarrow> bool" where
  "host_event e \<longleftrightarrow> (case e of Host_allocate b n ok \<Rightarrow> b \<noteq> B_root | Host_deallocate b \<Rightarrow> b \<noteq> B_root | _ \<Rightarrow> False)"

lemma live_own_other [simp]: "\<not> host_event e \<Longrightarrow> live_own (es @ [e]) = live_own es"
  by (auto simp: live_own_def live_def live_step_def host_event_def split: io_event.splits)

lemma host_event_simps [simp]:
  "host_event (Host_allocate b n ok) \<longleftrightarrow> b \<noteq> B_root" "host_event (Host_deallocate b) \<longleftrightarrow> b \<noteq> B_root"
  "\<not> host_event (Target_allocate i a)" "\<not> host_event (Target_deallocate i)" "\<not> host_event Connect" "\<not> host_event (Writemem a bs)"
  "\<not> host_event (Fillmem a n v)" "\<not> host_event (Execute a)" "\<not> host_event Release"
  by (simp_all add: host_event_def)

lemma live_own_host:
  "b \<noteq> B_root \<Longrightarrow> live_own (es @ [Host_allocate b n ok]) = (if ok then insert b (live_own es) else live_own es)"
  "b \<noteq> B_root \<Longrightarrow> live_own (es @ [Host_deallocate b]) = live_own es - {b}"
  by (auto simp: live_own_def)

lemma live_own_others: "\<forall>e \<in> set fs. \<not> host_event e \<Longrightarrow> live_own (es @ fs) = live_own es"
proof (induction fs arbitrary: es)
  case (Cons e fs)
  from Cons.IH [of "es @ [e]"] Cons.prems show ?case by simp
qed simp

lemma live_own_two [simp]: "\<not> host_event e \<Longrightarrow> \<not> host_event f \<Longrightarrow> live_own (es @ [e, f]) = live_own es"
  by (rule live_own_others) simp

lemma keeps_refl [simp]: "keeps s s" by (simp add: keeps_def)

lemma keeps_trans: "keeps s s' \<Longrightarrow> keeps s' s'' \<Longrightarrow> keeps s s''" by (simp add: keeps_def)

lemma keeps_accounted: "keeps s s' \<Longrightarrow> accounted s \<Longrightarrow> accounted s'" by (simp add: keeps_def accounted_def owned_def)

lemma keeps_error [simp]: "keeps s (dload_error s' e) \<longleftrightarrow> keeps s s'" "keeps (dload_error s e) s' \<longleftrightarrow> keeps s s'"
  by (simp_all add: keeps_def dload_error_def)

lemma keeps_call [simp]:
  "live_own es = live_own (calls s') \<Longrightarrow> keeps s (s'\<lparr>calls := es\<rparr>) \<longleftrightarrow> keeps s s'"
  "live_own es = live_own (calls s) \<Longrightarrow> keeps (s\<lparr>calls := es\<rparr>) s' \<longleftrightarrow> keeps s s'"
  by (simp_all add: keeps_def)

lemma keeps_update [simp]:
  "keeps s (s'\<lparr>strm := x0\<rparr>) \<longleftrightarrow> keeps s s'"
  "keeps s (s'\<lparr>mysym := x1\<rparr>) \<longleftrightarrow> keeps s s'"
  "keeps s (s'\<lparr>dfile_hdr := x2\<rparr>) \<longleftrightarrow> keeps s s'"
  "keeps s (s'\<lparr>verify := x3\<rparr>) \<longleftrightarrow> keeps s s'"
  "keeps s (s'\<lparr>reorder_map := x4\<rparr>) \<longleftrightarrow> keeps s s'"
  "keeps s (s'\<lparr>big_e_target := x5\<rparr>) \<longleftrightarrow> keeps s s'"
  "keeps s (s'\<lparr>ldr_sections := x6\<rparr>) \<longleftrightarrow> keeps s s'"
  "keeps s (s'\<lparr>sect_hdrs := x7\<rparr>) \<longleftrightarrow> keeps s s'"
  "keeps s (s'\<lparr>debug_string_size := x8\<rparr>) \<longleftrightarrow> keeps s s'"
  "keeps s (s'\<lparr>allocated_secn_count := x9\<rparr>) \<longleftrightarrow> keeps s s'"
  "keeps s (s'\<lparr>local_symtab := x10\<rparr>) \<longleftrightarrow> keeps s s'"
  "keeps s (s'\<lparr>image_offset := x11\<rparr>) \<longleftrightarrow> keeps s s'"
  "keeps s (s'\<lparr>delta_runaddr := x12\<rparr>) \<longleftrightarrow> keeps s s'"
  "keeps s (s'\<lparr>image_secn := x13\<rparr>) \<longleftrightarrow> keeps s s'"
  "keeps s (s'\<lparr>myio := x14\<rparr>) \<longleftrightarrow> keeps s s'"
  "keeps s (s'\<lparr>myalloc := x15\<rparr>) \<longleftrightarrow> keeps s s'"
  "keeps s (s'\<lparr>myoptions := x16\<rparr>) \<longleftrightarrow> keeps s s'"
  "keeps (s\<lparr>strm := x0\<rparr>) s' \<longleftrightarrow> keeps s s'"
  "keeps (s\<lparr>mysym := x1\<rparr>) s' \<longleftrightarrow> keeps s s'"
  "keeps (s\<lparr>dfile_hdr := x2\<rparr>) s' \<longleftrightarrow> keeps s s'"
  "keeps (s\<lparr>verify := x3\<rparr>) s' \<longleftrightarrow> keeps s s'"
  "keeps (s\<lparr>reorder_map := x4\<rparr>) s' \<longleftrightarrow> keeps s s'"
  "keeps (s\<lparr>big_e_target := x5\<rparr>) s' \<longleftrightarrow> keeps s s'"
  "keeps (s\<lparr>ldr_sections := x6\<rparr>) s' \<longleftrightarrow> keeps s s'"
  "keeps (s\<lparr>sect_hdrs := x7\<rparr>) s' \<longleftrightarrow> keeps s s'"
  "keeps (s\<lparr>debug_string_size := x8\<rparr>) s' \<longleftrightarrow> keeps s s'"
  "keeps (s\<lparr>allocated_secn_count := x9\<rparr>) s' \<longleftrightarrow> keeps s s'"
  "keeps (s\<lparr>local_symtab := x10\<rparr>) s' \<longleftrightarrow> keeps s s'"
  "keeps (s\<lparr>image_offset := x11\<rparr>) s' \<longleftrightarrow> keeps s s'"
  "keeps (s\<lparr>delta_runaddr := x12\<rparr>) s' \<longleftrightarrow> keeps s s'"
  "keeps (s\<lparr>image_secn := x13\<rparr>) s' \<longleftrightarrow> keeps s s'"
  "keeps (s\<lparr>myio := x14\<rparr>) s' \<longleftrightarrow> keeps s s'"
  "keeps (s\<lparr>myalloc := x15\<rparr>) s' \<longleftrightarrow> keeps s s'"
  "keeps (s\<lparr>myoptions := x16\<rparr>) s' \<longleftrightarrow> keeps s s'"
  by (simp_all add: keeps_def)

lemma reloc_keeps: "reloc_frame s s' \<Longrightarrow> keeps s s'"
  by (auto elim!: reloc_frame.cases simp: keeps_def)

lemma cinit_keeps: "cinit_frame s s' \<Longrightarrow> keeps s s'"
proof (erule cinit_frame.cases)
  fix ws m c a p es and t :: dload_state
  assume "writes ws"
  then have "\<forall>e \<in> set ws. \<not> host_event e" by (auto simp: writes_def)
  then have "live_own (calls t @ ws) = live_own (calls t)" by (rule live_own_others)
  then show "s = t \<Longrightarrow> s' = t\<lparr>cinit_state := m, cinit_count := c, cinit_addr := a, cinit_page := p,
      dload_errors := dload_errors t @ es, calls := calls t @ ws\<rparr> \<Longrightarrow> keeps s s'"
    by (simp add: keeps_def)
qed

subsection \<open>The steps\<close>

lemma bindE: "Option.bind m f = Some y \<Longrightarrow> (\<And>x. m = Some x \<Longrightarrow> f x = Some y \<Longrightarrow> P) \<Longrightarrow> P"
  by (cases m) simp_all

lemma store_keeps: "store_headers s b = Some s' \<Longrightarrow> keeps s s'"
  unfolding store_headers_def by (auto elim!: bindE)

lemma headers_keeps: "dload_headers s = Some s' \<Longrightarrow> keeps s s'"
  unfolding dload_headers_def Let_def
  by (auto elim!: bindE split: if_splits option.splits dest!: store_keeps intro: keeps_trans)

lemma Allocate_failed: "Allocate env s b n = (s1, None) \<Longrightarrow> b \<noteq> B_root \<Longrightarrow> keeps s s1"
  by (auto simp: Allocate_def Let_def keeps_def live_own_host)

lemma Allocate_succeeds: "Allocate env s b n = (s1, Some r) \<Longrightarrow> s1 = call (Host_allocate b n True) s"
  by (auto simp: Allocate_def Let_def)

lemma strings_accounted:
  assumes "dload_strings env s b = Some s'" and "accounted s"
  shows "accounted s'"
proof -
  define ssiz where "ssiz = DOFF_ALIGN (if b then df_scn_name_size (dfile_hdr s) else df_strtab_size (dfile_hdr s))"
  note run = assms(1) [unfolded dload_strings_def Let_def, folded ssiz_def]
  obtain s1 r where al: "Allocate env s B_strings ssiz = (s1, r)" by fastforce
  show ?thesis
  proof (cases "ssiz = 0")
    case True
    with run assms(2) show ?thesis by simp
  next
    case F: False
    show ?thesis
    proof (cases r)
      case None
      with run F al have "keeps s s'" using Allocate_failed [of env s B_strings ssiz s1] by auto
      with assms(2) show ?thesis by (rule keeps_accounted [rotated])
    next
      case (Some am)
      with Allocate_succeeds al have s1: "s1 = call (Host_allocate B_strings ssiz True) s" by simp
      from run F al Some obtain m where "keeps (s1\<lparr>str_head := Some m\<rparr>) s'"
        by (auto elim!: bindE split: prod.splits if_splits simp: dload_error_def keeps_def)
      moreover have "accounted (s1\<lparr>str_head := Some m\<rparr>)"
        using assms(2) s1 by (auto simp: accounted_def owned_def live_own_host)
      ultimately show ?thesis by (rule keeps_accounted)
    qed
  qed
qed

lemma sections_accounted:
  assumes "dload_sections env s = Some s'" and "accounted s"
  shows "accounted s'"
proof -
  define siz where "siz = sections_siz (unat (df_no_scns (dfile_hdr s)))"
  note run = assms(1) [unfolded dload_sections_def Let_def, folded siz_def]
  obtain s1 r where al: "Allocate env s B_sections (word_of_int siz) = (s1, r)" by fastforce
  show ?thesis
  proof (cases r)
    case None
    with run al have "keeps s s'" using Allocate_failed [of env s B_sections _ s1] by auto
    with assms(2) show ?thesis by (rule keeps_accounted [rotated])
  next
    case (Some am)
    with Allocate_succeeds al have s1: "s1 = call (Host_allocate B_sections (word_of_int siz) True) s" by simp
    from run al Some have "keeps (s1\<lparr>sect_hdrs_p := True\<rparr>) s'"
      by (auto elim!: bindE split: prod.splits if_splits)
    moreover have "accounted (s1\<lparr>sect_hdrs_p := True\<rparr>)"
      using assms(2) s1 by (auto simp: accounted_def owned_def live_own_host)
    ultimately show ?thesis by (rule keeps_accounted)
  qed
qed

lemma allocate_loop_keeps: "allocate_loop env i k s = Some (s', b) \<Longrightarrow> keeps s s'"
proof (induction k arbitrary: i s)
  case (Suc k)
  show ?case
  proof (cases "rd (sect_hdrs s) i")
    case None
    with Suc.prems show ?thesis by simp
  next
    case (Some shp)
    define s1 where "s1 = (if ds_offset shp < df_strtab_size (dfile_hdr s) then s else dload_error s Bad_section_name)"
    have s1: "keeps s s1" by (simp add: s1_def)
    from Suc.prems Some have run: "allocate_loop env i (Suc k) s = Some (s', b)" by simp
    show ?thesis
    proof (cases "DS_NEEDS_ALLOCATION shp")
      case False
      with run Some have "allocate_loop env (i + 1) k s1 = Some (s', b)" by (simp add: s1_def Let_def)
      from keeps_trans [OF s1 Suc.IH [OF this]] show ?thesis .
    next
      case True
      with run Some s1 show ?thesis
        by (auto simp: Let_def bind_eq_Some_conv simp flip: s1_def split: if_splits option.splits prod.splits
            dest!: Suc.IH intro!: keeps_trans [of s s1 s'] intro: keeps_trans)
    qed
  qed
qed simp

text \<open>A block that the host allocates is not at address 0.\<close>

definition addresses_ok :: "dl_env \<Rightarrow> bool" where
  "addresses_ok env \<longleftrightarrow> (\<forall>es b n a f. host_allocate env es b n = Some (a, f) \<longrightarrow> a \<noteq> 0)"

lemma Allocate_address: "Allocate env s b n = (s1, Some (a, m)) \<Longrightarrow> addresses_ok env \<Longrightarrow> a \<noteq> 0"
  unfolding Allocate_def Let_def addresses_ok_def by (cases "host_allocate env (calls s) b n") (auto, blast)

lemma allocate_sections_accounted:
  assumes "allocate_sections env s = Some s'" and "accounted s" and "addresses_ok env"
  shows "accounted s'"
proof -
  let ?siz = "df_target_scns (dfile_hdr s) * sizeof_LDR_SECTION_INFO + MY_HANDLE_SIZE"
  note run = assms(1) [unfolded allocate_sections_def Let_def]
  obtain s1 r where al: "Allocate env s B_handle (ucast ?siz) = (s1, r)" by fastforce
  show ?thesis
  proof (cases r)
    case None
    with run al have "keeps s s'" using Allocate_failed [of env s B_handle _ s1] by (auto split: if_splits)
    with assms(2) show ?thesis by (rule keeps_accounted [rotated])
  next
    case (Some am)
    obtain a m where am: "am = (a, m)" by (cases am)
    with Allocate_succeeds al Some have s1: "s1 = call (Host_allocate B_handle (ucast ?siz) True) s" by simp
    have a: "a \<noteq> 0" using Allocate_address [OF al [unfolded Some am] assms(3)] .
    from run al Some am have "s' = s \<or> s' = dload_error s Alloc_required \<or> keeps (s1\<lparr>myhandle := a\<rparr>) s'"
      by (auto elim!: bindE split: prod.splits if_splits dest!: allocate_loop_keeps)
    moreover have "accounted (s1\<lparr>myhandle := a\<rparr>)"
      using assms(2) s1 a by (auto simp: accounted_def owned_def live_own_host)
    moreover have "accounted (dload_error s Alloc_required)" using assms(2) by (rule keeps_accounted [rotated]) simp
    ultimately show ?thesis using assms(2) keeps_accounted by blast
  qed
qed

lemma connect_accounted:
  assumes "connect_step env s = Some s'" and "accounted s" and "addresses_ok env"
  shows "accounted s'"
proof (cases "init_given env \<and> io_connect env (calls s @ [Connect])")
  case True
  then have "allocate_sections env ((call Connect s)\<lparr>myio := True, myalloc := alloc_given env\<rparr>) = Some s'"
    using assms(1) by (simp add: connect_step_def Let_def)
  then show ?thesis
    by (rule allocate_sections_accounted) (use assms(2,3) in \<open>auto intro: keeps_accounted [of s]\<close>)
next
  case False
  then have "keeps s s'" using assms(1) by (auto simp: connect_step_def Let_def split: if_splits)
  with assms(2) show ?thesis by (rule keeps_accounted [rotated])
qed

lemma entry_point_keeps: "entry_point s = Some s' \<Longrightarrow> keeps s s'"
  by (auto simp: entry_point_def Let_def elim!: bindE split: if_splits)

lemma keep_symbol_keeps [simp]: "keeps s (keep_symbol s' v d n c) \<longleftrightarrow> keeps s s'"
  by (simp add: keep_symbol_def)

lemma find_symbol_keeps: "find_symbol s sname = Some (s', v) \<Longrightarrow> keeps s s'"
  by (auto simp: find_symbol_def elim!: bindE split: prod.splits)

lemma post_symbol_keeps: "post_symbol env s sname v = Some s' \<Longrightarrow> keeps s s'"
  by (auto simp: post_symbol_def elim!: bindE split: option.splits prod.splits if_splits)

lemma load_symbol_keeps: "load_symbol env y s = Some (s', b) \<Longrightarrow> keeps s s'"
  unfolding load_symbol_def Let_def
  by (auto elim!: bindE split: if_splits option.splits prod.splits
      dest!: find_symbol_keeps post_symbol_keeps) (blast intro: keeps_trans)+

lemma load_symbols_keeps: "load_symbols env ys s = Some (s', b) \<Longrightarrow> keeps s s'"
proof (induction ys arbitrary: s)
  case (Cons y ys)
  then show ?case by (auto elim!: bindE split: if_splits dest!: load_symbol_keeps intro: keeps_trans)
qed simp

lemma symbol_buffers_keeps: "symbol_buffers env n c s = Some (s', r) \<Longrightarrow> keeps s s'"
proof (induction n arbitrary: c s rule: less_induct)
  case (less n)
  show ?case
  proof (cases "n = 0")
    case True
    with less.prems show ?thesis by (simp add: symbol_buffers.simps)
  next
    case False
    define k where "k = (if n > MY_SYM_BUF_SIZ then MY_SYM_BUF_SIZ else n)"
    note run = less.prems [unfolded symbol_buffers.simps [of env n] Let_def, folded k_def]
    have "n - k < n" using False by (simp add: k_def MY_SYM_BUF_SIZ_def)
    note IH = less.IH [OF this]
    from run False show ?thesis
      by (auto elim!: bindE split: if_splits dest!: load_symbols_keeps IH) (blast intro: keeps_trans)+
  qed
qed

lemma symbols_accounted:
  assumes "dload_symbols env s = Some s'" and "accounted s"
  shows "accounted s'"
proof -
  let ?k = "unat (df_no_syms (dfile_hdr s))"
  let ?n = "of_nat (max (12 * ?k) (DBG_HDR_SIZE + 8 * allocated_secn_count s + unat (debug_string_size s + 1))) :: u32"
  note run = assms(1) [unfolded dload_symbols_def Let_def]
  obtain s1 r where al: "Allocate env s B_symbols ?n = (s1, r)" by fastforce
  show ?thesis
  proof (cases "?k = 0")
    case True
    with run assms(2) show ?thesis by simp
  next
    case F: False
    show ?thesis
    proof (cases r)
      case None
      with run F al have "keeps s s'" using Allocate_failed [of env s B_symbols _ s1] by auto
      with assms(2) show ?thesis by (rule keeps_accounted [rotated])
    next
      case (Some am)
      with Allocate_succeeds al have s1: "s1 = call (Host_allocate B_symbols ?n True) s" by simp
      from run F al Some have "keeps (s1\<lparr>local_symtab_p := True\<rparr>) s'"
        by (auto elim!: bindE split: prod.splits option.splits dest!: symbol_buffers_keeps)
      moreover have "accounted (s1\<lparr>local_symtab_p := True\<rparr>)"
        using assms(2) s1 by (auto simp: accounted_def owned_def live_own_host)
      ultimately show ?thesis by (rule keeps_accounted)
    qed
  qed
qed

lemma relocate_packet_keeps: "relocate_packet n bits c s = Some (s', b, c', ok) \<Longrightarrow> keeps s s'"
proof (induction n arbitrary: bits c s rule: less_induct)
  case (less n)
  define k where "k = (if n > MY_RELOC_BUF_SIZ then MY_RELOC_BUF_SIZ else n)"
  note run = less.prems [unfolded relocate_packet.simps [of n] Let_def, folded k_def]
  show ?case
  proof (cases "n = 0")
    case True
    with run show ?thesis by simp
  next
    case False
    then have "n - k < n" by (simp add: k_def MY_RELOC_BUF_SIZ_def)
    note IH = less.IH [OF this]
    from run False show ?thesis
      by (auto elim!: bindE split: if_splits prod.splits dest!: reloc_keeps [OF run_relocs_frame] IH) (blast intro: keeps_trans)+
  qed
qed

lemma store_packet_keeps: "store_packet env sptr lptr offs pk bits s = Some s' \<Longrightarrow> keeps s s'"
  by (rule cinit_keeps [OF store_packet_cinit_frame])

lemma load_packets_keeps: "load_packets env sptr lptr n offs bufr s = Some (s', b, ok) \<Longrightarrow> keeps s s'"
proof (induction n arbitrary: offs bufr s)
  case (Suc n)
  from Suc.prems show ?case
    by (auto simp: Let_def elim!: bindE split: if_splits prod.splits
        dest!: relocate_packet_keeps store_packet_keeps Suc.IH) (blast intro: keeps_trans)+
qed simp

lemma fill_bss_keeps [simp]: "keeps s (fill_bss sptr lptr c s') \<longleftrightarrow> keeps s s'" "keeps (fill_bss sptr lptr c s) s' \<longleftrightarrow> keeps s s'"
  by (simp_all add: fill_bss_def)

lemma data_loop_keeps: "data_loop env i n bufr c s = Some s' \<Longrightarrow> keeps s s'"
proof (induction n arbitrary: i bufr c s)
  case (Suc n)
  from Suc.prems show ?case
    by (auto simp: Let_def elim!: bindE split: if_splits prod.splits dest!: load_packets_keeps Suc.IH) (blast intro: keeps_trans)+
qed simp

lemma view_root_keeps: "view_root env hp s = Some (hp', s', r) \<Longrightarrow> keeps s s'"
  by (auto simp: view_root_def Let_def Allocate_def elim!: bindE split: option.splits if_splits prod.splits)

lemma writemem_keeps: "writemem env a bs s = (s', ok) \<Longrightarrow> keeps s s'"
  by (auto simp: writemem_def Let_def)

lemma init_module_handle_keeps:
  assumes "init_module_handle env hp s = Some (hp', s')"
  shows "keeps s s'"
proof (cases "myhandle s = 0 \<or> dload_errcount s \<noteq> 0")
  case True
  with assms show ?thesis by (auto simp: init_module_handle_def Let_def split: if_splits)
next
  case False
  with assms obtain hp2 s1 root where v: "view_root env (put_handle (myhandle s) (fresh_handle s) hp) s = Some (hp2, s1, root)"
    by (auto simp: init_module_handle_def Let_def elim!: bindE)
  from view_root_keeps [OF v] have "keeps s s1" .
  moreover have "keeps s1 s'"
    using assms False v
    by (auto simp: init_module_handle_def Let_def elim!: bindE split: option.splits if_splits prod.splits dest!: writemem_keeps)
      (blast intro: keeps_trans)+
  ultimately show ?thesis by (rule keeps_trans)
qed

lemma execute_keeps: "keeps s (execute_step env s)" "keeps s (open_execute_step env s)"
  by (simp_all add: execute_step_def open_execute_step_def Let_def)

lemma unless_error_accounted: "unless_error f t = Some t' \<Longrightarrow> accounted t \<Longrightarrow> (f t = Some t' \<Longrightarrow> accounted t') \<Longrightarrow> accounted t'"
  by (auto simp: unless_error_def split: if_splits)

lemma symbol_steps_accounted:
  assumes "symbol_steps env s = Some s'" and "accounted s" and "addresses_ok env"
  shows "accounted s'"
proof -
  from assms(1) obtain s1 s2 s3 s4 where run: "dload_headers s = Some s1"
    "unless_error (\<lambda>s. dload_strings env s False) s1 = Some s2" "unless_error (dload_sections env) s2 = Some s3"
    "unless_error (connect_step env) s3 = Some s4" "unless_error (\<lambda>s. do { s' \<leftarrow> entry_point s; dload_symbols env s' }) s4 = Some s'"
    by (auto simp: symbol_steps_def elim!: bindE)
  have 1: "accounted s1" using keeps_accounted [OF headers_keeps [OF run(1)] assms(2)] .
  have 2: "accounted s2" using unless_error_accounted [OF run(2) 1] strings_accounted 1 by blast
  have 3: "accounted s3" using unless_error_accounted [OF run(3) 2] sections_accounted 2 by blast
  have 4: "accounted s4" using unless_error_accounted [OF run(4) 3] connect_accounted 3 assms(3) by blast
  show ?thesis
  proof (rule unless_error_accounted [OF run(5) 4])
    assume "do { s' \<leftarrow> entry_point s4; dload_symbols env s' } = Some s'"
    then obtain t where "entry_point s4 = Some t" "dload_symbols env t = Some s'" by (auto elim!: bindE)
    with keeps_accounted [OF entry_point_keeps 4] symbols_accounted show "accounted s'" by blast
  qed
qed

lemma load_steps_accounted:
  assumes "load_steps env bufr s = Some s'" and "accounted s" and "addresses_ok env"
  shows "accounted s'"
proof -
  from assms(1) obtain s5 where run: "symbol_steps env s = Some s5"
    "unless_error (\<lambda>s. if init_given env then dload_data env bufr s else Some s) s5 = Some s'"
    by (auto simp: load_steps_def elim!: bindE)
  have 5: "accounted s5" using symbol_steps_accounted [OF run(1) assms(2,3)] .
  show ?thesis
  proof (rule unless_error_accounted [OF run(2) 5])
    assume "(if init_given env then dload_data env bufr s5 else Some s5) = Some s'"
    then have "keeps s5 s'" by (auto simp: dload_data_def split: if_splits dest: data_loop_keeps)
    then show "accounted s'" using 5 by (rule keeps_accounted)
  qed
qed

subsection \<open>The end of a load\<close>

lemma live_own_dealloc_root [simp]: "live_own (es @ [Host_deallocate B_root]) = live_own es"
  by simp

lemma u_writemem_live [simp]: "live_own (u_calls (u_writemem env a bs u)) = live_own (u_calls u)"
  by (simp add: u_writemem_def Let_def)

lemma target_unlink_live: "target_unlink env h u = Some u' \<Longrightarrow> live_own (u_calls u') = live_own (u_calls u)"
  by (auto simp: target_unlink_def Let_def elim!: bindE split: if_splits prod.splits)

lemma unload_view_live: "unload_view env a h u = Some u' \<Longrightarrow> live_own (u_calls u') = live_own (u_calls u)"
  by (auto simp: unload_view_def Let_def elim!: bindE split: if_splits dest!: target_unlink_live)

lemma release_root_live: "release_root r u = Some u' \<Longrightarrow> live_own (u_calls u') = live_own (u_calls u)"
  by (auto simp: release_root_def Let_def elim!: bindE split: if_splits prod.splits)

lemma deallocate_sections_live: "deallocate_sections env h u = Some u' \<Longrightarrow> live_own (u_calls u') = live_own (u_calls u)"
proof -
  have "live_own (es @ map (\<lambda>a. Target_deallocate (g a)) xs) = live_own es" for es xs and g :: "LDR_SECTION_INFO \<Rightarrow> LDR_SECTION_INFO"
    by (rule live_own_others) auto
  then show "deallocate_sections env h u = Some u' \<Longrightarrow> ?thesis"
    by (auto simp: deallocate_sections_def Let_def split: if_splits)
qed

lemma unload_live:
  assumes "Dynamic_Unload_Module env a u = Some u'" and "a \<noteq> 0"
  shows "live_own (u_calls u') = live_own (u_calls u) - {B_handle}"
  using assms
  by (auto simp: Dynamic_Unload_Module_def Let_def live_own_host elim!: bindE split: if_splits
      dest!: deallocate_sections_live unload_view_live release_root_live)

text \<open>The three tables go, the handle stays.\<close>

lemma tables_freed:
  assumes "accounted s"
  shows "live_own (calls (string_table_free (section_table_free (symbol_table_free s)))) = (if myhandle s \<noteq> 0 then {B_handle} else {})"
  using assms
  by (auto simp: accounted_def owned_def live_own_host string_table_free_def section_table_free_def symbol_table_free_def Let_def
      split: if_splits)

lemma tables_freed_same [simp]:
  "myhandle (string_table_free s) = myhandle s" "myhandle (section_table_free s) = myhandle s" "myhandle (symbol_table_free s) = myhandle s"
  "dload_errors (string_table_free s) = dload_errors s" "dload_errors (section_table_free s) = dload_errors s"
  "dload_errors (symbol_table_free s) = dload_errors s"
  by (simp_all add: string_table_free_def section_table_free_def symbol_table_free_def Let_def)

lemma start_accounted: "accounted (start_load st syms options)"
  by (simp add: start_load_def accounted_def owned_def live_own_def live_def dload_clear_def)

lemma end_load_memory:
  assumes "end_load env hp s = Some (hp', s', h, n)" and "accounted s"
  shows "live_own (calls s') = (if h \<noteq> 0 then {B_handle} else {}) \<and> (n \<noteq> 0 \<longrightarrow> h = 0) \<and> n = length (dload_errors s')"
proof -
  define s1 where "s1 = string_table_free (section_table_free (symbol_table_free s))"
  note run = assms(1) [unfolded end_load_def Let_def, folded s1_def]
  have l: "live_own (calls s1) = (if myhandle s1 \<noteq> 0 then {B_handle} else {})"
    unfolding s1_def using tables_freed [OF assms(2)] by simp
  show ?thesis
  proof (cases "dload_errcount s1 = 0")
    case True
    with run l show ?thesis by auto
  next
    case False
    with run obtain u where u: "Dynamic_Unload_Module env (myhandle s1)
        \<lparr>u_heap = hp, u_syms = mysym s1, u_calls = calls s1, u_errcount = 0\<rparr> = Some u"
      and s': "s' = s1\<lparr>mysym := u_syms u, calls := u_calls u, myhandle := 0\<rparr>" and h: "h = 0" "n = dload_errcount s1"
      by (auto elim!: bindE)
    have "live_own (u_calls u) = {}"
    proof (cases "myhandle s1 = 0")
      case True
      with u l show ?thesis by (auto simp: Dynamic_Unload_Module_def)
    next
      case False
      with unload_live [OF u] l show ?thesis by simp
    qed
    with s' h show ?thesis by simp
  qed
qed

lemma open_returns_memory:
  assumes "Dynamic_Open_Module env hp (Some st) syms options = Some (hp', s', h, n)" and "addresses_ok env"
  shows "live_own (calls s') = (if h \<noteq> 0 then {B_handle} else {}) \<and> (n \<noteq> 0 \<longrightarrow> h = 0) \<and> n = length (dload_errors s')"
proof -
  from assms(1) obtain s1 hp1 s2 where run: "symbol_steps env (start_load st syms options) = Some s1"
      "init_module_handle env hp s1 = Some (hp1, s2)" "end_load env hp1 (open_execute_step env s2) = Some (hp', s', h, n)"
    by (auto simp: Dynamic_Open_Module_def elim!: bindE)
  have "accounted (open_execute_step env s2)"
    using symbol_steps_accounted [OF run(1) start_accounted assms(2)] init_module_handle_keeps [OF run(2)] execute_keeps(2)
    by (blast intro: keeps_accounted)
  with run(3) show ?thesis by (rule end_load_memory)
qed


text \<open>A file with one section that needs no memory, and an empty symbol table.\<close>

definition sample_module :: "u32 list" where
  "sample_module = [4, 0, 0x00010203, 0, 0, 1, 0x990000, 0, 0xFF65FDF7, 0, 0xFFFFFFFF, 0xFFFFFFFF, 0, 1, 0, 0, 0, 0, 0, 0, 0, 0]"

definition empty_table :: symtab where
  "empty_table = \<lparr>mytable = replicate 32 [], shift_cnt = 27, hash_key = 0, last_length = 0\<rparr>"

definition no_heap :: dl_heap where
  "no_heap = \<lparr>roots = (\<lambda>_. None), handles = (\<lambda>_. None)\<rparr>"


end
