(* ===== verification/Dload_List.thy ===== *)
theory Dload_List
  imports Dload_Owned
begin

section \<open>The list of modules that the debugger reads\<close>

text \<open>
  The contract of \<open>init_module_handle\<close> and \<open>Dynamic_Unload_Module\<close> with a debugger: from the header
  whose address is \<open>_DLModules\<close>, target memory holds a singly linked list of records, the newest
  module first, and the host holds the same list, doubly linked. The abstract list is the list of
  the handles; loading puts a handle in front, unloading takes it out.
\<close>

subsection \<open>The list of the host\<close>

definition node_hnext :: "dl_heap \<Rightarrow> u32 \<Rightarrow> u32 option" where
  "node_hnext hp p = (case handles hp p of Some h \<Rightarrow> Some (dm_hnext h) | None \<Rightarrow> map_option mr_hnext (roots hp p))"

definition node_hprev :: "dl_heap \<Rightarrow> u32 \<Rightarrow> u32 option" where
  "node_hprev hp p = map_option dm_hprev (handles hp p)"

definition first_of :: "u32 list \<Rightarrow> u32" where
  "first_of as = (case as of [] \<Rightarrow> 0 | a # _ \<Rightarrow> a)"

text \<open>The nodes \<open>as\<close> follow \<open>p\<close>, given the successor and the predecessor of every node.\<close>

fun seg :: "(u32 \<Rightarrow> u32 option) \<Rightarrow> (u32 \<Rightarrow> u32 option) \<Rightarrow> u32 \<Rightarrow> u32 list \<Rightarrow> bool" where
  "seg nx pv p [] \<longleftrightarrow> nx p = Some 0"
| "seg nx pv p (a # as) \<longleftrightarrow> a \<noteq> 0 \<and> nx p = Some a \<and> pv a = Some p \<and> seg nx pv a as"

lemma first_of_simps [simp]: "first_of [] = 0" "first_of (a # as) = a"
  by (simp_all add: first_of_def)

lemma seg_first: "seg nx pv p as \<Longrightarrow> nx p = Some (first_of as)"
  by (cases as) auto

lemma seg_nonzero: "seg nx pv p as \<Longrightarrow> 0 \<notin> set as"
  by (induction as arbitrary: p) auto

lemma seg_cong:
  "seg nx pv p as \<Longrightarrow> (\<And>x. x \<in> insert p (set as) \<Longrightarrow> nx' x = nx x) \<Longrightarrow> (\<And>x. x \<in> set as \<Longrightarrow> pv' x = pv x) \<Longrightarrow> seg nx' pv' p as"
  by (induction as arbitrary: p) auto

lemma seg_relink:
  assumes "seg nx pv q bs" and "distinct (p # bs)" and "q \<notin> set bs" and "nx' p = Some (first_of bs)"
    and "\<And>x. x \<in> set bs \<Longrightarrow> nx' x = nx x" and "\<And>x. x \<in> set (tl bs) \<Longrightarrow> pv' x = pv x" and "bs \<noteq> [] \<Longrightarrow> pv' (hd bs) = Some p"
  shows "seg nx' pv' p bs"
proof (cases bs)
  case Nil
  with assms(4) show ?thesis by simp
next
  case (Cons b cs)
  have "seg nx' pv' b cs" by (rule seg_cong [of nx pv]) (use assms Cons in auto)
  with assms Cons show ?thesis by auto
qed

lemma seg_insert:
  assumes "seg nx pv r hs" and "distinct (a # r # hs)" and "a \<noteq> 0" and "nx' r = Some a" and "nx' a = nx r" and "pv' a = Some r"
    and "\<And>x. x \<in> set hs \<Longrightarrow> nx' x = nx x" and "\<And>x. x \<in> set (tl hs) \<Longrightarrow> pv' x = pv x" and "hs \<noteq> [] \<Longrightarrow> pv' (hd hs) = Some a"
  shows "seg nx' pv' r (a # hs)"
proof -
  have "seg nx' pv' a hs"
    by (rule seg_relink [of nx pv r]) (use assms seg_first [OF assms(1)] in auto)
  with assms show ?thesis by auto
qed

lemma seg_middle:
  "seg nx pv p (xs @ a # ys) \<Longrightarrow> pv a = Some (last (p # xs)) \<and> nx a = Some (first_of ys) \<and> seg nx pv a ys"
  by (induction xs arbitrary: p) (auto dest: seg_first)

lemma seg_remove:
  assumes "seg nx pv p (xs @ a # ys)" and "distinct (p # xs @ a # ys)" and "nx' (last (p # xs)) = Some (first_of ys)"
    and "\<And>x. x \<in> set (p # xs @ ys) \<Longrightarrow> x \<noteq> last (p # xs) \<Longrightarrow> nx' x = nx x"
    and "\<And>x. x \<in> set xs \<union> set (tl ys) \<Longrightarrow> pv' x = pv x" and "ys \<noteq> [] \<Longrightarrow> pv' (hd ys) = Some (last (p # xs))"
  shows "seg nx' pv' p (xs @ ys)"
  using assms
proof (induction xs arbitrary: p)
  case Nil
  have "seg nx pv a ys" using seg_middle [OF Nil.prems(1)] by blast
  then have "seg nx' pv' p ys" by (rule seg_relink) (use Nil.prems in auto)
  then show ?case by simp
next
  case (Cons x xs)
  have "seg nx' pv' x (xs @ ys)"
    by (rule Cons.IH) (use Cons.prems in \<open>auto split: if_splits\<close>)
  moreover have "last (x # xs) \<in> set (x # xs)" by (rule last_in_set) simp
  then have "p \<noteq> last (p # x # xs)" using Cons.prems(2) by auto
  then have "nx' p = nx p" using Cons.prems(4) by simp
  ultimately show ?case using Cons.prems by auto
qed

definition view_list :: "dl_heap \<Rightarrow> u32 \<Rightarrow> u32 list \<Rightarrow> bool" where
  "view_list hp r hs \<longleftrightarrow> seg (node_hnext hp) (node_hprev hp) r hs \<and> handles hp r = None \<and> distinct (r # hs)"

text \<open>What the two nodes say apart from their links.\<close>

definition no_links :: "my_handle \<Rightarrow> my_handle" where
  "no_links h = h\<lparr>dm_hnext := 0, dm_hprev := 0\<rparr>"

definition no_link :: "mirror_root \<Rightarrow> mirror_root" where
  "no_link m = m\<lparr>mr_hnext := 0\<rparr>"

lemma no_links_simps [simp]:
  "no_links (h\<lparr>dm_hnext := v\<rparr>) = no_links h" "no_links (h\<lparr>dm_hprev := v\<rparr>) = no_links h"
  "no_link (m\<lparr>mr_hnext := v\<rparr>) = no_link m"
  by (simp_all add: no_links_def no_link_def)

lemma view_list_root:
  assumes "view_list hp r hs"
  obtains m where "roots hp r = Some m" and "mr_hnext m = first_of hs" and "handles hp r = None"
  using assms seg_first [of "node_hnext hp" "node_hprev hp" r hs]
  by (auto simp: view_list_def node_hnext_def split: option.splits)

lemma seg_handle: "seg nx (node_hprev hp) p (xs @ a # ys) \<Longrightarrow> \<exists>h. handles hp a = Some h"
  using seg_middle [of nx "node_hprev hp" p xs a ys] by (auto simp: node_hprev_def)

lemma link_handle_view:
  assumes "view_list hp r hs" and "distinct (a # r # hs)" and "a \<noteq> 0"
  obtains hp' where "link_handle a h r hp = Some hp'" and "view_list hp' r (a # hs)"
    and "handles hp' a = Some (h\<lparr>dm_hnext := first_of hs, dm_hprev := r\<rparr>)"
    and "\<And>x. x \<noteq> a \<Longrightarrow> map_option no_links (handles hp' x) = map_option no_links (handles hp x)"
    and "\<And>x. map_option no_link (roots hp' x) = map_option no_link (roots hp x)"
proof -
  obtain m where m: "roots hp r = Some m" "mr_hnext m = first_of hs" "handles hp r = None"
    using view_list_root [OF assms(1)] by blast
  have s: "seg (node_hnext hp) (node_hprev hp) r hs" using assms(1) by (simp add: view_list_def)
  define ha where "ha = h\<lparr>dm_hnext := first_of hs, dm_hprev := r\<rparr>"
  define old where "old = (case hs of [] \<Rightarrow> handles hp | b # _ \<Rightarrow> (handles hp)(b := map_option (\<lambda>hb. hb\<lparr>dm_hprev := a\<rparr>) (handles hp b)))"
  define hp' where "hp' = \<lparr>roots = (roots hp)(r \<mapsto> m\<lparr>mr_hnext := a\<rparr>), handles = old(a \<mapsto> ha)\<rparr>"
  have run: "link_handle a h r hp = Some hp'"
  proof (cases hs)
    case Nil
    with m show ?thesis by (simp add: link_handle_def set_hprev_def hp'_def old_def ha_def)
  next
    case (Cons b bs)
    with s obtain hb where hb: "handles hp b = Some hb" using seg_handle [of _ hp r "[]" b bs] by auto
    have b: "b \<noteq> 0" "b \<noteq> a" "a \<noteq> r" using s Cons assms(2) by auto
    with m hb Cons show ?thesis by (simp add: link_handle_def set_hprev_def hp'_def old_def ha_def fun_upd_twist)
  qed
  have other: "old x = handles hp x \<or> (\<exists>bs hb. hs = x # bs \<and> handles hp x = Some hb \<and> old x = Some (hb\<lparr>dm_hprev := a\<rparr>))" for x
    using s by (auto simp: old_def node_hprev_def split: list.splits)
  have "seg (node_hnext hp') (node_hprev hp') r (a # hs)"
  proof (rule seg_insert [OF s assms(2,3)])
    show "node_hnext hp' r = Some a" using assms(2) m(3) other [of r] by (auto simp: node_hnext_def hp'_def)
    show "node_hnext hp' a = node_hnext hp r" using m by (simp add: node_hnext_def hp'_def ha_def)
    show "node_hprev hp' a = Some r" by (simp add: node_hprev_def hp'_def ha_def)
  next
    fix x assume x: "x \<in> set hs"
    show "node_hnext hp' x = node_hnext hp x" using assms(2) x other [of x] by (auto simp: node_hnext_def hp'_def split: option.splits)
  next
    fix x assume "x \<in> set (tl hs)"
    then show "node_hprev hp' x = node_hprev hp x"
      using assms(2) other [of x] by (cases hs) (auto simp: node_hprev_def hp'_def)
  next
    assume "hs \<noteq> []"
    then obtain b bs where hs: "hs = b # bs" by (cases hs) auto
    with s obtain hb where "handles hp b = Some hb" using seg_handle [of _ hp r "[]" b bs] by auto
    then show "node_hprev hp' (hd hs) = Some a" using assms(2) hs by (auto simp: node_hprev_def hp'_def old_def)
  qed
  moreover have "handles hp' r = None" using assms(2) m(3) other [of r] by (auto simp: hp'_def)
  ultimately have "view_list hp' r (a # hs)" using assms(2) by (auto simp: view_list_def)
  moreover have "map_option no_links (handles hp' x) = map_option no_links (handles hp x)" if "x \<noteq> a" for x
    using that other [of x] by (auto simp: hp'_def)
  moreover have "map_option no_link (roots hp' x) = map_option no_link (roots hp x)" for x
    using m by (simp add: hp'_def)
  moreover have "handles hp' a = Some ha" by (simp add: hp'_def)
  ultimately show thesis using that run unfolding ha_def by blast
qed

lemma unlink_handle_view:
  assumes "view_list hp r (xs @ a # ys)" and "handles hp a = Some h"
  obtains hp' where "unlink_handle h hp = Some hp'" and "view_list hp' r (xs @ ys)" and "handles hp' a = Some h"
    and "dm_hprev h = last (r # xs)" and "dm_hnext h = first_of ys"
    and "\<And>x. map_option no_links (handles hp' x) = map_option no_links (handles hp x)"
    and "\<And>x. map_option no_link (roots hp' x) = map_option no_link (roots hp x)"
proof -
  define p where "p = last (r # xs)"
  have s: "seg (node_hnext hp) (node_hprev hp) r (xs @ a # ys)" and r: "handles hp r = None"
    and d: "distinct (r # xs @ a # ys)" using assms(1) by (simp_all add: view_list_def)
  have h: "dm_hprev h = p" "dm_hnext h = first_of ys"
    using seg_middle [OF s] assms(2) by (auto simp: node_hnext_def node_hprev_def p_def)
  have p: "p \<in> set (r # xs)" unfolding p_def by (rule last_in_set) simp
  with d have pa: "p \<noteq> a" "p \<notin> set ys" by auto
  obtain m where m: "roots hp r = Some m" using view_list_root [OF assms(1)] by blast
  obtain hp1 where hp1: "set_hnext p (first_of ys) hp = Some hp1"
      "\<And>x. node_hnext hp1 x = (if x = p then Some (first_of ys) else node_hnext hp x)"
      "\<And>x. node_hprev hp1 x = node_hprev hp x" "\<And>x. x \<noteq> p \<Longrightarrow> handles hp1 x = handles hp x" "handles hp1 r = None"
      "\<And>x. map_option no_links (handles hp1 x) = map_option no_links (handles hp x)"
      "\<And>x. map_option no_link (roots hp1 x) = map_option no_link (roots hp x)"
  proof (cases "handles hp p")
    case None
    have "p = r"
    proof (rule ccontr)
      assume "p \<noteq> r"
      with p obtain us vs where "xs = us @ p # vs" by (auto simp: in_set_conv_decomp)
      with s have "\<exists>h. handles hp p = Some h" using seg_handle [of _ hp r us p "vs @ a # ys"] by simp
      with None show False by simp
    qed
    with None m r show thesis
      by (intro that [of "put_root r (m\<lparr>mr_hnext := first_of ys\<rparr>) hp"])
        (auto simp: set_hnext_def node_hnext_def node_hprev_def split: option.splits)
  next
    case (Some hb)
    with r show thesis
      by (intro that [of "put_handle p (hb\<lparr>dm_hnext := first_of ys\<rparr>) hp"])
        (auto simp: set_hnext_def node_hnext_def node_hprev_def split: option.splits)
  qed
  have s1: "seg (node_hnext hp') (node_hprev hp') r (xs @ ys)"
    if "\<And>x. node_hnext hp' x = node_hnext hp1 x" "\<And>x. x \<in> set xs \<union> set (tl ys) \<Longrightarrow> node_hprev hp' x = node_hprev hp1 x"
      "ys \<noteq> [] \<Longrightarrow> node_hprev hp' (hd ys) = Some p" for hp'
    by (rule seg_remove [OF s d, folded p_def]) (use that hp1(2,3) in auto)
  have d': "distinct (r # xs @ ys)" using d by auto
  show thesis
  proof (cases ys)
    case Nil
    have "unlink_handle h hp = Some hp1" using h hp1(1) Nil by (simp add: unlink_handle_def)
    moreover have "view_list hp1 r (xs @ ys)" using s1 [of hp1] hp1(5) d' Nil by (simp add: view_list_def)
    moreover have "handles hp1 a = Some h" using hp1(4) [of a] pa assms(2) by simp
    ultimately show thesis using that hp1(6,7) h unfolding p_def by blast
  next
    case (Cons b bs)
    with s obtain hb where hb: "handles hp b = Some hb" using seg_handle [of _ hp r "xs @ [a]" b bs] by auto
    have b: "b \<noteq> 0" "b \<noteq> p" "b \<noteq> a" "b \<noteq> r" using seg_nonzero [OF s] Cons pa d by auto
    define hp2 where "hp2 = put_handle b (hb\<lparr>dm_hprev := p\<rparr>) hp1"
    have hb1: "handles hp1 b = Some hb" using hp1(4) hb b by simp
    have "unlink_handle h hp = Some hp2" using h hp1(1) Cons b hb1 by (simp add: unlink_handle_def set_hprev_def hp2_def)
    moreover have "seg (node_hnext hp2) (node_hprev hp2) r (xs @ ys)"
      by (rule s1) (use d Cons b hb1 in \<open>auto simp: hp2_def node_hnext_def node_hprev_def split: option.splits\<close>)
    then have "view_list hp2 r (xs @ ys)" using hp1(5) d' b by (auto simp: view_list_def hp2_def)
    moreover have "handles hp2 a = Some h" using hp1(4) [of a] pa assms(2) b by (simp add: hp2_def)
    moreover have "map_option no_links (handles hp2 x) = map_option no_links (handles hp x)" for x
      using hp1(6) [of x] hb1 hb by (simp add: hp2_def)
    moreover have "map_option no_link (roots hp2 x) = map_option no_link (roots hp x)" for x
      using hp1(7) by (simp add: hp2_def)
    ultimately show thesis using that h unfolding p_def by blast
  qed
qed

subsection \<open>The list of the target\<close>

text \<open>Target memory after a sequence of calls; what was there at first is \<open>m\<close>.\<close>

definition store_at :: "u32 \<Rightarrow> u8 list \<Rightarrow> (u32 \<Rightarrow> u8) \<Rightarrow> u32 \<Rightarrow> u8" where
  "store_at a bs m = (\<lambda>x. if unat (x - a) < length bs then bs ! unat (x - a) else m x)"

definition target_step :: "(u32 \<Rightarrow> u8) \<Rightarrow> io_event \<Rightarrow> u32 \<Rightarrow> u8" where
  "target_step m e = (case e of Writemem a bs \<Rightarrow> store_at a bs m | Fillmem a n v \<Rightarrow> store_at a (replicate (unat n) v) m | _ \<Rightarrow> m)"

definition target :: "(u32 \<Rightarrow> u8) \<Rightarrow> io_event list \<Rightarrow> u32 \<Rightarrow> u8" where
  "target m es = foldl target_step m es"

definition load_at :: "(u32 \<Rightarrow> u8) \<Rightarrow> u32 \<Rightarrow> nat \<Rightarrow> u8 list" where
  "load_at m a n = map (\<lambda>k. m (a + of_nat k)) [0 ..< n]"

definition area :: "u32 \<Rightarrow> nat \<Rightarrow> u32 set" where
  "area a n = (\<lambda>k. a + of_nat k) ` {..< n}"

lemma target_append: "target m (es @ fs) = target (target m es) fs"
  by (simp add: target_def)

lemma target_steps [simp]:
  "target m [] = m" "target m (Writemem a bs # fs) = target (store_at a bs m) fs" "target m (Connect # fs) = target m fs"
  "target m (Release # fs) = target m fs" "target m (Target_deallocate i # fs) = target m fs" "target m (Target_allocate i n # fs) = target m fs"
  "target m (Host_deallocate b # fs) = target m fs" "target m (Host_allocate b n32 ok # fs) = target m fs"
  by (simp_all add: target_def target_step_def)

lemma target_deallocates [simp]: "target m (map (\<lambda>a. Target_deallocate (g a)) xs) = m"
  by (induction xs) simp_all

lemma load_at_store: "n \<le> length bs \<Longrightarrow> length bs < 2 ^ 32 \<Longrightarrow> load_at (store_at a bs m) a n = take n bs"
  by (rule nth_equalityI) (auto simp: load_at_def store_at_def unat_of_nat)

lemma load_at_elsewhere:
  assumes "area d k \<inter> area a n = {}" and "length bs \<le> n"
  shows "load_at (store_at a bs m) d k = load_at m d k"
proof -
  have "store_at a bs m x = m x" if "x \<in> area d k" for x
  proof (cases "unat (x - a) < length bs")
    case True
    then have "x \<in> area a n" using assms(2) unfolding area_def
      by (intro image_eqI [of _ _ "unat (x - a)"]) (simp_all)
    with that assms(1) show ?thesis by blast
  qed (simp add: store_at_def)
  then show ?thesis by (simp add: load_at_def area_def)
qed

lemma area_part: "i + k \<le> n \<Longrightarrow> area (a + of_nat i) k \<subseteq> area a n"
proof
  fix x assume "i + k \<le> n" and "x \<in> area (a + of_nat i) k"
  then obtain j where "x = a + of_nat (i + j)" "i + j < n" by (auto simp: area_def add.assoc)
  then show "x \<in> area a n" unfolding area_def by blast
qed

lemma area_mono: "k \<le> n \<Longrightarrow> area a k \<subseteq> area a n"
  by (auto simp: area_def)

text \<open>
  A record is its address and its size; the header counts as a record of size 8. Every record
  starts with the address and the size of the next one.
\<close>

type_synonym view_entry = "u32 \<times> nat"

definition next_link :: "view_entry list \<Rightarrow> u8 list" where
  "next_link rs = (case rs of [] \<Rightarrow> link_bytes 0 0 | (d, n) # _ \<Rightarrow> link_bytes d (of_nat n))"

fun shown :: "(u32 \<Rightarrow> u8) \<Rightarrow> view_entry list \<Rightarrow> bool" where
  "shown m [] \<longleftrightarrow> True"
| "shown m ((d, n) # rs) \<longleftrightarrow> load_at m d 6 = next_link rs \<and> shown m rs"

definition apart :: "view_entry list \<Rightarrow> bool" where
  "apart rs \<longleftrightarrow> sorted_wrt (\<lambda>(a, n) (b, k). area a n \<inter> area b k = {}) rs \<and> (\<forall>(a, n) \<in> set rs. 8 \<le> n)"

lemma length_link [simp]: "length (link_bytes d n) = 6"
  by (simp add: link_bytes_def bytes_of_half_def bytes_of_word_def)

lemma length_next_link [simp]: "length (next_link rs) = 6"
  by (simp add: next_link_def split: list.splits prod.splits)

lemma shown_store:
  "shown m rs \<Longrightarrow> (\<And>d n. (d, n) \<in> set rs \<Longrightarrow> area d 6 \<inter> area a k = {}) \<Longrightarrow> length bs \<le> k \<Longrightarrow> shown (store_at a bs m) rs"
proof (induction rs)
  case (Cons x rs)
  obtain d n where x: "x = (d, n)" by (cases x)
  with Cons.prems(2) [of d n] have "load_at (store_at a bs m) d 6 = load_at m d 6"
    by (intro load_at_elsewhere [OF _ Cons.prems(3)]) simp
  moreover have "shown (store_at a bs m) rs" by (rule Cons.IH) (use Cons.prems x in auto)
  ultimately show ?case using Cons.prems(1) x by simp
qed simp

lemma apart_away:
  assumes "apart (xs @ (a, n) # ys)" and "(d, k) \<in> set xs \<union> set ys"
  shows "area d 6 \<inter> area a n = {}"
proof -
  have "8 \<le> k" using assms by (auto simp: apart_def)
  then have "area d 6 \<subseteq> area d k" by (intro area_mono) simp
  moreover have "area d k \<inter> area a n = {}" using assms by (auto simp: apart_def sorted_wrt_append)
  ultimately show ?thesis by blast
qed

lemma apart_remove: "apart (xs @ r # ys) \<Longrightarrow> apart (xs @ ys)"
  by (auto simp: apart_def sorted_wrt_append)

text \<open>Changing the link of one record.\<close>

lemma shown_relink:
  assumes "shown m (xs @ (p, n) # zs)" and "shown m ys" and "apart (xs @ (p, n) # ys)"
    and "\<And>d k. (d, k) \<in> set ys \<Longrightarrow> area d 6 \<inter> area p n = {}"
  shows "shown (store_at p (next_link ys) m) (xs @ (p, n) # ys)"
  using assms(1,3)
proof (induction xs)
  case Nil
  have n: "6 \<le> n" using Nil by (auto simp: apart_def)
  have "load_at (store_at p (next_link ys) m) p 6 = next_link ys" by (simp add: load_at_store)
  moreover have "shown (store_at p (next_link ys) m) ys" by (rule shown_store [OF assms(2) assms(4)]) (use n in auto)
  ultimately show ?case by simp
next
  case (Cons x xs)
  obtain d k where x: "x = (d, k)" by (cases x)
  have n: "8 \<le> n" using Cons.prems(2) by (auto simp: apart_def)
  have "area d 6 \<inter> area p n = {}" using apart_away [OF Cons.prems(2), of d k] x by simp
  then have "load_at (store_at p (next_link ys) m) d 6 = load_at m d 6" using n by (intro load_at_elsewhere) auto
  moreover have "next_link (xs @ (p, n) # zs) = next_link (xs @ (p, n) # ys)" by (cases xs) (simp_all add: next_link_def)
  moreover have "apart (xs @ (p, n) # ys)" using apart_remove [of "[]" x "xs @ (p, n) # ys"] Cons.prems(2) by simp
  ultimately show ?case using Cons x by simp
qed

subsection \<open>Both lists\<close>

definition view_rec :: "dl_heap \<Rightarrow> u32 \<Rightarrow> view_entry" where
  "view_rec hp x = (case handles hp x of
       Some h \<Rightarrow> (dm_dbthis h, unat (dm_dbsiz h))
     | None \<Rightarrow> (case roots hp x of Some m \<Rightarrow> (mr_dbthis m, 8) | None \<Rightarrow> (0, 0)))"

text \<open>The modules \<open>hs\<close>, the newest first, are listed from the root \<open>r\<close>, on the host and in the memory \<open>m\<close> of the target.\<close>

definition dllview :: "dl_heap \<Rightarrow> (u32 \<Rightarrow> u8) \<Rightarrow> u32 \<Rightarrow> u32 list \<Rightarrow> bool" where
  "dllview hp m r hs \<longleftrightarrow> view_list hp r hs \<and> shown m (map (view_rec hp) (r # hs)) \<and> apart (map (view_rec hp) (r # hs))"

lemma view_rec_alt:
  "view_rec hp x = (case map_option no_links (handles hp x) of
       Some h \<Rightarrow> (dm_dbthis h, unat (dm_dbsiz h))
     | None \<Rightarrow> (case map_option no_link (roots hp x) of Some m \<Rightarrow> (mr_dbthis m, 8) | None \<Rightarrow> (0, 0)))"
  by (simp add: view_rec_def no_links_def no_link_def split: option.splits)

lemma view_rec_same:
  assumes "map_option no_links (handles hp' x) = map_option no_links (handles hp x)"
    and "map_option no_link (roots hp' x) = map_option no_link (roots hp x)"
  shows "view_rec hp' x = view_rec hp x"
  unfolding view_rec_alt assms ..

lemma node_dbthis_rec: "handles hp x \<noteq> None \<or> roots hp x \<noteq> None \<Longrightarrow> node_dbthis hp x = Some (fst (view_rec hp x))"
  by (auto simp: node_dbthis_def view_rec_def split: option.splits)

text \<open>Changes of the heap that leave the list alone.\<close>

lemma view_list_same:
  assumes "view_list hp r hs" and "\<And>x. x \<in> set hs \<Longrightarrow> handles hp' x = handles hp x" and "handles hp' r = None"
    and "map_option mr_hnext (roots hp' r) = map_option mr_hnext (roots hp r)"
  shows "view_list hp' r hs"
proof -
  have s: "seg (node_hnext hp) (node_hprev hp) r hs" and r: "handles hp r = None" "distinct (r # hs)"
    using assms(1) by (simp_all add: view_list_def)
  have "handles hp x \<noteq> None" if "x \<in> set hs" for x
  proof -
    from that obtain xs ys where "hs = xs @ x # ys" by (auto simp: in_set_conv_decomp)
    with s have "\<exists>h. handles hp x = Some h" by (blast intro: seg_handle)
    then show ?thesis by simp
  qed
  note node = this
  have "node_hnext hp' x = node_hnext hp x" if "x \<in> set hs" for x
    using node [OF that] assms(2) [OF that] by (auto simp: node_hnext_def)
  moreover have "node_hnext hp' r = node_hnext hp r" using assms(3,4) r by (simp add: node_hnext_def)
  ultimately have "seg (node_hnext hp') (node_hprev hp') r hs"
    by (intro seg_cong [OF s]) (auto simp: node_hprev_def assms(2))
  with assms r show ?thesis by (simp add: view_list_def)
qed

lemma dllview_same:
  assumes "dllview hp m r hs" and "\<And>x. x \<in> set hs \<Longrightarrow> handles hp' x = handles hp x" and "handles hp' r = None"
    and "map_option (\<lambda>x. (mr_hnext x, mr_dbthis x)) (roots hp' r) = map_option (\<lambda>x. (mr_hnext x, mr_dbthis x)) (roots hp r)"
  shows "dllview hp' m r hs"
proof -
  have v: "view_list hp r hs" using assms(1) by (simp add: dllview_def)
  have "view_list hp' r hs"
  proof (rule view_list_same [OF v assms(2,3)])
    show "map_option mr_hnext (roots hp' r) = map_option mr_hnext (roots hp r)"
      using assms(4) by (cases "roots hp' r"; cases "roots hp r") simp_all
  qed
  moreover have "view_rec hp' x = view_rec hp x" if x: "x \<in> set hs" for x
  proof -
    from x obtain xs ys where "hs = xs @ x # ys" by (auto simp: in_set_conv_decomp)
    with v have "\<exists>h. handles hp x = Some h" by (auto simp: view_list_def intro: seg_handle)
    with assms(2) [OF x] show ?thesis by (auto simp: view_rec_def)
  qed
  moreover have "view_rec hp' r = view_rec hp r"
    using v assms(3,4) by (cases "roots hp' r"; cases "roots hp r") (simp_all add: view_rec_def view_list_def)
  ultimately have "map (view_rec hp') (r # hs) = map (view_rec hp) (r # hs)" and "view_list hp' r hs" by simp_all
  with assms(1) show ?thesis by (simp only: dllview_def)
qed

lemma dllview_insert:
  assumes "dllview hp m r hs" and "distinct (a # r # hs)" and "a \<noteq> 0" and "roots hp r = Some mlist"
    and "apart ((mr_dbthis mlist, 8) # (dm_dbthis h, unat (dm_dbsiz h)) # map (view_rec hp) hs)"
    and "length bs = unat (dm_dbsiz h)" and "take 6 bs = next_link (map (view_rec hp) hs)"
  obtains hp' where "link_handle a h r hp = Some hp'"
    and "dllview hp' (store_at (mr_dbthis mlist) (link_bytes (dm_dbthis h) (dm_dbsiz h)) (store_at (dm_dbthis h) bs m)) r (a # hs)"
proof -
  let ?new = "(dm_dbthis h, unat (dm_dbsiz h))" and ?root = "(mr_dbthis mlist, 8 :: nat)" and ?rs = "map (view_rec hp) hs"
  have v: "view_list hp r hs" using assms(1) by (simp add: dllview_def)
  then have r: "handles hp r = None" by (simp add: view_list_def)
  obtain hp' where hp': "link_handle a h r hp = Some hp'" "view_list hp' r (a # hs)" "handles hp' a = Some (h\<lparr>dm_hnext := first_of hs, dm_hprev := r\<rparr>)"
      "\<And>x. x \<noteq> a \<Longrightarrow> map_option no_links (handles hp' x) = map_option no_links (handles hp x)"
      "\<And>x. map_option no_link (roots hp' x) = map_option no_link (roots hp x)"
    using link_handle_view [OF v assms(2,3)] by blast
  have rec: "view_rec hp' x = view_rec hp x" if "x \<noteq> a" for x using hp'(4) [OF that] hp'(5) by (rule view_rec_same)
  have recs: "map (view_rec hp') (r # a # hs) = ?root # ?new # ?rs"
  proof -
    have "view_rec hp' a = ?new" using hp'(3) by (simp add: view_rec_def)
    moreover have "r \<noteq> a" using assms(2) by auto
    then have "view_rec hp' r = ?root" using rec [of r] assms(4) r by (simp add: view_rec_def)
    moreover have "map (view_rec hp') hs = ?rs" by (intro map_cong refl rec) (use assms(2) in auto)
    ultimately show ?thesis by simp
  qed
  define m1 where "m1 = store_at (dm_dbthis h) bs m"
  have sh: "shown m (?root # ?rs)" using assms(1,4) r by (simp add: dllview_def view_rec_def)
  have "area d 6 \<inter> area (dm_dbthis h) (unat (dm_dbsiz h)) = {}" if "(d, n) \<in> set (?root # ?rs)" for d n
    using apart_away [of "[?root]" "dm_dbthis h" "unat (dm_dbsiz h)" ?rs d n] assms(5) that by auto
  then have s1: "shown m1 (?root # ?rs)" unfolding m1_def by (rule shown_store [OF sh]) (use assms(6) in simp_all)
  have n: "8 \<le> unat (dm_dbsiz h)" using assms(5) by (auto simp: apart_def)
  have "length bs < 2 ^ 32" using assms(6) unsigned_less [of "dm_dbsiz h", where ?'a = nat] by simp
  then have "load_at m1 (dm_dbthis h) 6 = take 6 bs" unfolding m1_def using n assms(6) by (intro load_at_store) simp_all
  with s1 assms(7) have s2: "shown m1 (?new # ?rs)" by simp
  have "area d 6 \<inter> area (mr_dbthis mlist) 8 = {}" if "(d, n) \<in> set (?new # ?rs)" for d n
    using apart_away [of "[]" "mr_dbthis mlist" 8 "?new # ?rs" d n] assms(5) that by auto
  then have "shown (store_at (mr_dbthis mlist) (next_link (?new # ?rs)) m1) (?root # ?new # ?rs)"
    using shown_relink [of m1 "[]" "mr_dbthis mlist" 8 ?rs "?new # ?rs"] s1 s2 assms(5) by simp
  then have "dllview hp' (store_at (mr_dbthis mlist) (link_bytes (dm_dbthis h) (dm_dbsiz h)) m1) r (a # hs)"
    unfolding dllview_def recs using hp'(2) assms(5) by (simp add: next_link_def)
  with hp'(1) that show thesis unfolding m1_def by blast
qed

lemma dllview_remove:
  assumes "dllview hp m r (xs @ a # ys)" and "handles hp a = Some h"
  obtains hp' where "unlink_handle h hp = Some hp'" and "dm_hprev h = last (r # xs)" and "dm_hnext h = first_of ys" and "handles hp' a = Some h"
    and "dllview hp' (store_at (fst (view_rec hp (last (r # xs)))) (next_link (map (view_rec hp) ys)) m) r (xs @ ys)"
    and "\<And>x. view_rec hp' x = view_rec hp x" and "\<And>x. map_option no_link (roots hp' x) = map_option no_link (roots hp x)"
proof -
  have v: "view_list hp r (xs @ a # ys)" using assms(1) by (simp add: dllview_def)
  obtain hp' where hp': "unlink_handle h hp = Some hp'" "view_list hp' r (xs @ ys)" "handles hp' a = Some h"
      "dm_hprev h = last (r # xs)" "dm_hnext h = first_of ys"
      "\<And>x. map_option no_links (handles hp' x) = map_option no_links (handles hp x)"
      "\<And>x. map_option no_link (roots hp' x) = map_option no_link (roots hp x)"
    using unlink_handle_view [OF v assms(2)] by metis
  have rec: "view_rec hp' x = view_rec hp x" for x using hp'(6,7) by (rule view_rec_same)
  define us where "us = butlast (r # xs)"
  define p where "p = last (r # xs)"
  obtain pd pn where pr: "view_rec hp p = (pd, pn)" by fastforce
  have rx: "r # xs = us @ [p]" unfolding us_def p_def by (rule append_butlast_last_id [symmetric]) simp
  have old: "map (view_rec hp) (r # xs @ a # ys) = map (view_rec hp) us @ (pd, pn) # view_rec hp a # map (view_rec hp) ys"
  proof -
    have "r # xs @ a # ys = us @ p # a # ys" using rx by (metis append_Cons append_assoc append_Nil)
    then show ?thesis by (simp only: map_append list.map pr)
  qed
  have new: "map (view_rec hp') (r # xs @ ys) = map (view_rec hp) us @ (pd, pn) # map (view_rec hp) ys"
  proof -
    have "r # xs @ ys = us @ p # ys" using rx by (metis append_Cons append_assoc append_Nil)
    then show ?thesis by (simp only: map_append list.map pr ext [of "view_rec hp'" "view_rec hp", OF rec])
  qed
  have sh: "shown m (map (view_rec hp) us @ (pd, pn) # view_rec hp a # map (view_rec hp) ys)"
    and ap: "apart (map (view_rec hp) us @ (pd, pn) # view_rec hp a # map (view_rec hp) ys)"
    using assms(1) unfolding dllview_def old by blast+
  have suffix: "shown m qs" if "shown m (ps @ qs)" for ps qs using that by (induction ps) auto
  have ap': "apart (map (view_rec hp) us @ (pd, pn) # map (view_rec hp) ys)"
    using apart_remove [of "map (view_rec hp) us @ [(pd, pn)]" "view_rec hp a" "map (view_rec hp) ys"] ap by simp
  have "shown (store_at pd (next_link (map (view_rec hp) ys)) m) (map (view_rec hp) us @ (pd, pn) # map (view_rec hp) ys)"
  proof (rule shown_relink [OF sh _ ap'])
    show "shown m (map (view_rec hp) ys)"
      using suffix [of "map (view_rec hp) us @ [(pd, pn), view_rec hp a]"] sh by simp
    show "area d 6 \<inter> area pd pn = {}" if "(d, k) \<in> set (map (view_rec hp) ys)" for d k
      using apart_away [OF ap', of d k] that by auto
  qed
  then have "dllview hp' (store_at pd (next_link (map (view_rec hp) ys)) m) r (xs @ ys)"
    unfolding dllview_def new using hp'(2) ap' by simp
  with that hp' rec pr show thesis unfolding p_def by simp
qed

text \<open>The counter in the header is not part of a link.\<close>

lemma dllview_counter:
  assumes "dllview hp m r hs" and "length bs = 2" and "roots hp r = Some root"
  shows "dllview hp (store_at (mr_dbthis root + 6) bs m) r hs"
proof -
  let ?d = "mr_dbthis root"
  have r: "view_rec hp r = (?d, 8)" using assms(1,3) by (simp add: dllview_def view_list_def view_rec_def)
  have ap: "apart ((?d, 8) # map (view_rec hp) hs)" using assms(1) r by (simp add: dllview_def)
  have own: "area ?d 6 \<inter> area (?d + 6) 2 = {}"
  proof (rule ccontr)
    assume "area ?d 6 \<inter> area (?d + 6) 2 \<noteq> {}"
    then obtain i j :: nat where "?d + of_nat i = ?d + 6 + of_nat j" and ij: "i < 6" "j < 2" by (auto simp: area_def)
    then have "(of_nat i :: u32) = of_nat (6 + j)" by (simp add: algebra_simps)
    then have "unat (of_nat i :: u32) = unat (of_nat (6 + j) :: u32)" by (rule arg_cong)
    then have "i = 6 + j" using ij by (simp only: unat_of_nat) simp
    with ij show False by simp
  qed
  have "area d 6 \<inter> area (?d + 6) 2 = {}" if "(d, n) \<in> set (map (view_rec hp) (r # hs))" for d n
  proof (cases "(d, n) \<in> set (map (view_rec hp) hs)")
    case True
    then have "area d 6 \<inter> area ?d 8 = {}" using apart_away [of "[]" ?d 8 "map (view_rec hp) hs" d n] ap by simp
    then show ?thesis using area_part [of 6 2 8 ?d] by auto
  next
    case False
    then show ?thesis using that r own by simp
  qed
  then show ?thesis
    using assms(1) shown_store [of m "map (view_rec hp) (r # hs)" "?d + 6" 2 bs] assms(2) by (simp only: dllview_def)
qed

subsection \<open>Loading enters a module\<close>

lemma take_link: "take 6 (link_bytes d n @ rest) = link_bytes d n"
  by simp

lemma view_record_link:
  assumes "view_record hp s mlist = Some (bs, n)" and "dllview hp m r hs" and "roots hp r = Some mlist"
  shows "take 6 bs = next_link (map (view_rec hp) hs)" and "n = of_nat (length bs)"
proof -
  have f: "mr_hnext mlist = first_of hs" using assms(2,3) by (auto simp: dllview_def elim: view_list_root)
  have s: "seg (node_hnext hp) (node_hprev hp) r hs" using assms(2) by (simp add: dllview_def view_list_def)
  obtain nx nn ns ts as names where bs: "bs = dll_module nx nn ns ts as names" and n: "n = of_nat (length bs)"
    and nx: "(if mr_hnext mlist \<noteq> 0 then do { h \<leftarrow> handles hp (mr_hnext mlist); Some (dm_dbthis h, dm_dbsiz h) } else Some (0, 0)) = Some (nx, nn)"
    using assms(1) by (auto simp: view_record_def Let_def elim!: bindE split: prod.splits)
  have "link_bytes nx nn = next_link (map (view_rec hp) hs)"
  proof (cases hs)
    case Nil
    with f nx show ?thesis by (simp add: next_link_def)
  next
    case (Cons b bs')
    with s obtain hb where "handles hp b = Some hb" using seg_handle [of _ hp r "[]" b bs'] by auto
    moreover have "b \<noteq> 0" using s Cons by simp
    ultimately show ?thesis using f nx Cons by (simp add: next_link_def view_rec_def)
  qed
  then show "take 6 bs = next_link (map (view_rec hp) hs)" unfolding bs dll_module_def by simp
  show "n = of_nat (length bs)" by (rule n)
qed

lemma dllview_put_handle:
  assumes "dllview hp m r hs" and "a \<notin> set (r # hs)"
  shows "dllview (put_handle a h hp) m r hs" and "map (view_rec (put_handle a h hp)) hs = map (view_rec hp) hs"
proof -
  show "dllview (put_handle a h hp) m r hs"
    by (rule dllview_same [OF assms(1)]) (use assms in \<open>auto simp: dllview_def view_list_def\<close>)
  show "map (view_rec (put_handle a h hp)) hs = map (view_rec hp) hs"
    using assms(2) by (auto simp: view_rec_def split: option.splits)
qed

lemma dllview_put_root:
  assumes "dllview hp m r hs" and "roots hp r = Some root" and "mr_hnext root' = mr_hnext root" and "mr_dbthis root' = mr_dbthis root"
  shows "dllview (put_root r root' hp) m r hs" and "map (view_rec (put_root r root' hp)) hs = map (view_rec hp) hs"
proof -
  have v: "view_list hp r hs" using assms(1) by (simp add: dllview_def)
  show "dllview (put_root r root' hp) m r hs"
    by (rule dllview_same [OF assms(1)]) (use assms v in \<open>auto simp: view_list_def\<close>)
  have "x \<noteq> r" if "x \<in> set hs" for x using that v by (auto simp: view_list_def)
  then show "map (view_rec (put_root r root' hp)) hs = map (view_rec hp) hs" by (auto simp: view_rec_def split: option.splits)
qed

definition view_info :: "u16 \<Rightarrow> LDR_SECTION_INFO" where
  "view_info dbsiz = DLLVIEW_INFO_INIT\<lparr>li_size := ucast dbsiz, li_context := 0\<rparr>"

text \<open>
  C24: When the root of the list is known, the target grants memory apart from the records in the list
  and takes the writes, and the record fits 16 bits, the module becomes the first of the list,
  for the host and for a debugger that follows the addresses in target memory, and its record
  holds the addresses of its sections and its names.
\<close>

theorem init_module_handle_enters:
  assumes a: "myhandle s = a" "a \<noteq> 0" "dload_errcount s = 0" "0 < allocated_secn_count s" "myalloc s"
    and root: "DLsym_Find_Matching_Symbol (mysym s) LOADER_DLLVIEW_ROOT = Some (t, Some r)" "r \<noteq> 0" "roots hp r = Some mlist"
    and list: "dllview hp (target m (calls s)) r hs" "distinct (a # r # hs)"
    and bs: "view_record hp s mlist = Some (bs, dbsiz)" "length bs < 2 ^ 16"
    and al: "tgt_allocate env (calls s) (view_info dbsiz) 4 = Some (run, load, ctx)"
      "apart ((mr_dbthis mlist, 8) # (load, length bs) # map (view_rec hp) hs)"
    and wr: "\<And>es. io_writemem env es"
  shows "\<exists>hp' s'. init_module_handle env hp s = Some (hp', s') \<and> dllview hp' (target m (calls s')) r (a # hs)
    \<and> load_at (target m (calls s')) load (length bs) = bs"
proof -
  have dbsiz: "unat dbsiz = length bs" using view_record_link(2) [OF bs(1) list(1) root(3)] bs(2) by (simp add: unat_of_nat)
  define s1 where "s1 = s\<lparr>mysym := t\<rparr>"
  define h2 where "h2 = (fresh_handle s)\<lparr>dm_hroot := r, dm_dbsiz := dbsiz, dm_context := 0\<rparr>"
  define h3 where "h3 = h2\<lparr>dm_dbthis := load, dm_context := ctx\<rparr>"
  define mlist1 where "mlist1 = mlist\<lparr>mr_refcount := mr_refcount mlist + 1\<rparr>"
  define hp3 where "hp3 = put_handle a ((fresh_handle s)\<lparr>dm_hroot := r\<rparr>) (put_handle a (fresh_handle s) hp)"
  define hp4 where "hp4 = put_root r mlist1 (put_handle a h3 hp3)"
  have hp3: "roots hp3 r = Some mlist" "view_record hp3 s1 mlist = Some (bs, dbsiz)"
  proof -
    have "mr_hnext mlist \<noteq> a" using list a(2) root(3) by (cases hs) (auto simp: dllview_def elim!: view_list_root)
    then have "view_record hp3 s1 mlist = view_record hp s mlist" by (simp add: view_record_def hp3_def s1_def)
    with bs show "view_record hp3 s1 mlist = Some (bs, dbsiz)" by simp
  qed (use root(3) in \<open>simp add: hp3_def\<close>)
  have v3: "dllview (put_handle a h3 hp3) (target m (calls s)) r hs" "map (view_rec (put_handle a h3 hp3)) hs = map (view_rec hp) hs"
    using dllview_put_handle [OF list(1), of a] list(2) by (simp_all add: hp3_def)
  have v4: "dllview hp4 (target m (calls s)) r hs" "map (view_rec hp4) hs = map (view_rec hp) hs" "roots hp4 r = Some mlist1"
    unfolding hp4_def using dllview_put_root [OF v3(1), of mlist mlist1] v3(2) hp3(1) by (simp_all add: mlist1_def)
  obtain hp5 where hp5: "link_handle a h3 r hp4 = Some hp5"
      "dllview hp5 (store_at (mr_dbthis mlist1) (link_bytes (dm_dbthis h3) (dm_dbsiz h3)) (store_at (dm_dbthis h3) bs (target m (calls s)))) r (a # hs)"
  proof (rule dllview_insert [OF v4(1) list(2) a(2) v4(3)])
    show "apart ((mr_dbthis mlist1, 8) # (dm_dbthis h3, unat (dm_dbsiz h3)) # map (view_rec hp4) hs)"
      using al(2) by (simp add: h3_def h2_def mlist1_def v4(2) dbsiz)
    show "length bs = unat (dm_dbsiz h3)" using dbsiz by (simp add: h3_def h2_def)
    show "take 6 bs = next_link (map (view_rec hp4) hs)" using view_record_link(1) [OF bs(1) list(1) root(3)] by (simp add: v4(2))
  qed
  define s' where "s' = s1\<lparr>calls := calls s @ [Target_allocate (view_info dbsiz) 4, Writemem load bs, Writemem (mr_dbthis mlist) (link_bytes load dbsiz)]\<rparr>"
  have "init_module_handle env hp s = Some (hp5, s')"
    unfolding init_module_handle_def Let_def
    using a root(1,2) hp3 al(1) [unfolded view_info_def] wr dbsiz hp5(1)
    by (simp add: view_root_def Let_def writemem_def s'_def s1_def hp4_def h3_def h2_def mlist1_def hp3_def view_info_def)
  moreover have tm: "target m (calls s') = store_at (mr_dbthis mlist) (link_bytes load dbsiz) (store_at load bs (target m (calls s)))"
    by (simp add: s'_def target_append)
  moreover have "load_at (store_at (mr_dbthis mlist) (link_bytes load dbsiz) (store_at load bs (target m (calls s)))) load (length bs) = bs"
  proof -
    have "area load (length bs) \<inter> area (mr_dbthis mlist) 8 = {}" using al(2) by (auto simp: apart_def)
    then have "load_at (store_at (mr_dbthis mlist) (link_bytes load dbsiz) (store_at load bs (target m (calls s)))) load (length bs)
        = load_at (store_at load bs (target m (calls s))) load (length bs)" by (rule load_at_elsewhere) simp
    also have "\<dots> = bs" using bs(2) by (subst load_at_store) simp_all
    finally show ?thesis .
  qed
  ultimately show ?thesis using hp5(2) by (auto simp: h3_def h2_def mlist1_def)
qed

definition listed_start :: dload_state where
  "listed_start = (dload_clear \<lparr>filePointer = None, posn = 0\<rparr>
       (case DLsym_Add_To_Symbol_Table True empty_table LOADER_DLLVIEW_ROOT 0x900 0 of
          Some (t, _) \<Rightarrow> (case set_newest_value t 0x800 of Some t' \<Rightarrow> t' | None \<Rightarrow> t) | None \<Rightarrow> empty_table))
     \<lparr>myhandle := 0x1000, allocated_secn_count := 1, ldr_sections := [no_section\<lparr>load_addr := 0x4000, run_addr := 0x5000\<rparr>],
       local_symtab_p := True, str_head := Some [0x61, 0x62, 0, 0], debug_string_size := 3, myalloc := True, myio := True\<rparr>"

definition listed_heap :: dl_heap where
  "listed_heap = \<lparr>roots = (\<lambda>_. None)(0x800 \<mapsto> \<lparr>mr_dbthis = 0x100, mr_hnext = 0, mr_changes = 0, mr_refcount = 0\<rparr>), handles = (\<lambda>_. None)\<rparr>"

lemma listed_record:
  "view_record listed_heap listed_start \<lparr>mr_dbthis = 0x100, mr_hnext = 0, mr_changes = 0, mr_refcount = 0\<rparr>
     = Some ([0, 0, 0, 0, 0, 0, 1, 0, 0x79, 0, 1, 0, 0, 0, 0, 0, 0, 0x40, 0, 0, 0, 0x50, 0, 0, 0x61, 0x62, 0], 27)"
  by code_simp

lemma listed_root: "\<exists>t. DLsym_Find_Matching_Symbol (mysym listed_start) LOADER_DLLVIEW_ROOT = Some (t, Some 0x800)"
proof -
  have "map_option snd (DLsym_Find_Matching_Symbol (mysym listed_start) LOADER_DLLVIEW_ROOT) = Some (Some 0x800)" by code_simp
  then show ?thesis by auto
qed

lemma area_set: "area a n = set (map (\<lambda>k. a + of_nat k) [0 ..< n])"
  by (auto simp: area_def)

lemma areas_apart: "list_all (\<lambda>x. x \<notin> set ys) xs \<Longrightarrow> set xs \<inter> set ys = {}"
  by (auto simp: list_all_iff)

theorem init_module_handle_enters_witness:
  "\<exists>hp' s'. init_module_handle easy_env listed_heap listed_start = Some (hp', s') \<and> dllview hp' (target (\<lambda>_. 0) (calls s')) 0x800 [0x1000]
    \<and> load_at (target (\<lambda>_. 0) (calls s')) 0x8000 27
      = [0, 0, 0, 0, 0, 0, 1, 0, 0x79, 0, 1, 0, 0, 0, 0, 0, 0, 0x40, 0, 0, 0, 0x50, 0, 0, 0x61, 0x62, 0]"
proof -
  obtain t where t: "DLsym_Find_Matching_Symbol (mysym listed_start) LOADER_DLLVIEW_ROOT = Some (t, Some 0x800)"
    using listed_root by blast
  have s: "calls listed_start = []" "myhandle listed_start = 0x1000" "dload_errcount listed_start = 0" "0 < allocated_secn_count listed_start"
      "myalloc listed_start"
    by (simp_all add: listed_start_def dload_clear_def)
  have r: "roots listed_heap 0x800 = Some \<lparr>mr_dbthis = 0x100, mr_hnext = 0, mr_changes = 0, mr_refcount = 0\<rparr>" by (simp add: listed_heap_def)
  have "load_at (\<lambda>_. 0) 0x100 6 = link_bytes 0 0" by code_simp
  then have v: "dllview listed_heap (target (\<lambda>_. 0) (calls listed_start)) 0x800 []"
    using s by (simp add: dllview_def view_list_def node_hnext_def view_rec_def listed_heap_def apart_def next_link_def)
  have "area 0x100 8 \<inter> area 0x8000 27 = {}" unfolding area_set by (rule areas_apart) code_simp
  then have ap: "apart [(0x100, 8), (0x8000, 27)]" by (simp add: apart_def)
  have len: "length [0, 0, 0, 0, 0, 0, 1, 0, 0x79, 0, 1, 0, 0, 0, 0, 0, 0, 0x40, 0, 0, 0, 0x50, 0, 0, 0x61, 0x62, 0 :: u8] = 27" by simp
  show ?thesis
    using init_module_handle_enters [where env = easy_env and run = "0x8000" and load = "0x8000" and ctx = "0",
        OF s(2) _ s(3-5) t _ r v _ listed_record, unfolded len] ap
    by (simp add: easy_env_def)
qed

subsection \<open>Unloading takes a module out\<close>

lemma deallocate_sections_same:
  "deallocate_sections env h u = Some u' \<Longrightarrow> u_heap u' = u_heap u \<and> u_errcount u' = u_errcount u \<and> target m (u_calls u') = target m (u_calls u)"
  by (auto simp: deallocate_sections_def Let_def target_append split: if_splits)

lemma release_root_same:
  "release_root r u = Some u' \<Longrightarrow> roots (u_heap u') r \<noteq> None \<Longrightarrow>
     u_heap u' = u_heap u \<and> u_errcount u' = u_errcount u \<and> target m (u_calls u') = target m (u_calls u)"
  by (auto simp: release_root_def Let_def target_append elim!: bindE split: if_splits prod.splits)

lemma u_writemem_same [simp]:
  "u_heap (u_writemem env a bs u) = u_heap u" "u_calls (u_writemem env a bs u) = u_calls u @ [Writemem a bs]"
  "u_errcount u \<le> u_errcount (u_writemem env a bs u)"
  by (simp_all add: u_writemem_def Let_def)

lemma target_unlink_writes:
  assumes "target_unlink env h u = Some v" and "u_errcount v = 0" and "init_given env" and "\<not> bit (secn_count h) 0"
    and "dm_hnext h = first_of ys" and "\<And>b bs. ys = b # bs \<Longrightarrow> b \<noteq> 0 \<and> handles (u_heap u) b \<noteq> None" and "roots (u_heap u) (dm_hroot h) = Some root"
    and "node_dbthis (u_heap u) (dm_hprev h) = Some d"
  shows "u_heap v = put_root (dm_hroot h) (root\<lparr>mr_changes := mr_changes root + 1\<rparr>) (u_heap u)
    \<and> target m (u_calls v) = store_at (mr_dbthis root + 6) (bytes_of_half (mr_changes root + 1))
        (store_at d (next_link (map (view_rec (u_heap u)) ys)) (target m (u_calls u)))"
proof -
  let ?link = "\<lambda>f n. u_writemem env (mr_dbthis root + 6) (bytes_of_half (mr_changes root + 1))
      ((u_writemem env d (link_bytes f n) (ucall Connect u))\<lparr>u_heap := put_root (dm_hroot h) (root\<lparr>mr_changes := mr_changes root + 1\<rparr>) (u_heap u)\<rparr>)"
  obtain f n where fn: "(if dm_hnext h \<noteq> 0 then do { k \<leftarrow> handles (u_heap u) (dm_hnext h); Some (dm_dbthis k, dm_dbsiz k) } else Some (0, 0)) = Some (f, n)"
    using assms(1) by (auto simp: target_unlink_def elim!: bindE)
  have l: "link_bytes f n = next_link (map (view_rec (u_heap u)) ys)"
  proof (cases ys)
    case Nil
    with fn assms(5) show ?thesis by (simp add: next_link_def)
  next
    case (Cons b bs)
    with assms(6) [OF Cons] fn assms(5) show ?thesis by (auto simp: next_link_def view_rec_def)
  qed
  have c: "io_connect env (u_calls u @ [Connect])"
    using assms(1-3) fn by (auto simp: target_unlink_def Let_def split: if_splits)
  have "v = ucall Release (?link f n)"
    using assms(1,3,4,7,8) fn c by (simp add: target_unlink_def Let_def)
  then show ?thesis by (simp add: target_append l)
qed

lemma unload_view_removes:
  assumes list: "dllview (u_heap u) (target m (u_calls u)) r (xs @ a # ys)"
    and h: "handles (u_heap u) a = Some h" "dm_hroot h = r" "dm_dbthis h \<noteq> 0" "\<not> bit (secn_count h) 0"
    and run: "unload_view env a h u = Some v" "u_errcount v = 0" "init_given env"
  shows "dllview (u_heap v) (target m (u_calls v)) r (xs @ ys)
    \<and> (\<exists>root. roots (u_heap v) r = Some root \<and> load_at (target m (u_calls v)) (mr_dbthis root + 6) 2 = bytes_of_half (mr_changes root))"
proof -
  let ?p = "last (r # xs)"
  define T where "T = (\<lambda>root :: mirror_root. store_at (mr_dbthis root + 6) (bytes_of_half (mr_changes root + 1))
        (store_at (fst (view_rec (u_heap u) ?p)) (next_link (map (view_rec (u_heap u)) ys)) (target m (u_calls u))))"
  obtain hp1 where hp1: "unlink_handle h (u_heap u) = Some hp1" "dm_hprev h = ?p" "dm_hnext h = first_of ys"
      "dllview hp1 (store_at (fst (view_rec (u_heap u) ?p)) (next_link (map (view_rec (u_heap u)) ys)) (target m (u_calls u))) r (xs @ ys)"
      "\<And>x. view_rec hp1 x = view_rec (u_heap u) x"
    using dllview_remove [OF list h(1)] by metis
  have v1: "view_list hp1 r (xs @ ys)" using hp1(4) by (simp add: dllview_def)
  then have s: "seg (node_hnext hp1) (node_hprev hp1) r (xs @ ys)" by (simp add: view_list_def)
  obtain root where root: "roots hp1 r = Some root" using view_list_root [OF v1] by blast
  have node: "x \<noteq> 0 \<and> handles hp1 x \<noteq> None" if x: "x \<in> set (xs @ ys)" for x
  proof -
    obtain us vs where "xs @ ys = us @ x # vs" using split_list [OF x] by blast
    with s seg_nonzero [OF s] x show ?thesis by (auto dest: seg_handle)
  qed
  have p: "?p \<in> set (r # xs)" by (rule last_in_set) simp
  have pa: "dm_hprev h \<noteq> a" using hp1(2) p list by (auto simp: dllview_def view_list_def)
  have dest: "node_dbthis hp1 (dm_hprev h) = Some (fst (view_rec (u_heap u) ?p))"
    using node_dbthis_rec [of hp1 ?p] node [of ?p] root p hp1(2,5) by auto
  obtain z root' where z: "target_unlink env h (u\<lparr>u_heap := hp1\<rparr>) = Some z"
      and v: "u_errcount v = u_errcount z" "target m (u_calls v) = target m (u_calls z)"
        "roots (u_heap z) r = Some root'" "u_heap v = put_root r (root'\<lparr>mr_refcount := mr_refcount root' - 1\<rparr>) (u_heap z)"
    using run(1) pa h(2,3) hp1(1) by (auto simp: unload_view_def Let_def target_append elim!: bindE split: if_splits)
  let ?u = "u\<lparr>u_heap := hp1\<rparr>"
  have e: "u_errcount z = 0" using run(2) v(1) by simp
  have nodes: "b \<noteq> 0 \<and> handles (u_heap ?u) b \<noteq> None" if "ys = b # bs" for b bs using that node [of b] by simp
  have heap: "roots (u_heap ?u) (dm_hroot h) = Some root" "node_dbthis (u_heap ?u) (dm_hprev h) = Some (fst (view_rec (u_heap u) ?p))"
    using root h(2) dest by simp_all
  have "u_heap z = put_root r (root\<lparr>mr_changes := mr_changes root + 1\<rparr>) hp1 \<and> target m (u_calls z) = T root"
    using target_unlink_writes [where m = m, OF z e run(3) h(4) hp1(3) nodes heap] h(2)
    by (simp add: T_def ext [of "view_rec hp1" "view_rec (u_heap u)", OF hp1(5)])
  then have z': "u_heap z = put_root r (root\<lparr>mr_changes := mr_changes root + 1\<rparr>) hp1" "target m (u_calls z) = T root" by simp_all
  have half: "length (bytes_of_half c) = 2" for c by (simp add: bytes_of_half_def)
  have c1: "dllview hp1 (T root) r (xs @ ys)" unfolding T_def using dllview_counter [OF hp1(4) half root] .
  define root2 where "root2 = root\<lparr>mr_changes := mr_changes root + 1, mr_refcount := mr_refcount root - 1\<rparr>"
  have hv: "u_heap v = put_root r root2 hp1" using v(3,4) z'(1) by (auto simp: root2_def)
  have "dllview (u_heap v) (T root) r (xs @ ys)"
    unfolding hv by (rule dllview_put_root [OF c1 root]) (simp_all add: root2_def)
  moreover have "load_at (T root) (mr_dbthis root2 + 6) 2 = bytes_of_half (mr_changes root2)"
    using load_at_store [of 2 "bytes_of_half (mr_changes root + 1)"] by (simp add: root2_def T_def half)
  ultimately show ?thesis using hv v(2) z'(2) by auto
qed

text \<open>
  C25: A module that is in the list is taken out of it, whatever its place, and the counter in the
  header of the target is that of the host. The assumptions are those under which the
  code says that it succeeded: the target is connected, no error is returned, the root outlives
  the call; the record of a big-endian module is left out, since its link would be written with
  its bytes swapped although loading never swaps them.
\<close>

theorem Dynamic_Unload_Module_removes:
  assumes list: "dllview (u_heap u) (target m (u_calls u)) r hs" "a \<in> set hs"
    and h: "handles (u_heap u) a = Some h" "dm_hroot h = r" "r \<noteq> 0" "dm_dbthis h \<noteq> 0" "\<not> bit (secn_count h) 0"
    and run: "Dynamic_Unload_Module env a u = Some u'" "u_errcount u' = 0" "init_given env" "roots (u_heap u') r \<noteq> None"
  shows "dllview (u_heap u') (target m (u_calls u')) r (remove1 a hs) \<and> handles (u_heap u') a = None
    \<and> (\<exists>root. roots (u_heap u') r = Some root \<and> load_at (target m (u_calls u')) (mr_dbthis root + 6) 2 = bytes_of_half (mr_changes root))"
proof -
  obtain xs ys where hs: "hs = xs @ a # ys" using list(2) by (auto simp: in_set_conv_decomp)
  have d: "distinct (r # xs @ a # ys)" and a0: "a \<noteq> 0"
    using list(1) seg_nonzero [of _ _ r hs] hs by (auto simp: dllview_def view_list_def)
  have rm: "remove1 a hs = xs @ ys" using d hs by (simp add: remove1_append)
  obtain u2 v w where u2: "deallocate_sections env h (u\<lparr>u_syms := DLsym_Purge_Symbol_Table (u_syms u) a\<rparr>) = Some u2"
      and v: "unload_view env a h u2 = Some v" and w: "release_root r v = Some w"
      and u': "u' = ucall (Host_deallocate B_handle) (w\<lparr>u_heap := (u_heap w)\<lparr>handles := (handles (u_heap w))(a := None)\<rparr>\<rparr>)"
    using run(1) a0 h(1-3) by (auto simp: Dynamic_Unload_Module_def Let_def elim!: bindE)
  have same2: "u_heap u2 = u_heap u" "target m (u_calls u2) = target m (u_calls u)"
    using deallocate_sections_same [OF u2, of m] by simp_all
  have same4: "u_heap w = u_heap v" "u_errcount w = u_errcount v" "target m (u_calls w) = target m (u_calls v)"
    using release_root_same [OF w, of m] run(4) u' by auto
  have e: "u_errcount v = 0" using run(2) u' same4(2) by simp
  have l2: "dllview (u_heap u2) (target m (u_calls u2)) r (xs @ a # ys)" "handles (u_heap u2) a = Some h"
    using list(1) h(1) hs same2 by simp_all
  from unload_view_removes [OF l2 h(2,4,5) v e run(3)] obtain root where
    un: "dllview (u_heap v) (target m (u_calls v)) r (xs @ ys)" "roots (u_heap v) r = Some root"
      "load_at (target m (u_calls v)) (mr_dbthis root + 6) 2 = bytes_of_half (mr_changes root)" by blast
  have fin: "u_heap u' = (u_heap v)\<lparr>handles := (handles (u_heap v))(a := None)\<rparr>" "target m (u_calls u') = target m (u_calls v)"
    using u' same4 by (simp_all add: target_append)
  have "dllview (u_heap u') (target m (u_calls v)) r (xs @ ys)"
    unfolding fin(1) by (rule dllview_same [OF un(1)]) (use d un(1) in \<open>auto simp: dllview_def view_list_def\<close>)
  with fin rm un show ?thesis by auto
qed

text \<open>Two modules; the older one goes.\<close>

definition two_listed :: unload_state where
  "two_listed = \<lparr>u_heap =
       \<lparr>roots = (\<lambda>_. None)(0x800 \<mapsto> \<lparr>mr_dbthis = 0x100, mr_hnext = 0x1000, mr_changes = 4, mr_refcount = 2\<rparr>),
        handles = (\<lambda>_. None)(0x1000 \<mapsto> \<lparr>dm_dbthis = 0x8000, dm_hnext = 0x2000, dm_hprev = 0x800, dm_hroot = 0x800, dm_dbsiz = 27,
            dm_context = 0, secn_count = 2, secns = [no_section]\<rparr>,
          0x2000 \<mapsto> \<lparr>dm_dbthis = 0x9000, dm_hnext = 0, dm_hprev = 0x1000, dm_hroot = 0x800, dm_dbsiz = 16,
            dm_context = 0, secn_count = 0, secns = []\<rparr>)\<rparr>,
     u_syms = empty_table, u_calls = [Writemem 0x8000 (link_bytes 0x9000 16), Writemem 0x100 (link_bytes 0x8000 27)], u_errcount = 0\<rparr>"

theorem Dynamic_Unload_Module_removes_witness:
  "\<exists>u'. Dynamic_Unload_Module easy_env 0x2000 two_listed = Some u' \<and> dllview (u_heap u') (target (\<lambda>_. 0) (u_calls u')) 0x800 [0x1000]"
proof -
  have "map_option (\<lambda>u. (u_errcount u, roots (u_heap u) 0x800 \<noteq> None)) (Dynamic_Unload_Module easy_env 0x2000 two_listed) = Some (0, True)"
    by code_simp
  then obtain u' where u': "Dynamic_Unload_Module easy_env 0x2000 two_listed = Some u'" "u_errcount u' = 0" "roots (u_heap u') 0x800 \<noteq> None"
    by auto
  have t: "target (\<lambda>_. 0) (u_calls two_listed) = store_at 0x100 (link_bytes 0x8000 27) (store_at 0x8000 (link_bytes 0x9000 16) (\<lambda>_. 0))"
    by (simp add: two_listed_def)
  have far: "area 0x8000 6 \<inter> area 0x100 6 = {}" "area 0x9000 6 \<inter> area 0x100 6 = {}" "area 0x9000 6 \<inter> area 0x8000 6 = {}"
    unfolding area_set by (rule areas_apart, code_simp)+
  have "load_at (\<lambda>_. 0) 0x9000 6 = link_bytes 0 0" by code_simp
  then have l: "load_at (target (\<lambda>_. 0) (u_calls two_listed)) 0x100 6 = link_bytes 0x8000 27"
      "load_at (target (\<lambda>_. 0) (u_calls two_listed)) 0x8000 6 = link_bytes 0x9000 16"
      "load_at (target (\<lambda>_. 0) (u_calls two_listed)) 0x9000 6 = link_bytes 0 0"
    unfolding t by (simp_all add: load_at_store load_at_elsewhere [OF far(1)] load_at_elsewhere [OF far(2)] load_at_elsewhere [OF far(3)])
  have a: "area 0x100 8 \<inter> area 0x8000 27 = {}" "area 0x100 8 \<inter> area 0x9000 16 = {}" "area 0x8000 27 \<inter> area 0x9000 16 = {}"
    unfolding area_set by (rule areas_apart, code_simp)+
  have hp: "map (view_rec (u_heap two_listed)) [0x800, 0x1000, 0x2000] = [(0x100, 8), (0x8000, 27), (0x9000, 16)]"
    by (simp add: view_rec_def two_listed_def)
  have "view_list (u_heap two_listed) 0x800 [0x1000, 0x2000]"
    by (simp add: view_list_def node_hnext_def node_hprev_def two_listed_def)
  then have v: "dllview (u_heap two_listed) (target (\<lambda>_. 0) (u_calls two_listed)) 0x800 [0x1000, 0x2000]"
    unfolding dllview_def hp using l a by (simp add: apart_def next_link_def)
  have h: "handles (u_heap two_listed) 0x2000 = Some \<lparr>dm_dbthis = 0x9000, dm_hnext = 0, dm_hprev = 0x1000, dm_hroot = 0x800, dm_dbsiz = 16,
            dm_context = 0, secn_count = 0, secns = []\<rparr>" by (simp add: two_listed_def)
  show ?thesis
    using Dynamic_Unload_Module_removes [OF v _ h _ _ _ _ u'(1,2) _ u'(3)] u'(1) by (simp add: easy_env_def)
qed

text \<open>The link that unloading writes for a big-endian module.\<close>

lemma big_endian_link: "swap_words (link_bytes d n) MODULES_HEADER_BITMAP = rev (bytes_of_word d) @ rev (bytes_of_half n)"
proof -
  have "swap_words [a, b, c, e, f, g] 2 = [e, c, b, a, g, f]" for a b c e f g by (simp add: swap_words_def)
  then show ?thesis by (simp add: link_bytes_def bytes_of_word_def bytes_of_half_def MODULES_HEADER_BITMAP_def)
qed

end
