(* ===== verification/Dynreg.thy ===== *)
theory Dynreg
  imports Dload_Module
begin

section \<open>The registration utility\<close>

text \<open>
  \<open>dynreg.c\<close> with the two helpers it is built on, the tokenizer of \<open>csl.c\<close> and the conversions
  of \<open>uuidutil.c\<close>. The utility reads the identifiers a library carries in one of three sections
  and registers or unregisters them with the bridge; the calls of the bridge are the events of
  the model, their results a parameter. A string is the bytes of a buffer from an index up to
  the first zero; a pointer into the buffer is that index.
\<close>

subsection \<open>Unique identifiers\<close>

record DSP_UUID =
  ulData1 :: u32
  usData2 :: u16
  usData3 :: u16
  ucData4 :: u8
  ucData5 :: u8
  ucData6 :: "u8 list"

definition MAXUUIDLEN :: nat where "MAXUUIDLEN = 37"

text \<open>The conversion \<open>%.nX\<close>: at least \<open>n\<close> hexadecimal digits, for values that need no more.\<close>

definition hex_digit :: "nat \<Rightarrow> u8" where
  "hex_digit d = of_nat (if d < 10 then 48 + d else 55 + d)"

primrec hex_digits :: "nat \<Rightarrow> nat \<Rightarrow> u8 list" where
  "hex_digits 0 v = []"
| "hex_digits (Suc n) v = hex_digit (v div 16 ^ n mod 16) # hex_digits n v"

definition uuid_text :: "DSP_UUID \<Rightarrow> u8 list" where
  "uuid_text u = hex_digits 8 (unat (ulData1 u)) @ [0x5F] @ hex_digits 4 (unat (usData2 u)) @ [0x5F]
     @ hex_digits 4 (unat (usData3 u)) @ [0x5F] @ hex_digits 2 (unat (ucData4 u)) @ hex_digits 2 (unat (ucData5 u)) @ [0x5F]
     @ concat (map (\<lambda>i. hex_digits 2 (unat (ucData6 u ! i))) [0, 1, 2, 3, 4, 5])"

text \<open>\<open>snprintf\<close> stores at most \<open>size - 1\<close> characters and a zero.\<close>

definition snprintf_text :: "u8 list \<Rightarrow> nat \<Rightarrow> u8 list \<Rightarrow> u8 list option" where
  "snprintf_text out n str =
     (let w = (if n = 0 then [] else take (n - 1) str @ [0])
      in if length w \<le> length out then Some (w @ drop (length w) out) else None)"

definition UUID_UuidToString :: "DSP_UUID \<Rightarrow> u8 list \<Rightarrow> nat \<Rightarrow> u8 list option" where
  "UUID_UuidToString pUuid pszUuid siz = snprintf_text pszUuid siz (uuid_text pUuid)"

definition htoi :: "u8 \<Rightarrow> int" where
  "htoi c = (if 48 \<le> c \<and> c \<le> 57 then uint c - 48 else if 65 \<le> c \<and> c \<le> 70 then uint c - 55
     else if 97 \<le> c \<and> c \<le> 102 then uint c - 87 else 0)"

text \<open>
  One of the loops of \<open>UUID_UuidFromString\<close>: \<open>result\<close> is a \<open>LONG\<close> of 32 bits, whose overflow is
  undefined.
\<close>

primrec hex_loop :: "u8 list \<Rightarrow> nat \<Rightarrow> nat \<Rightarrow> int \<Rightarrow> int option" where
  "hex_loop m temp 0 result = Some result"
| "hex_loop m temp (Suc n) result = do {
     c \<leftarrow> rd m temp;
     (if result * 16 + htoi c < 2 ^ 31 then hex_loop m (temp + 1) n (result * 16 + htoi c) else None) }"

definition UUID_UuidFromString :: "u8 list \<Rightarrow> nat \<Rightarrow> DSP_UUID option" where
  "UUID_UuidFromString m p = do {
     d1 \<leftarrow> hex_loop m p 8 0;
     d2 \<leftarrow> hex_loop m (p + 9) 4 0;
     d3 \<leftarrow> hex_loop m (p + 14) 4 0;
     d4 \<leftarrow> hex_loop m (p + 19) 2 0;
     d5 \<leftarrow> hex_loop m (p + 21) 2 0;
     e0 \<leftarrow> hex_loop m (p + 24) 2 0;
     e1 \<leftarrow> hex_loop m (p + 26) 2 0;
     e2 \<leftarrow> hex_loop m (p + 28) 2 0;
     e3 \<leftarrow> hex_loop m (p + 30) 2 0;
     e4 \<leftarrow> hex_loop m (p + 32) 2 0;
     e5 \<leftarrow> hex_loop m (p + 34) 2 0;
     Some \<lparr>ulData1 = of_int d1, usData2 = of_int d2, usData3 = of_int d3, ucData4 = of_int d4, ucData5 = of_int d5,
       ucData6 = map of_int [e0, e1, e2, e3, e4, e5]\<rparr> }"

lemma htoi_hex_digit: "d < 16 \<Longrightarrow> htoi (hex_digit d) = int d"
proof -
  assume "d < 16"
  then have "d \<in> set [0 ..< 16]" by simp
  then show ?thesis by (simp add: upt_rec numeral_eq_Suc) (elim disjE; simp add: hex_digit_def htoi_def)
qed

lemma length_hex_digits [simp]: "length (hex_digits n v) = n"
  by (induction n) simp_all

lemma hex_loop_digits:
  assumes "r * 16 ^ n + int (v mod 16 ^ n) < 2 ^ 31" and "0 \<le> r" and "length pre = p"
  shows "hex_loop (pre @ hex_digits n v @ post) p n r = Some (r * 16 ^ n + int (v mod 16 ^ n))"
  using assms
proof (induction n arbitrary: pre p r)
  case 0
  then show ?case by simp
next
  case (Suc n)
  let ?d = "v div 16 ^ n mod 16"
  have v: "v mod 16 ^ Suc n = ?d * 16 ^ n + v mod 16 ^ n"
    using mod_mult2_eq [of v "16 ^ n" 16] by (simp add: mult.commute)
  then have eq: "r * 16 ^ Suc n + int (v mod 16 ^ Suc n) = (r * 16 + int ?d) * 16 ^ n + int (v mod 16 ^ n)"
    by (simp add: algebra_simps)
  have "(r * 16 + int ?d) * 1 \<le> (r * 16 + int ?d) * 16 ^ n" using Suc.prems(2) by (intro mult_left_mono) simp_all
  then have small: "r * 16 + int ?d < 2 ^ 31" using Suc.prems(1) eq by simp
  have l: "length (pre @ [hex_digit ?d]) = p + 1" using Suc.prems(3) by simp
  have "hex_loop (pre @ hex_digits (Suc n) v @ post) p (Suc n) r = hex_loop (pre @ hex_digits (Suc n) v @ post) (p + 1) n (r * 16 + int ?d)"
    using Suc.prems(3) small by (simp add: htoi_hex_digit nth_append)
  also have "pre @ hex_digits (Suc n) v @ post = (pre @ [hex_digit ?d]) @ hex_digits n v @ post" by simp
  also have "hex_loop \<dots> (p + 1) n (r * 16 + int ?d) = Some ((r * 16 + int ?d) * 16 ^ n + int (v mod 16 ^ n))"
    using Suc.IH [OF _ _ l, of "r * 16 + int ?d"] Suc.prems eq by simp
  finally show ?case using eq by simp
qed

lemma hex_field:
  assumes "take n (drop p m) = hex_digits n v" and "p + n \<le> length m" and "v < 16 ^ n" and "v < 2 ^ 31"
  shows "hex_loop m p n 0 = Some (int v)"
proof -
  have m: "m = take p m @ hex_digits n v @ drop (p + n) m"
    using assms(1) by (metis append_take_drop_id drop_drop add.commute)
  have "hex_loop (take p m @ hex_digits n v @ drop (p + n) m) p n 0 = Some (0 * 16 ^ n + int (v mod 16 ^ n))"
    using assms by (intro hex_loop_digits) simp_all
  with m assms(3) show ?thesis by simp
qed

lemma hex_digits_last: "hex_digits (Suc n) v = hex_digits n (v div 16) @ [hex_digit (v mod 16)]"
  by (induction n) (simp_all add: div_mult2_eq)

lemma hex_overflow:
  assumes "take 8 (drop p m) = hex_digits 8 v" and "p + 8 \<le> length m" and "2 ^ 31 \<le> v" and "v < 2 ^ 32"
  shows "hex_loop m p 8 0 = None"
proof -
  let ?w = "v div 16"
  have w: "?w mod 16 ^ 7 = ?w" using assms(4) by simp
  have h: "hex_digits 8 v = hex_digits 7 ?w @ [hex_digit (v mod 16)]"
    using hex_digits_last [of 7 v] by simp
  have "length (take p m) = p" using assms(2) by simp
  moreover have m: "m = take p m @ hex_digits 7 ?w @ [hex_digit (v mod 16)] @ drop (p + 8) m"
    using assms(1) unfolding h by (metis append_take_drop_id drop_drop add.commute append_assoc)
  moreover have step: "hex_loop m p (n + k) r = hex_loop m p n r \<bind> hex_loop m (p + n) k" for n k p r
    by (induction n arbitrary: p r) (auto simp: add_ac bind_assoc intro!: Option.bind_cong)
  ultimately have "hex_loop m p 7 0 = Some (int ?w)"
    using hex_loop_digits [of 0 7 ?w "take p m" p "[hex_digit (v mod 16)] @ drop (p + 8) m"] w assms(4) by simp
  moreover have "m ! (p + 7) = hex_digit (v mod 16)"
  proof -
    have "m ! (p + 7) = take 8 (drop p m) ! 7" using assms(2) by simp
    then show ?thesis unfolding assms(1) h by (simp add: nth_append)
  qed
  moreover have "2 ^ 31 \<le> int ?w * 16 + int (v mod 16)"
  proof -
    have "int ?w * 16 + int (v mod 16) = int (?w * 16 + v mod 16)" by (simp only: of_nat_add of_nat_mult of_nat_numeral)
    also have "\<dots> = int v" by (simp only: div_mult_mod_eq)
    finally show ?thesis using assms(3) by simp
  qed
  ultimately show ?thesis
    using step [of p 7 1 0] assms(2) by (simp add: htoi_hex_digit)
qed

definition uuid_ok :: "DSP_UUID \<Rightarrow> bool" where
  "uuid_ok u \<longleftrightarrow> length (ucData6 u) = 6"

lemma six: "length xs = 6 \<Longrightarrow> xs = map ((!) xs) [0, 1, 2, 3, 4, 5]"
  by (simp add: list_eq_iff_nth_eq less_Suc_eq numeral_eq_Suc)

lemma unat_less [simp]: "unat (w :: u16) < 65536" "unat (x :: u8) < 256" "unat (y :: u32) < 4294967296"
  using unsigned_less [of w] unsigned_less [of x] unsigned_less [of y] by simp_all

lemma hex_u16: "take 4 (drop p m) = hex_digits 4 (unat (w :: u16)) \<Longrightarrow> p + 4 \<le> length m \<Longrightarrow> hex_loop m p 4 0 = Some (uint w)"
  using hex_field [of 4 p m "unat w"] unat_less(1) [of w] by (simp del: unat_less)

lemma hex_u8: "take 2 (drop p m) = hex_digits 2 (unat (x :: u8)) \<Longrightarrow> p + 2 \<le> length m \<Longrightarrow> hex_loop m p 2 0 = Some (uint x)"
  using hex_field [of 2 p m "unat x"] unat_less(2) [of x] by (simp del: unat_less)

lemma length_uuid_text [simp]: "length (uuid_text u) = 36"
  by (simp add: uuid_text_def)

lemma hex_field_at:
  assumes "length pre = p" and "q = p + k" and "take n (drop k x) = hex_digits n v" and "k + n \<le> length x"
  shows "take n (drop q (pre @ x @ post)) = hex_digits n v"
  using assms by simp

lemma uuid_from_text:
  assumes "uuid_ok u" and "length pre = p"
  shows "UUID_UuidFromString (pre @ uuid_text u @ post) p = (if ulData1 u < 2 ^ 31 then Some u else None)"
proof -
  define x where "x = uuid_text u"
  define m where "m = pre @ x @ post"
  have lx: "length x = 36" by (simp add: x_def)
  then have l: "p + 36 \<le> length m" using assms(2) by (simp add: m_def)
  note F = x_def uuid_text_def
  have g: "take 8 (drop 0 x) = hex_digits 8 (unat (ulData1 u))" "take 4 (drop 9 x) = hex_digits 4 (unat (usData2 u))"
    "take 4 (drop 14 x) = hex_digits 4 (unat (usData3 u))" "take 2 (drop 19 x) = hex_digits 2 (unat (ucData4 u))"
    "take 2 (drop 21 x) = hex_digits 2 (unat (ucData5 u))" "take 2 (drop 24 x) = hex_digits 2 (unat (ucData6 u ! 0))"
    "take 2 (drop 26 x) = hex_digits 2 (unat (ucData6 u ! 1))" "take 2 (drop 28 x) = hex_digits 2 (unat (ucData6 u ! 2))"
    "take 2 (drop 30 x) = hex_digits 2 (unat (ucData6 u ! 3))" "take 2 (drop 32 x) = hex_digits 2 (unat (ucData6 u ! 4))"
    "take 2 (drop 34 x) = hex_digits 2 (unat (ucData6 u ! 5))"
    by (simp_all add: F del: hex_digits.simps)
  have f: "take 8 (drop p m) = hex_digits 8 (unat (ulData1 u))"
    using hex_field_at [OF assms(2) _ g(1), of p post] lx by (simp add: m_def)
  note A = hex_field_at [OF assms(2) refl _, of _ _ x _ post, folded m_def]
  note e = hex_u16 [OF A [OF g(2)]] hex_u16 [OF A [OF g(3)]] hex_u8 [OF A [OF g(4)]] hex_u8 [OF A [OF g(5)]]
    hex_u8 [OF A [OF g(6)]] hex_u8 [OF A [OF g(7)]] hex_u8 [OF A [OF g(8)]] hex_u8 [OF A [OF g(9)]]
    hex_u8 [OF A [OF g(10)]] hex_u8 [OF A [OF g(11)]]
  have "UUID_UuidFromString m p = (if ulData1 u < 2 ^ 31 then Some u else None)"
  proof (cases "ulData1 u < 2 ^ 31")
    case True
    then have "unat (ulData1 u) < 2 ^ 31" by (simp add: word_less_nat_alt)
    with f(1) l have d: "hex_loop m p 8 0 = Some (int (unat (ulData1 u)))" by (intro hex_field) simp_all
    show ?thesis
      using assms(1) six [of "ucData6 u"] True l lx by (simp add: UUID_UuidFromString_def d e uuid_ok_def)
  next
    case False
    then have "2 ^ 31 \<le> unat (ulData1 u)" by (simp add: word_less_nat_alt)
    with f(1) l have d: "hex_loop m p 8 0 = None"
      using unat_less(3) [of "ulData1 u"] by (intro hex_overflow) (simp_all del: unat_less)
    with False show ?thesis by (simp add: UUID_UuidFromString_def)
  qed
  then show ?thesis by (simp add: m_def x_def)
qed

text \<open>
  The text of an identifier is 36 characters long, and reading it back gives the identifier,
  as long as the first of its numbers is less than \<open>2 ^ 31\<close>: the conversion of eight digits
  overflows a \<open>LONG\<close> for the others.
\<close>

theorem UUID_round_trip:
  assumes "uuid_ok u" and "37 \<le> length buf"
  shows "\<exists>txt. UUID_UuidToString u buf MAXUUIDLEN = Some txt
    \<and> UUID_UuidFromString txt 0 = (if ulData1 u < 2 ^ 31 then Some u else None)"
proof -
  have "UUID_UuidToString u buf MAXUUIDLEN = Some ([] @ uuid_text u @ 0 # drop 37 buf)"
    using assms(2) by (simp add: UUID_UuidToString_def snprintf_text_def MAXUUIDLEN_def Let_def)
  then show ?thesis using uuid_from_text [OF assms(1), of "[]" 0] by auto
qed

definition sample_uuid :: DSP_UUID where
  "sample_uuid = \<lparr>ulData1 = 0x79A3C8B3, usData2 = 0x95F2, usData3 = 0x403F, ucData4 = 0x9A, ucData5 = 0x4B,
     ucData6 = [0xCF, 0x80, 0x57, 0x73, 0x05, 0x41]\<rparr>"

theorem UUID_round_trip_witness:
  "\<exists>txt. UUID_UuidToString sample_uuid (replicate 37 0) MAXUUIDLEN = Some txt \<and> UUID_UuidFromString txt 0 = Some sample_uuid"
  using UUID_round_trip [of sample_uuid "replicate 37 0"] by (simp add: uuid_ok_def sample_uuid_def)

text \<open>
  The listing of the nodes converts every identifier into a buffer of 36 characters and allows
  37: the terminating zero is written past the end of the buffer.
\<close>

theorem UUID_listing_overruns:
  "UUID_UuidToString u (szUuid :: u8 list) MAXUUIDLEN = None \<longleftrightarrow> length szUuid \<le> 36"
  by (simp add: UUID_UuidToString_def snprintf_text_def MAXUUIDLEN_def Let_def)

subsection \<open>The tokenizer\<close>

definition IsDelimiter :: "u8 \<Rightarrow> u8 list \<Rightarrow> bool" where
  "IsDelimiter c pstrDelim \<longleftrightarrow> c \<noteq> 0 \<and> c \<in> set pstrDelim"

function token_end :: "u8 list \<Rightarrow> u8 list \<Rightarrow> nat \<Rightarrow> nat option" where
  "token_end seps m p = do {
     c \<leftarrow> rd m p;
     (if c \<noteq> 0 \<and> \<not> IsDelimiter c seps then token_end seps m (p + 1) else Some p) }"
  by pat_completeness auto
termination by (relation "measure (\<lambda>(seps, m, p). length m - p)") (auto simp: rd_def split: if_splits)

function skip_delims :: "u8 list \<Rightarrow> u8 list \<Rightarrow> nat \<Rightarrow> (u8 list \<times> nat) option" where
  "skip_delims seps m p = do {
     c \<leftarrow> rd m p;
     (if IsDelimiter c seps then do { m1 \<leftarrow> wr m p 0; skip_delims seps m1 (p + 1) } else Some (m, p)) }"
  by pat_completeness auto
termination by (relation "measure (\<lambda>(seps, m, p). length m - p)") (auto simp: rd_def wr_def split: if_splits)

declare token_end.simps [simp del] skip_delims.simps [simp del]

text \<open>The buffer, the token or \<^const>\<open>None\<close>, and the position kept for the next call.\<close>

definition CSL_Strtokr :: "u8 list \<Rightarrow> nat option \<Rightarrow> u8 list \<Rightarrow> nat \<Rightarrow> (u8 list \<times> nat option \<times> nat) option" where
  "CSL_Strtokr m pstrSrc szSeparators last_p =
     (let pstrTemp = (case pstrSrc of Some p \<Rightarrow> p | None \<Rightarrow> last_p)
      in do {
        c \<leftarrow> rd m pstrTemp;
        (if c = 0 then Some (m, None, last_p)
         else do {
           e \<leftarrow> token_end szSeparators m pstrTemp;
           d \<leftarrow> rd m e;
           (m1, q) \<leftarrow> (if d \<noteq> 0 then skip_delims szSeparators m e else Some (m, e));
           Some (m1, Some pstrTemp, q) }) })"

text \<open>
  The token loops run until there is no token; every call moves on in the buffer, so that they
  end.
\<close>

lemma token_end_step:
  assumes "token_end seps m p = Some e"
  obtains (more) c where "rd m p = Some c" "c \<noteq> 0" "\<not> IsDelimiter c seps" "token_end seps m (p + 1) = Some e"
    | (stop) c where "rd m p = Some c" "c = 0 \<or> IsDelimiter c seps" "e = p"
  using assms by (subst (asm) token_end.simps) (auto split: bind_splits if_splits)

lemma skip_delims_step:
  assumes "skip_delims seps m p = Some (m', q)"
  obtains (more) c where "rd m p = Some c" "IsDelimiter c seps" "skip_delims seps (m[p := 0]) (p + 1) = Some (m', q)"
    | (stop) c where "rd m p = Some c" "\<not> IsDelimiter c seps" "m' = m" "q = p"
  using assms by (subst (asm) skip_delims.simps) (auto simp: wr_Some_iff split: bind_splits if_splits)

lemma token_end_bounds: "token_end seps m p = Some e \<Longrightarrow> p \<le> e \<and> e < length m"
proof (induction "length m - p" arbitrary: p rule: less_induct)
  case less
  from less.prems show ?case
  proof (cases rule: token_end_step)
    case (more c)
    then have "length m - (p + 1) < length m - p" by (simp add: rd_Some_iff) linarith
    with less.hyps [of "p + 1"] more show ?thesis by simp
  next
    case (stop c)
    then show ?thesis by (simp add: rd_Some_iff)
  qed
qed

lemma skip_delims_bounds:
  "skip_delims seps m p = Some (m', q) \<Longrightarrow> p \<le> q \<and> q < length m' \<and> length m' = length m \<and> \<not> IsDelimiter (m' ! q) seps"
proof (induction "length m - p" arbitrary: m p rule: less_induct)
  case less
  from less.prems show ?case
  proof (cases rule: skip_delims_step)
    case (more c)
    then have "length m - (p + 1) < length m - p" by (simp add: rd_Some_iff) linarith
    with less.hyps [of "m[p := 0]" "p + 1"] more show ?thesis by simp
  next
    case (stop c)
    then show ?thesis by (simp add: rd_Some_iff)
  qed
qed

lemma Strtokr_progress:
  assumes "CSL_Strtokr m src seps p = Some (m', Some t, q)"
  shows "length m' = length m \<and> q < length m \<and> (case src of Some s \<Rightarrow> s | None \<Rightarrow> p) < q"
proof -
  let ?p = "case src of Some s \<Rightarrow> s | None \<Rightarrow> p"
  from assms obtain c e d where c: "rd m ?p = Some c" "c \<noteq> 0" and e: "token_end seps m ?p = Some e" "rd m e = Some d"
    and q: "(if d \<noteq> 0 then skip_delims seps m e else Some (m, e)) = Some (m', q)"
    by (auto simp: CSL_Strtokr_def Let_def split: bind_splits if_splits)
  have pe: "?p \<le> e" "e < length m" using token_end_bounds [OF e(1)] by simp_all
  show ?thesis
  proof (cases "e = ?p")
    case False
    with pe q show ?thesis by (auto dest: skip_delims_bounds split: if_splits)
  next
    case True
    with e(2) c have d: "d = c" by simp
    have dc: "IsDelimiter c seps" using e(1)
    proof (cases rule: token_end_step)
      case (more c')
      with token_end_bounds [of seps m "?p + 1" e] True show ?thesis by simp
    next
      case (stop c')
      with c show ?thesis by simp
    qed
    from q d c(2) have "skip_delims seps m e = Some (m', q)" by simp
    then show ?thesis
    proof (cases rule: skip_delims_step)
      case (more c')
      with skip_delims_bounds [OF more(3)] True show ?thesis by simp
    next
      case (stop c')
      with dc c True show ?thesis by simp
    qed
  qed
qed

lemma Strtokr_measure:
  assumes "CSL_Strtokr m None seps cur = Some (m1, tok, cur1)"
  shows "(if tok = None then 0 else Suc 0) + (length m1 - cur1) < Suc (length m - cur)"
proof (cases tok)
  case None
  with assms show ?thesis by (auto simp: CSL_Strtokr_def Let_def split: bind_splits if_splits)
next
  case (Some t)
  with assms Strtokr_progress [of m None seps cur m1 t cur1] show ?thesis by auto
qed

subsection \<open>Reading a section of a library\<close>

datatype DSP_DCDOBJTYPE = DSP_DCDNODETYPE | DSP_DCDPROCESSORTYPE | DSP_DCDLIBRARYTYPE | DSP_DCDCREATELIBTYPE
  | DSP_DCDEXECUTELIBTYPE | DSP_DCDDELETELIBTYPE

datatype NLDR_PHASE = NLDR_CREATE | NLDR_DELETE | NLDR_EXECUTE | NLDR_NOPHASE

datatype bridge_call = RegisterObject DSP_UUID DSP_DCDOBJTYPE name | UnregisterObject DSP_UUID DSP_DCDOBJTYPE

text \<open>
  The environment of the utility: the loader's, the files, the allocator by size, the bridge,
  whose results may depend on the calls made so far, and the enumeration of the nodes.
\<close>

record dynreg_env =
  ld :: dl_env
  fopen_file :: "name \<Rightarrow> u8 list option"
  calloc_ok :: "nat \<Rightarrow> bool"
  bridge_status :: "bridge_call list \<Rightarrow> bridge_call \<Rightarrow> int"
  open_status :: int
  enum_node :: "nat \<Rightarrow> int \<times> DSP_UUID \<times> u32"

definition EPERM :: int where "EPERM = 1"
definition ENXIO :: int where "ENXIO = 6"
definition EBADF :: int where "EBADF = 9"
definition ENOMEM :: int where "ENOMEM = 12"

definition chars :: "string \<Rightarrow> u8 list" where "chars cs = map (\<lambda>c. of_nat (of_char c)) cs"

definition PHASESECT :: name where "PHASESECT = chars ''.dspbridge_psect''"
definition DEPUUIDSECT :: name where "DEPUUIDSECT = chars ''.dspbridge_uuid''"
definition DCD_REGISTER_SECTION :: name where "DCD_REGISTER_SECTION = chars ''.dcd_register''"
definition seps :: "u8 list" where "seps = chars '', ''"

text \<open>
  The token loop: it counts the tokens when no array is given and stores one identifier for each
  token otherwise.
\<close>

function token_loop :: "u8 list \<Rightarrow> nat option \<Rightarrow> nat \<Rightarrow> nat option \<Rightarrow> DSP_UUID list option \<Rightarrow> nat
    \<Rightarrow> (nat option \<times> DSP_UUID list option) option" where
  "token_loop m None cur pNumNodes pLibUUIDs nNodeNum = Some (pNumNodes, pLibUUIDs)"
| "token_loop m (Some pToken) cur pNumNodes None nNodeNum = do {
     n \<leftarrow> pNumNodes;
     (m1, tok, cur1) \<leftarrow> CSL_Strtokr m None seps cur;
     token_loop m1 tok cur1 (Some (n + 1)) None nNodeNum }"
| "token_loop m (Some pToken) cur pNumNodes (Some us) nNodeNum = do {
     u \<leftarrow> UUID_UuidFromString m pToken;
     us1 \<leftarrow> wr us nNodeNum u;
     (m1, tok, cur1) \<leftarrow> CSL_Strtokr m None seps cur;
     token_loop m1 tok cur1 pNumNodes (Some us1) (nNodeNum + 1) }"
  by pat_completeness auto
termination
  by (relation "measure (\<lambda>(m, tok, cur, num, us, n). (if tok = None then 0 else 1) + (length m - cur))")
    (auto dest: Strtokr_measure)

definition read_phase :: "u8 list \<Rightarrow> nat option \<Rightarrow> nat \<Rightarrow> DSP_UUID list option \<Rightarrow> NLDR_PHASE option \<Rightarrow> (DSP_UUID list option \<times> NLDR_PHASE option) option" where
  "read_phase m pToken cur pLibUUIDs phase = do {
     p \<leftarrow> pToken;
     u \<leftarrow> UUID_UuidFromString m p;
     us \<leftarrow> pLibUUIDs;
     us1 \<leftarrow> wr us 0 u;
     (m1, tok, _) \<leftarrow> CSL_Strtokr m None seps cur;
     q \<leftarrow> tok;
     create \<leftarrow> equals_at (chars ''create'') m1 q;
     execute \<leftarrow> equals_at (chars ''execute'') m1 q;
     execute1 \<leftarrow> equals_at (chars ''execute1'') m1 q;
     delete \<leftarrow> equals_at (chars ''delete'') m1 q;
     Some (Some us1, if create then Some NLDR_CREATE else if execute \<or> execute1 then Some NLDR_EXECUTE
       else if delete then Some NLDR_DELETE else phase) }"

text \<open>
  Pointers that may be null are options: the count, the array, and the phase, whose value is
  again an option because the caller does not initialise it.
\<close>

definition getSectDataFromLib :: "dynreg_env \<Rightarrow> name \<Rightarrow> name \<Rightarrow> nat option \<Rightarrow> DSP_UUID list option \<Rightarrow> NLDR_PHASE option option
    \<Rightarrow> (int \<times> nat option \<times> DSP_UUID list option \<times> NLDR_PHASE option option) option" where
  "getSectDataFromLib env szLibPath szSection pNumNodes pLibUUIDs phase =
     (let num = (if pLibUUIDs = None then map_option (\<lambda>_. 0) pNumNodes else pNumNodes);
          st = \<lparr>filePointer = fopen_file env szLibPath, posn = 0\<rparr>
      in do {
        (desc, opened) \<leftarrow> DLOAD_module_open (ld env) (Some st) (Some (DLsym_init empty_symtab));
        (if \<not> opened then Some (- EBADF, num, pLibUUIDs, phase)
         else do {
           cResult \<leftarrow> DLOAD_GetSectionInfo (Some desc) szSection;
           (case cResult of
              None \<Rightarrow> Some (- ENXIO, num, pLibUUIDs, phase)
            | Some i \<Rightarrow> do {
                sect \<leftarrow> rd (sect_hdrs desc) i;
                let ulSize = unat (DOFF_ALIGN (ds_size sect));
                (if \<not> calloc_ok env ulSize then Some (- ENOMEM, num, pLibUUIDs, phase)
                 else do {
                   (_, pszCoffBuf, got) \<leftarrow> DLOAD_GetSection (Some desc) (Some i) (replicate ulSize 0);
                   (if \<not> got then Some (- EPERM, num, pLibUUIDs, phase)
                    else do {
                      (m, pToken, pszCur) \<leftarrow> CSL_Strtokr pszCoffBuf (Some 0) seps 0;
                      (case phase of
                         Some ph \<Rightarrow> do { (us, ph1) \<leftarrow> read_phase m pToken pszCur pLibUUIDs ph; Some (0, num, us, Some ph1) }
                       | None \<Rightarrow> do { (num1, us) \<leftarrow> token_loop m pToken pszCur num pLibUUIDs 0; Some (0, num1, us, phase) }) }) }) }) }) })"

subsection \<open>Registering and unregistering\<close>

definition bridge :: "dynreg_env \<Rightarrow> bridge_call list \<Rightarrow> bridge_call \<Rightarrow> bridge_call list \<times> int" where
  "bridge env log c = (log @ [c], bridge_status env log c)"

definition object_call :: "bool \<Rightarrow> DSP_UUID \<Rightarrow> DSP_DCDOBJTYPE \<Rightarrow> name \<Rightarrow> bridge_call" where
  "object_call reg u ty path = (if reg then RegisterObject u ty path else UnregisterObject u ty)"

text \<open>
  The node loop: a node is registered before its library and unregistered after it; the first
  failure ends the loop.
\<close>

primrec node_loop :: "dynreg_env \<Rightarrow> bool \<Rightarrow> name \<Rightarrow> DSP_UUID list \<Rightarrow> nat \<Rightarrow> nat \<Rightarrow> bridge_call list \<Rightarrow> int
    \<Rightarrow> (bridge_call list \<times> int) option" where
  "node_loop env reg path us i 0 log status = Some (log, status)"
| "node_loop env reg path us i (Suc k) log status =
     (if status < 0 then Some (log, status)
      else do {
        u \<leftarrow> rd us i;
        let (ty1, ty2) = (if reg then (DSP_DCDNODETYPE, DSP_DCDLIBRARYTYPE) else (DSP_DCDLIBRARYTYPE, DSP_DCDNODETYPE));
        let (log1, st1) = bridge env log (object_call reg u ty1 path);
        let (log2, st2) = (if st1 \<ge> 0 then bridge env log1 (object_call reg u ty2 path) else (log1, st1));
        node_loop env reg path us (i + 1) k log2 st2 })"

definition no_uuid :: DSP_UUID where
  "no_uuid = \<lparr>ulData1 = 0, usData2 = 0, usData3 = 0, ucData4 = 0, ucData5 = 0, ucData6 = replicate 6 0\<rparr>"

text \<open>The array \<open>calloc(1, sizeof(struct DSP_UUID) * n)\<close>, null when there is no memory.\<close>

definition calloc_uuids :: "dynreg_env \<Rightarrow> nat \<Rightarrow> DSP_UUID list option" where
  "calloc_uuids env n = (if calloc_ok env (16 * n) then Some (replicate n no_uuid) else None)"

definition phase_type :: "NLDR_PHASE \<Rightarrow> DSP_DCDOBJTYPE option" where
  "phase_type ph = (case ph of NLDR_CREATE \<Rightarrow> Some DSP_DCDCREATELIBTYPE | NLDR_EXECUTE \<Rightarrow> Some DSP_DCDEXECUTELIBTYPE
     | NLDR_DELETE \<Rightarrow> Some DSP_DCDDELETELIBTYPE | _ \<Rightarrow> None)"

text \<open>
  The first part of both commands: the phase of a phase library. The result is the final status
  where the command ends early, and otherwise whether this was a phase library.
\<close>

definition phase_part :: "dynreg_env \<Rightarrow> bool \<Rightarrow> name \<Rightarrow> (bridge_call list \<times> (int + bool)) option" where
  "phase_part env reg path = do {
     (status, _, us, ph) \<leftarrow> getSectDataFromLib env path PHASESECT None (calloc_uuids env 1) (Some None);
     (if status = - ENXIO then Some ([], Inr False)
      else if status < 0 then Some ([], Inl status)
      else do {
        p \<leftarrow> Option.bind ph (\<lambda>x. x);
        l \<leftarrow> us;
        u \<leftarrow> rd l 0;
        (case phase_type p of
           None \<Rightarrow> Some ([], Inr False)
         | Some ty \<Rightarrow> (let (log, _) = bridge env [] (object_call reg u ty path) in Some (log, Inr True))) }) }"

definition nodes_part :: "dynreg_env \<Rightarrow> bool \<Rightarrow> name \<Rightarrow> bridge_call list \<Rightarrow> bool \<Rightarrow> (bridge_call list \<times> int) option" where
  "nodes_part env reg path log fPhaseLib = do {
     (status, num, _, _) \<leftarrow> getSectDataFromLib env path DCD_REGISTER_SECTION (Some 0) None None;
     uNumNodes \<leftarrow> num;
     (if status \<noteq> - ENXIO then
        (if status < 0 then Some (log, status)
         else case calloc_uuids env uNumNodes of
           None \<Rightarrow> Some (log, status)
         | Some us0 \<Rightarrow> do {
             (status2, num2, us, _) \<leftarrow> getSectDataFromLib env path DCD_REGISTER_SECTION num (Some us0) None;
             l \<leftarrow> us; n \<leftarrow> num2;
             node_loop env reg path l 0 n log status2 })
      else if \<not> fPhaseLib then
        (case calloc_uuids env 1 of
           None \<Rightarrow> Some (log, status)
         | Some us0 \<Rightarrow> do {
             (status2, _, us, _) \<leftarrow> getSectDataFromLib env path DEPUUIDSECT num (Some us0) None;
             (if status2 < 0 then Some (log, status2)
              else do { l \<leftarrow> us; u \<leftarrow> rd l 0; Some (bridge env log (object_call reg u DSP_DCDLIBRARYTYPE path)) }) })
      else Some (log, status)) }"

text \<open>The commands \<open>-r\<close> and \<open>-u\<close>: the calls of the bridge and the final status.\<close>

definition dynreg_command :: "dynreg_env \<Rightarrow> bool \<Rightarrow> name \<Rightarrow> (bridge_call list \<times> int) option" where
  "dynreg_command env reg path = do {
     (log, r) \<leftarrow> phase_part env reg path;
     (case r of Inl status \<Rightarrow> Some (log, status) | Inr fPhaseLib \<Rightarrow> nodes_part env reg path log fPhaseLib) }"

subsection \<open>The text of a section\<close>

text \<open>
  A section is a text of tokens, each followed by separators, up to the first zero; only after
  the last token may the separators be missing.
\<close>

definition token_ok :: "u8 list \<Rightarrow> bool" where
  "token_ok t \<longleftrightarrow> t \<noteq> [] \<and> (\<forall>c \<in> set t. c \<noteq> 0 \<and> \<not> IsDelimiter c seps)"

definition sep_ok :: "u8 list \<Rightarrow> bool" where
  "sep_ok d \<longleftrightarrow> (\<forall>c \<in> set d. IsDelimiter c seps)"

fun text_ok :: "(u8 list \<times> u8 list) list \<Rightarrow> bool" where
  "text_ok [] \<longleftrightarrow> True"
| "text_ok [(t, d)] \<longleftrightarrow> token_ok t \<and> sep_ok d"
| "text_ok ((t, d) # ts) \<longleftrightarrow> token_ok t \<and> sep_ok d \<and> d \<noteq> [] \<and> text_ok ts"

definition text_of :: "(u8 list \<times> u8 list) list \<Rightarrow> u8 list" where
  "text_of ts = concat (map (\<lambda>(t, d). t @ d) ts)"

lemma text_of_simps [simp]: "text_of [] = []" "text_of ((t, d) # ts) = t @ d @ text_of ts"
  by (simp_all add: text_of_def)

lemma text_ok_tail: "text_ok (x # ts) \<Longrightarrow> text_ok ts"
  by (cases x; cases ts) auto

lemma text_start: "text_ok ts \<Longrightarrow> ts \<noteq> [] \<Longrightarrow> \<exists>c r. text_of ts = c # r \<and> c \<noteq> 0 \<and> \<not> IsDelimiter c seps"
  by (cases ts rule: text_ok.cases) (auto simp: token_ok_def neq_Nil_conv)

lemma rd_at: "length pre = p \<Longrightarrow> rd (pre @ c # r) p = Some c"
  by (auto simp: rd_def)

lemma token_end_token:
  assumes "\<forall>c \<in> set t. c \<noteq> 0 \<and> \<not> IsDelimiter c s" and "c = 0 \<or> IsDelimiter c s" and "length pre = p"
  shows "token_end s (pre @ t @ c # r) p = Some (p + length t)"
  using assms
proof (induction t arbitrary: pre p)
  case Nil
  then show ?case using rd_at [of pre p c r] by (subst token_end.simps) auto
next
  case (Cons a t)
  have "token_end s (pre @ (a # t) @ c # r) p = token_end s ((pre @ [a]) @ t @ c # r) (p + 1)"
    using Cons.prems rd_at [of pre p a "t @ c # r"] by (subst token_end.simps) auto
  with Cons.IH [of "pre @ [a]" "p + 1"] Cons.prems show ?case by simp
qed

lemma skip_delims_sep:
  assumes "\<forall>c \<in> set d. IsDelimiter c s" and "\<not> IsDelimiter c s" and "length pre = p"
  shows "skip_delims s (pre @ d @ c # r) p = Some (pre @ replicate (length d) 0 @ c # r, p + length d)"
  using assms
proof (induction d arbitrary: pre p)
  case Nil
  then show ?case using rd_at [of pre p c r] by (subst skip_delims.simps) auto
next
  case (Cons a d)
  have "skip_delims s (pre @ (a # d) @ c # r) p = skip_delims s ((pre @ [0]) @ d @ c # r) (p + 1)"
    using Cons.prems rd_at [of pre p a "d @ c # r"] by (subst skip_delims.simps) (auto simp: wr_def)
  with Cons.IH [of "pre @ [0]" "p + 1"] Cons.prems show ?case by (simp add: replicate_app_Cons_same)
qed

lemma Strtokr_token:
  assumes "text_ok ((t, d) # ts)" and "length pre = p"
    and "(case src of Some q \<Rightarrow> q | None \<Rightarrow> lst) = p"
  shows "CSL_Strtokr (pre @ text_of ((t, d) # ts) @ 0 # r) src seps lst =
    Some (pre @ t @ replicate (length d) 0 @ text_of ts @ 0 # r, Some p, p + length t + length d)"
proof -
  from assms(1) have t: "token_ok t" and d: "sep_ok d" and nd: "d \<noteq> [] \<or> ts = []" by (cases ts; simp)+
  from t obtain a t' where a: "t = a # t'" "a \<noteq> 0" by (auto simp: token_ok_def neq_Nil_conv)
  have nz: "\<not> IsDelimiter 0 seps" by (simp add: IsDelimiter_def)
  obtain c r' where c: "text_of ts @ 0 # r = c # r'" "\<not> IsDelimiter c seps"
    using text_start [of ts] text_ok_tail [OF assms(1)] nz by (cases "ts = []") auto
  let ?m = "pre @ t @ d @ c # r'"
  have m: "pre @ text_of ((t, d) # ts) @ 0 # r = ?m" using c(1) by simp
  show ?thesis
  proof (cases d)
    case Nil
    with nd have "c = 0" using c(1) by simp
    then have "token_end seps ?m p = Some (p + length t)"
      using token_end_token [of t seps c pre p r'] t assms(2) Nil by (simp add: token_ok_def)
    moreover have "rd ?m (p + length t) = Some 0" using rd_at [of "pre @ t" "p + length t" c r'] assms(2) Nil \<open>c = 0\<close> by simp
    moreover have "rd ?m p = Some a" using rd_at [OF assms(2), of a "t' @ d @ c # r'"] a by simp
    ultimately show ?thesis
      unfolding m using assms(3) a Nil c(1) by (simp add: CSL_Strtokr_def Let_def)
  next
    case (Cons b d')
    then have b: "b \<noteq> 0" "IsDelimiter b seps" using d by (auto simp: sep_ok_def IsDelimiter_def)
    have "token_end seps ?m p = Some (p + length t)"
      using token_end_token [of t seps b pre p "d' @ c # r'"] t assms(2) b Cons by (simp add: token_ok_def)
    moreover have "rd ?m (p + length t) = Some b" using rd_at [of "pre @ t" "p + length t" b "d' @ c # r'"] assms(2) Cons by simp
    moreover have "rd ?m p = Some a" using rd_at [OF assms(2), of a "t' @ d @ c # r'"] a by simp
    moreover have "skip_delims seps ?m (p + length t) = Some (pre @ t @ replicate (length d) 0 @ c # r', p + length t + length d)"
      using skip_delims_sep [of d seps c "pre @ t" "p + length t" r'] d c(2) assms(2) by (simp add: sep_ok_def)
    ultimately show ?thesis
      unfolding m using assms(3) a b c(1) by (simp add: CSL_Strtokr_def Let_def)
  qed
qed

lemma Strtokr_end:
  assumes "length pre = p" and "(case src of Some q \<Rightarrow> q | None \<Rightarrow> lst) = p"
  shows "CSL_Strtokr (pre @ 0 # r) src s lst = Some (pre @ 0 # r, None, lst)"
  using assms(2) rd_at [OF assms(1), of 0 r] by (simp add: CSL_Strtokr_def Let_def)

lemma count_tokens:
  assumes "text_ok ts" and "length pre = p" and "(case src of Some q \<Rightarrow> q | None \<Rightarrow> lst) = p"
  shows "(do { (m, tok, cur) \<leftarrow> CSL_Strtokr (pre @ text_of ts @ 0 # r) src seps lst; token_loop m tok cur (Some n) None k })
    = Some (Some (n + length ts), None)"
  using assms
proof (induction ts arbitrary: pre p src lst n)
  case Nil
  then show ?case using Strtokr_end [OF Nil.prems(2,3)] by simp
next
  case (Cons x ts)
  obtain t d where x: "x = (t, d)" by (cases x)
  let ?pre = "pre @ t @ replicate (length d) 0"
  have s: "CSL_Strtokr (pre @ text_of (x # ts) @ 0 # r) src seps lst =
      Some (?pre @ text_of ts @ 0 # r, Some p, p + length t + length d)"
    using Strtokr_token [of t d ts pre p lst src r] Cons.prems by (simp add: x)
  have "(do { (m, tok, cur) \<leftarrow> CSL_Strtokr (?pre @ text_of ts @ 0 # r) None seps (p + length t + length d);
      token_loop m tok cur (Some (n + 1)) None k }) = Some (Some (n + 1 + length ts), None)"
    by (rule Cons.IH) (use Cons.prems text_ok_tail in auto)
  with s show ?case by simp
qed

lemma hex_digit_ok: "d < 16 \<Longrightarrow> hex_digit d \<noteq> 0 \<and> \<not> IsDelimiter (hex_digit d) seps"
proof -
  assume "d < 16"
  then have "d \<in> set [0 ..< 16]" by simp
  moreover have "\<forall>d \<in> set [0 ..< 16]. hex_digit d \<noteq> 0 \<and> \<not> IsDelimiter (hex_digit d) seps" by code_simp
  ultimately show ?thesis by blast
qed

lemma hex_digits_ok: "c \<in> set (hex_digits n v) \<Longrightarrow> c \<noteq> 0 \<and> \<not> IsDelimiter c seps"
  by (induction n) (auto simp: hex_digit_ok)

lemma uuid_token: "token_ok (uuid_text u)"
proof -
  have "\<not> IsDelimiter 0x5F seps" by code_simp
  then show ?thesis by (auto simp: token_ok_def uuid_text_def dest: hex_digits_ok)
qed

lemma fill_tokens:
  assumes "text_ok ts" and "length pre = p" and "(case src of Some q \<Rightarrow> q | None \<Rightarrow> lst) = p"
    and "map fst ts = map uuid_text us" and "\<forall>u \<in> set us. uuid_ok u \<and> ulData1 u < 2 ^ 31"
    and "length old = length us"
  shows "(do { (m, tok, cur) \<leftarrow> CSL_Strtokr (pre @ text_of ts @ 0 # r) src seps lst; token_loop m tok cur num (Some (done_us @ old)) (length done_us) })
    = Some (num, Some (done_us @ us))"
  using assms
proof (induction ts arbitrary: pre p src lst us old done_us)
  case Nil
  then show ?case using Strtokr_end [OF Nil.prems(2,3)] by simp
next
  case (Cons x ts)
  obtain t d where x: "x = (t, d)" by (cases x)
  from Cons.prems(4) obtain u us' where us: "us = u # us'" "t = uuid_text u" "map fst ts = map uuid_text us'" by (auto simp: x)
  from Cons.prems(6) obtain o1 old' where old: "old = o1 # old'" by (cases old) (auto simp: us)
  let ?pre = "pre @ t @ replicate (length d) 0"
  have s: "CSL_Strtokr (pre @ text_of (x # ts) @ 0 # r) src seps lst =
      Some (?pre @ text_of ts @ 0 # r, Some p, p + length t + length d)"
    using Strtokr_token [of t d ts pre p lst src r] Cons.prems by (simp add: x)
  have u: "UUID_UuidFromString (?pre @ text_of ts @ 0 # r) p = Some u"
    using uuid_from_text [of u pre p "replicate (length d) 0 @ text_of ts @ 0 # r"] Cons.prems(2,5) us by simp
  have "(do { (m, tok, cur) \<leftarrow> CSL_Strtokr (?pre @ text_of ts @ 0 # r) None seps (p + length t + length d);
      token_loop m tok cur num (Some ((done_us @ [u]) @ old')) (length (done_us @ [u])) }) = Some (num, Some ((done_us @ [u]) @ us'))"
    by (rule Cons.IH) (use Cons.prems text_ok_tail us old in auto)
  with s u us old show ?case by simp
qed

text \<open>The fault of storing more identifiers than the array has.\<close>

lemma fill_overrun:
  assumes "text_ok ts" and "length pre = p" and "(case src of Some q \<Rightarrow> q | None \<Rightarrow> lst) = p"
    and "map fst ts = map uuid_text us" and "length old < length us"
  shows "(do { (m, tok, cur) \<leftarrow> CSL_Strtokr (pre @ text_of ts @ 0 # r) src seps lst; token_loop m tok cur num (Some (done_us @ old)) (length done_us) })
    = None"
  using assms
proof (induction ts arbitrary: pre p src lst us old done_us)
  case Nil
  then show ?case by simp
next
  case (Cons x ts)
  obtain t d where x: "x = (t, d)" by (cases x)
  from Cons.prems(4) obtain u us' where us: "us = u # us'" "t = uuid_text u" "map fst ts = map uuid_text us'" by (auto simp: x)
  let ?pre = "pre @ t @ replicate (length d) 0"
  have s: "CSL_Strtokr (pre @ text_of (x # ts) @ 0 # r) src seps lst =
      Some (?pre @ text_of ts @ 0 # r, Some p, p + length t + length d)"
    using Strtokr_token [of t d ts pre p lst src r] Cons.prems by (simp add: x)
  show ?case
  proof (cases old)
    case Nil
    then show ?thesis using s by (cases "UUID_UuidFromString (?pre @ text_of ts @ 0 # r) p") (simp_all add: wr_def)
  next
    case old: (Cons o1 old')
    have "(do { (m, tok, cur) \<leftarrow> CSL_Strtokr (?pre @ text_of ts @ 0 # r) None seps (p + length t + length d);
        token_loop m tok cur num (Some ((done_us @ [v]) @ old')) (length (done_us @ [v])) }) = None" for v
      by (rule Cons.IH) (use Cons.prems text_ok_tail us old in auto)
    then show ?thesis using s old by (cases "UUID_UuidFromString (?pre @ text_of ts @ 0 # r) p") simp_all
  qed
qed

text \<open>What opening the library, finding the section and copying it give: a status or the buffer.\<close>

definition section_bytes :: "dynreg_env \<Rightarrow> name \<Rightarrow> name \<Rightarrow> (int + u8 list) option" where
  "section_bytes env path sect_name = do {
     (desc, opened) \<leftarrow> DLOAD_module_open (ld env) (Some \<lparr>filePointer = fopen_file env path, posn = 0\<rparr>) (Some (DLsym_init empty_symtab));
     (if \<not> opened then Some (Inl (- EBADF))
      else do {
        r \<leftarrow> DLOAD_GetSectionInfo (Some desc) sect_name;
        (case r of None \<Rightarrow> Some (Inl (- ENXIO))
         | Some i \<Rightarrow> do {
             sect \<leftarrow> rd (sect_hdrs desc) i;
             (if \<not> calloc_ok env (unat (DOFF_ALIGN (ds_size sect))) then Some (Inl (- ENOMEM))
              else do {
                (_, buf, got) \<leftarrow> DLOAD_GetSection (Some desc) (Some i) (replicate (unat (DOFF_ALIGN (ds_size sect))) 0);
                Some (if got then Inr buf else Inl (- EPERM)) }) }) }) }"

lemma getSectDataFromLib_bytes:
  "getSectDataFromLib env path sect_name pNumNodes pLibUUIDs phase =
     (let num = (if pLibUUIDs = None then map_option (\<lambda>_. 0) pNumNodes else pNumNodes)
      in do {
        r \<leftarrow> section_bytes env path sect_name;
        (case r of Inl e \<Rightarrow> Some (e, num, pLibUUIDs, phase)
         | Inr buf \<Rightarrow> do {
             (m, pToken, pszCur) \<leftarrow> CSL_Strtokr buf (Some 0) seps 0;
             (case phase of
                Some ph \<Rightarrow> do { (us, ph1) \<leftarrow> read_phase m pToken pszCur pLibUUIDs ph; Some (0, num, us, Some ph1) }
              | None \<Rightarrow> do { (num1, us) \<leftarrow> token_loop m pToken pszCur num pLibUUIDs 0; Some (0, num1, us, phase) }) }) })"
  unfolding getSectDataFromLib_def section_bytes_def Let_def
  by (auto simp: bind_assoc split_beta' intro!: Option.bind_cong split: option.splits if_splits)

subsection \<open>What the commands do\<close>

definition node_calls :: "bool \<Rightarrow> name \<Rightarrow> DSP_UUID \<Rightarrow> bridge_call list" where
  "node_calls reg path u = (if reg then [RegisterObject u DSP_DCDNODETYPE path, RegisterObject u DSP_DCDLIBRARYTYPE path]
     else [UnregisterObject u DSP_DCDLIBRARYTYPE, UnregisterObject u DSP_DCDNODETYPE])"

definition env_ok :: "dynreg_env \<Rightarrow> bool" where
  "env_ok env \<longleftrightarrow> (\<forall>n. calloc_ok env n) \<and> (\<forall>log c. 0 \<le> bridge_status env log c)"

lemma node_loop_all:
  assumes "env_ok env" and "0 \<le> status" and "i + k \<le> length us"
  shows "\<exists>st. 0 \<le> st \<and> node_loop env reg path us i k log status = Some (log @ concat (map (node_calls reg path) (take k (drop i us))), st)"
  using assms(2,3)
proof (induction k arbitrary: i log status)
  case 0
  then show ?case by simp
next
  case (Suc k)
  then have d: "drop i us = us ! i # drop (Suc i) us" by (simp add: Cons_nth_drop_Suc)
  let ?log = "log @ node_calls reg path (us ! i)"
  have "\<exists>s. 0 \<le> s \<and> node_loop env reg path us i (Suc k) log status = node_loop env reg path us (Suc i) k ?log s"
    using Suc.prems assms(1)
    by (auto simp: bridge_def env_ok_def object_call_def node_calls_def Let_def split: prod.splits)
  then obtain s where s: "0 \<le> s" "node_loop env reg path us i (Suc k) log status = node_loop env reg path us (Suc i) k ?log s" by blast
  from Suc.IH [OF s(1), of "Suc i" ?log] Suc.prems s(2) d show ?case by (auto simp del: node_loop.simps)
qed

text \<open>The objects the bridge knows after a sequence of calls that all succeed.\<close>

definition registry_step :: "(DSP_UUID \<times> DSP_DCDOBJTYPE) set \<Rightarrow> bridge_call \<Rightarrow> (DSP_UUID \<times> DSP_DCDOBJTYPE) set" where
  "registry_step R c = (case c of RegisterObject u ty _ \<Rightarrow> insert (u, ty) R | UnregisterObject u ty \<Rightarrow> R - {(u, ty)})"

lemma registry_nodes:
  "foldl registry_step R (concat (map (node_calls True path) us)) = R \<union> set us \<times> {DSP_DCDNODETYPE, DSP_DCDLIBRARYTYPE}"
  "foldl registry_step R (concat (map (node_calls False path) us)) = R - set us \<times> {DSP_DCDNODETYPE, DSP_DCDLIBRARYTYPE}"
proof (induction us arbitrary: R)
  case (Cons u us)
  { case 1 show ?case using Cons(1) by (auto simp: node_calls_def registry_step_def) }
  { case 2 show ?case using Cons(2) by (auto simp: node_calls_def registry_step_def) }
qed simp_all

lemma nodes_command:
  assumes "env_ok env" and "section_bytes env path PHASESECT = Some (Inl (- ENXIO))"
    and "section_bytes env path DCD_REGISTER_SECTION = Some (Inr (text_of ts @ 0 # r))" and "text_ok ts"
    and "map fst ts = map uuid_text us" and "\<forall>u \<in> set us. uuid_ok u \<and> ulData1 u < 2 ^ 31"
  shows "\<exists>st. 0 \<le> st \<and> dynreg_command env reg path = Some (concat (map (node_calls reg path) us), st)"
proof -
  have n: "length ts = length us" using assms(5) by (metis length_map)
  have c: "calloc_uuids env k = Some (replicate k no_uuid)" for k using assms(1) by (simp add: calloc_uuids_def env_ok_def)
  have p: "phase_part env reg path = Some ([], Inr False)"
    using assms(2) by (simp add: phase_part_def getSectDataFromLib_bytes Let_def)
  have g1: "getSectDataFromLib env path DCD_REGISTER_SECTION (Some 0) None None = Some (0, Some (length us), None, None)"
    using count_tokens [OF assms(4), of "[]" 0 0 "Some 0" r 0 0] n assms(3)
    by (cases "CSL_Strtokr (text_of ts @ 0 # r) (Some 0) seps 0") (auto simp: getSectDataFromLib_bytes Let_def)
  have g2: "getSectDataFromLib env path DCD_REGISTER_SECTION (Some (length us)) (Some (replicate (length us) no_uuid)) None
      = Some (0, Some (length us), Some us, None)"
    using fill_tokens [OF assms(4), of "[]" 0 0 "Some 0" us "replicate (length us) no_uuid" r "Some (length us)" "[]"] assms(3,5,6)
    by (cases "CSL_Strtokr (text_of ts @ 0 # r) (Some 0) seps 0") (auto simp: getSectDataFromLib_bytes Let_def)
  from node_loop_all [OF assms(1), of 0 0 "length us" us reg path "[]"] obtain st where
    "0 \<le> st" "node_loop env reg path us 0 (length us) [] 0 = Some (concat (map (node_calls reg path) us), st)" by auto
  then show ?thesis by (simp add: dynreg_command_def p nodes_part_def g1 g2 c ENXIO_def)
qed


lemma chars_ok [simp]: "0 \<notin> set (chars ''create'')" "0 \<notin> set (chars ''execute'')" "0 \<notin> set (chars ''execute1'')" "0 \<notin> set (chars ''delete'')"
  by code_simp+

definition phase_of :: "u8 list \<Rightarrow> NLDR_PHASE option" where
  "phase_of w = (if w = chars ''create'' then Some NLDR_CREATE else if w = chars ''execute'' \<or> w = chars ''execute1'' then Some NLDR_EXECUTE
     else if w = chars ''delete'' then Some NLDR_DELETE else None)"

lemma phase_section:
  assumes "section_bytes env path PHASESECT = Some (Inr (text_of [(uuid_text u, d), (w, e)] @ 0 # r))" and "text_ok [(uuid_text u, d), (w, e)]"
    and "uuid_ok u" and "ulData1 u < 2 ^ 31" and "phase_of w = Some ph"
  shows "getSectDataFromLib env path PHASESECT None (Some [no_uuid]) (Some None) = Some (0, None, Some [u], Some (Some ph))"
proof -
  let ?m1 = "uuid_text u @ replicate (length d) 0 @ text_of [(w, e)] @ 0 # r"
  let ?pre = "uuid_text u @ replicate (length d) 0"
  let ?m2 = "uuid_text u @ replicate (length d) 0 @ w @ replicate (length e) 0 @ 0 # r"
  have s1: "CSL_Strtokr (text_of [(uuid_text u, d), (w, e)] @ 0 # r) (Some 0) seps 0 = Some (?m1, Some 0, 36 + length d)"
    using Strtokr_token [OF assms(2), of "[]" 0 0 "Some 0" r] by simp
  have s2: "CSL_Strtokr ?m1 None seps (36 + length d) = Some (?m2, Some (36 + length d), 36 + length d + length w + length e)"
    using Strtokr_token [of w e "[]" ?pre "36 + length d" "36 + length d" None r] assms(2) by simp
  have u: "UUID_UuidFromString ?m1 0 = Some u" using uuid_from_text [OF assms(3), of "[]" 0] assms(4) by simp
  have z: "0 \<notin> set w" using assms(2) by (auto simp: token_ok_def)
  have "\<exists>t. drop (36 + length d) ?m2 = w @ 0 # t"
    by (cases e) simp_all
  then obtain t where t: "drop (36 + length d) ?m2 = w @ 0 # t" by blast
  have eq: "equals_at a ?m2 (36 + length d) = Some (a = w)" if "0 \<notin> set a" for a
    using equals_at_string [OF t that z] .
  show ?thesis
    using assms(1,5) s1 s2 u
    by (simp add: getSectDataFromLib_bytes Let_def read_phase_def eq) (auto simp: phase_of_def split: if_splits)
qed

text \<open>
  A phase library that registers no nodes: the object of its phase is passed to the bridge, but
  whatever the bridge answers, the command ends with the status of the missing node section, so
  that the utility reports a failure after a successful registration.
\<close>

theorem phase_library_reports_failure:
  assumes "section_bytes env path PHASESECT = Some (Inr (text_of [(uuid_text u, d), (w, e)] @ 0 # r))" and "text_ok [(uuid_text u, d), (w, e)]"
    and "uuid_ok u" and "ulData1 u < 2 ^ 31" and "phase_of w = Some ph" and "phase_type ph = Some ty"
    and "section_bytes env path DCD_REGISTER_SECTION = Some (Inl (- ENXIO))" and "\<forall>n. calloc_ok env n"
  shows "dynreg_command env reg path = Some ([object_call reg u ty path], - ENXIO)"
proof -
  have "calloc_uuids env 1 = Some [no_uuid]" using assms(8) by (simp add: calloc_uuids_def)
  then have "phase_part env reg path = Some ([object_call reg u ty path], Inr True)"
    using phase_section [OF assms(1-5)] assms(6) by (simp add: phase_part_def ENXIO_def bridge_def)
  then show ?thesis
    using assms(7) by (simp add: dynreg_command_def nodes_part_def getSectDataFromLib_bytes Let_def)
qed

text \<open>
  A dependent library, with neither phase nor nodes, has memory for one identifier only: where
  its section holds a second one, it is stored past the end of the array.
\<close>

theorem dependent_library_overruns:
  assumes "env_ok env" and "section_bytes env path PHASESECT = Some (Inl (- ENXIO))" and "section_bytes env path DCD_REGISTER_SECTION = Some (Inl (- ENXIO))"
    and "section_bytes env path DEPUUIDSECT = Some (Inr (text_of ts @ 0 # r))" and "text_ok ts" and "map fst ts = map uuid_text us"
    and "2 \<le> length us"
  shows "dynreg_command env reg path = None"
proof -
  have c: "calloc_uuids env 1 = Some [no_uuid]" using assms(1) by (simp add: calloc_uuids_def env_ok_def)
  have p: "phase_part env reg path = Some ([], Inr False)"
    using assms(2) by (simp add: phase_part_def getSectDataFromLib_bytes Let_def)
  have "getSectDataFromLib env path DEPUUIDSECT (Some 0) (Some [no_uuid]) None = None"
    using fill_overrun [OF assms(5), of "[]" 0 0 "Some 0" us "[no_uuid]" r "Some 0" "[]"] assms(4,6,7)
    by (simp add: getSectDataFromLib_bytes Let_def bind_eq_None_conv split_beta')
  then show ?thesis
    using assms(3) c by (simp add: dynreg_command_def p nodes_part_def getSectDataFromLib_bytes [of _ _ DCD_REGISTER_SECTION] Let_def ENXIO_def)
qed

text \<open>What a well-formed library file gives.\<close>

lemma section_bytes_file:
  assumes "doff_file_ok mp h v hdrs strs secs" and "fopen_file env path = Some (bytes_of hdrs @ bytes_of strs @ bytes_of secs @ rest)"
    and "\<forall>es b n. host_allocate (ld env) es b n \<noteq> None" and "\<forall>n. calloc_ok env n"
    and "decode_all 7 decode_scnhdr (unat (df_no_scns h)) (logical mp secs) = Some hs" and "4 * k = unat (DOFF_ALIGN (df_scn_name_size h))"
    and "names_at (bytes_of (logical mp (take k strs))) hs nms" and "0 \<notin> set a"
  shows "first_index (\<lambda>nm. nm = a) nms = None \<Longrightarrow> section_bytes env path a = Some (Inl (- ENXIO))"
    and "first_index (\<lambda>nm. nm = a) nms = Some i \<Longrightarrow> p = unat (DOFF_ALIGN (ds_first_pkt_offset (hs ! i))) \<Longrightarrow> p < 2 ^ 31
      \<Longrightarrow> drop p (bytes_of hdrs @ bytes_of strs @ bytes_of secs @ rest) = bytes_of (packet_words pks) @ rest2
      \<Longrightarrow> \<forall>pk \<in> set pks. packet_ok mp pk \<Longrightarrow> ds_nipacks (hs ! i) = of_nat (length pks) \<Longrightarrow> length pks < 2 ^ 31
      \<Longrightarrow> 4 * length (packet_image mp pks) = unat (DOFF_ALIGN (ds_size (hs ! i)))
      \<Longrightarrow> section_bytes env path a = Some (Inr (bytes_of (packet_image mp pks)))"
proof -
  let ?f = "bytes_of hdrs @ bytes_of strs @ bytes_of secs @ rest"
  let ?st = "\<lparr>filePointer = fopen_file env path, posn = 0\<rparr>"
  from module_open_file [OF assms(1) _ _ assms(3), of ?st rest "DLsym_init empty_symtab"] assms(2) obtain s hs' k' where
    o: "DLOAD_module_open (ld env) (Some ?st) (Some (DLsym_init empty_symtab)) = Some (s, True)" and
    s: "dfile_hdr s = h" "reorder_map s = mp" "str_head s = Some (bytes_of (logical mp (take k' strs)))" "sect_hdrs s = hs'"
      "decode_all 7 decode_scnhdr (unat (df_no_scns h)) (logical mp secs) = Some hs'" "4 * k' = unat (DOFF_ALIGN (df_scn_name_size h))"
    by auto
  have eq: "hs' = hs" "k' = k" using s(5,6) assms(5,6) by simp_all
  have fp: "filePointer (strm s) = Some ?f"
    using o assms(2) module_open_stream by fastforce
  have l: "length nms = unat (df_no_scns h)" "length hs = unat (df_no_scns h)"
    using assms(7) decode_all_length [OF assms(5)] by (simp_all add: names_at_def list_all2_lengthD)
  have g: "DLOAD_GetSectionInfo (Some s) a = Some (first_index (\<lambda>nm. nm = a) nms)"
    using section_from_closed [of s _ nms a 0 "length nms"] s assms(7,8) eq l by (simp add: DLOAD_GetSectionInfo_def option.map_ident)
  show "first_index (\<lambda>nm. nm = a) nms = None \<Longrightarrow> section_bytes env path a = Some (Inl (- ENXIO))"
    by (simp add: section_bytes_def o g)
  assume i: "first_index (\<lambda>nm. nm = a) nms = Some i" and p: "p = unat (DOFF_ALIGN (ds_first_pkt_offset (hs ! i)))" "p < 2 ^ 31"
    and d: "drop p ?f = bytes_of (packet_words pks) @ rest2" and ok: "\<forall>pk \<in> set pks. packet_ok mp pk"
    and n: "ds_nipacks (hs ! i) = of_nat (length pks)" "length pks < 2 ^ 31"
    and sz: "4 * length (packet_image mp pks) = unat (DOFF_ALIGN (ds_size (hs ! i)))"
  have il: "i < length hs" using first_index_Some [OF i] l by simp
  from get_section_file [of i s "hs ! i" ?f p pks rest2 "replicate (unat (DOFF_ALIGN (ds_size (hs ! i)))) 0"] il s eq fp p d ok n sz
  obtain s' where "DLOAD_GetSection (Some s) (Some i) (replicate (unat (DOFF_ALIGN (ds_size (hs ! i)))) 0)
      = Some (Some s', bytes_of (packet_image mp pks), True)" by auto
  with il s eq assms(4) i show "section_bytes env path a = Some (Inr (bytes_of (packet_image mp pks)))"
    by (simp add: section_bytes_def o g)
qed

subsection \<open>Sample libraries\<close>

text \<open>Files of one section with one packet, given by the words of the section name and of the text.\<close>

definition lib_filehdr :: "u32 \<Rightarrow> u32 \<Rightarrow> doff_filehdr" where
  "lib_filehdr ssz chk = sample_filehdr\<lparr>df_strtab_size := ssz, df_scn_name_size := ssz, df_checksum := chk\<rparr>"

definition lib_hdrs :: "u32 \<Rightarrow> u32 \<Rightarrow> u32 \<Rightarrow> u32 \<Rightarrow> u32 list" where
  "lib_hdrs ssz chk schk vchk = [ssz, 0, 0x10203, ssz, 0, 0x10001, 0x990000, 0, chk, 0, schk, 0, 0, vchk]"

definition lib_env :: "u32 list \<Rightarrow> u32 list \<Rightarrow> u32 list \<Rightarrow> u32 list \<times> u32 list \<Rightarrow> dynreg_env" where
  "lib_env hdrs strs secs pk = \<lparr>ld = sample_env, fopen_file = \<lambda>_. Some (bytes_of hdrs @ bytes_of strs @ bytes_of secs @ bytes_of (packet_words [pk])),
     calloc_ok = \<lambda>_. True, bridge_status = \<lambda>_ _. 0, open_status = 0, enum_node = \<lambda>_. (0, no_uuid, 0)\<rparr>"

lemma lib_env_ok: "env_ok (lib_env hdrs strs secs pk)" "\<forall>n. calloc_ok (lib_env hdrs strs secs pk) n"
  by (simp_all add: lib_env_def env_ok_def)

lemma lib_ok:
  assumes "4 * length strs = unat ssz" and "DOFF_ALIGN ssz = ssz" and "0 < ssz" and "ssz \<le> MAX_REASONABLE_STRINGTAB"
    and "sum_list (take 9 (lib_hdrs ssz chk schk vchk)) = - 1" and "sum_list (drop 9 (lib_hdrs ssz chk schk vchk)) = - 1"
    and "length secs = 7" and "NOT (sum_list secs) = schk"
  shows "doff_file_ok 0 (lib_filehdr ssz chk) \<lparr>dv_timdat = 0, dv_scn_rec_checksum = schk, dv_str_tab_checksum = 0, dv_sym_tab_checksum = 0,
     dv_verify_rec_checksum = vchk\<rparr> (lib_hdrs ssz chk schk vchk) strs secs"
proof -
  have z: "DOFF_ALIGN ssz = of_nat (4 * length strs)" unfolding assms(1,2) by simp
  have l: "4 * length strs \<le> 0x100000" using assms(1,4) by (simp add: MAX_REASONABLE_STRINGTAB_def word_le_nat_alt)
  have n: "lo16 0x10001 = 1" "hi16 0x10001 = 1" "lo16 0x990000 = 0" "hi16 0x990000 = 0x99" by code_simp+
  have "decode_filehdr (take 9 (lib_hdrs ssz chk schk vchk)) = Some (lib_filehdr ssz chk)"
    by (simp add: lib_hdrs_def lib_filehdr_def sample_filehdr_def n)
  moreover have "decode_verify (drop 9 (lib_hdrs ssz chk schk vchk)) = Some \<lparr>dv_timdat = 0, dv_scn_rec_checksum = schk,
      dv_str_tab_checksum = 0, dv_sym_tab_checksum = 0, dv_verify_rec_checksum = vchk\<rparr>" by (simp add: lib_hdrs_def)
  moreover have "file_map 0 (lib_hdrs ssz chk schk vchk ! 2)" "length (lib_hdrs ssz chk schk vchk) = 14"
    by (simp_all add: lib_hdrs_def file_map_def BYTE_RESHUFFLE_VALUE_def)
  moreover have "4 * length strs < 2 ^ 31 - 56" using l by simp
  moreover have "df_target_id (lib_filehdr ssz chk) \<in> {TARGET_ID, TMS470_ID}" "df_doff_version (lib_filehdr ssz chk) = DOFF0"
    "df_strtab_size (lib_filehdr ssz chk) = ssz" "df_scn_name_size (lib_filehdr ssz chk) = ssz" "df_no_scns (lib_filehdr ssz chk) = 1"
    by (simp_all add: lib_filehdr_def sample_filehdr_def TARGET_ID_def DOFF0_def)
  moreover have "(1 :: u16) \<le> MAX_REASONABLE_SECTIONS" "unat (1 :: u16) = 1" by (simp_all add: MAX_REASONABLE_SECTIONS_def)
  moreover have "DOFF_ALIGN ssz \<noteq> 0" using assms(2,3) by auto
  ultimately show ?thesis
    unfolding doff_file_ok_def logical_Nil using assms(3-8) z by (intro conjI) simp_all
qed

definition node_env :: dynreg_env where
  "node_env = lib_env (lib_hdrs 0x10 0xFF64FDDB 0xFFFFFF72 0x8D) [0x6463642E, 0x6765725F, 0x65747369, 0x72]
     [0, 0, 0, 0x28, 0, 0x64, 1] ([0, 0x28, 0xF5CDC8B0],
     [0x33413937, 0x33423843, 0x4635395F, 0x30345F32, 0x395F4633, 0x5F423441, 0x30384643, 0x33373735,
     0x31343530, 0])"

definition phase_env :: dynreg_env where
  "phase_env = lib_env (lib_hdrs 0x14 0xFF64FDD3 0xFFFFFF66 0x99) [0x7073642E, 0x64697262, 0x705F6567, 0x74636573, 0]
     [0, 0, 0, 0x30, 0, 0x68, 1] ([0, 0x30, 0x1DF64717],
     [0x33413937, 0x33423843, 0x4635395F, 0x30345F32, 0x395F4633, 0x5F423441, 0x30384643, 0x33373735,
     0x31343530, 0x7263202C, 0x65746165, 0])"

definition dependent_env :: dynreg_env where
  "dependent_env = lib_env (lib_hdrs 0x10 0xFF64FDDB 0xFFFFFF4E 0xB1) [0x7073642E, 0x64697262, 0x755F6567, 0x646975]
     [0, 0, 0, 0x4C, 0, 0x64, 1] ([0, 0x4C, 0xC3969F58],
     [0x33413937, 0x33423843, 0x4635395F, 0x30345F32, 0x395F4633, 0x5F423441, 0x30384643, 0x33373735,
     0x31343530, 0x4139372C, 0x42384333, 0x35395F33, 0x345F3246, 0x5F463330, 0x42344139, 0x3846435F,
     0x37373530, 0x34353033, 0x31])"

lemma lib_section:
  assumes "doff_file_ok 0 h v hdrs strs secs" and "unat (df_no_scns h) = 1" and "decode_scnhdr secs = Some sh"
    and "4 * length strs = unat (DOFF_ALIGN (df_scn_name_size h))" and "bytes_of strs = nm @ 0 # z" and "0 \<notin> set nm" and "ds_offset sh = 0"
    and "packet_ok 0 pk" and "84 + 4 * length strs = unat (DOFF_ALIGN (ds_first_pkt_offset sh))" and "ds_nipacks sh = 1"
    and "4 * length (snd pk) = unat (DOFF_ALIGN (ds_size sh))" and "0 \<notin> set a" and "length strs < 100"
  shows "section_bytes (lib_env hdrs strs secs pk) path a = Some (if a = nm then Inr (bytes_of (snd pk)) else Inl (- ENXIO))"
proof -
  let ?e = "lib_env hdrs strs secs pk" and ?f = "bytes_of hdrs @ bytes_of strs @ bytes_of secs @ bytes_of (packet_words [pk])"
  have "length hdrs = 14" "length secs = 7 * unat (df_no_scns h)" using assms(1) unfolding doff_file_ok_def by blast+
  then have lh: "length hdrs = 14" and ls: "length secs = 7" using assms(2) by simp_all
  have f: "fopen_file ?e path = Some ?f" "\<forall>es b n. host_allocate (ld ?e) es b n \<noteq> None"
    by (simp_all add: lib_env_def sample_env_def)
  have d: "decode_all 7 decode_scnhdr (unat (df_no_scns h)) (logical 0 secs) = Some [sh]"
    using assms(2,3) ls by simp
  have n: "names_at (bytes_of (logical 0 (take (length strs) strs))) [sh] [nm]"
    using assms(5-7) by (simp add: names_at_def)
  note F = section_bytes_file [OF assms(1) f lib_env_ok(2) d assms(4) n assms(12)]
  show ?thesis
  proof (cases "a = nm")
    case False
    then show ?thesis using F(1) by auto
  next
    case True
    have dr: "drop (unat (DOFF_ALIGN (ds_first_pkt_offset sh))) ?f = bytes_of (packet_words [pk]) @ []"
      using lh ls unfolding assms(9) [symmetric] by simp
    have p: "unat (DOFF_ALIGN (ds_first_pkt_offset sh)) < 2 ^ 31" using assms(9,13) by simp
    have im: "packet_image 0 [pk] = snd pk" by (cases pk) simp
    have fi: "first_index (\<lambda>x. x = a) [nm] = Some 0" using True by simp
    have "section_bytes ?e path a = Some (Inr (bytes_of (packet_image 0 [pk])))"
      by (rule F(2) [OF fi refl, of "[pk]" "[]"]) (use p dr assms(8,10,11) im in simp_all)
    then show ?thesis using True im by simp
  qed
qed

lemma packet_okI:
  assumes "fst pk = [0, sz, chk]" and "DOFF_ALIGN sz = of_nat (4 * length (snd pk))" and "snd pk \<noteq> []"
    and "4 * length (snd pk) \<le> 1024" and "sum_list (fst pk) + sum_list (snd pk) = - 1"
  shows "packet_ok 0 pk"
  using assms by (cases pk) (simp add: packet_ok_def IMAGE_PACKET_SIZE_def)

lemma section_names [simp]: "0 \<notin> set PHASESECT" "0 \<notin> set DCD_REGISTER_SECTION" "0 \<notin> set DEPUUIDSECT"
  "PHASESECT \<noteq> DCD_REGISTER_SECTION" "PHASESECT \<noteq> DEPUUIDSECT" "DCD_REGISTER_SECTION \<noteq> PHASESECT" "DCD_REGISTER_SECTION \<noteq> DEPUUIDSECT"
  by code_simp+

lemma hex_digits_numeral:
  "hex_digits (numeral k) v = hex_digit (v div 16 ^ pred_numeral k mod 16) # hex_digits (pred_numeral k) v"
  using hex_digits.simps(2) [of "pred_numeral k" v] by (simp only: numeral_eq_Suc [of k])

lemma hex_digit_table:
  "hex_digit 0 = 0x30" "hex_digit (Suc 0) = 0x31" "hex_digit 2 = 0x32" "hex_digit 3 = 0x33" "hex_digit 4 = 0x34" "hex_digit 5 = 0x35"
  "hex_digit 6 = 0x36" "hex_digit 7 = 0x37" "hex_digit 8 = 0x38" "hex_digit 9 = 0x39" "hex_digit 10 = 0x41"
  "hex_digit 11 = 0x42" "hex_digit 12 = 0x43" "hex_digit 13 = 0x44" "hex_digit 14 = 0x45" "hex_digit 15 = 0x46"
  by (simp_all add: hex_digit_def)

lemma sample_text: "uuid_text sample_uuid =
    [0x37, 0x39, 0x41, 0x33, 0x43, 0x38, 0x42, 0x33, 0x5F, 0x39, 0x35, 0x46, 0x32, 0x5F, 0x34, 0x30, 0x33, 0x46,
     0x5F, 0x39, 0x41, 0x34, 0x42, 0x5F, 0x43, 0x46, 0x38, 0x30, 0x35, 0x37, 0x37, 0x33, 0x30, 0x35, 0x34, 0x31]"
  by (simp add: uuid_text_def sample_uuid_def hex_digits_numeral hex_digit_table)

lemma node_lib:
  shows "section_bytes node_env path DCD_REGISTER_SECTION = Some (Inr (text_of [(uuid_text sample_uuid, [])] @ 0 # [0, 0, 0]))"
    and "0 \<notin> set a \<Longrightarrow> a \<noteq> DCD_REGISTER_SECTION \<Longrightarrow> section_bytes node_env path a = Some (Inl (- ENXIO))"
proof -
  let ?st = "[0x6463642E, 0x6765725F, 0x65747369, 0x72] :: u32 list" and ?sec = "[0, 0, 0, 0x28, 0, 0x64, 1] :: u32 list"
  let ?pk = "([0, 0x28, 0xF5CDC8B0],
     [0x33413937, 0x33423843, 0x4635395F, 0x30345F32, 0x395F4633, 0x5F423441, 0x30384643, 0x33373735, 0x31343530, 0]) :: u32 list \<times> u32 list"
  have ok: "doff_file_ok 0 (lib_filehdr 0x10 0xFF64FDDB) \<lparr>dv_timdat = 0, dv_scn_rec_checksum = 0xFFFFFF72, dv_str_tab_checksum = 0,
      dv_sym_tab_checksum = 0, dv_verify_rec_checksum = 0x8D\<rparr> (lib_hdrs 0x10 0xFF64FDDB 0xFFFFFF72 0x8D) ?st ?sec"
    by (rule lib_ok) code_simp+
  have d: "decode_scnhdr ?sec = Some \<lparr>ds_offset = 0, ds_paddr = 0, ds_vaddr = 0, ds_size = 0x28, ds_page = 0, ds_flags = 0,
      ds_first_pkt_offset = 0x64, ds_nipacks = 1\<rparr>" by simp
  have b: "bytes_of ?st = DCD_REGISTER_SECTION @ 0 # [0, 0]" by code_simp
  have al: "DOFF_ALIGN 0x28 = of_nat (4 * length (snd ?pk))" by code_simp
  have sm: "sum_list (fst ?pk) + sum_list (snd ?pk) = - 1" by code_simp
  have pk: "packet_ok 0 ?pk" by (rule packet_okI [OF _ al _ _ sm]) simp_all
  have im: "bytes_of (snd ?pk) = text_of [(uuid_text sample_uuid, [])] @ 0 # [0, 0, 0]" unfolding sample_text by code_simp
  have n: "unat (df_no_scns (lib_filehdr 0x10 0xFF64FDDB)) = 1" "4 * length ?st = unat (DOFF_ALIGN (df_scn_name_size (lib_filehdr 0x10 0xFF64FDDB)))"
    "84 + 4 * length ?st = unat (DOFF_ALIGN 0x64)" "4 * length (snd ?pk) = unat (DOFF_ALIGN 0x28)" by code_simp+
  note L = lib_section [OF ok n(1) d n(2) b _ _ pk, of _ path]
  show "section_bytes node_env path DCD_REGISTER_SECTION = Some (Inr (text_of [(uuid_text sample_uuid, [])] @ 0 # [0, 0, 0]))"
    using L [of DCD_REGISTER_SECTION] n(3,4) im unfolding node_env_def by simp
  show "0 \<notin> set a \<Longrightarrow> a \<noteq> DCD_REGISTER_SECTION \<Longrightarrow> section_bytes node_env path a = Some (Inl (- ENXIO))"
    using L [of a] n(3,4) unfolding node_env_def by simp
qed

lemma phase_lib:
  shows "section_bytes phase_env path PHASESECT = Some (Inr (text_of [(uuid_text sample_uuid, [0x2C, 0x20]), (chars ''create'', [])] @ 0 # [0, 0, 0]))"
    and "0 \<notin> set a \<Longrightarrow> a \<noteq> PHASESECT \<Longrightarrow> section_bytes phase_env path a = Some (Inl (- ENXIO))"
proof -
  let ?st = "[0x7073642E, 0x64697262, 0x705F6567, 0x74636573, 0] :: u32 list" and ?sec = "[0, 0, 0, 0x30, 0, 0x68, 1] :: u32 list"
  let ?pk = "([0, 0x30, 0x1DF64717],
     [0x33413937, 0x33423843, 0x4635395F, 0x30345F32, 0x395F4633, 0x5F423441, 0x30384643, 0x33373735, 0x31343530, 0x7263202C, 0x65746165, 0]) :: u32 list \<times> u32 list"
  have ok: "doff_file_ok 0 (lib_filehdr 0x14 0xFF64FDD3) \<lparr>dv_timdat = 0, dv_scn_rec_checksum = 0xFFFFFF66, dv_str_tab_checksum = 0,
      dv_sym_tab_checksum = 0, dv_verify_rec_checksum = 0x99\<rparr> (lib_hdrs 0x14 0xFF64FDD3 0xFFFFFF66 0x99) ?st ?sec"
    by (rule lib_ok) code_simp+
  have d: "decode_scnhdr ?sec = Some \<lparr>ds_offset = 0, ds_paddr = 0, ds_vaddr = 0, ds_size = 0x30, ds_page = 0, ds_flags = 0,
      ds_first_pkt_offset = 0x68, ds_nipacks = 1\<rparr>" by simp
  have b: "bytes_of ?st = PHASESECT @ 0 # [0, 0, 0]" by code_simp
  have al: "DOFF_ALIGN 0x30 = of_nat (4 * length (snd ?pk))" by code_simp
  have sm: "sum_list (fst ?pk) + sum_list (snd ?pk) = - 1" by code_simp
  have pk: "packet_ok 0 ?pk" by (rule packet_okI [OF _ al _ _ sm]) simp_all
  have im: "bytes_of (snd ?pk) = text_of [(uuid_text sample_uuid, [0x2C, 0x20]), (chars ''create'', [])] @ 0 # [0, 0, 0]" unfolding sample_text by code_simp
  have n: "unat (df_no_scns (lib_filehdr 0x14 0xFF64FDD3)) = 1" "4 * length ?st = unat (DOFF_ALIGN (df_scn_name_size (lib_filehdr 0x14 0xFF64FDD3)))"
    "84 + 4 * length ?st = unat (DOFF_ALIGN 0x68)" "4 * length (snd ?pk) = unat (DOFF_ALIGN 0x30)" by code_simp+
  note L = lib_section [OF ok n(1) d n(2) b _ _ pk, of _ path]
  show "section_bytes phase_env path PHASESECT = Some (Inr (text_of [(uuid_text sample_uuid, [0x2C, 0x20]), (chars ''create'', [])] @ 0 # [0, 0, 0]))"
    using L [of PHASESECT] n(3,4) im unfolding phase_env_def by simp
  show "0 \<notin> set a \<Longrightarrow> a \<noteq> PHASESECT \<Longrightarrow> section_bytes phase_env path a = Some (Inl (- ENXIO))"
    using L [of a] n(3,4) unfolding phase_env_def by simp
qed

lemma dependent_lib:
  shows "section_bytes dependent_env path DEPUUIDSECT = Some (Inr (text_of [(uuid_text sample_uuid, [0x2C]), (uuid_text sample_uuid, [])] @ 0 # [0, 0]))"
    and "0 \<notin> set a \<Longrightarrow> a \<noteq> DEPUUIDSECT \<Longrightarrow> section_bytes dependent_env path a = Some (Inl (- ENXIO))"
proof -
  let ?st = "[0x7073642E, 0x64697262, 0x755F6567, 0x646975] :: u32 list" and ?sec = "[0, 0, 0, 0x4C, 0, 0x64, 1] :: u32 list"
  let ?pk = "([0, 0x4C, 0xC3969F58],
     [0x33413937, 0x33423843, 0x4635395F, 0x30345F32, 0x395F4633, 0x5F423441, 0x30384643, 0x33373735, 0x31343530, 0x4139372C, 0x42384333, 0x35395F33, 0x345F3246, 0x5F463330, 0x42344139, 0x3846435F, 0x37373530, 0x34353033, 0x31]) :: u32 list \<times> u32 list"
  have ok: "doff_file_ok 0 (lib_filehdr 0x10 0xFF64FDDB) \<lparr>dv_timdat = 0, dv_scn_rec_checksum = 0xFFFFFF4E, dv_str_tab_checksum = 0,
      dv_sym_tab_checksum = 0, dv_verify_rec_checksum = 0xB1\<rparr> (lib_hdrs 0x10 0xFF64FDDB 0xFFFFFF4E 0xB1) ?st ?sec"
    by (rule lib_ok) code_simp+
  have d: "decode_scnhdr ?sec = Some \<lparr>ds_offset = 0, ds_paddr = 0, ds_vaddr = 0, ds_size = 0x4C, ds_page = 0, ds_flags = 0,
      ds_first_pkt_offset = 0x64, ds_nipacks = 1\<rparr>" by simp
  have b: "bytes_of ?st = DEPUUIDSECT @ 0 # []" by code_simp
  have al: "DOFF_ALIGN 0x4C = of_nat (4 * length (snd ?pk))" by code_simp
  have sm: "sum_list (fst ?pk) + sum_list (snd ?pk) = - 1" by code_simp
  have pk: "packet_ok 0 ?pk" by (rule packet_okI [OF _ al _ _ sm]) simp_all
  have im: "bytes_of (snd ?pk) = text_of [(uuid_text sample_uuid, [0x2C]), (uuid_text sample_uuid, [])] @ 0 # [0, 0]" unfolding sample_text by code_simp
  have n: "unat (df_no_scns (lib_filehdr 0x10 0xFF64FDDB)) = 1" "4 * length ?st = unat (DOFF_ALIGN (df_scn_name_size (lib_filehdr 0x10 0xFF64FDDB)))"
    "84 + 4 * length ?st = unat (DOFF_ALIGN 0x64)" "4 * length (snd ?pk) = unat (DOFF_ALIGN 0x4C)" by code_simp+
  note L = lib_section [OF ok n(1) d n(2) b _ _ pk, of _ path]
  show "section_bytes dependent_env path DEPUUIDSECT = Some (Inr (text_of [(uuid_text sample_uuid, [0x2C]), (uuid_text sample_uuid, [])] @ 0 # [0, 0]))"
    using L [of DEPUUIDSECT] n(3,4) im unfolding dependent_env_def by simp
  show "0 \<notin> set a \<Longrightarrow> a \<noteq> DEPUUIDSECT \<Longrightarrow> section_bytes dependent_env path a = Some (Inl (- ENXIO))"
    using L [of a] n(3,4) unfolding dependent_env_def by simp
qed

lemma env_oks: "env_ok node_env" "env_ok phase_env" "env_ok dependent_env" "\<forall>n. calloc_ok phase_env n"
  by (simp_all add: node_env_def phase_env_def dependent_env_def lib_env_ok)

lemma sample_uuid_ok: "uuid_ok sample_uuid" "ulData1 sample_uuid < 2 ^ 31"
  by (simp_all add: sample_uuid_def uuid_ok_def)

lemma sample_texts:
  "text_ok [(uuid_text sample_uuid, [])]" "text_ok [(uuid_text sample_uuid, [0x2C, 0x20]), (chars ''create'', [])]"
  "text_ok [(uuid_text sample_uuid, [0x2C]), (uuid_text sample_uuid, [])]"
proof -
  have "token_ok (chars ''create'')" "sep_ok [0x2C, 0x20]" "sep_ok [0x2C]" "sep_ok []"
    by (simp_all add: token_ok_def sep_ok_def) code_simp+
  then show "text_ok [(uuid_text sample_uuid, [])]" "text_ok [(uuid_text sample_uuid, [0x2C, 0x20]), (chars ''create'', [])]"
    "text_ok [(uuid_text sample_uuid, [0x2C]), (uuid_text sample_uuid, [])]" by (simp_all add: uuid_token)
qed


theorem phase_library_reports_failure_witness:
  "dynreg_command phase_env True [] = Some ([RegisterObject sample_uuid DSP_DCDCREATELIBTYPE []], - ENXIO)"
proof -
  have p: "phase_of (chars ''create'') = Some NLDR_CREATE" "phase_type NLDR_CREATE = Some DSP_DCDCREATELIBTYPE"
    by (simp_all add: phase_of_def phase_type_def)
  have s: "section_bytes phase_env [] DCD_REGISTER_SECTION = Some (Inl (- ENXIO))" by (rule phase_lib(2)) simp_all
  from phase_library_reports_failure [OF phase_lib(1) sample_texts(2) sample_uuid_ok p s env_oks(4), of True]
  show ?thesis by (simp add: object_call_def)
qed

theorem dependent_library_overruns_witness:
  "dynreg_command dependent_env True [] = None"
proof -
  have m: "map fst [(uuid_text sample_uuid, [0x2C] :: u8 list), (uuid_text sample_uuid, [])] = map uuid_text [sample_uuid, sample_uuid]" by simp
  have s: "section_bytes dependent_env [] PHASESECT = Some (Inl (- ENXIO))" "section_bytes dependent_env [] DCD_REGISTER_SECTION = Some (Inl (- ENXIO))"
    by (rule dependent_lib(2); simp)+
  from dependent_library_overruns [OF env_oks(3) s dependent_lib(1) sample_texts(3) m]
  show ?thesis by simp
qed

subsection \<open>The command line\<close>

datatype DYNREG_COMMAND = DYNREG_LONGLIST | DYNREG_SHORTLIST | DYNREG_REGLIB | DYNREG_UREGLIB | DYNREG_CMDNULL

text \<open>
  The path is copied without a bound into a buffer of 256 characters; the argument after the last
  one is a null pointer.
\<close>

definition copy_path :: "u8 list \<Rightarrow> name \<Rightarrow> u8 list option" where
  "copy_path szLibPath a = (if length a < length szLibPath then Some (a @ 0 # drop (length a + 1) szLibPath) else None)"

fun args_loop :: "name list \<Rightarrow> DYNREG_COMMAND \<Rightarrow> bool \<Rightarrow> u8 list \<Rightarrow> (int \<times> DYNREG_COMMAND \<times> bool \<times> u8 list) option" where
  "args_loop [] cmd verbose szLibPath = Some (0, cmd, verbose, szLibPath)"
| "args_loop (a # argv) cmd verbose szLibPath =
     (if a = chars ''-v'' then args_loop argv cmd True szLibPath
      else if a = chars ''-ln'' then args_loop argv DYNREG_LONGLIST verbose szLibPath
      else if a = chars ''-ls'' then args_loop argv DYNREG_SHORTLIST verbose szLibPath
      else if a = chars ''-r'' then
        (case argv of [] \<Rightarrow> None
         | p # argv1 \<Rightarrow> do { path \<leftarrow> copy_path szLibPath p; args_loop argv1 DYNREG_REGLIB verbose path })
      else if a = chars ''-u'' then
        (case argv of [] \<Rightarrow> None
         | p # argv1 \<Rightarrow> do { path \<leftarrow> copy_path szLibPath p; args_loop argv1 DYNREG_UREGLIB verbose path })
      else Some (- EPERM, cmd, verbose, szLibPath))"

definition ProcessArgs :: "name list \<Rightarrow> u8 list \<Rightarrow> (int \<times> DYNREG_COMMAND \<times> bool \<times> u8 list) option" where
  "ProcessArgs argv szLibPath =
     (if length argv < 2 \<or> length argv > 5 then Some (- EPERM, DYNREG_CMDNULL, False, szLibPath)
      else args_loop (tl argv) DYNREG_CMDNULL False szLibPath)"

text \<open>
  The listing: every call of the enumeration stores the number of nodes again. The long form
  converts the identifier into the 36 characters of \<open>szUuid\<close>.
\<close>

function list_loop :: "dynreg_env \<Rightarrow> bool \<Rightarrow> nat \<Rightarrow> u32 \<Rightarrow> u8 list \<Rightarrow> int option" where
  "list_loop env fShort uIndex uNumNodes szUuid =
     (if uIndex < unat uNumNodes then
        (let (status, u, n) = enum_node env uIndex
         in do {
           szUuid1 \<leftarrow> (if fShort then Some szUuid else UUID_UuidToString u szUuid MAXUUIDLEN);
           (if status < 0 then Some status else list_loop env fShort (uIndex + 1) n szUuid1) })
      else Some 0)"
  by pat_completeness auto
termination
proof (relation "measure (\<lambda>(env, fShort, i, n, b). 2 ^ 32 - i)", goal_cases)
  case (2 env fShort i n b x y z st u v)
  then show ?case using unat_less(3) [of n] by (simp del: unat_less)
qed simp

declare list_loop.simps [simp del]

definition dynreg_list :: "dynreg_env \<Rightarrow> bool \<Rightarrow> int option" where
  "dynreg_list env fShort =
     (let (status, _, n) = enum_node env 0
      in if status < 0 then Some status else list_loop env fShort 0 n (replicate 36 0))"

text \<open>The two cases of the command, which the source writes out one after the other.\<close>

definition dynreg_register :: "dynreg_env \<Rightarrow> name \<Rightarrow> (bridge_call list \<times> int) option" where
  "dynreg_register env path = dynreg_command env True path"

definition dynreg_unregister :: "dynreg_env \<Rightarrow> name \<Rightarrow> (bridge_call list \<times> int) option" where
  "dynreg_unregister env path = dynreg_command env False path"

definition dynreg_main :: "dynreg_env \<Rightarrow> name list \<Rightarrow> (bridge_call list \<times> int) option" where
  "dynreg_main env argv =
     (if open_status env < 0 then Some ([], - 1)
      else do {
        (status, cmd, _, buf) \<leftarrow> ProcessArgs argv (replicate 256 0);
        let path = takeWhile (\<lambda>c. c \<noteq> 0) buf;
        (log, status1) \<leftarrow> (if status < 0 then Some ([], status)
          else case cmd of
            DYNREG_SHORTLIST \<Rightarrow> do { st \<leftarrow> dynreg_list env True; Some ([], st) }
          | DYNREG_LONGLIST \<Rightarrow> do { st \<leftarrow> dynreg_list env False; Some ([], st) }
          | DYNREG_REGLIB \<Rightarrow> dynreg_register env path
          | DYNREG_UREGLIB \<Rightarrow> dynreg_unregister env path
          | DYNREG_CMDNULL \<Rightarrow> Some ([], status));
        Some (log, if status1 \<ge> 0 then 0 else - 1) })"

lemma option_names [simp]: "chars ''-r'' \<noteq> chars ''-v''" "chars ''-r'' \<noteq> chars ''-ln''" "chars ''-r'' \<noteq> chars ''-ls''"
  "chars ''-u'' \<noteq> chars ''-v''" "chars ''-u'' \<noteq> chars ''-ln''" "chars ''-u'' \<noteq> chars ''-ls''" "chars ''-u'' \<noteq> chars ''-r''"
  "chars ''-ln'' \<noteq> chars ''-v''"
  by code_simp+

text \<open>
  A command is run with the path given to it, when it has fewer than 256 characters; a longer
  path is written past the end of the buffer, and without a path the utility reads a null
  argument.
\<close>

theorem dynreg_paths:
  "dynreg_main env [p, chars (if reg then ''-r'' else ''-u'')] = (if open_status env < 0 then Some ([], - 1) else None)
   \<and> (0 \<in> set path \<or> dynreg_main env [p, chars (if reg then ''-r'' else ''-u''), path] =
     (if open_status env < 0 then Some ([], - 1)
      else if length path < 256 then map_option (\<lambda>(log, status). (log, if status \<ge> 0 then 0 else - 1)) (dynreg_command env reg path)
      else None))"
proof -
  have t: "takeWhile (\<lambda>c. c \<noteq> 0) (path @ 0 # r) = path" if "0 \<notin> set path" for r
    using that by (subst takeWhile_append2) auto
  show ?thesis
  proof (cases "0 \<in> set path")
    case True
    then show ?thesis by (cases reg) (simp_all add: dynreg_main_def ProcessArgs_def copy_path_def)
  next
    case False
    then show ?thesis
      by (cases reg; cases "dynreg_command env reg path") (auto simp: dynreg_main_def ProcessArgs_def copy_path_def t Let_def dynreg_register_def dynreg_unregister_def)
  qed
qed

text \<open>The long listing overruns its buffer as soon as one node is registered.\<close>

theorem long_listing_overruns:
  assumes "enum_node env 0 = (0, u, n)" and "0 < n" and "0 \<le> open_status env"
  shows "dynreg_main env [p, chars ''-ln''] = None"
proof -
  have "0 < unat n" using assms(2) by (simp add: word_less_nat_alt)
  then have "list_loop env False 0 n (replicate 36 0) = None"
    using assms(1) by (subst list_loop.simps) (simp add: UUID_UuidToString_def snprintf_text_def MAXUUIDLEN_def Let_def)
  with assms show ?thesis
    by (simp add: dynreg_main_def ProcessArgs_def dynreg_list_def Let_def)
qed

theorem long_listing_overruns_witness:
  "dynreg_main (node_env\<lparr>enum_node := \<lambda>_. (0, sample_uuid, 1)\<rparr>) [[], chars ''-ln''] = None"
  using long_listing_overruns [of "node_env\<lparr>enum_node := \<lambda>_. (0, sample_uuid, 1)\<rparr>" sample_uuid 1 "[]"]
  by (simp add: node_env_def lib_env_def)

end
