(* ===== verification/Qos_Registry.thy ===== *)
theory Qos_Registry
  imports Prelude "HOL-Library.Sublist"
begin

section \<open>The quality-of-service registry\<close>

text \<open>
  Model of \<open>dspbridge/qos\<close>: \<open>QOSRegistry.c\<close>, \<open>QOSResource.c\<close>, \<open>QOSComponent.c\<close> and \<open>qosti.c\<close>, the library
  through which the resource manager asks for the load and the memory of the DSP. A registry and a
  component hold lists of data objects, linked through their \<open>Next\<close> fields. The objects live in a map
  from addresses; an access to an address that holds no object is \<^const>\<open>None\<close>. A walk along a list that does
  not end is \<^const>\<open>None\<close> as well, by \<open>partial_function\<close>. The bridge driver and the memory allocator are the
  record \<open>qos_bridge\<close>, whose answers depend on the calls so far; the structure of an object follows its type,
  as it does for every object that \<open>DSPData_Create\<close> makes.
\<close>

unbundle bit_operations_syntax

subsection \<open>Data\<close>

abbreviation (input) "EPERM_status \<equiv> (- 1 :: int)"
abbreviation (input) "ENOENT_status \<equiv> (- 2 :: int)"
abbreviation (input) "EINVAL_status \<equiv> (- 22 :: int)"
abbreviation (input) "ENOSYS_status \<equiv> (- 38 :: int)"
abbreviation (input) "EBADR_status \<equiv> (- 53 :: int)"

definition DSP_SUCCEEDED :: "int \<Rightarrow> bool" where
  "DSP_SUCCEEDED status \<longleftrightarrow> status \<ge> 0"

definition QOSDataType_Memory_DynLoad :: u32 where "QOSDataType_Memory_DynLoad = 0"
definition QOSDataType_Memory_DynAlloc :: u32 where "QOSDataType_Memory_DynAlloc = 1"
definition QOSDataType_Memory_Scratch :: u32 where "QOSDataType_Memory_Scratch = 2"
definition QOSDataType_Processor_C55X :: u32 where "QOSDataType_Processor_C55X = 3"
definition QOSDataType_Processor_C6X :: u32 where "QOSDataType_Processor_C6X = 4"
definition QOSDataType_Peripheral_DMA :: u32 where "QOSDataType_Peripheral_DMA = 5"
definition QOSDataType_Stream :: u32 where "QOSDataType_Stream = 6"
definition QOSDataType_Component :: u32 where "QOSDataType_Component = 7"
definition QOSDataType_Registry :: u32 where "QOSDataType_Registry = 8"
definition QOSDataType_DynDependentLibrary :: u32 where "QOSDataType_DynDependentLibrary = 9"
definition QOS_USER_DATA_TYPE :: u32 where "QOS_USER_DATA_TYPE = 0x80000000"

lemmas qos_types = QOSDataType_Memory_DynLoad_def QOSDataType_Memory_DynAlloc_def QOSDataType_Memory_Scratch_def
  QOSDataType_Processor_C55X_def QOSDataType_Processor_C6X_def QOSDataType_Peripheral_DMA_def QOSDataType_Stream_def
  QOSDataType_Component_def QOSDataType_Registry_def QOSDataType_DynDependentLibrary_def

definition QOS_FN_GetNumDynAllocMemHeaps :: u32 where "QOS_FN_GetNumDynAllocMemHeaps = 1"
definition QOS_FN_HasAvailableResource :: u32 where "QOS_FN_HasAvailableResource = 2"
definition QOS_FN_ResourceIsAvailable :: u32 where "QOS_FN_ResourceIsAvailable = 1"
definition QOS_FN_ResourceUpdateInfo :: u32 where "QOS_FN_ResourceUpdateInfo = 2"

record QOSRESOURCE_MEMORY =
  mem_align :: u32
  heapId :: u32
  mem_size :: u32
  mem_type :: u32
  allocated :: u32
  largestfree :: u32
  mem_group :: u32

record QOSRESOURCE_PROCESSOR =
  MaxMips :: u32
  TypicalMips :: u32
  MaxCycles :: u32
  TypicalCycles :: u32
  Utilization :: u32
  currentLoad :: u32
  predLoad :: u32
  currDspFreq :: u32
  predictedFreq :: u32

record QOSCOMPONENT =
  InUse :: u32
  aTaskId :: u32
  VariantID :: u32
  InterfaceID :: u32
  resourceList :: u32
  dynDepLibList :: u32

record QOSREGISTRY =
  ResourceRegistry :: u32
  ComponentRegistry :: u32

text \<open>The type-specific functions, and what follows the header of an object.\<close>

datatype qos_handler = Memory_DynLoad_handler | Memory_DynAlloc_handler | Memory_Scratch_handler | Processor_handler
  | Resource_Default_handler | Component_handler | Registry_handler | DynDependentLibrary_handler

datatype qos_body = Memory QOSRESOURCE_MEMORY | Processor QOSRESOURCE_PROCESSOR | Plain_data | Stream u32
  | Component QOSCOMPONENT | Registry QOSREGISTRY | DynDepLib

record QOSDATA =
  qId :: u32
  qNext :: u32
  TypeSpecific :: qos_handler
  qbody :: qos_body

definition no_memory :: QOSRESOURCE_MEMORY where
  "no_memory = \<lparr>mem_align = 0, heapId = 0, mem_size = 0, mem_type = 0, allocated = 0, largestfree = 0, mem_group = 0\<rparr>"

definition no_processor :: QOSRESOURCE_PROCESSOR where
  "no_processor = \<lparr>MaxMips = 0, TypicalMips = 0, MaxCycles = 0, TypicalCycles = 0, Utilization = 0, currentLoad = 0, predLoad = 0,
     currDspFreq = 0, predictedFreq = 0\<rparr>"

definition no_component :: QOSCOMPONENT where
  "no_component = \<lparr>InUse = 0, aTaskId = 0, VariantID = 0, InterfaceID = 0, resourceList = 0, dynDepLibList = 0\<rparr>"

definition standard_datatypes :: "(u32 \<times> qos_handler \<times> qos_body) list" where
  "standard_datatypes =
     [(QOSDataType_Memory_DynLoad, Memory_DynLoad_handler, Memory no_memory),
      (QOSDataType_Memory_DynAlloc, Memory_DynAlloc_handler, Memory no_memory),
      (QOSDataType_Memory_Scratch, Memory_Scratch_handler, Memory no_memory),
      (QOSDataType_Processor_C55X, Processor_handler, Processor no_processor),
      (QOSDataType_Processor_C6X, Processor_handler, Processor no_processor),
      (QOSDataType_Peripheral_DMA, Resource_Default_handler, Plain_data),
      (QOSDataType_Stream, Resource_Default_handler, Stream 0),
      (QOSDataType_Component, Component_handler, Component no_component),
      (QOSDataType_Registry, Registry_handler, Registry \<lparr>ResourceRegistry = 0, ComponentRegistry = 0\<rparr>),
      (QOSDataType_DynDependentLibrary, DynDependentLibrary_handler, DynDepLib)]"

definition EDynloadDaram :: u32 where "EDynloadDaram = 0"
definition EDynloadSaram :: u32 where "EDynloadSaram = 1"
definition EDynloadExternal :: u32 where "EDynloadExternal = 2"
definition EDynloadSram :: u32 where "EDynloadSram = 3"
definition KAllHeaps_id :: u32 where "KAllHeaps_id = 0x100"
definition KAllScratchGroups :: u32 where "KAllScratchGroups = 0"

definition default_memory_resources :: "(u32 \<times> QOSRESOURCE_MEMORY) list" where
  "default_memory_resources =
     [(QOSDataType_Memory_DynLoad, no_memory\<lparr>heapId := EDynloadDaram\<rparr>),
      (QOSDataType_Memory_DynLoad, no_memory\<lparr>heapId := EDynloadSaram\<rparr>),
      (QOSDataType_Memory_DynLoad, no_memory\<lparr>heapId := EDynloadExternal\<rparr>),
      (QOSDataType_Memory_DynAlloc, no_memory\<lparr>heapId := KAllHeaps_id\<rparr>),
      (QOSDataType_Memory_Scratch, no_memory\<lparr>mem_type := 1, mem_group := KAllScratchGroups\<rparr>)]"

subsection \<open>The bridge\<close>

datatype qos_event = Q_calloc u32 u32 | Q_free u32 | Put_message u32 u32 u32 | Get_message | Get_resource_info u32
  | Manager_open | Processor_attach nat | Node_allocate | Node_create | Node_run | Node_terminate | Node_delete
  | Unregister_library | Unregister_node | Processor_detach | Manager_close

record resource_info =
  ulSize :: u32
  ulTotalFreeSize :: u32
  ulLenMaxFreeBlock :: u32
  ulNumFreeBlocks :: u32
  ulNumAllocBlocks :: u32
  uCurrLoad :: u32
  uPredictedLoad :: u32
  uCurrDspFreq :: u32
  uPredictedFreq :: u32

record qos_bridge =
  qb_calloc :: "qos_event list \<Rightarrow> u32 \<Rightarrow> u32"
  qb_put :: "qos_event list \<Rightarrow> int"
  qb_get :: "qos_event list \<Rightarrow> int \<times> u32 \<times> u32 \<times> u32"
  qb_info :: "qos_event list \<Rightarrow> u32 \<Rightarrow> int \<times> resource_info"
  qb_procs :: "nat list"
  qb_status :: "qos_event list \<Rightarrow> int"
  qb_handle :: "qos_event list \<Rightarrow> u32"

record qos_state =
  objs :: "u32 \<Rightarrow> QOSDATA option"
  hProcessor :: u32
  hNode :: u32
  qlog :: "qos_event list"

abbreviation qlogged :: "qos_event \<Rightarrow> qos_state \<Rightarrow> qos_state" where
  "qlogged e s \<equiv> s\<lparr>qlog := qlog s @ [e]\<rparr>"

abbreviation put_obj :: "u32 \<Rightarrow> QOSDATA \<Rightarrow> qos_state \<Rightarrow> qos_state" where
  "put_obj a d s \<equiv> s\<lparr>objs := (objs s)(a \<mapsto> d)\<rparr>"

definition QOS_TI_GETCPULOAD :: u32 where "QOS_TI_GETCPULOAD = 1"
definition QOS_TI_GETMEMSTAT :: u32 where "QOS_TI_GETMEMSTAT = 2"
definition QOS_TI_GETSHAREDSCRATCH :: u32 where "QOS_TI_GETSHAREDSCRATCH = 3"
definition NUMHEAPS :: u32 where "NUMHEAPS = 0x101"
definition USED_HEAPSIZE :: u32 where "USED_HEAPSIZE = 0x100"
definition LARGEST_FREE_BLOCKSIZE :: u32 where "LARGEST_FREE_BLOCKSIZE = 0x101"

text \<open>\<open>QosTI_DspMsg\<close>: the status, and the two values when the outputs are written.\<close>

definition QosTI_DspMsg :: "qos_bridge \<Rightarrow> qos_state \<Rightarrow> u32 \<Rightarrow> u32 \<Rightarrow> u32 \<Rightarrow> qos_state \<times> int \<times> (u32 \<times> u32) option" where
  "QosTI_DspMsg q s dwCmd dwArg1 dwArg2 =
     (let s1 = qlogged (Put_message dwCmd dwArg1 dwArg2) s; status = qb_put q (qlog s)
      in if \<not> DSP_SUCCEEDED status then (s1, status, None)
         else
           (let s2 = qlogged Get_message s1; (status2, c, a1, a2) = qb_get q (qlog s1)
            in if \<not> DSP_SUCCEEDED status2 then (s2, status2, None)
               else if c \<noteq> dwCmd then (s2, EPERM_status, None) else (s2, status2, Some (a1, a2))))"

definition QosTI_GetDynLoaderMemStat :: "qos_bridge \<Rightarrow> qos_state \<Rightarrow> u32 \<Rightarrow> qos_state \<times> int \<times> (u32 \<times> u32 \<times> u32) option" where
  "QosTI_GetDynLoaderMemStat q s heapDesc =
     (if heapDesc = EDynloadDaram \<or> heapDesc = EDynloadSaram \<or> heapDesc = EDynloadExternal \<or> heapDesc = EDynloadSram
      then let s1 = qlogged (Get_resource_info heapDesc) s; (status, i) = qb_info q (qlog s) heapDesc
           in if DSP_SUCCEEDED status then (s1, status, Some (ulSize i, ulSize i - ulTotalFreeSize i, ulLenMaxFreeBlock i))
              else (s1, status, None)
      else (s, EINVAL_status, None))"

definition DSP_RESOURCE_PROCLOAD :: u32 where "DSP_RESOURCE_PROCLOAD = 4"

definition QosTI_GetProcLoadStat :: "qos_bridge \<Rightarrow> qos_state \<Rightarrow> qos_state \<times> int \<times> (u32 \<times> u32 \<times> u32 \<times> u32) option" where
  "QosTI_GetProcLoadStat q s =
     (let s1 = qlogged (Get_resource_info DSP_RESOURCE_PROCLOAD) s; (status, i) = qb_info q (qlog s) DSP_RESOURCE_PROCLOAD
      in if DSP_SUCCEEDED status then (s1, status, Some (uCurrLoad i, uPredictedLoad i, uCurrDspFreq i, uPredictedFreq i))
         else (s1, EPERM_status, None))"

text \<open>\<open>QosTI_Delete\<close> and \<open>QosTI_Create\<close>; the results of the calls in \<open>QosTI_Delete\<close> are only reported.\<close>

definition QosTI_Delete :: "qos_state \<Rightarrow> qos_state" where
  "QosTI_Delete s =
     (let s1 = qlogged Node_terminate s;
          s2 = (if hNode s1 \<noteq> 0 then (qlogged Node_delete s1)\<lparr>hNode := 0\<rparr> else s1);
          s3 = qlogged Unregister_node (qlogged Unregister_library s2);
          s4 = (if hProcessor s3 \<noteq> 0 then (qlogged Processor_detach s3)\<lparr>hProcessor := 0\<rparr> else s3)
      in qlogged Manager_close s4)"

definition DSPTYPE_55_type :: nat where "DSPTYPE_55_type = 6"

definition proc_index :: "nat list \<Rightarrow> nat" where
  "proc_index procs = (case first_index (\<lambda>t. t = DSPTYPE_55_type) procs of None \<Rightarrow> 0 | Some i \<Rightarrow> i)"

definition QosTI_Create :: "qos_bridge \<Rightarrow> qos_state \<Rightarrow> qos_state \<times> int" where
  "QosTI_Create q s =
     (let s1 = qlogged Manager_open s; st1 = qb_status q (qlog s1);
          (s', st') = (if \<not> DSP_SUCCEEDED st1 then (s1, st1)
            else let s2 = qlogged (Processor_attach (proc_index (qb_procs q))) s1; st2 = qb_status q (qlog s2)
            in if \<not> DSP_SUCCEEDED st2 then (s2, st2)
            else let s3 = qlogged Node_allocate (s2\<lparr>hProcessor := qb_handle q (qlog s2)\<rparr>); st3 = qb_status q (qlog s3)
            in if \<not> DSP_SUCCEEDED st3 then (s3, st3)
            else let s4 = qlogged Node_create (s3\<lparr>hNode := qb_handle q (qlog s3)\<rparr>); st4 = qb_status q (qlog s4)
            in if \<not> DSP_SUCCEEDED st4 then (s4, st4)
            else let s5 = qlogged Node_run s4 in (s5, qb_status q (qlog s5)))
      in (if \<not> DSP_SUCCEEDED st' then QosTI_Delete s' else s', st'))"

subsection \<open>Objects\<close>

definition DSPData_IsResource :: "u32 \<Rightarrow> bool" where
  "DSPData_IsResource tid \<longleftrightarrow> tid \<noteq> QOSDataType_Component \<and> tid \<noteq> QOSDataType_DynDependentLibrary \<and> tid \<noteq> QOSDataType_Registry"

definition memory_at :: "qos_state \<Rightarrow> u32 \<Rightarrow> QOSRESOURCE_MEMORY option" where
  "memory_at s a = do { d \<leftarrow> objs s a; (case qbody d of Memory m \<Rightarrow> Some m | _ \<Rightarrow> None) }"

definition processor_at :: "qos_state \<Rightarrow> u32 \<Rightarrow> QOSRESOURCE_PROCESSOR option" where
  "processor_at s a = do { d \<leftarrow> objs s a; (case qbody d of Processor p \<Rightarrow> Some p | _ \<Rightarrow> None) }"

definition component_at :: "qos_state \<Rightarrow> u32 \<Rightarrow> QOSCOMPONENT option" where
  "component_at s a = do { d \<leftarrow> objs s a; (case qbody d of Component c \<Rightarrow> Some c | _ \<Rightarrow> None) }"

definition registry_at :: "qos_state \<Rightarrow> u32 \<Rightarrow> QOSREGISTRY option" where
  "registry_at s a = do { d \<leftarrow> objs s a; (case qbody d of Registry r \<Rightarrow> Some r | _ \<Rightarrow> None) }"

definition set_body :: "u32 \<Rightarrow> qos_body \<Rightarrow> qos_state \<Rightarrow> qos_state option" where
  "set_body a b s = do { d \<leftarrow> objs s a; Some (put_obj a (d\<lparr>qbody := b\<rparr>) s) }"

definition set_qnext :: "u32 \<Rightarrow> u32 \<Rightarrow> qos_state \<Rightarrow> qos_state option" where
  "set_qnext a v s = do { d \<leftarrow> objs s a; Some (put_obj a (d\<lparr>qNext := v\<rparr>) s) }"

definition DSPData_Create :: "qos_bridge \<Rightarrow> qos_state \<Rightarrow> u32 \<Rightarrow> (qos_state \<times> u32) option" where
  "DSPData_Create q s tid =
     (if tid AND QOS_USER_DATA_TYPE \<noteq> 0 then Some (s, 0)
      else do {
        (i, h, b) \<leftarrow> rd standard_datatypes (unat tid);
        let a = qb_calloc q (qlog s) tid;
        let s1 = qlogged (Q_calloc tid a) s;
        Some (if a = 0 then s1 else put_obj a \<lparr>qId = i, qNext = 0, TypeSpecific = h, qbody = b\<rparr> s1, a) })"

definition q_free :: "u32 \<Rightarrow> qos_state \<Rightarrow> qos_state option" where
  "q_free a s = (if a = 0 then Some s else do { _ \<leftarrow> objs s a; Some (qlogged (Q_free a) (s\<lparr>objs := (objs s)(a := None)\<rparr>)) })"

text \<open>
  \<open>DSPData_Delete\<close> always returns 0, so that the status of the nested calls is 0 too. The deletion of a
  registry is written out, and frees the registry before its \<open>Next\<close> is read.
\<close>

partial_function (option) DSPData_Delete :: "u32 \<Rightarrow> qos_state \<Rightarrow> qos_state option" where
  "DSPData_Delete data s =
     (if data = 0 then Some s
      else do {
        d \<leftarrow> objs s data;
        s1 \<leftarrow> (if qId d = QOSDataType_Component then do {
            c \<leftarrow> component_at s data;
            t \<leftarrow> DSPData_Delete (resourceList c) s;
            c1 \<leftarrow> component_at t data;
            DSPData_Delete (dynDepLibList c1) t }
          else if qId d = QOSDataType_Registry then do {
            r \<leftarrow> registry_at s data;
            t \<leftarrow> DSPData_Delete (ResourceRegistry r) s;
            r1 \<leftarrow> registry_at t data;
            t1 \<leftarrow> DSPData_Delete (ComponentRegistry r1) t;
            q_free data (QosTI_Delete t1) }
          else Some s);
        (if qId d \<le> QOSDataType_DynDependentLibrary then do {
           d1 \<leftarrow> objs s1 data;
           s2 \<leftarrow> q_free data s1;
           DSPData_Delete (qNext d1) s2 }
         else Some s1) })"

definition DSPRegistry_Delete :: "u32 \<Rightarrow> qos_state \<Rightarrow> qos_state option" where
  "DSPRegistry_Delete registry s =
     (if registry = 0 then Some s
      else do {
        r \<leftarrow> registry_at s registry;
        t \<leftarrow> DSPData_Delete (ResourceRegistry r) s;
        r1 \<leftarrow> registry_at t registry;
        t1 \<leftarrow> DSPData_Delete (ComponentRegistry r1) t;
        q_free registry (QosTI_Delete t1) })"

subsection \<open>Lists\<close>

datatype list_field = Component_resources | Component_libraries | Registry_resources | Registry_components

definition FindTargetList :: "qos_state \<Rightarrow> u32 \<Rightarrow> u32 \<Rightarrow> list_field option option" where
  "FindTargetList s listhead tid =
     (if listhead = 0 then Some None
      else do {
        d \<leftarrow> objs s listhead;
        Some (if qId d = QOSDataType_Component then
                if DSPData_IsResource tid then Some Component_resources
                else if tid = QOSDataType_DynDependentLibrary then Some Component_libraries else None
              else if qId d = QOSDataType_Registry then
                if DSPData_IsResource tid then Some Registry_resources
                else if tid = QOSDataType_Component then Some Registry_components else None
              else None) })"

definition list_head :: "qos_state \<Rightarrow> u32 \<Rightarrow> list_field \<Rightarrow> u32 option" where
  "list_head s a f = (case f of
       Component_resources \<Rightarrow> map_option resourceList (component_at s a)
     | Component_libraries \<Rightarrow> map_option dynDepLibList (component_at s a)
     | Registry_resources \<Rightarrow> map_option ResourceRegistry (registry_at s a)
     | Registry_components \<Rightarrow> map_option ComponentRegistry (registry_at s a))"

definition set_list_head :: "u32 \<Rightarrow> list_field \<Rightarrow> u32 \<Rightarrow> qos_state \<Rightarrow> qos_state option" where
  "set_list_head a f v s = (case f of
       Component_resources \<Rightarrow> do { c \<leftarrow> component_at s a; set_body a (Component (c\<lparr>resourceList := v\<rparr>)) s }
     | Component_libraries \<Rightarrow> do { c \<leftarrow> component_at s a; set_body a (Component (c\<lparr>dynDepLibList := v\<rparr>)) s }
     | Registry_resources \<Rightarrow> do { r \<leftarrow> registry_at s a; set_body a (Registry (r\<lparr>ResourceRegistry := v\<rparr>)) s }
     | Registry_components \<Rightarrow> do { r \<leftarrow> registry_at s a; set_body a (Registry (r\<lparr>ComponentRegistry := v\<rparr>)) s })"

definition DSPRegistry_Add :: "u32 \<Rightarrow> u32 \<Rightarrow> qos_state \<Rightarrow> (qos_state \<times> int) option" where
  "DSPRegistry_Add listhead entry s = do {
     e \<leftarrow> objs s entry;
     t \<leftarrow> FindTargetList s listhead (qId e);
     (case t of
        None \<Rightarrow> Some (s, EINVAL_status)
      | Some f \<Rightarrow> do {
          p \<leftarrow> list_head s listhead f;
          s1 \<leftarrow> set_qnext entry p s;
          s2 \<leftarrow> set_list_head listhead f entry s1;
          Some (s2, 0) }) }"

partial_function (option) remove_walk :: "qos_state \<Rightarrow> u32 \<Rightarrow> u32 \<Rightarrow> u32 option" where
  "remove_walk s entry t =
     (if t = 0 \<or> t = entry then Some t
      else do { d \<leftarrow> objs s t; (if qNext d = entry then Some t else remove_walk s entry (qNext d)) })"

definition DSPRegistry_Remove :: "u32 \<Rightarrow> u32 \<Rightarrow> qos_state \<Rightarrow> (qos_state \<times> int) option" where
  "DSPRegistry_Remove listhead entry s = do {
     e \<leftarrow> objs s entry;
     t \<leftarrow> FindTargetList s listhead (qId e);
     (case t of
        None \<Rightarrow> Some (s, EINVAL_status)
      | Some f \<Rightarrow> do {
          p \<leftarrow> list_head s listhead f;
          tgt \<leftarrow> remove_walk s entry p;
          (if tgt = 0 then Some (s, ENOENT_status)
           else do {
             s1 \<leftarrow> (if tgt = entry then set_list_head listhead f (qNext e) s else Some s);
             s2 \<leftarrow> set_qnext tgt (qNext e) s1;
             s3 \<leftarrow> set_qnext entry 0 s2;
             Some (s3, 0) }) }) }"

subsection \<open>Type-specific functions\<close>

text \<open>
  \<open>DSPQos_TypeSpecific\<close> with \<open>QOS_FN_ResourceUpdateInfo\<close>. For a registry the code is that of
  \<open>QOS_FN_HasAvailableResource\<close>, and the parameter 0 is no request.
\<close>

definition update_info :: "qos_bridge \<Rightarrow> u32 \<Rightarrow> qos_state \<Rightarrow> (qos_state \<times> int) option" where
  "update_info q a s = do {
     d \<leftarrow> objs s a;
     (case TypeSpecific d of
        Memory_DynLoad_handler \<Rightarrow> do {
          m \<leftarrow> memory_at s a;
          let (s1, st, out) = QosTI_GetDynLoaderMemStat q s (heapId m);
          (case out of None \<Rightarrow> Some (s1, st)
           | Some (sz, used, largest) \<Rightarrow> do {
               s2 \<leftarrow> set_body a (Memory (m\<lparr>mem_size := sz, allocated := used, largestfree := largest\<rparr>)) s1;
               Some (s2, st) }) }
      | Memory_DynAlloc_handler \<Rightarrow> do {
          m \<leftarrow> memory_at s a;
          (if heapId m \<le> KAllHeaps_id then do {
             let (s1, st1, out1) = QosTI_DspMsg q s QOS_TI_GETMEMSTAT (heapId m) USED_HEAPSIZE;
             let m1 = (case out1 of None \<Rightarrow> m | Some (sz, used) \<Rightarrow> m\<lparr>mem_size := sz, allocated := used\<rparr>);
             let (s2, st2, out2) = QosTI_DspMsg q s1 QOS_TI_GETMEMSTAT (heapId m1) LARGEST_FREE_BLOCKSIZE;
             let m2 = (case out2 of None \<Rightarrow> m1 | Some (_, largest) \<Rightarrow> m1\<lparr>largestfree := largest\<rparr>);
             s3 \<leftarrow> set_body a (Memory m2) s2;
             Some (s3, st2) }
           else Some (s, EINVAL_status)) }
      | Memory_Scratch_handler \<Rightarrow> do {
          m \<leftarrow> memory_at s a;
          (if mem_type m \<le> 2 then do {
             let (s1, st, out) = QosTI_DspMsg q s QOS_TI_GETSHAREDSCRATCH (mem_type m) (mem_group m);
             s2 \<leftarrow> set_body a (Memory (case out of None \<Rightarrow> m | Some (sz, hp) \<Rightarrow> m\<lparr>mem_size := sz, heapId := hp\<rparr>)) s1;
             Some (s2, st) }
           else Some (s, EINVAL_status)) }
      | Processor_handler \<Rightarrow> do {
          p \<leftarrow> processor_at s a;
          let (s1, _, out1) = QosTI_DspMsg q s QOS_TI_GETCPULOAD 0 0;
          let p1 = (case out1 of None \<Rightarrow> p | Some (u, _) \<Rightarrow> p\<lparr>Utilization := u\<rparr>);
          let (s2, st, out2) = QosTI_GetProcLoadStat q s1;
          let p2 = (case out2 of None \<Rightarrow> p1
            | Some (cur, prd, freq, pfreq) \<Rightarrow> p1\<lparr>currentLoad := cur, predLoad := prd, currDspFreq := freq, predictedFreq := pfreq\<rparr>);
          s3 \<leftarrow> set_body a (Processor p2) s2;
          Some (s3, st) }
      | Resource_Default_handler \<Rightarrow> Some (s, 0)
      | Registry_handler \<Rightarrow> Some (s, 0)
      | _ \<Rightarrow> Some (s, ENOSYS_status)) }"

definition QOS_Memory_IsAvailable :: "qos_bridge \<Rightarrow> u32 \<Rightarrow> u32 \<Rightarrow> qos_state \<Rightarrow> (qos_state \<times> int) option" where
  "QOS_Memory_IsAvailable q request data s = do {
     d \<leftarrow> objs s request;
     e \<leftarrow> objs s data;
     (if qId e = qId d then do {
        (s1, _) \<leftarrow> update_info q data s;
        res \<leftarrow> memory_at s1 data;
        req \<leftarrow> memory_at s1 request;
        Some (s1, if heapId res = heapId req \<and> mem_size res > mem_align req + mem_size req then 1 else 0) }
      else Some (s, 0)) }"

text \<open>
  With \<open>QOS_FN_ResourceIsAvailable\<close>: \<open>request\<close> is the object, \<open>data\<close> the parameter. The function of a registry
  would take the parameter for a counter; no registry is asked for.
\<close>

definition is_available :: "qos_bridge \<Rightarrow> u32 \<Rightarrow> u32 \<Rightarrow> qos_state \<Rightarrow> (qos_state \<times> int) option" where
  "is_available q request data s = do {
     d \<leftarrow> objs s request;
     (case TypeSpecific d of
        Memory_DynLoad_handler \<Rightarrow> QOS_Memory_IsAvailable q request data s
      | Memory_DynAlloc_handler \<Rightarrow> QOS_Memory_IsAvailable q request data s
      | Memory_Scratch_handler \<Rightarrow> do {
          e \<leftarrow> objs s data;
          (if qId e = qId d then do {
             res \<leftarrow> memory_at s data;
             req \<leftarrow> memory_at s request;
             (if mem_group res = mem_group req then QOS_Memory_IsAvailable q request data s else Some (s, 0)) }
           else Some (s, 0)) }
      | Processor_handler \<Rightarrow> do {
          e \<leftarrow> objs s data;
          (if qId e = qId d then do {
             (s1, _) \<leftarrow> update_info q data s;
             res \<leftarrow> processor_at s1 data;
             req \<leftarrow> processor_at s1 request;
             Some (s1, if Utilization res \<le> Utilization req then 1 else 0) }
           else Some (s, 0)) }
      | Resource_Default_handler \<Rightarrow> do {
          e \<leftarrow> objs s data;
          (if qId d = qId e then do { (s1, _) \<leftarrow> update_info q data s; Some (s1, 1) } else Some (s, 0)) }
      | Registry_handler \<Rightarrow> None
      | _ \<Rightarrow> Some (s, ENOSYS_status)) }"

text \<open>\<open>QOS_FN_HasAvailableResource\<close>: the first resource of the list that satisfies the request, for each request.\<close>

partial_function (option) find_available :: "qos_bridge \<Rightarrow> u32 \<Rightarrow> u32 \<Rightarrow> qos_state \<Rightarrow> (qos_state \<times> bool) option" where
  "find_available q request data s =
     (if data = 0 then Some (s, False)
      else do {
        (s1, st) \<leftarrow> is_available q request data s;
        (if st \<noteq> 0 then Some (s1, True)
         else do { e \<leftarrow> objs s1 data; find_available q request (qNext e) s1 }) })"

partial_function (option) all_available :: "qos_bridge \<Rightarrow> u32 \<Rightarrow> u32 \<Rightarrow> qos_state \<Rightarrow> (qos_state \<times> bool) option" where
  "all_available q registry request s =
     (if request = 0 then Some (s, True)
      else do {
        r \<leftarrow> registry_at s registry;
        (s1, ok) \<leftarrow> find_available q request (ResourceRegistry r) s;
        d \<leftarrow> objs s1 request;
        (if ok then all_available q registry (qNext d) s1 else Some (s1, False)) })"

definition HasAvailableResource :: "qos_bridge \<Rightarrow> u32 \<Rightarrow> u32 \<Rightarrow> qos_state \<Rightarrow> (qos_state \<times> bool) option" where
  "HasAvailableResource q registry request s =
     (if request = 0 then Some (s, False)
      else do {
        d \<leftarrow> objs s request;
        (if DSPData_IsResource (qId d) then do { r \<leftarrow> registry_at s registry; find_available q request (ResourceRegistry r) s }
         else if qId d = QOSDataType_Component then do { c \<leftarrow> component_at s request; all_available q registry (resourceList c) s }
         else Some (s, False)) })"

definition GetNumDynAllocMemHeaps :: "qos_bridge \<Rightarrow> qos_state \<Rightarrow> qos_state \<times> int \<times> u32 option" where
  "GetNumDynAllocMemHeaps q s = (let (s1, st, out) = QosTI_DspMsg q s QOS_TI_GETMEMSTAT NUMHEAPS 0 in (s1, st, map_option fst out))"

subsection \<open>Searching\<close>

text \<open>
  The loop of \<open>DSPRegistry_Find\<close>: \<open>results\<close> are the entries stored, \<open>n\<close> counts the matches.
\<close>

partial_function (option) find_walk :: "qos_bridge \<Rightarrow> u32 \<Rightarrow> bool \<Rightarrow> nat \<Rightarrow> u32 \<Rightarrow> qos_state \<Rightarrow> int \<Rightarrow> u32 list \<Rightarrow> nat
    \<Rightarrow> (qos_state \<times> int \<times> u32 list \<times> nat) option" where
  "find_walk q tid is_resource sz t s status results n =
     (if t = 0 \<or> \<not> DSP_SUCCEEDED status then Some (s, status, results, n)
      else do {
        d \<leftarrow> objs s t;
        (if qId d \<noteq> tid then find_walk q tid is_resource sz (qNext d) s status results n
         else if sz > n then do {
           (s1, st) \<leftarrow> (if is_resource then update_info q t s else Some (s, status));
           d1 \<leftarrow> objs s1 t;
           find_walk q tid is_resource sz (qNext d1) s1 st (results @ [t]) (n + 1) }
         else find_walk q tid is_resource sz (qNext d) s status results (n + 1)) })"

text \<open>The result: the status, the entries stored, and the value of \<open>*Size\<close> afterwards.\<close>

definition DSPRegistry_Find :: "qos_bridge \<Rightarrow> u32 \<Rightarrow> u32 \<Rightarrow> nat \<Rightarrow> qos_state \<Rightarrow> (qos_state \<times> int \<times> u32 list \<times> nat) option" where
  "DSPRegistry_Find q tid registry sz s = do {
     t \<leftarrow> FindTargetList s registry tid;
     (s1, st, results, n) \<leftarrow> (case t of
        None \<Rightarrow> Some (s, EINVAL_status, [], 0)
      | Some f \<Rightarrow> do { p \<leftarrow> list_head s registry f; find_walk q tid (DSPData_IsResource tid) sz p s 0 [] 0 });
     Some (if n > sz then (s1, EINVAL_status, results, n)
           else if n = 0 then (s1, ENOENT_status, results, sz)
           else (s1, st, results, sz)) }"

subsection \<open>The registry\<close>

text \<open>One of the steps that create an object and add it; a failed allocation is passed over.\<close>

definition add_new :: "qos_bridge \<Rightarrow> u32 \<Rightarrow> u32 \<Rightarrow> (qos_body \<Rightarrow> qos_body) \<Rightarrow> qos_state \<times> int \<Rightarrow> (qos_state \<times> int) option" where
  "add_new q registry tid f = (\<lambda>(s, status).
     (if \<not> DSP_SUCCEEDED status then Some (s, status)
      else do {
        (s1, a) \<leftarrow> DSPData_Create q s tid;
        (if a = 0 then Some (s1, status)
         else do {
           d \<leftarrow> objs s1 a;
           s2 \<leftarrow> set_body a (f (qbody d)) s1;
           DSPRegistry_Add registry a s2 }) }))"

definition with_heapId :: "u32 \<Rightarrow> qos_body \<Rightarrow> qos_body" where
  "with_heapId i b = (case b of Memory m \<Rightarrow> Memory (m\<lparr>heapId := i\<rparr>) | _ \<Rightarrow> b)"

fun add_defaults :: "qos_bridge \<Rightarrow> u32 \<Rightarrow> (u32 \<times> QOSRESOURCE_MEMORY) list \<Rightarrow> qos_state \<times> int \<Rightarrow> (qos_state \<times> int) option" where
  "add_defaults q registry [] r = Some r"
| "add_defaults q registry ((tid, m) # ms) r = do { r1 \<leftarrow> add_new q registry tid (\<lambda>_. Memory m) r; add_defaults q registry ms r1 }"

primrec add_heaps :: "qos_bridge \<Rightarrow> u32 \<Rightarrow> nat \<Rightarrow> nat \<Rightarrow> qos_state \<times> int \<Rightarrow> (qos_state \<times> int) option" where
  "add_heaps q registry i 0 r = Some r"
| "add_heaps q registry i (Suc k) r = do {
     r1 \<leftarrow> add_new q registry QOSDataType_Memory_DynAlloc (with_heapId (of_nat i)) r;
     add_heaps q registry (i + 1) k r1 }"

definition DSP_TONODE :: u32 where "DSP_TONODE = 1"
definition DSP_FROMNODE :: u32 where "DSP_FROMNODE = 2"

text \<open>The steps between the creation of the node and the last check of the status.\<close>

definition fill_registry :: "qos_bridge \<Rightarrow> u32 \<Rightarrow> qos_state \<times> int \<Rightarrow> (qos_state \<times> int) option" where
  "fill_registry q registry r = do {
     (s1, st1) \<leftarrow> add_defaults q registry default_memory_resources r;
     r2 \<leftarrow> (if DSP_SUCCEEDED st1 then
              (let (s2, st2, heaps) = GetNumDynAllocMemHeaps q s1
               in case heaps of None \<Rightarrow> Some (s2, st2) | Some k \<Rightarrow> add_heaps q registry 0 (unat k) (s2, st2))
            else Some (s1, st1));
     r3 \<leftarrow> add_new q registry QOSDataType_Processor_C6X (\<lambda>b. b) r2;
     r4 \<leftarrow> add_new q registry QOSDataType_Stream (\<lambda>_. Stream DSP_TONODE) r3;
     add_new q registry QOSDataType_Stream (\<lambda>_. Stream DSP_FROMNODE) r4 }"

definition DSPRegistry_Create :: "qos_bridge \<Rightarrow> qos_state \<Rightarrow> (qos_state \<times> u32) option" where
  "DSPRegistry_Create q s = do {
     (s1, registry) \<leftarrow> DSPData_Create q s QOSDataType_Registry;
     (if registry = 0 then Some (s1, 0)
      else
        (let (s2, st) = QosTI_Create q s1
         in if \<not> DSP_SUCCEEDED st then do { s3 \<leftarrow> q_free registry s2; Some (s3, 0) }
            else do {
              (s3, st3) \<leftarrow> fill_registry q registry (s2, st);
              (if DSP_SUCCEEDED st3 then Some (s3, registry)
               else do { s4 \<leftarrow> DSPRegistry_Delete registry s3; Some (s4, 0) }) })) }"

subsection \<open>Components in use\<close>

text \<open>\<open>registry\<close> is not used; the counter of a component wraps at \<open>2 ^ 32\<close>.\<close>

definition DSPComponent_Register :: "u32 \<Rightarrow> qos_state \<Rightarrow> (qos_state \<times> int) option" where
  "DSPComponent_Register component s =
     (if component \<noteq> 0 then do { c \<leftarrow> component_at s component; s1 \<leftarrow> set_body component (Component (c\<lparr>InUse := InUse c + 1\<rparr>)) s; Some (s1, 0) }
      else Some (s, 0))"

definition DSPComponent_Unregister :: "u32 \<Rightarrow> qos_state \<Rightarrow> (qos_state \<times> int) option" where
  "DSPComponent_Unregister component s =
     (if component \<noteq> 0 then do {
        c \<leftarrow> component_at s component;
        (if InUse c > 0 then do { s1 \<leftarrow> set_body component (Component (c\<lparr>InUse := InUse c - 1\<rparr>)) s; Some (s1, 0) }
         else Some (s, EBADR_status)) }
      else Some (s, 0))"

subsection \<open>Lists as lists\<close>

text \<open>The list of the addresses of the objects from \<open>p\<close> on.\<close>

fun qlist :: "(u32 \<Rightarrow> QOSDATA option) \<Rightarrow> u32 \<Rightarrow> u32 list \<Rightarrow> bool" where
  "qlist m p [] \<longleftrightarrow> p = 0"
| "qlist m p (a # as) \<longleftrightarrow> p = a \<and> a \<noteq> 0 \<and> (\<exists>d. m a = Some d \<and> qlist m (qNext d) as)"

lemma qlist_0 [simp]: "qlist m 0 xs \<longleftrightarrow> xs = []"
  by (cases xs) auto

lemma qlist_first: "qlist m p xs \<Longrightarrow> p \<noteq> 0 \<Longrightarrow> \<exists>as. xs = p # as"
  by (cases xs) auto

lemma qlist_cong:
  assumes "qlist m p xs" and "\<And>x. x \<in> set xs \<Longrightarrow> map_option qNext (m' x) = map_option qNext (m x)"
  shows "qlist m' p xs"
  using assms
proof (induction xs arbitrary: p)
  case (Cons a as)
  then obtain d where d: "m a = Some d" "qlist m (qNext d) as" "p = a" "a \<noteq> 0" by auto
  moreover have "map_option qNext (m' a) = Some (qNext d)" using Cons.prems(2) [of a] d by simp
  then obtain d' where "m' a = Some d'" "qNext d' = qNext d" by auto
  moreover have "qlist m' (qNext d) as" using Cons.IH [OF d(2)] Cons.prems(2) by simp
  ultimately show ?case by auto
qed simp

lemma qlist_update: "qlist m p xs \<Longrightarrow> a \<notin> set xs \<Longrightarrow> qlist (m(a := v)) p xs"
  by (erule qlist_cong) auto

lemma qlist_append: "qlist m p (xs @ a # ys) \<Longrightarrow> qlist m a (a # ys)"
  by (induction xs arbitrary: p) auto

lemma qlist_object: "qlist m p xs \<Longrightarrow> x \<in> set xs \<Longrightarrow> x \<noteq> 0 \<and> (\<exists>d. m x = Some d)"
  by (induction xs arbitrary: p) auto

text \<open>Taking a node out: its predecessor gets its successor.\<close>

lemma qlist_remove:
  assumes "qlist m p (xs @ b # a # ys)" and "distinct (xs @ b # a # ys)" and "m a = Some da" and "m b = Some db"
  shows "qlist (m(b \<mapsto> db\<lparr>qNext := qNext da\<rparr>, a := v)) p (xs @ b # ys)"
  using assms(1,2)
proof (induction xs arbitrary: p)
  case Nil
  then have "qlist m (qNext da) ys" using assms(3) by auto
  then have "qlist (m(b \<mapsto> db\<lparr>qNext := qNext da\<rparr>, a := v)) (qNext da) ys" using Nil.prems(2) by (intro qlist_update) auto
  moreover have "(m(b \<mapsto> db\<lparr>qNext := qNext da\<rparr>, a := v)) b = Some (db\<lparr>qNext := qNext da\<rparr>)" using Nil.prems(2) by simp
  ultimately show ?case using Nil.prems(1) by (simp del: fun_upd_apply)
next
  case (Cons x xs)
  then obtain d where d: "m x = Some d" "qlist m (qNext d) (xs @ b # a # ys)" "p = x" "x \<noteq> 0" by auto
  have "qlist (m(b \<mapsto> db\<lparr>qNext := qNext da\<rparr>, a := v)) (qNext d) (xs @ b # ys)"
    by (rule Cons.IH [OF d(2)]) (use Cons.prems(2) in simp)
  moreover have "(m(b \<mapsto> db\<lparr>qNext := qNext da\<rparr>, a := v)) x = Some d" using Cons.prems(2) d(1) by auto
  ultimately show ?case using d by (simp del: fun_upd_apply)
qed

text \<open>The list in a field of a registry or a component.\<close>

definition holds :: "qos_state \<Rightarrow> u32 \<Rightarrow> list_field \<Rightarrow> u32 list \<Rightarrow> bool" where
  "holds s a f xs \<longleftrightarrow> (\<exists>p. list_head s a f = Some p \<and> qlist (objs s) p xs) \<and> distinct (a # xs)"

lemma list_head_other: "objs s' a = objs s a \<Longrightarrow> list_head s' a f = list_head s a f"
  by (simp add: list_head_def component_at_def registry_at_def split: list_field.splits)

lemma list_head_next: "a \<noteq> b \<Longrightarrow> list_head (put_obj b d s) a f = list_head s a f"
  by (rule list_head_other) simp

lemma set_list_head_Some:
  assumes "list_head s a f = Some p"
  obtains d d' where "objs s a = Some d" and "set_list_head a f v s = Some (put_obj a d' s)" and "list_head (put_obj a d' s) a f = Some v"
    and "qNext d' = qNext d" and "qId d' = qId d" and "TypeSpecific d' = TypeSpecific d"
    and "\<And>g w. g \<noteq> f \<Longrightarrow> list_head s a g = Some w \<Longrightarrow> list_head (put_obj a d' s) a g = Some w"
proof -
  obtain d where d: "objs s a = Some d"
    using assms by (cases "objs s a") (auto simp: list_head_def component_at_def registry_at_def split: list_field.splits)
  note defs = list_head_def set_list_head_def set_body_def component_at_def registry_at_def
  show thesis
  proof (cases f)
    case Component_resources
    with assms d obtain c where c: "qbody d = Component c" by (auto simp: defs split: qos_body.splits)
    show thesis
      by (rule that [of d "d\<lparr>qbody := Component (c\<lparr>resourceList := v\<rparr>)\<rparr>"])
        (use Component_resources c d in \<open>auto simp: defs split: list_field.splits\<close>)
  next
    case Component_libraries
    with assms d obtain c where c: "qbody d = Component c" by (auto simp: defs split: qos_body.splits)
    show thesis
      by (rule that [of d "d\<lparr>qbody := Component (c\<lparr>dynDepLibList := v\<rparr>)\<rparr>"])
        (use Component_libraries c d in \<open>auto simp: defs split: list_field.splits\<close>)
  next
    case Registry_resources
    with assms d obtain c where c: "qbody d = Registry c" by (auto simp: defs split: qos_body.splits)
    show thesis
      by (rule that [of d "d\<lparr>qbody := Registry (c\<lparr>ResourceRegistry := v\<rparr>)\<rparr>"])
        (use Registry_resources c d in \<open>auto simp: defs split: list_field.splits\<close>)
  next
    case Registry_components
    with assms d obtain c where c: "qbody d = Registry c" by (auto simp: defs split: qos_body.splits)
    show thesis
      by (rule that [of d "d\<lparr>qbody := Registry (c\<lparr>ComponentRegistry := v\<rparr>)\<rparr>"])
        (use Registry_components c d in \<open>auto simp: defs split: list_field.splits\<close>)
  qed
qed

text \<open>Lists with no node in \<open>X\<close> stay as they are, but for the field \<open>f\<close> of \<open>a\<close>.\<close>

definition others_hold :: "qos_state \<Rightarrow> qos_state \<Rightarrow> u32 \<Rightarrow> list_field \<Rightarrow> u32 set \<Rightarrow> bool" where
  "others_hold s s' a f X \<longleftrightarrow> (\<forall>b g ys. (b, g) \<noteq> (a, f) \<longrightarrow> set ys \<inter> X = {} \<longrightarrow> holds s b g ys \<longrightarrow> holds s' b g ys)"

lemma list_head_qNext: "objs s b = Some d \<Longrightarrow> list_head (put_obj b (d\<lparr>qNext := v\<rparr>) s) a f = list_head s a f"
  by (auto simp: list_head_def component_at_def registry_at_def split: list_field.splits)

lemma others_holdI:
  assumes "\<And>b g. (b, g) \<noteq> (a, f) \<Longrightarrow> list_head s' b g = list_head s b g \<or> list_head s b g = None"
    and "\<And>x. x \<notin> X \<Longrightarrow> map_option qNext (objs s' x) = map_option qNext (objs s x)"
  shows "others_hold s s' a f X"
  unfolding others_hold_def holds_def
proof (intro allI impI)
  fix b g and ys :: "u32 list"
  assume bg: "(b, g) \<noteq> (a, f)" and X: "set ys \<inter> X = {}"
    and h: "(\<exists>p. list_head s b g = Some p \<and> qlist (objs s) p ys) \<and> distinct (b # ys)"
  then obtain p where p: "list_head s b g = Some p" "qlist (objs s) p ys" by blast
  have "list_head s' b g = Some p" using assms(1) [OF bg] p by auto
  moreover have "qlist (objs s') p ys" by (rule qlist_cong [OF p(2)]) (use X in \<open>auto intro: assms(2)\<close>)
  ultimately show "(\<exists>p. list_head s' b g = Some p \<and> qlist (objs s') p ys) \<and> distinct (b # ys)" using h by blast
qed

lemma DSPRegistry_Add_front:
  assumes "holds s a f xs" and "objs s e = Some d" and "FindTargetList s a (qId d) = Some (Some f)" and "e \<noteq> a" and "e \<noteq> 0" and "e \<notin> set xs"
  obtains s' where "DSPRegistry_Add a e s = Some (s', 0)" and "holds s' a f (e # xs)" and "others_hold s s' a f (insert e (set xs))"
    and "\<And>x. x \<noteq> a \<Longrightarrow> x \<noteq> e \<Longrightarrow> objs s' x = objs s x" and "\<exists>v. objs s' e = Some (d\<lparr>qNext := v\<rparr>)"
    and "hProcessor s' = hProcessor s" and "hNode s' = hNode s" and "qlog s' = qlog s" and "map_option qId (objs s' a) = map_option qId (objs s a)"
proof -
  obtain p where p: "list_head s a f = Some p" "qlist (objs s) p xs" "distinct (a # xs)" using assms(1) by (auto simp: holds_def)
  define s1 where "s1 = put_obj e (d\<lparr>qNext := p\<rparr>) s"
  have h1: "list_head s1 b g = list_head s b g" for b g unfolding s1_def by (rule list_head_qNext [OF assms(2)])
  then have "list_head s1 a f = Some p" using p(1) by simp
  then obtain da da' where da: "objs s1 a = Some da" "set_list_head a f e s1 = Some (put_obj a da' s1)"
      "list_head (put_obj a da' s1) a f = Some e" "qNext da' = qNext da" "qId da' = qId da" "TypeSpecific da' = TypeSpecific da"
      "\<And>g w. g \<noteq> f \<Longrightarrow> list_head s1 a g = Some w \<Longrightarrow> list_head (put_obj a da' s1) a g = Some w"
    by (rule set_list_head_Some [where v = e]) blast
  define s' where "s' = put_obj a da' s1"
  have run: "DSPRegistry_Add a e s = Some (s', 0)"
    using assms(2,3) p(1) da(2) by (simp add: DSPRegistry_Add_def set_qnext_def s1_def s'_def)
  have ob: "objs s' e = Some (d\<lparr>qNext := p\<rparr>)" using assms(4) by (simp add: s'_def s1_def)
  have same: "map_option qNext (objs s' x) = map_option qNext (objs s x)" if "x \<noteq> e" for x
    using that da(1,4) assms(4) by (cases "x = a") (auto simp: s'_def s1_def)
  have "qlist (objs s') p xs" by (rule qlist_cong [OF p(2)]) (use assms(6) in \<open>auto intro: same\<close>)
  then have hold: "holds s' a f (e # xs)" using da(3) ob assms(4-6) p(3) by (auto simp: holds_def s'_def)
  have fr: "others_hold s s' a f (insert e (set xs))"
  proof (rule others_holdI)
    fix b g assume "(b, g) \<noteq> (a, f)"
    then show "list_head s' b g = list_head s b g \<or> list_head s b g = None"
      using da(7) [of g] h1 [of b g] list_head_next [where a = b and b = a and d = da' and s = s1 and f = g] by (cases "b = a"; cases "list_head s b g") (auto simp: s'_def)
  qed (use same in auto)
  have "map_option qId (objs s' a) = map_option qId (objs s a)" using da(1,5) assms(4) by (auto simp: s'_def s1_def)
  then show thesis by (intro that [OF run hold fr]) (use ob assms(4) in \<open>auto simp: s'_def s1_def\<close>)
qed

lemma remove_walk_absent: "qlist (objs s) p xs \<Longrightarrow> e \<notin> set xs \<Longrightarrow> e \<noteq> 0 \<Longrightarrow> remove_walk s e p = Some 0"
proof (induction xs arbitrary: p)
  case Nil
  then show ?case by (simp add: remove_walk.simps)
next
  case (Cons x xs)
  then obtain d where d: "objs s x = Some d" "qlist (objs s) (qNext d) xs" "p = x" "x \<noteq> 0" by auto
  have "qNext d \<noteq> e" using d(2) Cons.prems by (cases xs) auto
  then show ?case using Cons d by (subst remove_walk.simps) auto
qed

lemma remove_walk_first: "remove_walk s e e = Some e"
  by (simp add: remove_walk.simps)

lemma remove_walk_pred: "qlist (objs s) p (xs @ b # e # ys) \<Longrightarrow> distinct (xs @ b # e # ys) \<Longrightarrow> remove_walk s e p = Some b"
proof (induction xs arbitrary: p)
  case Nil
  then show ?case by (subst remove_walk.simps) auto
next
  case (Cons x xs)
  then obtain d where d: "objs s x = Some d" "qlist (objs s) (qNext d) (xs @ b # e # ys)" "p = x" "x \<noteq> 0" by auto
  have "qNext d \<noteq> e" using d(2) Cons.prems by (cases xs) auto
  then show ?case using Cons d by (subst remove_walk.simps) auto
qed

lemma DSPRegistry_Remove_absent:
  assumes "holds s a f xs" and "objs s e = Some d" and "FindTargetList s a (qId d) = Some (Some f)" and "e \<noteq> 0" and "e \<notin> set xs"
  shows "DSPRegistry_Remove a e s = Some (s, ENOENT_status)"
proof -
  obtain p where p: "list_head s a f = Some p" "qlist (objs s) p xs" using assms(1) by (auto simp: holds_def)
  with remove_walk_absent [OF p(2) assms(5,4)] assms(2,3) show ?thesis by (simp add: DSPRegistry_Remove_def)
qed

lemma DSPRegistry_Remove_member:
  assumes "holds s a f xs" and "objs s e = Some d" and "FindTargetList s a (qId d) = Some (Some f)" and "e \<in> set xs"
  obtains s' where "DSPRegistry_Remove a e s = Some (s', 0)" and "holds s' a f (remove1 e xs)" and "others_hold s s' a f (set xs)"
    and "objs s' e = Some (d\<lparr>qNext := 0\<rparr>)"
proof -
  obtain p where p: "list_head s a f = Some p" "qlist (objs s) p xs" "distinct (a # xs)" using assms(1) by (auto simp: holds_def)
  have e: "e \<noteq> 0" "e \<noteq> a" using qlist_object [OF p(2) assms(4)] p(3) assms(4) by auto
  show thesis
  proof (cases "p = e")
    case True
    then obtain ys where xs: "xs = e # ys" using qlist_first [OF p(2)] e(1) by auto
    have ys: "qlist (objs s) (qNext d) ys" using p(2) assms(2) xs by auto
    obtain da da' where da: "objs s a = Some da" "set_list_head a f (qNext d) s = Some (put_obj a da' s)"
        "list_head (put_obj a da' s) a f = Some (qNext d)" "qNext da' = qNext da" "qId da' = qId da" "TypeSpecific da' = TypeSpecific da"
        "\<And>g w. g \<noteq> f \<Longrightarrow> list_head s a g = Some w \<Longrightarrow> list_head (put_obj a da' s) a g = Some w"
      using p(1) by (rule set_list_head_Some [where v = "qNext d"]) blast
    define s' where "s' = put_obj e (d\<lparr>qNext := 0\<rparr>) (put_obj a da' s)"
    have run: "DSPRegistry_Remove a e s = Some (s', 0)"
      using assms(2,3) p(1) e da(2) True
      by (simp add: DSPRegistry_Remove_def remove_walk_first set_qnext_def s'_def)
    have oe: "objs (put_obj a da' s) e = Some d" using e assms(2) by simp
    have hd: "list_head s' b g = list_head (put_obj a da' s) b g" for b g unfolding s'_def by (rule list_head_qNext [OF oe])
    have same: "map_option qNext (objs s' x) = map_option qNext (objs s x)" if "x \<noteq> e" for x
      using that da(1,4) e by (cases "x = a") (auto simp: s'_def)
    have "qlist (objs s') (qNext d) ys" by (rule qlist_cong [OF ys]) (use p(3) xs in \<open>auto intro: same\<close>)
    then have hold: "holds s' a f (remove1 e xs)" using xs hd da(3) p(3) by (auto simp: holds_def)
    have fr: "others_hold s s' a f (set xs)"
    proof (rule others_holdI)
      fix b g assume "(b, g) \<noteq> (a, f)"
      then show "list_head s' b g = list_head s b g \<or> list_head s b g = None"
        using da(7) [of g] hd [of b g] list_head_next [where a = b and b = a and d = da' and s = s and f = g] by (cases "b = a"; cases "list_head s b g") auto
    qed (use same xs in auto)
    show thesis by (rule that [OF run hold fr]) (simp add: s'_def)
  next
    case False
    from assms(4) obtain us ys where us: "xs = us @ e # ys" using split_list by fastforce
    with False p(2) have "us \<noteq> []" by (cases us) auto
    then obtain vs b where xs: "xs = vs @ b # e # ys" using us by (cases us rule: rev_cases) auto
    have b: "b \<noteq> e" "b \<noteq> 0" "b \<noteq> a" using p(3) xs qlist_object [OF p(2), of b] by auto
    obtain db where db: "objs s b = Some db" using qlist_object [OF p(2), of b] xs by auto
    define s' where "s' = put_obj e (d\<lparr>qNext := 0\<rparr>) (put_obj b (db\<lparr>qNext := qNext d\<rparr>) s)"
    have walk: "remove_walk s e p = Some b" using remove_walk_pred [of s p vs b e ys] p(2,3) xs by simp
    have run: "DSPRegistry_Remove a e s = Some (s', 0)"
      using assms(2,3) p(1) walk b db by (simp add: DSPRegistry_Remove_def set_qnext_def s'_def)
    have oe: "objs (put_obj b (db\<lparr>qNext := qNext d\<rparr>) s) e = Some d" using b assms(2) by simp
    have hd: "list_head s' c g = list_head s c g" for c g
      unfolding s'_def using list_head_qNext [OF oe] list_head_qNext [OF db] by simp
    have "qlist (objs s') p (vs @ b # ys)"
      using qlist_remove [of "objs s" p vs b e ys d db "Some (d\<lparr>qNext := 0\<rparr>)"] p(2,3) xs assms(2) db by (simp add: s'_def)
    then have hold: "holds s' a f (remove1 e xs)" using hd p(1,3) xs by (auto simp: holds_def remove1_append)
    have fr: "others_hold s s' a f (set xs)" by (rule others_holdI) (use hd xs in \<open>auto simp: s'_def\<close>)
    show thesis by (rule that [OF run hold fr]) (simp add: s'_def)
  qed
qed

subsection \<open>Updates\<close>

text \<open>A bridge that answers, and a resource that can be asked about.\<close>

definition bridge_ok :: "qos_bridge \<Rightarrow> bool" where
  "bridge_ok q \<longleftrightarrow> (\<forall>es. qb_put q es \<ge> 0) \<and> (\<forall>es c x y. fst (qb_get q (es @ [Put_message c x y])) \<ge> 0 \<and> fst (snd (qb_get q (es @ [Put_message c x y]))) = c)
     \<and> (\<forall>es r. fst (qb_info q es r) \<ge> 0)"

definition obj_ok :: "QOSDATA \<Rightarrow> bool" where
  "obj_ok d \<longleftrightarrow> (case (TypeSpecific d, qbody d) of
       (Memory_DynLoad_handler, Memory m) \<Rightarrow> heapId m \<le> EDynloadSram
     | (Memory_DynAlloc_handler, Memory m) \<Rightarrow> heapId m \<le> KAllHeaps_id
     | (Memory_Scratch_handler, Memory m) \<Rightarrow> mem_type m \<le> 2
     | (Processor_handler, Processor p) \<Rightarrow> True
     | (Resource_Default_handler, Plain_data) \<Rightarrow> True
     | (Resource_Default_handler, Stream v) \<Rightarrow> True
     | _ \<Rightarrow> False)"

definition ready :: "qos_state \<Rightarrow> u32 \<Rightarrow> bool" where
  "ready s x \<longleftrightarrow> (\<exists>d. objs s x = Some d \<and> obj_ok d)"

definition updated :: "qos_state \<Rightarrow> qos_state \<Rightarrow> bool" where
  "updated s s' \<longleftrightarrow> (\<forall>x. map_option (\<lambda>d. (qId d, qNext d)) (objs s' x) = map_option (\<lambda>d. (qId d, qNext d)) (objs s x))
     \<and> (\<forall>x f. list_head s' x f = list_head s x f) \<and> (\<forall>x. ready s x \<longrightarrow> ready s' x)"

lemma updated_refl [simp]: "updated s s" by (simp add: updated_def)

lemma updated_trans: "updated s s' \<Longrightarrow> updated s' s'' \<Longrightarrow> updated s s''" by (simp add: updated_def)

lemma updated_log [simp]: "updated s (s'\<lparr>qlog := es\<rparr>) \<longleftrightarrow> updated s s'"
  by (simp add: updated_def ready_def list_head_def component_at_def registry_at_def split: list_field.splits)

lemma updated_holds: "updated s s' \<Longrightarrow> holds s a f xs \<Longrightarrow> holds s' a f xs"
proof -
  assume u: "updated s s'" and h: "holds s a f xs"
  have same: "map_option qNext (objs s' x) = map_option qNext (objs s x)" for x
    using arg_cong [of _ _ "map_option snd", OF conjunct1 [OF u [unfolded updated_def], rule_format, of x]] by (simp add: option.map_comp comp_def)
  have "qlist (objs s') p xs" if "qlist (objs s) p xs" for p using that by (rule qlist_cong) (rule same)
  with u h show "holds s' a f xs" unfolding holds_def updated_def by auto
qed

lemma DspMsg_ok:
  assumes "bridge_ok q"
  obtains s' st out where "QosTI_DspMsg q s c x y = (s', st, Some out)" and "st \<ge> 0" and "objs s' = objs s"
proof -
  have p: "qb_put q es \<ge> 0" for es using assms by (simp add: bridge_ok_def)
  obtain st c' a b where g: "qb_get q (qlog s @ [Put_message c x y]) = (st, c', a, b)" by (cases "qb_get q (qlog s @ [Put_message c x y])")
  have "fst (qb_get q (qlog s @ [Put_message c x y])) \<ge> 0 \<and> fst (snd (qb_get q (qlog s @ [Put_message c x y]))) = c"
    using assms by (simp add: bridge_ok_def)
  then have "st \<ge> 0" "c' = c" using g by simp_all
  then show thesis using that p g by (simp add: QosTI_DspMsg_def Let_def DSP_SUCCEEDED_def)
qed

lemma updated_body:
  assumes "objs s a = Some d" and "objs s1 = objs s" and "obj_ok d" and "obj_ok (d\<lparr>qbody := b\<rparr>)"
  shows "\<exists>s'. set_body a b s1 = Some s' \<and> updated s s'"
proof -
  have h: "list_head (put_obj a (d\<lparr>qbody := b\<rparr>) s1) x f = list_head s x f" for x f
    using assms by (cases "x = a")
      (auto simp: list_head_def component_at_def registry_at_def obj_ok_def split: list_field.splits qos_body.splits qos_handler.splits)
  have "updated s (put_obj a (d\<lparr>qbody := b\<rparr>) s1)" using assms h by (auto simp: updated_def ready_def)
  then show ?thesis using assms by (simp add: set_body_def)
qed

lemma word_up_to_3: "(w :: u32) \<le> 3 \<Longrightarrow> w = 0 \<or> w = 1 \<or> w = 2 \<or> w = 3"
proof -
  assume "w \<le> 3"
  then have "unat w \<le> 3" by (simp add: word_le_nat_alt)
  then have "unat w = 0 \<or> unat w = 1 \<or> unat w = 2 \<or> unat w = 3" by linarith
  then show ?thesis by (simp add: word_unat_eq_iff)
qed

lemma update_info_ok:
  assumes "bridge_ok q" and "ready s a"
  obtains s' st where "update_info q a s = Some (s', st)" and "st \<ge> 0" and "updated s s'"
proof -
  obtain d where d: "objs s a = Some d" "obj_ok d" using assms(2) by (auto simp: ready_def)
  note ok = d(2) [unfolded obj_ok_def]
  have info: "fst (qb_info q es r) \<ge> 0" for es r using assms(1) by (simp add: bridge_ok_def)
  show thesis
  proof (cases "TypeSpecific d")
    case Memory_DynLoad_handler
    with ok obtain m where m: "qbody d = Memory m" "heapId m \<le> EDynloadSram" by (auto split: qos_body.splits)
    obtain st i where i: "qb_info q (qlog s) (heapId m) = (st, i)" by fastforce
    have st: "st \<ge> 0" using info [of "qlog s" "heapId m"] i by simp
    have "heapId m = 0 \<or> heapId m = 1 \<or> heapId m = 2 \<or> heapId m = 3"
      using m(2) by (intro word_up_to_3) (simp add: EDynloadSram_def)
    then have g: "QosTI_GetDynLoaderMemStat q s (heapId m) = (qlogged (Get_resource_info (heapId m)) s, st, Some (ulSize i, ulSize i - ulTotalFreeSize i, ulLenMaxFreeBlock i))"
      using st i by (auto simp: QosTI_GetDynLoaderMemStat_def Let_def DSP_SUCCEEDED_def EDynloadDaram_def EDynloadSaram_def EDynloadExternal_def EDynloadSram_def)
    obtain s' where "set_body a (Memory (m\<lparr>mem_size := ulSize i, allocated := ulSize i - ulTotalFreeSize i, largestfree := ulLenMaxFreeBlock i\<rparr>))
        (qlogged (Get_resource_info (heapId m)) s) = Some s'" "updated s s'"
      using updated_body [OF d(1) _ d(2), of "qlogged (Get_resource_info (heapId m)) s"
          "Memory (m\<lparr>mem_size := ulSize i, allocated := ulSize i - ulTotalFreeSize i, largestfree := ulLenMaxFreeBlock i\<rparr>)"]
        m Memory_DynLoad_handler by (auto simp: obj_ok_def)
    then show thesis using that st d(1) m g Memory_DynLoad_handler by (simp add: update_info_def memory_at_def)
  next
    case Memory_DynAlloc_handler
    with ok obtain m where m: "qbody d = Memory m" "heapId m \<le> KAllHeaps_id" by (auto split: qos_body.splits)
    obtain s1 st1 a1 b1 where 1: "QosTI_DspMsg q s QOS_TI_GETMEMSTAT (heapId m) USED_HEAPSIZE = (s1, st1, Some (a1, b1))" "objs s1 = objs s"
      using DspMsg_ok [OF assms(1)] by (metis surj_pair)
    obtain s2 st2 a2 b2 where 2: "QosTI_DspMsg q s1 QOS_TI_GETMEMSTAT (heapId m) LARGEST_FREE_BLOCKSIZE = (s2, st2, Some (a2, b2))" "st2 \<ge> 0" "objs s2 = objs s1"
      using DspMsg_ok [OF assms(1)] by (metis surj_pair)
    obtain s' where "set_body a (Memory (m\<lparr>mem_size := a1, allocated := b1, largestfree := b2\<rparr>)) s2 = Some s'" "updated s s'"
      using updated_body [OF d(1) _ d(2), of s2 "Memory (m\<lparr>mem_size := a1, allocated := b1, largestfree := b2\<rparr>)"] 1(2) 2(3) m Memory_DynAlloc_handler
      by (auto simp: obj_ok_def)
    then show thesis using that 1 2 d(1) m Memory_DynAlloc_handler by (simp add: update_info_def memory_at_def)
  next
    case Memory_Scratch_handler
    with ok obtain m where m: "qbody d = Memory m" "mem_type m \<le> 2" by (auto split: qos_body.splits)
    obtain s1 st1 a1 b1 where 1: "QosTI_DspMsg q s QOS_TI_GETSHAREDSCRATCH (mem_type m) (mem_group m) = (s1, st1, Some (a1, b1))" "st1 \<ge> 0" "objs s1 = objs s"
      using DspMsg_ok [OF assms(1)] by (metis surj_pair)
    obtain s' where "set_body a (Memory (m\<lparr>mem_size := a1, heapId := b1\<rparr>)) s1 = Some s'" "updated s s'"
      using updated_body [OF d(1) 1(3) d(2), of "Memory (m\<lparr>mem_size := a1, heapId := b1\<rparr>)"] m Memory_Scratch_handler by (auto simp: obj_ok_def)
    then show thesis using that 1 d(1) m Memory_Scratch_handler by (simp add: update_info_def memory_at_def)
  next
    case Processor_handler
    with ok obtain p where p: "qbody d = Processor p" by (auto split: qos_body.splits)
    obtain s1 st1 a1 b1 where 1: "QosTI_DspMsg q s QOS_TI_GETCPULOAD 0 0 = (s1, st1, Some (a1, b1))" "objs s1 = objs s"
      using DspMsg_ok [OF assms(1)] by (metis surj_pair)
    obtain st i where i: "qb_info q (qlog s1) DSP_RESOURCE_PROCLOAD = (st, i)" by fastforce
    have st: "st \<ge> 0" using info [of "qlog s1" DSP_RESOURCE_PROCLOAD] i by simp
    have 2: "QosTI_GetProcLoadStat q s1 = (qlogged (Get_resource_info DSP_RESOURCE_PROCLOAD) s1, st, Some (uCurrLoad i, uPredictedLoad i, uCurrDspFreq i, uPredictedFreq i))"
      using st i by (simp add: QosTI_GetProcLoadStat_def Let_def DSP_SUCCEEDED_def)
    let ?p = "p\<lparr>Utilization := a1, currentLoad := uCurrLoad i, predLoad := uPredictedLoad i, currDspFreq := uCurrDspFreq i, predictedFreq := uPredictedFreq i\<rparr>"
    obtain s' where "set_body a (Processor ?p) (qlogged (Get_resource_info DSP_RESOURCE_PROCLOAD) s1) = Some s'" "updated s s'"
      using updated_body [OF d(1) _ d(2), of "qlogged (Get_resource_info DSP_RESOURCE_PROCLOAD) s1" "Processor ?p"] 1(2) p Processor_handler
      by (auto simp: obj_ok_def)
    then show thesis using that 1 2 st d(1) p Processor_handler by (simp add: update_info_def processor_at_def)
  next
    case Resource_Default_handler
    then show thesis using that [of s 0] d(1) by (simp add: update_info_def)
  qed (use ok in \<open>auto split: qos_body.splits\<close>)
qed

subsection \<open>Finding\<close>

definition matches :: "qos_state \<Rightarrow> u32 \<Rightarrow> u32 list \<Rightarrow> u32 list" where
  "matches s tid xs = filter (\<lambda>x. map_option qId (objs s x) = Some tid) xs"

lemma updated_matches:
  assumes "updated s s'"
  shows "matches s' tid xs = matches s tid xs"
proof -
  have "map_option qId (objs s' x) = map_option qId (objs s x)" for x
    using arg_cong [of _ _ "map_option fst", OF conjunct1 [OF assms [unfolded updated_def], rule_format, of x]]
    by (simp add: option.map_comp comp_def)
  then show ?thesis by (simp add: matches_def)
qed

lemma updated_qlist: "updated s s' \<Longrightarrow> qlist (objs s) p xs \<Longrightarrow> qlist (objs s') p xs"
proof -
  assume u: "updated s s'" and q: "qlist (objs s) p xs"
  have "map_option qNext (objs s' x) = map_option qNext (objs s x)" for x
    using arg_cong [of _ _ "map_option snd", OF conjunct1 [OF u [unfolded updated_def], rule_format, of x]]
    by (simp add: option.map_comp comp_def)
  then show ?thesis using q by (blast intro: qlist_cong)
qed

lemma updated_ready: "updated s s' \<Longrightarrow> ready s x \<Longrightarrow> ready s' x"
  by (simp add: updated_def)

lemma find_walk_matches:
  assumes "bridge_ok q" and "qlist (objs s) p xs" and "st \<ge> 0" and "\<And>x. x \<in> set (matches s tid xs) \<Longrightarrow> ready s x"
  shows "\<exists>s' st'. find_walk q tid True sz p s st rs n = Some (s', st', rs @ take (sz - n) (matches s tid xs), n + length (matches s tid xs))
    \<and> st' \<ge> 0 \<and> updated s s'"
  using assms(2-4)
proof (induction xs arbitrary: p s st rs n)
  case Nil
  then show ?case by (subst find_walk.simps) (simp add: matches_def)
next
  case (Cons x xs)
  then obtain d where d: "objs s x = Some d" "qlist (objs s) (qNext d) xs" "p = x" "x \<noteq> 0" by auto
  have step: "find_walk q tid True sz p s st rs n
      = (if qId d \<noteq> tid then find_walk q tid True sz (qNext d) s st rs n
         else if sz > n then do { (s1, st1) \<leftarrow> update_info q x s; d1 \<leftarrow> objs s1 x; find_walk q tid True sz (qNext d1) s1 st1 (rs @ [x]) (n + 1) }
         else find_walk q tid True sz (qNext d) s st rs (n + 1))"
    using d Cons.prems(2) by (subst find_walk.simps) (simp add: DSP_SUCCEEDED_def)
  consider (other) "qId d \<noteq> tid" | (room) "qId d = tid" "sz > n" | (full) "qId d = tid" "\<not> sz > n" by blast
  then show ?case
  proof cases
    case other
    then have "matches s tid (x # xs) = matches s tid xs" using d(1) by (simp add: matches_def)
    then show ?thesis using Cons.IH [OF d(2) Cons.prems(2)] Cons.prems(3) step other by simp
  next
    case room
    have m: "matches s tid (x # xs) = x # matches s tid xs" using d(1) room by (simp add: matches_def)
    then have "ready s x" using Cons.prems(3) by simp
    from update_info_ok [OF assms(1) this] obtain s1 st1 where u: "update_info q x s = Some (s1, st1)" "st1 \<ge> 0" "updated s s1" by blast
    have "map_option (\<lambda>d. (qId d, qNext d)) (objs s1 x) = Some (qId d, qNext d)" using u(3) d(1) by (simp add: updated_def)
    then obtain d1 where d1: "objs s1 x = Some d1" "qNext d1 = qNext d" by auto
    have ms: "matches s1 tid xs = matches s tid xs" using updated_matches [OF u(3)] .
    have "\<exists>s' st'. find_walk q tid True sz (qNext d) s1 st1 (rs @ [x]) (n + 1)
          = Some (s', st', (rs @ [x]) @ take (sz - (n + 1)) (matches s1 tid xs), n + 1 + length (matches s1 tid xs)) \<and> st' \<ge> 0 \<and> updated s1 s'"
      by (rule Cons.IH [OF updated_qlist [OF u(3) d(2)] u(2)]) (use Cons.prems(3) m ms updated_ready [OF u(3)] in simp)
    then obtain s' st' where f: "find_walk q tid True sz (qNext d) s1 st1 (rs @ [x]) (n + 1)
          = Some (s', st', (rs @ [x]) @ take (sz - (n + 1)) (matches s tid xs), n + 1 + length (matches s tid xs))" "st' \<ge> 0" "updated s1 s'"
      using ms by auto
    have "sz - n = Suc (sz - (n + 1))" using room(2) by simp
    then have "take (sz - n) (x # matches s tid xs) = x # take (sz - (n + 1)) (matches s tid xs)" by simp
    then show ?thesis using f step room u(1) d1 m updated_trans [OF u(3) f(3)] by simp
  next
    case full
    have m: "matches s tid (x # xs) = x # matches s tid xs" using d(1) full by (simp add: matches_def)
    have "\<exists>s' st'. find_walk q tid True sz (qNext d) s st rs (n + 1)
          = Some (s', st', rs @ take (sz - (n + 1)) (matches s tid xs), n + 1 + length (matches s tid xs)) \<and> st' \<ge> 0 \<and> updated s s'"
      by (rule Cons.IH [OF d(2) Cons.prems(2)]) (use Cons.prems(3) m in simp)
    then show ?thesis using step full m by simp
  qed
qed

lemma find_resources:
  assumes "bridge_ok q" and "holds s r Registry_resources xs" and "map_option qId (objs s r) = Some QOSDataType_Registry" and "r \<noteq> 0"
    and "DSPData_IsResource tid" and "\<And>x. x \<in> set (matches s tid xs) \<Longrightarrow> ready s x"
  obtains s' st where "DSPRegistry_Find q tid r sz s = Some (s', st, take sz (matches s tid xs), max sz (length (matches s tid xs)))"
    and "updated s s'" and "holds s' r Registry_resources xs"
    and "st \<ge> 0 \<longleftrightarrow> matches s tid xs \<noteq> [] \<and> length (matches s tid xs) \<le> sz" and "matches s tid xs = [] \<Longrightarrow> st = ENOENT_status"
    and "length (matches s tid xs) > sz \<Longrightarrow> st = EINVAL_status"
proof -
  let ?ms = "matches s tid xs"
  obtain p where p: "list_head s r Registry_resources = Some p" "qlist (objs s) p xs" using assms(2) by (auto simp: holds_def)
  have t: "FindTargetList s r tid = Some (Some Registry_resources)"
    using assms(3-5) by (auto simp: FindTargetList_def qos_types)
  obtain s' st where f: "find_walk q tid True sz p s 0 [] 0 = Some (s', st, take sz ?ms, length ?ms)" "st \<ge> 0" "updated s s'"
    using find_walk_matches [OF assms(1) p(2) order_refl assms(6), of tid sz "[]" 0] by auto
  show thesis
    using f t p(1) assms(5) updated_holds [OF f(3) assms(2)]
    by (intro that [of s' "if length ?ms > sz then EINVAL_status else if ?ms = [] then ENOENT_status else st"])
      (auto simp: DSPRegistry_Find_def max_def)
qed

subsection \<open>Deleting\<close>

text \<open>The state after freeing the objects \<open>xs\<close>, in this order.\<close>

definition freed :: "u32 list \<Rightarrow> qos_state \<Rightarrow> qos_state" where
  "freed xs s = s\<lparr>objs := (\<lambda>x. if x \<in> set xs then None else objs s x), qlog := qlog s @ map Q_free xs\<rparr>"

lemma freed_Nil [simp]: "freed [] s = s"
  by (simp add: freed_def)

lemma freed_append: "freed ys (freed xs s) = freed (xs @ ys) s"
  by (auto simp: freed_def fun_eq_iff)

lemma q_free_freed: "objs s a = Some d \<Longrightarrow> a \<noteq> 0 \<Longrightarrow> q_free a s = Some (freed [a] s)"
  by (auto simp: q_free_def freed_def fun_eq_iff)

lemma freed_elsewhere [simp]: "x \<notin> set xs \<Longrightarrow> objs (freed xs s) x = objs s x"
  by (simp add: freed_def)

lemma freed_list_head: "x \<notin> set xs \<Longrightarrow> list_head (freed xs s) x f = list_head s x f"
  by (rule list_head_other) simp

lemma freed_qlist:
  assumes "qlist (objs s) p ys" and "set xs \<inter> set ys = {}"
  shows "qlist (objs (freed xs s)) p ys"
proof (rule qlist_cong [OF assms(1)])
  fix x assume "x \<in> set ys"
  then have "x \<notin> set xs" using assms(2) by blast
  then show "map_option qNext (objs (freed xs s) x) = map_option qNext (objs s x)" by simp
qed

definition plain :: "qos_state \<Rightarrow> u32 \<Rightarrow> bool" where
  "plain s x \<longleftrightarrow> (\<exists>d. objs s x = Some d \<and> qId d \<le> QOSDataType_DynDependentLibrary \<and> qId d \<noteq> QOSDataType_Component \<and> qId d \<noteq> QOSDataType_Registry)"

lemma plain_freed: "x \<notin> set xs \<Longrightarrow> plain (freed xs s) x \<longleftrightarrow> plain s x"
  by (simp add: plain_def)

lemma delete_plain:
  "qlist (objs s) p xs \<Longrightarrow> distinct xs \<Longrightarrow> (\<And>x. x \<in> set xs \<Longrightarrow> plain s x) \<Longrightarrow> DSPData_Delete p s = Some (freed xs s)"
proof (induction xs arbitrary: p s)
  case Nil
  then show ?case by (simp add: DSPData_Delete.simps)
next
  case (Cons x xs)
  then obtain d where d: "objs s x = Some d" "qlist (objs s) (qNext d) xs" "p = x" "x \<noteq> 0" by auto
  have pl: "qId d \<le> QOSDataType_DynDependentLibrary" "qId d \<noteq> QOSDataType_Component" "qId d \<noteq> QOSDataType_Registry"
    using Cons.prems(3) [of x] d(1) by (auto simp: plain_def)
  have q: "qlist (objs (freed [x] s)) (qNext d) xs" using d(2) Cons.prems(2) by (intro freed_qlist) auto
  have "DSPData_Delete (qNext d) (freed [x] s) = Some (freed xs (freed [x] s))"
    by (rule Cons.IH [OF q]) (use Cons.prems(2,3) in \<open>auto simp: plain_def freed_def\<close>)
  then show ?case using d pl q_free_freed [OF d(1,4)] by (subst DSPData_Delete.simps) (simp add: freed_append)
qed

text \<open>A component with the lists of its resources and libraries.\<close>

type_synonym component_lists = "u32 \<times> u32 list \<times> u32 list"

fun component_ok :: "qos_state \<Rightarrow> component_lists \<Rightarrow> bool" where
  "component_ok s (c, rs, ls) \<longleftrightarrow> map_option qId (objs s c) = Some QOSDataType_Component
     \<and> (\<exists>p. list_head s c Component_resources = Some p \<and> qlist (objs s) p rs)
     \<and> (\<exists>p. list_head s c Component_libraries = Some p \<and> qlist (objs s) p ls) \<and> (\<forall>x \<in> set rs \<union> set ls. plain s x)"

fun component_objects :: "component_lists \<Rightarrow> u32 list" where
  "component_objects (c, rs, ls) = rs @ ls @ [c]"

lemma component_ok_freed:
  assumes "component_ok s k" and "set xs \<inter> set (component_objects k) = {}"
  shows "component_ok (freed xs s) k"
proof -
  obtain c rs ls where k: "k = (c, rs, ls)" by (cases k)
  have c: "c \<notin> set xs" using assms(2) k by auto
  have "qlist (objs (freed xs s)) p rs" if "qlist (objs s) p rs" for p using that assms(2) k by (intro freed_qlist) auto
  moreover have "qlist (objs (freed xs s)) p ls" if "qlist (objs s) p ls" for p using that assms(2) k by (intro freed_qlist) auto
  moreover have "plain (freed xs s) x" if "plain s x" "x \<in> set rs \<union> set ls" for x
    using that assms(2) k by (auto simp: plain_def freed_def)
  ultimately show ?thesis using assms(1) k freed_list_head [OF c] c by auto
qed

lemma delete_component_lists:
  assumes "component_ok s (c, rs, ls)" and "distinct (component_objects (c, rs, ls))"
  shows "\<exists>k. component_at s c = Some k \<and> DSPData_Delete (resourceList k) s = Some (freed rs s)
    \<and> (\<exists>k1. component_at (freed rs s) c = Some k1 \<and> DSPData_Delete (dynDepLibList k1) (freed rs s) = Some (freed (rs @ ls) s))"
proof -
  obtain p1 p2 where p: "list_head s c Component_resources = Some p1" "qlist (objs s) p1 rs" "list_head s c Component_libraries = Some p2" "qlist (objs s) p2 ls"
    using assms(1) by auto
  obtain k where k: "component_at s c = Some k" "resourceList k = p1" "dynDepLibList k = p2" using p(1,3) by (auto simp: list_head_def)
  have pl: "plain s x" if "x \<in> set rs \<union> set ls" for x using assms(1) that by simp
  have 1: "DSPData_Delete p1 s = Some (freed rs s)" by (rule delete_plain [OF p(2)]) (use assms(2) pl in auto)
  have c: "component_at (freed rs s) c = Some k" using k(1) assms(2) by (simp add: component_at_def)
  have "qlist (objs (freed rs s)) p2 ls" using p(4) assms(2) by (intro freed_qlist) auto
  moreover have "plain (freed rs s) x" if "x \<in> set ls" for x
    using that pl assms(2) plain_freed [of x rs s] by auto
  ultimately have "DSPData_Delete p2 (freed rs s) = Some (freed ls (freed rs s))"
    using assms(2) by (intro delete_plain) auto
  then show ?thesis using 1 c k by (simp add: freed_append)
qed

lemma delete_components:
  "qlist (objs s) p (map fst ks) \<Longrightarrow> distinct (concat (map component_objects ks)) \<Longrightarrow> (\<And>k. k \<in> set ks \<Longrightarrow> component_ok s k)
    \<Longrightarrow> DSPData_Delete p s = Some (freed (concat (map component_objects ks)) s)"
proof (induction ks arbitrary: p s)
  case Nil
  then show ?case by (simp add: DSPData_Delete.simps)
next
  case (Cons k ks)
  obtain c rs ls where k: "k = (c, rs, ls)" by (cases k)
  from Cons.prems(1) k obtain d where d: "objs s c = Some d" "qlist (objs s) (qNext d) (map fst ks)" "p = c" "c \<noteq> 0" by auto
  have ok: "component_ok s (c, rs, ls)" using Cons.prems(3) [of k] k by (simp del: component_ok.simps)
  have dist: "distinct (component_objects (c, rs, ls))" using Cons.prems(2) k by auto
  have qid: "qId d = QOSDataType_Component" using ok d(1) by simp
  obtain kk k1 where kk: "component_at s c = Some kk" "DSPData_Delete (resourceList kk) s = Some (freed rs s)"
      "component_at (freed rs s) c = Some k1" "DSPData_Delete (dynDepLibList k1) (freed rs s) = Some (freed (rs @ ls) s)"
    using delete_component_lists [OF ok dist] by blast
  have oc: "objs (freed (rs @ ls) s) c = Some d" using d(1) dist by simp
  let ?s = "freed (component_objects k) s"
  have fr: "q_free c (freed (rs @ ls) s) = Some ?s" using q_free_freed [OF oc d(4)] k by (simp add: freed_append)
  have apart: "set (component_objects k) \<inter> set (component_objects j) = {}" if "j \<in> set ks" for j
    using Cons.prems(2) that by auto
  have fsts: "fst j \<in> set (component_objects j)" for j :: component_lists by (cases j) simp
  have "qlist (objs ?s) (qNext d) (map fst ks)" using d(2) apart fsts by (intro freed_qlist) force+
  then have "DSPData_Delete (qNext d) ?s = Some (freed (concat (map component_objects ks)) ?s)"
  proof (rule Cons.IH)
    show "distinct (concat (map component_objects ks))" using Cons.prems(2) by simp
    show "component_ok ?s j" if "j \<in> set ks" for j
      using that by (intro component_ok_freed apart Cons.prems(3)) simp
  qed
  then show ?case
    using d kk oc fr qid by (subst DSPData_Delete.simps) (simp add: freed_append qos_types)
qed

text \<open>What a registry owns: its resources, and its components with their lists.\<close>

definition registry_ok :: "qos_state \<Rightarrow> u32 \<Rightarrow> u32 list \<Rightarrow> component_lists list \<Rightarrow> bool" where
  "registry_ok s r xs ks \<longleftrightarrow> r \<noteq> 0 \<and> holds s r Registry_resources xs \<and> holds s r Registry_components (map fst ks)
     \<and> (\<forall>x \<in> set xs. plain s x) \<and> (\<forall>k \<in> set ks. component_ok s k) \<and> distinct (r # xs @ concat (map component_objects ks))"

lemma QosTI_Delete_simps:
  "objs (QosTI_Delete s) = objs s" "hNode (QosTI_Delete s) = 0" "hProcessor (QosTI_Delete s) = 0"
  by (simp_all add: QosTI_Delete_def Let_def)

lemma delete_registry:
  assumes "registry_ok s r xs ks"
  shows "DSPRegistry_Delete r s = q_free r (QosTI_Delete (freed (xs @ concat (map component_objects ks)) s))"
proof -
  let ?cs = "concat (map component_objects ks)"
  note ok = assms [unfolded registry_ok_def]
  obtain p1 p2 where p: "list_head s r Registry_resources = Some p1" "qlist (objs s) p1 xs"
      "list_head s r Registry_components = Some p2" "qlist (objs s) p2 (map fst ks)"
    using ok by (auto simp: holds_def)
  then obtain g where g: "registry_at s r = Some g" "ResourceRegistry g = p1" "ComponentRegistry g = p2" by (auto simp: list_head_def)
  have 1: "DSPData_Delete p1 s = Some (freed xs s)" by (rule delete_plain [OF p(2)]) (use ok in auto)
  have g1: "registry_at (freed xs s) r = Some g" using g(1) ok by (simp add: registry_at_def)
  have fsts: "fst k \<in> set (component_objects k)" for k :: component_lists by (cases k) simp
  then have sub: "set (map fst ks) \<subseteq> set ?cs" unfolding set_map set_concat by (simp add: image_subset_iff) blast
  have apart: "set xs \<inter> set ?cs = {}" using ok by simp
  have q: "qlist (objs (freed xs s)) p2 (map fst ks)" by (rule freed_qlist [OF p(4)]) (use sub apart in blast)
  have "DSPData_Delete p2 (freed xs s) = Some (freed ?cs (freed xs s))"
  proof (rule delete_components [OF q])
    show "distinct ?cs" using ok by simp
    show "component_ok (freed xs s) k" if "k \<in> set ks" for k
    proof (rule component_ok_freed)
      show "component_ok s k" using ok that by blast
      show "set xs \<inter> set (component_objects k) = {}" using ok that by auto
    qed
  qed
  then show ?thesis using ok g 1 g1 by (simp add: DSPRegistry_Delete_def freed_append)
qed

subsection \<open>Creating\<close>

text \<open>
  The allocator returns no address that is in use, as long as nothing is freed: not one of an object of \<open>s\<close>,
  and not one it returned since.
\<close>

definition fresh_answers :: "qos_bridge \<Rightarrow> qos_state \<Rightarrow> bool" where
  "fresh_answers q s \<longleftrightarrow> (\<forall>es tid. (\<forall>a. Q_free a \<notin> set es) \<longrightarrow> qb_calloc q (qlog s @ es) tid \<noteq> 0
     \<longrightarrow> objs s (qb_calloc q (qlog s @ es) tid) = None \<and> (\<forall>t. Q_calloc t (qb_calloc q (qlog s @ es) tid) \<notin> set es))"

text \<open>The resources \<open>cs\<close>, by their type and their data, as they stand in the list.\<close>

definition contents :: "qos_state \<Rightarrow> u32 list \<Rightarrow> (u32 \<times> qos_body) option list" where
  "contents s xs = map (\<lambda>x. map_option (\<lambda>d. (qId d, qbody d)) (objs s x)) xs"

text \<open>An object with the function of its type.\<close>

definition handled :: "qos_state \<Rightarrow> u32 \<Rightarrow> bool" where
  "handled s x \<longleftrightarrow> (\<exists>d b. objs s x = Some d \<and> rd standard_datatypes (unat (qId d)) = Some (qId d, TypeSpecific d, b))"

definition grown :: "qos_state \<Rightarrow> u32 \<Rightarrow> u32 list \<Rightarrow> (u32 \<times> qos_body) list \<Rightarrow> qos_event list \<Rightarrow> qos_state \<Rightarrow> bool" where
  "grown s0 r xs cs es s \<longleftrightarrow> qlog s = qlog s0 @ es \<and> (\<forall>a. Q_free a \<notin> set es)
     \<and> map_option qId (objs s r) = Some QOSDataType_Registry \<and> holds s r Registry_resources xs \<and> holds s r Registry_components []
     \<and> contents s xs = map Some cs \<and> (\<forall>x \<in> set xs. plain s x \<and> handled s x) \<and> (\<forall>x. x \<notin> set (r # xs) \<longrightarrow> objs s x = objs s0 x)
     \<and> (\<forall>x \<in> set (r # xs). x \<noteq> 0 \<and> objs s0 x = None \<and> (\<exists>t. Q_calloc t x \<in> set es))"

lemma grown_other:
  assumes "grown s0 r xs cs es s" and "objs s' = objs s" and "qlog s' = qlog s @ fs" and "\<And>a. Q_free a \<notin> set fs"
  shows "grown s0 r xs cs (es @ fs) s'"
proof -
  have "list_head s' a f = list_head s a f" for a f by (rule list_head_other) (simp add: assms(2))
  then have "holds s' a f ys = holds s a f ys" for a f ys using assms(2) by (simp add: holds_def)
  then show ?thesis using assms by (auto simp: grown_def contents_def plain_def handled_def)
qed

lemma resource_types:
  assumes "(tid, b) \<in> set [(QOSDataType_Memory_DynLoad, Memory no_memory), (QOSDataType_Memory_DynAlloc, Memory no_memory),
     (QOSDataType_Memory_Scratch, Memory no_memory), (QOSDataType_Processor_C6X, Processor no_processor), (QOSDataType_Stream, Stream 0)]"
  shows "tid AND QOS_USER_DATA_TYPE = 0" and "\<exists>h. rd standard_datatypes (unat tid) = Some (tid, h, b)" and "DSPData_IsResource tid"
    and "tid \<le> QOSDataType_DynDependentLibrary" and "tid \<noteq> QOSDataType_Component" and "tid \<noteq> QOSDataType_Registry"
  using assms by (auto simp: qos_types QOS_USER_DATA_TYPE_def standard_datatypes_def rd_def DSPData_IsResource_def)

text \<open>A new resource stands in front of the list; when there is no memory for it, nothing happens.\<close>

lemma add_new_grows:
  assumes "grown s0 r xs cs es s" and "fresh_answers q s0"
    and "(tid, b) \<in> set [(QOSDataType_Memory_DynLoad, Memory no_memory), (QOSDataType_Memory_DynAlloc, Memory no_memory),
     (QOSDataType_Memory_Scratch, Memory no_memory), (QOSDataType_Processor_C6X, Processor no_processor), (QOSDataType_Stream, Stream 0)]"
    and "DSP_SUCCEEDED st"
  obtains s' st' a where "add_new q r tid f (s, st) = Some (s', st')" and "DSP_SUCCEEDED st'"
    and "a = 0 \<Longrightarrow> grown s0 r xs cs (es @ [Q_calloc tid a]) s'"
    and "a \<noteq> 0 \<Longrightarrow> grown s0 r (a # xs) ((tid, f b) # cs) (es @ [Q_calloc tid a]) s'"
proof -
  note tid = resource_types [OF assms(3)]
  obtain h where h: "rd standard_datatypes (unat tid) = Some (tid, h, b)" using tid(2) by blast
  define a where "a = qb_calloc q (qlog s) tid"
  define s1 where "s1 = qlogged (Q_calloc tid a) s"
  note g = assms(1) [unfolded grown_def]
  show thesis
  proof (cases "a = 0")
    case True
    have "DSPData_Create q s tid = Some (s1, 0)" using True tid(1) h a_def by (simp add: DSPData_Create_def s1_def)
    then have "add_new q r tid f (s, st) = Some (s1, st)" using assms(4) by (simp add: add_new_def)
    then show thesis using that [of s1 st a] assms(4) True grown_other [OF assms(1), of s1 "[Q_calloc tid a]"] by (simp add: s1_def)
  next
    case False
    let ?d = "\<lparr>qId = tid, qNext = 0, TypeSpecific = h, qbody = b\<rparr>"
    have c: "DSPData_Create q s tid = Some (put_obj a ?d s1, a)" using False tid(1) h a_def by (simp add: DSPData_Create_def s1_def Let_def)
    have fresh: "objs s0 a = None" "\<And>t. Q_calloc t a \<notin> set es"
      using assms(2) g False unfolding fresh_answers_def a_def by metis+
    have na: "a \<notin> set (r # xs)" using fresh g by blast
    define s2 where "s2 = put_obj a (?d\<lparr>qbody := f b\<rparr>) s1"
    have ra: "r \<noteq> a" using na by auto
    have hd: "list_head s2 r F = list_head s r F" for F by (rule list_head_other) (simp add: s2_def s1_def ra)
    have ql: "qlist (objs s2) p ys" if "qlist (objs s) p ys" "a \<notin> set ys" for p ys
      using qlist_update [OF that] by (simp add: s2_def s1_def)
    have h2: "holds s2 r Registry_resources xs" "holds s2 r Registry_components []" using g na hd ql by (auto simp: holds_def)
    have oa: "objs s2 a = Some (?d\<lparr>qbody := f b\<rparr>)" by (simp add: s2_def)
    have t: "FindTargetList s2 r tid = Some (Some Registry_resources)"
      using g tid(3) ra by (auto simp: FindTargetList_def s2_def s1_def qos_types)
    obtain s' v where s': "DSPRegistry_Add r a s2 = Some (s', 0)" "holds s' r Registry_resources (a # xs)"
        "others_hold s2 s' r Registry_resources (insert a (set xs))" "\<And>x. x \<noteq> r \<Longrightarrow> x \<noteq> a \<Longrightarrow> objs s' x = objs s2 x"
        "objs s' a = Some (?d\<lparr>qbody := f b, qNext := v\<rparr>)" "qlog s' = qlog s2" "map_option qId (objs s' r) = map_option qId (objs s2 r)"
      by (rule DSPRegistry_Add_front [OF h2(1) oa]) (use t ra False na in auto)
    have run: "add_new q r tid f (s, st) = Some (s', 0)"
      using assms(4) c False s'(1) by (simp add: add_new_def set_body_def s2_def)
    have comps: "holds s' r Registry_components []" using s'(3) h2(2) by (simp add: others_hold_def)
    have obs: "objs s' x = objs s x" if "x \<noteq> r" "x \<noteq> a" for x using that s'(4) by (simp add: s2_def s1_def)
    have rx: "r \<notin> set xs" using g by (auto simp: holds_def)
    have "objs s' x = objs s x" if "x \<in> set xs" for x by (rule obs) (use that na rx in auto)
    then have "contents s' xs = contents s xs" by (simp add: contents_def)
    moreover have "contents s' (a # xs) = map_option (\<lambda>d. (qId d, qbody d)) (objs s' a) # contents s' xs" by (simp add: contents_def)
    ultimately have con: "contents s' (a # xs) = map Some ((tid, f b) # cs)" using g s'(5) by simp
    have pl: "plain s' x \<and> handled s' x" if "x \<in> set (a # xs)" for x
    proof (cases "x = a")
      case True
      then show ?thesis using s'(5) tid(4-6) h by (simp add: plain_def handled_def)
    next
      case False
      then have x: "x \<in> set xs" "x \<noteq> r" using that rx by auto
      have "plain s x \<and> handled s x" using g x(1) by blast
      then show ?thesis using obs [OF x(2) False] by (simp add: plain_def handled_def)
    qed
    have qid: "map_option qId (objs s' r) = Some QOSDataType_Registry" using s'(7) g ra by (simp add: s2_def s1_def)
    have lg: "qlog s' = qlog s0 @ es @ [Q_calloc tid a]" using g s'(6) by (simp add: s2_def s1_def)
    have "grown s0 r (a # xs) ((tid, f b) # cs) (es @ [Q_calloc tid a]) s'"
      unfolding grown_def
    proof (intro conjI ballI allI impI)
      fix x assume "x \<in> set (r # a # xs)"
      then show "x \<noteq> 0" "objs s0 x = None" "\<exists>t. Q_calloc t x \<in> set (es @ [Q_calloc tid a])"
        using g False fresh by auto
    next
      fix x assume "x \<notin> set (r # a # xs)"
      then show "objs s' x = objs s0 x" using g obs [of x] by simp
    qed (use lg g qid s'(2) comps con pl in auto)
    then show thesis by (intro that [OF run, of a]) (use False in \<open>simp_all add: DSP_SUCCEEDED_def\<close>)
  qed
qed

text \<open>The list holds the resources \<open>ws\<close>, but for those there was no memory for.\<close>

definition reached :: "qos_state \<Rightarrow> u32 \<Rightarrow> (u32 \<times> qos_body) list \<Rightarrow> qos_state \<Rightarrow> bool" where
  "reached s0 r ws s \<longleftrightarrow> (\<exists>xs cs es. grown s0 r xs cs es s \<and> subseq cs ws \<and> ((\<forall>t. Q_calloc t 0 \<notin> set es) \<longrightarrow> cs = ws))"

lemma add_new_reached:
  assumes "reached s0 r ws s" and "fresh_answers q s0"
    and "(tid, b) \<in> set [(QOSDataType_Memory_DynLoad, Memory no_memory), (QOSDataType_Memory_DynAlloc, Memory no_memory),
     (QOSDataType_Memory_Scratch, Memory no_memory), (QOSDataType_Processor_C6X, Processor no_processor), (QOSDataType_Stream, Stream 0)]"
    and "DSP_SUCCEEDED st"
  shows "\<exists>s' st'. add_new q r tid f (s, st) = Some (s', st') \<and> DSP_SUCCEEDED st' \<and> reached s0 r ((tid, f b) # ws) s'"
proof -
  obtain xs cs es where g: "grown s0 r xs cs es s" "subseq cs ws" "(\<forall>t. Q_calloc t 0 \<notin> set es) \<longrightarrow> cs = ws"
    using assms(1) by (auto simp: reached_def)
  obtain s' st' a where n: "add_new q r tid f (s, st) = Some (s', st')" "DSP_SUCCEEDED st'"
      "a = 0 \<Longrightarrow> grown s0 r xs cs (es @ [Q_calloc tid a]) s'"
      "a \<noteq> 0 \<Longrightarrow> grown s0 r (a # xs) ((tid, f b) # cs) (es @ [Q_calloc tid a]) s'"
    by (rule add_new_grows [OF g(1) assms(2-4), where f = f]) blast
  have "reached s0 r ((tid, f b) # ws) s'"
  proof (cases "a = 0")
    case True
    then show ?thesis using n(3) [OF True] g(2) unfolding reached_def
      by (intro exI [of _ xs] exI [of _ cs] exI [of _ "es @ [Q_calloc tid a]"]) auto
  next
    case False
    then show ?thesis using n(4) [OF False] g(2,3) unfolding reached_def
      by (intro exI [of _ "a # xs"] exI [of _ "(tid, f b) # cs"] exI [of _ "es @ [Q_calloc tid a]"]) auto
  qed
  with n show ?thesis by blast
qed

lemma reached_other:
  assumes "reached s0 r ws s" and "objs s' = objs s" and "qlog s' = qlog s @ fs" and "\<And>a. Q_free a \<notin> set fs" and "\<And>t a. Q_calloc t a \<notin> set fs"
  shows "reached s0 r ws s'"
proof -
  obtain xs cs es where g: "grown s0 r xs cs es s" "subseq cs ws" "(\<forall>t. Q_calloc t 0 \<notin> set es) \<longrightarrow> cs = ws"
    using assms(1) by (auto simp: reached_def)
  then show ?thesis using grown_other [OF g(1) assms(2-4)] assms(5) unfolding reached_def by (intro exI [of _ xs] exI [of _ cs] exI [of _ "es @ fs"]) auto
qed

lemma add_defaults_reached:
  assumes "fresh_answers q s0"
  shows "reached s0 r ws s \<Longrightarrow> DSP_SUCCEEDED st \<Longrightarrow> fst ` set ms \<subseteq> {QOSDataType_Memory_DynLoad, QOSDataType_Memory_DynAlloc, QOSDataType_Memory_Scratch}
    \<Longrightarrow> \<exists>s' st'. add_defaults q r ms (s, st) = Some (s', st') \<and> DSP_SUCCEEDED st' \<and> reached s0 r (rev (map (\<lambda>(t, m). (t, Memory m)) ms) @ ws) s'"
proof (induction ms arbitrary: s st ws)
  case (Cons e ms)
  obtain t m where e: "e = (t, m)" by (cases e)
  have "\<exists>s' st'. add_new q r t (\<lambda>_. Memory m) (s, st) = Some (s', st') \<and> DSP_SUCCEEDED st' \<and> reached s0 r ((t, (\<lambda>_. Memory m) (Memory no_memory)) # ws) s'"
    by (rule add_new_reached [OF Cons.prems(1) assms _ Cons.prems(2)]) (use Cons.prems(3) e in auto)
  then obtain s' st' where n: "add_new q r t (\<lambda>_. Memory m) (s, st) = Some (s', st')" "DSP_SUCCEEDED st'" "reached s0 r ((t, Memory m) # ws) s'"
    by blast
  show ?case using Cons.IH [OF n(3,2)] Cons.prems(3) n(1) e by simp
qed simp

definition heap_resource :: "nat \<Rightarrow> u32 \<times> qos_body" where
  "heap_resource i = (QOSDataType_Memory_DynAlloc, Memory (no_memory\<lparr>heapId := of_nat i\<rparr>))"

lemma add_heaps_reached:
  assumes "fresh_answers q s0"
  shows "reached s0 r ws s \<Longrightarrow> DSP_SUCCEEDED st
    \<Longrightarrow> \<exists>s' st'. add_heaps q r i k (s, st) = Some (s', st') \<and> DSP_SUCCEEDED st' \<and> reached s0 r (rev (map heap_resource [i..<i + k]) @ ws) s'"
proof (induction k arbitrary: s st ws i)
  case (Suc k)
  have "\<exists>s' st'. add_new q r QOSDataType_Memory_DynAlloc (with_heapId (of_nat i)) (s, st) = Some (s', st') \<and> DSP_SUCCEEDED st'
      \<and> reached s0 r ((QOSDataType_Memory_DynAlloc, with_heapId (of_nat i) (Memory no_memory)) # ws) s'"
    by (rule add_new_reached [OF Suc.prems(1) assms _ Suc.prems(2)]) simp
  then obtain s' st' where n: "add_new q r QOSDataType_Memory_DynAlloc (with_heapId (of_nat i)) (s, st) = Some (s', st')" "DSP_SUCCEEDED st'"
      "reached s0 r (heap_resource i # ws) s'"
    by (auto simp: heap_resource_def with_heapId_def)
  have "rev (map heap_resource [i..<i + Suc k]) @ ws = rev (map heap_resource [i + 1..<i + 1 + k]) @ heap_resource i # ws"
    by (subst upt_conv_Cons) simp_all
  then show ?case using Suc.IH [OF n(3,2), of "i + 1"] n(1) by simp
qed simp

text \<open>The resources of a new registry, in the order in which they are made; \<open>k\<close> heaps.\<close>

definition default_resources :: "nat \<Rightarrow> (u32 \<times> qos_body) list" where
  "default_resources k = map (\<lambda>(t, m). (t, Memory m)) default_memory_resources @ map heap_resource [0..<k]
     @ [(QOSDataType_Processor_C6X, Processor no_processor), (QOSDataType_Stream, Stream DSP_TONODE), (QOSDataType_Stream, Stream DSP_FROMNODE)]"

definition heaps_answered :: "qos_bridge \<Rightarrow> nat \<Rightarrow> bool" where
  "heaps_answered q k \<longleftrightarrow> (\<exists>es. k = unat (fst (snd (snd (qb_get q (es @ [Put_message QOS_TI_GETMEMSTAT NUMHEAPS 0]))))))"

lemma GetNumDynAllocMemHeaps_calls:
  obtains s' st out fs where "GetNumDynAllocMemHeaps q s = (s', st, out)" and "objs s' = objs s" and "qlog s' = qlog s @ fs"
    and "\<And>a. Q_free a \<notin> set fs" and "\<And>t a. Q_calloc t a \<notin> set fs"
    and "DSP_SUCCEEDED st \<longleftrightarrow> out \<noteq> None" and "\<And>k. out = Some k \<Longrightarrow> heaps_answered q (unat k)"
proof -
  obtain st c x y where g: "qb_get q (qlog s @ [Put_message QOS_TI_GETMEMSTAT NUMHEAPS 0]) = (st, c, x, y)"
    by (cases "qb_get q (qlog s @ [Put_message QOS_TI_GETMEMSTAT NUMHEAPS 0])")
  note defs = GetNumDynAllocMemHeaps_def QosTI_DspMsg_def
  have h: "heaps_answered q (unat x)" unfolding heaps_answered_def by (rule exI [of _ "qlog s"]) (simp add: g)
  consider "\<not> DSP_SUCCEEDED (qb_put q (qlog s))" | "DSP_SUCCEEDED (qb_put q (qlog s))" "\<not> DSP_SUCCEEDED st"
    | "DSP_SUCCEEDED (qb_put q (qlog s))" "DSP_SUCCEEDED st" "c \<noteq> QOS_TI_GETMEMSTAT"
    | "DSP_SUCCEEDED (qb_put q (qlog s))" "DSP_SUCCEEDED st" "c = QOS_TI_GETMEMSTAT" by blast
  then show thesis
  proof cases
    case 1
    then show thesis by (intro that [of "qlogged (Put_message QOS_TI_GETMEMSTAT NUMHEAPS 0) s" "qb_put q (qlog s)" None "[Put_message QOS_TI_GETMEMSTAT NUMHEAPS 0]"]) (simp_all add: defs Let_def)
  next
    case 2
    then show thesis
      by (intro that [of "qlogged Get_message (qlogged (Put_message QOS_TI_GETMEMSTAT NUMHEAPS 0) s)" st None "[Put_message QOS_TI_GETMEMSTAT NUMHEAPS 0, Get_message]"]) (simp_all add: defs Let_def g)
  next
    case 3
    then show thesis
      by (intro that [of "qlogged Get_message (qlogged (Put_message QOS_TI_GETMEMSTAT NUMHEAPS 0) s)" "EPERM_status" None "[Put_message QOS_TI_GETMEMSTAT NUMHEAPS 0, Get_message]"])
        (simp_all add: defs Let_def g, simp_all add: DSP_SUCCEEDED_def)
  next
    case 4
    then show thesis using h
      by (intro that [of "qlogged Get_message (qlogged (Put_message QOS_TI_GETMEMSTAT NUMHEAPS 0) s)" st "Some x" "[Put_message QOS_TI_GETMEMSTAT NUMHEAPS 0, Get_message]"]) (auto simp: defs Let_def g)
  qed
qed

lemma add_new_failed: "\<not> DSP_SUCCEEDED st \<Longrightarrow> add_new q r tid f (s, st) = Some (s, st)"
  by (simp add: add_new_def)

text \<open>The processor and the streams.\<close>

lemma last_resources_reached:
  assumes "fresh_answers q s0" and "reached s0 r ws s" and "DSP_SUCCEEDED st"
  shows "\<exists>s' st'. do { r3 \<leftarrow> add_new q r QOSDataType_Processor_C6X (\<lambda>b. b) (s, st);
      r4 \<leftarrow> add_new q r QOSDataType_Stream (\<lambda>_. Stream DSP_TONODE) r3;
      add_new q r QOSDataType_Stream (\<lambda>_. Stream DSP_FROMNODE) r4 } = Some (s', st') \<and> DSP_SUCCEEDED st'
    \<and> reached s0 r ((QOSDataType_Stream, Stream DSP_FROMNODE) # (QOSDataType_Stream, Stream DSP_TONODE)
        # (QOSDataType_Processor_C6X, Processor no_processor) # ws) s'"
proof -
  obtain s1 st1 where 1: "add_new q r QOSDataType_Processor_C6X (\<lambda>b. b) (s, st) = Some (s1, st1)" "DSP_SUCCEEDED st1"
      "reached s0 r ((QOSDataType_Processor_C6X, Processor no_processor) # ws) s1"
    using add_new_reached [OF assms(2,1), of QOSDataType_Processor_C6X "Processor no_processor" st "\<lambda>b. b"] assms(3) by auto
  obtain s2 st2 where 2: "add_new q r QOSDataType_Stream (\<lambda>_. Stream DSP_TONODE) (s1, st1) = Some (s2, st2)" "DSP_SUCCEEDED st2"
      "reached s0 r ((QOSDataType_Stream, Stream DSP_TONODE) # (QOSDataType_Processor_C6X, Processor no_processor) # ws) s2"
    using add_new_reached [OF 1(3) assms(1), of QOSDataType_Stream "Stream 0" st1 "\<lambda>_. Stream DSP_TONODE"] 1(2) by auto
  show ?thesis
    using add_new_reached [OF 2(3) assms(1), of QOSDataType_Stream "Stream 0" st2 "\<lambda>_. Stream DSP_FROMNODE"] 1(1) 2(1,2) by auto
qed

lemma fill_registry_reached:
  assumes "fresh_answers q s0" and "reached s0 r [] s" and "DSP_SUCCEEDED st"
  shows "\<exists>s' st'. fill_registry q r (s, st) = Some (s', st') \<and> (\<exists>ws. reached s0 r ws s')
    \<and> (DSP_SUCCEEDED st' \<longrightarrow> (\<exists>k. heaps_answered q k \<and> reached s0 r (rev (default_resources k)) s'))"
proof -
  obtain s1 st1 where 1: "add_defaults q r default_memory_resources (s, st) = Some (s1, st1)" "DSP_SUCCEEDED st1"
      "reached s0 r (rev (map (\<lambda>(t, m). (t, Memory m)) default_memory_resources)) s1"
    using add_defaults_reached [OF assms, of default_memory_resources] by (auto simp: default_memory_resources_def)
  obtain s2 st2 out fs where 2: "GetNumDynAllocMemHeaps q s1 = (s2, st2, out)" "objs s2 = objs s1" "qlog s2 = qlog s1 @ fs"
      "\<And>a. Q_free a \<notin> set fs" "\<And>t a. Q_calloc t a \<notin> set fs" "DSP_SUCCEEDED st2 \<longleftrightarrow> out \<noteq> None" "\<And>k. out = Some k \<Longrightarrow> heaps_answered q (unat k)"
    by (rule GetNumDynAllocMemHeaps_calls [of q s1]) blast
  have r2: "reached s0 r (rev (map (\<lambda>(t, m). (t, Memory m)) default_memory_resources)) s2"
    by (rule reached_other [OF 1(3) 2(2,3,4,5)])
  show ?thesis
  proof (cases out)
    case None
    then have "\<not> DSP_SUCCEEDED st2" using 2(6) by simp
    then have "fill_registry q r (s, st) = Some (s2, st2)" using 1(1,2) 2(1) None by (simp add: fill_registry_def add_new_failed)
    then show ?thesis using r2 \<open>\<not> DSP_SUCCEEDED st2\<close> by blast
  next
    case (Some k)
    then have "DSP_SUCCEEDED st2" using 2(6) by simp
    then obtain s3 st3 where 3: "add_heaps q r 0 (unat k) (s2, st2) = Some (s3, st3)" "DSP_SUCCEEDED st3"
        "reached s0 r (rev (map heap_resource [0..<unat k]) @ rev (map (\<lambda>(t, m). (t, Memory m)) default_memory_resources)) s3"
      using add_heaps_reached [OF assms(1) r2, of st2 0 "unat k"] by auto
    obtain s4 st4 where 4: "do { r3 \<leftarrow> add_new q r QOSDataType_Processor_C6X (\<lambda>b. b) (s3, st3);
        r4 \<leftarrow> add_new q r QOSDataType_Stream (\<lambda>_. Stream DSP_TONODE) r3;
        add_new q r QOSDataType_Stream (\<lambda>_. Stream DSP_FROMNODE) r4 } = Some (s4, st4)" "reached s0 r (rev (default_resources (unat k))) s4"
      using last_resources_reached [OF assms(1) 3(3,2)] by (auto simp: default_resources_def)
    have "fill_registry q r (s, st) = Some (s4, st4)" using 1(1,2) 2(1) 3(1) 4(1) Some by (simp add: fill_registry_def)
    then show ?thesis using 4(2) 2(7) [OF Some] by blast
  qed
qed

definition calls_only :: "qos_state \<Rightarrow> qos_state \<Rightarrow> bool" where
  "calls_only s s' \<longleftrightarrow> objs s' = objs s \<and> (\<exists>fs. qlog s' = qlog s @ fs \<and> (\<forall>a. Q_free a \<notin> set fs) \<and> (\<forall>t a. Q_calloc t a \<notin> set fs))"

lemma calls_only_refl [simp]: "calls_only s s" "calls_only s (s\<lparr>hNode := x\<rparr>)" "calls_only s (s\<lparr>hProcessor := x\<rparr>)"
  by (simp_all add: calls_only_def)

lemma calls_only_trans: "calls_only s s' \<Longrightarrow> calls_only s' s'' \<Longrightarrow> calls_only s s''"
  by (auto simp: calls_only_def)

lemma QosTI_Delete_calls: "calls_only s s' \<Longrightarrow> calls_only s (QosTI_Delete s')"
  by (auto simp: QosTI_Delete_def Let_def calls_only_def)

lemma QosTI_Create_calls:
  assumes "QosTI_Create q s = (s', st)"
  shows "calls_only s s'"
proof -
  have "calls_only s (fst (QosTI_Create q s))"
    unfolding QosTI_Create_def Let_def by (auto intro!: QosTI_Delete_calls) (auto simp: calls_only_def)
  then show ?thesis using assms by simp
qed

lemma grown_deleted:
  assumes "grown s0 r xs cs es s"
  shows "\<exists>s'. DSPRegistry_Delete r s = Some s' \<and> objs s' = objs s0 \<and> hNode s' = 0 \<and> hProcessor s' = 0"
proof -
  note g = assms [unfolded grown_def]
  have h: "holds s r Registry_resources xs" using g by simp
  then have rx: "r \<notin> set xs" "distinct xs" by (auto simp: holds_def)
  have ok: "registry_ok s r xs []" using g rx by (simp add: registry_ok_def)
  obtain d where d: "objs s r = Some d" using g by auto
  have "objs (QosTI_Delete (freed xs s)) r = Some d" using d rx by (simp add: QosTI_Delete_simps)
  from q_free_freed [OF this] g
  have f: "DSPRegistry_Delete r s = Some (freed [r] (QosTI_Delete (freed xs s)))" using delete_registry [OF ok] by simp
  have "objs (freed [r] (QosTI_Delete (freed xs s))) x = objs s0 x" for x
    using g by (cases "x \<in> set (r # xs)") (auto simp: freed_def QosTI_Delete_simps)
  then have "objs (freed [r] (QosTI_Delete (freed xs s))) = objs s0" by blast
  then show ?thesis using f by (simp add: freed_def QosTI_Delete_simps)
qed

lemma registry_made:
  assumes "fresh_answers q s" and "DSPData_Create q s QOSDataType_Registry = Some (s1, r)" and "r \<noteq> 0"
  shows "grown s r [] [] [Q_calloc QOSDataType_Registry r] s1"
proof -
  have h: "rd standard_datatypes (unat QOSDataType_Registry) = Some (QOSDataType_Registry, Registry_handler, Registry \<lparr>ResourceRegistry = 0, ComponentRegistry = 0\<rparr>)"
      "QOSDataType_Registry AND QOS_USER_DATA_TYPE = 0"
    by (simp_all add: qos_types standard_datatypes_def rd_def QOS_USER_DATA_TYPE_def)
  have s1: "r = qb_calloc q (qlog s) QOSDataType_Registry"
      "s1 = put_obj r \<lparr>qId = QOSDataType_Registry, qNext = 0, TypeSpecific = Registry_handler, qbody = Registry \<lparr>ResourceRegistry = 0, ComponentRegistry = 0\<rparr>\<rparr>
        (qlogged (Q_calloc QOSDataType_Registry r) s)"
    using assms(2,3) h by (auto simp: DSPData_Create_def Let_def split: if_splits)
  have "objs s r = None" using assms(1,3) unfolding s1(1) fresh_answers_def by (metis append_Nil2 empty_iff list.set(1))
  then show ?thesis using s1(2) assms(3) by (auto simp: grown_def holds_def list_head_def registry_at_def contents_def)
qed

lemma DSPData_Create_registry: "\<exists>s1 r. DSPData_Create q s QOSDataType_Registry = Some (s1, r) \<and> (r = 0 \<longrightarrow> objs s1 = objs s)"
  by (simp add: DSPData_Create_def qos_types standard_datatypes_def rd_def QOS_USER_DATA_TYPE_def Let_def)

subsection \<open>Finding the processor\<close>

lemma find_walk_skip:
  assumes "DSP_SUCCEEDED st"
  shows "qlist (objs s) t (us @ ys) \<Longrightarrow> (\<And>x. x \<in> set us \<Longrightarrow> map_option qId (objs s x) \<noteq> Some tid)
    \<Longrightarrow> \<exists>t'. qlist (objs s) t' ys \<and> find_walk q tid b sz t s st rs n = find_walk q tid b sz t' s st rs n"
proof (induction us arbitrary: t)
  case (Cons u us)
  then obtain d where d: "objs s u = Some d" "qlist (objs s) (qNext d) (us @ ys)" "t = u" "u \<noteq> 0" by auto
  have "qId d \<noteq> tid" using Cons.prems(2) [of u] d(1) by simp
  then have "find_walk q tid b sz t s st rs n = find_walk q tid b sz (qNext d) s st rs n"
    using d assms by (subst find_walk.simps) simp
  moreover have "\<exists>t'. qlist (objs s) t' ys \<and> find_walk q tid b sz (qNext d) s st rs n = find_walk q tid b sz t' s st rs n"
    by (rule Cons.IH [OF d(2) Cons.prems(2)]) simp
  ultimately show ?case by simp
qed auto

lemma find_walk_end: "t = 0 \<or> \<not> DSP_SUCCEEDED st \<Longrightarrow> find_walk q tid b sz t s st rs n = Some (s, st, rs, n)"
  by (subst find_walk.simps) auto

lemma find_walk_no_more:
  assumes "qlist (objs s) t ys" and "\<And>x. x \<in> set ys \<Longrightarrow> map_option qId (objs s x) \<noteq> Some tid"
  shows "find_walk q tid b sz t s st rs n = Some (s, st, rs, n)"
proof (cases "DSP_SUCCEEDED st")
  case True
  then show ?thesis using find_walk_skip [OF True, of s t ys "[]" tid q b sz rs n] assms find_walk_end by auto
qed (simp add: find_walk_end)

lemma DspMsg_objs: "QosTI_DspMsg q s c x y = (s', st, out) \<Longrightarrow> objs s' = objs s"
  by (auto simp: QosTI_DspMsg_def Let_def split: if_splits prod.splits)

lemma ProcLoadStat_objs: "QosTI_GetProcLoadStat q s = (s', st, out) \<Longrightarrow> objs s' = objs s"
  by (auto simp: QosTI_GetProcLoadStat_def Let_def split: if_splits prod.splits)

text \<open>Whatever the bridge answers, asking a processor changes its data only.\<close>

lemma update_processor:
  assumes "objs s a = Some d" and "TypeSpecific d = Processor_handler" and "qbody d = Processor p"
  shows "\<exists>s' st p'. update_info q a s = Some (s', st) \<and> objs s' = (objs s)(a \<mapsto> d\<lparr>qbody := Processor p'\<rparr>)"
proof -
  obtain s1 st1 out1 where 1: "QosTI_DspMsg q s QOS_TI_GETCPULOAD 0 0 = (s1, st1, out1)" by (metis surj_pair)
  obtain s2 st2 out2 where 2: "QosTI_GetProcLoadStat q s1 = (s2, st2, out2)" by (metis surj_pair)
  have "objs s2 = objs s" using DspMsg_objs [OF 1] ProcLoadStat_objs [OF 2] by simp
  then show ?thesis using assms 1 2 by (auto simp: update_info_def processor_at_def set_body_def Let_def)
qed

text \<open>
  The search of the resource manager for the one processor: the first call counts it, the second one returns
  it, whether or not the bridge answers.
\<close>

lemma find_processor:
  assumes "holds s r Registry_resources (us @ a # vs)" and "map_option qId (objs s r) = Some QOSDataType_Registry" and "r \<noteq> 0"
    and "objs s a = Some d" and "qId d = QOSDataType_Processor_C6X" and "TypeSpecific d = Processor_handler" and "qbody d = Processor p"
    and others: "\<And>x. x \<in> set (us @ vs) \<Longrightarrow> map_option qId (objs s x) \<noteq> Some QOSDataType_Processor_C6X"
  shows "DSPRegistry_Find q QOSDataType_Processor_C6X r 0 s = Some (s, EINVAL_status, [], 1)"
    and "\<exists>s' st p'. DSPRegistry_Find q QOSDataType_Processor_C6X r 1 s = Some (s', st, [a], 1)
      \<and> objs s' = (objs s)(a \<mapsto> d\<lparr>qbody := Processor p'\<rparr>)"
proof -
  let ?tid = QOSDataType_Processor_C6X
  have R: "DSPData_IsResource ?tid" by (simp add: DSPData_IsResource_def qos_types)
  then have t: "FindTargetList s r ?tid = Some (Some Registry_resources)" using assms(2,3) by (auto simp: FindTargetList_def qos_types)
  obtain p0 where p0: "list_head s r Registry_resources = Some p0" "qlist (objs s) p0 (us @ a # vs)" "distinct (us @ a # vs)"
    using assms(1) by (auto simp: holds_def)
  have ok: "DSP_SUCCEEDED 0" by (simp add: DSP_SUCCEEDED_def)
  have skip: "find_walk q ?tid True sz p0 s 0 [] 0 = find_walk q ?tid True sz a s 0 [] 0" for sz
    using find_walk_skip [OF ok p0(2), of ?tid q True sz "[]" 0] others by auto
  have a: "a \<noteq> 0" "qlist (objs s) (qNext d) vs" using qlist_append [OF p0(2)] assms(4) by auto
  have "find_walk q ?tid True 0 a s 0 [] 0 = find_walk q ?tid True 0 (qNext d) s 0 [] 1"
    using a(1) assms(4,5) ok by (subst find_walk.simps) simp
  also have "\<dots> = Some (s, 0, [], 1)" by (rule find_walk_no_more [OF a(2) others]) simp
  finally show "DSPRegistry_Find q ?tid r 0 s = Some (s, EINVAL_status, [], 1)"
    using t R p0(1) skip by (simp add: DSPRegistry_Find_def)
  obtain s' st p' where u: "update_info q a s = Some (s', st)" "objs s' = (objs s)(a \<mapsto> d\<lparr>qbody := Processor p'\<rparr>)"
    using update_processor [OF assms(4,6,7)] by blast
  have vs: "qlist (objs s') (qNext d) vs" unfolding u(2) by (rule qlist_update [OF a(2)]) (use p0(3) in simp)
  have "find_walk q ?tid True 1 a s 0 [] 0 = find_walk q ?tid True 1 (qNext d) s' st [a] 1"
    using a(1) assms(4,5) ok u by (subst find_walk.simps) simp
  also have "\<dots> = Some (s', st, [a], 1)"
  proof (rule find_walk_no_more [OF vs])
    show "map_option qId (objs s' x) \<noteq> Some ?tid" if "x \<in> set vs" for x
      using that others [of x] p0(3) by (cases "x = a") (auto simp: u(2))
  qed
  finally show "\<exists>s' st p'. DSPRegistry_Find q ?tid r 1 s = Some (s', st, [a], 1) \<and> objs s' = (objs s)(a \<mapsto> d\<lparr>qbody := Processor p'\<rparr>)"
    using t R p0(1) skip u(2) by (auto simp: DSPRegistry_Find_def)
qed

subsection \<open>Properties\<close>

text \<open>
  C34: The lists of the registry and of a component are lists: adding puts the object in front, removing takes it
  out wherever it stands and answers \<open>-ENOENT\<close> with nothing changed when it is not there, and every other list
  stays as it is.
\<close>

theorem DSPRegistry_Add_Remove:
  assumes "holds s a f xs" and "objs s e = Some d" and "FindTargetList s a (qId d) = Some (Some f)" and "e \<noteq> a" and "e \<noteq> 0"
  shows "(e \<notin> set xs \<longrightarrow> (\<exists>s'. DSPRegistry_Add a e s = Some (s', 0) \<and> holds s' a f (e # xs) \<and> others_hold s s' a f (insert e (set xs))))
    \<and> (\<exists>s' st. DSPRegistry_Remove a e s = Some (s', st) \<and> holds s' a f (remove1 e xs) \<and> others_hold s s' a f (set xs)
      \<and> (if e \<in> set xs then st = 0 \<and> objs s' e = Some (d\<lparr>qNext := 0\<rparr>) else st = ENOENT_status \<and> s' = s))"
proof (cases "e \<in> set xs")
  case True
  obtain s' where "DSPRegistry_Remove a e s = Some (s', 0)" "holds s' a f (remove1 e xs)" "others_hold s s' a f (set xs)"
      "objs s' e = Some (d\<lparr>qNext := 0\<rparr>)"
    by (rule DSPRegistry_Remove_member [OF assms(1-3) True]) blast
  then show ?thesis using True by auto
next
  case False
  obtain s' where "DSPRegistry_Add a e s = Some (s', 0)" "holds s' a f (e # xs)" "others_hold s s' a f (insert e (set xs))"
    by (rule DSPRegistry_Add_front [OF assms False]) blast
  moreover have "DSPRegistry_Remove a e s = Some (s, ENOENT_status)" by (rule DSPRegistry_Remove_absent [OF assms(1-3,5) False])
  ultimately show ?thesis using False assms(1) by (simp add: remove1_idem others_hold_def)
qed

text \<open>
  C35: \<open>DSPRegistry_Find\<close> on resources: the results are the objects of the type, in the order of the list, as many as
  there is room for; all are counted, no object but the data of the results changes, and the status tells
  whether there are none, too many, or all are returned.
\<close>

theorem DSPRegistry_Find_resources:
  assumes "bridge_ok q" and "holds s r Registry_resources xs" and "map_option qId (objs s r) = Some QOSDataType_Registry" and "r \<noteq> 0"
    and "DSPData_IsResource tid" and "\<forall>x \<in> set (matches s tid xs). ready s x"
  shows "\<exists>s' st. DSPRegistry_Find q tid r sz s = Some (s', st, take sz (matches s tid xs), max sz (length (matches s tid xs)))
    \<and> updated s s' \<and> holds s' r Registry_resources xs \<and> (st \<ge> 0 \<longleftrightarrow> matches s tid xs \<noteq> [] \<and> length (matches s tid xs) \<le> sz)
    \<and> (matches s tid xs = [] \<longrightarrow> st = ENOENT_status) \<and> (length (matches s tid xs) > sz \<longrightarrow> st = EINVAL_status)"
proof -
  have "\<And>x. x \<in> set (matches s tid xs) \<Longrightarrow> ready s x" using assms(6) by blast
  then obtain s' st where "DSPRegistry_Find q tid r sz s = Some (s', st, take sz (matches s tid xs), max sz (length (matches s tid xs)))"
      "updated s s'" "holds s' r Registry_resources xs" "st \<ge> 0 \<longleftrightarrow> matches s tid xs \<noteq> [] \<and> length (matches s tid xs) \<le> sz"
      "matches s tid xs = [] \<Longrightarrow> st = ENOENT_status" "length (matches s tid xs) > sz \<Longrightarrow> st = EINVAL_status"
    by (rule find_resources [OF assms(1-5), of sz]) blast+
  then show ?thesis by blast
qed

text \<open>What a registry owns, in the order in which it is freed.\<close>

definition registry_objects :: "u32 \<Rightarrow> u32 list \<Rightarrow> component_lists list \<Rightarrow> u32 list" where
  "registry_objects r xs ks = xs @ concat (map component_objects ks) @ [r]"

definition is_free :: "qos_event \<Rightarrow> bool" where
  "is_free e \<longleftrightarrow> (case e of Q_free a \<Rightarrow> True | _ \<Rightarrow> False)"

lemma QosTI_Delete_frees: "filter is_free (qlog (QosTI_Delete s)) = filter is_free (qlog s)"
  by (simp add: QosTI_Delete_def Let_def is_free_def)

lemma filter_frees: "filter is_free (map Q_free xs) = map Q_free xs"
  by (induction xs) (simp_all add: is_free_def)

text \<open>
  C36: Deleting a registry frees the registry, its resources, its components and what the components hold, each
  once and in this order, touches nothing else, and shuts the node and the processor down.
\<close>

theorem DSPRegistry_Delete_frees:
  assumes "registry_ok s r xs ks"
  shows "\<exists>s'. DSPRegistry_Delete r s = Some s' \<and> objs s' = (\<lambda>x. if x \<in> set (registry_objects r xs ks) then None else objs s x)
    \<and> filter is_free (qlog s') = filter is_free (qlog s) @ map Q_free (registry_objects r xs ks) \<and> distinct (registry_objects r xs ks) \<and> hNode s' = 0 \<and> hProcessor s' = 0"
proof -
  let ?xs = "xs @ concat (map component_objects ks)"
  have r: "r \<noteq> 0" "r \<notin> set ?xs" "distinct ?xs" using assms by (auto simp: registry_ok_def)
  obtain d where "objs s r = Some d"
    using assms by (auto simp: registry_ok_def holds_def list_head_def registry_at_def split: Option.bind_splits)
  then have "objs (QosTI_Delete (freed ?xs s)) r = Some d" using r(2) by (simp add: QosTI_Delete_simps freed_def)
  then have f: "DSPRegistry_Delete r s = Some (freed [r] (QosTI_Delete (freed ?xs s)))"
    using delete_registry [OF assms] q_free_freed r(1) by simp
  let ?s = "freed [r] (QosTI_Delete (freed ?xs s))"
  have o: "objs ?s = (\<lambda>x. if x \<in> set (registry_objects r xs ks) then None else objs s x)"
    by (auto simp: fun_eq_iff freed_def QosTI_Delete_simps registry_objects_def)
  have "filter is_free (qlog ?s) = filter is_free (qlog (QosTI_Delete (freed ?xs s))) @ map Q_free [r]"
    by (simp add: freed_def is_free_def)
  also have "\<dots> = filter is_free (qlog s) @ map Q_free ?xs @ map Q_free [r]"
    unfolding QosTI_Delete_frees by (simp add: freed_def filter_frees del: map_append)
  finally have l: "filter is_free (qlog ?s) = filter is_free (qlog s) @ map Q_free (registry_objects r xs ks)" by (simp add: registry_objects_def)
  have "hNode ?s = 0" "hProcessor ?s = 0" by (simp_all add: freed_def QosTI_Delete_simps)
  moreover have "distinct (registry_objects r xs ks)" using r by (auto simp: registry_objects_def)
  ultimately show ?thesis using f o l by blast
qed

text \<open>Deleted through \<open>DSPData_Delete\<close>, a registry is read after it is freed.\<close>

lemma DSPData_Delete_registry_faults:
  assumes "registry_ok s r xs ks" and "map_option qId (objs s r) = Some QOSDataType_Registry"
  shows "DSPData_Delete r s = None"
proof -
  obtain s' where s': "DSPRegistry_Delete r s = Some s'" "objs s' r = None"
    using DSPRegistry_Delete_frees [OF assms(1)] by (auto simp: registry_objects_def)
  have r: "r \<noteq> 0" using assms(1) by (simp add: registry_ok_def)
  obtain d where d: "objs s r = Some d" "qId d = QOSDataType_Registry" using assms(2) by auto
  show ?thesis using d r s' by (subst DSPData_Delete.simps) (auto simp: DSPRegistry_Delete_def qos_types split: Option.bind_splits)
qed

lemma create_fills:
  assumes "fresh_answers q s"
  shows "\<exists>s' r. DSPRegistry_Create q s = Some (s', r) \<and> (if r = 0 then objs s' = objs s else
     map_option qId (objs s' r) = Some QOSDataType_Registry \<and> (\<exists>xs cs k. heaps_answered q k \<and> holds s' r Registry_resources xs \<and> holds s' r Registry_components []
       \<and> contents s' xs = map Some cs \<and> (\<forall>x \<in> set xs. handled s' x) \<and> subseq cs (rev (default_resources k))
       \<and> ((\<forall>t. Q_calloc t 0 \<notin> set (drop (length (qlog s)) (qlog s'))) \<longrightarrow> cs = rev (default_resources k))
       \<and> (\<exists>s''. DSPRegistry_Delete r s' = Some s'' \<and> objs s'' = objs s)))"
proof -
  obtain s1 r where c: "DSPData_Create q s QOSDataType_Registry = Some (s1, r)" "r = 0 \<longrightarrow> objs s1 = objs s"
    using DSPData_Create_registry by blast
  show ?thesis
  proof (cases "r = 0")
    case True
    then show ?thesis using c by (simp add: DSPRegistry_Create_def)
  next
    case False
    have g1: "grown s r [] [] [Q_calloc QOSDataType_Registry r] s1" by (rule registry_made [OF assms c(1) False])
    obtain s2 st where t: "QosTI_Create q s1 = (s2, st)" by fastforce
    obtain fs where fs: "objs s2 = objs s1" "qlog s2 = qlog s1 @ fs" "\<And>a. Q_free a \<notin> set fs" "\<And>t a. Q_calloc t a \<notin> set fs"
      using QosTI_Create_calls [OF t] by (auto simp: calls_only_def)
    have g2: "grown s r [] [] ([Q_calloc QOSDataType_Registry r] @ fs) s2" by (rule grown_other [OF g1 fs(1-3)])
    show ?thesis
    proof (cases "DSP_SUCCEEDED st")
      case False
      obtain d where "objs s2 r = Some d" using g2 by (auto simp: grown_def)
      then have f: "q_free r s2 = Some (freed [r] s2)" using q_free_freed \<open>r \<noteq> 0\<close> by blast
      have "objs (freed [r] s2) x = objs s x" for x using g2 by (cases "x = r") (auto simp: freed_def grown_def)
      then have "objs (freed [r] s2) = objs s" by blast
      then show ?thesis using c(1) \<open>r \<noteq> 0\<close> t False f by (simp add: DSPRegistry_Create_def)
    next
      case True
      have "reached s r [] s2" unfolding reached_def using g2 by (intro exI [of _ "[]"] exI) auto
      from fill_registry_reached [OF assms this True] obtain s3 st3 where f: "fill_registry q r (s2, st) = Some (s3, st3)"
          "\<exists>ws. reached s r ws s3" "DSP_SUCCEEDED st3 \<longrightarrow> (\<exists>k. heaps_answered q k \<and> reached s r (rev (default_resources k)) s3)"
        by blast
      show ?thesis
      proof (cases "DSP_SUCCEEDED st3")
        case False
        obtain xs cs es where g3: "grown s r xs cs es s3" using f(2) by (auto simp: reached_def)
        then show ?thesis using grown_deleted [OF g3] c(1) \<open>r \<noteq> 0\<close> t True f(1) False by (auto simp: DSPRegistry_Create_def)
      next
        case ok: True
        then obtain k where k: "heaps_answered q k" "reached s r (rev (default_resources k)) s3" using f(3) by blast
        then obtain xs cs es where g3: "heaps_answered q k" "grown s r xs cs es s3" "subseq cs (rev (default_resources k))"
            "(\<forall>t. Q_calloc t 0 \<notin> set es) \<longrightarrow> cs = rev (default_resources k)" unfolding reached_def by blast
        have run: "DSPRegistry_Create q s = Some (s3, r)" using c(1) \<open>r \<noteq> 0\<close> t True f(1) ok by (simp add: DSPRegistry_Create_def)
        obtain s'' where d: "DSPRegistry_Delete r s3 = Some s''" "objs s'' = objs s" using grown_deleted [OF g3(2)] by blast
        have qid: "map_option qId (objs s3 r) = Some QOSDataType_Registry" using g3(2) by (simp add: grown_def)
        have "qlog s3 = qlog s @ es" using g3(2) by (simp add: grown_def)
        then have es: "drop (length (qlog s)) (qlog s3) = es" by simp
        have "holds s3 r Registry_resources xs" "holds s3 r Registry_components []" "contents s3 xs = map Some cs" "\<forall>x \<in> set xs. handled s3 x"
          using g3(2) by (simp_all add: grown_def)
        then have "\<exists>xs cs k. heaps_answered q k \<and> holds s3 r Registry_resources xs \<and> holds s3 r Registry_components []
           \<and> contents s3 xs = map Some cs \<and> (\<forall>x \<in> set xs. handled s3 x) \<and> subseq cs (rev (default_resources k))
           \<and> ((\<forall>t. Q_calloc t 0 \<notin> set (drop (length (qlog s)) (qlog s3))) \<longrightarrow> cs = rev (default_resources k))
           \<and> (\<exists>s''. DSPRegistry_Delete r s3 = Some s'' \<and> objs s'' = objs s)"
          unfolding es using g3(1,3,4) d by (intro exI [of _ xs] exI [of _ cs] exI [of _ k] conjI exI [of _ s'']) simp_all
        then show ?thesis using run qid \<open>r \<noteq> 0\<close> by (intro exI [of _ s3] exI [of _ r]) simp
      qed
    qed
  qed
qed

text \<open>With no failed allocation every default resource is there.\<close>

lemma DSPRegistry_Create_grown:
  assumes "fresh_answers q s" and "DSPRegistry_Create q s = Some (t, r)" and "r \<noteq> 0"
    and "\<forall>tid. Q_calloc tid 0 \<notin> set (drop (length (qlog s)) (qlog t))"
  shows "\<exists>xs cs k. map_option qId (objs t r) = Some QOSDataType_Registry \<and> holds t r Registry_resources xs
    \<and> contents t xs = map Some cs \<and> (\<forall>x \<in> set xs. handled t x) \<and> cs = rev (default_resources k)"
proof -
  from create_fills [OF assms(1)] obtain t' r' where c: "DSPRegistry_Create q s = Some (t', r')" "if r' = 0 then objs t' = objs s else
     map_option qId (objs t' r') = Some QOSDataType_Registry \<and> (\<exists>xs cs k. heaps_answered q k \<and> holds t' r' Registry_resources xs
       \<and> holds t' r' Registry_components [] \<and> contents t' xs = map Some cs \<and> (\<forall>x \<in> set xs. handled t' x) \<and> subseq cs (rev (default_resources k))
       \<and> ((\<forall>t. Q_calloc t 0 \<notin> set (drop (length (qlog s)) (qlog t'))) \<longrightarrow> cs = rev (default_resources k))
       \<and> (\<exists>s''. DSPRegistry_Delete r' t' = Some s'' \<and> objs s'' = objs s))" by blast
  have e: "t' = t" "r' = r" using c(1) assms(2) by simp_all
  show ?thesis using c(2) assms(4) unfolding e if_not_P [OF assms(3)] by blast
qed

text \<open>
  C37: \<open>DSPRegistry_Create\<close>, for every answer of the bridge and of the allocator: it returns; without a registry
  nothing it allocated is left; with one, the list of resources holds the default resources and the heaps the
  DSP reports, the latest first, but for those there was no memory for, and deleting the registry gives back
  all of it.
\<close>

theorem DSPRegistry_Create_fills:
  assumes "fresh_answers q s"
  shows "\<exists>s' r. DSPRegistry_Create q s = Some (s', r) \<and> (if r = 0 then objs s' = objs s else
     map_option qId (objs s' r) = Some QOSDataType_Registry \<and> (\<exists>xs cs k. heaps_answered q k \<and> holds s' r Registry_resources xs \<and> holds s' r Registry_components []
       \<and> contents s' xs = map Some cs \<and> (\<forall>x \<in> set xs. handled s' x) \<and> subseq cs (rev (default_resources k))
       \<and> ((\<forall>t. Q_calloc t 0 \<notin> set (drop (length (qlog s)) (qlog s'))) \<longrightarrow> cs = rev (default_resources k))
       \<and> (\<exists>s''. DSPRegistry_Delete r s' = Some s'' \<and> objs s'' = objs s)))"
  by (rule create_fills [OF assms])

text \<open>A registry that holds the default resources has one processor and the heap that stands for all heaps.\<close>

lemma new_registry_processor:
  assumes "holds s r Registry_resources xs" and "contents s xs = map Some (rev (default_resources k))" and "\<forall>x \<in> set xs. handled s x"
    and "map_option qId (objs s r) = Some QOSDataType_Registry" and "r \<noteq> 0"
  shows "\<exists>a. DSPRegistry_Find q QOSDataType_Processor_C6X r 0 s = Some (s, EINVAL_status, [], 1)
    \<and> (\<exists>s' st p. DSPRegistry_Find q QOSDataType_Processor_C6X r 1 s = Some (s', st, [a], 1) \<and> processor_at s' a = Some p)"
proof -
  let ?rest = "rev (map heap_resource [0..<k]) @ rev (map (\<lambda>(t, m). (t, Memory m)) default_memory_resources)"
  have "rev (default_resources k) = (QOSDataType_Stream, Stream DSP_FROMNODE) # (QOSDataType_Stream, Stream DSP_TONODE)
      # (QOSDataType_Processor_C6X, Processor no_processor) # ?rest" by (simp add: default_resources_def)
  with assms(2) obtain x y a vs where xs: "xs = x # y # a # vs"
      "map_option (\<lambda>d. (qId d, qbody d)) (objs s x) = Some (QOSDataType_Stream, Stream DSP_FROMNODE)"
      "map_option (\<lambda>d. (qId d, qbody d)) (objs s y) = Some (QOSDataType_Stream, Stream DSP_TONODE)"
      "map_option (\<lambda>d. (qId d, qbody d)) (objs s a) = Some (QOSDataType_Processor_C6X, Processor no_processor)" "contents s vs = map Some ?rest"
    by (auto simp: contents_def map_eq_Cons_conv)
  obtain d where d: "objs s a = Some d" "qId d = QOSDataType_Processor_C6X" "qbody d = Processor no_processor" using xs(4) by auto
  have "handled s a" using assms(3) xs(1) by simp
  then have h: "TypeSpecific d = Processor_handler" using d by (auto simp: handled_def standard_datatypes_def qos_types rd_def)
  have rest: "fst w \<noteq> QOSDataType_Processor_C6X" if "w \<in> set ?rest" for w
    using that by (auto simp: heap_resource_def default_memory_resources_def qos_types)
  have vs: "map_option qId (objs s v) \<noteq> Some QOSDataType_Processor_C6X" if "v \<in> set vs" for v
  proof -
    have "map_option (\<lambda>d. (qId d, qbody d)) (objs s v) \<in> set (contents s vs)" using that by (simp add: contents_def)
    then have "map_option (\<lambda>d. (qId d, qbody d)) (objs s v) \<in> Some ` set ?rest" unfolding xs(5) set_map .
    then obtain w where "map_option (\<lambda>d. (qId d, qbody d)) (objs s v) = Some w" "w \<in> set ?rest" by (rule imageE)
    with rest show ?thesis by fastforce
  qed
  have others: "map_option qId (objs s v) \<noteq> Some QOSDataType_Processor_C6X" if "v \<in> set ([x, y] @ vs)" for v
    using that vs xs(2,3) by (auto simp: qos_types)
  have hold: "holds s r Registry_resources ([x, y] @ a # vs)" using assms(1) xs(1) by simp
  note f = find_processor [OF hold assms(4,5) d(1,2) h d(3) others, of q]
  from f(2) obtain s' st p where "DSPRegistry_Find q QOSDataType_Processor_C6X r 1 s = Some (s', st, [a], 1)"
      "objs s' = (objs s)(a \<mapsto> d\<lparr>qbody := Processor p\<rparr>)" by blast
  then show ?thesis using f(1) by (intro exI [of _ a] conjI exI [of _ s'] exI [of _ st] exI [of _ p]) (simp_all add: processor_at_def)
qed

lemma qlist_unique: "qlist m p xs \<Longrightarrow> qlist m p ys \<Longrightarrow> xs = ys"
proof (induction xs arbitrary: p ys)
  case (Cons x xs)
  then obtain zs where "ys = x # zs" by (cases ys) auto
  with Cons show ?case by auto
qed simp

lemma holds_unique: "holds s a f xs \<Longrightarrow> holds s a f ys \<Longrightarrow> xs = ys"
  by (auto simp: holds_def dest: qlist_unique)

subsection \<open>Witnesses\<close>

fun q_used :: "qos_event list \<Rightarrow> u32 list" where
  "q_used [] = []"
| "q_used (Q_calloc t a # es) = a # q_used es"
| "q_used (e # es) = q_used es"

lemma q_used_iff: "a \<in> set (q_used es) \<longleftrightarrow> (\<exists>t. Q_calloc t a \<in> set es)"
  by (induction es rule: q_used.induct) auto

text \<open>A bridge with one heap, and an allocator with room for twenty objects.\<close>

definition q0 :: qos_bridge where
  "q0 = \<lparr>qb_calloc = (\<lambda>es tid. case find (\<lambda>a. a \<notin> set (q_used es)) (map (\<lambda>i. of_nat (16 * i + 16)) [0..<20]) of None \<Rightarrow> 0 | Some a \<Rightarrow> a),
     qb_put = (\<lambda>_. 0), qb_get = (\<lambda>es. (0, (if es = [] then 0 else case last es of Put_message c x y \<Rightarrow> c | _ \<Rightarrow> 0), 1, 2)),
     qb_info = (\<lambda>_ _. (0, \<lparr>ulSize = 64, ulTotalFreeSize = 32, ulLenMaxFreeBlock = 16, ulNumFreeBlocks = 2, ulNumAllocBlocks = 1,
        uCurrLoad = 5, uPredictedLoad = 6, uCurrDspFreq = 7, uPredictedFreq = 8\<rparr>)),
     qb_procs = [5, 6], qb_status = (\<lambda>_. 0), qb_handle = (\<lambda>_. 7)\<rparr>"

definition qs0 :: qos_state where
  "qs0 = \<lparr>objs = Map.empty, hProcessor = 0, hNode = 0, qlog = []\<rparr>"

lemma fresh_q0: "fresh_answers q0 qs0"
  by (auto simp: fresh_answers_def q0_def qs0_def q_used_iff find_Some_iff split: option.splits)

lemma bridge_ok_q0: "bridge_ok q0"
  by (simp add: bridge_ok_def q0_def)

lemma Create_q0: "map_option snd (DSPRegistry_Create q0 qs0) = Some 16"
  by code_simp

theorem DSPRegistry_Create_fills_witness:
  "\<exists>s' xs cs k. DSPRegistry_Create q0 qs0 = Some (s', 16) \<and> heaps_answered q0 k \<and> holds s' 16 Registry_resources xs
     \<and> contents s' xs = map Some cs \<and> subseq cs (rev (default_resources k)) \<and> (\<exists>s''. DSPRegistry_Delete 16 s' = Some s'' \<and> objs s'' = Map.empty)"
proof -
  have "\<exists>s'. DSPRegistry_Create q0 qs0 = Some (s', 16)" using Create_q0 by auto
  then obtain s' where s': "DSPRegistry_Create q0 qs0 = Some (s', 16)" by blast
  obtain t r where c: "DSPRegistry_Create q0 qs0 = Some (t, r)" "if r = 0 then objs t = objs qs0 else
     map_option qId (objs t r) = Some QOSDataType_Registry \<and> (\<exists>xs cs k. heaps_answered q0 k \<and> holds t r Registry_resources xs \<and> holds t r Registry_components []
       \<and> contents t xs = map Some cs \<and> (\<forall>x \<in> set xs. handled t x) \<and> subseq cs (rev (default_resources k))
       \<and> ((\<forall>u. Q_calloc u 0 \<notin> set (drop (length (qlog qs0)) (qlog t))) \<longrightarrow> cs = rev (default_resources k))
       \<and> (\<exists>s''. DSPRegistry_Delete r t = Some s'' \<and> objs s'' = objs qs0))"
    using DSPRegistry_Create_fills [OF fresh_q0] by blast
  have "t = s'" "r = 16" "r \<noteq> 0" "objs qs0 = Map.empty" using c(1) s' by (simp_all add: qs0_def)
  note eqs = this
  from c(2) [unfolded if_not_P [OF eqs(3)], unfolded eqs(1,2,4)] obtain xs cs k where "heaps_answered q0 k" "holds s' 16 Registry_resources xs" "contents s' xs = map Some cs"
      "subseq cs (rev (default_resources k))" "\<exists>s''. DSPRegistry_Delete 16 s' = Some s'' \<and> objs s'' = Map.empty" by blast
  with s' show ?thesis by (intro exI [of _ s'] exI [of _ xs] exI [of _ cs] exI [of _ k]) simp
qed

text \<open>A registry at 16 with two resources and a component, and a resource at 112 in no list.\<close>

definition qdata :: "u32 \<Rightarrow> u32 \<Rightarrow> qos_handler \<Rightarrow> qos_body \<Rightarrow> QOSDATA" where
  "qdata i n h b = \<lparr>qId = i, qNext = n, TypeSpecific = h, qbody = b\<rparr>"

definition qs1 :: qos_state where
  "qs1 = \<lparr>objs = [16 \<mapsto> qdata QOSDataType_Registry 0 Registry_handler (Registry \<lparr>ResourceRegistry = 48, ComponentRegistry = 64\<rparr>),
     32 \<mapsto> qdata QOSDataType_Memory_DynLoad 0 Memory_DynLoad_handler (Memory no_memory),
     48 \<mapsto> qdata QOSDataType_Memory_DynLoad 32 Memory_DynLoad_handler (Memory (no_memory\<lparr>heapId := 1\<rparr>)),
     64 \<mapsto> qdata QOSDataType_Component 0 Component_handler (Component (no_component\<lparr>resourceList := 80, dynDepLibList := 96\<rparr>)),
     80 \<mapsto> qdata QOSDataType_Peripheral_DMA 0 Resource_Default_handler Plain_data,
     96 \<mapsto> qdata QOSDataType_DynDependentLibrary 0 DynDependentLibrary_handler DynDepLib,
     112 \<mapsto> qdata QOSDataType_Memory_DynLoad 0 Memory_DynLoad_handler (Memory no_memory)],
     hProcessor = 7, hNode = 7, qlog = []\<rparr>"

lemma qs1_resources: "holds qs1 16 Registry_resources [48, 32]" "holds qs1 16 Registry_components [64]"
  by (simp_all add: holds_def list_head_def registry_at_def qs1_def qdata_def)

lemma qs1_ok: "registry_ok qs1 16 [48, 32] [(64, [80], [96])]"
  using qs1_resources
  by (auto simp: registry_ok_def plain_def list_head_def component_at_def qs1_def qdata_def qos_types)

theorem DSPRegistry_Add_Remove_witness:
  "(\<exists>s'. DSPRegistry_Add 16 112 qs1 = Some (s', 0) \<and> holds s' 16 Registry_resources [112, 48, 32])
   \<and> (\<exists>s'. DSPRegistry_Remove 16 32 qs1 = Some (s', 0) \<and> holds s' 16 Registry_resources [48])
   \<and> DSPRegistry_Remove 16 112 qs1 = Some (qs1, ENOENT_status)"
proof -
  let ?d = "qdata QOSDataType_Memory_DynLoad 0 Memory_DynLoad_handler (Memory no_memory)"
  have d: "objs qs1 112 = Some ?d" "objs qs1 32 = Some ?d" by (simp_all add: qs1_def)
  have t: "FindTargetList qs1 16 (qId ?d) = Some (Some Registry_resources)"
    by (simp add: FindTargetList_def qs1_def qdata_def qos_types DSPData_IsResource_def)
  note out = DSPRegistry_Add_Remove [OF qs1_resources(1) d(1) t]
  note inside = DSPRegistry_Add_Remove [OF qs1_resources(1) d(2) t]
  have 1: "\<exists>s'. DSPRegistry_Add 16 112 qs1 = Some (s', 0) \<and> holds s' 16 Registry_resources [112, 48, 32]"
    "DSPRegistry_Remove 16 112 qs1 = Some (qs1, ENOENT_status)" using out by auto
  have "\<exists>s'. DSPRegistry_Remove 16 32 qs1 = Some (s', 0) \<and> holds s' 16 Registry_resources [48]" using inside by auto
  with 1 show ?thesis by blast
qed

lemma qs1_matches: "matches qs1 QOSDataType_Memory_DynLoad [48, 32] = [48, 32]"
  by (simp add: matches_def qs1_def qdata_def)

theorem DSPRegistry_Find_resources_witness:
  "(\<exists>s'. DSPRegistry_Find q0 QOSDataType_Memory_DynLoad 16 1 qs1 = Some (s', EINVAL_status, [48], 2) \<and> updated qs1 s')
   \<and> (\<exists>s' st. DSPRegistry_Find q0 QOSDataType_Memory_DynLoad 16 4 qs1 = Some (s', st, [48, 32], 4) \<and> st \<ge> 0)"
proof -
  have r: "map_option qId (objs qs1 16) = Some QOSDataType_Registry" "(16 :: u32) \<noteq> 0" by (simp_all add: qs1_def qdata_def)
  have t: "DSPData_IsResource QOSDataType_Memory_DynLoad" by (simp add: DSPData_IsResource_def qos_types)
  have "\<forall>x \<in> set (matches qs1 QOSDataType_Memory_DynLoad [48, 32]). ready qs1 x"
    by (simp add: qs1_matches ready_def obj_ok_def) (simp add: qs1_def qdata_def no_memory_def EDynloadSram_def)
  note f = DSPRegistry_Find_resources [OF bridge_ok_q0 qs1_resources(1) r t this, unfolded qs1_matches]
  show ?thesis using f [of 1] f [of 4] by auto
qed

theorem DSPRegistry_Delete_frees_witness:
  "\<exists>s'. DSPRegistry_Delete 16 qs1 = Some s' \<and> objs s' 112 = objs qs1 112
     \<and> filter is_free (qlog s') = map Q_free [48, 32, 80, 96, 64, 16]"
proof -
  have "filter is_free (qlog qs1) = []" by (simp add: qs1_def)
  then show ?thesis using DSPRegistry_Delete_frees [OF qs1_ok] by (auto simp: registry_objects_def)
qed

end
