(* ===== verification/RM_Qos.thy ===== *)
theory RM_Qos
  imports Resource_Manager Qos_Registry
begin

section \<open>The resource manager over the quality-of-service library\<close>

text \<open>
  \<open>RM_GetQos\<close> creates a registry, reads its list of resources, asks for the load of the DSP and, when that
  fails, searches the registry for the processor. Its parameter \<open>qos_env\<close> holds the answers; here they are those
  of the model of the library.
\<close>

text \<open>What the loop over the resources reads: whether a resource is a dynamic heap, and which.\<close>

definition registry_view :: "qos_state \<Rightarrow> u32 list \<Rightarrow> (bool \<times> nat) list" where
  "registry_view t xs = map (\<lambda>x. case objs t x of None \<Rightarrow> (False, 0)
     | Some d \<Rightarrow> (qId d = QOSDataType_Memory_DynAlloc, case qbody d of Memory m \<Rightarrow> unat (heapId m) | _ \<Rightarrow> 0)) xs"

definition processor_loads :: "qos_state \<Rightarrow> u32 list \<Rightarrow> u32 list" where
  "processor_loads t as = List.map_filter (\<lambda>a. map_option currentLoad (processor_at t a)) as"

text \<open>
  The answers after the registry \<open>r\<close> of the state \<open>t\<close> was created: the load when the bridge gives it, otherwise
  that of the processors that the second search of the registry returns, of the size that the first one found.
\<close>

definition library_answers :: "qos_bridge \<Rightarrow> qos_state \<Rightarrow> u32 \<Rightarrow> u32 list \<Rightarrow> qos_env \<Rightarrow> qos_env" where
  "library_answers q t r xs e =
     (let (t1, st, out) = QosTI_GetProcLoadStat q t
      in e\<lparr>q_create := r \<noteq> 0, q_resources := registry_view t xs, q_load := map_option fst out,
           q_found := (case DSPRegistry_Find q QOSDataType_Processor_C6X r 0 t1 of None \<Rightarrow> []
             | Some (t2, st2, as, n) \<Rightarrow>
                 (case DSPRegistry_Find q QOSDataType_Processor_C6X r n t2 of None \<Rightarrow> []
                  | Some (t3, st3, as', n') \<Rightarrow> processor_loads t3 as'))\<rparr>)"

lemma all_heaps_listed: "(QOSDataType_Memory_DynAlloc, Memory (no_memory\<lparr>heapId := KAllHeaps_id\<rparr>)) \<in> set (rev (default_resources k))"
  by (simp add: default_resources_def default_memory_resources_def)

lemma registry_view_all_heaps:
  assumes "contents t xs = map Some (rev (default_resources k))"
  shows "(True, 256) \<in> set (registry_view t xs)"
proof -
  have "Some (QOSDataType_Memory_DynAlloc, Memory (no_memory\<lparr>heapId := KAllHeaps_id\<rparr>)) \<in> set (contents t xs)"
    unfolding assms using all_heaps_listed by (simp only: set_map image_eqI)
  then obtain x where m: "x \<in> set xs" "map_option (\<lambda>d. (qId d, qbody d)) (objs t x)
      = Some (QOSDataType_Memory_DynAlloc, Memory (no_memory\<lparr>heapId := KAllHeaps_id\<rparr>))"
    unfolding contents_def by (auto simp del: map_option_eq_Some)
  then obtain d where x: "x \<in> set xs" "objs t x = Some d" "qId d = QOSDataType_Memory_DynAlloc"
      "qbody d = Memory (no_memory\<lparr>heapId := KAllHeaps_id\<rparr>)" by auto
  then have "(True, 256) = (case objs t x of None \<Rightarrow> (False, 0)
     | Some d \<Rightarrow> (qId d = QOSDataType_Memory_DynAlloc, case qbody d of Memory m \<Rightarrow> unat (heapId m) | _ \<Rightarrow> 0))"
    by (simp add: KAllHeaps_id_def)
  then show ?thesis using x(1) unfolding registry_view_def by (simp only: set_map image_eqI)
qed

text \<open>Other states with the same objects.\<close>

lemma same_objects:
  assumes "objs t' = objs t"
  shows "holds t' a f xs = holds t a f xs" and "contents t' xs = contents t xs" and "handled t' x = handled t x"
proof -
  have "list_head t' a f = list_head t a f" by (rule list_head_other) (simp add: assms)
  then show "holds t' a f xs = holds t a f xs" using assms by (simp add: holds_def)
qed (simp_all add: contents_def handled_def assms)

text \<open>
  C38: On a new registry for which no allocation failed, the request for a share of the DSP that asks for no heap
  is decided by the load: that of the bridge, or when the bridge does not give it, that of the processor in
  the registry. It is never decided by a resource that is missing, and the search always finds the processor.
\<close>

theorem RM_GetQos_over_registry:
  assumes "fresh_answers q s" and "DSPRegistry_Create q s = Some (t, r)" and "r \<noteq> 0"
    and "\<forall>tid. Q_calloc tid 0 \<notin> set (drop (length (qlog s)) (qlog t))" and "holds t r Registry_resources xs"
    and "rm_wf m" and "\<not> stub_mode m" and "qos_ready (re_qos env)" and "get_omap_version (re_ram env) \<noteq> OMAP_NOT_SUPPORTED"
    and "rmParam3 (cmd_data m) = 0" and "re_qos env = library_answers q t r xs e" and "q_malloc e"
  shows "\<exists>load m'. RM_GetQos env m = Some (rmParam2 (cmd_data m) \<le> word_of_int (get_dsp_max_freq (re_ram env)) - load, m')
    \<and> (case snd (snd (QosTI_GetProcLoadStat q t)) of Some out \<Rightarrow> load = fst out
       | None \<Rightarrow> \<exists>t2 st a p. DSPRegistry_Find q QOSDataType_Processor_C6X r 1 (fst (QosTI_GetProcLoadStat q t)) = Some (t2, st, [a], 1)
           \<and> processor_at t2 a = Some p \<and> load = currentLoad p)"
proof -
  obtain ys cs k where c: "map_option qId (objs t r) = Some QOSDataType_Registry" "holds t r Registry_resources ys"
      "contents t ys = map Some cs" "\<forall>x \<in> set ys. handled t x" "cs = rev (default_resources k)"
    using DSPRegistry_Create_grown [OF assms(1-4)] by blast
  have xs: "ys = xs" by (rule holds_unique [OF c(2) assms(5)])
  obtain t1 st1 out where o: "QosTI_GetProcLoadStat q t = (t1, st1, out)" by (metis surj_pair)
  have t1: "objs t1 = objs t" by (rule ProcLoadStat_objs [OF o])
  obtain a t2 st p where f: "DSPRegistry_Find q QOSDataType_Processor_C6X r 0 t1 = Some (t1, - 22, [], 1)"
      "DSPRegistry_Find q QOSDataType_Processor_C6X r 1 t1 = Some (t2, st, [a], 1)" "processor_at t2 a = Some p"
    using new_registry_processor [of t1 r xs k q] c assms(3) xs by (auto simp: same_objects [OF t1] t1)
  define load where "load = (case out of Some v \<Rightarrow> fst v | None \<Rightarrow> currentLoad p)"
  have l: "q_found (re_qos env) = [currentLoad p]" "q_load (re_qos env) = map_option fst out" "q_malloc (re_qos env)"
      "q_resources (re_qos env) = registry_view t xs"
    using assms(11,12) o f by (simp_all add: library_answers_def processor_loads_def List.map_filter_def)
  have d: "dsp_load (re_qos env) = Some (Some load)" using l by (cases out) (simp_all add: dsp_load_def load_def rd_def)
  have h: "(True, 256) \<in> set (q_resources (re_qos env))" using registry_view_all_heaps [of t xs k] c(3,5) xs l(4) by simp
  have m: "memory_check (re_qos env) (rmParam3 (cmd_data m)) = Some True" using assms(10) by (simp add: memory_check_def)
  obtain m' where "RM_GetQos env m = Some (rmParam2 (cmd_data m) \<le> word_of_int (get_dsp_max_freq (re_ram env)) - load, m')"
    using RM_GetQos_closed [OF assms(6-9) h m d] by auto
  then show ?thesis using o f by (intro exI [of _ load] exI [of _ m']) (cases out, auto simp: load_def)
qed

text \<open>A bridge that does not give the load.\<close>

definition q1 :: qos_bridge where
  "q1 = q0\<lparr>qb_info := (\<lambda>_ _. (- 1, \<lparr>ulSize = 0, ulTotalFreeSize = 0, ulLenMaxFreeBlock = 0, ulNumFreeBlocks = 0, ulNumAllocBlocks = 0,
        uCurrLoad = 0, uPredictedLoad = 0, uCurrDspFreq = 0, uPredictedFreq = 0\<rparr>))\<rparr>"

lemma fresh_q1: "fresh_answers q1 qs0"
  using fresh_q0 by (simp add: fresh_answers_def q1_def)

definition all_allocated :: "qos_event list \<Rightarrow> bool" where
  "all_allocated es = list_all (\<lambda>e. case e of Q_calloc t a \<Rightarrow> a \<noteq> 0 | _ \<Rightarrow> True) es"

lemma Create_q1: "map_option (\<lambda>(t, r). (all_allocated (qlog t), r)) (DSPRegistry_Create q1 qs0) = Some (True, 16)"
  by code_simp

theorem RM_GetQos_over_registry_witness:
  "\<exists>t xs load m' t2 st a p. DSPRegistry_Create q1 qs0 = Some (t, 16)
     \<and> RM_GetQos (demo_env\<lparr>re_qos := library_answers q1 t 16 xs demo_qos\<rparr>) (two_clients\<lparr>cmd_data := mk_rm RM_RequestResource 16 7 1 0\<rparr>)
       = Some (0 \<le> word_of_int (get_dsp_max_freq omap3440_env) - load, m')
     \<and> DSPRegistry_Find q1 QOSDataType_Processor_C6X 16 1 (fst (QosTI_GetProcLoadStat q1 t)) = Some (t2, st, [a], 1)
     \<and> processor_at t2 a = Some p \<and> load = currentLoad p"
proof -
  obtain t where t: "DSPRegistry_Create q1 qs0 = Some (t, 16)" "all_allocated (qlog t)" using Create_q1 by auto
  have a: "\<forall>tid. Q_calloc tid 0 \<notin> set (drop (length (qlog qs0)) (qlog t))"
    using t(2) by (auto simp: qs0_def all_allocated_def list_all_iff)
  obtain xs where xs: "holds t 16 Registry_resources xs" using DSPRegistry_Create_grown [OF fresh_q1 t(1) _ a] by auto
  let ?e = "library_answers q1 t 16 xs demo_qos" and ?m = "two_clients\<lparr>cmd_data := mk_rm RM_RequestResource 16 7 1 0\<rparr>"
  have e: "qos_ready ?e" "q_malloc demo_qos"
    by (auto simp: qos_ready_def library_answers_def demo_qos_def qos_processor_def split: prod.splits)
  have m: "rm_wf ?m" "\<not> stub_mode ?m" "rmParam3 (cmd_data ?m) = 0" "rmParam2 (cmd_data ?m) = 0"
    using two_clients_simps by (simp_all add: mk_rm_def)
  have r: "get_omap_version (re_ram (demo_env\<lparr>re_qos := ?e\<rparr>)) \<noteq> OMAP_NOT_SUPPORTED" "re_ram demo_env = omap3440_env"
    by (simp_all add: demo_env_def)
  have o: "snd (snd (QosTI_GetProcLoadStat q1 t)) = None" by (simp add: QosTI_GetProcLoadStat_def q1_def DSP_SUCCEEDED_def)
  show ?thesis
    using RM_GetQos_over_registry [OF fresh_q1 t(1) _ a xs m(1,2) _ r(1) m(3), of demo_qos] e m(4) r(2) o t(1) by auto
qed

end
