(* ===== verification/Spec2Isabelle.thy ===== *)
theory Spec2Isabelle
  imports Policy_Table OMX_Core RM_Proxy Dload_Fields Dload_List Dynreg RM_Qos
begin

text \<open>
  Verification of the OMX resource management and of the DSP module loader of the TI OMAP3 hardware
  layer.

  The program. An OMX client on the ARM processor creates codec components through the OMX core.
  A component asks for its share of the DSP through a library, the resource manager proxy, which
  talks over a pipe to the resource manager daemon; the daemon asks the policy manager daemon over
  another pipe whether the component may run beside those that run already, and checks the load
  of the DSP. The resource activity monitor is the part of the daemon that sets the operating points of
  the processors. The code that runs on the DSP comes in DOFF files: the registration utility
  reads their sections and tells the bridge driver which nodes they hold, the dynamic loader places
  a module in target memory, resolves its symbols and relocates it.

  Theories, with the files they model.
    \<^item> \<open>Prelude\<close>: arrays with checked accesses, scans, runs of a machine (\<open>exec\<close>) and the interfaces as
      locales: \<open>table_registry\<close> and \<open>set_registry\<close> (a table that one operation enters a key into and
      another removes it from), \<open>guarded_machine\<close> (a step function that keeps an invariant under a guard).
    \<^item> \<open>C_Strings\<close>: the string functions of the C library that the programs use.
    \<^item> \<open>Policy_Manager\<close>, \<open>Policy_Table\<close>: \<open>omx_policy_manager/src/PolicyManager.c\<close>, the daemon with its
      handlers and main loop, and the parser of its table of policies.
    \<^item> \<open>OMX_Core\<close>: \<open>omx_core/src/OMX_Core.c\<close>, the component table, handles, tunnels and role queries.
    \<^item> \<open>Activity_Monitor\<close>: \<open>resource_activity_monitor/src/Resource_Activity_Monitor.c\<close>.
    \<^item> \<open>Resource_Manager\<close>: \<open>resource_manager/src/ResourceManager.c\<close>, the daemon and its fatal-error thread.
    \<^item> \<open>RM_Proxy\<close>: \<open>resource_manager_proxy/src/ResourceManagerProxy.c\<close>, the library and its thread.
    \<^item> \<open>Dload_Words\<close>, \<open>Dload_Symtab\<close>, \<open>Dload_State\<close>: byte order and checksums of DOFF files, the symbol
      table (\<open>DLsymtab.c\<close>, \<open>DLsymtab_support.c\<close>) with its interface \<open>symbol_manager\<close>, and the state of the loader.
    \<^item> \<open>Dload_Reloc\<close>, \<open>Dload_Expr\<close>, \<open>Dload_Fields\<close>, \<open>Dload_Frame\<close>: \<open>reloc.c\<close> with the tables of
      \<open>reloc_table_c6000.c\<close>; expressions, fields, and what a relocation leaves alone.
    \<^item> \<open>Dload_Module\<close>: the readers of \<open>cload.c\<close> and the queries of \<open>getsection.c\<close>.
    \<^item> \<open>Dload_Load\<close>, \<open>Dload_Cinit\<close>, \<open>Dload_Data\<close>, \<open>Dload_View\<close>: the rest of \<open>cload.c\<close>: sections and symbols,
      the interpreter of the initialisation table, the packets, the list of modules, \<open>Dynamic_Load_Module\<close>,
      \<open>Dynamic_Open_Module\<close> and \<open>Dynamic_Unload_Module\<close>. \<open>Dload_Owned\<close> and \<open>Dload_List\<close> are about them: the memory
      of a load, and the list of modules on both sides.
    \<^item> \<open>Qos_Registry\<close>: \<open>dspbridge/qos\<close> (\<open>QOSRegistry.c\<close>, \<open>QOSResource.c\<close>, \<open>QOSComponent.c\<close>, \<open>qosti.c\<close>), the
      registry of DSP resources as linked lists in a heap; \<open>RM_Qos\<close>: the resource manager over it.
    \<^item> \<open>Dynreg\<close>: \<open>dynreg.c\<close>, \<open>csl.c\<close> and \<open>uuidutil.c\<close>, the registration utility.
    \<^item> This theory: the properties of the daemons and the proxy together.

  How the code is modelled. Structures are records, enumerations and messages are datatypes, machine
  integers are words of their width, or \<open>int\<close> where the C value is bounded by what the code checks.
  A function returns an option: \<^const>\<open>None\<close> is undefined behaviour, an access outside an array, a null or dangling
  pointer. Errors are values, as the code returns them. A thread or daemon is a step
  function on its state and one message, with the messages it sends as output; \<open>exec\<close> runs it.
  Names are those of the code; a piece of a function that has a name of its own is mapped to its lines.
  What is outside the repository is a parameter: pipes, sysfs files, the bridge driver, memory
  allocation, the objects that \<open>Dynamic_Load_Module\<close> is given. The records \<open>core_env\<close>, \<open>ram_env\<close>, \<open>qos_env\<close>,
  \<open>rm_env\<close>, \<open>px_env\<close>, \<open>dl_env\<close>, \<open>qos_bridge\<close> and \<open>dynreg_env\<close> hold its answers.

  What the lemmas show.
    \<^item> Policy manager: a request is decided as the specification \<open>pm_decide\<close> says; an
      invariant of the lists is kept by every command; the victim of a preemption; granting and
      removing are inverse; the table is read back from its text and bounded.
    \<^item> OMX core: the table is the specification \<open>table_of\<close>; getting a handle is a transaction,
      freeing it is its inverse.
    \<^item> Activity monitor: the operating point chosen is the least sufficient one, the constraint written is it.
    \<^item> Resource manager: the main loop stays within its tables; who is answered; the decision on the load;
      no grant during recovery; every client hears of a fault.
    \<^item> Proxy: a request returns the answer of its component; what preemption messages do to a pending request.
    \<^item> Loader: the symbol table refines a map with shadowing; the field operations are inverse with exact
      overflow reports; the look-up of relocation types equals a search; relocation expressions evaluate to their
      value; branches keep their destination; a well-formed file opens in either byte order and its
      sections are read back; the packet loop equals the direct reading of the file; the interpreter of the
      initialisation table ends and stays within its packet, and carries out the table; a load gives its memory
      back; loading and unloading are insertion in and removal from the list that a debugger reads.
    \<^item> QoS registry: its linked lists are lists, with searches that count and return what is there; creating it
      fills it or leaks nothing, deleting it frees all it owns once; \<open>RM_GetQos\<close> finds in it what it relies on.
    \<^item> Registration: registering and unregistering a library are inverse.

  Bounds and recursion. There is no fuel: loops are structural recursions or have a measure (the bytes left
  of a packet, the relocations left, the rest of a text), and walks along linked lists are partial functions,
  which are shown to return on lists. Loops that serve messages for ever are runs
  over a finite list of messages. The tables keep their C bounds, and leaving them is \<^const>\<open>None\<close>.

  Not modelled.
    \<^item> The audio, video and image codecs under \<open>omx/\<close>, the camera and the JPEG encoder: drivers of
      DSP algorithms that are not in the repository, and mostly C++ glue or copies of one
      state machine; \<open>lcml\<close>, the transport between them and the bridge, with its threads and shared buffers.
    \<^item> \<open>dspbridge/libbridge\<close>: each function checks its arguments and issues one \<open>ioctl\<close>.
    \<^item> The test programs and utilities of \<open>dspbridge\<close> (\<open>cexec\<close>, \<open>ping\<close>, \<open>qostest\<close>, \<open>dmmcopy\<close> and others), \<open>perf\<close>, the heap tracker.
    \<^item> \<open>hwc\<close>, \<open>ion\<close>, \<open>liblights\<close>, \<open>libtiutils\<close>, \<open>libstagefrighthw\<close>: interfaces to the graphics and kernel drivers.
    \<^item> \<open>security\<close>: clients of a secure monitor outside the repository; \<open>libexif\<close>: vendored.
    \<^item> Builds other than the one of the makefiles: other targets of the loader than TMS320C6000, the branches
      \<open>OPT_ZERO_COPY_LOADER\<close>, \<open>_FROYO\<close>, \<open>DVFS_ENABLED\<close> where it is off. The texts of log and error messages are not modelled,
      only that an error is reported.
    \<^item> Interleaving inside a handler: handlers and rounds of a thread are atomic.
\<close>

section \<open>The processes together\<close>

lemma preemption_message:
  assumes "rm_step s (Policy env r) = Some (s1, [To_client fd m])" and "rm_wf s" and "\<not> stub_mode s" and "prCmd r = PM_PREEMPTED"
  shows "rmPid m = rmPid (cmd_data s) \<and> rmStatus m = RM_PREEMPT \<and> rm_wf s1 \<and> rm_keys s1 = rm_keys s \<and> rmNum s1 = rmNum s \<and> \<not> stub_mode s1"
proof -
  let ?d = "(cmd_data s)\<lparr>rmStatus := RM_PREEMPT, rmComponent := prComponent r\<rparr>"
  have w: "rm_wf (s\<lparr>cmd_data := ?d\<rparr>)" using assms by simp
  from RM_SetStatus_spec [OF w, of "prComponent r" "rmPid (cmd_data s)" RM_WaitingForClient] obtain s2 where
    s2: "RM_SetStatus (s\<lparr>cmd_data := ?d\<rparr>) (prComponent r) (rmPid (cmd_data s)) RM_WaitingForClient = Some s2"
      "rm_replaced (rcStatus_update (\<lambda>_. RM_WaitingForClient)) (prComponent r, rmPid (cmd_data s)) (s\<lparr>cmd_data := ?d\<rparr>) s2" by blast
  then obtain l where l: "s2 = s\<lparr>cmd_data := ?d, rmList := l\<rparr>" by (auto simp: rm_replaced_def)
  have w2: "rm_wf s2" using s2(2) by (simp add: rm_replaced_def)
  have "s1 = s2" "m = ?d"
    using assms(1,3,4) s2(1) w2 l
    by (auto simp: rm_step_def rm_policy_def Let_def RM_GetPipe_closed client_write_def split: if_splits)
  moreover have "rm_keys s2 = rm_keys s" using core_keys(1) [of s2 s] core_status [OF s2(2)] by simp
  ultimately show ?thesis using w2 l assms(3) by simp
qed

lemma request_step:
  assumes "\<not> stub_mode s" and "rmCmd c = RM_RequestResource"
  shows "rm_step s (Client env (Some c)) = Some (s\<lparr>cmd_data := c, globalrequest := (globalrequest s)\<lparr>rmComponent := rmComponent c,
    rmPid := rmPid c, rmCmd := RM_RequestResource, rmParam1 := rmParam1 c\<rparr>\<rparr>, [To_policy (policy_cmd PM_RequestPolicy c)])"
  using assms by (simp add: rm_step_def rm_client_def HandleRequestResource_def)


definition interrupted :: rm_state where
  "interrupted = two_clients\<lparr>cmd_data := mk_rm RM_StateSet 32 8 31 3\<rparr>"

lemma interrupted_preempts:
  "rm_step interrupted (Policy demo_env (PreemptComponent 16 7))
     = Some (interrupted\<lparr>cmd_data := (mk_rm RM_StateSet 16 8 31 3)\<lparr>rmStatus := RM_PREEMPT\<rparr>\<rparr>,
             [To_client 4 ((mk_rm RM_StateSet 16 8 31 3)\<lparr>rmStatus := RM_PREEMPT\<rparr>)])"
proof -
  let ?s = "two_clients\<lparr>cmd_data := (mk_rm RM_StateSet 16 8 31 3)\<lparr>rmStatus := RM_PREEMPT\<rparr>\<rparr>"
  have w: "rm_wf ?s" using two_clients_simps by simp
  have "first_index (\<lambda>c. rm_key c = (16, 8)) (rm_used ?s) = None"
    using absent_index [OF w, of "(16, 8)"] two_clients_simps by simp
  then have "RM_SetStatus ?s 16 8 RM_WaitingForClient = Some ?s"
    using w by (simp add: RM_SetStatus_def RM_GetListIndex_closed)
  moreover have "RM_GetPipe ?s 16 7 = Some 4" using w two_clients_simps by (simp add: RM_GetPipe_closed)
  ultimately show ?thesis
    using two_clients_simps(2)
    by (simp add: rm_step_def rm_policy_def PreemptComponent_def interrupted_def mk_rm_def client_write_def)
qed



lemma demo_qos_grants:
  "\<exists>sq. RM_GetQos demo_env (two_clients\<lparr>cmd_data := mk_rm RM_RequestResource 16 7 1 0, globalrequest := g\<rparr>) = Some (True, sq)"
proof -
  let ?s = "two_clients\<lparr>cmd_data := mk_rm RM_RequestResource 16 7 1 0, globalrequest := g\<rparr>"
  have "rm_wf ?s" "\<not> stub_mode ?s" using two_clients_simps by simp_all
  moreover have "qos_ready (re_qos demo_env)" "get_omap_version (re_ram demo_env) \<noteq> OMAP_NOT_SUPPORTED"
    "(True, KAllHeaps) \<in> set (q_resources (re_qos demo_env))" "dsp_load (re_qos demo_env) = Some (Some 600)"
    by (simp_all add: demo_env_def qos_ready_def demo_qos_def qos_processor_def dsp_load_def)
  moreover have "memory_check (re_qos demo_env) (rmParam3 (cmd_data ?s)) = Some True" "rmParam2 (cmd_data ?s) = 0"
    by (simp_all add: memory_check_def mk_rm_def)
  ultimately show ?thesis using RM_GetQos_closed [of ?s demo_env True 600] by auto
qed


end
